(* ===== verification/JsBase.thy ===== *)
theory JsBase
  imports Complex_Main
begin

text \<open>
  The prelude: the JavaScript values and string operations the modelled TypeScript uses,
  and the generic lemmas the components share.

  \<^item> A finite JavaScript number is an exact rational (\<open>rat\<close>): floating-point rounding is not
    modelled. Where the code itself tests for \<open>NaN\<close> or an infinity (untrusted input), the
    value is a \<open>jsnum\<close>.
  \<^item> A value of type \<open>unknown\<close> (parsed JSON) is a \<open>jsval\<close>.
  \<^item> A string is a list of characters with codes 0 to 255: the Latin-1 part of UTF-16.
    White space and lower-casing follow ECMAScript on that range.
\<close>

section \<open>Fact collections\<close>

named_theorems js_defs "definitions of the small JavaScript helpers"
named_theorems decision_defs "definitions of pure decision functions, for case analysis"

section \<open>Numbers\<close>

datatype jsnum = Fin rat | PosInf | NegInf | NaN

definition js_floor :: "rat \<Rightarrow> rat" where
  "js_floor x = of_int \<lfloor>x\<rfloor>"

definition js_ceil :: "rat \<Rightarrow> rat" where
  "js_ceil x = of_int \<lceil>x\<rceil>"

text \<open>\<open>Math.round\<close> rounds half up, also for negative numbers.\<close>

definition js_round :: "rat \<Rightarrow> rat" where
  "js_round x = of_int \<lfloor>x + 1/2\<rfloor>"

lemma js_floor_le [simp]: "js_floor x \<le> x"
  by (simp add: js_floor_def)

lemma js_floor_of_int [simp]: "js_floor (of_int i) = of_int i"
  by (simp add: js_floor_def)

lemma js_floor_idem [simp]: "js_floor (js_floor x) = js_floor x"
  by (simp add: js_floor_def)

lemma js_floor_mono_int: "of_int k \<le> x \<Longrightarrow> of_int k \<le> js_floor x"
  by (simp add: js_floor_def le_floor_iff)

lemma js_floor_numeral_le: "numeral k \<le> x \<Longrightarrow> numeral k \<le> js_floor x"
  using js_floor_mono_int [of "numeral k" x] by simp

lemma js_floor_numeral [simp]: "js_floor (numeral k) = numeral k"
  by (simp add: js_floor_def)

lemma js_ceil_ge [simp]: "x \<le> js_ceil x"
  by (simp add: js_ceil_def)

lemma js_round_close: "\<bar>js_round x - x\<bar> \<le> 1/2"
  unfolding js_round_def by linarith

section \<open>Values of unknown type\<close>

text \<open>
  What \<open>JSON.parse\<close> can produce, plus \<open>undefined\<close>. An object is the list of its own
  properties. Reading a property of a non-object is never done by the modelled code without
  the guard \<open>raw && typeof raw === 'object'\<close>; arrays are objects without the named property.
\<close>

datatype jsval =
    JUndef
  | JNull
  | JBool bool
  | JNum jsnum
  | JStr string
  | JArr "jsval list"
  | JObj "(string \<times> jsval) list"

text \<open>\<open>(raw && typeof raw === 'object') ? raw : {}\<close> followed by a property read.\<close>

fun js_prop :: "jsval \<Rightarrow> string \<Rightarrow> jsval" where
  "js_prop (JObj ps) k = (case map_of ps k of Some v \<Rightarrow> v | None \<Rightarrow> JUndef)"
| "js_prop _ k = JUndef"

text \<open>\<open>v === true\<close> and \<open>v !== false\<close>.\<close>

definition is_true :: "jsval \<Rightarrow> bool" where
  "is_true v \<longleftrightarrow> v = JBool True"

definition not_false :: "jsval \<Rightarrow> bool" where
  "not_false v \<longleftrightarrow> v \<noteq> JBool False"

lemma is_true_JBool [simp]: "is_true (JBool b) = b"
  by (simp add: is_true_def)

lemma not_false_JBool [simp]: "not_false (JBool b) = b"
  by (simp add: not_false_def)

text \<open>A finite number of type \<open>number\<close>: \<open>typeof v === 'number' && Number.isFinite(v)\<close>.\<close>

fun finite_num :: "jsval \<Rightarrow> rat option" where
  "finite_num (JNum (Fin x)) = Some x"
| "finite_num _ = None"

fun num_or_null :: "rat option \<Rightarrow> jsval" where
  "num_or_null None = JNull"
| "num_or_null (Some x) = JNum (Fin x)"

fun str_or_null :: "string option \<Rightarrow> jsval" where
  "str_or_null None = JNull"
| "str_or_null (Some s) = JStr s"

lemma finite_num_or_null [simp]: "finite_num (num_or_null x) = x"
  by (cases x) simp_all

section \<open>Strings\<close>

definition code :: "char \<Rightarrow> nat" where
  "code c = of_char c"

definition is_ws :: "char \<Rightarrow> bool" where
  "is_ws c \<longleftrightarrow> code c \<in> {9, 10, 11, 12, 13, 32, 160}"

definition is_digit :: "char \<Rightarrow> bool" where
  "is_digit c \<longleftrightarrow> 48 \<le> code c \<and> code c \<le> 57"

text \<open>The class \<open>\w\<close>.\<close>

definition is_word :: "char \<Rightarrow> bool" where
  "is_word c \<longleftrightarrow> is_digit c \<or> (65 \<le> code c \<and> code c \<le> 90)
                \<or> (97 \<le> code c \<and> code c \<le> 122) \<or> code c = 95"

definition js_trim :: "string \<Rightarrow> string" where
  "js_trim s = rev (dropWhile is_ws (rev (dropWhile is_ws s)))"

definition lower_char :: "char \<Rightarrow> char" where
  "lower_char c = (if (65 \<le> code c \<and> code c \<le> 90) \<or> (192 \<le> code c \<and> code c \<le> 222 \<and> code c \<noteq> 215)
                   then char_of (code c + 32) else c)"

definition js_lower :: "string \<Rightarrow> string" where
  "js_lower s = map lower_char s"

definition starts_with :: "string \<Rightarrow> string \<Rightarrow> bool" where
  "starts_with s p \<longleftrightarrow> take (length p) s = p"

text \<open>\<open>s.includes(p)\<close>.\<close>

fun str_includes :: "string \<Rightarrow> string \<Rightarrow> bool" where
  "str_includes s p = (starts_with s p \<or> (case s of [] \<Rightarrow> False | _ # t \<Rightarrow> str_includes t p))"

declare str_includes.simps [simp del]

text \<open>\<open>s.split(c)\<close> for a one-character separator: always at least one part.\<close>

fun split_on :: "char \<Rightarrow> string \<Rightarrow> string list" where
  "split_on d [] = [[]]"
| "split_on d (c # cs) =
     (if c = d then [] # split_on d cs
      else (case split_on d cs of [] \<Rightarrow> [[c]] | p # ps \<Rightarrow> (c # p) # ps))"

fun join_with :: "string \<Rightarrow> string list \<Rightarrow> string" where
  "join_with sep [] = []"
| "join_with sep [x] = x"
| "join_with sep (x # y # xs) = x @ sep @ join_with sep (y # xs)"

text \<open>\<open>s.indexOf(c)\<close> for one character; \<open>None\<close> is \<open>-1\<close>.\<close>

fun index_of :: "char \<Rightarrow> string \<Rightarrow> nat option" where
  "index_of d [] = None"
| "index_of d (c # cs) = (if c = d then Some 0 else map_option Suc (index_of d cs))"

text \<open>The value of a string of decimal digits (\<open>Number(s)\<close> on \<open>/\d+/\<close>).\<close>

definition digit_val :: "char \<Rightarrow> nat" where
  "digit_val c = code c - 48"

definition digits_val :: "string \<Rightarrow> nat" where
  "digits_val s = foldl (\<lambda>n c. 10 * n + digit_val c) 0 s"

text \<open>\<open>String(n)\<close> for a natural number.\<close>

fun show_nat :: "nat \<Rightarrow> string" where
  "show_nat n = (if n < 10 then [char_of (48 + n)] else show_nat (n div 10) @ [char_of (48 + n mod 10)])"

declare show_nat.simps [simp del]

lemma starts_with_Nil [simp]: "starts_with s []"
  by (simp add: starts_with_def)

lemma starts_with_Nil2 [simp]: "starts_with [] p \<longleftrightarrow> p = []"
  by (auto simp: starts_with_def)

lemma starts_with_Cons [simp]:
  "starts_with (c # s) (d # p) \<longleftrightarrow> c = d \<and> starts_with s p"
  by (auto simp: starts_with_def)

lemma starts_with_append [simp]: "starts_with (p @ s) p"
  by (simp add: starts_with_def)

lemma starts_with_iff: "starts_with s p \<longleftrightarrow> (\<exists>t. s = p @ t)"
  by (metis append_take_drop_id starts_with_append starts_with_def)

lemma dropWhile_idem_rev:
  "dropWhile P (rev (dropWhile P (rev (dropWhile P s)))) = rev (dropWhile P (rev (dropWhile P s)))"
proof (cases "dropWhile P s")
  case Nil
  then show ?thesis by (simp del: dropWhile_eq_Nil_conv)
next
  case (Cons c t)
  then have nP: "\<not> P c" by (metis hd_dropWhile list.distinct(1) list.sel(1))
  have "rev (dropWhile P (rev (c # t))) = c # rev (dropWhile P (rev t))"
    using nP by (simp add: dropWhile_append)
  with Cons nP show ?thesis by simp
qed

lemma js_trim_idem [simp]: "js_trim (js_trim s) = js_trim s"
  unfolding js_trim_def dropWhile_idem_rev by simp

lemma split_on_nonempty [simp]: "split_on d s \<noteq> []"
  by (induction s) (auto split: list.splits)

lemma index_of_Some:
  "index_of d s = Some i \<Longrightarrow> i < length s \<and> s ! i = d \<and> d \<notin> set (take i s)"
proof (induction s arbitrary: i)
  case Nil
  then show ?case by simp
next
  case (Cons c cs)
  show ?case
  proof (cases "c = d")
    case True
    with Cons.prems show ?thesis by auto
  next
    case False
    with Cons.prems obtain j where "index_of d cs = Some j" and "i = Suc j" by auto
    with Cons.IH [of j] False show ?thesis by auto
  qed
qed

lemma digits_val_show_nat: "digits_val (show_nat n) = n"
proof (induction n rule: show_nat.induct)
  case (1 n)
  have *: "digit_val (char_of (48 + k)) = k" if "k < 10" for k :: nat
    using that by (simp add: digit_val_def code_def)
  show ?case
  proof (cases "n < 10")
    case True
    then show ?thesis by (simp add: show_nat.simps [of n] digits_val_def *)
  next
    case False
    with "1.IH" have "digits_val (show_nat (n div 10)) = n div 10" by simp
    with False show ?thesis by (simp add: show_nat.simps [of n] digits_val_def *)
  qed
qed

lemma show_nat_inject: "show_nat m = show_nat n \<longleftrightarrow> m = n"
  by (metis digits_val_show_nat)

lemma show_nat_digits: "c \<in> set (show_nat n) \<Longrightarrow> is_digit c"
proof (induction n rule: show_nat.induct)
  case (1 n)
  have *: "is_digit (char_of (48 + k))" if "k < 10" for k :: nat
    using that by (simp add: is_digit_def code_def)
  show ?case
  proof (cases "n < 10")
    case True
    with "1.prems" * show ?thesis by (auto simp: show_nat.simps [of n])
  next
    case False
    with "1.prems" "1.IH" * show ?thesis by (auto simp: show_nat.simps [of n])
  qed
qed

section \<open>Lists and options\<close>

lemma find_SomeD: "find P xs = Some x \<Longrightarrow> x \<in> set xs \<and> P x"
  by (induction xs) (auto split: if_splits)

lemma find_NoneD: "find P xs = None \<Longrightarrow> x \<in> set xs \<Longrightarrow> \<not> P x"
  by (induction xs) (auto split: if_splits)

lemma distinct_snoc [simp]: "distinct (xs @ [x]) \<longleftrightarrow> distinct xs \<and> x \<notin> set xs"
  by auto

end
