(* ===== verification/Regex.thy ===== *)
theory Regex
  imports JsBase
begin

text \<open>
  The regular expressions of the source, as a datatype with an executable matcher.
  \<open>rx_full r s\<close> is \<open>/^r$/.test(s)\<close> and \<open>rx_test r s\<close> is \<open>/r/.test(s)\<close> (no flags).
  The matcher consumes the string character by character; \<open>rx_full_iff\<close> ties it to the
  declarative language \<open>in_lang\<close>, which the proofs use.
  A word boundary after a literal or a digit is written as "end of input or a non-word
  character", which is what \<open>\b\<close> means behind a word character (\<open>word_end\<close>).
\<close>

datatype rx =
    RNone
  | REmpty
  | RChar "char \<Rightarrow> bool"
  | RSeq rx rx
  | RAlt rx rx
  | RStar rx

subsection \<open>The language\<close>

inductive in_lang :: "rx \<Rightarrow> string \<Rightarrow> bool" where
  lang_empty: "in_lang REmpty []"
| lang_char: "f c \<Longrightarrow> in_lang (RChar f) [c]"
| lang_seq: "in_lang r u \<Longrightarrow> in_lang s v \<Longrightarrow> in_lang (RSeq r s) (u @ v)"
| lang_alt1: "in_lang r u \<Longrightarrow> in_lang (RAlt r s) u"
| lang_alt2: "in_lang s u \<Longrightarrow> in_lang (RAlt r s) u"
| lang_star0: "in_lang (RStar r) []"
| lang_star1: "in_lang r u \<Longrightarrow> in_lang (RStar r) v \<Longrightarrow> in_lang (RStar r) (u @ v)"

inductive_simps in_lang_None [simp]: "in_lang RNone w"
inductive_simps in_lang_Empty [simp]: "in_lang REmpty w"
inductive_simps in_lang_Char [simp]: "in_lang (RChar f) w"
inductive_simps in_lang_Seq: "in_lang (RSeq r s) w"
inductive_simps in_lang_Alt [simp]: "in_lang (RAlt r s) w"
inductive_cases in_lang_StarE: "in_lang (RStar r) w"

subsection \<open>The matcher\<close>

fun accepts_empty :: "rx \<Rightarrow> bool" where
  "accepts_empty RNone = False"
| "accepts_empty REmpty = True"
| "accepts_empty (RChar f) = False"
| "accepts_empty (RSeq r s) = (accepts_empty r \<and> accepts_empty s)"
| "accepts_empty (RAlt r s) = (accepts_empty r \<or> accepts_empty s)"
| "accepts_empty (RStar r) = True"

text \<open>What is left to match after one character, with dead branches dropped.\<close>

fun mk_seq :: "rx \<Rightarrow> rx \<Rightarrow> rx" where
  "mk_seq RNone s = RNone"
| "mk_seq REmpty s = s"
| "mk_seq r s = RSeq r s"

fun mk_alt :: "rx \<Rightarrow> rx \<Rightarrow> rx" where
  "mk_alt RNone s = s"
| "mk_alt r RNone = r"
| "mk_alt r s = RAlt r s"

fun after :: "rx \<Rightarrow> char \<Rightarrow> rx" where
  "after RNone c = RNone"
| "after REmpty c = RNone"
| "after (RChar f) c = (if f c then REmpty else RNone)"
| "after (RSeq r s) c =
     (let t = mk_seq (after r c) s in if accepts_empty r then mk_alt t (after s c) else t)"
| "after (RAlt r s) c = mk_alt (after r c) (after s c)"
| "after (RStar r) c = mk_seq (after r c) (RStar r)"

fun rx_full :: "rx \<Rightarrow> string \<Rightarrow> bool" where
  "rx_full r [] = accepts_empty r"
| "rx_full r (c # cs) = rx_full (after r c) cs"

definition r_any :: rx where
  "r_any = RStar (RChar (\<lambda>_. True))"

definition rx_test :: "rx \<Rightarrow> string \<Rightarrow> bool" where
  "rx_test r s = rx_full (RSeq r_any (RSeq r r_any)) s"

lemma accepts_empty_iff: "accepts_empty r \<longleftrightarrow> in_lang r []"
  by (induction r) (auto simp: in_lang_Seq intro: in_lang.intros)

lemma in_lang_mk_seq [simp]: "in_lang (mk_seq r s) w \<longleftrightarrow> in_lang (RSeq r s) w"
  by (cases r) (auto simp: in_lang_Seq)

lemma in_lang_mk_alt [simp]: "in_lang (mk_alt r s) w \<longleftrightarrow> in_lang (RAlt r s) w"
  by (cases r; cases s) auto

lemma star_Cons:
  "in_lang (RStar r) (c # w) \<longleftrightarrow> (\<exists>u v. w = u @ v \<and> in_lang r (c # u) \<and> in_lang (RStar r) v)"
proof
  assume "in_lang (RStar r) (c # w)"
  then show "\<exists>u v. w = u @ v \<and> in_lang r (c # u) \<and> in_lang (RStar r) v"
  proof (induction "RStar r" "c # w" arbitrary: c w rule: in_lang.induct)
    case (lang_star1 u v)
    then show ?case by (cases u) auto
  qed
next
  assume "\<exists>u v. w = u @ v \<and> in_lang r (c # u) \<and> in_lang (RStar r) v"
  then show "in_lang (RStar r) (c # w)"
    by (metis append_Cons lang_star1)
qed

lemma seq_Cons:
  "in_lang (RSeq r s) (c # w) \<longleftrightarrow>
     (\<exists>u v. w = u @ v \<and> in_lang r (c # u) \<and> in_lang s v) \<or> in_lang r [] \<and> in_lang s (c # w)"
  unfolding in_lang_Seq by (auto simp: Cons_eq_append_conv)

lemma in_lang_after: "in_lang (after r c) w \<longleftrightarrow> in_lang r (c # w)"
proof (induction r arbitrary: w)
  case (RSeq r s)
  then show ?case
    by (auto simp: seq_Cons accepts_empty_iff in_lang_Seq [of _ _ w] Let_def)
next
  case (RStar r)
  then show ?case by (auto simp: star_Cons in_lang_Seq [of _ _ w])
qed auto

lemma rx_full_iff: "rx_full r w \<longleftrightarrow> in_lang r w"
  by (induction w arbitrary: r) (simp_all add: accepts_empty_iff in_lang_after)

lemma in_lang_any [simp]: "in_lang r_any w"
proof (induction w)
  case Nil
  show ?case unfolding r_any_def by (rule lang_star0)
next
  case (Cons c w)
  have "in_lang (RStar (RChar (\<lambda>_. True))) ([c] @ w)"
    using Cons unfolding r_any_def by (intro lang_star1) auto
  then show ?case by (simp add: r_any_def)
qed

lemma rx_test_iff: "rx_test r w \<longleftrightarrow> (\<exists>a u b. w = a @ u @ b \<and> in_lang r u)"
  unfolding rx_test_def rx_full_iff in_lang_Seq by auto

declare rx_full.simps [simp del]

subsection \<open>Building blocks\<close>

fun lit :: "string \<Rightarrow> rx" where
  "lit [] = REmpty"
| "lit (c # cs) = RSeq (RChar (\<lambda>x. x = c)) (lit cs)"

definition r_opt :: "rx \<Rightarrow> rx" where
  "r_opt r = RAlt r REmpty"

definition r_plus :: "rx \<Rightarrow> rx" where
  "r_plus r = RSeq r (RStar r)"

definition r_digit :: rx where
  "r_digit = RChar is_digit"

text \<open>\<open>[^/]+\<close>\<close>

definition r_segment :: rx where
  "r_segment = r_plus (RChar (\<lambda>c. c \<noteq> CHR ''/''))"

text \<open>\<open>\b\<close> after a word character.\<close>

definition word_end :: rx where
  "word_end = RAlt REmpty (RSeq (RChar (\<lambda>c. \<not> is_word c)) r_any)"

text \<open>\<open>/r\b/.test(s)\<close> where \<open>r\<close> ends in a word character.\<close>

definition rx_test_word :: "rx \<Rightarrow> string \<Rightarrow> bool" where
  "rx_test_word r s = rx_full (RSeq r_any (RSeq r word_end)) s"

lemma in_lang_lit [simp]: "in_lang (lit s) w \<longleftrightarrow> w = s"
  by (induction s arbitrary: w) (auto simp: in_lang_Seq)

declare lit.simps [simp del]

lemma lit_prefix: "in_lang (RSeq (lit s) r) w \<Longrightarrow> starts_with w s"
  by (auto simp: in_lang_Seq)

lemma in_lang_seq_lit: "in_lang (RSeq (lit s) r) w \<longleftrightarrow> (\<exists>v. w = s @ v \<and> in_lang r v)"
  by (auto simp: in_lang_Seq)

lemma star_all: "in_lang (RStar (RChar f)) w \<longleftrightarrow> (\<forall>c \<in> set w. f c)"
proof (induction w)
  case Nil
  show ?case by (simp add: lang_star0)
next
  case (Cons c w)
  then show ?case by (auto simp: star_Cons)
qed

lemma in_lang_segment [simp]:
  "in_lang r_segment w \<longleftrightarrow> w \<noteq> [] \<and> CHR ''/'' \<notin> set w"
proof (cases w)
  case Nil
  then show ?thesis by (simp add: r_segment_def r_plus_def in_lang_Seq)
next
  case (Cons c v)
  then show ?thesis by (auto simp: r_segment_def r_plus_def seq_Cons star_all)
qed

lemma in_lang_opt [simp]: "in_lang (r_opt r) w \<longleftrightarrow> in_lang r w \<or> w = []"
  by (auto simp: r_opt_def)


lemma in_lang_opt_seq:
  "in_lang (RSeq (r_opt r) s) w \<longleftrightarrow> in_lang s w \<or> in_lang (RSeq r s) w"
  unfolding in_lang_Seq [of _ _ w] by auto

lemma in_lang_segment_seq:
  "in_lang (RSeq r_segment s) w \<longleftrightarrow>
     (\<exists>n v. w = n @ v \<and> n \<noteq> [] \<and> CHR ''/'' \<notin> set n \<and> in_lang s v)"
  unfolding in_lang_Seq [of _ _ w] by auto

lemmas path_rx_simps = in_lang_opt_seq in_lang_segment_seq in_lang_seq_lit

end
