(* ===== verification/Rbac.thy ===== *)
theory Rbac
  imports Regex
begin

text \<open>
  The role and permission model of \<open>src/web/rbac.ts\<close>: roles, permissions, the permission
  set of each role, the two endpoint tables (regex rows first, then prefix and exact rows,
  first match wins) and \<open>resolveRequiredPermission\<close>. Rows stand in the order of the source.
  A role read from the database that is none of the five is \<open>OtherRole\<close>: it has no entry in
  \<open>ROLE_PERMISSIONS\<close> and holds nothing.
\<close>

section \<open>Roles and permissions\<close>

datatype role = Admin | Agent | ReadOnly | Viewer | FleetAgent | OtherRole string

datatype permission =
    MemoriesRead
  | MemoriesWrite
  | KanbanRead
  | KanbanWrite
  | AgentsRead
  | AgentsWrite
  | MessagesWrite
  | ApprovalsRead
  | ApprovalsWrite
  | BlackboardRead
  | BlackboardWrite
  | SchedulesRead
  | SchedulesWrite
  | AdminAll
  | FederationRead
  | FederationWrite
  | LedgerRead
  | LedgerWrite
  | AgentStateRead
  | AgentStateWrite
  | DailyLogRead
  | DailyLogWrite
  | TelemetryWrite
  | ArtifactsRead
  | ArtifactsWrite
  | SkillsRead
  | SkillsWrite
  | FleetConfigRead
  | ApprovalsConsume
  | VoiceSpeak

definition ALL_ROLES :: "role list" where
  "ALL_ROLES = [Admin, Agent, ReadOnly, Viewer]"

definition ALL_PERMISSIONS :: "permission list" where
  "ALL_PERMISSIONS =
     [MemoriesRead,
      MemoriesWrite,
      KanbanRead,
      KanbanWrite,
      AgentsRead,
      AgentsWrite,
      MessagesWrite,
      ApprovalsRead,
      ApprovalsWrite,
      BlackboardRead,
      BlackboardWrite,
      SchedulesRead,
      SchedulesWrite,
      AdminAll,
      FederationRead,
      FederationWrite]"

definition FLEET_AGENT_PERMISSIONS :: "permission list" where
  "FLEET_AGENT_PERMISSIONS =
     [LedgerRead,
      LedgerWrite,
      AgentStateRead,
      AgentStateWrite,
      DailyLogRead,
      DailyLogWrite,
      TelemetryWrite,
      ArtifactsRead,
      ArtifactsWrite,
      SkillsRead,
      SkillsWrite,
      FleetConfigRead,
      ApprovalsConsume,
      VoiceSpeak]"

fun ROLE_PERMISSIONS :: "role \<Rightarrow> permission list" where
  "ROLE_PERMISSIONS Admin =
     [MemoriesRead, MemoriesWrite, KanbanRead, KanbanWrite, AgentsRead, AgentsWrite,
      MessagesWrite, ApprovalsRead, ApprovalsWrite, BlackboardRead, BlackboardWrite,
      SchedulesRead, SchedulesWrite, AdminAll, FederationRead, FederationWrite] @ FLEET_AGENT_PERMISSIONS"
| "ROLE_PERMISSIONS FleetAgent =
     [MemoriesRead, MemoriesWrite, KanbanRead, KanbanWrite, AgentsRead,
      MessagesWrite, ApprovalsRead, ApprovalsWrite, BlackboardRead, BlackboardWrite,
      SchedulesRead, SchedulesWrite] @ FLEET_AGENT_PERMISSIONS"
| "ROLE_PERMISSIONS Agent =
     [MemoriesRead, MemoriesWrite, KanbanRead, KanbanWrite, AgentsRead, AgentsWrite,
      MessagesWrite, ApprovalsRead, BlackboardRead, BlackboardWrite, SchedulesRead,
      SchedulesWrite, FederationRead, FederationWrite]"
| "ROLE_PERMISSIONS ReadOnly =
     [MemoriesRead, KanbanRead, AgentsRead, BlackboardRead, SchedulesRead,
      ApprovalsRead]"
| "ROLE_PERMISSIONS Viewer =
     [MemoriesRead, KanbanRead, AgentsRead, BlackboardRead, SchedulesRead,
      ApprovalsRead]"
| "ROLE_PERMISSIONS (OtherRole _) = []"

definition hasPermission :: "role \<Rightarrow> permission \<Rightarrow> bool" where
  "hasPermission r p \<longleftrightarrow> p \<in> set (ROLE_PERMISSIONS r)"

section \<open>The endpoint tables\<close>

record endpoint_entry =
  ep_method :: string
  pathPattern :: string
  ep_prefix :: bool
  ep_permission :: permission

definition row :: "string \<Rightarrow> string \<Rightarrow> bool \<Rightarrow> permission \<Rightarrow> endpoint_entry" where
  "row m pat pre perm = \<lparr>ep_method = m, pathPattern = pat, ep_prefix = pre, ep_permission = perm\<rparr>"

definition table_admin :: "endpoint_entry list" where
  "table_admin =
     [row ''*'' ''/api/admin/'' True AdminAll,
      row ''*'' ''/api/v1/admin/'' True AdminAll,
      row ''GET'' ''/api/marveen'' False MemoriesRead,
      row ''GET'' ''/api/settings'' False MemoriesRead,
      row ''*'' ''/api/rbac/'' True AdminAll]"

definition table_federation_approvals :: "endpoint_entry list" where
  "table_federation_approvals =
     [row ''GET'' ''/api/federation/'' True FederationRead,
      row ''POST'' ''/api/federation/'' True FederationWrite,
      row ''GET'' ''/api/v1/federation/'' True FederationRead,
      row ''POST'' ''/api/v1/federation/'' True FederationWrite,
      row ''GET'' ''/api/approvals'' True ApprovalsRead,
      row ''POST'' ''/api/approvals'' True ApprovalsWrite,
      row ''PATCH'' ''/api/approvals'' True ApprovalsWrite,
      row ''PUT'' ''/api/approvals'' True ApprovalsWrite,
      row ''GET'' ''/api/v1/approvals'' True ApprovalsRead,
      row ''POST'' ''/api/v1/approvals'' True ApprovalsWrite,
      row ''PATCH'' ''/api/v1/approvals'' True ApprovalsWrite,
      row ''PUT'' ''/api/v1/approvals'' True ApprovalsWrite,
      row ''GET'' ''/api/blackboard'' True BlackboardRead,
      row ''POST'' ''/api/blackboard'' True BlackboardWrite,
      row ''GET'' ''/api/v1/blackboard'' True BlackboardRead,
      row ''POST'' ''/api/v1/blackboard'' True BlackboardWrite]"

definition table_schedules :: "endpoint_entry list" where
  "table_schedules =
     [row ''GET'' ''/api/schedules/tick-status'' False AdminAll,
      row ''GET'' ''/api/admin/db-context'' False AdminAll,
      row ''GET'' ''/api/v1/admin/db-context'' False AdminAll,
      row ''GET'' ''/api/admin/rerank-stats'' False AdminAll,
      row ''GET'' ''/api/v1/admin/rerank-stats'' False AdminAll,
      row ''GET'' ''/api/admin/otel-export-status'' False AdminAll,
      row ''GET'' ''/api/v1/admin/otel-export-status'' False AdminAll,
      row ''GET'' ''/api/schedules'' True SchedulesRead,
      row ''POST'' ''/api/schedules'' True SchedulesWrite,
      row ''PUT'' ''/api/schedules'' True SchedulesWrite,
      row ''DELETE'' ''/api/schedules'' True SchedulesWrite]"

definition table_plumbing :: "endpoint_entry list" where
  "table_plumbing =
     [row ''GET'' ''/api/conversation-ledger'' True LedgerRead,
      row ''POST'' ''/api/conversation-ledger'' True LedgerWrite,
      row ''GET'' ''/api/agent-state'' True AgentStateRead,
      row ''PUT'' ''/api/agent-state'' True AgentStateWrite,
      row ''GET'' ''/api/agent-taskstate'' True AgentStateRead,
      row ''POST'' ''/api/agent-taskstate'' True AgentStateWrite,
      row ''DELETE'' ''/api/agent-taskstate'' True AgentStateWrite,
      row ''GET'' ''/api/agent-inflight-turn'' True AgentStateRead,
      row ''POST'' ''/api/agent-inflight-turn'' True AgentStateWrite,
      row ''GET'' ''/api/daily-log'' True DailyLogRead,
      row ''POST'' ''/api/daily-log'' False DailyLogWrite,
      row ''POST'' ''/api/hook-audit'' False TelemetryWrite,
      row ''POST'' ''/api/spans'' False TelemetryWrite,
      row ''POST'' ''/api/skill-usage'' False TelemetryWrite,
      row ''POST'' ''/api/tool-log'' False TelemetryWrite,
      row ''GET'' ''/api/artifacts'' True ArtifactsRead,
      row ''POST'' ''/api/artifacts'' False ArtifactsWrite,
      row ''GET'' ''/api/skills/sql'' True SkillsRead,
      row ''POST'' ''/api/skills/sql'' True SkillsWrite,
      row ''PUT'' ''/api/skills/sql'' True SkillsWrite,
      row ''DELETE'' ''/api/skills/sql'' True SkillsWrite,
      row ''POST'' ''/api/skill-sync'' False SkillsWrite,
      row ''GET'' ''/api/egress-allowlist'' False FleetConfigRead,
      row ''GET'' ''/api/autonomy'' False FleetConfigRead,
      row ''GET'' ''/api/voice/directive'' False FleetConfigRead,
      row ''POST'' ''/api/voice/tts'' False VoiceSpeak]"

definition table_messages_agents :: "endpoint_entry list" where
  "table_messages_agents =
     [row ''POST'' ''/api/messages'' True MessagesWrite,
      row ''POST'' ''/api/v1/messages'' True MessagesWrite,
      row ''PUT'' ''/api/messages'' True MessagesWrite,
      row ''PUT'' ''/api/v1/messages'' True MessagesWrite,
      row ''GET'' ''/api/agents'' True AgentsRead,
      row ''GET'' ''/api/v1/agents'' True AgentsRead,
      row ''GET'' ''/api/team/graph'' False AgentsRead,
      row ''GET'' ''/api/v1/team/graph'' False AgentsRead]"

definition table_kanban_memories :: "endpoint_entry list" where
  "table_kanban_memories =
     [row ''GET'' ''/api/kanban'' True KanbanRead,
      row ''POST'' ''/api/kanban'' True KanbanWrite,
      row ''PUT'' ''/api/kanban'' True KanbanWrite,
      row ''PATCH'' ''/api/kanban'' True KanbanWrite,
      row ''DELETE'' ''/api/kanban'' True KanbanWrite,
      row ''GET'' ''/api/v1/kanban'' True KanbanRead,
      row ''POST'' ''/api/v1/kanban'' True KanbanWrite,
      row ''PUT'' ''/api/v1/kanban'' True KanbanWrite,
      row ''PATCH'' ''/api/v1/kanban'' True KanbanWrite,
      row ''DELETE'' ''/api/v1/kanban'' True KanbanWrite,
      row ''GET'' ''/api/memories'' True MemoriesRead,
      row ''POST'' ''/api/memories'' True MemoriesWrite,
      row ''PUT'' ''/api/memories'' True MemoriesWrite,
      row ''DELETE'' ''/api/memories'' True MemoriesWrite,
      row ''GET'' ''/api/v1/memories'' True MemoriesRead,
      row ''POST'' ''/api/v1/memories'' True MemoriesWrite,
      row ''PUT'' ''/api/v1/memories'' True MemoriesWrite,
      row ''DELETE'' ''/api/v1/memories'' True MemoriesWrite]"

definition table_reads_docs :: "endpoint_entry list" where
  "table_reads_docs =
     [row ''GET'' ''/api/recall'' True MemoriesRead,
      row ''GET'' ''/api/v1/recall'' True MemoriesRead,
      row ''GET'' ''/api/overview'' False MemoriesRead,
      row ''GET'' ''/api/v1/overview'' False MemoriesRead,
      row ''GET'' ''/api/me'' False MemoriesRead,
      row ''GET'' ''/api/v1/me'' False MemoriesRead,
      row ''PATCH'' ''/api/me'' False MemoriesRead,
      row ''PATCH'' ''/api/v1/me'' False MemoriesRead,
      row ''POST'' ''/api/auth/password'' False MemoriesRead,
      row ''POST'' ''/api/auth/logout-all'' False MemoriesRead,
      row ''GET'' ''/api/auth/sessions'' False MemoriesRead,
      row ''GET'' ''/api/docs'' True MemoriesRead,
      row ''GET'' ''/api/v1/docs'' True MemoriesRead,
      row ''GET'' ''/api/workspace'' True MemoriesRead,
      row ''POST'' ''/api/workspace'' False MemoriesWrite,
      row ''PATCH'' ''/api/workspace'' True MemoriesWrite,
      row ''DELETE'' ''/api/workspace'' True MemoriesWrite,
      row ''GET'' ''/api/v1/workspace'' True MemoriesRead,
      row ''POST'' ''/api/v1/workspace'' False MemoriesWrite,
      row ''PATCH'' ''/api/v1/workspace'' True MemoriesWrite,
      row ''DELETE'' ''/api/v1/workspace'' True MemoriesWrite]"

definition ENDPOINT_PERMISSION_TABLE :: "endpoint_entry list" where
  "ENDPOINT_PERMISSION_TABLE =
     table_admin @
     table_federation_approvals @
     table_schedules @
     table_plumbing @
     table_messages_agents @
     table_kanban_memories @
     table_reads_docs"

record regex_entry =
  rx_method :: string
  rx_regex :: rx
  rx_permission :: permission

text \<open>\<open>(\/|$)\<close> at the end of an otherwise open pattern.\<close>

definition slash_or_end :: rx where
  "slash_or_end = RAlt (RSeq (lit ''/'') r_any) REmpty"

definition rx_bundle_export :: rx where
  "rx_bundle_export =
     RSeq (lit ''/api/'') (RSeq (r_opt (lit ''v1/'')) (RSeq (lit ''agents/'')
       (RAlt (lit ''export-all'') (RSeq r_segment (lit ''/export'')))))"

definition rx_agent_settings :: rx where
  "rx_agent_settings =
     RSeq (lit ''/api/agents/'') (RSeq r_segment
       (RSeq (lit ''/'') (RAlt (lit ''context-guard'') (lit ''auto-restart''))))"

definition rx_approval_consume :: rx where
  "rx_approval_consume =
     RSeq (lit ''/api/'') (RSeq (r_opt (lit ''v1/'')) (RSeq (lit ''approvals/'')
       (RAlt (lit ''claim'') (RSeq r_segment (lit ''/consume'')))))"

definition rx_schedule_activate :: rx where
  "rx_schedule_activate =
     RSeq (lit ''/api/schedules/'') (RSeq r_segment (lit ''/activate''))"

definition rx_skill_access :: rx where
  "rx_skill_access =
     RSeq (lit ''/api/skills/sql/'') (RSeq r_segment (RSeq (lit ''/access'') slash_or_end))"

definition rx_skill_revisions :: rx where
  "rx_skill_revisions =
     RSeq (lit ''/api/skills/sql/'') (RSeq r_segment (RSeq (lit ''/revisions'') slash_or_end))"

definition rrow :: "string \<Rightarrow> rx \<Rightarrow> permission \<Rightarrow> regex_entry" where
  "rrow m r perm = \<lparr>rx_method = m, rx_regex = r, rx_permission = perm\<rparr>"

definition ENDPOINT_PERMISSION_REGEX_TABLE :: "regex_entry list" where
  "ENDPOINT_PERMISSION_REGEX_TABLE =
     [rrow ''GET'' rx_bundle_export AdminAll,
      rrow ''PUT'' rx_agent_settings AgentsWrite,
      rrow ''POST'' rx_approval_consume ApprovalsConsume,
      rrow ''POST'' rx_schedule_activate AdminAll,
      rrow ''*'' rx_skill_access AdminAll,
      rrow ''*'' rx_skill_revisions AdminAll]"

section \<open>Resolution\<close>

definition method_matches :: "string \<Rightarrow> string \<Rightarrow> bool" where
  "method_matches em m \<longleftrightarrow> em = ''*'' \<or> em = m"

definition path_matches :: "endpoint_entry \<Rightarrow> string \<Rightarrow> bool" where
  "path_matches e p =
     (if ep_prefix e then starts_with p (pathPattern e) else p = pathPattern e)"

fun resolve_regex :: "regex_entry list \<Rightarrow> string \<Rightarrow> string \<Rightarrow> permission option" where
  "resolve_regex [] m p = None"
| "resolve_regex (e # es) m p =
     (if method_matches (rx_method e) m \<and> rx_full (rx_regex e) p then Some (rx_permission e)
      else resolve_regex es m p)"

fun resolve_rows :: "endpoint_entry list \<Rightarrow> string \<Rightarrow> string \<Rightarrow> permission option" where
  "resolve_rows [] m p = None"
| "resolve_rows (e # es) m p =
     (if method_matches (ep_method e) m \<and> path_matches e p then Some (ep_permission e)
      else resolve_rows es m p)"

definition resolveRequiredPermission :: "string \<Rightarrow> string \<Rightarrow> permission option" where
  "resolveRequiredPermission m p =
     (case resolve_regex ENDPOINT_PERMISSION_REGEX_TABLE m p of
        Some perm \<Rightarrow> Some perm
      | None \<Rightarrow> resolve_rows ENDPOINT_PERMISSION_TABLE m p)"


section \<open>Facts about the tables\<close>

lemma resolve_regex_SomeD:
  "resolve_regex es m p = Some perm \<Longrightarrow>
   \<exists>e \<in> set es. method_matches (rx_method e) m \<and> rx_full (rx_regex e) p \<and> rx_permission e = perm"
  by (induction es) (auto split: if_splits)

lemma resolve_regex_NoneI:
  "(\<And>e. e \<in> set es \<Longrightarrow> method_matches (rx_method e) m \<Longrightarrow> \<not> rx_full (rx_regex e) p) \<Longrightarrow>
   resolve_regex es m p = None"
  by (induction es) auto

lemma resolve_rows_SomeD:
  "resolve_rows es m p = Some perm \<Longrightarrow>
   \<exists>e \<in> set es. method_matches (ep_method e) m \<and> path_matches e p \<and> ep_permission e = perm"
  by (induction es) (auto split: if_splits)

lemma resolve_rows_None_iff:
  "resolve_rows es m p = None \<longleftrightarrow>
   (\<forall>e \<in> set es. \<not> (method_matches (ep_method e) m \<and> path_matches e p))"
  by (induction es) auto

lemma resolveRequiredPermission_SomeD:
  assumes "resolveRequiredPermission m p = Some perm"
  shows "(\<exists>e \<in> set ENDPOINT_PERMISSION_REGEX_TABLE.
            method_matches (rx_method e) m \<and> rx_full (rx_regex e) p \<and> rx_permission e = perm)
       \<or> (\<exists>e \<in> set ENDPOINT_PERMISSION_TABLE.
            method_matches (ep_method e) m \<and> path_matches e p \<and> ep_permission e = perm)"
  using assms unfolding resolveRequiredPermission_def
  by (auto split: option.splits dest!: resolve_regex_SomeD resolve_rows_SomeD)

lemmas table_chunk_defs =
  table_admin_def table_federation_approvals_def table_schedules_def table_plumbing_def
  table_messages_agents_def table_kanban_memories_def table_reads_docs_def

lemma row_sel [simp]:
  "ep_method (row m pat pre perm) = m" "pathPattern (row m pat pre perm) = pat"
  "ep_prefix (row m pat pre perm) = pre" "ep_permission (row m pat pre perm) = perm"
  by (simp_all add: row_def)

lemma rrow_sel [simp]:
  "rx_method (rrow m r perm) = m" "rx_regex (rrow m r perm) = r"
  "rx_permission (rrow m r perm) = perm"
  by (simp_all add: rrow_def)

text \<open>A path of a regex row starts with one of the literal heads.\<close>

lemma rx_bundle_export_iff:
  "rx_full rx_bundle_export p \<longleftrightarrow>
     (\<exists>x \<in> {''/api/agents/'', ''/api/v1/agents/''}.
        p = x @ ''export-all'' \<or>
        (\<exists>n. n \<noteq> [] \<and> CHR ''/'' \<notin> set n \<and> p = x @ n @ ''/export''))"
  unfolding rx_full_iff rx_bundle_export_def
  by (auto simp: path_rx_simps)

lemma rx_approval_consume_iff:
  "rx_full rx_approval_consume p \<longleftrightarrow>
     (\<exists>x \<in> {''/api/approvals/'', ''/api/v1/approvals/''}.
        p = x @ ''claim'' \<or>
        (\<exists>n. n \<noteq> [] \<and> CHR ''/'' \<notin> set n \<and> p = x @ n @ ''/consume''))"
  unfolding rx_full_iff rx_approval_consume_def
  by (auto simp: path_rx_simps)

lemma rx_agent_settings_iff:
  "rx_full rx_agent_settings p \<longleftrightarrow>
     (\<exists>n s. n \<noteq> [] \<and> CHR ''/'' \<notin> set n \<and> s \<in> {''context-guard'', ''auto-restart''} \<and>
        p = ''/api/agents/'' @ n @ ''/'' @ s)"
  unfolding rx_full_iff rx_agent_settings_def
  by (auto simp: path_rx_simps)

lemma rx_schedule_activate_iff:
  "rx_full rx_schedule_activate p \<longleftrightarrow>
     (\<exists>n. n \<noteq> [] \<and> CHR ''/'' \<notin> set n \<and> p = ''/api/schedules/'' @ n @ ''/activate'')"
  unfolding rx_full_iff rx_schedule_activate_def
  by (auto simp: path_rx_simps)

lemma rx_skill_access_head: "rx_full rx_skill_access p \<Longrightarrow> starts_with p ''/api/skills/sql/''"
  unfolding rx_full_iff rx_skill_access_def by (rule lit_prefix)

lemma rx_skill_revisions_head: "rx_full rx_skill_revisions p \<Longrightarrow> starts_with p ''/api/skills/sql/''"
  unfolding rx_full_iff rx_skill_revisions_def by (rule lit_prefix)

text \<open>Where the regex rows are silent, the ordered rows decide.\<close>

lemma resolve_without_regex:
  assumes "resolve_regex ENDPOINT_PERMISSION_REGEX_TABLE m p = None"
  shows "resolveRequiredPermission m p = resolve_rows ENDPOINT_PERMISSION_TABLE m p"
  by (simp add: resolveRequiredPermission_def assms)

lemma regex_rows_heads:
  assumes "resolve_regex ENDPOINT_PERMISSION_REGEX_TABLE m p = Some perm"
  shows "\<exists>h \<in> {''/api/agents/'', ''/api/v1/agents/'', ''/api/approvals/'', ''/api/v1/approvals/'',
               ''/api/schedules/'', ''/api/skills/sql/''}. starts_with p h"
proof -
  from assms obtain e where "e \<in> set ENDPOINT_PERMISSION_REGEX_TABLE" and "rx_full (rx_regex e) p"
    by (auto dest: resolve_regex_SomeD)
  then show ?thesis
    unfolding ENDPOINT_PERMISSION_REGEX_TABLE_def
    by (auto simp: rx_bundle_export_iff rx_approval_consume_iff rx_agent_settings_iff
        rx_schedule_activate_iff dest: rx_skill_access_head rx_skill_revisions_head)
qed

lemma admin_all_only_admin: "hasPermission r AdminAll \<longleftrightarrow> r = Admin"
  by (cases r) (simp_all add: hasPermission_def FLEET_AGENT_PERMISSIONS_def)

lemma admin_has_all: "hasPermission Admin perm"
  by (cases perm) (simp_all add: hasPermission_def FLEET_AGENT_PERMISSIONS_def)


subsection \<open>Looking up by a literal head\<close>

text \<open>
  Most facts about the ordered rows concern every path with some literal head. Only rows whose
  pattern is comparable with the head can match such a path, so one evaluation over the table
  settles them.
\<close>

definition comparable :: "string \<Rightarrow> string \<Rightarrow> bool" where
  "comparable pat h \<longleftrightarrow> starts_with pat h \<or> starts_with h pat"

definition head_row :: "endpoint_entry list \<Rightarrow> string \<Rightarrow> string \<Rightarrow> endpoint_entry option" where
  "head_row es m h = find (\<lambda>e. method_matches (ep_method e) m \<and> comparable (pathPattern e) h) es"

lemma starts_with_comparable:
  "starts_with p h \<Longrightarrow> starts_with p h' \<Longrightarrow> comparable h' h"
  unfolding starts_with_iff comparable_def by (metis append_eq_append_conv2)

lemma path_matches_comparable:
  "starts_with p h \<Longrightarrow> path_matches e p \<Longrightarrow> comparable (pathPattern e) h"
  by (auto simp: path_matches_def comparable_def dest: starts_with_comparable split: if_splits)

lemma head_row_None:
  assumes "head_row es m h = None" and "starts_with p h"
  shows "resolve_rows es m p = None"
  using assms path_matches_comparable unfolding head_row_def resolve_rows_None_iff
  by (metis find_NoneD)

lemma head_row_Some:
  assumes "head_row es m h = Some e" and "starts_with p h"
    and "ep_prefix e" and "starts_with h (pathPattern e)"
  shows "resolve_rows es m p = Some (ep_permission e)"
  using assms
proof (induction es)
  case Nil
  then show ?case by (simp add: head_row_def)
next
  case (Cons a es)
  have pm: "path_matches e p"
    using Cons.prems by (auto simp: path_matches_def starts_with_iff)
  show ?case
  proof (cases "method_matches (ep_method a) m \<and> comparable (pathPattern a) h")
    case True
    with Cons.prems(1) have "a = e" by (simp add: head_row_def)
    with True pm show ?thesis by simp
  next
    case False
    with Cons.prems path_matches_comparable [OF Cons.prems(2)]
    show ?thesis using Cons.IH by (auto simp: head_row_def)
  qed
qed

lemma find_append: "find P (xs @ ys) = (case find P xs of Some x \<Rightarrow> Some x | None \<Rightarrow> find P ys)"
  by (induction xs) auto

end
