(* ===== verification/Authz.thy ===== *)
theory Authz
  imports Rbac
begin

text \<open>
  The authorization layer of \<open>src/web/authz.ts\<close>: role resolution, the permission check, the
  tenant of a request and the RBAC gate with its two modes. The credential a request resolved
  to (\<open>AuthResult\<close>) is declared in \<open>src/web/auth-gate.ts\<close>; its optional fields are options,
  and the session's tenant is \<open>None\<close> for "absent" and \<open>Some None\<close> for \<open>null\<close>.
\<close>

section \<open>Credentials\<close>

record token_fields =
  tok_role :: "role option"
  tok_tenant :: "string option"
  tok_name :: "string option"
  tok_agent :: "string option"
  tenantContextMissing :: bool
  tenantInvalid :: bool

datatype auth_result =
    Token token_fields
  | Device string int
  | Federation string
  | Session string "role option" "string option option"
  | NoAuth

section \<open>Role and permission\<close>

fun resolveRole :: "auth_result \<Rightarrow> role" where
  "resolveRole (Token t) = (case tok_role t of Some r \<Rightarrow> r | None \<Rightarrow> Admin)"
| "resolveRole (Device _ _) = Agent"
| "resolveRole (Session _ r _) = (case r of Some r \<Rightarrow> r | None \<Rightarrow> Viewer)"
| "resolveRole (Federation _) = Agent"
| "resolveRole NoAuth = Viewer"

datatype deny_reason =
    NoCredentials
  | NoTenantContext
  | NoValidTenant
  | RoleResolutionError
  | LacksPermission role permission

datatype status = S401 | S403 | S503

datatype authz_decision =
    Allowed role
  | Denied status deny_reason

text \<open>
  \<open>checkPermission\<close>. The role resolver is an argument because the code guards it with a
  \<open>try\<close>: \<open>None\<close> is "it threw".
\<close>

definition check_with :: "(auth_result \<Rightarrow> role option) \<Rightarrow> auth_result \<Rightarrow> string \<Rightarrow> string \<Rightarrow> authz_decision" where
  "check_with resolve auth m p =
     (if auth = NoAuth then Denied S401 NoCredentials
      else if (case auth of Token t \<Rightarrow> tenantContextMissing t | _ \<Rightarrow> False)
        then Denied S403 NoTenantContext
      else if (case auth of Token t \<Rightarrow> tenantInvalid t | _ \<Rightarrow> False)
        then Denied S403 NoValidTenant
      else (case resolve auth of
              None \<Rightarrow> Denied S503 RoleResolutionError
            | Some role \<Rightarrow>
                (let required = (case resolveRequiredPermission m p of
                                   Some perm \<Rightarrow> perm | None \<Rightarrow> AdminAll)
                 in if \<not> hasPermission role required
                    then Denied S403 (LacksPermission role required)
                    else Allowed role)))"

definition checkPermission :: "auth_result \<Rightarrow> string \<Rightarrow> string \<Rightarrow> authz_decision" where
  "checkPermission = check_with (\<lambda>auth. Some (resolveRole auth))"

fun is_allowed :: "authz_decision \<Rightarrow> bool" where
  "is_allowed (Allowed _) = True"
| "is_allowed (Denied _ _) = False"

section \<open>Tenant of a request\<close>

text \<open>\<open>None\<close> is the code's \<open>null\<close>: global.\<close>

fun resolveTenantId :: "auth_result \<Rightarrow> string option" where
  "resolveTenantId (Token t) =
     (case tok_tenant t of Some tenant \<Rightarrow> Some tenant | None \<Rightarrow> Some ''default'')"
| "resolveTenantId (Session _ _ (Some t)) = t"
| "resolveTenantId _ = Some ''default''"

section \<open>The gate\<close>

datatype rbac_mode = Shadow | Enforce

datatype gate_event =
    WouldDeny deny_reason
  | OnDenied deny_reason
  | SetRetryAfter
  | Respond status string

definition enforcePermission :: "auth_result \<Rightarrow> string \<Rightarrow> string \<Rightarrow> bool \<times> gate_event list" where
  "enforcePermission auth m p =
     (case checkPermission auth m p of
        Allowed _ \<Rightarrow> (True, [])
      | Denied st _ \<Rightarrow>
          (False,
           (if st = S503 then [SetRetryAfter] else []) @
           [Respond st (if st = S401 then ''unauthorized''
                        else if st = S503 then ''internal_error'' else ''forbidden'')]))"

definition applyRbacGate :: "rbac_mode \<Rightarrow> auth_result \<Rightarrow> string \<Rightarrow> string \<Rightarrow> bool \<times> gate_event list" where
  "applyRbacGate mode auth m p =
     (case checkPermission auth m p of
        Allowed _ \<Rightarrow> (True, [])
      | Denied _ reason \<Rightarrow>
          (if mode = Enforce
           then (let (ok, evs) = enforcePermission auth m p in (ok, OnDenied reason # evs))
           else (True, [WouldDeny reason])))"

section \<open>What any such permission policy gives the gate\<close>

text \<open>
  The interface the check relies on: who holds which permission, which permission an endpoint
  needs, and a top permission that only the root role holds.
\<close>

locale permission_policy =
  fixes holds :: "'r \<Rightarrow> 'p \<Rightarrow> bool"
    and required :: "string \<Rightarrow> string \<Rightarrow> 'p option"
    and top :: 'p
    and root :: 'r
  assumes top_root_only: "holds r top \<Longrightarrow> r = root"
    and root_holds: "holds root perm"
begin

lemma unmapped_needs_root:
  assumes "required m p = None"
  shows "holds r (case required m p of Some q \<Rightarrow> q | None \<Rightarrow> top) \<longleftrightarrow> r = root"
  using assms top_root_only root_holds by auto

lemma top_row_needs_root:
  assumes "required m p = Some top"
  shows "holds r (case required m p of Some q \<Rightarrow> q | None \<Rightarrow> top) \<longleftrightarrow> r = root"
  using assms top_root_only root_holds by auto

lemma root_never_refused: "holds root (case required m p of Some q \<Rightarrow> q | None \<Rightarrow> top)"
  by (rule root_holds)

end

interpretation rbac: permission_policy hasPermission resolveRequiredPermission AdminAll Admin
  by unfold_locales (auto simp: admin_all_only_admin admin_has_all)

section \<open>Facts about the check\<close>

lemma checkPermission_allowed_iff:
  "is_allowed (checkPermission auth m p) \<longleftrightarrow>
     auth \<noteq> NoAuth \<and>
     (case auth of Token t \<Rightarrow> \<not> tenantContextMissing t \<and> \<not> tenantInvalid t | _ \<Rightarrow> True) \<and>
     hasPermission (resolveRole auth)
       (case resolveRequiredPermission m p of Some perm \<Rightarrow> perm | None \<Rightarrow> AdminAll)"
  by (cases auth) (auto simp: checkPermission_def check_with_def Let_def)

lemma checkPermission_role: "checkPermission auth m p = Allowed r \<Longrightarrow> r = resolveRole auth"
  by (auto simp: checkPermission_def check_with_def Let_def split: if_splits)

lemma checkPermission_never_503: "checkPermission auth m p \<noteq> Denied S503 reason"
  by (auto simp: checkPermission_def check_with_def Let_def)

lemma top_row_allowed_admin:
  assumes "resolveRequiredPermission m p \<in> {None, Some AdminAll}"
    and "is_allowed (checkPermission auth m p)"
  shows "resolveRole auth = Admin"
  using assms rbac.unmapped_needs_root rbac.top_row_needs_root
  by (auto simp: checkPermission_allowed_iff)

section \<open>Reading the tables\<close>

definition self_service_writes :: "(string \<times> string) list" where
  "self_service_writes =
     [(''POST'', ''/api/auth/password''), (''POST'', ''/api/auth/logout-all''),
      (''PATCH'', ''/api/me''), (''PATCH'', ''/api/v1/me'')]"

definition write_methods :: "string list" where
  "write_methods = [''POST'', ''PUT'', ''PATCH'', ''DELETE'']"

lemma method_matches_simps [simp]:
  "method_matches ''*'' m" "method_matches m m"
  by (simp_all add: method_matches_def)

lemma read_role_perms:
  "r \<in> {ReadOnly, Viewer} \<Longrightarrow> hasPermission r perm \<longleftrightarrow>
     perm \<in> {MemoriesRead, KanbanRead, AgentsRead, BlackboardRead, SchedulesRead, ApprovalsRead}"
  by (auto simp: hasPermission_def)

text \<open>
  Every row that a write method can hit and a reading role satisfies is one of the exact
  self-service rows.
\<close>

definition write_row_ok :: "endpoint_entry \<Rightarrow> bool" where
  "write_row_ok e \<longleftrightarrow>
     ep_method e = ''GET'' \<or>
     ep_permission e \<notin> {MemoriesRead, KanbanRead, AgentsRead, BlackboardRead, SchedulesRead, ApprovalsRead} \<or>
     \<not> ep_prefix e \<and> List.member self_service_writes (ep_method e, pathPattern e)"

lemma write_rows: "list_all write_row_ok ENDPOINT_PERMISSION_TABLE"
  by code_simp

lemma table_write_rows: "e \<in> set ENDPOINT_PERMISSION_TABLE \<Longrightarrow> write_row_ok e"
  using write_rows by (auto simp: list_all_iff)

lemma regex_read_rows:
  "\<forall>e \<in> set ENDPOINT_PERMISSION_REGEX_TABLE.
     rx_permission e \<notin> {MemoriesRead, KanbanRead, AgentsRead, BlackboardRead, SchedulesRead, ApprovalsRead}"
  by (simp add: ENDPOINT_PERMISSION_REGEX_TABLE_def)

lemma read_role_write_reach:
  assumes r: "r \<in> {ReadOnly, Viewer}" and m: "m \<in> set write_methods"
    and res: "resolveRequiredPermission m p = Some perm" and held: "hasPermission r perm"
  shows "(m, p) \<in> set self_service_writes"
proof -
  note reads = held [unfolded read_role_perms [OF r]]
  from resolveRequiredPermission_SomeD [OF res] reads regex_read_rows
  obtain e where e: "e \<in> set ENDPOINT_PERMISSION_TABLE" "method_matches (ep_method e) m"
      "path_matches e p" "ep_permission e = perm"
    by blast
  have ne: "ep_method e \<noteq> ''GET''"
    using e(2) m by (auto simp: method_matches_def write_methods_def)
  with table_write_rows [OF e(1)] e(4) reads
  have "\<not> ep_prefix e" and mem: "(ep_method e, pathPattern e) \<in> set self_service_writes"
    by (auto simp: write_row_ok_def)
  then have "p = pathPattern e" and "ep_method e = m"
    using e(2,3) by (auto simp: path_matches_def method_matches_def self_service_writes_def)
  with mem show ?thesis by simp
qed

lemma self_service_rows:
  "list_all (\<lambda>(m, p). resolveRequiredPermission m p = Some MemoriesRead) self_service_writes"
  by code_simp

lemma self_service_resolves:
  "(m, p) \<in> set self_service_writes \<Longrightarrow> resolveRequiredPermission m p = Some MemoriesRead"
  using self_service_rows by (auto simp: list_all_iff)

lemma agents_write_rows:
  "head_row ENDPOINT_PERMISSION_TABLE ''POST'' ''/api/agents'' = None"
  "head_row ENDPOINT_PERMISSION_TABLE ''PATCH'' ''/api/agents'' = None"
  "head_row ENDPOINT_PERMISSION_TABLE ''DELETE'' ''/api/agents'' = None"
  by code_simp+

lemma covering_rows:
  "head_row ENDPOINT_PERMISSION_TABLE ''POST'' ''/api/schedules/'' =
     Some (row ''POST'' ''/api/schedules'' True SchedulesWrite)"
  "head_row ENDPOINT_PERMISSION_TABLE ''GET'' ''/api/agents/'' =
     Some (row ''GET'' ''/api/agents'' True AgentsRead)"
  "head_row ENDPOINT_PERMISSION_TABLE ''POST'' ''/api/approvals/'' =
     Some (row ''POST'' ''/api/approvals'' True ApprovalsWrite)"
  by code_simp+

lemmas covering_row_resolves = covering_rows [THEN head_row_Some]

lemma regex_rows_resolve:
  assumes "n \<noteq> []" and "CHR ''/'' \<notin> set n"
  shows "resolveRequiredPermission ''POST'' (''/api/schedules/'' @ n @ ''/activate'') = Some AdminAll"
    and "resolveRequiredPermission ''GET'' (''/api/agents/'' @ n @ ''/export'') = Some AdminAll"
    and "resolveRequiredPermission ''POST'' (''/api/approvals/'' @ n @ ''/consume'') = Some ApprovalsConsume"
  using assms
  by (simp_all add: resolveRequiredPermission_def ENDPOINT_PERMISSION_REGEX_TABLE_def method_matches_def
      rx_schedule_activate_iff rx_bundle_export_iff rx_approval_consume_iff)

section \<open>Properties\<close>

text \<open>
  the read-only roles write nothing but their own login. For a session with role
  \<open>read_only\<close> or \<open>viewer\<close> and any path, a writing method is allowed exactly on the four
  self-service endpoints (password change, log out everywhere, own profile).
\<close>

theorem read_only_write_surface:
  assumes "r \<in> {ReadOnly, Viewer}" and "m \<in> set write_methods"
  shows "is_allowed (checkPermission (Session u (Some r) t) m p) \<longleftrightarrow> (m, p) \<in> set self_service_writes"
proof
  assume "is_allowed (checkPermission (Session u (Some r) t) m p)"
  then have h: "hasPermission r (case resolveRequiredPermission m p of Some perm \<Rightarrow> perm | None \<Rightarrow> AdminAll)"
    by (simp add: checkPermission_allowed_iff)
  with assms(1) obtain perm where "resolveRequiredPermission m p = Some perm"
    by (cases "resolveRequiredPermission m p") (auto simp: admin_all_only_admin)
  with h assms show "(m, p) \<in> set self_service_writes" by (auto intro: read_role_write_reach)
next
  assume "(m, p) \<in> set self_service_writes"
  then show "is_allowed (checkPermission (Session u (Some r) t) m p)"
    using assms(1) by (auto simp: checkPermission_allowed_iff self_service_resolves read_role_perms)
qed

theorem read_only_write_surface_witness:
  "\<not> is_allowed (checkPermission (Session ''u'' (Some Viewer) None) ''POST'' ''/api/kanban'')
   \<and> is_allowed (checkPermission (Session ''u'' (Some Viewer) None) ''POST'' ''/api/auth/password'')"
  using read_only_write_surface [of Viewer "''POST''" "''u''" None "''/api/kanban''"]
    read_only_write_surface [of Viewer "''POST''" "''u''" None "''/api/auth/password''"]
  by (simp add: write_methods_def self_service_writes_def)

text \<open>
  the administration and RBAC namespaces are closed. Whatever the method, a path under
  \<open>/api/admin/\<close>, \<open>/api/v1/admin/\<close> or \<open>/api/rbac/\<close> is allowed only to a credential whose
  role is \<open>admin\<close>.
\<close>

theorem admin_namespace_closed:
  assumes "h \<in> {''/api/admin/'', ''/api/v1/admin/'', ''/api/rbac/''}" and "starts_with p h"
    and "is_allowed (checkPermission auth m p)"
  shows "resolveRole auth = Admin"
proof -
  obtain s where s: "p = h @ s" using assms(2) by (auto simp: starts_with_iff)
  have "resolve_regex ENDPOINT_PERMISSION_REGEX_TABLE m p = None"
  proof (rule ccontr)
    assume "resolve_regex ENDPOINT_PERMISSION_REGEX_TABLE m p \<noteq> None"
    with regex_rows_heads assms(1) show False by (fastforce simp: s)
  qed
  then have "resolveRequiredPermission m p = Some AdminAll"
    using assms(1)
    by (auto simp: resolve_without_regex s ENDPOINT_PERMISSION_TABLE_def table_admin_def
        path_matches_def)
  with assms(3) show ?thesis by (intro top_row_allowed_admin) auto
qed

theorem admin_namespace_closed_witness:
  "resolveRole (Token \<lparr>tok_role = None, tok_tenant = None, tok_name = None, tok_agent = None,
     tenantContextMissing = False, tenantInvalid = False\<rparr>) = Admin"
  by (rule admin_namespace_closed [of "''/api/admin/''" "''/api/admin/tokens''" _ "''POST''"])
     (simp_all add: checkPermission_allowed_iff admin_has_all)

text \<open>
  the agent lifecycle is closed. No row opens a POST, PATCH or DELETE under \<open>/api/agents\<close>
  (start, stop, restart, remote, creation, deletion), so only the \<open>admin\<close> role gets through.
\<close>

theorem agent_lifecycle_closed:
  assumes "starts_with p ''/api/agents''" and "m \<in> {''POST'', ''PATCH'', ''DELETE''}"
    and "is_allowed (checkPermission auth m p)"
  shows "resolveRole auth = Admin"
proof -
  obtain s where s: "p = ''/api/agents'' @ s" using assms(1) by (auto simp: starts_with_iff)
  have "\<not> rx_full (rx_regex e) p"
    if "e \<in> set ENDPOINT_PERMISSION_REGEX_TABLE" "method_matches (rx_method e) m" for e
    using that assms(2) rx_skill_access_head [of p] rx_skill_revisions_head [of p]
    by (auto simp: ENDPOINT_PERMISSION_REGEX_TABLE_def method_matches_def s
        rx_approval_consume_iff rx_schedule_activate_iff)
  then have "resolve_regex ENDPOINT_PERMISSION_REGEX_TABLE m p = None"
    by (rule resolve_regex_NoneI)
  moreover have "resolve_rows ENDPOINT_PERMISSION_TABLE m p = None"
    using assms(2) agents_write_rows by (auto intro: head_row_None [OF _ assms(1)])
  ultimately have "resolveRequiredPermission m p = None"
    by (simp add: resolve_without_regex)
  with assms(3) show ?thesis by (intro top_row_allowed_admin) auto
qed

theorem agent_lifecycle_closed_witness:
  "resolveRole (Session ''boss'' (Some Admin) (Some None)) = Admin"
  by (rule agent_lifecycle_closed [of "''/api/agents/bob/restart''" "''POST''"])
     (simp_all add: checkPermission_allowed_iff admin_has_all)

text \<open>
  the regex rows override the prefix rows they sit on. Activating a schedule and exporting
  an agent bundle need \<open>admin:all\<close> and spending an approval needs \<open>approvals:consume\<close>, although
  the prefix rows alone would ask for \<open>schedules:write\<close>, \<open>agents:read\<close> and \<open>approvals:write\<close>.
\<close>

theorem regex_rows_override_prefix_rows:
  assumes "n \<noteq> []" and "CHR ''/'' \<notin> set n"
  shows "resolveRequiredPermission ''POST'' (''/api/schedules/'' @ n @ ''/activate'') = Some AdminAll
       \<and> resolve_rows ENDPOINT_PERMISSION_TABLE ''POST'' (''/api/schedules/'' @ n @ ''/activate'') = Some SchedulesWrite
       \<and> resolveRequiredPermission ''GET'' (''/api/agents/'' @ n @ ''/export'') = Some AdminAll
       \<and> resolve_rows ENDPOINT_PERMISSION_TABLE ''GET'' (''/api/agents/'' @ n @ ''/export'') = Some AgentsRead
       \<and> resolveRequiredPermission ''POST'' (''/api/approvals/'' @ n @ ''/consume'') = Some ApprovalsConsume
       \<and> resolve_rows ENDPOINT_PERMISSION_TABLE ''POST'' (''/api/approvals/'' @ n @ ''/consume'') = Some ApprovalsWrite"
  using regex_rows_resolve [OF assms] covering_row_resolves by simp

theorem regex_rows_override_prefix_rows_witness:
  "resolveRequiredPermission ''POST'' ''/api/schedules/a/activate'' = Some AdminAll
   \<and> resolve_rows ENDPOINT_PERMISSION_TABLE ''POST'' ''/api/schedules/a/activate'' = Some SchedulesWrite"
  using regex_rows_override_prefix_rows [of "''a''"] by simp

text \<open>
  the gate. In enforce mode a request proceeds exactly when the check allows it, and a
  refusal writes one response with the status of the decision; in shadow mode every request
  proceeds, nothing is written, and what would have been refused is reported once.
\<close>

theorem rbac_gate_modes:
  "applyRbacGate Enforce auth m p =
     (case checkPermission auth m p of
        Allowed _ \<Rightarrow> (True, [])
      | Denied S401 reason \<Rightarrow> (False, [OnDenied reason, Respond S401 ''unauthorized''])
      | Denied _ reason \<Rightarrow> (False, [OnDenied reason, Respond S403 ''forbidden'']))
   \<and> applyRbacGate Shadow auth m p =
     (True, case checkPermission auth m p of Allowed _ \<Rightarrow> [] | Denied _ reason \<Rightarrow> [WouldDeny reason])"
  using checkPermission_never_503 [of auth m p]
  by (auto simp: applyRbacGate_def enforcePermission_def split: authz_decision.splits status.splits)

end
