(* ===== verification/AuthGate.thy ===== *)
theory AuthGate
  imports Authz
begin

text \<open>
  Who a request is: the credential resolution of \<open>src/web/auth-gate.ts\<close>, with the bearer
  comparison of \<open>src/web/dashboard-auth.ts\<close>, the federation caller lookup of
  \<open>src/web/federation/config.ts\<close> and the write tenant of \<open>src/db/write-tenant.ts\<close>.

  The tables and the two credential caches are the environment \<open>auth_env\<close>: each lookup is the
  function the code awaits, at the moment of the request (one snapshot for one request). SHA-256
  is a field of it. A lookup that rejects is not modelled: the request then answers 500 outside
  this file.
\<close>

section \<open>Headers\<close>

text \<open>
  \<open>/^Bearer\s+(.+)$/\<close> with the group trimmed. \<open>\s+\<close> is greedy and gives one character back
  when nothing else is left for \<open>.+\<close>, which matches no line terminator.
\<close>

definition is_newline :: "char \<Rightarrow> bool" where
  "is_newline c \<longleftrightarrow> code c \<in> {10, 13}"

definition bearer_match :: "string \<Rightarrow> string option" where
  "bearer_match h =
     (if \<not> starts_with h ''Bearer'' then None
      else (let rest = drop 6 h; ws = takeWhile is_ws rest; body = dropWhile is_ws rest
            in if ws = [] then None
               else if body \<noteq> [] then (if list_ex is_newline body then None else Some (js_trim body))
               else if length ws \<ge> 2 \<and> \<not> is_newline (last ws) then Some []
               else None))"

definition checkBearerToken :: "string option \<Rightarrow> string \<Rightarrow> bool" where
  "checkBearerToken header expected =
     (case header of
        None \<Rightarrow> False
      | Some h \<Rightarrow> if h = [] then False
                  else (case bearer_match h of None \<Rightarrow> False | Some provided \<Rightarrow> provided = expected))"

text \<open>
  The cookie record. \<open>out[name] === undefined\<close> is false for the names every object inherits, so
  such a cookie is never stored.
\<close>

definition inherited_names :: "string list" where
  "inherited_names =
     [''constructor'', ''__proto__'', ''hasOwnProperty'', ''isPrototypeOf'', ''propertyIsEnumerable'',
      ''toLocaleString'', ''toString'', ''valueOf'', ''__defineGetter__'', ''__defineSetter__'',
      ''__lookupGetter__'', ''__lookupSetter__'']"

fun add_cookies :: "string list \<Rightarrow> (string \<times> string) list \<Rightarrow> (string \<times> string) list" where
  "add_cookies [] out = out"
| "add_cookies (part # parts) out =
     (case index_of (CHR ''='') part of
        None \<Rightarrow> add_cookies parts out
      | Some eq \<Rightarrow>
          (let name = js_trim (take eq part); value = js_trim (drop (Suc eq) part)
           in if name = [] then add_cookies parts out
              else if map_of out name = None \<and> \<not> List.member inherited_names name
              then add_cookies parts (out @ [(name, value)])
              else add_cookies parts out))"

definition parseCookies :: "string option \<Rightarrow> (string \<times> string) list" where
  "parseCookies header =
     (case header of
        None \<Rightarrow> []
      | Some h \<Rightarrow> if h = [] then [] else add_cookies (split_on (CHR '';'') h) [])"

definition SESSION_COOKIE_NAME :: string where
  "SESSION_COOKIE_NAME = ''mv_session''"

text \<open>A header is absent, one string or several; several arrive as an array.\<close>

definition resolveAgentIdHeader :: "string list option \<Rightarrow> string option" where
  "resolveAgentIdHeader raw =
     (case raw of
        Some (v # _) \<Rightarrow> (if js_trim v = [] then None else Some (js_lower (js_trim v)))
      | _ \<Rightarrow> None)"

section \<open>Paths\<close>

definition isSsePaneStream :: "string \<Rightarrow> string \<Rightarrow> bool" where
  "isSsePaneStream path m \<longleftrightarrow>
     m = ''GET'' \<and> rx_full (RSeq (lit ''/api/agents/'') (RSeq r_segment (lit ''/pane/stream''))) path"

definition isFederationWireEndpoint :: "string \<Rightarrow> string \<Rightarrow> bool" where
  "isFederationWireEndpoint path m \<longleftrightarrow>
     path = ''/api/federation/manifest'' \<and> m = ''GET'' \<or>
     path = ''/api/federation/inbox'' \<and> m = ''POST''"

definition requiresAuth :: "string \<Rightarrow> string \<Rightarrow> bool" where
  "requiresAuth path m =
     (if path = ''/api/auth/status'' \<and> m = ''GET'' then False
      else if path = ''/api/auth/login'' \<and> m = ''POST'' then False
      else if path = ''/api/auth/enroll-browser'' \<and> m = ''POST'' then False
      else if m = ''GET'' \<and> (path = ''/api/marveen/avatar'' \<or>
                rx_full (RSeq (lit ''/api/agents/'') (RSeq r_segment (lit ''/avatar''))) path) then False
      else if m = ''GET'' \<and> rx_full (RSeq (lit ''/api/artifacts/'') (RSeq r_segment (lit ''/view''))) path
        then False
      else if path = ''/.well-known/fleetq'' \<and> m = ''GET'' then True
      else starts_with path ''/api/'')"

section \<open>The environment\<close>

record token_row =
  row_role :: role
  row_tenant :: string
  row_name :: string
  row_agent :: "string option"

record federation_peer =
  peer_id :: string
  inboundToken :: "string option"

record federation_config =
  fed_enabled :: bool
  fed_peers :: "federation_peer list"

record auth_env =
  dbLookups :: bool
  sha256 :: "string \<Rightarrow> string"
  getValidApiToken :: "string \<Rightarrow> token_row option"
  apiTokenHashExists :: "string \<Rightarrow> bool"
  getServingTenant :: "string \<Rightarrow> string option"
  getServedTenantIds :: "string \<Rightarrow> string list"
  resolveSession :: "string \<Rightarrow> string option"
  getDashboardUserAuthRow :: "string \<Rightarrow> (role \<times> string option) option"
  resolveDeviceKey :: "string \<Rightarrow> (string \<times> int) option"
  getFederationConfig :: "federation_config option"
  dashboardToken :: string

record request =
  authorization :: "string option"
  cookie :: "string option"
  query_token :: "string option"

section \<open>Tokens\<close>

datatype api_token_result =
    Found token_row
  | NotFound bool

definition resolveApiToken :: "auth_env \<Rightarrow> string \<Rightarrow> api_token_result" where
  "resolveApiToken env bearer =
     (let h = sha256 env bearer
      in case getValidApiToken env h of
           Some r \<Rightarrow> Found r
         | None \<Rightarrow> NotFound (apiTokenHashExists env h))"

definition resolveWriteTenant :: "auth_env \<Rightarrow> string option \<Rightarrow> string option" where
  "resolveWriteTenant env agentId =
     (case agentId of
        None \<Rightarrow> None
      | Some a \<Rightarrow>
          if a = [] then None
          else (case getServingTenant env a of
                  Some (c # cs) \<Rightarrow> Some (c # cs)
                | _ \<Rightarrow> (case getServedTenantIds env a of
                          [] \<Rightarrow> Some ''default''
                        | [t] \<Rightarrow> Some t
                        | _ \<Rightarrow> None)))"

definition plain_token :: token_fields where
  "plain_token = \<lparr>tok_role = None, tok_tenant = None, tok_name = None, tok_agent = None,
                  tenantContextMissing = False, tenantInvalid = False\<rparr>"

definition resolveFleetAgentToken :: "auth_env \<Rightarrow> token_row \<Rightarrow> auth_result" where
  "resolveFleetAgentToken env found =
     (case row_agent found of
        None \<Rightarrow> NoAuth
      | Some a \<Rightarrow>
          if a = [] then NoAuth
          else (case resolveWriteTenant env (Some a) of
                  None \<Rightarrow> Token (plain_token\<lparr>tok_role := Some FleetAgent, tok_name := Some (row_name found),
                                      tok_agent := Some a, tenantContextMissing := True\<rparr>)
                | Some t \<Rightarrow> Token (plain_token\<lparr>tok_role := Some FleetAgent, tok_tenant := Some t,
                                      tok_name := Some (row_name found), tok_agent := Some a\<rparr>)))"

definition FEDERATION_MIN_TOKEN_LENGTH :: nat where
  "FEDERATION_MIN_TOKEN_LENGTH = 32"

fun first_peer :: "(string option \<Rightarrow> string \<Rightarrow> bool) \<Rightarrow> string option \<Rightarrow> federation_peer list \<Rightarrow> string option" where
  "first_peer check header [] = None"
| "first_peer check header (p # ps) =
     (case inboundToken p of
        None \<Rightarrow> first_peer check header ps
      | Some t \<Rightarrow> if length t < FEDERATION_MIN_TOKEN_LENGTH then first_peer check header ps
                  else if check header t then Some (peer_id p)
                  else first_peer check header ps)"

definition identifyFederationCaller ::
  "auth_env \<Rightarrow> string option \<Rightarrow> (string option \<Rightarrow> string \<Rightarrow> bool) \<Rightarrow> string option" where
  "identifyFederationCaller env header check =
     (case getFederationConfig env of
        None \<Rightarrow> None
      | Some cfg \<Rightarrow> if \<not> fed_enabled cfg then None else first_peer check header (fed_peers cfg))"

section \<open>The precedence chain\<close>

text \<open>
  Each step answers (\<open>Some\<close>, the request is decided) or lets the request fall to the next one.
\<close>

definition step_api_token :: "auth_env \<Rightarrow> string option \<Rightarrow> auth_result option" where
  "step_api_token env bearerValue =
     (case bearerValue of
        Some (c # cs) \<Rightarrow>
          if \<not> dbLookups env then None
          else (case resolveApiToken env (c # cs) of
                  Found r \<Rightarrow>
                    Some (if row_role r = FleetAgent then resolveFleetAgentToken env r
                          else if js_trim (row_tenant r) = []
                          then Token (plain_token\<lparr>tok_role := Some (row_role r), tok_name := Some (row_name r),
                                        tenantInvalid := True\<rparr>)
                          else Token (plain_token\<lparr>tok_role := Some (row_role r),
                                        tok_tenant := Some (row_tenant r), tok_name := Some (row_name r),
                                        tok_agent := (case row_agent r of Some (a # as) \<Rightarrow> Some (a # as)
                                                                       | _ \<Rightarrow> None)\<rparr>))
                | NotFound registeredButInvalid \<Rightarrow>
                    if registeredButInvalid then Some NoAuth else None)
      | _ \<Rightarrow> None)"

definition step_session :: "auth_env \<Rightarrow> string option \<Rightarrow> auth_result option" where
  "step_session env header =
     (case map_of (parseCookies header) SESSION_COOKIE_NAME of
        Some (c # cs) \<Rightarrow>
          (case resolveSession env (c # cs) of
             None \<Rightarrow> None
           | Some username \<Rightarrow>
               Some (if dbLookups env
                     then (case getDashboardUserAuthRow env username of
                             Some (r, t) \<Rightarrow> Session username (Some r) (Some t)
                           | None \<Rightarrow> Session username None None)
                     else Session username None None))
      | _ \<Rightarrow> None)"

definition step_file_token :: "auth_env \<Rightarrow> string option \<Rightarrow> auth_result option" where
  "step_file_token env header =
     (if checkBearerToken header (dashboardToken env) then Some (Token plain_token) else None)"

definition step_device :: "auth_env \<Rightarrow> string option \<Rightarrow> auth_result option" where
  "step_device env bearerValue =
     (case bearerValue of
        None \<Rightarrow> None
      | Some b \<Rightarrow> map_option (\<lambda>(name, id). Device name id) (resolveDeviceKey env b))"

definition inMemoryRevoked :: "auth_env \<Rightarrow> bool" where
  "inMemoryRevoked env \<longleftrightarrow>
     dbLookups env \<and> dashboardToken env \<noteq> [] \<and>
     (case resolveApiToken env (dashboardToken env) of
        Found _ \<Rightarrow> False
      | NotFound registeredButInvalid \<Rightarrow> registeredButInvalid)"

definition step_sse :: "auth_env \<Rightarrow> string option \<Rightarrow> string \<Rightarrow> string \<Rightarrow> auth_result option" where
  "step_sse env qtoken path m =
     (if \<not> isSsePaneStream path m then None
      else (let q = js_trim (case qtoken of Some q \<Rightarrow> q | None \<Rightarrow> [])
            in if \<not> inMemoryRevoked env \<and> checkBearerToken (Some (''Bearer '' @ q)) (dashboardToken env)
               then Some (Token plain_token)
               else map_option (\<lambda>(name, id). Device name id) (resolveDeviceKey env q)))"

definition step_federation :: "auth_env \<Rightarrow> string option \<Rightarrow> string \<Rightarrow> string \<Rightarrow> auth_result option" where
  "step_federation env header path m =
     (if isFederationWireEndpoint path m
      then map_option Federation (identifyFederationCaller env header checkBearerToken)
      else None)"

fun first_answer :: "auth_result option list \<Rightarrow> auth_result" where
  "first_answer [] = NoAuth"
| "first_answer (Some a # _) = a"
| "first_answer (None # rest) = first_answer rest"

definition resolveAuth :: "auth_env \<Rightarrow> request \<Rightarrow> string \<Rightarrow> string \<Rightarrow> auth_result" where
  "resolveAuth env req path m =
     (let bearerValue = Option.bind (authorization req) bearer_match
      in first_answer
           [step_api_token env bearerValue,
            step_session env (cookie req),
            step_file_token env (authorization req),
            step_device env bearerValue,
            step_sse env (query_token req) path m,
            step_federation env (authorization req) path m])"

text \<open>\<open>answerInvalidTenantToken\<close>: whether it answered (with the 403 of a token without a tenant).\<close>

definition answerInvalidTenantToken :: "auth_result \<Rightarrow> string \<Rightarrow> string \<Rightarrow> bool" where
  "answerInvalidTenantToken auth path m \<longleftrightarrow>
     requiresAuth path m \<and> (case auth of Token t \<Rightarrow> tenantInvalid t | _ \<Rightarrow> False)"

end
