(* ===== verification/Csrf.thy ===== *)
theory Csrf
  imports JsBase
begin

text \<open>
  The request-origin checks of \<open>src/web/csrf-origin.ts\<close> and the path normaliser of
  \<open>src/web/routes/versioning.ts\<close>. The platform's URL parser is an argument
  (\<open>url\<close>): it maps a string to its \<open>(host, hostname)\<close>, or to \<open>None\<close> when \<open>new URL\<close> throws.
\<close>

definition isSafeMethod :: "string \<Rightarrow> bool" where
  "isSafeMethod m \<longleftrightarrow> m = ''GET'' \<or> m = ''HEAD'' \<or> m = ''OPTIONS''"

text \<open>A string option as a truth value: present and not empty.\<close>

fun truthy :: "string option \<Rightarrow> bool" where
  "truthy (Some (_ # _)) = True"
| "truthy _ = False"

definition originMatchesServedHost ::
  "(string \<Rightarrow> (string \<times> string) option) \<Rightarrow> string \<Rightarrow> string option \<Rightarrow> string option \<Rightarrow> bool" where
  "originMatchesServedHost url origin host xForwardedHost =
     (case url origin of
        None \<Rightarrow> False
      | Some (originHost, _) \<Rightarrow>
          if originHost = [] then False
          else if truthy host \<and> host = Some originHost then True
          else if truthy xForwardedHost
          then (let xf = js_trim (hd (split_on (CHR '','') (the xForwardedHost)))
                in xf \<noteq> [] \<and> originHost = xf)
          else False)"

fun buildAllowedHosts :: "(string \<Rightarrow> (string \<times> string) option) \<Rightarrow> string list \<Rightarrow> string list" where
  "buildAllowedHosts url [] = []"
| "buildAllowedHosts url (origin # rest) =
     (case url origin of
        None \<Rightarrow> buildAllowedHosts url rest
      | Some (h, n) \<Rightarrow>
          (if n \<noteq> [] then [n] else []) @ (if h \<noteq> [] then [h] else []) @ buildAllowedHosts url rest)"

definition bare_host :: "string \<Rightarrow> string option" where
  "bare_host host =
     (if starts_with host ''[''
      then (case index_of (CHR '']'') host of
              Some close \<Rightarrow> Some (drop 1 (take close host)) | None \<Rightarrow> None)
      else (case index_of (CHR '':'') host of
              Some colon \<Rightarrow> Some (take colon host) | None \<Rightarrow> None))"

definition isAllowedHost :: "string option \<Rightarrow> string list \<Rightarrow> bool" where
  "isAllowedHost host allowedHosts =
     (case host of
        None \<Rightarrow> False
      | Some h \<Rightarrow>
          if h = [] then False
          else if List.member allowedHosts h then True
          else (case bare_host h of None \<Rightarrow> False | Some b \<Rightarrow> List.member allowedHosts b))"

definition isBlockedCrossOriginWrite ::
  "(string \<Rightarrow> (string \<times> string) option) \<Rightarrow> string \<Rightarrow> string option \<Rightarrow> string option \<Rightarrow> string option
    \<Rightarrow> string list \<Rightarrow> bool" where
  "isBlockedCrossOriginWrite url m origin host xForwardedHost allowedOrigins =
     (if isSafeMethod m then False
      else if \<not> truthy origin then False
      else if List.member allowedOrigins (the origin) then False
      else if originMatchesServedHost url (the origin) host xForwardedHost then False
      else True)"

section \<open>API versioning\<close>

datatype api_version = V1 | LegacyApi | NotApi

record normalized_path =
  np_path :: string
  np_deprecated :: bool
  np_version :: api_version

definition normalizePath :: "string \<Rightarrow> normalized_path" where
  "normalizePath rawPath =
     (if rawPath = ''/api/v1'' \<or> starts_with rawPath ''/api/v1/''
      then \<lparr>np_path = ''/api'' @ drop 7 rawPath, np_deprecated = False, np_version = V1\<rparr>
      else if rawPath = ''/api'' \<or> starts_with rawPath ''/api/''
      then \<lparr>np_path = rawPath, np_deprecated = True, np_version = LegacyApi\<rparr>
      else \<lparr>np_path = rawPath, np_deprecated = False, np_version = NotApi\<rparr>)"

section \<open>Facts\<close>

lemma buildAllowedHosts_mem:
  "b \<in> set (buildAllowedHosts url os) \<longleftrightarrow>
     b \<noteq> [] \<and> (\<exists>origin \<in> set os. \<exists>h n. url origin = Some (h, n) \<and> (b = h \<or> b = n))"
  by (induction os) (auto split: option.splits)

lemma blocked_iff:
  "isBlockedCrossOriginWrite url m origin host xf allowed \<longleftrightarrow>
     \<not> isSafeMethod m \<and> (\<exists>orig. origin = Some orig \<and> orig \<noteq> [] \<and> orig \<notin> set allowed \<and>
        \<not> originMatchesServedHost url orig host xf)"
  by (cases origin rule: truthy.cases)
     (auto simp: isBlockedCrossOriginWrite_def)

lemma originMatchesServedHost_iff:
  "originMatchesServedHost url origin host xf \<longleftrightarrow>
     (\<exists>h n. url origin = Some (h, n) \<and> h \<noteq> [] \<and>
        (host = Some h \<or>
         (\<exists>x. xf = Some x \<and> x \<noteq> [] \<and> h = js_trim (hd (split_on (CHR '','') x)))))"
  by (cases host rule: truthy.cases; cases xf rule: truthy.cases)
     (auto simp: originMatchesServedHost_def Let_def split: option.splits)

lemma normalized_api_path:
  "starts_with (np_path (normalizePath p)) ''/api/'' \<longleftrightarrow> starts_with p ''/api/v1/'' \<or>
     starts_with p ''/api/'' \<and> p \<noteq> ''/api/v1''"
  by (auto simp: normalizePath_def starts_with_iff)

end
