(* ===== verification/RequestGate.thy ===== *)
theory RequestGate
  imports AuthGate Csrf
begin

text \<open>
  The request pipeline of \<open>handleRequest\<close> in \<open>src/web.ts\<close>, from the raw request to the route
  dispatcher: host check, preflight, cross-origin check, credential, the three refusals of a
  credential, the RBAC gate with its decision log (\<open>runRbacGate\<close> of
  \<open>src/web/rbac-shadow-log.ts\<close>), and the identity handed to the routes.

  The live RBAC mode is an argument (see RbacMode), and so is the answer of the identity check
  (\<open>answerIdentityRefusal\<close>). Counters, traces, CORS and deprecation headers are left out.
\<close>

section \<open>The decision log\<close>

definition principalOf :: "auth_result \<Rightarrow> string \<times> string" where
  "principalOf auth =
     (case auth of
        Token t \<Rightarrow> (''token'', case tok_name t of Some n \<Rightarrow> n | None \<Rightarrow> [])
      | Session u _ _ \<Rightarrow> (''session'', u)
      | Device d _ \<Rightarrow> (''device'', d)
      | Federation p \<Rightarrow> (''federation'', p)
      | NoAuth \<Rightarrow> (''none'', []))"

datatype shadow_decision = LogWouldDeny | LogDenied | LogPermitted

record shadow_row =
  log_tenant :: "string option"
  log_principal :: "string \<times> string"
  log_role :: role
  log_method :: string
  log_route :: string
  log_permission :: permission
  log_decision :: shadow_decision
  log_reason :: "deny_reason option"

text \<open>
  \<open>recordRbacDecision\<close>: the row that is inserted, none for an unauthenticated request. Whether
  the insert succeeds changes nothing for the caller.
\<close>

definition recordRbacDecision ::
  "auth_result \<Rightarrow> string \<Rightarrow> string \<Rightarrow> shadow_decision \<Rightarrow> deny_reason option \<Rightarrow> shadow_row list" where
  "recordRbacDecision auth m path decision reason =
     (if auth = NoAuth then []
      else [\<lparr>log_tenant = resolveTenantId auth, log_principal = principalOf auth,
             log_role = resolveRole auth, log_method = m, log_route = path,
             log_permission = (case resolveRequiredPermission m path of Some q \<Rightarrow> q | None \<Rightarrow> AdminAll),
             log_decision = decision, log_reason = reason\<rparr>])"

definition runRbacGate ::
  "rbac_mode \<Rightarrow> auth_result \<Rightarrow> string \<Rightarrow> string \<Rightarrow> bool \<times> shadow_row list \<times> gate_event list" where
  "runRbacGate mode auth m path =
     (let decision = checkPermission auth m path;
          wouldDeny = (\<not> is_allowed decision \<and> mode \<noteq> Enforce);
          refusal = (case decision of
                       Denied _ reason \<Rightarrow>
                         recordRbacDecision auth m path
                           (if mode = Enforce then LogDenied else LogWouldDeny) (Some reason)
                     | Allowed _ \<Rightarrow> []);
          (passed, evs) = applyRbacGate mode auth m path
      in if \<not> passed then (False, refusal, evs)
         else if resolveRole auth \<noteq> Admin \<and> \<not> wouldDeny
         then (True, refusal @ recordRbacDecision auth m path LogPermitted None, evs)
         else (True, refusal, evs))"

section \<open>The pipeline\<close>

record raw_request =
  raw_path :: string
  raw_method :: string
  raw_host :: "string option"
  raw_xfhost :: "string option"
  raw_origin :: "string option"
  raw_agent_id :: "string list option"
  credentials :: request

record server =
  srv_env :: auth_env
  srv_url :: "string \<Rightarrow> (string \<times> string) option"
  srv_origins :: "string list"
  srv_mode :: rbac_mode
  srv_identity_refusal :: bool

record route_ctx =
  ctx_path :: string
  ctx_role :: "role option"
  ctx_tenant :: "string option option"
  ctx_agent :: "string option"
  ctx_token_agent :: "string option"

datatype refusal =
    HostNotAllowed
  | OriginNotAllowed
  | BearerRequired
  | NoFreshTenantContext
  | NoValidTokenTenant
  | RbacRefused
  | IdentityRefused

datatype gate_outcome =
    Refused status refusal
  | Preflight
  | Answered auth_result
  | Dispatch auth_result route_ctx

definition token_flag :: "(token_fields \<Rightarrow> bool) \<Rightarrow> auth_result \<Rightarrow> bool" where
  "token_flag f auth = (case auth of Token t \<Rightarrow> f t | _ \<Rightarrow> False)"

definition route_identity :: "auth_result \<Rightarrow> string list option \<Rightarrow> string \<Rightarrow> route_ctx" where
  "route_identity auth header path =
     (let role = (if auth \<noteq> NoAuth then Some (resolveRole auth) else None);
          tenant = (if auth \<noteq> NoAuth then Some (resolveTenantId auth) else None);
          tokenAgentId = (case auth of Token t \<Rightarrow> tok_agent t | _ \<Rightarrow> None)
      in \<lparr>ctx_path = path, ctx_role = role, ctx_tenant = tenant,
          ctx_agent = (if role = Some FleetAgent \<and> truthy tokenAgentId then tokenAgentId
                       else resolveAgentIdHeader header),
          ctx_token_agent = tokenAgentId\<rparr>)"

definition auth_stage :: "server \<Rightarrow> raw_request \<Rightarrow> string \<Rightarrow> gate_outcome" where
  "auth_stage srv req path =
     (let m = raw_method req;
          auth = resolveAuth (srv_env srv) (credentials req) path m;
          gated = requiresAuth path m
      in if gated \<and> auth = NoAuth then Refused S401 BearerRequired
         else if gated \<and> token_flag tenantContextMissing auth then Refused S403 NoFreshTenantContext
         else if answerInvalidTenantToken auth path m then Refused S403 NoValidTokenTenant
         else if gated \<and> auth \<noteq> NoAuth \<and> \<not> fst (runRbacGate (srv_mode srv) auth m path)
           then Refused S403 RbacRefused
         else if path = ''/api/network-info'' \<and> m = ''GET'' then Answered auth
         else if srv_identity_refusal srv \<and> gated then Refused S403 IdentityRefused
         else Dispatch auth (route_identity auth (raw_agent_id req) path))"

definition handleRequest :: "server \<Rightarrow> raw_request \<Rightarrow> gate_outcome" where
  "handleRequest srv req =
     (let path = np_path (normalizePath (raw_path req));
          m = raw_method req;
          allowedHosts = buildAllowedHosts (srv_url srv) (srv_origins srv)
      in if \<not> isAllowedHost (raw_host req) allowedHosts then Refused S403 HostNotAllowed
         else if m = ''OPTIONS'' then Preflight
         else if isBlockedCrossOriginWrite (srv_url srv) m (raw_origin req) (raw_host req)
                   (raw_xfhost req) (srv_origins srv)
           then Refused S403 OriginNotAllowed
         else auth_stage srv req path)"

section \<open>Facts about the credential chain\<close>

lemma first_answer_mem: "first_answer xs = a \<Longrightarrow> a \<noteq> NoAuth \<Longrightarrow> Some a \<in> set xs"
  by (induction xs rule: first_answer.induct) auto

lemma step_not_token:
  "step_session env ck \<noteq> Some (Token t)" "step_device env b \<noteq> Some (Token t)"
  "step_federation env hdr path m \<noteq> Some (Token t)"
  "inMemoryRevoked env \<Longrightarrow> step_sse env q path m \<noteq> Some (Token t)"
  by (auto simp: step_session_def step_device_def step_sse_def step_federation_def Let_def
      split: option.splits list.splits)

lemma resolveAuth_api_token:
  "step_api_token env (Option.bind (authorization req) bearer_match) = Some a
     \<Longrightarrow> resolveAuth env req path m = a"
  by (simp add: resolveAuth_def)

lemma resolveAuth_session:
  "step_api_token env (Option.bind (authorization req) bearer_match) = None
     \<Longrightarrow> step_session env (cookie req) = Some a \<Longrightarrow> resolveAuth env req path m = a"
  by (simp add: resolveAuth_def)


lemma step_api_token_revoked:
  assumes "bearer \<noteq> []" and "dbLookups env" and "getValidApiToken env (sha256 env bearer) = None"
    and "apiTokenHashExists env (sha256 env bearer)"
  shows "step_api_token env (Some bearer) = Some NoAuth"
  using assms by (cases bearer) (auto simp: step_api_token_def resolveApiToken_def Let_def)

lemma resolveFleetAgentToken_not_plain: "resolveFleetAgentToken env r \<noteq> Token plain_token"
  by (auto simp: resolveFleetAgentToken_def plain_token_def split: option.splits)

lemma step_api_token_not_plain: "step_api_token env b \<noteq> Some (Token plain_token)"
  using resolveFleetAgentToken_not_plain
  by (auto simp: step_api_token_def plain_token_def split: option.splits list.splits api_token_result.splits
      if_splits)

lemma checkBearerToken_iff:
  "checkBearerToken header expected \<longleftrightarrow> (\<exists>h. header = Some h \<and> bearer_match h = Some expected)"
  by (auto simp: checkBearerToken_def bearer_match_def split: option.splits)

lemma inMemoryRevoked_bearer:
  assumes "inMemoryRevoked env" and "checkBearerToken header (dashboardToken env)"
  shows "step_api_token env (Option.bind header bearer_match) = Some NoAuth"
proof -
  from assms(1) have "dbLookups env" "dashboardToken env \<noteq> []"
    "getValidApiToken env (sha256 env (dashboardToken env)) = None"
    "apiTokenHashExists env (sha256 env (dashboardToken env))"
    by (auto simp: inMemoryRevoked_def resolveApiToken_def Let_def split: api_token_result.splits option.splits)
  with assms(2) show ?thesis
    by (auto simp: checkBearerToken_iff intro: step_api_token_revoked)
qed

lemma checkPermission_token_flags:
  "is_allowed (checkPermission auth m p) \<Longrightarrow> \<not> token_flag tenantContextMissing auth \<and> \<not> token_flag tenantInvalid auth"
  by (cases auth) (auto simp: checkPermission_allowed_iff token_flag_def)

lemma requiresAuth_api:
  assumes "starts_with path ''/api/''" and "\<not> requiresAuth path m"
  shows "m = ''POST'' \<and> path \<in> {''/api/auth/login'', ''/api/auth/enroll-browser''} \<or>
         m = ''GET'' \<and> (path \<in> {''/api/auth/status'', ''/api/marveen/avatar''} \<or>
           (\<exists>n. n \<noteq> [] \<and> CHR ''/'' \<notin> set n \<and>
              (path = ''/api/agents/'' @ n @ ''/avatar'' \<or> path = ''/api/artifacts/'' @ n @ ''/view'')))"
  using assms
  by (auto simp: requiresAuth_def rx_full_iff path_rx_simps split: if_splits)

lemma auth_stage_passed:
  assumes "auth_stage srv req path = out" and "\<exists>auth ctx. out = Dispatch auth ctx \<or> out = Answered auth"
  obtains auth where "auth = resolveAuth (srv_env srv) (credentials req) path (raw_method req)"
    and "requiresAuth path (raw_method req) \<Longrightarrow> auth \<noteq> NoAuth \<and> \<not> token_flag tenantContextMissing auth
           \<and> \<not> token_flag tenantInvalid auth \<and> fst (runRbacGate (srv_mode srv) auth (raw_method req) path)"
    and "out = Answered auth \<or> out = Dispatch auth (route_identity auth (raw_agent_id req) path)"
  using assms
  by (auto simp: auth_stage_def Let_def answerInvalidTenantToken_def token_flag_def split: if_splits)

lemma runRbacGate_enforce: "fst (runRbacGate Enforce auth m path) = is_allowed (checkPermission auth m path)"
  by (auto simp: runRbacGate_def applyRbacGate_def enforcePermission_def Let_def
      split: authz_decision.splits)

section \<open>Properties\<close>

text \<open>
  C7: a revoked or expired bearer is never rescued. When the bearer's hash is registered but no
  longer valid, a gated request is answered 401, whatever cookie, query token, path and mode it
  comes with: no later credential lane is tried.
\<close>

theorem revoked_bearer_refused:
  assumes "authorization (credentials req) = Some h" and "bearer_match h = Some b" and "b \<noteq> []"
    and "dbLookups (srv_env srv)" and "getValidApiToken (srv_env srv) (sha256 (srv_env srv) b) = None"
    and "apiTokenHashExists (srv_env srv) (sha256 (srv_env srv) b)"
    and "requiresAuth path (raw_method req)"
  shows "auth_stage srv req path = Refused S401 BearerRequired"
  using assms step_api_token_revoked [of b "srv_env srv"]
  by (simp add: auth_stage_def Let_def resolveAuth_api_token)

definition sample_env :: auth_env where
  "sample_env = \<lparr>dbLookups = True, sha256 = id,
     getValidApiToken = (\<lambda>h. if h = ''good'' then Some \<lparr>row_role = Agent, row_tenant = ''acme'',
       row_name = ''t1'', row_agent = None\<rparr> else None),
     apiTokenHashExists = (\<lambda>h. h = ''old'' \<or> h = ''good''),
     getServingTenant = (\<lambda>_. None), getServedTenantIds = (\<lambda>_. []),
     resolveSession = (\<lambda>c. if c = ''s1'' then Some ''ann'' else None),
     getDashboardUserAuthRow = (\<lambda>u. Some (Viewer, Some ''acme'')),
     resolveDeviceKey = (\<lambda>_. None), getFederationConfig = None, dashboardToken = ''old''\<rparr>"

definition sample_server :: server where
  "sample_server = \<lparr>srv_env = sample_env,
     srv_url = (\<lambda>u. if u = ''http://localhost:3420'' then Some (''localhost:3420'', ''localhost'') else None),
     srv_origins = [''http://localhost:3420''], srv_mode = Enforce, srv_identity_refusal = False\<rparr>"

definition sample_request :: "string \<Rightarrow> string \<Rightarrow> string option \<Rightarrow> string option \<Rightarrow> raw_request" where
  "sample_request m path auth ck = \<lparr>raw_path = path, raw_method = m, raw_host = Some ''localhost:3420'',
     raw_xfhost = None, raw_origin = None, raw_agent_id = None,
     credentials = \<lparr>authorization = auth, cookie = ck, query_token = None\<rparr>\<rparr>"

theorem revoked_bearer_refused_witness:
  "auth_stage sample_server (sample_request ''GET'' ''/api/kanban'' (Some ''Bearer old'') (Some ''mv_session=s1''))
     ''/api/kanban'' = Refused S401 BearerRequired"
  by (rule revoked_bearer_refused [of _ "''Bearer old''" "''old''"]; code_simp)



text \<open>
  a login session decides over the file token. When the request carries a live session
  cookie and its bearer is not a registered token, the request is that session (with the role
  and tenant of the user's row, \<open>viewer\<close> without one), even when the bearer is the dashboard's
  admin file token.
\<close>

theorem session_over_file_token:
  assumes "map_of (parseCookies (cookie req)) SESSION_COOKIE_NAME = Some c" and "c \<noteq> []"
    and "resolveSession env c = Some u"
    and "\<forall>b. Option.bind (authorization req) bearer_match = Some b \<longrightarrow>
           getValidApiToken env (sha256 env b) = None \<and> \<not> apiTokenHashExists env (sha256 env b)"
  shows "let row = (if dbLookups env then getDashboardUserAuthRow env u else None)
         in resolveAuth env req path m = Session u (map_option fst row) (map_option snd row) \<and>
            resolveRole (resolveAuth env req path m) = (case row of Some (r, _) \<Rightarrow> r | None \<Rightarrow> Viewer)"
proof -
  have "step_api_token env (Option.bind (authorization req) bearer_match) = None"
    using assms(4)
    by (auto simp: step_api_token_def resolveApiToken_def Let_def split: option.splits list.splits)
  moreover have "step_session env (cookie req) =
      Some (let row = (if dbLookups env then getDashboardUserAuthRow env u else None)
            in Session u (map_option fst row) (map_option snd row))"
    using assms(1-3)
    by (cases c) (auto simp: step_session_def split: option.splits)
  ultimately show ?thesis
    by (auto simp: resolveAuth_session Let_def split: option.splits)
qed

theorem session_over_file_token_witness:
  "resolveAuth (sample_env\<lparr>dashboardToken := ''file''\<rparr>)
     \<lparr>authorization = Some ''Bearer file'', cookie = Some ''a=b; mv_session=s1'', query_token = None\<rparr>
     ''/api/kanban'' ''GET'' = Session ''ann'' (Some Viewer) (Some (Some ''acme''))"
proof -
  let ?env = "sample_env\<lparr>dashboardToken := ''file''\<rparr>"
  let ?req = "\<lparr>authorization = Some ''Bearer file'', cookie = Some ''a=b; mv_session=s1'', query_token = None\<rparr>"
  have "map_of (parseCookies (cookie ?req)) SESSION_COOKIE_NAME = Some ''s1''" by code_simp
  moreover have "resolveSession ?env ''s1'' = Some ''ann''" by code_simp
  moreover have "bearer_match ''Bearer file'' = Some ''file''" by code_simp
  ultimately show ?thesis
    using session_over_file_token [of ?req "''s1''" ?env "''ann''" "''/api/kanban''" "''GET''"]
    by (auto simp: sample_env_def Let_def)
qed

text \<open>
  the unauthenticated surface. A request without a credential reaches the routes on an
  \<open>/api/\<close> path only at the login and enrolment endpoints, the auth probe, the avatars and the
  artifact view; every other \<open>/api/\<close> request without a credential is refused.
\<close>

theorem public_surface:
  assumes "auth_stage srv req path = Dispatch NoAuth ctx" and "starts_with path ''/api/''"
  shows "let m = raw_method req in
         m = ''POST'' \<and> path \<in> {''/api/auth/login'', ''/api/auth/enroll-browser''} \<or>
         m = ''GET'' \<and> (path \<in> {''/api/auth/status'', ''/api/marveen/avatar''} \<or>
           (\<exists>n. n \<noteq> [] \<and> CHR ''/'' \<notin> set n \<and>
              (path = ''/api/agents/'' @ n @ ''/avatar'' \<or> path = ''/api/artifacts/'' @ n @ ''/view'')))"
proof -
  have "\<not> requiresAuth path (raw_method req)"
    using assms(1) by (auto elim: auth_stage_passed)
  from requiresAuth_api [OF assms(2) this] show ?thesis by (simp add: Let_def)
qed

theorem public_surface_witness:
  "auth_stage sample_server (sample_request ''GET'' ''/api/agents/bob/avatar'' None None) ''/api/agents/bob/avatar''
     = Dispatch NoAuth (route_identity NoAuth None ''/api/agents/bob/avatar'') \<and>
   (\<exists>n. n \<noteq> [] \<and> CHR ''/'' \<notin> set n \<and> ''/api/agents/bob/avatar'' = ''/api/agents/'' @ n @ ''/avatar'')"
proof -
  have d: "auth_stage sample_server (sample_request ''GET'' ''/api/agents/bob/avatar'' None None)
      ''/api/agents/bob/avatar'' = Dispatch NoAuth (route_identity NoAuth None ''/api/agents/bob/avatar'')"
    by code_simp
  from public_surface [OF this] have "\<exists>n. n \<noteq> [] \<and> CHR ''/'' \<notin> set n \<and>
      (''/api/agents/bob/avatar'' = ''/api/agents/'' @ n @ ''/avatar'' \<or>
       ''/api/agents/bob/avatar'' = ''/api/artifacts/'' @ n @ ''/view'')"
    by (simp add: sample_request_def Let_def)
  with d show ?thesis by simp
qed

text \<open>
  a rotated dashboard token is dead everywhere. While the value the server still holds in
  memory is registered as revoked, no request whatever (bearer or pane-stream query token)
  resolves to the admin file-token identity.
\<close>

theorem rotated_file_token_dead:
  assumes "inMemoryRevoked env"
  shows "resolveAuth env req path m \<noteq> Token plain_token"
proof
  assume a: "resolveAuth env req path m = Token plain_token"
  show False
  proof (cases "step_api_token env (Option.bind (authorization req) bearer_match)")
    case (Some x)
    with a step_api_token_not_plain show ?thesis by (metis resolveAuth_api_token)
  next
    case None
    then have "step_file_token env (authorization req) = None"
      using inMemoryRevoked_bearer [OF assms] by (auto simp: step_file_token_def)
    moreover from a have "Some (Token plain_token) \<in> set
        [step_api_token env (Option.bind (authorization req) bearer_match), step_session env (cookie req),
         step_file_token env (authorization req), step_device env (Option.bind (authorization req) bearer_match),
         step_sse env (query_token req) path m, step_federation env (authorization req) path m]"
      unfolding resolveAuth_def Let_def by (rule first_answer_mem) simp
    ultimately show ?thesis
      using assms None by (auto simp: step_not_token [symmetric])
  qed
qed

theorem rotated_file_token_dead_witness:
  "resolveAuth sample_env \<lparr>authorization = None, cookie = None, query_token = Some '' old ''\<rparr>
     ''/api/agents/bob/pane/stream'' ''GET'' \<noteq> Token plain_token"
  by (rule rotated_file_token_dead, code_simp)

text \<open>
  C19: enforce mode, end to end. A gated request that reaches the routes in enforce mode was
  allowed by the permission check, and the routes see exactly the role the check used.
\<close>

theorem enforced_dispatch_permitted:
  assumes "srv_mode srv = Enforce" and "requiresAuth path (raw_method req)"
    and "auth_stage srv req path = Dispatch auth ctx"
  shows "\<exists>r. checkPermission auth (raw_method req) path = Allowed r \<and> ctx_role ctx = Some r"
proof -
  from assms(3) have "auth \<noteq> NoAuth" and "is_allowed (checkPermission auth (raw_method req) path)"
    and ctx: "ctx = route_identity auth (raw_agent_id req) path"
    using assms(1,2) by (auto elim!: auth_stage_passed simp: runRbacGate_enforce)
  then obtain r where "checkPermission auth (raw_method req) path = Allowed r"
    by (cases "checkPermission auth (raw_method req) path") auto
  with checkPermission_role [OF this] ctx \<open>auth \<noteq> NoAuth\<close> show ?thesis
    by (auto simp: route_identity_def Let_def)
qed

theorem enforced_dispatch_permitted_witness:
  "\<exists>r. checkPermission (Session ''ann'' (Some Viewer) (Some (Some ''acme''))) ''GET'' ''/api/kanban'' = Allowed r"
proof -
  have "auth_stage sample_server (sample_request ''GET'' ''/api/kanban'' None (Some ''mv_session=s1'')) ''/api/kanban''
     = Dispatch (Session ''ann'' (Some Viewer) (Some (Some ''acme'')))
        (route_identity (Session ''ann'' (Some Viewer) (Some (Some ''acme''))) None ''/api/kanban'')"
    by code_simp
  moreover have "requiresAuth ''/api/kanban'' ''GET''" by code_simp
  ultimately show ?thesis
    using enforced_dispatch_permitted [of sample_server "''/api/kanban''"
        "sample_request ''GET'' ''/api/kanban'' None (Some ''mv_session=s1'')"]
    by (auto simp: sample_server_def sample_request_def)
qed

text \<open>
  the decision log. For a credential, every gate run leaves at most one row, and it tells
  what happened: \<open>denied\<close> exactly when the request was refused, \<open>would-deny\<close> exactly when only
  shadow mode let it through, \<open>permitted\<close> exactly for an allowed caller that is not an admin;
  nothing for an allowed admin.
\<close>

theorem decision_log_faithful:
  assumes "auth \<noteq> NoAuth"
  shows "(case runRbacGate mode auth m path of (passed, rows, _) \<Rightarrow>
           map log_decision rows =
             (if is_allowed (checkPermission auth m path)
              then (if resolveRole auth = Admin then [] else [LogPermitted])
              else if mode = Enforce then [LogDenied] else [LogWouldDeny]) \<and>
           (passed \<longleftrightarrow> LogDenied \<notin> set (map log_decision rows)) \<and>
           (\<forall>e \<in> set rows. log_role e = resolveRole auth \<and> log_route e = path))"
  using assms
  by (cases "checkPermission auth m path"; cases mode)
     (auto simp: runRbacGate_def applyRbacGate_def enforcePermission_def recordRbacDecision_def Let_def)

theorem decision_log_faithful_witness:
  "case runRbacGate Shadow (Device ''phone'' 3) ''DELETE'' ''/api/agents/bob'' of (passed, rows, _) \<Rightarrow>
     passed \<and> map log_decision rows = [LogWouldDeny]"
proof -
  have "\<not> is_allowed (checkPermission (Device ''phone'' 3) ''DELETE'' ''/api/agents/bob'')" by code_simp
  with decision_log_faithful [where auth = "Device ''phone'' 3" and mode = Shadow and m = "''DELETE''"
      and path = "''/api/agents/bob''"]
  show ?thesis by (auto split: prod.splits)
qed

text \<open>
  foreign pages cannot write. Suppose a state-changing request with an \<open>Origin\<close> gets past
  the checks in front of authentication, with no forwarding proxy. Then its origin is one of the
  configured ones, or its host is the very host the request was sent to, and that host (with or
  without its port) is the host of a configured origin: a rebound foreign name passes neither way.
\<close>

theorem foreign_write_blocked:
  assumes "handleRequest srv req \<notin> {Refused S403 HostNotAllowed, Refused S403 OriginNotAllowed}"
    and "\<not> isSafeMethod (raw_method req)" and "raw_origin req = Some orig" and "orig \<noteq> []"
    and "raw_xfhost req = None"
  shows "orig \<in> set (srv_origins srv) \<or>
    (\<exists>h n. srv_url srv orig = Some (h, n) \<and> raw_host req = Some h \<and>
      (\<exists>conf \<in> set (srv_origins srv). \<exists>h' n'. srv_url srv conf = Some (h', n') \<and>
         (h \<in> {h', n'} \<or> (\<exists>b. bare_host h = Some b \<and> b \<in> {h', n'}))))"
proof (cases "orig \<in> set (srv_origins srv)")
  case False
  let ?hosts = "buildAllowedHosts (srv_url srv) (srv_origins srv)"
  from assms(1) have allowed: "isAllowedHost (raw_host req) ?hosts"
    by (auto simp: handleRequest_def Let_def split: if_splits)
  moreover have "raw_method req \<noteq> ''OPTIONS''" using assms(2) by (auto simp: isSafeMethod_def)
  ultimately have "\<not> isBlockedCrossOriginWrite (srv_url srv) (raw_method req) (raw_origin req) (raw_host req)
      (raw_xfhost req) (srv_origins srv)"
    using assms(1) by (auto simp: handleRequest_def Let_def)
  then have "originMatchesServedHost (srv_url srv) orig (raw_host req) None"
    using assms(2-5) False by (simp add: blocked_iff)
  then obtain h n where h: "srv_url srv orig = Some (h, n)" "raw_host req = Some h" "h \<noteq> []"
    by (auto simp: originMatchesServedHost_iff)
  from allowed h(2,3) have "h \<in> set ?hosts \<or> (\<exists>b. bare_host h = Some b \<and> b \<in> set ?hosts)"
    by (auto simp: isAllowedHost_def split: option.splits if_splits)
  with h show ?thesis by (auto simp: buildAllowedHosts_mem)
qed simp

theorem foreign_write_blocked_witness:
  "handleRequest sample_server ((sample_request ''POST'' ''/api/kanban'' None None)\<lparr>raw_origin := Some ''http://evil.example''\<rparr>)
     = Refused S403 OriginNotAllowed"
proof (rule ccontr)
  let ?req = "(sample_request ''POST'' ''/api/kanban'' None None)\<lparr>raw_origin := Some ''http://evil.example''\<rparr>"
  assume "handleRequest sample_server ?req \<noteq> Refused S403 OriginNotAllowed"
  moreover have "handleRequest sample_server ?req \<noteq> Refused S403 HostNotAllowed" by code_simp
  ultimately show False
    using foreign_write_blocked [of sample_server ?req "''http://evil.example''"]
    by (simp add: sample_request_def sample_server_def isSafeMethod_def)
qed

end
