(* ===== verification/RbacMode.thy ===== *)
theory RbacMode
  imports Authz
begin

text \<open>
  The live RBAC mode of \<open>src/web/rbac-mode.ts\<close>. A refresh awaits two table reads, so refreshes
  overlap: the module state and the two database values are one state, every refresh in flight is a
  \<open>pending\<close> with its ticket, and each piece of code between two awaits is one step. Other writers
  may change the two database values at any moment.

  Log lines, audit rows and notices are the event list; a sink that fails is swallowed by the code
  and changes nothing here.
\<close>

section \<open>Values\<close>

definition parseRbacMode :: "jsval \<Rightarrow> rbac_mode" where
  "parseRbacMode raw =
     (case raw of JStr s \<Rightarrow> (if js_lower (js_trim s) = ''shadow'' then Shadow else Enforce) | _ \<Rightarrow> Enforce)"

datatype mode_reason = UnloggedShadow | EnvEnforce | ReadError

text \<open>What one \<open>readStoredMode\<close> returns.\<close>

record stored_mode =
  sm_mode :: rbac_mode
  sm_reason :: "mode_reason option"
  sm_stored :: "string option"

section \<open>State\<close>

text \<open>\<open>JournalRead v e\<close>: the row said shadow (value \<open>v\<close>); the journal is read next.\<close>

datatype phase =
    RowRead
  | JournalRead string
  | ReadDone stored_mode

record pending =
  pd_ticket :: nat
  pd_env :: "rbac_mode option"
  pd_phase :: phase

datatype mode_event = AlarmUnlogged | NoticeShadow | LogModeChange rbac_mode rbac_mode

record mode_state =
  db_row :: "string option"
  db_journal :: "string option"
  cached :: rbac_mode
  cachedReason :: "mode_reason option"
  cachedStored :: "string option"
  refreshTicket :: nat
  appliedTicket :: nat
  unloggedShadowAlarmed :: bool
  inflight :: "pending list"
  events :: "mode_event list"

definition mode_boot :: "string option \<Rightarrow> string option \<Rightarrow> mode_state" where
  "mode_boot r j = \<lparr>db_row = r, db_journal = j, cached = Enforce, cachedReason = None, cachedStored = None,
     refreshTicket = 0, appliedTicket = 0, unloggedShadowAlarmed = False, inflight = [], events = []\<rparr>"

definition row_mode :: "string option \<Rightarrow> rbac_mode" where
  "row_mode v = parseRbacMode (case v of Some s \<Rightarrow> JStr s | None \<Rightarrow> JUndef)"

section \<open>One refresh\<close>

text \<open>\<open>readStoredMode\<close>: after the row read, and after the journal read.\<close>

definition after_row :: "rbac_mode option \<Rightarrow> string option \<Rightarrow> phase" where
  "after_row envMode r =
     (case r of
        None \<Rightarrow> ReadDone \<lparr>sm_mode = Enforce, sm_reason = None, sm_stored = None\<rparr>
      | Some v \<Rightarrow>
          if row_mode r \<noteq> Shadow then ReadDone \<lparr>sm_mode = Enforce, sm_reason = None, sm_stored = Some v\<rparr>
          else if envMode = Some Enforce
          then ReadDone \<lparr>sm_mode = Enforce, sm_reason = Some EnvEnforce, sm_stored = Some v\<rparr>
          else JournalRead v)"

definition after_journal :: "string \<Rightarrow> string option \<Rightarrow> stored_mode" where
  "after_journal v j =
     (if row_mode j \<noteq> Shadow
      then \<lparr>sm_mode = Enforce, sm_reason = Some UnloggedShadow, sm_stored = Some v\<rparr>
      else \<lparr>sm_mode = Shadow, sm_reason = None, sm_stored = Some v\<rparr>)"

definition read_failed :: stored_mode where
  "read_failed = \<lparr>sm_mode = Enforce, sm_reason = Some ReadError, sm_stored = None\<rparr>"

definition start_refresh :: "rbac_mode option \<Rightarrow> mode_state \<Rightarrow> mode_state" where
  "start_refresh envMode s =
     s\<lparr>refreshTicket := Suc (refreshTicket s),
       inflight := inflight s @ [\<lparr>pd_ticket = Suc (refreshTicket s), pd_env = envMode, pd_phase = RowRead\<rparr>]\<rparr>"

text \<open>The part of \<open>refreshRbacMode\<close> after \<open>readStoredMode\<close>.\<close>

definition apply_read :: "nat \<Rightarrow> stored_mode \<Rightarrow> mode_state \<Rightarrow> mode_state" where
  "apply_read ticket r s =
     (if ticket < appliedTicket s then s
      else (let previous = cached s;
                unlogged = (sm_reason r = Some UnloggedShadow);
                alarm = (unlogged \<and> \<not> unloggedShadowAlarmed s)
            in s\<lparr>appliedTicket := ticket, cached := sm_mode r, cachedReason := sm_reason r,
                 cachedStored := sm_stored r, unloggedShadowAlarmed := unlogged,
                 events := events s @ (if alarm then [AlarmUnlogged] else []) @
                   (if sm_mode r \<noteq> previous
                    then LogModeChange previous (sm_mode r) # (if sm_mode r = Shadow then [NoticeShadow] else [])
                    else [])\<rparr>))"

text \<open>The last-resort catch of the timer.\<close>

definition timer_fault :: "mode_state \<Rightarrow> mode_state" where
  "timer_fault s = s\<lparr>refreshTicket := Suc (refreshTicket s), appliedTicket := Suc (refreshTicket s),
     cached := Enforce, cachedReason := Some ReadError, cachedStored := None\<rparr>"

text \<open>The seeding of \<open>loadRbacMode\<close>; the journal row may fail after the insert.\<close>

definition mode_name :: "rbac_mode \<Rightarrow> string" where
  "mode_name md = (case md of Shadow \<Rightarrow> ''shadow'' | Enforce \<Rightarrow> ''enforce'')"

definition seed_row :: "rbac_mode option \<Rightarrow> bool \<Rightarrow> mode_state \<Rightarrow> mode_state" where
  "seed_row envMode journal_fails s =
     (let v = mode_name (case envMode of Some md \<Rightarrow> md | None \<Rightarrow> Enforce)
      in if db_row s = None
         then s\<lparr>db_row := Some v, db_journal := (if journal_fails then db_journal s else Some v)\<rparr>
         else s)"

section \<open>The step relation\<close>

inductive mode_step :: "mode_state \<Rightarrow> mode_state \<Rightarrow> bool" where
  Start: "mode_step s (start_refresh envMode s)"
| Row: "inflight s = xs @ p # ys \<Longrightarrow> pd_phase p = RowRead \<Longrightarrow>
     mode_step s (s\<lparr>inflight := xs @ p\<lparr>pd_phase := after_row (pd_env p) (db_row s)\<rparr> # ys\<rparr>)"
| Journal: "inflight s = xs @ p # ys \<Longrightarrow> pd_phase p = JournalRead v \<Longrightarrow>
     mode_step s (s\<lparr>inflight := xs @ p\<lparr>pd_phase := ReadDone (after_journal v (db_journal s))\<rparr> # ys\<rparr>)"
| ReadFails: "inflight s = xs @ p # ys \<Longrightarrow> (\<forall>r. pd_phase p \<noteq> ReadDone r) \<Longrightarrow>
     mode_step s (s\<lparr>inflight := xs @ p\<lparr>pd_phase := ReadDone read_failed\<rparr> # ys\<rparr>)"
| Finish: "inflight s = xs @ p # ys \<Longrightarrow> pd_phase p = ReadDone r \<Longrightarrow>
     mode_step s (apply_read (pd_ticket p) r (s\<lparr>inflight := xs @ ys\<rparr>))"
| TimerFault: "mode_step s (timer_fault s)"
| Seed: "mode_step s (seed_row envMode fails s)"
| OtherWriter: "mode_step s (s\<lparr>db_row := r, db_journal := j\<rparr>)"

inductive mode_reachable :: "mode_state \<Rightarrow> bool" where
  Boot: "mode_reachable (mode_boot r j)"
| Step: "mode_reachable s \<Longrightarrow> mode_step s t \<Longrightarrow> mode_reachable t"

text \<open>Steps during which the stored row never says shadow.\<close>

definition tight_step :: "mode_state \<Rightarrow> mode_state \<Rightarrow> bool" where
  "tight_step s t \<longleftrightarrow> mode_step s t \<and> row_mode (db_row t) = Enforce"

section \<open>Invariants\<close>

definition tickets_ok :: "mode_state \<Rightarrow> bool" where
  "tickets_ok s \<longleftrightarrow> appliedTicket s \<le> refreshTicket s \<and> (\<forall>p \<in> set (inflight s). pd_ticket p \<le> refreshTicket s)"

lemma apply_read_sel [simp]:
  "refreshTicket (apply_read t r s) = refreshTicket s" "inflight (apply_read t r s) = inflight s"
  "db_row (apply_read t r s) = db_row s" "db_journal (apply_read t r s) = db_journal s"
  "appliedTicket (apply_read t r s) = max t (appliedTicket s)"
  "cached (apply_read t r s) = (if t < appliedTicket s then cached s else sm_mode r)"
  by (auto simp: apply_read_def Let_def)

lemma seed_row_sel [simp]:
  "refreshTicket (seed_row e f s) = refreshTicket s" "appliedTicket (seed_row e f s) = appliedTicket s"
  "inflight (seed_row e f s) = inflight s" "cached (seed_row e f s) = cached s"
  by (auto simp: seed_row_def Let_def)

lemma tickets_step: "mode_step s t \<Longrightarrow> tickets_ok s \<Longrightarrow> tickets_ok t"
  by (induction rule: mode_step.induct) (auto simp: tickets_ok_def start_refresh_def timer_fault_def)

lemma tickets_mode_reachable: "mode_reachable s \<Longrightarrow> tickets_ok s"
  by (induction rule: mode_reachable.induct) (simp add: mode_boot_def tickets_ok_def, rule tickets_step)

text \<open>
  Seen from a moment whose ticket counter was \<open>k\<close>, with the row tight since: the refreshes that
  started later can only end in enforce, and so has the mode once one of them was applied.
\<close>

definition tight_since :: "nat \<Rightarrow> mode_state \<Rightarrow> bool" where
  "tight_since k s \<longleftrightarrow>
     k \<le> refreshTicket s \<and> row_mode (db_row s) = Enforce \<and>
     (\<forall>p \<in> set (inflight s). k < pd_ticket p \<longrightarrow>
        pd_phase p = RowRead \<or> (\<exists>r. pd_phase p = ReadDone r \<and> sm_mode r = Enforce)) \<and>
     (k < appliedTicket s \<longrightarrow> cached s = Enforce)"

lemma after_row_tight:
  "row_mode r = Enforce \<Longrightarrow> \<exists>sm. after_row e r = ReadDone sm \<and> sm_mode sm = Enforce"
  by (cases r) (auto simp: after_row_def)

lemma read_failed_mode [simp]: "sm_mode read_failed = Enforce"
  by (simp add: read_failed_def)

lemma tight_since_step:
  "mode_step s t \<Longrightarrow> row_mode (db_row t) = Enforce \<Longrightarrow> tight_since k s \<Longrightarrow> tight_since k t"
proof (induction rule: mode_step.induct)
  case (Row s xs p ys)
  with after_row_tight [of "db_row s" "pd_env p"] show ?case
    by (auto simp: tight_since_def)
next
  case (Journal s xs p ys v)
  then show ?case by (auto simp: tight_since_def)
next
  case (Finish s xs p ys r)
  then show ?case by (auto simp: tight_since_def max_def split: if_splits)
qed (auto simp: tight_since_def start_refresh_def timer_fault_def)

lemma tight_since_run:
  "tight_step\<^sup>*\<^sup>* s t \<Longrightarrow> tight_since k s \<Longrightarrow> tight_since k t"
  by (induction rule: rtranclp_induct) (auto simp: tight_step_def intro: tight_since_step)

section \<open>Properties\<close>

text \<open>
  no stale loosening. From the moment the stored mode says enforce, as soon as one refresh
  that started after that moment has been applied, the live mode is enforce and stays so while the
  row stays: however many refreshes overlap and in whatever order they finish, a slow read that
  began before the tightening never puts shadow back.
\<close>

theorem no_stale_loosening:
  assumes "mode_reachable s" and "row_mode (db_row s) = Enforce" and "tight_step\<^sup>*\<^sup>* s t"
    and "refreshTicket s < appliedTicket t"
  shows "cached t = Enforce"
proof -
  have "tight_since (refreshTicket s) s"
    using tickets_mode_reachable [OF assms(1)] assms(2) by (auto simp: tight_since_def tickets_ok_def)
  from tight_since_run [OF assms(3) this] assms(4) show ?thesis by (simp add: tight_since_def)
qed

lemma tight_start:
  "row_mode (db_row s) = Enforce \<Longrightarrow> tight_step s (start_refresh e s)"
  by (simp add: tight_step_def mode_step.Start) (simp add: start_refresh_def)

lemma tight_row:
  assumes "inflight s = [p]" and "pd_phase p = RowRead" and "row_mode (db_row s) = Enforce"
  shows "tight_step s (s\<lparr>inflight := [p\<lparr>pd_phase := after_row (pd_env p) (db_row s)\<rparr>]\<rparr>)"
  using assms mode_step.Row [of s "[]" p "[]"] by (simp add: tight_step_def)

lemma tight_finish:
  assumes "inflight s = [p]" and "pd_phase p = ReadDone r" and "row_mode (db_row s) = Enforce"
  shows "tight_step s (apply_read (pd_ticket p) r (s\<lparr>inflight := []\<rparr>))"
  using assms mode_step.Finish [of s "[]" p "[]"] by (simp add: tight_step_def)

theorem no_stale_loosening_witness:
  "\<exists>t. tight_step\<^sup>*\<^sup>* (mode_boot (Some ''enforce'') None) t \<and> appliedTicket t = 1 \<and> cached t = Enforce"
proof -
  let ?s = "mode_boot (Some ''enforce'') None" and ?sm = "\<lparr>sm_mode = Enforce, sm_reason = None, sm_stored = Some ''enforce''\<rparr>"
  let ?s1 = "start_refresh None ?s"
  let ?s2 = "?s1\<lparr>inflight := [\<lparr>pd_ticket = 1, pd_env = None, pd_phase = ReadDone ?sm\<rparr>]\<rparr>"
  let ?s3 = "apply_read 1 ?sm (?s2\<lparr>inflight := []\<rparr>)"
  have row: "row_mode (Some ''enforce'') = Enforce" by code_simp
  have in1: "inflight ?s1 = [\<lparr>pd_ticket = 1, pd_env = None, pd_phase = RowRead\<rparr>]"
    by (simp add: start_refresh_def mode_boot_def)
  have d: "db_row ?s = Some ''enforce''" "db_row ?s1 = Some ''enforce''"
    by (simp_all add: start_refresh_def mode_boot_def)
  have "after_row None (Some ''enforce'') = ReadDone ?sm" by (simp add: after_row_def row)
  with in1 d row have "tight_step ?s1 ?s2" using tight_row [OF in1] by simp
  moreover have "tight_step ?s ?s1" using row d by (intro tight_start) simp
  moreover have "tight_step ?s2 ?s3" 
    using row d tight_finish [of ?s2 "\<lparr>pd_ticket = 1, pd_env = None, pd_phase = ReadDone ?sm\<rparr>" ?sm] by simp
  ultimately have run: "tight_step\<^sup>*\<^sup>* ?s ?s3" by (meson rtranclp.rtrancl_into_rtrancl rtranclp.rtrancl_refl)
  have a: "appliedTicket ?s3 = 1" "refreshTicket ?s = 0" by (simp_all add: start_refresh_def mode_boot_def)
  from no_stale_loosening [OF mode_reachable.Boot _ run] a row d have "cached ?s3 = Enforce" by simp
  with run a show ?thesis by blast
qed

text \<open>
  shadow has to be confirmed three times. A refresh that runs without interruption sets the
  mode to shadow exactly when the stored row says shadow, the environment does not force enforce and
  the change journal says shadow too; in every other case, an unreadable table included, it is
  enforce whatever the mode was before.
\<close>

definition refresh_now :: "rbac_mode option \<Rightarrow> bool \<Rightarrow> mode_state \<Rightarrow> mode_state" where
  "refresh_now envMode fails s =
     (let t = Suc (refreshTicket s);
          r = (if fails then read_failed
               else (case after_row envMode (db_row s) of
                       JournalRead v \<Rightarrow> after_journal v (db_journal s)
                     | ReadDone sm \<Rightarrow> sm
                     | RowRead \<Rightarrow> read_failed))
      in apply_read t r (s\<lparr>refreshTicket := t\<rparr>))"

theorem shadow_needs_confirmation:
  assumes "mode_reachable s"
  shows "cached (refresh_now envMode fails s) = Shadow \<longleftrightarrow>
    \<not> fails \<and> row_mode (db_row s) = Shadow \<and> envMode \<noteq> Some Enforce \<and> row_mode (db_journal s) = Shadow"
proof -
  have "\<not> Suc (refreshTicket s) < appliedTicket s"
    using tickets_mode_reachable [OF assms] by (simp add: tickets_ok_def)
  moreover have "row_mode None = Enforce" by (simp add: row_mode_def parseRbacMode_def)
  ultimately show ?thesis
    by (cases "db_row s") (auto simp: refresh_now_def Let_def after_row_def after_journal_def
        split: option.splits)
qed

theorem shadow_needs_confirmation_witness:
  "cached (refresh_now None False (mode_boot (Some '' Shadow'') (Some ''shadow''))) = Shadow \<and>
   cached (refresh_now None False (mode_boot (Some ''shadow'') None)) = Enforce"
proof -
  have "row_mode (Some '' Shadow'') = Shadow" "row_mode (Some ''shadow'') = Shadow" "row_mode None = Enforce"
    by code_simp+
  with shadow_needs_confirmation [OF mode_reachable.Boot, of None False "Some '' Shadow''" "Some ''shadow''"]
    shadow_needs_confirmation [OF mode_reachable.Boot, of None False "Some ''shadow''" None]
  show ?thesis
    by (cases "cached (refresh_now None False (mode_boot (Some ''shadow'') None))") (auto simp: mode_boot_def)
qed

end
