(* ===== verification/GuardedCache.thy ===== *)
theory GuardedCache
  imports JsBase
begin

text \<open>
  The interface between a credential table and the in-memory cache in front of it, as the session
  store and the device-key store use it: a table read is awaited, so a lookup may hold a row that a
  revocation removes meanwhile. The laws say where a cache entry can come from; under them a
  credential that is gone stays gone.
\<close>

locale guarded_cache =
  fixes step :: "'s \<Rightarrow> 's \<Rightarrow> bool"
    and gone :: "'s \<Rightarrow> 'h \<Rightarrow> bool"
    and held :: "'s \<Rightarrow> 'h \<Rightarrow> bool"
    and fillable :: "'s \<Rightarrow> 'h \<Rightarrow> bool"
    and known :: "'s \<Rightarrow> 'h \<Rightarrow> bool"
  assumes known_stays: "step s t \<Longrightarrow> known s h \<Longrightarrow> known t h"
    and gone_stays: "step s t \<Longrightarrow> known s h \<Longrightarrow> gone s h \<Longrightarrow> gone t h"
    and held_origin: "step s t \<Longrightarrow> known s h \<Longrightarrow> held t h \<Longrightarrow> held s h \<or> fillable s h"
    and fillable_origin: "step s t \<Longrightarrow> known s h \<Longrightarrow> fillable t h \<Longrightarrow> fillable s h \<or> \<not> gone s h"
begin

definition dead :: "'s \<Rightarrow> 'h \<Rightarrow> bool" where
  "dead s h \<longleftrightarrow> known s h \<and> gone s h \<and> \<not> held s h \<and> \<not> fillable s h"

lemma dead_step: "step s t \<Longrightarrow> dead s h \<Longrightarrow> dead t h"
  unfolding dead_def using known_stays gone_stays held_origin fillable_origin by blast

lemma dead_forever: "step\<^sup>*\<^sup>* s t \<Longrightarrow> dead s h \<Longrightarrow> dead t h"
  by (induction rule: rtranclp_induct) (auto intro: dead_step)

lemma dead_not_held: "step\<^sup>*\<^sup>* s t \<Longrightarrow> dead s h \<Longrightarrow> gone t h \<and> \<not> held t h"
  using dead_forever by (auto simp: dead_def)

end

text \<open>Lists of operations in flight, one of which moves on.\<close>

lemma mem_middle: "x \<in> set (xs @ y # ys) \<longleftrightarrow> x = y \<or> x \<in> set (xs @ ys)"
  by auto

end
