(* ===== verification/AuthSessions.thy ===== *)
theory AuthSessions
  imports GuardedCache
begin

text \<open>
  The browser-session store of \<open>src/web/auth-sessions.ts\<close>. A session is identified by the hash of
  its token. The table, the cache and the revocation counter are the state; a call that is waiting
  at an \<open>await\<close> is an operation in flight, and every stretch of code between two awaits, as well as
  every table access itself, is one step.

  \<open>minted\<close> is a ghost: the hashes ever inserted. A fresh token of 32 random bytes is taken to be
  new. \<open>answers\<close> records what finished \<open>resolveSession\<close> calls returned.
\<close>

section \<open>State\<close>

record session =
  userId :: int
  username :: string
  createdAt :: int
  lastSeenAt :: int

definition IDLE_TTL_SEC :: int where "IDLE_TTL_SEC = 7 * 24 * 60 * 60"
definition ABSOLUTE_TTL_SEC :: int where "ABSOLUTE_TTL_SEC = 30 * 24 * 60 * 60"
definition LAST_SEEN_DEBOUNCE_SEC :: int where "LAST_SEEN_DEBOUNCE_SEC = 60"

text \<open>What a removal removes: one hash, all sessions of a user but one, or all of them.\<close>

datatype target = OneHash string | OfUser int "string option" | Everyone

fun hits :: "target \<Rightarrow> string \<Rightarrow> session \<Rightarrow> bool" where
  "hits (OneHash h') h _ \<longleftrightarrow> h = h'"
| "hits (OfUser u exceptHash) h r \<longleftrightarrow> userId r = u \<and> exceptHash \<noteq> Some h"
| "hits Everyone _ _ \<longleftrightarrow> True"

datatype op =
    Created string session
  | Reading nat string
  | Got nat string "session option"
  | ReadingAgain string
  | GotAgain string "session option"
  | Touching string session int
  | Touched string session bool
  | Removing target
  | Removed target
  | Sweeping int
  | Swept int

record store =
  table :: "string \<Rightarrow> session option"
  cache :: "string \<Rightarrow> session option"
  revokeEpoch :: nat
  ops :: "op list"
  minted :: "string set"
  answers :: "(string \<times> (int \<times> string) option) list"

definition empty_store :: "(string \<Rightarrow> session option) \<Rightarrow> store" where
  "empty_store rows = \<lparr>table = rows, cache = (\<lambda>_. None), revokeEpoch = 0, ops = [],
     minted = {h. rows h \<noteq> None}, answers = []\<rparr>"

section \<open>Operations\<close>

definition prune :: "(string \<Rightarrow> session \<Rightarrow> bool) \<Rightarrow> (string \<Rightarrow> session option) \<Rightarrow> string \<Rightarrow> session option" where
  "prune P tab h = (case tab h of Some r \<Rightarrow> if P h r then None else Some r | None \<Rightarrow> None)"

definition answer :: "string \<Rightarrow> (int \<times> string) option \<Rightarrow> store \<Rightarrow> store" where
  "answer h a s = s\<lparr>answers := answers s @ [(h, a)]\<rparr>"

definition issue :: "op \<Rightarrow> store \<Rightarrow> store" where
  "issue x s = s\<lparr>ops := ops s @ [x]\<rparr>"

text \<open>\<open>createSession\<close>: the insert, and the cache entry after it.\<close>

definition create_insert :: "string \<Rightarrow> int \<Rightarrow> string \<Rightarrow> int \<Rightarrow> store \<Rightarrow> store" where
  "create_insert h uid name now s =
     (let r = \<lparr>userId = uid, username = name, createdAt = now, lastSeenAt = now\<rparr>
      in issue (Created h r) (s\<lparr>table := (table s)(h \<mapsto> r), minted := insert h (minted s)\<rparr>))"

text \<open>The part of \<open>resolveSession\<close> after the entry is known.\<close>

definition expired :: "session \<Rightarrow> int \<Rightarrow> bool" where
  "expired entry now \<longleftrightarrow>
     now - createdAt entry > ABSOLUTE_TTL_SEC \<or> now - lastSeenAt entry > IDLE_TTL_SEC"

definition check_entry :: "string \<Rightarrow> session \<Rightarrow> int \<Rightarrow> store \<Rightarrow> store" where
  "check_entry h entry now s =
     (if expired entry now then answer h None (issue (Removing (OneHash h)) s)
      else if now - lastSeenAt entry \<ge> LAST_SEEN_DEBOUNCE_SEC
      then issue (Touching h (entry\<lparr>lastSeenAt := now\<rparr>) now)
             (s\<lparr>cache := (if cache s h = Some entry then (cache s)(h \<mapsto> entry\<lparr>lastSeenAt := now\<rparr>)
                          else cache s)\<rparr>)
      else answer h (Some (userId entry, username entry)) s)"

definition resolve_start :: "string \<Rightarrow> int \<Rightarrow> store \<Rightarrow> store" where
  "resolve_start h now s =
     (case cache s h of
        Some entry \<Rightarrow> check_entry h entry now s
      | None \<Rightarrow> issue (Reading (revokeEpoch s) h) s)"

text \<open>\<open>rehydrate\<close> after its first table read.\<close>

definition rehydrated :: "nat \<Rightarrow> string \<Rightarrow> session option \<Rightarrow> int \<Rightarrow> store \<Rightarrow> store" where
  "rehydrated epoch h row now s =
     (case row of
        None \<Rightarrow> answer h None s
      | Some r \<Rightarrow>
          if epoch = revokeEpoch s then check_entry h r now (s\<lparr>cache := (cache s)(h \<mapsto> r)\<rparr>)
          else issue (ReadingAgain h) s)"

definition rehydrated_again :: "string \<Rightarrow> session option \<Rightarrow> int \<Rightarrow> store \<Rightarrow> store" where
  "rehydrated_again h row now s =
     (case row of None \<Rightarrow> answer h None s | Some r \<Rightarrow> check_entry h r now s)"

definition touch_row :: "string \<Rightarrow> int \<Rightarrow> store \<Rightarrow> store" where
  "touch_row h now s = s\<lparr>table := (case table s h of
      Some r \<Rightarrow> (table s)(h \<mapsto> r\<lparr>lastSeenAt := now\<rparr>) | None \<Rightarrow> table s)\<rparr>"

definition touched :: "string \<Rightarrow> session \<Rightarrow> bool \<Rightarrow> store \<Rightarrow> store" where
  "touched h entry changed s =
     (if \<not> changed then answer h None (s\<lparr>cache := (cache s)(h := None)\<rparr>)
      else answer h (Some (userId entry, username entry)) s)"

text \<open>
  \<open>removeByHash\<close>, \<open>revokeAllForUser\<close> and \<open>revokeAllSessions\<close>: the table delete, which may
  reject, and the \<open>finally\<close> block.
\<close>

definition delete_rows :: "target \<Rightarrow> store \<Rightarrow> store" where
  "delete_rows tg s = s\<lparr>table := prune (hits tg) (table s)\<rparr>"

definition finish_removal :: "target \<Rightarrow> store \<Rightarrow> store" where
  "finish_removal tg s =
     s\<lparr>cache := (case tg of OneHash h \<Rightarrow> (cache s)(h := None) | _ \<Rightarrow> prune (hits tg) (cache s)),
       revokeEpoch := Suc (revokeEpoch s)\<rparr>"

text \<open>\<open>sweepExpiredSessions\<close>: the cutoffs are taken before the table delete.\<close>

definition past_cutoff :: "int \<Rightarrow> string \<Rightarrow> session \<Rightarrow> bool" where
  "past_cutoff now h r \<longleftrightarrow> lastSeenAt r < now - IDLE_TTL_SEC \<or> createdAt r < now - ABSOLUTE_TTL_SEC"

section \<open>The step relation\<close>

text \<open>\<open>next_op s x t\<close>: the operation \<open>x\<close>, taken out of the list, moves on.\<close>

inductive next_op :: "store \<Rightarrow> op \<Rightarrow> store \<Rightarrow> bool" where
  "next_op s (Created h r) (s\<lparr>cache := (cache s)(h \<mapsto> r)\<rparr>)"
| "next_op s (Reading e h) (issue (Got e h (table s h)) s)"
| "next_op s (Got e h row) (rehydrated e h row now s)"
| "next_op s (ReadingAgain h) (issue (GotAgain h (table s h)) s)"
| "next_op s (GotAgain h row) (rehydrated_again h row now s)"
| "next_op s (Touching h r now) (issue (Touched h r (table s h \<noteq> None)) (touch_row h now s))"
| "next_op s (Touched h r changed) (touched h r changed s)"
| "next_op s (Removing tg) (issue (Removed tg) (delete_rows tg s))"
| "next_op s (Removing tg) (issue (Removed tg) s)"
| "next_op s (Removed tg) (finish_removal tg s)"
| "next_op s (Sweeping now) (issue (Swept now) (s\<lparr>table := prune (past_cutoff now) (table s)\<rparr>))"
| "next_op s (Swept now) (s\<lparr>cache := prune (past_cutoff now) (cache s)\<rparr>)"

inductive store_step :: "store \<Rightarrow> store \<Rightarrow> bool" where
  Create: "h \<notin> minted s \<Longrightarrow> store_step s (create_insert h uid name now s)"
| Resolve: "store_step s (resolve_start h now s)"
| Revoke: "store_step s (issue (Removing tg) s)"
| Sweep: "store_step s (issue (Sweeping now) s)"
| OtherProcess: "store_step s (s\<lparr>table := prune P (table s)\<rparr>)"
| Continue: "ops s = xs @ x # ys \<Longrightarrow> next_op (s\<lparr>ops := xs @ ys\<rparr>) x t \<Longrightarrow> store_step s t"

inductive session_reachable :: "store \<Rightarrow> bool" where
  Init: "session_reachable (empty_store rows)"
| Step: "session_reachable s \<Longrightarrow> store_step s t \<Longrightarrow> session_reachable t"

inductive_cases next_opE: "next_op s x t"

section \<open>The store is a guarded cache\<close>

definition gone :: "store \<Rightarrow> string \<Rightarrow> bool" where
  "gone s h \<longleftrightarrow> table s h = None"

definition held :: "store \<Rightarrow> string \<Rightarrow> bool" where
  "held s h \<longleftrightarrow> cache s h \<noteq> None"

definition known :: "store \<Rightarrow> string \<Rightarrow> bool" where
  "known s h \<longleftrightarrow> h \<in> minted s"

text \<open>An operation in flight that the code would let put \<open>h\<close> into the cache.\<close>

definition can_fill :: "nat \<Rightarrow> string \<Rightarrow> op \<Rightarrow> bool" where
  "can_fill epoch h x \<longleftrightarrow> (\<exists>r. x = Created h r) \<or> (\<exists>e r. epoch \<le> e \<and> x = Got e h (Some r))"

definition fillable :: "store \<Rightarrow> string \<Rightarrow> bool" where
  "fillable s h \<longleftrightarrow> (\<exists>x \<in> set (ops s). can_fill (revokeEpoch s) h x)"

lemmas cache_view_defs = gone_def held_def known_def

lemma issue_sel [simp]:
  "table (issue x s) = table s" "cache (issue x s) = cache s" "revokeEpoch (issue x s) = revokeEpoch s"
  "minted (issue x s) = minted s" "ops (issue x s) = ops s @ [x]"
  by (simp_all add: issue_def)

lemma answer_sel [simp]:
  "table (answer h a s) = table s" "cache (answer h a s) = cache s" "revokeEpoch (answer h a s) = revokeEpoch s"
  "minted (answer h a s) = minted s" "ops (answer h a s) = ops s"
  by (simp_all add: answer_def)

lemma check_entry_sel [simp]:
  "table (check_entry h r now s) = table s" "revokeEpoch (check_entry h r now s) = revokeEpoch s"
  "minted (check_entry h r now s) = minted s"
  "cache (check_entry h r now s) h' = None \<longleftrightarrow> cache s h' = None"
  by (auto simp: check_entry_def)

lemma check_entry_ops:
  "x \<in> set (ops (check_entry h r now s)) \<Longrightarrow>
     x \<in> set (ops s) \<or> x = Removing (OneHash h) \<or> (\<exists>r'. x = Touching h r' now)"
  by (auto simp: check_entry_def split: if_splits)

lemma prune_None [simp]: "tab h = None \<Longrightarrow> prune P tab h = None"
  by (simp add: prune_def)

lemma can_fill_simps [simp]:
  "can_fill e h (Created h' r) \<longleftrightarrow> h = h'" "\<not> can_fill e h (Reading e' h')"
  "can_fill e h (Got e' h' row) \<longleftrightarrow> h = h' \<and> e \<le> e' \<and> row \<noteq> None"
  "\<not> can_fill e h (ReadingAgain h')" "\<not> can_fill e h (GotAgain h' row)" "\<not> can_fill e h (Touching h' r' now)"
  "\<not> can_fill e h (Touched h' r' b)" "\<not> can_fill e h (Removing tg)" "\<not> can_fill e h (Removed tg)"
  "\<not> can_fill e h (Sweeping now)" "\<not> can_fill e h (Swept now)"
  by (auto simp: can_fill_def)

lemma can_fill_mono: "can_fill (Suc e) h x \<Longrightarrow> can_fill e h x"
  by (auto simp: can_fill_def)

lemma finish_removal_sel [simp]:
  "table (finish_removal tg s) = table s" "ops (finish_removal tg s) = ops s"
  "revokeEpoch (finish_removal tg s) = Suc (revokeEpoch s)" "minted (finish_removal tg s) = minted s"
  by (simp_all add: finish_removal_def)

lemma finish_removal_cache [simp]: "cache s h = None \<Longrightarrow> cache (finish_removal tg s) h = None"
  by (auto simp: finish_removal_def split: target.splits)

lemma rehydrated_sel [simp]:
  "table (rehydrated e h row now s) = table s" "revokeEpoch (rehydrated e h row now s) = revokeEpoch s"
  "minted (rehydrated e h row now s) = minted s"
  by (auto simp: rehydrated_def split: option.splits)

lemma rehydrated_cache [simp]:
  "cache s h' = None \<Longrightarrow> h' \<noteq> h \<or> e < revokeEpoch s \<or> row = None \<Longrightarrow> cache (rehydrated e h row now s) h' = None"
  by (auto simp: rehydrated_def split: option.splits)

lemma rehydrated_again_sel [simp]:
  "table (rehydrated_again h row now s) = table s" "revokeEpoch (rehydrated_again h row now s) = revokeEpoch s"
  "minted (rehydrated_again h row now s) = minted s"
  "cache (rehydrated_again h row now s) h' = None \<longleftrightarrow> cache s h' = None"
  by (auto simp: rehydrated_again_def split: option.splits)

lemma continuation_ops:
  "x \<in> set (ops (rehydrated e h row now s)) \<Longrightarrow> x \<in> set (ops s) \<or> \<not> can_fill e' h' x"
  "x \<in> set (ops (rehydrated_again h row now s)) \<Longrightarrow> x \<in> set (ops s) \<or> \<not> can_fill e' h' x"
  by (auto simp: rehydrated_def rehydrated_again_def split: option.splits if_splits dest!: check_entry_ops)

lemma touched_sel [simp]:
  "table (touched h r b s) = table s" "revokeEpoch (touched h r b s) = revokeEpoch s"
  "minted (touched h r b s) = minted s" "ops (touched h r b s) = ops s"
  "cache s h' = None \<Longrightarrow> cache (touched h r b s) h' = None"
  by (auto simp: touched_def)

lemma touch_row_sel [simp]:
  "table (touch_row h now s) h' = None \<longleftrightarrow> table s h' = None" "cache (touch_row h now s) = cache s"
  "revokeEpoch (touch_row h now s) = revokeEpoch s" "minted (touch_row h now s) = minted s"
  "ops (touch_row h now s) = ops s"
  by (auto simp: touch_row_def split: option.splits)

lemma create_insert_sel [simp]:
  "minted (create_insert h u n now s) = insert h (minted s)" "cache (create_insert h u n now s) = cache s"
  "revokeEpoch (create_insert h u n now s) = revokeEpoch s"
  by (auto simp: create_insert_def Let_def)

lemma resolve_start_sel [simp]:
  "table (resolve_start h now s) = table s" "revokeEpoch (resolve_start h now s) = revokeEpoch s"
  "minted (resolve_start h now s) = minted s"
  "cache (resolve_start h now s) h' = None \<longleftrightarrow> cache s h' = None"
  by (auto simp: resolve_start_def split: option.splits)

lemma resolve_start_ops:
  "x \<in> set (ops (resolve_start h now s)) \<Longrightarrow> x \<in> set (ops s) \<or> \<not> can_fill e' h' x"
  by (auto simp: resolve_start_def split: option.splits dest!: check_entry_ops)

lemma delete_rows_sel [simp]:
  "cache (delete_rows tg s) = cache s" "revokeEpoch (delete_rows tg s) = revokeEpoch s"
  "minted (delete_rows tg s) = minted s" "ops (delete_rows tg s) = ops s"
  "table (delete_rows tg s) = prune (hits tg) (table s)"
  by (simp_all add: delete_rows_def)

text \<open>How one operation that moves on changes the view.\<close>

lemma next_op_view:
  assumes "next_op s x t"
  shows "minted t = minted s" and "table s h = None \<Longrightarrow> table t h = None"
    and "cache s h = None \<Longrightarrow> \<not> can_fill (revokeEpoch s) h x \<Longrightarrow> cache t h = None"
    and "table s h = None \<Longrightarrow> \<not> can_fill (revokeEpoch s) h x \<Longrightarrow> \<not> fillable s h \<Longrightarrow> \<not> fillable t h"
  using assms
  by (auto elim!: next_opE simp: fillable_def dest: continuation_ops dest!: can_fill_mono)

lemma create_insert_other [simp]:
  "h' \<noteq> h \<Longrightarrow> table (create_insert h u n now s) h' = table s h'"
  "ops (create_insert h u n now s) =
     ops s @ [Created h \<lparr>userId = u, username = n, createdAt = now, lastSeenAt = now\<rparr>]"
  by (auto simp: create_insert_def Let_def)

lemma store_step_view:
  assumes "store_step s t" and "known s h"
  shows "known t h" and "gone s h \<Longrightarrow> gone t h"
    and "held t h \<Longrightarrow> held s h \<or> fillable s h" and "fillable t h \<Longrightarrow> fillable s h \<or> \<not> gone s h"
proof -
  have "known t h \<and> (gone s h \<longrightarrow> gone t h) \<and> (held t h \<longrightarrow> held s h \<or> fillable s h) \<and>
      (fillable t h \<longrightarrow> fillable s h \<or> \<not> gone s h)"
    using assms
  proof (induction rule: store_step.induct)
    case (Create h' s uid name now)
    then show ?case by (cases "h = h'") (auto simp: cache_view_defs fillable_def)
  next
    case (Resolve s h' now)
    then show ?case
      by (auto simp: cache_view_defs fillable_def dest: resolve_start_ops
          simp del: not_None_eq)
  next
    case (Continue s xs x ys t)
    let ?s' = "s\<lparr>ops := xs @ ys\<rparr>"
    have "known t h" using next_op_view(1) [OF Continue.hyps(2)] Continue.prems by (simp add: known_def)
    moreover have "gone s h \<longrightarrow> gone t h" using next_op_view(2) [OF Continue.hyps(2)] by (simp add: gone_def)
    moreover have "fillable s h \<longleftrightarrow> can_fill (revokeEpoch s) h x \<or> fillable ?s' h"
      using Continue.hyps(1) by (auto simp: fillable_def)
    ultimately show ?case
      using next_op_view(3,4) [OF Continue.hyps(2), of h] by (auto simp: held_def gone_def)
  qed (auto simp: cache_view_defs fillable_def)
  then show "known t h" and "gone s h \<Longrightarrow> gone t h"
    and "held t h \<Longrightarrow> held s h \<or> fillable s h" and "fillable t h \<Longrightarrow> fillable s h \<or> \<not> gone s h"
    by auto
qed

interpretation sessions: guarded_cache store_step gone held fillable known
  by unfold_locales (fact store_step_view)+

section \<open>Reachable states\<close>

text \<open>No lookup carries a counter value from the future.\<close>

fun op_epoch :: "op \<Rightarrow> nat" where
  "op_epoch (Reading e h) = e"
| "op_epoch (Got e h row) = e"
| "op_epoch _ = 0"

definition epochs_ok :: "store \<Rightarrow> bool" where
  "epochs_ok s \<longleftrightarrow> (\<forall>x \<in> set (ops s). op_epoch x \<le> revokeEpoch s)"

lemma check_entry_epochs: "epochs_ok s \<Longrightarrow> epochs_ok (check_entry h r now s)"
  by (auto simp: epochs_ok_def dest!: check_entry_ops)

lemma epochs_cache [simp]: "epochs_ok (s\<lparr>cache := c\<rparr>) = epochs_ok s" "epochs_ok (s\<lparr>table := tab\<rparr>) = epochs_ok s"
  "epochs_ok (answer h a s) = epochs_ok s" "epochs_ok (issue x s) \<longleftrightarrow> epochs_ok s \<and> op_epoch x \<le> revokeEpoch s"
  by (auto simp: epochs_ok_def)

lemma epochs_parts [simp]:
  "epochs_ok (touched h r b s) = epochs_ok s" "epochs_ok (touch_row h now s) = epochs_ok s"
  "epochs_ok (delete_rows tg s) = epochs_ok s" "epochs_ok s \<Longrightarrow> epochs_ok (finish_removal tg s)"
  by (auto simp: touched_def touch_row_def delete_rows_def finish_removal_def epochs_ok_def)

lemma epochs_resumed [simp]:
  "epochs_ok s \<Longrightarrow> epochs_ok (rehydrated e h row now s)"
  "epochs_ok s \<Longrightarrow> epochs_ok (rehydrated_again h row now s)"
  "epochs_ok s \<Longrightarrow> epochs_ok (resolve_start h now s)"
  by (auto simp: rehydrated_def rehydrated_again_def resolve_start_def check_entry_epochs split: option.splits)

lemma next_op_epochs: "next_op s x t \<Longrightarrow> epochs_ok s \<Longrightarrow> op_epoch x \<le> revokeEpoch s \<Longrightarrow> epochs_ok t"
  by (erule next_opE) simp_all

lemma store_step_epochs: "store_step s t \<Longrightarrow> epochs_ok s \<Longrightarrow> epochs_ok t"
proof (induction rule: store_step.induct)
  case (Continue s xs x ys t)
  then have "epochs_ok (s\<lparr>ops := xs @ ys\<rparr>)" and "op_epoch x \<le> revokeEpoch (s\<lparr>ops := xs @ ys\<rparr>)"
    by (auto simp: epochs_ok_def)
  with Continue.hyps(2) show ?case by (rule next_op_epochs)
next
  case (Create h s uid name now)
  then show ?case by (simp add: epochs_ok_def)
qed simp_all

lemma reachable_epochs: "session_reachable s \<Longrightarrow> epochs_ok s"
  by (induction rule: session_reachable.induct) (simp add: empty_store_def epochs_ok_def, rule store_step_epochs)

section \<open>An uninterrupted call\<close>

definition resolve_now :: "string \<Rightarrow> int \<Rightarrow> store \<Rightarrow> (int \<times> string) option" where
  "resolve_now h now s =
     (let entry = (case cache s h of Some r \<Rightarrow> Some r | None \<Rightarrow> table s h)
      in case entry of
           None \<Rightarrow> None
         | Some r \<Rightarrow>
             if expired r now then None
             else if now - lastSeenAt r \<ge> LAST_SEEN_DEBOUNCE_SEC \<and> table s h = None then None
             else Some (userId r, username r))"

section \<open>Properties\<close>

text \<open>
  C21: a finished revocation is final. When the removal of sessions (one session, all of a user's,
  or all) has deleted the row of a session it covers and its \<open>finally\<close> block runs, and no login is
  at that moment between its insert and its cache entry for that very session, then however the
  calls in flight and all later calls interleave, the session never comes back: it is in neither the
  table nor the cache, and a resolve of its cookie answers null.
\<close>

theorem revocation_is_final:
  assumes "session_reachable s" and "ops s = xs @ Removed tg # ys" and "h \<in> minted s" and "table s h = None"
    and "\<forall>r. cache s h = Some r \<longrightarrow> hits tg h r" and "\<forall>r. Created h r \<notin> set (ops s)"
    and "store_step\<^sup>*\<^sup>* (finish_removal tg (s\<lparr>ops := xs @ ys\<rparr>)) t"
  shows "table t h = None \<and> cache t h = None \<and> resolve_now h now t = None"
proof -
  let ?t = "finish_removal tg (s\<lparr>ops := xs @ ys\<rparr>)"
  have "cache ?t h = None"
    using assms(5) by (cases tg) (auto simp: finish_removal_def prune_def split: option.splits)
  moreover have "\<not> can_fill (revokeEpoch ?t) h x" if "x \<in> set (ops s)" for x
  proof -
    from reachable_epochs [OF assms(1)] that have "op_epoch x \<le> revokeEpoch s" by (simp add: epochs_ok_def)
    with that assms(6) show ?thesis by (auto simp: can_fill_def)
  qed
  then have "\<not> fillable ?t h" using assms(2) by (auto simp: fillable_def)
  ultimately have "sessions.dead ?t h"
    using assms(3,4) by (simp add: sessions.dead_def cache_view_defs)
  from sessions.dead_not_held [OF assms(7) this] show ?thesis
    by (simp add: cache_view_defs resolve_now_def)
qed

definition one_row :: "string \<Rightarrow> session option" where
  "one_row = [''h'' \<mapsto> \<lparr>userId = 1, username = ''ann'', createdAt = 0, lastSeenAt = 0\<rparr>]"

definition after_delete :: store where
  "after_delete = issue (Removed Everyone) (delete_rows Everyone ((empty_store one_row)\<lparr>ops := []\<rparr>))"

lemma after_delete_reachable: "session_reachable after_delete"
proof -
  let ?s = "issue (Removing Everyone) (empty_store one_row)"
  have "store_step (empty_store one_row) ?s" by (rule store_step.Revoke)
  moreover have "store_step ?s after_delete"
  proof (rule store_step.Continue [where xs = "[]" and ys = "[]"])
    show "ops ?s = [] @ Removing Everyone # []" by (simp add: empty_store_def)
    have "?s\<lparr>ops := [] @ []\<rparr> = (empty_store one_row)\<lparr>ops := []\<rparr>" by (simp add: issue_def)
    then show "next_op (?s\<lparr>ops := [] @ []\<rparr>) (Removing Everyone) after_delete"
      unfolding after_delete_def by (simp only:) (rule next_op.intros)
  qed
  ultimately show ?thesis by (meson session_reachable.intros)
qed

theorem revocation_is_final_witness:
  "resolve_now ''h'' 10 (finish_removal Everyone (after_delete\<lparr>ops := []\<rparr>)) = None"
proof -
  have "ops after_delete = [] @ Removed Everyone # []" "''h'' \<in> minted after_delete"
    "table after_delete ''h'' = None" "cache after_delete ''h'' = None"
    by (simp_all add: after_delete_def empty_store_def one_row_def prune_def delete_rows_def issue_def)
  with revocation_is_final [OF after_delete_reachable, of "[]" Everyone "[]" "''h''"] show ?thesis
    by simp
qed

text \<open>
  the login race. The side condition is needed: there is a run in which \<open>revokeAllSessions\<close>
  finishes between the insert and the cache entry of a login, after which the table has no row for
  the new session, yet its cookie resolves, and does so for any time up to the next debounced write
  (60 seconds).
\<close>

definition login_lost :: store where
  "login_lost =
     (finish_removal Everyone (delete_rows Everyone (create_insert ''h'' 1 ''ann'' 0 (empty_store (\<lambda>_. None)))))
       \<lparr>cache := [''h'' \<mapsto> \<lparr>userId = 1, username = ''ann'', createdAt = 0, lastSeenAt = 0\<rparr>], ops := []\<rparr>"

lemma login_lost_reachable: "session_reachable login_lost"
proof -
  let ?r = "\<lparr>userId = 1, username = ''ann'', createdAt = 0, lastSeenAt = 0\<rparr>"
  let ?s0 = "empty_store (\<lambda>_. None)"
  let ?s1 = "create_insert ''h'' 1 ''ann'' 0 ?s0"
  let ?s2 = "issue (Removing Everyone) ?s1"
  let ?d = "delete_rows Everyone ?s1"
  let ?s3 = "issue (Removed Everyone) ?d"
  let ?s4 = "finish_removal Everyone ?d"
  have o: "ops ?s1 = [Created ''h'' ?r]" by (simp add: empty_store_def)
  have "store_step ?s0 ?s1" by (rule store_step.Create) (simp add: empty_store_def)
  moreover have "store_step ?s1 ?s2" by (rule store_step.Revoke)
  moreover have "store_step ?s2 ?s3"
  proof (rule store_step.Continue [where xs = "[Created ''h'' ?r]" and ys = "[]"])
    show "ops ?s2 = [Created ''h'' ?r] @ Removing Everyone # []" using o by simp
    have "?s2\<lparr>ops := [Created ''h'' ?r] @ []\<rparr> = ?s1" using o by (cases ?s1) (simp add: issue_def)
    then show "next_op (?s2\<lparr>ops := [Created ''h'' ?r] @ []\<rparr>) (Removing Everyone) ?s3"
      by (simp only:) (rule next_op.intros)
  qed
  moreover have "store_step ?s3 ?s4"
  proof (rule store_step.Continue [where xs = "[Created ''h'' ?r]" and ys = "[]"])
    show "ops ?s3 = [Created ''h'' ?r] @ Removed Everyone # []" using o by simp
    have "?s3\<lparr>ops := [Created ''h'' ?r] @ []\<rparr> = ?d" using o by (cases ?s1) (simp add: issue_def delete_rows_def)
    then show "next_op (?s3\<lparr>ops := [Created ''h'' ?r] @ []\<rparr>) (Removed Everyone) ?s4"
      by (simp only:) (rule next_op.intros)
  qed
  moreover have "store_step ?s4 login_lost"
  proof (rule store_step.Continue [where xs = "[]" and ys = "[]"])
    show "ops ?s4 = [] @ Created ''h'' ?r # []" using o by simp
    have "cache ?s4 = (\<lambda>_. None)" by (simp add: finish_removal_def prune_def empty_store_def fun_eq_iff)
    then have "(?s4\<lparr>ops := [] @ []\<rparr>)\<lparr>cache := (cache (?s4\<lparr>ops := [] @ []\<rparr>))(''h'' \<mapsto> ?r)\<rparr> = login_lost"
      by (simp add: login_lost_def)
    from next_op.intros(1) [of "?s4\<lparr>ops := [] @ []\<rparr>" "''h''" ?r, unfolded this]
    show "next_op (?s4\<lparr>ops := [] @ []\<rparr>) (Created ''h'' ?r) login_lost" .
  qed
  ultimately show ?thesis by (meson session_reachable.intros)
qed

theorem login_race:
  "session_reachable login_lost \<and> ops login_lost = [] \<and> table login_lost ''h'' = None \<and>
   (resolve_now ''h'' now login_lost \<noteq> None \<longleftrightarrow> now < LAST_SEEN_DEBOUNCE_SEC)"
proof -
  have "table login_lost ''h'' = None"
    by (simp add: login_lost_def empty_store_def create_insert_def prune_def Let_def)
  then show ?thesis
    using login_lost_reachable
    by (auto simp: resolve_now_def Let_def login_lost_def expired_def LAST_SEEN_DEBOUNCE_SEC_def
        IDLE_TTL_SEC_def ABSOLUTE_TTL_SEC_def)
qed

end
