(* ===== verification/DeviceKeys.thy ===== *)
theory DeviceKeys
  imports GuardedCache
begin

text \<open>
  The device-key store of \<open>src/web/auth-device-keys.ts\<close>, over the same interface as the sessions.
  A lookup that sees the removal counter move reads again, three times at most, and never caches a
  row it read across a removal. \<open>minted\<close> is the ghost of the hashes ever inserted.
\<close>

section \<open>State\<close>

record device_key =
  key_id :: int
  key_name :: string
  lastUsedAt :: "int option"
  expiresAt :: "int option"

definition LAST_USED_DEBOUNCE_SEC :: int where "LAST_USED_DEBOUNCE_SEC = 60"
definition MAX_ATTEMPTS :: nat where "MAX_ATTEMPTS = 3"

datatype removal = ById int | AllKeys | ExpiredBefore int

fun covers :: "removal \<Rightarrow> device_key \<Rightarrow> bool" where
  "covers (ById i) r \<longleftrightarrow> key_id r = i"
| "covers AllKeys r \<longleftrightarrow> True"
| "covers (ExpiredBefore now) r \<longleftrightarrow> (case expiresAt r of Some e \<Rightarrow> e < now | None \<Rightarrow> False)"

datatype key_op =
    Minted string device_key
  | KeyReading nat nat string
  | KeyGot nat nat string "device_key option"
  | KeyTouching string device_key int
  | KeyTouched string device_key bool
  | DeletingHash string
  | DeletedHash string
  | KeyRemoving removal
  | KeyRemoved removal

record key_store =
  key_table :: "string \<Rightarrow> device_key option"
  key_cache :: "string \<Rightarrow> device_key option"
  removalEpoch :: nat
  key_ops :: "key_op list"
  key_minted :: "string set"
  key_answers :: "(string \<times> (int \<times> string) option) list"

definition empty_keys :: "(string \<Rightarrow> device_key option) \<Rightarrow> key_store" where
  "empty_keys rows = \<lparr>key_table = rows, key_cache = (\<lambda>_. None), removalEpoch = 0, key_ops = [],
     key_minted = {h. rows h \<noteq> None}, key_answers = []\<rparr>"

definition prune_keys :: "removal \<Rightarrow> (string \<Rightarrow> device_key option) \<Rightarrow> string \<Rightarrow> device_key option" where
  "prune_keys rm tab h = (case tab h of Some r \<Rightarrow> if covers rm r then None else Some r | None \<Rightarrow> None)"

section \<open>Operations\<close>

definition reply :: "string \<Rightarrow> (int \<times> string) option \<Rightarrow> key_store \<Rightarrow> key_store" where
  "reply h a s = s\<lparr>key_answers := key_answers s @ [(h, a)]\<rparr>"

definition push_op :: "key_op \<Rightarrow> key_store \<Rightarrow> key_store" where
  "push_op x s = s\<lparr>key_ops := key_ops s @ [x]\<rparr>"

text \<open>\<open>createDeviceKey\<close>: the insert gives the id; the cache entry follows.\<close>

definition createDeviceKey :: "string \<Rightarrow> int \<Rightarrow> string \<Rightarrow> int option \<Rightarrow> key_store \<Rightarrow> key_store" where
  "createDeviceKey h i name expires s =
     (let r = \<lparr>key_id = i, key_name = name, lastUsedAt = None, expiresAt = expires\<rparr>
      in push_op (Minted h r) (s\<lparr>key_table := (key_table s)(h \<mapsto> r), key_minted := insert h (key_minted s)\<rparr>))"

definition key_expired :: "device_key \<Rightarrow> int \<Rightarrow> bool" where
  "key_expired r now = (case expiresAt r of Some e \<Rightarrow> now > e | None \<Rightarrow> False)"

definition needs_touch :: "device_key \<Rightarrow> int \<Rightarrow> bool" where
  "needs_touch r now = (case lastUsedAt r of None \<Rightarrow> True | Some t \<Rightarrow> now - t \<ge> LAST_USED_DEBOUNCE_SEC)"

text \<open>The part of \<open>resolveDeviceKey\<close> after the entry is known; \<open>removeByHash\<close> drops the cache entry first.\<close>

definition check_key :: "string \<Rightarrow> device_key \<Rightarrow> int \<Rightarrow> key_store \<Rightarrow> key_store" where
  "check_key h entry now s =
     (if key_expired entry now
      then reply h None (push_op (DeletingHash h) (s\<lparr>key_cache := (key_cache s)(h := None)\<rparr>))
      else if needs_touch entry now
      then push_op (KeyTouching h (entry\<lparr>lastUsedAt := Some now\<rparr>) now)
             (s\<lparr>key_cache := (if key_cache s h = Some entry
                             then (key_cache s)(h \<mapsto> entry\<lparr>lastUsedAt := Some now\<rparr>) else key_cache s)\<rparr>)
      else reply h (Some (key_id entry, key_name entry)) s)"

definition lookup :: "nat \<Rightarrow> string \<Rightarrow> key_store \<Rightarrow> key_store" where
  "lookup attempt h s =
     (if attempt \<ge> MAX_ATTEMPTS then reply h None s
      else push_op (KeyReading attempt (removalEpoch s) h) s)"

definition resolve_key :: "string \<Rightarrow> int \<Rightarrow> key_store \<Rightarrow> key_store" where
  "resolve_key h now s =
     (case key_cache s h of Some entry \<Rightarrow> check_key h entry now s | None \<Rightarrow> lookup 0 h s)"

definition looked_up :: "nat \<Rightarrow> nat \<Rightarrow> string \<Rightarrow> device_key option \<Rightarrow> int \<Rightarrow> key_store \<Rightarrow> key_store" where
  "looked_up attempt epoch h row now s =
     (case row of
        None \<Rightarrow> reply h None s
      | Some r \<Rightarrow>
          if epoch \<noteq> removalEpoch s then lookup (Suc attempt) h s
          else check_key h r now (s\<lparr>key_cache := (key_cache s)(h \<mapsto> r)\<rparr>))"

definition touch_key :: "string \<Rightarrow> int \<Rightarrow> key_store \<Rightarrow> key_store" where
  "touch_key h now s = s\<lparr>key_table := (case key_table s h of
      Some r \<Rightarrow> (key_table s)(h \<mapsto> r\<lparr>lastUsedAt := Some now\<rparr>) | None \<Rightarrow> key_table s)\<rparr>"

definition key_touched :: "string \<Rightarrow> device_key \<Rightarrow> bool \<Rightarrow> key_store \<Rightarrow> key_store" where
  "key_touched h entry changed s =
     (if \<not> changed then reply h None (s\<lparr>key_cache := (key_cache s)(h := None)\<rparr>)
      else reply h (Some (key_id entry, key_name entry)) s)"

text \<open>After the row delete of \<open>revokeDeviceKey\<close>, \<open>revokeAllDeviceKeys\<close> or the sweep.\<close>

definition finish_keys :: "removal \<Rightarrow> key_store \<Rightarrow> key_store" where
  "finish_keys rm s =
     s\<lparr>key_cache := prune_keys rm (key_cache s), removalEpoch := Suc (removalEpoch s)\<rparr>"

section \<open>The step relation\<close>

inductive next_key_op :: "key_store \<Rightarrow> key_op \<Rightarrow> key_store \<Rightarrow> bool" where
  "next_key_op s (Minted h r) (s\<lparr>key_cache := (key_cache s)(h \<mapsto> r)\<rparr>)"
| "next_key_op s (KeyReading a e h) (push_op (KeyGot a e h (key_table s h)) s)"
| "next_key_op s (KeyGot a e h row) (looked_up a e h row now s)"
| "next_key_op s (KeyTouching h r now) (push_op (KeyTouched h r (key_table s h \<noteq> None)) (touch_key h now s))"
| "next_key_op s (KeyTouched h r changed) (key_touched h r changed s)"
| "next_key_op s (DeletingHash h) (push_op (DeletedHash h) (s\<lparr>key_table := (key_table s)(h := None)\<rparr>))"
| "next_key_op s (DeletedHash h) (s\<lparr>removalEpoch := Suc (removalEpoch s)\<rparr>)"
| "next_key_op s (KeyRemoving rm) (push_op (KeyRemoved rm) (s\<lparr>key_table := prune_keys rm (key_table s)\<rparr>))"
| "next_key_op s (KeyRemoved rm) (finish_keys rm s)"

inductive key_step :: "key_store \<Rightarrow> key_store \<Rightarrow> bool" where
  Create: "h \<notin> key_minted s \<Longrightarrow> key_step s (createDeviceKey h i name expires s)"
| Resolve: "key_step s (resolve_key h now s)"
| Remove: "key_step s (push_op (KeyRemoving rm) s)"
| OtherProcess: "key_step s (s\<lparr>key_table := prune_keys rm (key_table s)\<rparr>)"
| Continue: "key_ops s = xs @ x # ys \<Longrightarrow> next_key_op (s\<lparr>key_ops := xs @ ys\<rparr>) x t \<Longrightarrow> key_step s t"

inductive reachable_keys :: "key_store \<Rightarrow> bool" where
  Init: "reachable_keys (empty_keys rows)"
| Step: "reachable_keys s \<Longrightarrow> key_step s t \<Longrightarrow> reachable_keys t"

inductive_cases next_key_opE: "next_key_op s x t"

section \<open>The store is a guarded cache\<close>

definition key_gone :: "key_store \<Rightarrow> string \<Rightarrow> bool" where
  "key_gone s h \<longleftrightarrow> key_table s h = None"

definition key_held :: "key_store \<Rightarrow> string \<Rightarrow> bool" where
  "key_held s h \<longleftrightarrow> key_cache s h \<noteq> None"

definition key_known :: "key_store \<Rightarrow> string \<Rightarrow> bool" where
  "key_known s h \<longleftrightarrow> h \<in> key_minted s"

fun key_can_fill :: "nat \<Rightarrow> string \<Rightarrow> key_op \<Rightarrow> bool" where
  "key_can_fill epoch h (Minted h' r) \<longleftrightarrow> h = h'"
| "key_can_fill epoch h (KeyGot a e h' row) \<longleftrightarrow> h = h' \<and> epoch \<le> e \<and> row \<noteq> None"
| "key_can_fill epoch h _ \<longleftrightarrow> False"

definition key_fillable :: "key_store \<Rightarrow> string \<Rightarrow> bool" where
  "key_fillable s h \<longleftrightarrow> (\<exists>x \<in> set (key_ops s). key_can_fill (removalEpoch s) h x)"

lemmas key_view_defs = key_gone_def key_held_def key_known_def

lemma key_can_fill_mono: "key_can_fill (Suc e) h x \<Longrightarrow> key_can_fill e h x"
  by (cases x) auto

lemma key_can_fillD:
  "key_can_fill e h x \<Longrightarrow> (\<exists>r. x = Minted h r) \<or> (\<exists>a e' r. x = KeyGot a e' h (Some r) \<and> e \<le> e')"
  by (cases x) auto

lemma key_push_sel [simp]:
  "key_table (push_op x s) = key_table s" "key_cache (push_op x s) = key_cache s"
  "removalEpoch (push_op x s) = removalEpoch s" "key_minted (push_op x s) = key_minted s"
  "key_ops (push_op x s) = key_ops s @ [x]"
  by (simp_all add: push_op_def)

lemma reply_sel [simp]:
  "key_table (reply h a s) = key_table s" "key_cache (reply h a s) = key_cache s"
  "removalEpoch (reply h a s) = removalEpoch s" "key_minted (reply h a s) = key_minted s"
  "key_ops (reply h a s) = key_ops s"
  by (simp_all add: reply_def)

lemma check_key_sel [simp]:
  "key_table (check_key h r now s) = key_table s" "removalEpoch (check_key h r now s) = removalEpoch s"
  "key_minted (check_key h r now s) = key_minted s"
  "key_cache s h' = None \<Longrightarrow> key_cache (check_key h r now s) h' = None"
  by (auto simp: check_key_def)

lemma lookup_sel [simp]:
  "key_table (lookup a h s) = key_table s" "removalEpoch (lookup a h s) = removalEpoch s"
  "key_minted (lookup a h s) = key_minted s" "key_cache (lookup a h s) = key_cache s"
  by (auto simp: lookup_def)

lemma looked_up_sel [simp]:
  "key_table (looked_up a e h row now s) = key_table s"
  "removalEpoch (looked_up a e h row now s) = removalEpoch s"
  "key_minted (looked_up a e h row now s) = key_minted s"
  "key_cache s h' = None \<Longrightarrow> h' \<noteq> h \<or> e < removalEpoch s \<or> row = None
     \<Longrightarrow> key_cache (looked_up a e h row now s) h' = None"
  by (auto simp: looked_up_def split: option.splits)

lemma resolve_key_sel [simp]:
  "key_table (resolve_key h now s) = key_table s" "removalEpoch (resolve_key h now s) = removalEpoch s"
  "key_minted (resolve_key h now s) = key_minted s"
  "key_cache s h' = None \<Longrightarrow> key_cache (resolve_key h now s) h' = None"
  by (auto simp: resolve_key_def split: option.splits)

text \<open>What a call that goes on puts in flight never fills the cache by itself.\<close>

lemma resumed_ops:
  "x \<in> set (key_ops (check_key h r now s)) \<Longrightarrow> x \<in> set (key_ops s) \<or> \<not> key_can_fill e' h' x"
  "x \<in> set (key_ops (lookup a h s)) \<Longrightarrow> x \<in> set (key_ops s) \<or> \<not> key_can_fill e' h' x"
  by (auto simp: check_key_def lookup_def split: if_splits)

lemma call_ops:
  "x \<in> set (key_ops (resolve_key h now s)) \<Longrightarrow> x \<in> set (key_ops s) \<or> \<not> key_can_fill e' h' x"
  "x \<in> set (key_ops (looked_up a e h row now s)) \<Longrightarrow> x \<in> set (key_ops s) \<or> \<not> key_can_fill e' h' x"
  by (auto simp: resolve_key_def looked_up_def split: option.splits if_splits dest!: resumed_ops(1,2))

lemma prune_keys_None [simp]: "tab h = None \<Longrightarrow> prune_keys rm tab h = None"
  by (simp add: prune_keys_def)

lemma finish_keys_sel [simp]:
  "key_table (finish_keys rm s) = key_table s" "key_ops (finish_keys rm s) = key_ops s"
  "removalEpoch (finish_keys rm s) = Suc (removalEpoch s)" "key_minted (finish_keys rm s) = key_minted s"
  "key_cache (finish_keys rm s) = prune_keys rm (key_cache s)"
  by (simp_all add: finish_keys_def)

lemma key_touched_sel [simp]:
  "key_table (key_touched h r b s) = key_table s" "removalEpoch (key_touched h r b s) = removalEpoch s"
  "key_minted (key_touched h r b s) = key_minted s" "key_ops (key_touched h r b s) = key_ops s"
  "key_cache s h' = None \<Longrightarrow> key_cache (key_touched h r b s) h' = None"
  by (auto simp: key_touched_def)

lemma touch_key_sel [simp]:
  "key_table (touch_key h now s) h' = None \<longleftrightarrow> key_table s h' = None"
  "key_cache (touch_key h now s) = key_cache s" "removalEpoch (touch_key h now s) = removalEpoch s"
  "key_minted (touch_key h now s) = key_minted s" "key_ops (touch_key h now s) = key_ops s"
  by (auto simp: touch_key_def split: option.splits)

lemma createDeviceKey_sel [simp]:
  "key_minted (createDeviceKey h i n e s) = insert h (key_minted s)"
  "key_cache (createDeviceKey h i n e s) = key_cache s" "removalEpoch (createDeviceKey h i n e s) = removalEpoch s"
  "key_ops (createDeviceKey h i n e s) =
     key_ops s @ [Minted h \<lparr>key_id = i, key_name = n, lastUsedAt = None, expiresAt = e\<rparr>]"
  "h' \<noteq> h \<Longrightarrow> key_table (createDeviceKey h i n e s) h' = key_table s h'"
  by (auto simp: createDeviceKey_def Let_def)

lemma next_key_op_view:
  assumes "next_key_op s x t"
  shows "key_minted t = key_minted s" and "key_table s h = None \<Longrightarrow> key_table t h = None"
    and "key_cache s h = None \<Longrightarrow> \<not> key_can_fill (removalEpoch s) h x \<Longrightarrow> key_cache t h = None"
    and "key_table s h = None \<Longrightarrow> \<not> key_can_fill (removalEpoch s) h x \<Longrightarrow> \<not> key_fillable s h
           \<Longrightarrow> \<not> key_fillable t h"
  using assms
  by (auto elim!: next_key_opE simp: key_fillable_def dest: call_ops dest!: key_can_fill_mono)

lemma key_step_view:
  assumes "key_step s t" and "key_known s h"
  shows "key_known t h" and "key_gone s h \<Longrightarrow> key_gone t h"
    and "key_held t h \<Longrightarrow> key_held s h \<or> key_fillable s h"
    and "key_fillable t h \<Longrightarrow> key_fillable s h \<or> \<not> key_gone s h"
proof -
  have "key_known t h \<and> (key_gone s h \<longrightarrow> key_gone t h) \<and>
      (\<not> key_held s h \<longrightarrow> \<not> key_fillable s h \<longrightarrow> \<not> key_held t h) \<and>
      (\<not> key_fillable s h \<longrightarrow> key_gone s h \<longrightarrow> \<not> key_fillable t h)"
    using assms
  proof (induction rule: key_step.induct)
    case (Create h' s i name expires)
    then show ?case by (cases "h = h'") (auto simp: key_view_defs key_fillable_def)
  next
    case (Resolve s h' now)
    then show ?case
      by (auto simp: key_view_defs key_fillable_def dest: call_ops simp del: not_None_eq)
  next
    case (Continue s xs x ys t)
    have "key_fillable s h \<longleftrightarrow> key_can_fill (removalEpoch s) h x \<or> key_fillable (s\<lparr>key_ops := xs @ ys\<rparr>) h"
      using Continue.hyps(1) by (auto simp: key_fillable_def)
    with Continue.prems next_key_op_view(1) [OF Continue.hyps(2)] next_key_op_view(2-4) [OF Continue.hyps(2), of h]
    show ?case
      by (auto simp: key_held_def key_gone_def key_known_def)
  qed (auto simp: key_view_defs key_fillable_def)
  then show "key_known t h" and "key_gone s h \<Longrightarrow> key_gone t h"
    and "key_held t h \<Longrightarrow> key_held s h \<or> key_fillable s h"
    and "key_fillable t h \<Longrightarrow> key_fillable s h \<or> \<not> key_gone s h"
    by auto
qed

interpretation device_keys: guarded_cache key_step key_gone key_held key_fillable key_known
  by unfold_locales (fact key_step_view)+

section \<open>Reachable states\<close>

fun key_epoch :: "key_op \<Rightarrow> nat" where
  "key_epoch (KeyReading a e h) = e"
| "key_epoch (KeyGot a e h row) = e"
| "key_epoch _ = 0"

definition key_epochs_ok :: "key_store \<Rightarrow> bool" where
  "key_epochs_ok s \<longleftrightarrow> (\<forall>x \<in> set (key_ops s). key_epoch x \<le> removalEpoch s)"

lemma key_epochs_simps [simp]:
  "key_epochs_ok (s\<lparr>key_cache := c\<rparr>) = key_epochs_ok s" "key_epochs_ok (s\<lparr>key_table := tab\<rparr>) = key_epochs_ok s"
  "key_epochs_ok (reply h a s) = key_epochs_ok s"
  "key_epochs_ok (push_op x s) \<longleftrightarrow> key_epochs_ok s \<and> key_epoch x \<le> removalEpoch s"
  "key_epochs_ok (key_touched h r b s) = key_epochs_ok s" "key_epochs_ok (touch_key h now s) = key_epochs_ok s"
  "key_epochs_ok s \<Longrightarrow> key_epochs_ok (finish_keys rm s)"
  "key_epochs_ok s \<Longrightarrow> key_epochs_ok (s\<lparr>removalEpoch := Suc (removalEpoch s)\<rparr>)"
  by (auto simp: key_epochs_ok_def key_touched_def touch_key_def finish_keys_def reply_def)

lemma key_epochs_calls [simp]:
  "key_epochs_ok s \<Longrightarrow> key_epochs_ok (check_key h r now s)"
  "key_epochs_ok s \<Longrightarrow> key_epochs_ok (lookup a h s)"
  by (simp_all add: check_key_def lookup_def)

lemma key_epochs_resumed [simp]:
  "key_epochs_ok s \<Longrightarrow> key_epochs_ok (looked_up a e h row now s)"
  "key_epochs_ok s \<Longrightarrow> key_epochs_ok (resolve_key h now s)"
  by (simp_all add: looked_up_def resolve_key_def split: option.split)

lemma next_key_op_epochs:
  "next_key_op s x t \<Longrightarrow> key_epochs_ok s \<Longrightarrow> key_epoch x \<le> removalEpoch s \<Longrightarrow> key_epochs_ok t"
  by (erule next_key_opE) simp_all

lemma key_step_epochs: "key_step s t \<Longrightarrow> key_epochs_ok s \<Longrightarrow> key_epochs_ok t"
proof (induction rule: key_step.induct)
  case (Continue s xs x ys t)
  then have "key_epochs_ok (s\<lparr>key_ops := xs @ ys\<rparr>)" and "key_epoch x \<le> removalEpoch (s\<lparr>key_ops := xs @ ys\<rparr>)"
    by (auto simp: key_epochs_ok_def)
  with Continue.hyps(2) show ?case by (rule next_key_op_epochs)
next
  case (Create h s i name expires)
  then show ?case by (simp add: key_epochs_ok_def)
qed simp_all

lemma reachable_key_epochs: "reachable_keys s \<Longrightarrow> key_epochs_ok s"
  by (induction rule: reachable_keys.induct) (simp add: empty_keys_def key_epochs_ok_def, rule key_step_epochs)

section \<open>Properties\<close>

definition resolve_key_now :: "string \<Rightarrow> int \<Rightarrow> key_store \<Rightarrow> (int \<times> string) option" where
  "resolve_key_now h now s =
     (case (case key_cache s h of Some r \<Rightarrow> Some r | None \<Rightarrow> key_table s h) of
        None \<Rightarrow> None
      | Some r \<Rightarrow> if key_expired r now then None
                  else if needs_touch r now \<and> key_table s h = None then None
                  else Some (key_id r, key_name r))"

text \<open>
  a revoked device stays out. Once the row delete of a revocation (one device, all devices, or
  the expiry sweep) has removed a key's row and the code after it has run, with no pairing between
  its insert and its cache entry for that key, no interleaving of pending and later calls brings the
  key back into the table or the cache, and resolving it answers null.
\<close>

theorem device_revocation_is_final:
  assumes "reachable_keys s" and "key_ops s = xs @ KeyRemoved rm # ys" and "h \<in> key_minted s"
    and "key_table s h = None" and "\<forall>r. key_cache s h = Some r \<longrightarrow> covers rm r"
    and "\<forall>r. Minted h r \<notin> set (key_ops s)"
    and "key_step\<^sup>*\<^sup>* (finish_keys rm (s\<lparr>key_ops := xs @ ys\<rparr>)) t"
  shows "key_table t h = None \<and> key_cache t h = None \<and> resolve_key_now h now t = None"
proof -
  let ?t = "finish_keys rm (s\<lparr>key_ops := xs @ ys\<rparr>)"
  have "\<not> key_can_fill (removalEpoch ?t) h x" if "x \<in> set (key_ops s)" for x
  proof -
    from reachable_key_epochs [OF assms(1)] that have "key_epoch x \<le> removalEpoch s"
      by (simp add: key_epochs_ok_def)
    with that assms(6) show ?thesis by (auto dest!: key_can_fillD)
  qed
  then have "\<not> key_fillable ?t h" using assms(2) by (auto simp: key_fillable_def)
  moreover have "key_cache ?t h = None"
    using assms(5) by (simp add: prune_keys_def split: option.split)
  ultimately have "device_keys.dead ?t h"
    using assms(3,4) by (simp add: device_keys.dead_def key_view_defs)
  from device_keys.dead_not_held [OF assms(7) this] show ?thesis
    by (simp add: key_view_defs resolve_key_now_def)
qed

definition phone_row :: "string \<Rightarrow> device_key option" where
  "phone_row = [''h'' \<mapsto> \<lparr>key_id = 7, key_name = ''phone'', lastUsedAt = None, expiresAt = None\<rparr>]"

definition phone_deleted :: key_store where
  "phone_deleted = push_op (KeyRemoved (ById 7)) ((empty_keys phone_row)\<lparr>key_table := prune_keys (ById 7) phone_row\<rparr>)"

lemma phone_deleted_reachable: "reachable_keys phone_deleted"
proof -
  let ?s = "push_op (KeyRemoving (ById 7)) (empty_keys phone_row)"
  have "key_step (empty_keys phone_row) ?s" by (rule key_step.Remove)
  moreover have "key_step ?s phone_deleted"
  proof (rule key_step.Continue [where xs = "[]" and ys = "[]"])
    show "key_ops ?s = [] @ KeyRemoving (ById 7) # []" by (simp add: empty_keys_def)
    have "?s\<lparr>key_ops := [] @ []\<rparr> = empty_keys phone_row" by (simp add: push_op_def empty_keys_def)
    moreover have "next_key_op (empty_keys phone_row) (KeyRemoving (ById 7)) phone_deleted"
      using next_key_op.intros(8) [of "empty_keys phone_row" "ById 7"]
      by (simp add: phone_deleted_def empty_keys_def)
    ultimately show "next_key_op (?s\<lparr>key_ops := [] @ []\<rparr>) (KeyRemoving (ById 7)) phone_deleted" by (simp only:)
  qed
  ultimately show ?thesis by (meson reachable_keys.intros)
qed

theorem device_revocation_is_final_witness:
  "resolve_key_now ''h'' 10 (finish_keys (ById 7) (phone_deleted\<lparr>key_ops := []\<rparr>)) = None"
proof -
  have "key_ops phone_deleted = [] @ KeyRemoved (ById 7) # []" "''h'' \<in> key_minted phone_deleted"
    "key_table phone_deleted ''h'' = None" "key_cache phone_deleted ''h'' = None"
    by (simp_all add: phone_deleted_def empty_keys_def phone_row_def prune_keys_def)
  with device_revocation_is_final [OF phone_deleted_reachable, of "[]" "ById 7" "[]" "''h''"] show ?thesis
    by simp
qed

end
