(* ===== verification/LoginThrottle.thy ===== *)
theory LoginThrottle
  imports JsBase
begin

text \<open>
  The login brute-force throttle of \<open>src/web/login-throttle.ts\<close>: per-user lock and global cap.
  Times are milliseconds. The two module variables are the state; the timing equaliser, which has
  no result, is left out.
\<close>

section \<open>State and operations\<close>

record user_throttle =
  failures :: nat
  lockedUntil :: int

record throttle =
  perUser :: "string \<Rightarrow> user_throttle option"
  globalFailures :: "int list"

definition MAX_CONSECUTIVE_BEFORE_LOCK :: nat where "MAX_CONSECUTIVE_BEFORE_LOCK = 5"
definition BASE_LOCK_MS :: int where "BASE_LOCK_MS = 30 * 1000"
definition MAX_LOCK_MS :: int where "MAX_LOCK_MS = 15 * 60 * 1000"
definition GLOBAL_WINDOW_MS :: int where "GLOBAL_WINDOW_MS = 60 * 60 * 1000"
definition GLOBAL_MAX_FAILURES :: nat where "GLOBAL_MAX_FAILURES = 50"

definition no_failures :: throttle where
  "no_failures = \<lparr>perUser = (\<lambda>_. None), globalFailures = []\<rparr>"

definition pruneGlobal :: "int \<Rightarrow> throttle \<Rightarrow> throttle" where
  "pruneGlobal now s =
     (let cutoff = now - GLOBAL_WINDOW_MS
      in if globalFailures s \<noteq> [] \<and> hd (globalFailures s) < cutoff
         then s\<lparr>globalFailures := [t \<leftarrow> globalFailures s. cutoff \<le> t]\<rparr> else s)"

record throttle_state =
  locked :: bool
  retryAfterS :: int
  is_global :: bool

text \<open>\<open>Math.ceil((t) / 1000)\<close>.\<close>

definition ceil_s :: "int \<Rightarrow> int" where
  "ceil_s ms = - ((- ms) div 1000)"

definition checkThrottle :: "string \<Rightarrow> int \<Rightarrow> throttle \<Rightarrow> throttle_state \<times> throttle" where
  "checkThrottle u now s0 =
     (let s = pruneGlobal now s0
      in if length (globalFailures s) \<ge> GLOBAL_MAX_FAILURES
         then (\<lparr>locked = True,
                retryAfterS = max 1 (ceil_s (hd (globalFailures s) + GLOBAL_WINDOW_MS - now)),
                is_global = True\<rparr>, s)
         else (case perUser s u of
                 Some t \<Rightarrow>
                   if lockedUntil t > now
                   then (\<lparr>locked = True, retryAfterS = max 1 (ceil_s (lockedUntil t - now)), is_global = False\<rparr>, s)
                   else (\<lparr>locked = False, retryAfterS = 0, is_global = False\<rparr>, s)
               | None \<Rightarrow> (\<lparr>locked = False, retryAfterS = 0, is_global = False\<rparr>, s)))"

definition lock_ms :: "nat \<Rightarrow> int" where
  "lock_ms n = min (BASE_LOCK_MS * 2 ^ (n - MAX_CONSECUTIVE_BEFORE_LOCK)) MAX_LOCK_MS"

definition recordFailure :: "string \<Rightarrow> int \<Rightarrow> throttle \<Rightarrow> throttle" where
  "recordFailure u now s =
     (let old = (case perUser s u of Some t \<Rightarrow> t | None \<Rightarrow> \<lparr>failures = 0, lockedUntil = 0\<rparr>);
          n = Suc (failures old);
          t = \<lparr>failures = n,
               lockedUntil = (if n \<ge> MAX_CONSECUTIVE_BEFORE_LOCK then now + lock_ms n else lockedUntil old)\<rparr>
      in s\<lparr>globalFailures := globalFailures s @ [now], perUser := (perUser s)(u \<mapsto> t)\<rparr>)"

definition recordSuccess :: "string \<Rightarrow> throttle \<Rightarrow> throttle" where
  "recordSuccess u s = s\<lparr>perUser := (perUser s)(u := None)\<rparr>"

definition isGlobalLimited :: "int \<Rightarrow> throttle \<Rightarrow> bool \<times> throttle" where
  "isGlobalLimited now s0 =
     (let s = pruneGlobal now s0 in (length (globalFailures s) \<ge> GLOBAL_MAX_FAILURES, s))"

section \<open>Histories\<close>

text \<open>The calls made so far, newest first, and what they leave in the two variables.\<close>

datatype throttle_call =
    Failure string int
  | Success string int
  | Check string int
  | GlobalCheck int

fun at_time :: "throttle_call \<Rightarrow> int" where
  "at_time (Failure u t) = t"
| "at_time (Success u t) = t"
| "at_time (Check u t) = t"
| "at_time (GlobalCheck t) = t"

fun after_calls :: "throttle_call list \<Rightarrow> throttle" where
  "after_calls [] = no_failures"
| "after_calls (Failure u t # cs) = recordFailure u t (after_calls cs)"
| "after_calls (Success u t # cs) = recordSuccess u (after_calls cs)"
| "after_calls (Check u t # cs) = snd (checkThrottle u t (after_calls cs))"
| "after_calls (GlobalCheck t # cs) = snd (isGlobalLimited t (after_calls cs))"

text \<open>All failure times, and a user's failures since its last success, newest first.\<close>

fun failure_times :: "throttle_call list \<Rightarrow> int list" where
  "failure_times [] = []"
| "failure_times (Failure u t # cs) = t # failure_times cs"
| "failure_times (_ # cs) = failure_times cs"

fun streak :: "string \<Rightarrow> throttle_call list \<Rightarrow> int list" where
  "streak u [] = []"
| "streak u (Failure v t # cs) = (if u = v then t # streak u cs else streak u cs)"
| "streak u (Success v t # cs) = (if u = v then [] else streak u cs)"
| "streak u (_ # cs) = streak u cs"

definition in_order :: "throttle_call list \<Rightarrow> bool" where
  "in_order cs \<longleftrightarrow> sorted (rev (map at_time cs))"

lemma snd_checkThrottle [simp]: "snd (checkThrottle u now s) = pruneGlobal now s"
  by (simp add: checkThrottle_def Let_def split: option.split)

lemma snd_isGlobalLimited [simp]: "snd (isGlobalLimited now s) = pruneGlobal now s"
  by (simp add: isGlobalLimited_def Let_def)

lemma pruneGlobal_perUser [simp]: "perUser (pruneGlobal now s) = perUser s"
  by (simp add: pruneGlobal_def Let_def)

lemma in_order_Cons [simp]:
  "in_order (c # cs) \<longleftrightarrow> in_order cs \<and> (\<forall>d \<in> set cs. at_time d \<le> at_time c)"
  by (auto simp: in_order_def sorted_append)

lemma failure_times_bound: "t \<in> set (failure_times cs) \<Longrightarrow> \<exists>c \<in> set cs. at_time c = t"
  by (induction cs rule: failure_times.induct) force+

lemma failure_times_sorted: "in_order cs \<Longrightarrow> sorted (rev (failure_times cs))"
  by (induction cs rule: failure_times.induct) (auto simp: sorted_append dest!: failure_times_bound)

text \<open>The user's record is a function of its streak.\<close>

lemma perUser_streak:
  "perUser (after_calls cs) u =
     (if streak u cs = [] then None
      else Some \<lparr>failures = length (streak u cs),
                 lockedUntil = (if length (streak u cs) \<ge> MAX_CONSECUTIVE_BEFORE_LOCK
                                then hd (streak u cs) + lock_ms (length (streak u cs)) else 0)\<rparr>)"
  by (induction u cs rule: streak.induct)
     (auto simp: no_failures_def recordFailure_def recordSuccess_def Let_def)

text \<open>The global list is the recent part of the history, cut at some moment not in the future.\<close>

lemma sorted_hd_filter:
  "sorted xs \<Longrightarrow> \<not> (xs \<noteq> [] \<and> hd xs < c) \<Longrightarrow> [t \<leftarrow> xs. (c::int) \<le> t] = xs"
  by (cases xs) (auto simp: filter_id_conv)

definition cut :: "int \<Rightarrow> throttle_call list \<Rightarrow> int list" where
  "cut c cs = [t \<leftarrow> rev (failure_times cs). c \<le> t]"

lemma prune_cut:
  assumes "globalFailures s = cut c cs" and "in_order cs" and "c \<le> now - GLOBAL_WINDOW_MS"
  shows "globalFailures (pruneGlobal now s) = cut (now - GLOBAL_WINDOW_MS) cs"
proof -
  let ?d = "now - GLOBAL_WINDOW_MS"
  have "sorted (cut c cs)" using assms(2) by (simp add: cut_def sorted_wrt_filter failure_times_sorted)
  then have "\<not> (cut c cs \<noteq> [] \<and> hd (cut c cs) < ?d) \<Longrightarrow> [t \<leftarrow> cut c cs. ?d \<le> t] = cut c cs"
    by (rule sorted_hd_filter)
  moreover have "[t \<leftarrow> cut c cs. ?d \<le> t] = cut ?d cs"
    using assms(3) by (auto simp: cut_def intro!: filter_cong)
  ultimately show ?thesis using assms(1) by (auto simp: pruneGlobal_def Let_def)
qed

lemma cut_Failure: "c \<le> t \<Longrightarrow> cut c (Failure u t # cs) = cut c cs @ [t]"
  by (simp add: cut_def)

lemma globalFailures_cut:
  assumes "in_order cs" and "\<forall>c \<in> set cs. at_time c \<le> now"
  shows "\<exists>c \<le> now - GLOBAL_WINDOW_MS. globalFailures (after_calls cs) = cut c cs"
  using assms
proof (induction cs arbitrary: now)
  case Nil
  then show ?case by (auto simp: no_failures_def cut_def)
next
  case (Cons x cs)
  then obtain c where c: "c \<le> at_time x - GLOBAL_WINDOW_MS" "globalFailures (after_calls cs) = cut c cs"
    by (auto dest: Cons.IH)
  have le: "at_time x \<le> now" and io: "in_order cs" using Cons.prems by auto
  note prune = prune_cut [OF c(2) io c(1)]
  show ?case
  proof (cases x)
    case (Failure u t)
    have "c \<le> t" using c(1) Failure by (simp add: GLOBAL_WINDOW_MS_def)
    with c Failure le show ?thesis
      by (intro exI [of _ c]) (simp add: recordFailure_def Let_def cut_Failure)
  next
    case (Success u t)
    with c le show ?thesis by (intro exI [of _ c]) (simp add: recordSuccess_def cut_def)
  next
    case (Check u t)
    with prune le show ?thesis by (intro exI [of _ "t - GLOBAL_WINDOW_MS"]) (simp add: cut_def)
  next
    case (GlobalCheck t)
    with prune le show ?thesis by (intro exI [of _ "t - GLOBAL_WINDOW_MS"]) (simp add: cut_def)
  qed
qed

section \<open>Properties\<close>

text \<open>
  exactly the promised locks. After any sequence of calls with non-decreasing times, a login
  attempt of \<open>u\<close> is refused exactly when at least 50 failures of the last hour are on record, or
  the user has failed at least five times in a row and the lock of the last failure, 30 seconds
  doubled per further failure and at most 15 minutes, is still running.
\<close>

theorem throttle_exact:
  assumes "in_order cs" and "\<forall>c \<in> set cs. at_time c \<le> now" and "0 \<le> now"
  shows "locked (fst (checkThrottle u now (after_calls cs))) \<longleftrightarrow>
    length [t \<leftarrow> failure_times cs. now - GLOBAL_WINDOW_MS \<le> t] \<ge> GLOBAL_MAX_FAILURES \<or>
    (let n = length (streak u cs)
     in n \<ge> MAX_CONSECUTIVE_BEFORE_LOCK \<and>
        now < hd (streak u cs) + min (BASE_LOCK_MS * 2 ^ (n - 5)) MAX_LOCK_MS)"
proof -
  obtain c where "c \<le> now - GLOBAL_WINDOW_MS" "globalFailures (after_calls cs) = cut c cs"
    using globalFailures_cut [OF assms(1,2)] by blast
  with assms(1) have "globalFailures (pruneGlobal now (after_calls cs)) = cut (now - GLOBAL_WINDOW_MS) cs"
    by (intro prune_cut)
  then have g: "length (globalFailures (pruneGlobal now (after_calls cs))) =
      length [t \<leftarrow> failure_times cs. now - GLOBAL_WINDOW_MS \<le> t]"
    by (simp add: cut_def flip: rev_filter)
  with assms(3) show ?thesis
    by (auto simp: checkThrottle_def Let_def perUser_streak lock_ms_def MAX_CONSECUTIVE_BEFORE_LOCK_def
        split: if_splits)
qed

theorem throttle_exact_witness:
  "let cs = map (Failure ''ann'') [6000, 5000, 4000, 3000, 2000, 1000]
   in locked (fst (checkThrottle ''ann'' 65999 (after_calls cs))) \<and>
      \<not> locked (fst (checkThrottle ''ann'' 66000 (after_calls cs)))"
  using throttle_exact [of "map (Failure ''ann'') [6000, 5000, 4000, 3000, 2000, 1000]" 65999 "''ann''"]
    throttle_exact [of "map (Failure ''ann'') [6000, 5000, 4000, 3000, 2000, 1000]" 66000 "''ann''"]
  by (simp add: in_order_def Let_def MAX_CONSECUTIVE_BEFORE_LOCK_def BASE_LOCK_MS_def MAX_LOCK_MS_def
      GLOBAL_MAX_FAILURES_def GLOBAL_WINDOW_MS_def)

end
