(* ===== verification/JsonConfig.thy ===== *)
theory JsonConfig
  imports JsBase
begin

text \<open>
  The contract of a per-agent settings store: settings are written as JSON and read back through a
  normaliser that accepts anything. The laws are that every normalised value is well formed, that
  writing a well-formed value and reading it back gives the same value, and that an empty document
  gives the defaults.
\<close>

locale json_config =
  fixes normalize :: "jsval \<Rightarrow> 'c"
    and embed :: "'c \<Rightarrow> jsval"
    and ok :: "'c \<Rightarrow> bool"
    and dflt :: 'c
  assumes normalized_ok: "ok (normalize v)"
    and round_trip: "ok c \<Longrightarrow> normalize (embed c) = c"
    and default_value: "normalize (JObj []) = dflt"
begin

lemma idempotent: "normalize (embed (normalize v)) = normalize v"
  by (rule round_trip [OF normalized_ok])

lemma default_ok: "ok dflt"
  using normalized_ok [of "JObj []"] by (simp add: default_value)

lemma ok_iff_stored: "ok c \<longleftrightarrow> (\<exists>v. normalize v = c)"
  using round_trip normalized_ok by blast

text \<open>A chain of writes keeps the last written value, whatever was stored before.\<close>

lemma last_write_wins: "ok c \<Longrightarrow> normalize (embed (if b then c else normalize v)) = (if b then c else normalize v)"
  using round_trip idempotent by simp

end

lemma js_prop_simps [simp]:
  "js_prop (JObj ((k, v) # ps)) k' = (if k' = k then v else js_prop (JObj ps) k')"
  "js_prop (JObj []) k' = JUndef"
  by auto

declare js_prop.simps [simp del]

lemma js_prop_not_object [simp]:
  "js_prop JUndef k = JUndef" "js_prop JNull k = JUndef" "js_prop (JBool b) k = JUndef"
  "js_prop (JNum x) k = JUndef" "js_prop (JStr s) k = JUndef" "js_prop (JArr xs) k = JUndef"
  by (simp_all add: js_prop.simps)

lemma is_true_undef [simp]: "\<not> is_true JUndef" "not_false JUndef"
  by (simp_all add: is_true_def not_false_def)

end
