(* ===== verification/AutoRestart.thy ===== *)
theory AutoRestart
  imports JsonConfig
begin

text \<open>
  Scheduled restarts: the settings and the due decision of \<open>src/auto-restart.ts\<close> and the sweep of
  one agent in \<open>src/web/auto-restart-runner.ts\<close>. Times are milliseconds. What the runner asks the
  host for one sweep (clock, local midnight, run state, pane, whether the restart call succeeds) is
  the record \<open>restart_tick\<close>.
\<close>

section \<open>Settings\<close>

datatype restart_mode = Fresh | Continue

record auto_restart_config =
  ar_enabled :: bool
  ar_mode :: restart_mode
  dailyTime :: "string option"
  intervalHours :: "rat option"
  ar_handoff :: bool

definition DEFAULT_AUTO_RESTART :: auto_restart_config where
  "DEFAULT_AUTO_RESTART = \<lparr>ar_enabled = False, ar_mode = Continue, dailyTime = None,
     intervalHours = None, ar_handoff = False\<rparr>"

text \<open>\<open>/^(\d{1,2}):(\d{2})$/\<close> on the trimmed string, then the range checks.\<close>

definition hhmm_match :: "string \<Rightarrow> (string \<times> string) option" where
  "hhmm_match s =
     (case index_of (CHR '':'') s of
        None \<Rightarrow> None
      | Some i \<Rightarrow>
          (let h = take i s; m = drop (Suc i) s
           in if list_all is_digit h \<and> list_all is_digit m \<and> (length h = 1 \<or> length h = 2) \<and> length m = 2
              then Some (h, m) else None))"

definition parseHHMM :: "jsval \<Rightarrow> nat option" where
  "parseHHMM v =
     (case v of
        JStr s \<Rightarrow>
          (case hhmm_match (js_trim s) of
             None \<Rightarrow> None
           | Some (hs, ms) \<Rightarrow>
               (let h = digits_val hs; m = digits_val ms
                in if h > 23 \<or> m > 59 then None else Some (h * 60 + m)))
      | _ \<Rightarrow> None)"

definition daily_time_field :: "jsval \<Rightarrow> string option" where
  "daily_time_field v =
     (if parseHHMM v \<noteq> None then (case v of JStr s \<Rightarrow> Some (js_trim s) | _ \<Rightarrow> None) else None)"

definition positive_num :: "jsval \<Rightarrow> rat option" where
  "positive_num v = (case finite_num v of Some x \<Rightarrow> (if x > 0 then Some x else None) | None \<Rightarrow> None)"

definition normalizeAutoRestartConfig :: "jsval \<Rightarrow> auto_restart_config" where
  "normalizeAutoRestartConfig raw =
     (let daily = daily_time_field (js_prop raw ''dailyTime'')
      in \<lparr>ar_enabled = is_true (js_prop raw ''enabled''),
          ar_mode = (if js_prop raw ''mode'' = JStr ''fresh'' then Fresh else Continue),
          dailyTime = daily,
          intervalHours = (if daily \<noteq> None then None else positive_num (js_prop raw ''intervalHours'')),
          ar_handoff = is_true (js_prop raw ''handoff'')\<rparr>)"

definition auto_restart_json :: "auto_restart_config \<Rightarrow> jsval" where
  "auto_restart_json c = JObj
     [(''enabled'', JBool (ar_enabled c)),
      (''mode'', JStr (case ar_mode c of Fresh \<Rightarrow> ''fresh'' | Continue \<Rightarrow> ''continue'')),
      (''dailyTime'', str_or_null (dailyTime c)),
      (''intervalHours'', num_or_null (intervalHours c)),
      (''handoff'', JBool (ar_handoff c))]"

definition auto_restart_ok :: "auto_restart_config \<Rightarrow> bool" where
  "auto_restart_ok c \<longleftrightarrow>
     (\<forall>s. dailyTime c = Some s \<longrightarrow> js_trim s = s \<and> parseHHMM (JStr s) \<noteq> None \<and> intervalHours c = None) \<and>
     (\<forall>x. intervalHours c = Some x \<longrightarrow> x > 0)"

section \<open>Due decision\<close>

definition restartDue :: "rat option \<Rightarrow> rat \<Rightarrow> jsnum \<Rightarrow> bool" where
  "restartDue prev now due =
     (case due of
        Fin d \<Rightarrow> if now < d then False
                 else (case prev of Some l \<Rightarrow> \<not> l \<ge> d | None \<Rightarrow> True)
      | _ \<Rightarrow> False)"

definition dailyDueAtMs :: "rat \<Rightarrow> nat \<Rightarrow> rat" where
  "dailyDueAtMs midnight mins = midnight + of_nat mins * 60000"

section \<open>The runner\<close>

datatype run_state = Running | Stopped | Unreachable

record restart_tick =
  tick_now :: rat
  tick_midnight :: rat
  tick_main :: bool
  tick_state :: run_state
  tick_idle :: bool
  tick_restart_ok :: bool

definition computeDueAt :: "auto_restart_config \<Rightarrow> rat option \<Rightarrow> rat \<Rightarrow> rat \<Rightarrow> rat option" where
  "computeDueAt cfg prev now midnight =
     (case dailyTime cfg of
        Some (c # cs) \<Rightarrow> map_option (dailyDueAtMs midnight) (parseHHMM (JStr (c # cs)))
      | _ \<Rightarrow> (case intervalHours cfg of
                Some h \<Rightarrow> if h = 0 then None
                          else Some ((case prev of Some l \<Rightarrow> l | None \<Rightarrow> now) + h * 3600000)
              | None \<Rightarrow> None))"

datatype restart_action = NoRestart | FailedRestart | RestartFresh | RestartContinue

text \<open>\<open>checkAgent\<close>: the new \<open>lastRestart\<close> entry and what was done.\<close>

definition checkAgent ::
  "auto_restart_config \<Rightarrow> restart_tick \<Rightarrow> rat option \<Rightarrow> rat option \<times> restart_action" where
  "checkAgent cfg t prev =
     (if \<not> ar_enabled cfg then (None, NoRestart)
      else if \<not> tick_main t \<and> tick_state t \<noteq> Running then (prev, NoRestart)
      else (case prev of
              None \<Rightarrow> (Some (tick_now t), NoRestart)
            | Some l \<Rightarrow>
                (case computeDueAt cfg prev (tick_now t) (tick_midnight t) of
                   None \<Rightarrow> (prev, NoRestart)
                 | Some due \<Rightarrow>
                     if \<not> restartDue prev (tick_now t) (Fin due) then (prev, NoRestart)
                     else if \<not> tick_idle t then (prev, NoRestart)
                     else if \<not> tick_restart_ok t then (prev, FailedRestart)
                     else (Some (tick_now t),
                           if tick_main t \<or> ar_mode cfg = Fresh then RestartFresh else RestartContinue))))"

text \<open>A run of sweeps, each with the settings stored at that time; the result lists the ticks that restarted.\<close>

fun run_checks ::
  "rat option \<Rightarrow> (auto_restart_config \<times> restart_tick) list \<Rightarrow> (auto_restart_config \<times> restart_tick) list" where
  "run_checks prev [] = []"
| "run_checks prev ((cfg, t) # ts) =
     (let (upd, a) = checkAgent cfg t prev
      in (if a = RestartFresh \<or> a = RestartContinue then [(cfg, t)] else []) @ run_checks upd ts)"

section \<open>Lemmas\<close>

lemma parseHHMM_bound: "parseHHMM v = Some n \<Longrightarrow> n < 1440"
  by (auto simp: parseHHMM_def Let_def split: jsval.splits option.splits if_splits)

lemma daily_time_field_Some:
  "daily_time_field v = Some s \<Longrightarrow> js_trim s = s \<and> parseHHMM (JStr s) \<noteq> None"
  by (auto simp: daily_time_field_def parseHHMM_def split: if_splits jsval.splits option.splits)

lemma daily_time_field_ok [simp]:
  "js_trim s = s \<Longrightarrow> parseHHMM (JStr s) = Some n \<Longrightarrow> daily_time_field (JStr s) = Some s"
  by (simp add: daily_time_field_def)

lemma daily_time_field_none [simp]: "daily_time_field JNull = None" "daily_time_field JUndef = None"
  by (simp_all add: daily_time_field_def parseHHMM_def)

lemma positive_num_simps [simp]:
  "positive_num (JNum (Fin x)) = (if x > 0 then Some x else None)"
  "positive_num JNull = None" "positive_num JUndef = None"
  by (simp_all add: positive_num_def)

lemma positive_num_pos: "positive_num v = Some x \<Longrightarrow> x > 0"
  by (auto simp: positive_num_def split: option.splits if_splits)

interpretation auto_restart_store: json_config normalizeAutoRestartConfig auto_restart_json auto_restart_ok
  DEFAULT_AUTO_RESTART
proof
  show "auto_restart_ok (normalizeAutoRestartConfig v)" for v
    by (auto simp: auto_restart_ok_def normalizeAutoRestartConfig_def Let_def
        dest: positive_num_pos daily_time_field_Some split: if_splits)
  show "normalizeAutoRestartConfig (auto_restart_json c) = c" if "auto_restart_ok c" for c
    using that
    by (cases c; cases "ar_mode c"; cases "dailyTime c"; cases "intervalHours c")
       (auto simp: auto_restart_ok_def normalizeAutoRestartConfig_def auto_restart_json_def Let_def)
  show "normalizeAutoRestartConfig (JObj []) = DEFAULT_AUTO_RESTART"
    by (simp add: normalizeAutoRestartConfig_def DEFAULT_AUTO_RESTART_def)
qed

lemma checkAgent_restart:
  assumes "checkAgent cfg t prev = (upd, a)" and "a = RestartFresh \<or> a = RestartContinue"
  obtains l due where "prev = Some l" and "upd = Some (tick_now t)" and "ar_enabled cfg"
    and "tick_main t \<or> tick_state t = Running" and "tick_idle t"
    and "computeDueAt cfg prev (tick_now t) (tick_midnight t) = Some due" and "l < due" and "due \<le> tick_now t"
    and "a = (if tick_main t \<or> ar_mode cfg = Fresh then RestartFresh else RestartContinue)"
  using assms
  by (auto simp: checkAgent_def restartDue_def split: if_splits option.splits)

lemma checkAgent_last:
  "checkAgent cfg t prev = (upd, a) \<Longrightarrow> a \<noteq> RestartFresh \<Longrightarrow> a \<noteq> RestartContinue \<Longrightarrow>
     upd = prev \<or> upd = None \<or> (prev = None \<and> upd = Some (tick_now t))"
  by (auto simp: checkAgent_def split: if_splits option.splits)

section \<open>Properties\<close>

text \<open>
  settings survive the store. Whatever JSON is in the store, the normalised settings are the
  same after being written and read back, at most one of the two schedules is set, a daily time
  denotes a minute of the day and an interval is positive.
\<close>

theorem auto_restart_settings_stable:
  "let c = normalizeAutoRestartConfig raw in
     normalizeAutoRestartConfig (auto_restart_json c) = c \<and>
     (dailyTime c = None \<or> intervalHours c = None) \<and>
     (case dailyTime c of Some s \<Rightarrow> (\<exists>n < 1440. parseHHMM (JStr s) = Some n) | None \<Rightarrow> True) \<and>
     (case intervalHours c of Some x \<Rightarrow> x > 0 | None \<Rightarrow> True)"
  using auto_restart_store.idempotent [of raw] auto_restart_store.normalized_ok [of raw] parseHHMM_bound
  by (fastforce simp: Let_def auto_restart_ok_def split: option.splits)

text \<open>Each entry fired on an eligible agent at or after a slot strictly after its predecessor.\<close>

fun fired_in_order :: "rat option \<Rightarrow> (auto_restart_config \<times> restart_tick) list \<Rightarrow> bool" where
  "fired_in_order prev [] \<longleftrightarrow> True"
| "fired_in_order prev ((cfg, t) # fired) \<longleftrightarrow>
     ar_enabled cfg \<and> (tick_main t \<or> tick_state t = Running) \<and> tick_idle t \<and>
     (\<exists>l due. computeDueAt cfg (Some l) (tick_now t) (tick_midnight t) = Some due \<and>
        (\<forall>p. prev = Some p \<longrightarrow> p \<le> l) \<and> l < due \<and> due \<le> tick_now t) \<and>
     fired_in_order (Some (tick_now t)) fired"

lemma run_checks_in_order:
  assumes "sorted (map (tick_now \<circ> snd) ts)"
    and "\<And>p. b = Some p \<Longrightarrow> (\<forall>x \<in> set ts. p \<le> tick_now (snd x)) \<and> (\<forall>q. prev = Some q \<longrightarrow> p \<le> q)"
  shows "fired_in_order b (run_checks prev ts)"
  using assms
proof (induction ts arbitrary: b prev)
  case Nil
  then show ?case by simp
next
  case (Cons x ts)
  obtain cfg t where x: "x = (cfg, t)" by (cases x)
  obtain upd a where c: "checkAgent cfg t prev = (upd, a)" by (cases "checkAgent cfg t prev")
  show ?case
  proof (cases "a = RestartFresh \<or> a = RestartContinue")
    case True
    from checkAgent_restart [OF c True] obtain l due where
      f: "prev = Some l" "upd = Some (tick_now t)" "ar_enabled cfg" "tick_main t \<or> tick_state t = Running"
        "tick_idle t" "computeDueAt cfg prev (tick_now t) (tick_midnight t) = Some due" "l < due" "due \<le> tick_now t"
      by blast
    have "fired_in_order (Some (tick_now t)) (run_checks upd ts)"
      using Cons.prems(1) x f(2) by (intro Cons.IH) auto
    with f c True x Cons.prems(2) show ?thesis by auto
  next
    case False
    then have u: "upd = prev \<or> upd = None \<or> prev = None \<and> upd = Some (tick_now t)"
      using checkAgent_last [OF c] by blast
    have "fired_in_order b (run_checks upd ts)"
    proof (rule Cons.IH)
      show "sorted (map (tick_now \<circ> snd) ts)" using Cons.prems(1) by (simp add: comp_def)
      show "(\<forall>x \<in> set ts. p \<le> tick_now (snd x)) \<and> (\<forall>q. upd = Some q \<longrightarrow> p \<le> q)" if "b = Some p" for p
        using Cons.prems(2) [OF that] u x by auto
    qed
    with c False x show ?thesis by simp
  qed
qed

text \<open>
  a scheduled point fires once. In any run of sweeps of one agent, whatever the settings were at
  each sweep, every restart happens on an enabled agent that was running with an idle pane, at or
  after its scheduled point, and that point lies strictly after the previous restart (or the first
  sight of the agent): no slot fires twice and no slot from before the start fires.
\<close>

theorem restart_slots_fire_once:
  assumes "sorted (map (tick_now \<circ> snd) ts)" and "\<forall>x \<in> set ts. \<forall>p. prev = Some p \<longrightarrow> p \<le> tick_now (snd x)"
  shows "fired_in_order prev (run_checks prev ts)"
  using assms by (intro run_checks_in_order) auto

definition daily_cfg :: auto_restart_config where
  "daily_cfg = DEFAULT_AUTO_RESTART\<lparr>ar_enabled := True, dailyTime := Some ''03:00''\<rparr>"

definition sample_tick :: "rat \<Rightarrow> restart_tick" where
  "sample_tick now = \<lparr>tick_now = now, tick_midnight = 0, tick_main = False, tick_state = Running,
     tick_idle = True, tick_restart_ok = True\<rparr>"

theorem restart_slots_fire_once_witness:
  "let fired = run_checks None (map (\<lambda>n. (daily_cfg, sample_tick n)) [10799000, 10800000, 10860000])
   in length fired = 1 \<and> fired_in_order None fired"
proof -
  let ?ts = "map (\<lambda>n. (daily_cfg, sample_tick n)) [10799000, 10800000, 10860000]"
  have "length (run_checks None ?ts) = 1" by code_simp
  moreover have "fired_in_order None (run_checks None ?ts)"
    by (rule restart_slots_fire_once) (simp_all add: sample_tick_def)
  ultimately show ?thesis by (simp only: Let_def)
qed

end
