(* ===== verification/ContextGuard.thy ===== *)
theory ContextGuard
  imports AutoRestart Regex
begin

text \<open>
  The context guard of \<open>src/context-guard.ts\<close>: settings, the context-window estimate and the state
  machine that hands off and restarts an agent before (or after) its session saturates. One
  \<open>decideGuard\<close> call is one sweep of one agent; the caller carries out the action and keeps
  \<open>nextState\<close>. Times are milliseconds, sizes are tokens.
\<close>

section \<open>Settings\<close>

record context_guard_config =
  cg_enabled :: bool
  saturationRestart :: bool
  actPct :: rat
  hardPct :: rat
  limitTokens :: "rat option"
  cooldownMinutes :: rat
  handoffTimeoutMinutes :: rat
  idleFlushEnabled :: bool
  idleFlushTokens :: rat
  idleMinutes :: rat
  dailyHandoffEnabled :: bool
  dailyHandoffTime :: "string option"

definition DEFAULT_CONTEXT_GUARD :: context_guard_config where
  "DEFAULT_CONTEXT_GUARD = \<lparr>cg_enabled = False, saturationRestart = True, actPct = 9/10, hardPct = 97/100,
     limitTokens = None, cooldownMinutes = 15, handoffTimeoutMinutes = 20, idleFlushEnabled = False,
     idleFlushTokens = 400000, idleMinutes = 20, dailyHandoffEnabled = False, dailyHandoffTime = None\<rparr>"

definition pct_field :: "jsval \<Rightarrow> rat \<Rightarrow> rat" where
  "pct_field v d = (case finite_num v of Some x \<Rightarrow> (if 0 < x \<and> x < 1 then x else d) | None \<Rightarrow> d)"

definition mins_field :: "jsval \<Rightarrow> rat \<Rightarrow> rat" where
  "mins_field v d = (case finite_num v of Some x \<Rightarrow> (if 0 < x then x else d) | None \<Rightarrow> d)"

definition tokens_field :: "jsval \<Rightarrow> rat option" where
  "tokens_field v = (case finite_num v of Some x \<Rightarrow> (if x \<ge> 10000 then Some (js_floor x) else None) | None \<Rightarrow> None)"

definition normalizeContextGuardConfig :: "jsval \<Rightarrow> context_guard_config" where
  "normalizeContextGuardConfig raw =
     (let act = pct_field (js_prop raw ''actPct'') (actPct DEFAULT_CONTEXT_GUARD);
          hard0 = pct_field (js_prop raw ''hardPct'') (hardPct DEFAULT_CONTEXT_GUARD);
          hard = (if hard0 < act then act else hard0)
      in \<lparr>cg_enabled = is_true (js_prop raw ''enabled''),
          saturationRestart = not_false (js_prop raw ''saturationRestart''),
          actPct = act, hardPct = hard,
          limitTokens = tokens_field (js_prop raw ''limitTokens''),
          cooldownMinutes = mins_field (js_prop raw ''cooldownMinutes'') (cooldownMinutes DEFAULT_CONTEXT_GUARD),
          handoffTimeoutMinutes =
            mins_field (js_prop raw ''handoffTimeoutMinutes'') (handoffTimeoutMinutes DEFAULT_CONTEXT_GUARD),
          idleFlushEnabled = is_true (js_prop raw ''idleFlushEnabled''),
          idleFlushTokens = (case tokens_field (js_prop raw ''idleFlushTokens'') of
                               Some x \<Rightarrow> x | None \<Rightarrow> idleFlushTokens DEFAULT_CONTEXT_GUARD),
          idleMinutes = mins_field (js_prop raw ''idleMinutes'') (idleMinutes DEFAULT_CONTEXT_GUARD),
          dailyHandoffEnabled = is_true (js_prop raw ''dailyHandoffEnabled''),
          dailyHandoffTime = daily_time_field (js_prop raw ''dailyHandoffTime'')\<rparr>)"

definition context_guard_json :: "context_guard_config \<Rightarrow> jsval" where
  "context_guard_json c = JObj
     [(''enabled'', JBool (cg_enabled c)), (''saturationRestart'', JBool (saturationRestart c)),
      (''actPct'', JNum (Fin (actPct c))), (''hardPct'', JNum (Fin (hardPct c))),
      (''limitTokens'', num_or_null (limitTokens c)),
      (''cooldownMinutes'', JNum (Fin (cooldownMinutes c))),
      (''handoffTimeoutMinutes'', JNum (Fin (handoffTimeoutMinutes c))),
      (''idleFlushEnabled'', JBool (idleFlushEnabled c)), (''idleFlushTokens'', JNum (Fin (idleFlushTokens c))),
      (''idleMinutes'', JNum (Fin (idleMinutes c))), (''dailyHandoffEnabled'', JBool (dailyHandoffEnabled c)),
      (''dailyHandoffTime'', str_or_null (dailyHandoffTime c))]"

definition token_count_ok :: "rat \<Rightarrow> bool" where
  "token_count_ok x \<longleftrightarrow> 10000 \<le> x \<and> js_floor x = x"

definition context_guard_ok :: "context_guard_config \<Rightarrow> bool" where
  "context_guard_ok c \<longleftrightarrow>
     0 < actPct c \<and> actPct c \<le> hardPct c \<and> hardPct c < 1 \<and>
     (\<forall>x. limitTokens c = Some x \<longrightarrow> token_count_ok x) \<and> token_count_ok (idleFlushTokens c) \<and>
     0 < cooldownMinutes c \<and> 0 < handoffTimeoutMinutes c \<and> 0 < idleMinutes c \<and>
     (\<forall>s. dailyHandoffTime c = Some s \<longrightarrow> js_trim s = s \<and> parseHHMM (JStr s) \<noteq> None)"

lemma pct_field_bounds: "0 < d \<Longrightarrow> d < 1 \<Longrightarrow> 0 < pct_field v d \<and> pct_field v d < 1"
  by (auto simp: pct_field_def split: option.splits)

lemma mins_field_pos: "0 < d \<Longrightarrow> 0 < mins_field v d"
  by (auto simp: mins_field_def split: option.splits)

lemma tokens_field_ok: "tokens_field v = Some x \<Longrightarrow> token_count_ok x"
  by (auto simp: tokens_field_def token_count_ok_def intro: js_floor_numeral_le split: option.splits if_splits)

lemma field_simps_stored [simp]:
  "0 < x \<Longrightarrow> x < 1 \<Longrightarrow> pct_field (JNum (Fin x)) d = x" "0 < x \<Longrightarrow> mins_field (JNum (Fin x)) d = x"
  "token_count_ok x \<Longrightarrow> tokens_field (JNum (Fin x)) = Some x"
  "pct_field JUndef d = d" "mins_field JUndef d = d" "tokens_field JUndef = None" "tokens_field JNull = None"
  by (auto simp: pct_field_def mins_field_def tokens_field_def token_count_ok_def)

interpretation context_guard_store: json_config normalizeContextGuardConfig context_guard_json context_guard_ok
  DEFAULT_CONTEXT_GUARD
proof
  show "context_guard_ok (normalizeContextGuardConfig v)" for v
    using pct_field_bounds [of "9/10" "js_prop v ''actPct''"] pct_field_bounds [of "97/100" "js_prop v ''hardPct''"]
    by (auto simp: context_guard_ok_def normalizeContextGuardConfig_def DEFAULT_CONTEXT_GUARD_def Let_def
        token_count_ok_def [of 400000] mins_field_pos
        dest: tokens_field_ok daily_time_field_Some split: option.splits)
  show "normalizeContextGuardConfig (context_guard_json c) = c" if "context_guard_ok c" for c
    using that
    by (cases c; cases "limitTokens c"; cases "dailyHandoffTime c")
       (auto simp: context_guard_ok_def normalizeContextGuardConfig_def context_guard_json_def Let_def)
  show "normalizeContextGuardConfig (JObj []) = DEFAULT_CONTEXT_GUARD"
    by (simp add: normalizeContextGuardConfig_def DEFAULT_CONTEXT_GUARD_def)
qed

section \<open>The context window\<close>

definition CONTEXT_LIMIT_TIERS :: "rat list" where
  "CONTEXT_LIMIT_TIERS = [200000, 500000, 1000000]"

text \<open>The character class \<open>[a-b]\<close> of two digits.\<close>

definition r_range :: "char \<Rightarrow> char \<Rightarrow> rx" where
  "r_range a b = RChar (\<lambda>c. code a \<le> code c \<and> code c \<le> code b)"

definition one_million_family :: "string \<Rightarrow> bool" where
  "one_million_family m \<longleftrightarrow>
     rx_test (RSeq (lit ''fable-'') r_digit) m \<or> rx_test (RSeq (lit ''mythos-'') r_digit) m \<or>
     rx_test (RSeq (lit ''opus-4-'') (r_range (CHR ''6'') (CHR ''9''))) m \<or>
     rx_test_word (RSeq (lit ''opus-'') (r_range (CHR ''5'') (CHR ''9''))) m \<or>
     rx_test_word (RSeq (lit ''sonnet-5-'') (r_range (CHR ''5'') (CHR ''9''))) m"

definition contextLimitForModel :: "string option \<Rightarrow> rat" where
  "contextLimitForModel model =
     (case model of
        None \<Rightarrow> 200000
      | Some s \<Rightarrow>
          (let m = js_lower s
           in if str_includes m ''[1m]'' then 1000000
              else if one_million_family m then 1000000
              else 200000))"

definition CALIBRATION_OVERSHOOT_TOLERANCE :: rat where
  "CALIBRATION_OVERSHOOT_TOLERANCE = 125/100"

definition explains :: "rat \<Rightarrow> rat \<Rightarrow> bool" where
  "explains observed limit \<longleftrightarrow> observed \<le> limit * CALIBRATION_OVERSHOOT_TOLERANCE"

fun step_up :: "rat \<Rightarrow> rat list \<Rightarrow> rat \<Rightarrow> rat" where
  "step_up observed [] limit = limit"
| "step_up observed (tier # tiers) limit =
     (if explains observed limit then limit
      else step_up observed tiers (if tier > limit then tier else limit))"

definition calibrateLimit :: "rat \<Rightarrow> rat \<Rightarrow> rat" where
  "calibrateLimit observed baseLimit = step_up observed CONTEXT_LIMIT_TIERS baseLimit"

section \<open>States and inputs\<close>

datatype guard_phase = GIdle | AwaitHandoff | AwaitReady | Cooldown

datatype staleness = NotStale | StaleUnknown | StaleMin rat

record guard_state =
  g_phase :: guard_phase
  handoffMtimeAtRequest :: "rat option"
  deadlineMs :: rat
  cooldownUntilMs :: rat
  saturatedStreak :: nat
  handoffStale :: staleness

definition INITIAL_GUARD_STATE :: guard_state where
  "INITIAL_GUARD_STATE = \<lparr>g_phase = GIdle, handoffMtimeAtRequest = None, deadlineMs = 0,
     cooldownUntilMs = 0, saturatedStreak = 0, handoffStale = NotStale\<rparr>"

definition SLEEP_GAP_SWEEPS :: rat where "SLEEP_GAP_SWEEPS = 3"
definition SATURATION_CONFIRM_SWEEPS :: nat where "SATURATION_CONFIRM_SWEEPS = 2"
definition STALE_HANDOFF_SLACK_MS :: rat where "STALE_HANDOFF_SLACK_MS = 3 * 60000"
definition READY_TIMEOUT_MS :: rat where "READY_TIMEOUT_MS = 20 * 60000"

definition sleepGapMs :: "rat option \<Rightarrow> rat \<Rightarrow> rat \<Rightarrow> rat" where
  "sleepGapMs lastSweep now interval =
     (case lastSweep of
        None \<Rightarrow> 0
      | Some l \<Rightarrow> if now - l \<le> interval * SLEEP_GAP_SWEEPS then 0 else (now - l) - interval)"

definition shiftGuardStateForSleep :: "guard_state \<Rightarrow> rat \<Rightarrow> guard_state" where
  "shiftGuardStateForSleep s gap =
     (if gap \<le> 0 then s
      else s\<lparr>deadlineMs := (if deadlineMs s > 0 then deadlineMs s + gap else 0),
             cooldownUntilMs := (if cooldownUntilMs s > 0 then cooldownUntilMs s + gap else 0)\<rparr>)"

record guard_inputs =
  g_now :: rat
  g_pct :: "rat option"
  g_running :: bool
  paneIdle :: bool
  paneBusy :: bool
  sessionReady :: bool
  handoffMtime :: "rat option"
  paneSaturated :: bool
  contextTokens :: "rat option"
  idleMs :: "rat option"
  dailyHandoffDue :: bool

definition handoffStaleMinutes :: "guard_inputs \<Rightarrow> staleness" where
  "handoffStaleMinutes i =
     (case handoffMtime i of
        None \<Rightarrow> NotStale
      | Some mt \<Rightarrow>
          (case idleMs i of
             None \<Rightarrow> StaleUnknown
           | Some idle \<Rightarrow>
               (let gap = (g_now i - idle) - mt
                in if gap > STALE_HANDOFF_SLACK_MS then StaleMin (js_round (gap / 60000)) else NotStale)))"

section \<open>Decisions\<close>

datatype guard_action = GNone | RequestHandoff | GRestart | InjectResume

datatype guard_reason =
    Disabled | CooldownElapsed | CoolingDown | NotRunning | PaneSaturatedFor nat | SaturatedAwaitConfirm
  | DailyDueNotIdle | DailyHandoff string | ProactiveDisabled | ContextUnmeasurable | BelowThreshold
  | HardMidTurn rat | HardThreshold rat rat | ActThreshold rat rat
  | FlushSizeUnmeasurable | FlushIdleUnmeasurable | FlushQuietTooShort rat rat rat | FlushNotIdle
  | IdleFlush rat rat rat
  | DisabledDuringHandoff | StoppedDuringHandoff | SaturatedDuringHandoff | StaleRefresh rat
  | WrittenButStale rat | HandoffWritten | HardMidTurnDuringHandoff | HardDuringHandoff
  | TimeoutMidTurn | HandoffTimeout | WrittenWaitingIdle | WaitingForHandoff
  | SessionReadyAfterRestart | ReadyTimeout | WaitingForSession

record guard_decision =
  g_action :: guard_action
  g_reason :: guard_reason
  nextState :: guard_state

definition no_action :: "guard_reason \<Rightarrow> guard_state \<Rightarrow> guard_decision" where
  "no_action r s = \<lparr>g_action = GNone, g_reason = r, nextState = s\<rparr>"

definition cooldown_state :: "rat \<Rightarrow> context_guard_config \<Rightarrow> guard_state" where
  "cooldown_state now cfg = INITIAL_GUARD_STATE\<lparr>g_phase := Cooldown,
     cooldownUntilMs := now + cooldownMinutes cfg * 60000\<rparr>"

definition cooldown :: "rat \<Rightarrow> context_guard_config \<Rightarrow> guard_reason \<Rightarrow> guard_decision" where
  "cooldown now cfg r = \<lparr>g_action = GNone, g_reason = r, nextState = cooldown_state now cfg\<rparr>"

definition restartDecision :: "rat \<Rightarrow> guard_reason \<Rightarrow> staleness \<Rightarrow> guard_decision" where
  "restartDecision now r stale = \<lparr>g_action = GRestart, g_reason = r,
     nextState = INITIAL_GUARD_STATE\<lparr>g_phase := AwaitReady, deadlineMs := now + READY_TIMEOUT_MS,
                                     handoffStale := stale\<rparr>\<rparr>"

definition handoffRequest :: "rat \<Rightarrow> guard_inputs \<Rightarrow> context_guard_config \<Rightarrow> guard_reason \<Rightarrow> guard_decision" where
  "handoffRequest now i cfg r = \<lparr>g_action = RequestHandoff, g_reason = r,
     nextState = INITIAL_GUARD_STATE\<lparr>g_phase := AwaitHandoff, handoffMtimeAtRequest := handoffMtime i,
                                     deadlineMs := now + handoffTimeoutMinutes cfg * 60000\<rparr>\<rparr>"

definition decideWedgeTiers ::
  "rat \<Rightarrow> guard_inputs \<Rightarrow> context_guard_config \<Rightarrow> guard_state \<Rightarrow> rat \<Rightarrow> guard_decision option" where
  "decideWedgeTiers now i cfg cleared pct =
     (if pct \<ge> hardPct cfg
      then Some (if paneBusy i then no_action (HardMidTurn (js_round (pct * 100))) cleared
                 else restartDecision now (HardThreshold (js_round (pct * 100)) (js_round (hardPct cfg * 100)))
                        (handoffStaleMinutes i))
      else if pct \<ge> actPct cfg
      then Some (handoffRequest now i cfg
                   (ActThreshold (js_round (pct * 100)) (js_round (actPct cfg * 100))))
      else None)"

definition decideIdleFlush ::
  "rat \<Rightarrow> guard_inputs \<Rightarrow> context_guard_config \<Rightarrow> guard_state \<Rightarrow> guard_decision option" where
  "decideIdleFlush now i cfg cleared =
     (case contextTokens i of
        None \<Rightarrow> Some (no_action FlushSizeUnmeasurable cleared)
      | Some tokens \<Rightarrow>
          if tokens < idleFlushTokens cfg then None
          else (case idleMs i of
                  None \<Rightarrow> Some (no_action FlushIdleUnmeasurable cleared)
                | Some idle \<Rightarrow>
                    if idle < idleMinutes cfg * 60000
                    then Some (no_action (FlushQuietTooShort (js_round (tokens / 1000))
                                (js_round (idle / 60000)) (idleMinutes cfg)) cleared)
                    else if \<not> paneIdle i then Some (no_action FlushNotIdle cleared)
                    else Some (handoffRequest now i cfg
                                (IdleFlush (js_round (tokens / 1000)) (js_round (idle / 60000)) (idleMinutes cfg)))))"

text \<open>The phases of \<open>decideGuard\<close>, one definition each.\<close>

definition guard_idle_rest :: "guard_state \<Rightarrow> guard_inputs \<Rightarrow> context_guard_config \<Rightarrow> guard_decision" where
  "guard_idle_rest cleared i cfg =
     (if dailyHandoffEnabled cfg \<and> dailyHandoffTime cfg \<noteq> None \<and> dailyHandoffDue i
      then (if \<not> paneIdle i then no_action DailyDueNotIdle cleared
            else handoffRequest (g_now i) i cfg (DailyHandoff (the (dailyHandoffTime cfg))))
      else if \<not> cg_enabled cfg then no_action ProactiveDisabled cleared
      else if g_pct i = None then no_action ContextUnmeasurable cleared
      else no_action BelowThreshold cleared)"

definition guard_idle :: "guard_state \<Rightarrow> guard_inputs \<Rightarrow> context_guard_config \<Rightarrow> guard_decision" where
  "guard_idle s i cfg =
     (if \<not> g_running i then no_action NotRunning INITIAL_GUARD_STATE
      else if saturationRestart cfg \<and> paneSaturated i
      then (let streak = Suc (saturatedStreak s)
            in if streak \<ge> SATURATION_CONFIRM_SWEEPS
               then restartDecision (g_now i) (PaneSaturatedFor streak) (handoffStaleMinutes i)
               else no_action SaturatedAwaitConfirm (s\<lparr>saturatedStreak := streak\<rparr>))
      else (let cleared = (if saturatedStreak s > 0 then s\<lparr>saturatedStreak := 0\<rparr> else s)
            in case (if cg_enabled cfg
                     then (case g_pct i of Some pct \<Rightarrow> decideWedgeTiers (g_now i) i cfg cleared pct | None \<Rightarrow> None)
                     else None) of
                 Some d \<Rightarrow> d
               | None \<Rightarrow>
                   (case (if idleFlushEnabled cfg then decideIdleFlush (g_now i) i cfg cleared else None) of
                      Some d \<Rightarrow> d
                    | None \<Rightarrow> guard_idle_rest cleared i cfg)))"

definition handoff_written :: "guard_state \<Rightarrow> guard_inputs \<Rightarrow> bool" where
  "handoff_written s i \<longleftrightarrow>
     (case handoffMtime i of
        None \<Rightarrow> False
      | Some mt \<Rightarrow> (case handoffMtimeAtRequest s of None \<Rightarrow> True | Some at_request \<Rightarrow> mt > at_request))"

definition at_hard :: "guard_inputs \<Rightarrow> context_guard_config \<Rightarrow> bool" where
  "at_hard i cfg \<longleftrightarrow> (case g_pct i of Some pct \<Rightarrow> pct \<ge> hardPct cfg | None \<Rightarrow> False)"

definition guard_await_handoff :: "guard_state \<Rightarrow> guard_inputs \<Rightarrow> context_guard_config \<Rightarrow> guard_decision" where
  "guard_await_handoff s i cfg =
     (if \<not> cg_enabled cfg \<and> \<not> idleFlushEnabled cfg \<and> \<not> dailyHandoffEnabled cfg
      then cooldown (g_now i) cfg DisabledDuringHandoff
      else if \<not> g_running i then cooldown (g_now i) cfg StoppedDuringHandoff
      else if saturationRestart cfg \<and> paneSaturated i
      then restartDecision (g_now i) SaturatedDuringHandoff (handoffStaleMinutes i)
      else if handoff_written s i \<and> paneIdle i
      then (case handoffStaleMinutes i of
              StaleMin n \<Rightarrow>
                if g_now i < deadlineMs s \<and> \<not> at_hard i cfg
                then \<lparr>g_action = RequestHandoff, g_reason = StaleRefresh n,
                      nextState = s\<lparr>handoffMtimeAtRequest := handoffMtime i\<rparr>\<rparr>
                else restartDecision (g_now i) (WrittenButStale n) (StaleMin n)
            | stale \<Rightarrow> restartDecision (g_now i) HandoffWritten stale)
      else if at_hard i cfg
      then (if paneBusy i then no_action HardMidTurnDuringHandoff s
            else restartDecision (g_now i) HardDuringHandoff (handoffStaleMinutes i))
      else if g_now i \<ge> deadlineMs s
      then (if paneBusy i then no_action TimeoutMidTurn s
            else restartDecision (g_now i) HandoffTimeout (handoffStaleMinutes i))
      else no_action (if handoff_written s i then WrittenWaitingIdle else WaitingForHandoff) s)"

definition guard_await_ready :: "guard_state \<Rightarrow> guard_inputs \<Rightarrow> context_guard_config \<Rightarrow> guard_decision" where
  "guard_await_ready s i cfg =
     (if g_running i \<and> sessionReady i
      then \<lparr>g_action = InjectResume, g_reason = SessionReadyAfterRestart,
            nextState = cooldown_state (g_now i) cfg\<rparr>
      else if g_now i \<ge> deadlineMs s then cooldown (g_now i) cfg ReadyTimeout
      else no_action WaitingForSession s)"

definition decideGuard :: "guard_state \<Rightarrow> guard_inputs \<Rightarrow> context_guard_config \<Rightarrow> guard_decision" where
  "decideGuard s i cfg =
     (if \<not> cg_enabled cfg \<and> \<not> saturationRestart cfg \<and> \<not> idleFlushEnabled cfg \<and> \<not> dailyHandoffEnabled cfg
      then no_action Disabled INITIAL_GUARD_STATE
      else (case g_phase s of
              Cooldown \<Rightarrow> (if g_now i \<ge> cooldownUntilMs s then no_action CooldownElapsed INITIAL_GUARD_STATE
                           else no_action CoolingDown s)
            | GIdle \<Rightarrow> guard_idle s i cfg
            | AwaitHandoff \<Rightarrow> guard_await_handoff s i cfg
            | AwaitReady \<Rightarrow> guard_await_ready s i cfg))"

section \<open>Lemmas\<close>

lemmas guard_parts = no_action_def cooldown_def restartDecision_def handoffRequest_def
lemmas guard_phases = guard_idle_def guard_idle_rest_def guard_await_handoff_def guard_await_ready_def
  decideWedgeTiers_def decideIdleFlush_def

lemma decision_sel [simp]:
  "g_action (no_action r s) = GNone" "nextState (no_action r s) = s"
  "g_action (cooldown n c r) = GNone" "nextState (cooldown n c r) = cooldown_state n c"
  "g_action (restartDecision n r st) = GRestart"
  "nextState (restartDecision n r st) = INITIAL_GUARD_STATE\<lparr>g_phase := AwaitReady,
     deadlineMs := n + READY_TIMEOUT_MS, handoffStale := st\<rparr>"
  "g_action (handoffRequest n i c r) = RequestHandoff"
  "nextState (handoffRequest n i c r) = INITIAL_GUARD_STATE\<lparr>g_phase := AwaitHandoff,
     handoffMtimeAtRequest := handoffMtime i, deadlineMs := n + handoffTimeoutMinutes c * 60000\<rparr>"
  by (simp_all add: guard_parts)

lemma cooldown_state_sel [simp]: "g_phase (cooldown_state n c) = Cooldown"
  by (simp add: cooldown_state_def)

lemma tier_restart:
  "decideWedgeTiers n i cfg c pct = Some d \<Longrightarrow> g_action d = GRestart \<Longrightarrow> \<not> paneBusy i"
  "decideIdleFlush n i cfg c = Some d \<Longrightarrow> g_action d \<noteq> GRestart"
  "g_action (guard_idle_rest c i cfg) \<noteq> GRestart"
  by (auto simp: guard_phases split: if_splits option.splits)

lemma guard_idle_restart:
  "g_action (guard_idle s i cfg) = GRestart \<Longrightarrow>
     g_running i \<and> (\<not> paneBusy i \<or> saturationRestart cfg \<and> paneSaturated i)"
  by (auto simp: guard_idle_def Let_def tier_restart dest: tier_restart(1,2) split: if_splits option.splits)

lemma await_handoff_restart:
  "g_action (guard_await_handoff s i cfg) = GRestart \<Longrightarrow>
     g_running i \<and> (\<not> paneBusy i \<or> paneIdle i \<or> saturationRestart cfg \<and> paneSaturated i)"
  by (auto simp: guard_await_handoff_def split: if_splits staleness.splits)

section \<open>Properties\<close>

text \<open>
  the window estimate. The calibrated limit is never below the assumed one, is either the
  assumed one or a larger tier, and is the least such value that explains the observation within
  the tolerance when one exists; an observation within the tolerance of the assumed window never
  moves it.
\<close>

definition limit_candidates :: "rat \<Rightarrow> rat list" where
  "limit_candidates base = base # [t \<leftarrow> CONTEXT_LIMIT_TIERS. t > base]"

theorem calibrated_limit_least:
  assumes "0 \<le> base"
  shows "let l = calibrateLimit obs base in
    l \<in> set (limit_candidates base) \<and>
    (\<forall>c \<in> set (limit_candidates base). c < l \<longrightarrow> \<not> explains obs c) \<and>
    (explains obs l \<or> (\<forall>c \<in> set (limit_candidates base). \<not> explains obs c))"
  using assms
  by (auto simp: Let_def calibrateLimit_def CONTEXT_LIMIT_TIERS_def limit_candidates_def explains_def
      CALIBRATION_OVERSHOOT_TOLERANCE_def)

theorem calibrated_limit_least_witness:
  "calibrateLimit 213175 200000 \<in> set (limit_candidates 200000) \<and> calibrateLimit 213175 200000 = 200000 \<and>
   calibrateLimit 489000 200000 = 500000"
  using calibrated_limit_least [of 200000 213175]
  by (simp add: Let_def calibrateLimit_def CONTEXT_LIMIT_TIERS_def explains_def CALIBRATION_OVERSHOOT_TOLERANCE_def)

text \<open>
  C33: when a guard restart may hit a busy pane. Whenever a sweep restarts an agent, the agent was running, and its pane was not
  busy or was positively idle, unless the saturation net is armed and the pane shows a full context. From the idle phase
  such a pane must have been seen on the sweep before as well; from the phase that waits for a handoff one sight is enough.
\<close>

theorem guard_never_cuts_turn:
  assumes "g_action (decideGuard s i cfg) = GRestart"
  shows "g_running i \<and>
    (\<not> paneBusy i \<or> paneIdle i \<or>
     saturationRestart cfg \<and> paneSaturated i \<and> (g_phase s = GIdle \<longrightarrow> saturatedStreak s \<ge> 1))"
proof (cases "g_phase s")
  case GIdle
  with assms have d: "g_action (guard_idle s i cfg) = GRestart"
    by (auto simp: decideGuard_def split: if_splits)
  moreover have "saturatedStreak s \<ge> 1" if "saturationRestart cfg \<and> paneSaturated i"
    using d that by (auto simp: guard_idle_def Let_def SATURATION_CONFIRM_SWEEPS_def split: if_splits)
  ultimately show ?thesis using guard_idle_restart by blast
next
  case AwaitHandoff
  with assms await_handoff_restart show ?thesis by (fastforce simp: decideGuard_def split: if_splits)
qed (use assms in \<open>auto simp: decideGuard_def guard_await_ready_def split: if_splits\<close>)

definition quiet_inputs :: guard_inputs where
  "quiet_inputs = \<lparr>g_now = 1000, g_pct = Some (98/100), g_running = True, paneIdle = False, paneBusy = False,
     sessionReady = False, handoffMtime = None, paneSaturated = False, contextTokens = None, idleMs = None,
     dailyHandoffDue = False\<rparr>"

theorem guard_never_cuts_turn_witness:
  "let cfg = DEFAULT_CONTEXT_GUARD\<lparr>cg_enabled := True\<rparr> in
     g_action (decideGuard INITIAL_GUARD_STATE quiet_inputs cfg) = GRestart \<and>
     g_action (decideGuard INITIAL_GUARD_STATE (quiet_inputs\<lparr>paneBusy := True\<rparr>) cfg) \<noteq> GRestart"
proof -
  let ?cfg = "DEFAULT_CONTEXT_GUARD\<lparr>cg_enabled := True\<rparr>"
  have "g_action (decideGuard INITIAL_GUARD_STATE quiet_inputs ?cfg) = GRestart" by code_simp
  moreover have "g_action (decideGuard INITIAL_GUARD_STATE (quiet_inputs\<lparr>paneBusy := True\<rparr>) ?cfg) \<noteq> GRestart"
    using guard_never_cuts_turn [of INITIAL_GUARD_STATE "quiet_inputs\<lparr>paneBusy := True\<rparr>" ?cfg]
    by (auto simp: quiet_inputs_def)
  ultimately show ?thesis by (simp add: Let_def)
qed

lemma tier_request:
  "decideWedgeTiers n i cfg c pct = Some d \<Longrightarrow> g_action d = RequestHandoff \<Longrightarrow>
     deadlineMs (nextState d) = n + handoffTimeoutMinutes cfg * 60000"
  "decideIdleFlush n i cfg c = Some d \<Longrightarrow> g_action d = RequestHandoff \<Longrightarrow>
     deadlineMs (nextState d) = n + handoffTimeoutMinutes cfg * 60000"
  "g_action (guard_idle_rest c i cfg) = RequestHandoff \<Longrightarrow>
     deadlineMs (nextState (guard_idle_rest c i cfg)) = g_now i + handoffTimeoutMinutes cfg * 60000"
  by (auto simp: guard_phases split: if_splits option.splits)

lemma guard_idle_request:
  "g_action (guard_idle s i cfg) = RequestHandoff \<Longrightarrow>
     deadlineMs (nextState (guard_idle s i cfg)) = g_now i + handoffTimeoutMinutes cfg * 60000"
  by (auto simp: guard_idle_def Let_def tier_request(3) dest: tier_request(1,2)
      split: if_splits option.splits)

text \<open>Sweeps during which the guard keeps waiting for the handoff, and the state after them.\<close>

fun awaiting :: "guard_state \<Rightarrow> (guard_inputs \<times> context_guard_config) list \<Rightarrow> guard_state option" where
  "awaiting s [] = (if g_phase s = AwaitHandoff then Some s else None)"
| "awaiting s ((i, cfg) # xs) =
     (if g_phase s = AwaitHandoff then awaiting (nextState (decideGuard s i cfg)) xs else None)"

lemma await_handoff_deadline:
  assumes "g_phase s = AwaitHandoff" and "g_phase (nextState (decideGuard s i cfg)) = AwaitHandoff"
  shows "deadlineMs (nextState (decideGuard s i cfg)) = deadlineMs s"
  using assms
  by (auto simp: decideGuard_def guard_await_handoff_def INITIAL_GUARD_STATE_def split: if_splits staleness.splits)

lemma awaiting_deadline: "awaiting s xs = Some t \<Longrightarrow> g_phase t = AwaitHandoff \<and> deadlineMs t = deadlineMs s"
proof (induction s xs rule: awaiting.induct)
  case (2 s i cfg xs)
  from "2.prems" have a: "g_phase s = AwaitHandoff" "awaiting (nextState (decideGuard s i cfg)) xs = Some t"
    by (simp_all split: if_splits)
  then have "g_phase (nextState (decideGuard s i cfg)) = AwaitHandoff"
    by (cases xs) (auto split: if_splits)
  with a "2.IH" await_handoff_deadline [of s i cfg] show ?case by simp
qed (simp split: if_splits)

text \<open>
  the handoff deadline holds. However many sweeps the guard spends waiting for a requested
  handoff, refresh requests included, the deadline set with the request does not move; and at the
  first sweep at or after it that finds the agent running and not in a turn, with a tier still
  enabled, the agent is restarted whether or not the handoff was written.
\<close>

theorem handoff_deadline_holds:
  assumes "g_action (decideGuard s0 i0 cfg0) = RequestHandoff" and "g_phase s0 = GIdle"
    and "awaiting (nextState (decideGuard s0 i0 cfg0)) xs = Some s"
    and "g_now i \<ge> g_now i0 + handoffTimeoutMinutes cfg0 * 60000"
    and "g_running i" and "\<not> paneBusy i"
    and "cg_enabled cfg \<or> idleFlushEnabled cfg \<or> dailyHandoffEnabled cfg"
  shows "g_action (decideGuard s i cfg) = GRestart"
proof -
  have "deadlineMs (nextState (decideGuard s0 i0 cfg0)) = g_now i0 + handoffTimeoutMinutes cfg0 * 60000"
    using assms(1,2) guard_idle_request by (auto simp: decideGuard_def split: if_splits)
  with awaiting_deadline [OF assms(3)] assms(4)
  have "g_phase s = AwaitHandoff" and "g_now i \<ge> deadlineMs s" by simp_all
  with assms(5-7) show ?thesis
    by (auto simp: decideGuard_def guard_await_handoff_def split: staleness.split)
qed

theorem handoff_deadline_holds_witness:
  "let cfg = DEFAULT_CONTEXT_GUARD\<lparr>cg_enabled := True\<rparr>; i = quiet_inputs\<lparr>g_pct := Some (9/10)\<rparr>;
       s = nextState (decideGuard INITIAL_GUARD_STATE i cfg)
   in g_action (decideGuard s (i\<lparr>g_now := 1201000\<rparr>) cfg) = GRestart"
proof -
  let ?cfg = "DEFAULT_CONTEXT_GUARD\<lparr>cg_enabled := True\<rparr>" and ?i = "quiet_inputs\<lparr>g_pct := Some (9/10)\<rparr>"
  have r: "g_action (decideGuard INITIAL_GUARD_STATE ?i ?cfg) = RequestHandoff" by code_simp
  have w: "awaiting (nextState (decideGuard INITIAL_GUARD_STATE ?i ?cfg)) []
      = Some (nextState (decideGuard INITIAL_GUARD_STATE ?i ?cfg))" by code_simp
  have p: "g_phase INITIAL_GUARD_STATE = GIdle" by (simp add: INITIAL_GUARD_STATE_def)
  have "g_action (decideGuard (nextState (decideGuard INITIAL_GUARD_STATE ?i ?cfg))
      (?i\<lparr>g_now := 1201000\<rparr>) ?cfg) = GRestart"
    by (rule handoff_deadline_holds [OF r p w]) (simp_all add: quiet_inputs_def DEFAULT_CONTEXT_GUARD_def)
  then show ?thesis by (simp only: Let_def)
qed

end
