(* ===== verification/PaneState.thy ===== *)
theory PaneState
  imports JsBase
begin

text \<open>
  The verdict of the pane detectors (\<open>PaneState\<close> of \<open>src/pane-state.ts\<close>). The detectors read the
  text of a terminal pane and are not modelled; their verdict is an input of the components that act
  on it, \<open>None\<close> where the pane could not be captured.
\<close>

datatype pane_state = PIdle | PBusy | PTyping | PUnknown | PError

end
