(* ===== verification/RestartGate.thy ===== *)
theory RestartGate
  imports JsonConfig PaneState
begin

text \<open>
  The proactive context-restart gate: the decision of \<open>src/context-restart-gate.ts\<close> and one sweep
  of one agent in \<open>src/web/context-restart-gate-runner.ts\<close>. What the runner measures is the record
  \<open>gate_inputs\<close>; whether the send lane and the message insert succeed is \<open>gate_io\<close>. Writes of the
  run state succeed. Times are milliseconds.
\<close>

section \<open>Settings\<close>

record gate_config =
  gt_enabled :: bool
  thresholdTokens :: rat
  staleCutoffMs :: rat
  retryIntervalMs :: rat
  persistentBlockAlertMs :: rat
  childCheckFallbackAfterMs :: rat
  forceRestartAfterMs :: rat

definition DEFAULT_GATE_CONFIG :: gate_config where
  "DEFAULT_GATE_CONFIG = \<lparr>gt_enabled = False, thresholdTokens = 400000, staleCutoffMs = 2 * 60 * 60 * 1000,
     retryIntervalMs = 5 * 60 * 1000, persistentBlockAlertMs = 2 * 60 * 60 * 1000,
     childCheckFallbackAfterMs = 30 * 60 * 1000, forceRestartAfterMs = 4 * 60 * 60 * 1000\<rparr>"

definition posInt :: "jsval \<Rightarrow> rat \<Rightarrow> rat" where
  "posInt v d = (case finite_num v of Some x \<Rightarrow> (if x > 0 then js_floor x else d) | None \<Rightarrow> d)"

definition normalizeGateConfig :: "jsval \<Rightarrow> gate_config" where
  "normalizeGateConfig raw =
     \<lparr>gt_enabled = is_true (js_prop raw ''enabled''),
      thresholdTokens = posInt (js_prop raw ''thresholdTokens'') (thresholdTokens DEFAULT_GATE_CONFIG),
      staleCutoffMs = posInt (js_prop raw ''staleCutoffMs'') (staleCutoffMs DEFAULT_GATE_CONFIG),
      retryIntervalMs = posInt (js_prop raw ''retryIntervalMs'') (retryIntervalMs DEFAULT_GATE_CONFIG),
      persistentBlockAlertMs =
        posInt (js_prop raw ''persistentBlockAlertMs'') (persistentBlockAlertMs DEFAULT_GATE_CONFIG),
      childCheckFallbackAfterMs =
        posInt (js_prop raw ''childCheckFallbackAfterMs'') (childCheckFallbackAfterMs DEFAULT_GATE_CONFIG),
      forceRestartAfterMs = posInt (js_prop raw ''forceRestartAfterMs'') (forceRestartAfterMs DEFAULT_GATE_CONFIG)\<rparr>"

definition gate_config_json :: "gate_config \<Rightarrow> jsval" where
  "gate_config_json c = JObj
     [(''enabled'', JBool (gt_enabled c)), (''thresholdTokens'', JNum (Fin (thresholdTokens c))),
      (''staleCutoffMs'', JNum (Fin (staleCutoffMs c))), (''retryIntervalMs'', JNum (Fin (retryIntervalMs c))),
      (''persistentBlockAlertMs'', JNum (Fin (persistentBlockAlertMs c))),
      (''childCheckFallbackAfterMs'', JNum (Fin (childCheckFallbackAfterMs c))),
      (''forceRestartAfterMs'', JNum (Fin (forceRestartAfterMs c)))]"

text \<open>
  The floor of a fraction between 0 and 1 is 0, so a stored setting may become 0, which the next
  read replaces by the default: only whole positive settings are stable.
\<close>

definition whole_positive :: "rat \<Rightarrow> bool" where
  "whole_positive x \<longleftrightarrow> 0 < x \<and> js_floor x = x"

definition gate_config_ok :: "gate_config \<Rightarrow> bool" where
  "gate_config_ok c \<longleftrightarrow> list_all whole_positive
     [thresholdTokens c, staleCutoffMs c, retryIntervalMs c, persistentBlockAlertMs c,
      childCheckFallbackAfterMs c, forceRestartAfterMs c]"

section \<open>Inputs and run state\<close>

record gate_inputs =
  gi_now :: rat
  gi_tokens :: "rat option"
  paneState :: "pane_state option"
  paneUsageLimited :: bool
  hardGuardPhase :: string
  pendingOutboundCount :: nat
  hasStaleOutbound :: bool
  hasChildProcesses :: "bool option"
  hasOpenQuestion :: bool
  hasLiveTaskState :: bool

record gate_run_state =
  firstBlockedAt :: "rat option"
  lastAlertAt :: "rat option"
  lastClearAt :: "rat option"

section \<open>Decision\<close>

datatype gate_reason =
    GateDisabled | TokensUnmeasurable | BelowGateThreshold rat rat | HardGuardArmed string
  | PaneNotCapturable | PaneMidTurn pane_state | PaneLimited | PaneFailClosed pane_state
  | ChildCheckFailed | LiveChildren | PendingOutbound nat rat | OpenQuestion | LiveTaskState
  | ChildCheckPassthrough rat | AllClear rat rat

datatype gate_action = GateAllow | GateBlock | GateBlockAlert

record gate_decision =
  gd_action :: gate_action
  gd_reason :: gate_reason
  gd_note_stale :: bool

definition blocked_for :: "rat option \<Rightarrow> rat \<Rightarrow> rat" where
  "blocked_for first now = (case first of Some b \<Rightarrow> now - b | None \<Rightarrow> 0)"

definition gate_block :: "rat option \<Rightarrow> rat \<Rightarrow> gate_config \<Rightarrow> gate_reason \<Rightarrow> gate_decision" where
  "gate_block first now cfg r =
     \<lparr>gd_action = (if blocked_for first now \<ge> persistentBlockAlertMs cfg then GateBlockAlert else GateBlock),
      gd_reason = r, gd_note_stale = False\<rparr>"

definition plain_block :: "gate_reason \<Rightarrow> gate_decision" where
  "plain_block r = \<lparr>gd_action = GateBlock, gd_reason = r, gd_note_stale = False\<rparr>"

text \<open>The part of \<open>decideGate\<close> after the child check; \<open>passthrough\<close> is \<open>childCheckPassthroughMin\<close>.\<close>

definition gate_tail ::
  "gate_inputs \<Rightarrow> gate_config \<Rightarrow> rat option \<Rightarrow> rat \<Rightarrow> rat option \<Rightarrow> gate_decision" where
  "gate_tail i cfg first tokens passthrough =
     (if pendingOutboundCount i > 0
      then gate_block first (gi_now i) cfg (PendingOutbound (pendingOutboundCount i) (js_round (staleCutoffMs cfg / 3600000)))
      else if hasOpenQuestion i then gate_block first (gi_now i) cfg OpenQuestion
      else if hasLiveTaskState i then gate_block first (gi_now i) cfg LiveTaskState
      else \<lparr>gd_action = GateAllow,
            gd_reason = (case passthrough of Some m \<Rightarrow> ChildCheckPassthrough m
                                           | None \<Rightarrow> AllClear tokens (thresholdTokens cfg)),
            gd_note_stale = hasStaleOutbound i\<rparr>)"

definition gate_children :: "gate_inputs \<Rightarrow> gate_config \<Rightarrow> rat option \<Rightarrow> rat \<Rightarrow> gate_decision" where
  "gate_children i cfg first tokens =
     (case hasChildProcesses i of
        None \<Rightarrow>
          (let blockedFor = blocked_for first (gi_now i)
           in if blockedFor < childCheckFallbackAfterMs cfg
              then gate_block first (gi_now i) cfg ChildCheckFailed
              else gate_tail i cfg first tokens (Some (js_round (blockedFor / 60000))))
      | Some True \<Rightarrow> gate_block first (gi_now i) cfg LiveChildren
      | Some False \<Rightarrow> gate_tail i cfg first tokens None)"

definition gate_pane :: "gate_inputs \<Rightarrow> gate_config \<Rightarrow> rat option \<Rightarrow> rat \<Rightarrow> gate_decision" where
  "gate_pane i cfg first tokens =
     (case paneState i of
        None \<Rightarrow> gate_block first (gi_now i) cfg PaneNotCapturable
      | Some ps \<Rightarrow>
          if ps = PBusy \<or> ps = PTyping then gate_block first (gi_now i) cfg (PaneMidTurn ps)
          else if paneUsageLimited i then gate_block first (gi_now i) cfg PaneLimited
          else if ps = PUnknown \<or> ps = PError then gate_block first (gi_now i) cfg (PaneFailClosed ps)
          else gate_children i cfg first tokens)"

definition guard_armed :: "gate_inputs \<Rightarrow> bool" where
  "guard_armed i \<longleftrightarrow> hardGuardPhase i = ''await-handoff'' \<or> hardGuardPhase i = ''await-ready''"

definition decideGate :: "gate_inputs \<Rightarrow> gate_config \<Rightarrow> rat option \<Rightarrow> gate_decision" where
  "decideGate i cfg first =
     (if \<not> gt_enabled cfg then plain_block GateDisabled
      else (case gi_tokens i of
              None \<Rightarrow> gate_block first (gi_now i) cfg TokensUnmeasurable
            | Some tokens \<Rightarrow>
                if tokens < thresholdTokens cfg
                then plain_block (BelowGateThreshold tokens (thresholdTokens cfg))
                else if guard_armed i then gate_block first (gi_now i) cfg (HardGuardArmed (hardGuardPhase i))
                else gate_pane i cfg first tokens))"

definition shouldForceRestart :: "gate_inputs \<Rightarrow> gate_config \<Rightarrow> rat option \<Rightarrow> bool" where
  "shouldForceRestart i cfg first =
     (case first of
        None \<Rightarrow> False
      | Some b \<Rightarrow>
          if gi_now i - b < forceRestartAfterMs cfg then False
          else if paneState i \<noteq> Some PIdle then False
          else if hasChildProcesses i \<noteq> Some False then False
          else if pendingOutboundCount i > 0 then False
          else if hasOpenQuestion i then False
          else if hasLiveTaskState i then False
          else True)"

section \<open>Streak resets\<close>

definition SESSION_START_TOLERANCE_MS :: rat where "SESSION_START_TOLERANCE_MS = 60000"

definition streakBelongsToPreviousSession :: "rat option \<Rightarrow> rat option \<Rightarrow> bool" where
  "streakBelongsToPreviousSession first start =
     (case (first, start) of
        (Some b, Some s) \<Rightarrow> b < s - SESSION_START_TOLERANCE_MS
      | _ \<Rightarrow> False)"

definition resetStreakIfPreviousSession :: "gate_run_state \<Rightarrow> rat option \<Rightarrow> gate_run_state" where
  "resetStreakIfPreviousSession st start =
     (if \<not> streakBelongsToPreviousSession (firstBlockedAt st) start then st
      else st\<lparr>firstBlockedAt := None, lastAlertAt := None\<rparr>)"

definition resetStreakIfBelowThreshold :: "gate_run_state \<Rightarrow> rat option \<Rightarrow> rat \<Rightarrow> gate_run_state" where
  "resetStreakIfBelowThreshold st tokens threshold =
     (case tokens of
        None \<Rightarrow> st
      | Some n \<Rightarrow>
          if n \<ge> threshold then st
          else if firstBlockedAt st = None \<and> lastAlertAt st = None then st
          else st\<lparr>firstBlockedAt := None, lastAlertAt := None\<rparr>)"

section \<open>One sweep\<close>

record gate_io =
  sessionStartMs :: "rat option"
  clear_ok :: bool
  forced_message_ok :: bool
  message_ok :: bool

datatype restart_event = ClearSent | ForcedClearSent | AlertSent gate_reason rat

text \<open>
  \<open>readGateDbSignals\<close> and its use: a failed statistics query (\<open>None\<close>) counts as one pending message,
  a failed open-question query as no open question.
\<close>

definition with_db_signals :: "(nat \<times> bool) option \<Rightarrow> bool option \<Rightarrow> gate_inputs \<Rightarrow> gate_inputs" where
  "with_db_signals stats question i =
     i\<lparr>pendingOutboundCount := (case stats of None \<Rightarrow> 1 | Some (n, _) \<Rightarrow> n),
       hasStaleOutbound := (case stats of None \<Rightarrow> False | Some (_, stale) \<Rightarrow> stale),
       hasOpenQuestion := (case question of None \<Rightarrow> False | Some q \<Rightarrow> q)\<rparr>"

text \<open>The plain alert of the \<open>block-alert\<close> case.\<close>

definition gate_alert ::
  "gate_config \<Rightarrow> gate_io \<Rightarrow> gate_inputs \<Rightarrow> gate_reason \<Rightarrow> gate_run_state \<Rightarrow> gate_run_state \<times> restart_event list" where
  "gate_alert cfg io i r st =
     (let now = gi_now i;
          alertDue = (case lastAlertAt st of None \<Rightarrow> True | Some a \<Rightarrow> now - a \<ge> persistentBlockAlertMs cfg)
      in if alertDue \<and> message_ok io
         then (st\<lparr>firstBlockedAt := Some (case firstBlockedAt st of Some b \<Rightarrow> b | None \<Rightarrow> now),
                  lastAlertAt := Some now\<rparr>,
               [AlertSent r (blocked_for (firstBlockedAt st) now)])
         else (st, []))"

definition checkGate ::
  "gate_config \<Rightarrow> gate_io \<Rightarrow> gate_inputs \<Rightarrow> gate_run_state \<Rightarrow> gate_run_state \<times> restart_event list" where
  "checkGate cfg io i stored =
     (if \<not> gt_enabled cfg then (stored, [])
      else
        (let st = resetStreakIfBelowThreshold (resetStreakIfPreviousSession stored (sessionStartMs io))
                    (gi_tokens i) (thresholdTokens cfg);
             d = decideGate i cfg (firstBlockedAt st);
             now = gi_now i
         in case gd_action d of
              GateAllow \<Rightarrow>
                (if clear_ok io then (st\<lparr>firstBlockedAt := None, lastClearAt := Some now\<rparr>, [ClearSent])
                 else (st, []))
            | GateBlockAlert \<Rightarrow>
                (if shouldForceRestart i cfg (firstBlockedAt st) \<and> clear_ok io
                 then (if forced_message_ok io
                       then (st\<lparr>firstBlockedAt := None, lastAlertAt := Some now, lastClearAt := Some now\<rparr>,
                             [ForcedClearSent])
                       else (let (st', evs) = gate_alert cfg io i (gd_reason d) st
                             in (st', ForcedClearSent # evs)))
                 else gate_alert cfg io i (gd_reason d) st)
            | GateBlock \<Rightarrow>
                (case firstBlockedAt st of
                   Some b \<Rightarrow> (st, [])
                 | None \<Rightarrow>
                     (case gi_tokens i of
                        Some n \<Rightarrow> if n \<ge> thresholdTokens cfg then (st\<lparr>firstBlockedAt := Some now\<rparr>, []) else (st, [])
                      | None \<Rightarrow> (st, [])))))"

section \<open>Lemmas\<close>

lemma gate_block_action [simp]: "gd_action (gate_block f n c r) \<noteq> GateAllow"
  "gd_action (gate_block f n c r) = GateBlockAlert \<longleftrightarrow> blocked_for f n \<ge> persistentBlockAlertMs c"
  "gd_action (plain_block r) = GateBlock"
  by (simp_all add: gate_block_def plain_block_def)

lemma gate_tail_allow:
  "gd_action (gate_tail i cfg f tk p) = GateAllow \<Longrightarrow>
     pendingOutboundCount i = 0 \<and> \<not> hasOpenQuestion i \<and> \<not> hasLiveTaskState i"
  by (auto simp: gate_tail_def split: if_splits)

lemma decideGate_allow:
  assumes "gd_action (decideGate i cfg first) = GateAllow"
  shows "gt_enabled cfg \<and> (\<exists>n. gi_tokens i = Some n \<and> n \<ge> thresholdTokens cfg) \<and> \<not> guard_armed i \<and>
    paneState i = Some PIdle \<and> \<not> paneUsageLimited i \<and>
    (hasChildProcesses i = Some False \<or>
     hasChildProcesses i = None \<and> childCheckFallbackAfterMs cfg \<le> blocked_for first (gi_now i)) \<and>
    pendingOutboundCount i = 0 \<and> \<not> hasOpenQuestion i \<and> \<not> hasLiveTaskState i"
proof -
  obtain tk where "gt_enabled cfg" "gi_tokens i = Some tk" "\<not> tk < thresholdTokens cfg" "\<not> guard_armed i"
    and p: "gd_action (gate_pane i cfg first tk) = GateAllow"
    using assms by (auto simp: decideGate_def split: if_splits option.splits)
  moreover from p have "paneState i = Some PIdle" "\<not> paneUsageLimited i"
    and "gd_action (gate_children i cfg first tk) = GateAllow"
    by (auto simp: gate_pane_def split: if_splits option.splits pane_state.splits intro: pane_state.exhaust)
  ultimately show ?thesis
    by (auto simp: gate_children_def Let_def not_less dest: gate_tail_allow split: option.splits bool.splits if_splits)
qed

lemma decideGate_alert:
  "gd_action (decideGate i cfg first) = GateBlockAlert \<Longrightarrow>
     blocked_for first (gi_now i) \<ge> persistentBlockAlertMs cfg \<and> \<not> (\<exists>n. gi_tokens i = Some n \<and> n < thresholdTokens cfg)"
  by (auto simp: decideGate_def gate_pane_def gate_children_def gate_tail_def Let_def
      split: option.splits if_splits bool.splits)

lemma shouldForceRestart_iff:
  "shouldForceRestart i cfg first \<longleftrightarrow>
     (\<exists>b. first = Some b \<and> gi_now i - b \<ge> forceRestartAfterMs cfg) \<and> paneState i = Some PIdle \<and>
     hasChildProcesses i = Some False \<and> pendingOutboundCount i = 0 \<and> \<not> hasOpenQuestion i \<and> \<not> hasLiveTaskState i"
  by (auto simp: shouldForceRestart_def split: option.splits)

lemma gate_alert_events [simp]:
  "ClearSent \<notin> set (snd (gate_alert cfg io i r st))" "ForcedClearSent \<notin> set (snd (gate_alert cfg io i r st))"
  by (auto simp: gate_alert_def Let_def)

definition clears :: "restart_event list \<Rightarrow> bool" where
  "clears evs \<longleftrightarrow> ClearSent \<in> set evs \<or> ForcedClearSent \<in> set evs"

lemma resets_first:
  "firstBlockedAt (resetStreakIfBelowThreshold (resetStreakIfPreviousSession st start) tk th) = Some b \<Longrightarrow>
     firstBlockedAt st = Some b \<and> \<not> streakBelongsToPreviousSession (Some b) start \<and>
     \<not> (\<exists>n. tk = Some n \<and> n < th)"
  by (auto simp: resetStreakIfBelowThreshold_def resetStreakIfPreviousSession_def
      split: option.splits if_splits)

lemma checkGate_clears:
  assumes "clears (snd (checkGate cfg io i st))"
  shows "gt_enabled cfg \<and> paneState i = Some PIdle \<and>
    (hasChildProcesses i = Some False \<or>
     hasChildProcesses i = None \<and> ForcedClearSent \<notin> set (snd (checkGate cfg io i st)) \<and>
       (childCheckFallbackAfterMs cfg \<le> 0 \<or>
        childCheckFallbackAfterMs cfg \<le> blocked_for (firstBlockedAt st) (gi_now i))) \<and>
    pendingOutboundCount i = 0 \<and> \<not> hasOpenQuestion i \<and> \<not> hasLiveTaskState i"
proof -
  let ?st = "resetStreakIfBelowThreshold (resetStreakIfPreviousSession st (sessionStartMs io))
      (gi_tokens i) (thresholdTokens cfg)"
  let ?d = "decideGate i cfg (firstBlockedAt ?st)"
  have en: "gt_enabled cfg" using assms by (auto simp: checkGate_def clears_def split: if_splits)
  show ?thesis
  proof (cases "gd_action ?d")
    case GateAllow
    then have "ForcedClearSent \<notin> set (snd (checkGate cfg io i st))"
      by (simp add: checkGate_def Let_def)
    moreover have "childCheckFallbackAfterMs cfg \<le> blocked_for (firstBlockedAt ?st) (gi_now i) \<Longrightarrow>
        childCheckFallbackAfterMs cfg \<le> 0 \<or>
        childCheckFallbackAfterMs cfg \<le> blocked_for (firstBlockedAt st) (gi_now i)"
      using resets_first [of st "sessionStartMs io" "gi_tokens i" "thresholdTokens cfg"]
      by (cases "firstBlockedAt ?st") (auto simp: blocked_for_def)
    ultimately show ?thesis using decideGate_allow [OF GateAllow] by blast
  next
    case GateBlock
    with assms en show ?thesis
      by (auto simp: checkGate_def Let_def clears_def split: option.splits if_splits)
  next
    case GateBlockAlert
    have "shouldForceRestart i cfg (firstBlockedAt ?st)"
    proof (rule ccontr)
      assume "\<not> shouldForceRestart i cfg (firstBlockedAt ?st)"
      with GateBlockAlert en assms show False by (auto simp: checkGate_def Let_def clears_def)
    qed
    with en show ?thesis by (auto simp: shouldForceRestart_iff)
  qed
qed

section \<open>Properties\<close>

text \<open>
  C34: \<open>/clear\<close> is sent only without live work that the gate could see. Whenever a sweep sends \<open>/clear\<close>, by the normal or
  the forced way, the gate is enabled, the pane is idle and no child process is known to be alive (an unmeasurable check
  is passed over only on the normal way and only after the fallback window), and the sweep found no pending outbound message,
  no open question (a lookup that fails counts as none) and no live task state. A failed statistics query counts as pending
  work and so always blocks.
\<close>

theorem clear_only_without_live_work:
  assumes "clears (snd (checkGate cfg io i st))" and "0 < childCheckFallbackAfterMs cfg"
  shows "gt_enabled cfg \<and> paneState i = Some PIdle \<and>
    (hasChildProcesses i = Some False \<or>
     hasChildProcesses i = None \<and> ForcedClearSent \<notin> set (snd (checkGate cfg io i st)) \<and>
       (\<exists>b. firstBlockedAt st = Some b \<and> childCheckFallbackAfterMs cfg \<le> gi_now i - b)) \<and>
    pendingOutboundCount i = 0 \<and> \<not> hasOpenQuestion i \<and> \<not> hasLiveTaskState i \<and>
    (\<forall>question. \<not> clears (snd (checkGate cfg io (with_db_signals None question i) st)))"
proof -
  have no_stats: "\<not> clears (snd (checkGate cfg io (with_db_signals None question i) st))" for question
  proof
    assume "clears (snd (checkGate cfg io (with_db_signals None question i) st))"
    from checkGate_clears [OF this] show False by (simp add: with_db_signals_def)
  qed
  from checkGate_clears [OF assms(1)] no_stats show ?thesis
    using assms(2) by (auto simp: blocked_for_def split: option.splits)
qed

definition working_inputs :: gate_inputs where
  "working_inputs = \<lparr>gi_now = 20000000, gi_tokens = Some 450000, paneState = Some PIdle, paneUsageLimited = False,
     hardGuardPhase = ''idle'', pendingOutboundCount = 0, hasStaleOutbound = False,
     hasChildProcesses = Some False, hasOpenQuestion = False, hasLiveTaskState = False\<rparr>"

definition fresh_run_state :: gate_run_state where
  "fresh_run_state = \<lparr>firstBlockedAt = None, lastAlertAt = None, lastClearAt = None\<rparr>"

definition all_ok :: gate_io where
  "all_ok = \<lparr>sessionStartMs = None, clear_ok = True, forced_message_ok = True, message_ok = True\<rparr>"

definition gate_on :: gate_config where
  "gate_on = DEFAULT_GATE_CONFIG\<lparr>gt_enabled := True\<rparr>"

theorem clear_only_without_live_work_witness:
  "clears (snd (checkGate gate_on all_ok working_inputs fresh_run_state)) \<and>
   \<not> clears (snd (checkGate gate_on all_ok (with_db_signals None (Some False) working_inputs) fresh_run_state))"
proof -
  have "clears (snd (checkGate gate_on all_ok working_inputs fresh_run_state))" by code_simp
  with clear_only_without_live_work [OF this] show ?thesis
    by (simp add: gate_on_def DEFAULT_GATE_CONFIG_def)
qed

text \<open>Runs of sweeps, newest first, with what each sweep did.\<close>

fun gate_run ::
  "gate_config \<Rightarrow> (gate_io \<times> gate_inputs) list \<Rightarrow> gate_run_state \<times> (gate_inputs \<times> restart_event list) list" where
  "gate_run cfg [] = (fresh_run_state, [])"
| "gate_run cfg ((io, i) # h) =
     (let (st, past) = gate_run cfg h; (st', evs) = checkGate cfg io i st in (st', (i, evs) # past))"

definition under_threshold :: "gate_config \<Rightarrow> gate_inputs \<Rightarrow> bool" where
  "under_threshold cfg i \<longleftrightarrow> (case gi_tokens i of Some n \<Rightarrow> n < thresholdTokens cfg | None \<Rightarrow> False)"

text \<open>\<open>blocked_since cfg past b\<close>, newest sweep first.\<close>

fun blocked_since :: "gate_config \<Rightarrow> (gate_inputs \<times> restart_event list) list \<Rightarrow> rat \<Rightarrow> bool" where
  "blocked_since cfg [] b \<longleftrightarrow> False"
| "blocked_since cfg ((i, evs) # past) b \<longleftrightarrow>
     gi_now i = b \<and> gi_tokens i \<noteq> None \<and> \<not> under_threshold cfg i \<or>
     \<not> under_threshold cfg i \<and> ClearSent \<notin> set evs \<and> blocked_since cfg past b"

lemma alert_has_streak:
  "gd_action (decideGate i cfg first) = GateBlockAlert \<Longrightarrow> 0 < persistentBlockAlertMs cfg \<Longrightarrow>
     \<exists>b. first = Some b \<and> persistentBlockAlertMs cfg \<le> gi_now i - b"
  using decideGate_alert [of i cfg first] by (cases first) (auto simp: blocked_for_def)

lemma checkGate_first:
  assumes "gt_enabled cfg" and "0 < persistentBlockAlertMs cfg"
    and "firstBlockedAt (fst (checkGate cfg io i st)) = Some b"
  shows "gi_now i = b \<and> gi_tokens i \<noteq> None \<and> \<not> under_threshold cfg i \<or>
    \<not> under_threshold cfg i \<and> ClearSent \<notin> set (snd (checkGate cfg io i st)) \<and> firstBlockedAt st = Some b"
proof -
  let ?st = "resetStreakIfBelowThreshold (resetStreakIfPreviousSession st (sessionStartMs io))
      (gi_tokens i) (thresholdTokens cfg)"
  have under: "\<not> under_threshold cfg i \<and> firstBlockedAt st = Some c" if "firstBlockedAt ?st = Some c" for c
    using resets_first [OF that] by (auto simp: under_threshold_def split: option.splits)
  show ?thesis
  proof (cases "gd_action (decideGate i cfg (firstBlockedAt ?st))")
    case GateAllow
    with assms have "firstBlockedAt ?st = Some b" and "ClearSent \<notin> set (snd (checkGate cfg io i st))"
      by (auto simp: checkGate_def Let_def split: if_splits)
    with under show ?thesis by blast
  next
    case GateBlock
    then have quiet: "ClearSent \<notin> set (snd (checkGate cfg io i st))"
      by (auto simp: checkGate_def Let_def split: option.splits)
    show ?thesis
    proof (cases "firstBlockedAt ?st")
      case None
      with GateBlock assms show ?thesis
        by (auto simp: checkGate_def Let_def under_threshold_def split: option.splits if_splits)
    next
      case (Some c)
      with GateBlock assms have "b = c" by (simp add: checkGate_def Let_def)
      with Some under quiet show ?thesis by blast
    qed
  next
    case GateBlockAlert
    then obtain c where c: "firstBlockedAt ?st = Some c" using alert_has_streak assms(2) by blast
    have "b = c"
      using GateBlockAlert assms(1,3) c
      by (auto simp: checkGate_def Let_def gate_alert_def split: if_splits)
    moreover have "ClearSent \<notin> set (snd (checkGate cfg io i st))"
      using GateBlockAlert by (auto simp: checkGate_def Let_def split: prod.splits)
        (metis gate_alert_events(1) snd_conv)
    ultimately show ?thesis using under c by blast
  qed
qed

lemma gate_run_streak:
  assumes "gt_enabled cfg" and "0 < persistentBlockAlertMs cfg"
    and "gate_run cfg h = (st, past)" and "firstBlockedAt st = Some b"
  shows "blocked_since cfg past b"
  using assms(3,4)
proof (induction h arbitrary: st past)
  case Nil
  then show ?case by (auto simp: fresh_run_state_def)
next
  case (Cons x h)
  obtain io i where x: "x = (io, i)" by (cases x)
  obtain st0 past0 where r: "gate_run cfg h = (st0, past0)" by (cases "gate_run cfg h")
  with Cons.prems x have "st = fst (checkGate cfg io i st0)" "past = (i, snd (checkGate cfg io i st0)) # past0"
    by (auto split: prod.splits)
  with checkGate_first [OF assms(1,2), of io i st0 b] Cons.IH [OF r] Cons.prems(2) show ?case by auto
qed

lemma alert_origin:
  assumes "gt_enabled cfg" and "0 < persistentBlockAlertMs cfg"
    and "AlertSent r m \<in> set (snd (checkGate cfg io i st))"
  shows "\<exists>b. firstBlockedAt st = Some b \<and> m = gi_now i - b \<and> persistentBlockAlertMs cfg \<le> m \<and>
    \<not> under_threshold cfg i \<and> \<not> streakBelongsToPreviousSession (Some b) (sessionStartMs io)"
proof -
  let ?st = "resetStreakIfBelowThreshold (resetStreakIfPreviousSession st (sessionStartMs io))
      (gi_tokens i) (thresholdTokens cfg)"
  have a: "gd_action (decideGate i cfg (firstBlockedAt ?st)) = GateBlockAlert"
    using assms by (auto simp: checkGate_def Let_def split: gate_action.splits if_splits option.splits)
  then obtain b where b: "firstBlockedAt ?st = Some b" "persistentBlockAlertMs cfg \<le> gi_now i - b"
    using alert_has_streak assms(2) by blast
  have "m = blocked_for (firstBlockedAt ?st) (gi_now i)"
    using a assms(1,3)
    by (auto simp: checkGate_def Let_def gate_alert_def split: if_splits prod.splits)
  with resets_first [OF b(1)] b show ?thesis
    by (auto simp: blocked_for_def under_threshold_def split: option.splits)
qed

text \<open>
  an alert means a continuous block. In a run of sweeps from a fresh state, a persistent-block
  alert names a streak that began at an earlier sweep with the context at or over the threshold, at
  least \<open>persistentBlockAlertMs\<close> ago; since then no sweep saw the context under the threshold and
  the normal path cleared nothing, and the present session is not younger than the streak.
\<close>

theorem alert_after_continuous_block:
  assumes "gt_enabled cfg" and "0 < persistentBlockAlertMs cfg" and "gate_run cfg h = (st, past)"
    and "AlertSent r m \<in> set (snd (checkGate cfg io i st))"
  shows "persistentBlockAlertMs cfg \<le> m \<and> \<not> under_threshold cfg i \<and> blocked_since cfg past (gi_now i - m) \<and>
    (\<forall>s. sessionStartMs io = Some s \<longrightarrow> s - SESSION_START_TOLERANCE_MS \<le> gi_now i - m)"
proof -
  obtain b where "firstBlockedAt st = Some b" "m = gi_now i - b" "persistentBlockAlertMs cfg \<le> m"
    "\<not> under_threshold cfg i" "\<not> streakBelongsToPreviousSession (Some b) (sessionStartMs io)"
    using alert_origin [OF assms(1,2,4)] by blast
  with gate_run_streak [OF assms(1-3), of b] show ?thesis
    by (auto simp: streakBelongsToPreviousSession_def)
qed

definition busy_at :: "rat \<Rightarrow> gate_inputs" where
  "busy_at t = working_inputs\<lparr>gi_now := t, paneState := Some PBusy\<rparr>"

theorem alert_after_continuous_block_witness:
  "let past = snd (gate_run gate_on [(all_ok, busy_at 60000), (all_ok, busy_at 0)])
   in blocked_since gate_on past (7200000 - 7200000)"
proof -
  let ?h = "[(all_ok, busy_at 60000), (all_ok, busy_at 0)]"
  have "AlertSent (PaneMidTurn PBusy) 7200000
      \<in> set (snd (checkGate gate_on all_ok (busy_at 7200000) (fst (gate_run gate_on ?h))))"
    by code_simp
  from alert_after_continuous_block [OF _ _ _ this, where h = ?h and past = "snd (gate_run gate_on ?h)"] show ?thesis
    by (simp add: gate_on_def DEFAULT_GATE_CONFIG_def busy_at_def Let_def del: gate_run.simps)
qed

text \<open>
  the forced \<open>/clear\<close> ignores the hard guard. The decision never allows a clear while the hard
  guard is in the middle of a handoff, but once the block has lasted \<open>forceRestartAfterMs\<close> with an
  idle pane and nothing else in flight, the sweep sends \<open>/clear\<close> all the same, under the hard guard's
  feet.
\<close>

theorem forced_clear_ignores_hard_guard:
  assumes "gt_enabled cfg" and "gi_tokens i = Some n" and "thresholdTokens cfg \<le> n" and "guard_armed i"
    and "firstBlockedAt st = Some b" and "\<not> streakBelongsToPreviousSession (Some b) (sessionStartMs io)"
    and "shouldForceRestart i cfg (Some b)" and "persistentBlockAlertMs cfg \<le> forceRestartAfterMs cfg" and "clear_ok io"
  shows "ForcedClearSent \<in> set (snd (checkGate cfg io i st)) \<and>
    gd_reason (decideGate i cfg (Some b)) = HardGuardArmed (hardGuardPhase i)"
proof -
  have "resetStreakIfBelowThreshold (resetStreakIfPreviousSession st (sessionStartMs io))
      (gi_tokens i) (thresholdTokens cfg) = st"
    using assms by (simp add: resetStreakIfBelowThreshold_def resetStreakIfPreviousSession_def)
  moreover have d: "decideGate i cfg (Some b) = gate_block (Some b) (gi_now i) cfg (HardGuardArmed (hardGuardPhase i))"
    using assms by (simp add: decideGate_def)
  moreover have "gd_action (decideGate i cfg (Some b)) = GateBlockAlert"
    using assms(7,8) d by (auto simp: shouldForceRestart_iff blocked_for_def)
  ultimately show ?thesis
    using assms by (auto simp: checkGate_def Let_def gate_block_def split: prod.split)
qed

theorem forced_clear_ignores_hard_guard_witness:
  "ForcedClearSent \<in> set (snd (checkGate gate_on all_ok (working_inputs\<lparr>hardGuardPhase := ''await-handoff''\<rparr>)
     (fresh_run_state\<lparr>firstBlockedAt := Some 0\<rparr>)))"
proof -
  let ?i = "working_inputs\<lparr>hardGuardPhase := ''await-handoff''\<rparr>"
  have "shouldForceRestart ?i gate_on (Some 0)" by code_simp
  then show ?thesis
    using forced_clear_ignores_hard_guard [of gate_on ?i 450000 "fresh_run_state\<lparr>firstBlockedAt := Some 0\<rparr>" 0 all_ok]
    by (simp add: gate_on_def DEFAULT_GATE_CONFIG_def working_inputs_def guard_armed_def all_ok_def
        streakBelongsToPreviousSession_def)
qed

end
