(* ===== verification/ModelFallback.thy ===== *)
theory ModelFallback
  imports JsonConfig
begin

text \<open>
  Model fallback on a usage limit: settings, ladder and decision of \<open>src/model-fallback.ts\<close> and one
  sweep of one agent in \<open>src/web/model-fallback-runner.ts\<close>. The two banner detectors read the pane
  text; what they answer is part of the tick. Times are milliseconds.
\<close>

section \<open>Settings\<close>

definition DEFAULT_MODEL_CHAIN :: "string list" where
  "DEFAULT_MODEL_CHAIN = [''claude-opus-5'', ''claude-sonnet-5'', ''claude-haiku-4-5-20251001'']"

record model_fallback_config =
  mf_enabled :: bool
  mf_chain :: "string list"
  revertAfterMinutes :: rat

text \<open>The default window (330 minutes unless the environment sets another) is an argument.\<close>

definition clean_chain :: "jsval \<Rightarrow> string list option" where
  "clean_chain v =
     (case v of
        JArr xs \<Rightarrow>
          (let cleaned = concat (map (\<lambda>x. case x of JStr s \<Rightarrow> if js_trim s \<noteq> [] then [s] else [] | _ \<Rightarrow> []) xs)
           in if length cleaned \<ge> 2 then Some cleaned else None)
      | _ \<Rightarrow> None)"

definition normalizeModelFallbackConfig :: "rat \<Rightarrow> jsval \<Rightarrow> model_fallback_config" where
  "normalizeModelFallbackConfig dflt raw =
     \<lparr>mf_enabled = is_true (js_prop raw ''enabled''),
      mf_chain = (case clean_chain (js_prop raw ''chain'') of Some c \<Rightarrow> c | None \<Rightarrow> DEFAULT_MODEL_CHAIN),
      revertAfterMinutes =
        (case finite_num (js_prop raw ''revertAfterMinutes'') of
           Some x \<Rightarrow> (if x > 0 then js_floor x else dflt) | None \<Rightarrow> dflt)\<rparr>"

section \<open>Ladder and decision\<close>

text \<open>\<open>chain.indexOf(x)\<close>.\<close>

fun index_in :: "'a \<Rightarrow> 'a list \<Rightarrow> nat option" where
  "index_in x [] = None"
| "index_in x (y # ys) = (if x = y then Some 0 else map_option Suc (index_in x ys))"

definition ladderFromPrimary :: "string \<Rightarrow> string list \<Rightarrow> string list" where
  "ladderFromPrimary primary chain =
     (if length chain < 2 then [primary]
      else (case index_in primary chain of
              Some i \<Rightarrow> drop i chain
            | None \<Rightarrow> primary # drop 1 chain))"

definition nextFallbackModel :: "string \<Rightarrow> string list \<Rightarrow> string option" where
  "nextFallbackModel current chain =
     (if length chain < 2 then None
      else (case index_in current chain of
              None \<Rightarrow> Some (chain ! 1)
            | Some i \<Rightarrow> if i \<ge> length chain - 1 then None else Some (chain ! (i + 1))))"

record fallback_facts =
  limitDetected :: bool
  currentModel :: string
  f_chain :: "string list"
  downgradedAt :: "rat option"
  f_now :: rat
  revertAfterMs :: rat
  f_lastSwitch :: "rat option"
  cooldownMs :: rat

datatype model_action = MNone | Downgrade string | Revert string

definition decideModelAction :: "fallback_facts \<Rightarrow> model_action" where
  "decideModelAction f =
     (if limitDetected f
      then (if (case f_lastSwitch f of Some l \<Rightarrow> cooldownMs f \<noteq> 0 \<and> f_now f - l < cooldownMs f | None \<Rightarrow> False)
            then MNone
            else (case nextFallbackModel (currentModel f) (f_chain f) of
                    Some m \<Rightarrow> if m \<noteq> [] \<and> m \<noteq> currentModel f then Downgrade m else MNone
                  | None \<Rightarrow> MNone))
      else (case downgradedAt f of
              Some d \<Rightarrow>
                if f_now f - d \<ge> revertAfterMs f
                then (case f_chain f of
                        p # _ \<Rightarrow> if p \<noteq> [] \<and> currentModel f \<noteq> p then Revert p else MNone
                      | [] \<Rightarrow> MNone)
                else MNone
            | None \<Rightarrow> MNone))"

section \<open>The runner\<close>

definition DEFAULT_SWITCH_COOLDOWN_MS :: rat where "DEFAULT_SWITCH_COOLDOWN_MS = 10 * 60000"
definition MODEL_UNAVAILABLE_MIN_CONSECUTIVE :: nat where "MODEL_UNAVAILABLE_MIN_CONSECUTIVE = 2"

record overlay =
  ov_primary :: string
  ov_current :: string
  ov_downgradedAt :: rat

record fallback_state =
  fs_overlay :: "overlay option"
  fs_lastSwitch :: "rat option"
  fs_streak :: nat

text \<open>What the pane shows: the two detectors and idleness; \<open>None\<close> is an unreadable pane.\<close>

record pane_view =
  usage_limit :: bool
  model_unavailable :: bool
  looks_idle :: bool

record fallback_tick =
  ft_now :: rat
  ft_main :: bool
  ft_running :: bool
  ft_configured :: string
  ft_pane :: "pane_view option"
  ft_revertAfterMs :: rat
  ft_chain :: "string list"
  ft_allowDowngrade :: bool
  ft_restart_ok :: bool

definition effective_model :: "fallback_tick \<Rightarrow> fallback_state \<Rightarrow> string" where
  "effective_model t s = (case fs_overlay s of Some ov \<Rightarrow> ov_current ov | None \<Rightarrow> ft_configured t)"

definition drop_stale_overlay :: "fallback_tick \<Rightarrow> fallback_state \<Rightarrow> fallback_state" where
  "drop_stale_overlay t s =
     (case fs_overlay s of
        Some ov \<Rightarrow> if ov_current ov = ft_configured t then s\<lparr>fs_overlay := None\<rparr> else s
      | None \<Rightarrow> s)"

definition limit_seen :: "fallback_tick \<Rightarrow> pane_view \<Rightarrow> nat \<Rightarrow> bool \<times> nat" where
  "limit_seen t pane streak =
     (let raw = (ft_allowDowngrade t \<and> model_unavailable pane);
          n = (if raw then Suc streak else 0)
      in (ft_allowDowngrade t \<and> (usage_limit pane \<or> n \<ge> MODEL_UNAVAILABLE_MIN_CONSECUTIVE), n))"

definition last_switch :: "fallback_state \<Rightarrow> rat option" where
  "last_switch s =
     (let m = max (case fs_overlay s of Some ov \<Rightarrow> ov_downgradedAt ov | None \<Rightarrow> 0)
                  (case fs_lastSwitch s of Some l \<Rightarrow> l | None \<Rightarrow> 0)
      in if m = 0 then None else Some m)"

definition tick_action :: "fallback_tick \<Rightarrow> bool \<Rightarrow> fallback_state \<Rightarrow> model_action" where
  "tick_action t limited s = decideModelAction
     \<lparr>limitDetected = limited, currentModel = effective_model t s,
      f_chain = ladderFromPrimary (ft_configured t) (ft_chain t),
      downgradedAt = map_option ov_downgradedAt (fs_overlay s), f_now = ft_now t,
      revertAfterMs = ft_revertAfterMs t, f_lastSwitch = last_switch s, cooldownMs = DEFAULT_SWITCH_COOLDOWN_MS\<rparr>"

definition checkFallback :: "fallback_tick \<Rightarrow> fallback_state \<Rightarrow> fallback_state \<times> model_action" where
  "checkFallback t s0 =
     (if \<not> ft_main t \<and> \<not> ft_running t
      then ((case fs_overlay s0 of
               Some ov \<Rightarrow>
                 if ov_current ov = ft_configured t \<or> ft_now t - ov_downgradedAt ov \<ge> ft_revertAfterMs t
                 then s0\<lparr>fs_overlay := None\<rparr> else s0
             | None \<Rightarrow> s0), MNone)
      else (case ft_pane t of
              None \<Rightarrow> (s0\<lparr>fs_streak := 0\<rparr>, MNone)
            | Some pane \<Rightarrow>
                (let (limited, n) = limit_seen t pane (fs_streak s0);
                     s = drop_stale_overlay t (s0\<lparr>fs_streak := n\<rparr>);
                     a = tick_action t limited s
                 in if a = MNone then (s, MNone)
                    else if \<not> looks_idle pane then (s, MNone)
                    else if \<not> ft_restart_ok t then (s, MNone)
                    else (s\<lparr>fs_overlay := (case a of
                                Downgrade m \<Rightarrow> Some \<lparr>ov_primary = ft_configured t, ov_current = m,
                                                     ov_downgradedAt = ft_now t\<rparr>
                              | _ \<Rightarrow> None),
                            fs_lastSwitch := Some (ft_now t), fs_streak := 0\<rparr>, a))))"

section \<open>Lemmas\<close>

lemma index_in_Some: "index_in x xs = Some i \<Longrightarrow> i < length xs \<and> xs ! i = x"
  by (induction xs arbitrary: i) (auto split: if_splits simp: nth_Cons split: nat.splits)

lemma index_in_None: "index_in x xs = None \<longleftrightarrow> x \<notin> set xs"
  by (induction xs) auto

lemma index_in_nth: "distinct xs \<Longrightarrow> i < length xs \<Longrightarrow> index_in (xs ! i) xs = Some i"
  by (induction xs arbitrary: i) (auto simp: nth_Cons split: nat.splits)

lemma ladder_head: "\<exists>rest. ladderFromPrimary primary chain = primary # rest"
proof (cases "index_in primary chain")
  case (Some i)
  with index_in_Some [OF Some] show ?thesis
    by (auto simp: ladderFromPrimary_def Cons_nth_drop_Suc [symmetric])
qed (simp add: ladderFromPrimary_def)

lemma ladder_distinct: "distinct chain \<Longrightarrow> distinct (ladderFromPrimary primary chain)"
  by (cases chain) (auto simp: ladderFromPrimary_def index_in_None distinct_drop split: option.splits)

lemma ladder_below: "set (ladderFromPrimary primary chain) \<subseteq> insert primary (set chain)"
  by (auto simp: ladderFromPrimary_def split: option.splits if_splits dest: in_set_dropD)

text \<open>Position on a ladder; a model that is not on it counts as the top.\<close>

definition rung :: "string list \<Rightarrow> string \<Rightarrow> nat" where
  "rung ladder m = (case index_in m ladder of Some i \<Rightarrow> i | None \<Rightarrow> 0)"

lemma next_is_lower:
  assumes "nextFallbackModel current ladder = Some m" and "distinct ladder"
  shows "rung ladder m = Suc (rung ladder current) \<and> m \<in> set ladder"
  using assms index_in_nth [OF assms(2)]
  by (auto simp: nextFallbackModel_def rung_def split: if_splits option.splits)

lemma effective_drop [simp]:
  "effective_model t (drop_stale_overlay t (s\<lparr>fs_streak := n\<rparr>)) = effective_model t s"
  "fs_lastSwitch (drop_stale_overlay t (s\<lparr>fs_streak := n\<rparr>)) = fs_lastSwitch s"
  by (auto simp: drop_stale_overlay_def effective_model_def split: option.splits)

lemma overlay_drop:
  "fs_overlay (drop_stale_overlay t (s\<lparr>fs_streak := n\<rparr>)) = Some ov \<Longrightarrow> fs_overlay s = Some ov"
  by (auto simp: drop_stale_overlay_def split: option.splits if_splits)

lemma tick_action_downgrade:
  assumes "tick_action t limited s = Downgrade m" and "distinct (ft_chain t)"
  shows "limited \<and> m \<in> set (ladderFromPrimary (ft_configured t) (ft_chain t)) \<and>
    rung (ladderFromPrimary (ft_configured t) (ft_chain t)) m =
      Suc (rung (ladderFromPrimary (ft_configured t) (ft_chain t)) (effective_model t s)) \<and>
    (\<forall>l. fs_lastSwitch s = Some l \<longrightarrow> 0 < l \<longrightarrow> DEFAULT_SWITCH_COOLDOWN_MS \<le> ft_now t - l)"
proof -
  have "limited" and nxt: "nextFallbackModel (effective_model t s) (ladderFromPrimary (ft_configured t) (ft_chain t)) = Some m"
    and cool: "\<forall>l. last_switch s = Some l \<longrightarrow> DEFAULT_SWITCH_COOLDOWN_MS \<le> ft_now t - l"
    using assms(1)
    by (auto simp: tick_action_def decideModelAction_def DEFAULT_SWITCH_COOLDOWN_MS_def
        split: if_splits option.splits list.splits)
  have "DEFAULT_SWITCH_COOLDOWN_MS \<le> ft_now t - l" if "fs_lastSwitch s = Some l" "0 < l" for l
  proof -
    let ?k = "max (case fs_overlay s of Some ov \<Rightarrow> ov_downgradedAt ov | None \<Rightarrow> 0) l"
    have "last_switch s = Some ?k" using that by (simp add: last_switch_def Let_def max_def)
    with cool have "DEFAULT_SWITCH_COOLDOWN_MS \<le> ft_now t - ?k" by blast
    also have "\<dots> \<le> ft_now t - l" by simp
    finally show ?thesis .
  qed
  with \<open>limited\<close> next_is_lower [OF nxt ladder_distinct [OF assms(2)]] show ?thesis by blast
qed

lemma tick_action_revert:
  "tick_action t limited s = Revert m \<Longrightarrow>
     \<not> limited \<and> m = ft_configured t \<and>
     (\<exists>ov. fs_overlay s = Some ov \<and> ft_revertAfterMs t \<le> ft_now t - ov_downgradedAt ov)"
  using ladder_head [of "ft_configured t" "ft_chain t"]
  by (auto simp: tick_action_def decideModelAction_def split: if_splits option.splits list.splits)

section \<open>Properties\<close>

text \<open>
  fallback walks the agent's own ladder. For a chain without repetitions, a sweep that downgrades
  moves the agent exactly one rung down the ladder that starts at the operator's model, on an idle
  pane, with a limit in sight (a model-unavailable error has to show on two sweeps in a row) and not
  within the cooldown after the last switch; a sweep that reverts lands on the operator's model, after
  the revert window and with no limit in sight. A sweep whose restart fails leaves the model as it was.
\<close>

theorem fallback_walks_ladder:
  assumes "distinct (ft_chain t)" and "checkFallback t s = (s', a)"
  shows "let ladder = ladderFromPrimary (ft_configured t) (ft_chain t) in
    (case a of
       Downgrade m \<Rightarrow>
         m \<in> set ladder \<and> rung ladder m = Suc (rung ladder (effective_model t s)) \<and> effective_model t s' = m \<and>
         (\<exists>pane. ft_pane t = Some pane \<and> looks_idle pane \<and>
            (usage_limit pane \<or> model_unavailable pane \<and> fs_streak s \<ge> 1)) \<and>
         (\<forall>l. fs_lastSwitch s = Some l \<longrightarrow> 0 < l \<longrightarrow> DEFAULT_SWITCH_COOLDOWN_MS \<le> ft_now t - l)
     | Revert m \<Rightarrow>
         m = ft_configured t \<and> effective_model t s' = m \<and>
         (\<exists>ov. fs_overlay s = Some ov \<and> ft_revertAfterMs t \<le> ft_now t - ov_downgradedAt ov) \<and>
         (\<exists>pane. ft_pane t = Some pane \<and> looks_idle pane \<and> (ft_allowDowngrade t \<longrightarrow> \<not> usage_limit pane))
     | MNone \<Rightarrow> ft_main t \<or> ft_running t \<longrightarrow> effective_model t s' = effective_model t s)"
proof (cases a)
  case MNone
  with assms(2) show ?thesis
    by (auto simp: checkFallback_def Let_def effective_model_def split: if_splits option.splits prod.splits)
       (auto simp: drop_stale_overlay_def split: option.splits if_splits)
next
  case (Downgrade m)
  then obtain pane limited n where p: "ft_pane t = Some pane" "limit_seen t pane (fs_streak s) = (limited, n)"
    and act: "tick_action t limited (drop_stale_overlay t (s\<lparr>fs_streak := n\<rparr>)) = Downgrade m"
    and ok: "looks_idle pane" "ft_restart_ok t" "\<not> (\<not> ft_main t \<and> \<not> ft_running t)"
    using assms(2) by (auto simp: checkFallback_def Let_def split: if_splits option.splits prod.splits)
  have "effective_model t s' = m"
    using assms(2) p ok act by (auto simp: checkFallback_def Let_def effective_model_def)
  moreover have "limited \<Longrightarrow> usage_limit pane \<or> model_unavailable pane \<and> fs_streak s \<ge> 1"
    using p(2) by (auto simp: limit_seen_def Let_def MODEL_UNAVAILABLE_MIN_CONSECUTIVE_def split: if_splits)
  ultimately show ?thesis
    using tick_action_downgrade [OF act assms(1)] p(1) ok(1) Downgrade by (auto simp: Let_def)
next
  case (Revert m)
  then obtain pane limited n where p: "ft_pane t = Some pane" "limit_seen t pane (fs_streak s) = (limited, n)"
    and act: "tick_action t limited (drop_stale_overlay t (s\<lparr>fs_streak := n\<rparr>)) = Revert m"
    and ok: "looks_idle pane" "ft_restart_ok t" "\<not> (\<not> ft_main t \<and> \<not> ft_running t)"
    using assms(2) by (auto simp: checkFallback_def Let_def split: if_splits option.splits prod.splits)
  have "effective_model t s' = ft_configured t"
    using assms(2) p ok act by (auto simp: checkFallback_def Let_def effective_model_def)
  moreover have "\<not> limited \<Longrightarrow> ft_allowDowngrade t \<Longrightarrow> \<not> usage_limit pane"
    using p(2) by (auto simp: limit_seen_def Let_def)
  ultimately show ?thesis
    using tick_action_revert [OF act] p(1) ok(1) Revert by (auto simp: Let_def dest: overlay_drop)
qed

definition limit_tick :: fallback_tick where
  "limit_tick = \<lparr>ft_now = 1000, ft_main = False, ft_running = True, ft_configured = ''claude-opus-5'',
     ft_pane = Some \<lparr>usage_limit = True, model_unavailable = False, looks_idle = True\<rparr>,
     ft_revertAfterMs = 19800000, ft_chain = DEFAULT_MODEL_CHAIN, ft_allowDowngrade = True, ft_restart_ok = True\<rparr>"

definition no_overlay :: fallback_state where
  "no_overlay = \<lparr>fs_overlay = None, fs_lastSwitch = None, fs_streak = 0\<rparr>"

theorem fallback_walks_ladder_witness:
  "effective_model limit_tick (fst (checkFallback limit_tick no_overlay)) = ''claude-sonnet-5''"
proof -
  have c: "snd (checkFallback limit_tick no_overlay) = Downgrade ''claude-sonnet-5''" by code_simp
  have "checkFallback limit_tick no_overlay =
      (fst (checkFallback limit_tick no_overlay), Downgrade ''claude-sonnet-5'')"
    using c by (metis prod.collapse)
  from fallback_walks_ladder [OF _ this] show ?thesis
    by (simp add: limit_tick_def DEFAULT_MODEL_CHAIN_def Let_def)
qed

end
