(* ===== verification/QuotaGate.thy ===== *)
theory QuotaGate
  imports JsBase
begin

text \<open>
  The quota gate of \<open>src/quota-gate.ts\<close>: whether a piece of work may start now, from the snapshot of
  the shared subscription pool. A field the collector could not fill is \<open>None\<close>; JSON carries neither
  \<open>NaN\<close> nor infinities. Percentages are 0 to 100, times milliseconds, reset times epoch seconds.
\<close>

record quota_window =
  used_percent :: "rat option"
  resets_at :: "rat option"

record quota_snapshot =
  source :: "string option"
  generatedAtMs :: "rat option"
  windows :: "(string \<times> quota_window) list option"

datatype work_class = Free | OwnerFacing | Background

datatype quota_reason =
    NoModelCost | NoSnapshot | UntrustedSource string | NoTimestamp | StaleSnapshot rat
  | NoUsableWindow | OwnerFacingAt rat | Pressure rat | NearReset string rat rat | OkAt rat

datatype quota_action = QRun | QDefer

record quota_decision =
  q_action :: quota_action
  q_reason :: quota_reason
  q_pressure :: "rat option"

definition staleAfterMs :: rat where "staleAfterMs = 20 * 60000"
definition deferAtPercent :: rat where "deferAtPercent = 85"
definition nearResetPercent :: rat where "nearResetPercent = 70"
definition nearResetMs :: rat where "nearResetMs = 30 * 60000"
definition trustedSources :: "string list" where "trustedSources = [''authoritative'', ''authoritative_cached'']"

fun max_used :: "(string \<times> quota_window) list \<Rightarrow> rat option \<Rightarrow> rat option" where
  "max_used [] m = m"
| "max_used ((k, w) # ws) m =
     (case used_percent w of
        None \<Rightarrow> max_used ws m
      | Some u \<Rightarrow> max_used ws (case m of None \<Rightarrow> Some u | Some x \<Rightarrow> if u > x then Some u else Some x))"

definition quotaPressure :: "quota_snapshot option \<Rightarrow> rat option" where
  "quotaPressure snapshot =
     (case snapshot of
        None \<Rightarrow> None
      | Some s \<Rightarrow> (case windows s of None \<Rightarrow> None | Some ws \<Rightarrow> max_used ws None))"

text \<open>\<open>None\<close>, or the key, percentage and milliseconds to the reset.\<close>

definition near_reset :: "rat \<Rightarrow> quota_window \<Rightarrow> (rat \<times> rat) option" where
  "near_reset now w =
     (case (used_percent w, resets_at w) of
        (Some used, Some resets) \<Rightarrow>
          (let ms = resets * 1000 - now
           in if ms \<le> 0 \<or> ms > nearResetMs then None
              else if used < nearResetPercent then None
              else Some (used, ms))
      | _ \<Rightarrow> None)"

fun soonest :: "rat \<Rightarrow> (string \<times> quota_window) list \<Rightarrow> (string \<times> rat \<times> rat) option \<Rightarrow> (string \<times> rat \<times> rat) option" where
  "soonest now [] best = best"
| "soonest now ((k, w) # ws) best =
     (case near_reset now w of
        None \<Rightarrow> soonest now ws best
      | Some (used, ms) \<Rightarrow>
          soonest now ws (case best of
             None \<Rightarrow> Some (k, used, ms)
           | Some (k', used', ms') \<Rightarrow> if ms < ms' then Some (k, used, ms) else best))"

definition windowResettingSoon :: "quota_snapshot \<Rightarrow> rat \<Rightarrow> (string \<times> rat \<times> rat) option" where
  "windowResettingSoon s now = soonest now (case windows s of Some ws \<Rightarrow> ws | None \<Rightarrow> []) None"

definition run_now :: "quota_reason \<Rightarrow> rat option \<Rightarrow> quota_decision" where
  "run_now r p = \<lparr>q_action = QRun, q_reason = r, q_pressure = p\<rparr>"

definition defer_now :: "quota_reason \<Rightarrow> rat \<Rightarrow> quota_decision" where
  "defer_now r p = \<lparr>q_action = QDefer, q_reason = r, q_pressure = Some p\<rparr>"

definition snapshot_source :: "quota_snapshot \<Rightarrow> string" where
  "snapshot_source s = js_lower (case source s of Some x \<Rightarrow> x | None \<Rightarrow> [])"

definition decideQuotaAction :: "quota_snapshot option \<Rightarrow> rat \<Rightarrow> work_class \<Rightarrow> quota_decision" where
  "decideQuotaAction snapshot now wc =
     (if wc = Free then run_now NoModelCost None
      else (case snapshot of
              None \<Rightarrow> run_now NoSnapshot None
            | Some s \<Rightarrow>
                if snapshot_source s \<notin> set trustedSources
                then run_now (UntrustedSource (if snapshot_source s = [] then ''none'' else snapshot_source s)) None
                else (case generatedAtMs s of
                        None \<Rightarrow> run_now NoTimestamp None
                      | Some g \<Rightarrow>
                          if now - g > staleAfterMs then run_now (StaleSnapshot (js_round ((now - g) / 60000))) None
                          else (case quotaPressure (Some s) of
                                  None \<Rightarrow> run_now NoUsableWindow None
                                | Some p \<Rightarrow>
                                    if wc = OwnerFacing then run_now (OwnerFacingAt p) (Some p)
                                    else if p \<ge> deferAtPercent then defer_now (Pressure p) p
                                    else (case windowResettingSoon s now of
                                            Some (k, used, ms) \<Rightarrow> defer_now (NearReset k used (js_round (ms / 60000))) p
                                          | None \<Rightarrow> run_now (OkAt p) (Some p))))))"

section \<open>Lemmas\<close>

lemma max_used_None: "max_used ws m = None \<longleftrightarrow> m = None \<and> (\<forall>kw \<in> set ws. used_percent (snd kw) = None)"
  by (induction ws m rule: max_used.induct) (auto split: option.splits)

lemma max_used_ge:
  "max_used ws m = Some p \<Longrightarrow> (p \<ge> c \<longleftrightarrow> (\<exists>x. m = Some x \<and> x \<ge> c) \<or>
     (\<exists>kw \<in> set ws. \<exists>u. used_percent (snd kw) = Some u \<and> u \<ge> c))"
  by (induction ws m rule: max_used.induct) (auto split: option.splits if_splits)

lemma soonest_None: "soonest now ws best = None \<longleftrightarrow> best = None \<and> (\<forall>kw \<in> set ws. near_reset now (snd kw) = None)"
  by (induction now ws best rule: soonest.induct) (auto split: option.splits)

lemma near_reset_iff:
  "near_reset now w \<noteq> None \<longleftrightarrow> (\<exists>u r. used_percent w = Some u \<and> resets_at w = Some r \<and>
     0 < r * 1000 - now \<and> r * 1000 - now \<le> nearResetMs \<and> nearResetPercent \<le> u)"
  by (auto simp: near_reset_def Let_def split: option.splits)

section \<open>Properties\<close>

text \<open>
  the gate fails open. Work is held back exactly when it is background work and a snapshot from a
  trusted source, at most 20 minutes old, shows either a window at 85 percent or more, or a window at
  70 percent or more that resets within the next 30 minutes. Shell commands and everything the owner
  waits for always run, and so does anything when the snapshot is missing, stale, untrusted or empty.
\<close>

theorem quota_defers_exactly:
  "q_action (decideQuotaAction snapshot now wc) = QDefer \<longleftrightarrow>
     wc = Background \<and>
     (\<exists>s g ws. snapshot = Some s \<and> snapshot_source s \<in> set trustedSources \<and> generatedAtMs s = Some g \<and>
        now - g \<le> staleAfterMs \<and> windows s = Some ws \<and>
        (\<exists>(k, w) \<in> set ws. \<exists>u. used_percent w = Some u \<and>
           (u \<ge> deferAtPercent \<or>
            (\<exists>r. resets_at w = Some r \<and> 0 < r * 1000 - now \<and> r * 1000 - now \<le> nearResetMs \<and> u \<ge> nearResetPercent))))"
proof (cases "wc = Background \<and> (\<exists>s g ws. snapshot = Some s \<and> snapshot_source s \<in> set trustedSources \<and>
    generatedAtMs s = Some g \<and> now - g \<le> staleAfterMs \<and> windows s = Some ws)")
  case False
  then show ?thesis
    by (cases wc)
       (auto simp: decideQuotaAction_def run_now_def quotaPressure_def not_less split: option.splits if_splits)
next
  case True
  then obtain s g ws where s: "wc = Background" "snapshot = Some s" "snapshot_source s \<in> set trustedSources"
    "generatedAtMs s = Some g" "now - g \<le> staleAfterMs" "windows s = Some ws" by auto
  have d: "q_action (decideQuotaAction snapshot now wc) = QDefer \<longleftrightarrow>
      (\<exists>p. max_used ws None = Some p \<and> (p \<ge> deferAtPercent \<or> soonest now ws None \<noteq> None))"
    using s by (auto simp: decideQuotaAction_def run_now_def defer_now_def quotaPressure_def windowResettingSoon_def
        split: option.splits)
  have soon: "soonest now ws None \<noteq> None \<longleftrightarrow> (\<exists>kw \<in> set ws. near_reset now (snd kw) \<noteq> None)"
    by (auto simp: soonest_None)
  have "soonest now ws None \<noteq> None \<Longrightarrow> max_used ws None \<noteq> None"
    unfolding soon max_used_None near_reset_iff by force
  with d have "q_action (decideQuotaAction snapshot now wc) = QDefer \<longleftrightarrow>
      (\<exists>kw \<in> set ws. \<exists>u. used_percent (snd kw) = Some u \<and> u \<ge> deferAtPercent) \<or>
      (\<exists>kw \<in> set ws. near_reset now (snd kw) \<noteq> None)"
    using soon max_used_ge [of ws None _ deferAtPercent] max_used_None [of ws None] by (metis not_None_eq)
  also have "\<dots> \<longleftrightarrow> (\<exists>kw \<in> set ws. \<exists>u. used_percent (snd kw) = Some u \<and>
      (u \<ge> deferAtPercent \<or> (\<exists>r. resets_at (snd kw) = Some r \<and> 0 < r * 1000 - now \<and>
         r * 1000 - now \<le> nearResetMs \<and> u \<ge> nearResetPercent)))"
    unfolding near_reset_iff by blast
  finally show ?thesis using s by (auto simp: case_prod_beta)
qed

end
