(* ===== verification/AgentWatchdog.thy ===== *)
theory AgentWatchdog
  imports JsBase
begin

text \<open>
  The channel-plugin watchdog of a sub-agent: the restart policy of
  \<open>src/web/agent-restart-policy.ts\<close> and the sub-agent branch of the sweep in
  \<open>src/web/channel-monitor.ts\<close>. One \<open>watchdog_sweep\<close> is one pass over one agent; what the pass
  measures (clock, liveness of the plugin, process age, pane, token, outcome of stop and start) is
  the record \<open>wd_tick\<close>. Times are milliseconds.
\<close>

section \<open>Restart policy\<close>

record restart_input =
  processAgeMs :: jsnum
  msSinceLastRestart :: "rat option"
  startupGraceMs :: rat
  restartGraceMs :: rat
  consecutiveFailures :: nat
  maxRestartGraceMs :: "rat option"
  msDown :: rat
  downConfirmMs :: rat
  agentBusy :: bool
  busyDeferMaxMs :: "rat option"

definition effectiveRestartGraceMs :: "rat \<Rightarrow> nat \<Rightarrow> rat option \<Rightarrow> rat" where
  "effectiveRestartGraceMs base failures cap =
     (let grace = base * 2 ^ min failures 30
      in case cap of Some m \<Rightarrow> min grace m | None \<Rightarrow> grace)"

definition shouldAutoRestartDownAgent :: "restart_input \<Rightarrow> bool" where
  "shouldAutoRestartDownAgent i =
     (case processAgeMs i of
        Fin age \<Rightarrow>
          if age < 0 then False
          else if age < startupGraceMs i then False
          else (case msSinceLastRestart i of
                  Some since \<Rightarrow>
                    \<not> since < effectiveRestartGraceMs (restartGraceMs i) (consecutiveFailures i) (maxRestartGraceMs i)
                | None \<Rightarrow> True)
      | _ \<Rightarrow> False)"

datatype down_action = WdRestart | WdAlert | WdAlertBusy | WdSkip

definition AGENT_MAX_RESTART_ATTEMPTS :: nat where "AGENT_MAX_RESTART_ATTEMPTS = 5"

definition decideDownAgentAction :: "restart_input \<Rightarrow> nat \<Rightarrow> down_action" where
  "decideDownAgentAction i attempts =
     (if attempts > 0 \<and> consecutiveFailures i \<ge> attempts
      then (if consecutiveFailures i = attempts then WdAlert else WdSkip)
      else if msDown i < downConfirmMs i then WdSkip
      else if \<not> shouldAutoRestartDownAgent i then WdSkip
      else if agentBusy i
      then (case busyDeferMaxMs i of
              Some c \<Rightarrow> if msDown i \<ge> c then WdAlertBusy else WdSkip
            | None \<Rightarrow> WdSkip)
      else WdRestart)"

section \<open>The sweep over one agent\<close>

definition CHANNEL_RESTART_STAGGER_MS :: rat where "CHANNEL_RESTART_STAGGER_MS = 90000"
definition AGENT_RESTART_GRACE_MS :: rat where "AGENT_RESTART_GRACE_MS = 90000"
definition AGENT_MAX_RESTART_GRACE_MS :: rat where "AGENT_MAX_RESTART_GRACE_MS = 60 * 60 * 1000"
definition AGENT_STARTUP_GRACE_MS :: rat where "AGENT_STARTUP_GRACE_MS = 180000"
definition AGENT_DOWN_CONFIRM_MS :: rat where "AGENT_DOWN_CONFIRM_MS = 150000"
definition AGENT_BUSY_DEFER_MAX_MS :: rat where "AGENT_BUSY_DEFER_MAX_MS = 30 * 60 * 1000"
definition PLUGIN_ABSENT_MAX_RESTART_ATTEMPTS :: nat where "PLUGIN_ABSENT_MAX_RESTART_ATTEMPTS = 1"

text \<open>\<open>NoClaude\<close>: no claude process was found for the session, so nothing was probed.\<close>

datatype plugin_view = NoClaude | PluginUnknown | PluginAlive | PluginDown

record wd_tick =
  wd_now :: rat
  wd_plugin :: plugin_view
  wd_age :: jsnum
  wd_absent :: bool
  wd_busy :: bool
  wd_token :: bool
  wd_stop_ok :: bool
  wd_start_ok :: bool
  wd_after :: rat

text \<open>The maps of the module at one agent's key; \<open>fleetRestartAt\<close> is \<open>lastChannelAgentRestartAt\<close>.\<close>

record wd_state =
  downSince :: "rat option"
  wd_lastRestart :: "rat option"
  restartFailures :: nat
  busyDeferAlerted :: bool
  fleetRestartAt :: rat

datatype wd_event = Restarted | AlertGaveUp | AlertStillBusy

definition attempts_allowed :: "wd_tick \<Rightarrow> nat" where
  "attempts_allowed t = (if wd_absent t then PLUGIN_ABSENT_MAX_RESTART_ATTEMPTS else AGENT_MAX_RESTART_ATTEMPTS)"

definition down_for :: "wd_tick \<Rightarrow> wd_state \<Rightarrow> rat" where
  "down_for t s = wd_now t - (case downSince s of Some d \<Rightarrow> d | None \<Rightarrow> wd_now t)"

definition wd_input :: "wd_tick \<Rightarrow> wd_state \<Rightarrow> restart_input" where
  "wd_input t s =
     \<lparr>processAgeMs = wd_age t, msSinceLastRestart = map_option (\<lambda>l. wd_now t - l) (wd_lastRestart s),
      startupGraceMs = AGENT_STARTUP_GRACE_MS, restartGraceMs = AGENT_RESTART_GRACE_MS,
      consecutiveFailures = restartFailures s, maxRestartGraceMs = Some AGENT_MAX_RESTART_GRACE_MS,
      msDown = down_for t s, downConfirmMs = AGENT_DOWN_CONFIRM_MS, agentBusy = wd_busy t,
      busyDeferMaxMs = Some AGENT_BUSY_DEFER_MAX_MS\<rparr>"

definition mark_down :: "wd_tick \<Rightarrow> wd_state \<Rightarrow> wd_state" where
  "mark_down t s = (if downSince s = None then s\<lparr>downSince := Some (wd_now t)\<rparr> else s)"

text \<open>The restart proper: stop, wait, stamp the fleet, start.\<close>

definition try_restart :: "wd_tick \<Rightarrow> wd_state \<Rightarrow> wd_state \<times> wd_event list" where
  "try_restart t s =
     (if \<not> wd_token t then (s, [])
      else if wd_now t - fleetRestartAt s < CHANNEL_RESTART_STAGGER_MS then (s, [])
      else if \<not> wd_stop_ok t then (s, [])
      else if \<not> wd_start_ok t then (s\<lparr>fleetRestartAt := wd_after t\<rparr>, [])
      else (s\<lparr>fleetRestartAt := wd_after t, wd_lastRestart := Some (wd_after t), downSince := None,
              busyDeferAlerted := False, restartFailures := Suc (restartFailures s)\<rparr>, [Restarted]))"

definition watchdog_sweep :: "wd_tick \<Rightarrow> wd_state \<Rightarrow> wd_state \<times> wd_event list" where
  "watchdog_sweep t s0 =
     (case wd_plugin t of
        NoClaude \<Rightarrow> (s0, [])
      | PluginUnknown \<Rightarrow> (s0, [])
      | PluginAlive \<Rightarrow> (s0\<lparr>downSince := None, restartFailures := 0, busyDeferAlerted := False\<rparr>, [])
      | PluginDown \<Rightarrow>
          (let s = mark_down t s0
           in case decideDownAgentAction (wd_input t s) (attempts_allowed t) of
                WdAlertBusy \<Rightarrow>
                  if busyDeferAlerted s then (s, []) else (s\<lparr>busyDeferAlerted := True\<rparr>, [AlertStillBusy])
              | WdSkip \<Rightarrow> (s, [])
              | WdAlert \<Rightarrow>
                  (s\<lparr>restartFailures := Suc (restartFailures s), downSince := None, busyDeferAlerted := False\<rparr>,
                   [AlertGaveUp])
              | WdRestart \<Rightarrow> try_restart t s))"

fun watchdog_run :: "wd_tick list \<Rightarrow> wd_state \<Rightarrow> wd_state \<times> wd_event list" where
  "watchdog_run [] s = (s, [])"
| "watchdog_run (t # ts) s =
     (let (s', evs) = watchdog_sweep t s; (s'', rest) = watchdog_run ts s' in (s'', evs @ rest))"

section \<open>Lemmas\<close>

lemma grace_le_cap: "effectiveRestartGraceMs b n (Some m) \<le> m"
  by (simp add: effectiveRestartGraceMs_def Let_def)

lemma grace_mono:
  assumes "0 \<le> b" and "m \<le> n"
  shows "effectiveRestartGraceMs b m cap \<le> effectiveRestartGraceMs b n cap"
proof -
  have "b * 2 ^ min m 30 \<le> b * 2 ^ min n 30"
    using assms by (intro mult_left_mono power_increasing) auto
  then show ?thesis
    by (cases cap) (simp_all only: effectiveRestartGraceMs_def Let_def option.case min.mono order_refl)
qed

lemma decide_restart_iff:
  "decideDownAgentAction i n = WdRestart \<longleftrightarrow>
     (n = 0 \<or> consecutiveFailures i < n) \<and> downConfirmMs i \<le> msDown i \<and> shouldAutoRestartDownAgent i \<and> \<not> agentBusy i"
  by (auto simp: decideDownAgentAction_def not_le not_less split: option.splits)

lemma decide_alert_iff:
  "decideDownAgentAction i n = WdAlert \<longleftrightarrow> 0 < n \<and> consecutiveFailures i = n"
  by (auto simp: decideDownAgentAction_def split: option.splits)

lemma decide_past_cap: "0 < n \<Longrightarrow> n < consecutiveFailures i \<Longrightarrow> decideDownAgentAction i n = WdSkip"
  by (simp add: decideDownAgentAction_def)

lemma mark_down_sel [simp]:
  "restartFailures (mark_down t s) = restartFailures s" "wd_lastRestart (mark_down t s) = wd_lastRestart s"
  "busyDeferAlerted (mark_down t s) = busyDeferAlerted s" "fleetRestartAt (mark_down t s) = fleetRestartAt s"
  "downSince (mark_down t s) = Some (case downSince s of Some d \<Rightarrow> d | None \<Rightarrow> wd_now t)"
  by (auto simp: mark_down_def split: option.splits)

lemma wd_input_failures [simp]: "consecutiveFailures (wd_input t s) = restartFailures s"
  by (simp add: wd_input_def)

lemma attempts_pos [simp]: "0 < attempts_allowed t" "attempts_allowed t \<noteq> 0"
  by (simp_all add: attempts_allowed_def PLUGIN_ABSENT_MAX_RESTART_ATTEMPTS_def AGENT_MAX_RESTART_ATTEMPTS_def)

text \<open>What one sweep does to the failure counter, by the event it produces.\<close>

lemma sweep_failures:
  assumes "watchdog_sweep t s = (s', evs)" and "wd_plugin t \<noteq> PluginAlive"
  shows "evs = [Restarted] \<and> restartFailures s < attempts_allowed t \<and> restartFailures s' = Suc (restartFailures s) \<or>
         evs = [AlertGaveUp] \<and> restartFailures s = attempts_allowed t \<and> restartFailures s' = Suc (restartFailures s) \<or>
         (evs = [] \<or> evs = [AlertStillBusy]) \<and> restartFailures s' = restartFailures s"
proof (cases "wd_plugin t")
  case PluginDown
  let ?s = "mark_down t s"
  have f: "restartFailures ?s = restartFailures s" by simp
  show ?thesis
  proof (cases "decideDownAgentAction (wd_input t ?s) (attempts_allowed t)")
    case WdRestart
    then have "restartFailures s < attempts_allowed t" using f by (simp add: decide_restart_iff)
    with WdRestart PluginDown assms f show ?thesis
      by (auto simp: watchdog_sweep_def Let_def try_restart_def split: if_splits)
  next
    case WdAlert
    then have "restartFailures s = attempts_allowed t" using f by (simp add: decide_alert_iff)
    with WdAlert PluginDown assms f show ?thesis by (auto simp: watchdog_sweep_def Let_def)
  qed (use PluginDown assms f in \<open>auto simp: watchdog_sweep_def Let_def split: if_splits\<close>)
qed (use assms in \<open>auto simp: watchdog_sweep_def\<close>)

section \<open>Properties\<close>

definition restarts_in :: "wd_event list \<Rightarrow> nat" where
  "restarts_in evs = length (filter (\<lambda>e. e = Restarted) evs)"

definition give_ups_in :: "wd_event list \<Rightarrow> nat" where
  "give_ups_in evs = length (filter (\<lambda>e. e = AlertGaveUp) evs)"

lemma counts_append [simp]:
  "restarts_in (xs @ ys) = restarts_in xs + restarts_in ys" "give_ups_in (xs @ ys) = give_ups_in xs + give_ups_in ys"
  "restarts_in [] = 0" "give_ups_in [] = 0"
  "restarts_in (e # es) = (if e = Restarted then 1 else 0) + restarts_in es"
  "give_ups_in (e # es) = (if e = AlertGaveUp then 1 else 0) + give_ups_in es"
  by (simp_all add: restarts_in_def give_ups_in_def)

lemma run_counts:
  assumes "\<forall>t \<in> set ts. wd_plugin t \<noteq> PluginAlive \<and> \<not> wd_absent t" and "watchdog_run ts s = (s', evs)"
  shows "restarts_in evs + give_ups_in evs = restartFailures s' - restartFailures s \<and>
    restartFailures s \<le> restartFailures s' \<and>
    (restartFailures s \<le> Suc AGENT_MAX_RESTART_ATTEMPTS \<longrightarrow> restartFailures s' \<le> Suc AGENT_MAX_RESTART_ATTEMPTS) \<and>
    give_ups_in evs = (if restartFailures s \<le> AGENT_MAX_RESTART_ATTEMPTS \<and> AGENT_MAX_RESTART_ATTEMPTS < restartFailures s'
                       then 1 else 0)"
  using assms
proof (induction ts arbitrary: s s' evs)
  case Nil
  then show ?case by simp
next
  case (Cons t ts)
  obtain s1 e1 where one: "watchdog_sweep t s = (s1, e1)" by (cases "watchdog_sweep t s")
  obtain s2 e2 where rest: "watchdog_run ts s1 = (s2, e2)" by (cases "watchdog_run ts s1")
  have out: "s' = s2" "evs = e1 @ e2" using Cons.prems(2) one rest by simp_all
  have a: "attempts_allowed t = AGENT_MAX_RESTART_ATTEMPTS"
    using Cons.prems(1) by (simp add: attempts_allowed_def)
  have "wd_plugin t \<noteq> PluginAlive" using Cons.prems(1) by simp
  from sweep_failures [OF one this] Cons.IH [OF _ rest] Cons.prems(1) a out
  show ?case by (auto split: if_splits)
qed

text \<open>
  a bounded number of restarts per down spell. In a run of sweeps in which the plugin is never
  seen alive and is never confirmed absent, the watchdog restarts the agent at most as often as the
  budget has left (five times from a fresh state), gives up with at most one alert, and restarts
  nothing once that alert is out.
\<close>

theorem restarts_bounded_per_spell:
  assumes "\<forall>t \<in> set ts. wd_plugin t \<noteq> PluginAlive \<and> \<not> wd_absent t" and "restartFailures s \<le> 5"
    and "watchdog_run ts s = (s', evs)"
  shows "restarts_in evs \<le> 5 - restartFailures s \<and> give_ups_in evs \<le> 1 \<and>
    (give_ups_in evs = 1 \<longrightarrow>
       restarts_in evs = 5 - restartFailures s \<and>
       (\<forall>more s'' evs'. (\<forall>t \<in> set more. wd_plugin t \<noteq> PluginAlive \<and> \<not> wd_absent t) \<and>
          watchdog_run more s' = (s'', evs') \<longrightarrow> restarts_in evs' = 0 \<and> give_ups_in evs' = 0))"
proof -
  have c: "AGENT_MAX_RESTART_ATTEMPTS = 5" by (simp add: AGENT_MAX_RESTART_ATTEMPTS_def)
  note r = run_counts [OF assms(1,3)]
  have "restarts_in evs' = 0 \<and> give_ups_in evs' = 0"
    if g: "give_ups_in evs = 1" and m: "\<forall>t \<in> set more. wd_plugin t \<noteq> PluginAlive \<and> \<not> wd_absent t"
      "watchdog_run more s' = (s'', evs')" for more s'' evs'
    using run_counts [OF m] r g assms(2) c by (auto split: if_splits)
  with r assms(2) c show ?thesis by (auto split: if_splits)
qed

definition down_tick :: "rat \<Rightarrow> wd_tick" where
  "down_tick n = \<lparr>wd_now = n, wd_plugin = PluginDown, wd_age = Fin 1000000, wd_absent = False, wd_busy = False,
     wd_token = True, wd_stop_ok = True, wd_start_ok = True, wd_after = n + 10000\<rparr>"

definition quiet_state :: wd_state where
  "quiet_state = \<lparr>downSince = None, wd_lastRestart = None, restartFailures = 0, busyDeferAlerted = False,
     fleetRestartAt = 0\<rparr>"

theorem restarts_bounded_per_spell_witness:
  "let (s, evs) = watchdog_run (map (\<lambda>k. down_tick (of_nat k * 3600000)) [1..<20]) quiet_state
   in restarts_in evs = 5 \<and> give_ups_in evs = 1"
proof -
  let ?ts = "map (\<lambda>k. down_tick (of_nat k * 3600000)) [1..<20]"
  obtain s evs where run: "watchdog_run ?ts quiet_state = (s, evs)" by (cases "watchdog_run ?ts quiet_state")
  have down: "\<forall>t \<in> set ?ts. wd_plugin t \<noteq> PluginAlive \<and> \<not> wd_absent t" by (simp add: down_tick_def)
  have "restartFailures quiet_state \<le> 5" by (simp add: quiet_state_def)
  note b = restarts_bounded_per_spell [OF down this run]
  have "give_ups_in (snd (watchdog_run ?ts quiet_state)) = 1" by code_simp
  with run have "give_ups_in evs = 1" by simp
  with b run show ?thesis by (simp add: quiet_state_def)
qed

text \<open>
  no restart on a suspicion or over live work. A sweep restarts an agent only when the plugin is
  down now and was seen down at least two and a half minutes earlier in the same spell, the claude
  process is older than three minutes, the pane is not busy, the agent has a channel token, the last
  channel restart of the fleet is at least ninety seconds ago and the agent's own last restart at
  least the base grace doubled per failed restart, capped at an hour.
\<close>

theorem restart_is_confirmed:
  assumes "Restarted \<in> set (snd (watchdog_sweep t s))"
  shows "wd_plugin t = PluginDown \<and> (\<exists>d. downSince s = Some d \<and> 150000 \<le> wd_now t - d) \<and>
    (\<exists>age. wd_age t = Fin age \<and> 180000 \<le> age) \<and> \<not> wd_busy t \<and> wd_token t \<and>
    90000 \<le> wd_now t - fleetRestartAt s \<and>
    (\<forall>l. wd_lastRestart s = Some l \<longrightarrow> min (90000 * 2 ^ restartFailures s) 3600000 \<le> wd_now t - l)"
proof -
  have down: "wd_plugin t = PluginDown" using assms by (cases "wd_plugin t") (auto simp: watchdog_sweep_def)
  let ?s = "mark_down t s"
  have act: "decideDownAgentAction (wd_input t ?s) (attempts_allowed t) = WdRestart"
    and did: "Restarted \<in> set (snd (try_restart t ?s))"
    using assms down
    by (cases "decideDownAgentAction (wd_input t ?s) (attempts_allowed t)";
        auto simp: watchdog_sweep_def Let_def split: if_splits)+
  from act have spell: "AGENT_DOWN_CONFIRM_MS \<le> down_for t ?s" and ok: "shouldAutoRestartDownAgent (wd_input t ?s)"
    and idle: "\<not> wd_busy t" and few: "restartFailures s < attempts_allowed t"
    by (auto simp: decide_restart_iff wd_input_def)
  have since: "\<exists>d. downSince s = Some d \<and> 150000 \<le> wd_now t - d"
    using spell by (cases "downSince s") (simp_all add: down_for_def AGENT_DOWN_CONFIRM_MS_def)
  have age: "\<exists>age. wd_age t = Fin age \<and> 180000 \<le> age"
    using ok by (auto simp: shouldAutoRestartDownAgent_def wd_input_def AGENT_STARTUP_GRACE_MS_def
        split: jsnum.splits if_splits)
  have "restartFailures s < 30"
    using few by (auto simp: attempts_allowed_def AGENT_MAX_RESTART_ATTEMPTS_def
        PLUGIN_ABSENT_MAX_RESTART_ATTEMPTS_def split: if_splits)
  then have grace: "min (90000 * 2 ^ restartFailures s) 3600000 \<le> wd_now t - l" if "wd_lastRestart s = Some l" for l
    using ok that
    by (auto simp: shouldAutoRestartDownAgent_def wd_input_def AGENT_RESTART_GRACE_MS_def
        AGENT_MAX_RESTART_GRACE_MS_def effectiveRestartGraceMs_def Let_def not_less split: jsnum.splits if_splits)
  have "wd_token t \<and> 90000 \<le> wd_now t - fleetRestartAt s"
    using did by (auto simp: try_restart_def CHANNEL_RESTART_STAGGER_MS_def split: if_splits)
  with down since age idle grace show ?thesis by blast
qed

theorem restart_is_confirmed_witness:
  "\<not> wd_busy (down_tick 200000) \<and>
   Restarted \<in> set (snd (watchdog_sweep (down_tick 200000) (quiet_state\<lparr>downSince := Some 10000\<rparr>)))"
proof -
  have "Restarted \<in> set (snd (watchdog_sweep (down_tick 200000) (quiet_state\<lparr>downSince := Some 10000\<rparr>)))"
    by code_simp
  with restart_is_confirmed [OF this] show ?thesis by blast
qed

text \<open>
  a late absent verdict silences the watchdog. The alert fires only when the failure count equals
  the budget, and the budget drops to one while the plugin is confirmed absent. So when two or more
  restarts were already spent, every sweep that sees the plugin down and confirmed absent does
  nothing visible: no restart, no give-up alert, and the counter never moves.
\<close>

theorem absent_verdict_silences_alert:
  assumes "\<forall>t \<in> set ts. wd_plugin t = PluginDown \<and> wd_absent t" and "2 \<le> restartFailures s"
    and "watchdog_run ts s = (s', evs)"
  shows "evs = [] \<and> restartFailures s' = restartFailures s"
  using assms
proof (induction ts arbitrary: s s' evs)
  case Nil
  then show ?case by simp
next
  case (Cons t ts)
  let ?s = "mark_down t s"
  have f: "restartFailures ?s = restartFailures s" by simp
  have "decideDownAgentAction (wd_input t ?s) (attempts_allowed t) = WdSkip"
    using Cons.prems(1,2)
    by (intro decide_past_cap) (simp_all add: attempts_allowed_def PLUGIN_ABSENT_MAX_RESTART_ATTEMPTS_def)
  then have one: "watchdog_sweep t s = (?s, [])"
    using Cons.prems(1) by (simp add: watchdog_sweep_def Let_def)
  obtain s2 e2 where rest: "watchdog_run ts ?s = (s2, e2)" by (cases "watchdog_run ts ?s")
  with Cons.prems(3) one have "s' = s2" "evs = e2" by simp_all
  with Cons.IH [OF _ _ rest] Cons.prems(1,2) f show ?case by simp
qed

theorem absent_verdict_silences_alert_witness:
  "snd (watchdog_run (map (\<lambda>k. (down_tick (of_nat k * 3600000))\<lparr>wd_absent := True\<rparr>) [1..<20])
     (quiet_state\<lparr>restartFailures := 2\<rparr>)) = []"
proof -
  let ?ts = "map (\<lambda>k. (down_tick (of_nat k * 3600000))\<lparr>wd_absent := True\<rparr>) [1..<20]"
  let ?s = "quiet_state\<lparr>restartFailures := 2\<rparr>"
  obtain s' evs where r: "watchdog_run ?ts ?s = (s', evs)" by (cases "watchdog_run ?ts ?s")
  have "\<forall>t \<in> set ?ts. wd_plugin t = PluginDown \<and> wd_absent t" "2 \<le> restartFailures ?s"
    by (simp_all add: down_tick_def)
  from absent_verdict_silences_alert [OF this r] r show ?thesis by simp
qed

end
