(* ===== verification/ProcTree.thy ===== *)
theory ProcTree
  imports Regex "HOL-Library.While_Combinator"
begin

text \<open>
  Two probes of the process table: whether a channel plugin runs under a session's claude process
  (\<open>src/channel-coordinator/liveness.ts\<close> with \<open>provider-poller-match.ts\<close>) and whether a session
  has child processes that look like work in flight (the helpers and \<open>hasLiveChildProcesses\<close> of
  \<open>src/web/context-restart-gate-runner.ts\<close>, \<open>parseEtimeToSeconds\<close> of
  \<open>src/web/agent-restart-policy.ts\<close>). What the operating system answers is an argument.
\<close>

section \<open>Words and numbers of a process listing\<close>

fun split_by :: "(char \<Rightarrow> bool) \<Rightarrow> string \<Rightarrow> string list" where
  "split_by P [] = [[]]"
| "split_by P (c # cs) =
     (if P c then [] # split_by P cs
      else (case split_by P cs of [] \<Rightarrow> [[c]] | p # ps \<Rightarrow> (c # p) # ps))"

text \<open>\<open>s.trim().split(/\s+/)\<close> without the single empty word of a blank string.\<close>

definition ws_words :: "string \<Rightarrow> string list" where
  "ws_words s = filter (\<lambda>w. w \<noteq> []) (split_by is_ws s)"

definition all_digits :: "string \<Rightarrow> bool" where
  "all_digits s \<longleftrightarrow> s \<noteq> [] \<and> list_all is_digit s"

definition parseChildPids :: "string \<Rightarrow> nat \<Rightarrow> nat list" where
  "parseChildPids out parent =
     concat (map (\<lambda>l. case ws_words l of
         [p, pp] \<Rightarrow> if all_digits p \<and> all_digits pp \<and> digits_val pp = parent then [digits_val p] else []
       | _ \<Rightarrow> []) (split_on (char_of (10::nat)) out))"

text \<open>\<open>parseEtimeToSeconds\<close>: \<open>None\<close> is \<open>-1\<close>.\<close>

definition etime_hours :: "string \<Rightarrow> nat option" where
  "etime_hours s =
     (case split_on (CHR ''-'') s of
        [h] \<Rightarrow> if all_digits h then Some (digits_val h * 3600) else None
      | [d, h] \<Rightarrow> if all_digits d \<and> all_digits h then Some (digits_val d * 86400 + digits_val h * 3600) else None
      | _ \<Rightarrow> None)"

definition etime_min_sec :: "string \<Rightarrow> string \<Rightarrow> nat option" where
  "etime_min_sec m s =
     (if all_digits m \<and> all_digits s
      then (if digits_val m > 59 \<or> digits_val s > 59 then None else Some (digits_val m * 60 + digits_val s))
      else None)"

definition parseEtimeToSeconds :: "string \<Rightarrow> nat option" where
  "parseEtimeToSeconds etime =
     (case split_on (CHR '':'') (js_trim etime) of
        [m, s] \<Rightarrow> etime_min_sec m s
      | [h, m, s] \<Rightarrow>
          (case (etime_hours h, etime_min_sec m s) of
             (Some x, Some y) \<Rightarrow> Some (x + y)
           | _ \<Rightarrow> None)
      | _ \<Rightarrow> None)"

section \<open>Work under a session\<close>

definition CHILD_MIN_AGE_S :: int where "CHILD_MIN_AGE_S = 3"
definition INFRA_AGE_DELTA_S :: int where "INFRA_AGE_DELTA_S = 60"

definition isInfrastructureChild :: "nat \<Rightarrow> nat \<Rightarrow> bool" where
  "isInfrastructureChild childAge claudeAge =
     (if int childAge < CHILD_MIN_AGE_S then True
      else if int childAge \<ge> int claudeAge - INFRA_AGE_DELTA_S then True
      else False)"

definition isClaudeComm :: "string \<Rightarrow> bool" where
  "isClaudeComm comm \<longleftrightarrow> comm = ''claude'' \<or> starts_with (rev comm) (rev ''/claude'')"

definition findClaudePidInTree :: "nat \<Rightarrow> string option \<Rightarrow> (nat \<times> string option) list \<Rightarrow> nat option" where
  "findClaudePidInTree panePid paneComm children =
     (case paneComm of
        None \<Rightarrow> None
      | Some c \<Rightarrow>
          if isClaudeComm c then Some panePid
          else map_option fst (find (\<lambda>(pid, comm). case comm of Some x \<Rightarrow> isClaudeComm x | None \<Rightarrow> False) children))"

definition isMcpProcess :: "string \<Rightarrow> string list \<Rightarrow> bool" where
  "isMcpProcess args patterns =
     (if str_includes args ''/plugins/cache/'' then True else list_ex (str_includes args) patterns)"

text \<open>Whether a cluster of caffeinate flags ends in one that takes the next argument as its value.\<close>

definition takes_next :: "string \<Rightarrow> bool" where
  "takes_next flags = (case dropWhile (\<lambda>c. c \<notin> {CHR ''t'', CHR ''w''}) flags of [_] \<Rightarrow> True | _ \<Rightarrow> False)"

fun only_flags :: "string list \<Rightarrow> bool" where
  "only_flags [] = True"
| "only_flags (t # ts) =
     (if t = ''--'' then ts = []
      else if \<not> starts_with t ''-'' then False
      else if takes_next (drop 1 t) then (case ts of [] \<Rightarrow> True | _ # us \<Rightarrow> only_flags us)
      else only_flags ts)"

definition isSleepInhibitorProcess :: "string \<Rightarrow> bool" where
  "isSleepInhibitorProcess args =
     (case ws_words args of
        [] \<Rightarrow> False
      | exe # tokens \<Rightarrow> if last (split_on (CHR ''/'') exe) \<noteq> ''caffeinate'' then False else only_flags tokens)"

text \<open>
  What the host answers: \<open>None\<close> is a command that failed. The table is listed once for the pane and,
  where claude is a child of it, a second time for claude.
\<close>

record proc_host =
  panePid :: "nat option"
  comm_out :: "nat \<Rightarrow> string option"
  ps_table :: "string option"
  ps_table2 :: "string option"
  etime_out :: "nat \<Rightarrow> string option"
  args_out :: "nat \<Rightarrow> string option"

definition trimmed_or_none :: "string option \<Rightarrow> string option" where
  "trimmed_or_none out =
     (case out of Some s \<Rightarrow> if js_trim s = [] then None else Some (js_trim s) | None \<Rightarrow> None)"

definition getCommForPid :: "proc_host \<Rightarrow> nat \<Rightarrow> string option" where
  "getCommForPid h pid = trimmed_or_none (comm_out h pid)"

definition getChildArgsStr :: "proc_host \<Rightarrow> nat \<Rightarrow> string option" where
  "getChildArgsStr h pid = trimmed_or_none (args_out h pid)"

definition getPidAgeSeconds :: "proc_host \<Rightarrow> nat \<Rightarrow> nat option" where
  "getPidAgeSeconds h pid = Option.bind (etime_out h pid) parseEtimeToSeconds"

definition getChildPids :: "string option \<Rightarrow> nat \<Rightarrow> nat list" where
  "getChildPids table parent = (case table of Some out \<Rightarrow> parseChildPids out parent | None \<Rightarrow> [])"

fun scan_children :: "proc_host \<Rightarrow> string list \<Rightarrow> nat \<Rightarrow> nat list \<Rightarrow> bool option" where
  "scan_children h patterns claudeAge [] = Some False"
| "scan_children h patterns claudeAge (pid # pids) =
     (case getPidAgeSeconds h pid of
        None \<Rightarrow> None
      | Some age \<Rightarrow>
          if isInfrastructureChild age claudeAge then scan_children h patterns claudeAge pids
          else (let args = (case getChildArgsStr h pid of Some a \<Rightarrow> a | None \<Rightarrow> [])
                in if isMcpProcess args patterns then scan_children h patterns claudeAge pids
                   else if isSleepInhibitorProcess args then scan_children h patterns claudeAge pids
                   else Some True))"

definition hasLiveChildProcesses :: "proc_host \<Rightarrow> string list \<Rightarrow> bool option" where
  "hasLiveChildProcesses h patterns =
     (case panePid h of
        None \<Rightarrow> None
      | Some pane \<Rightarrow>
          (let paneChildren = getChildPids (ps_table h) pane
           in case findClaudePidInTree pane (getCommForPid h pane) (map (\<lambda>p. (p, getCommForPid h p)) paneChildren) of
                None \<Rightarrow> None
              | Some claude \<Rightarrow>
                  (case getPidAgeSeconds h claude of
                     None \<Rightarrow> None
                   | Some claudeAge \<Rightarrow>
                       scan_children h patterns claudeAge
                         (if claude = pane then paneChildren else getChildPids (ps_table2 h) claude))))"

section \<open>Plugin pollers\<close>

datatype provider = Telegram | Slack | Discord | GoogleChat | Teams

definition word_start :: rx where
  "word_start = RAlt REmpty (RSeq r_any (RChar (\<lambda>c. \<not> is_word c)))"

definition RUNTIME_TOKEN_RX :: rx where
  "RUNTIME_TOKEN_RX = RSeq word_start (RSeq (RAlt (lit ''bun'') (lit ''node'')) word_end)"

definition slug :: "provider \<Rightarrow> rx" where
  "slug p = (case p of
       Telegram \<Rightarrow> lit ''/telegram''
     | Slack \<Rightarrow> RSeq (lit ''/slack'') (r_opt (lit ''-channel''))
     | Discord \<Rightarrow> lit ''/discord''
     | GoogleChat \<Rightarrow> lit ''/googlechat''
     | Teams \<Rightarrow> lit ''/teams'')"

definition SLUG_RX :: "provider \<Rightarrow> rx" where
  "SLUG_RX p = RSeq r_any (RSeq (slug p)
     (RAlt REmpty (RSeq (RChar (\<lambda>c. c = CHR ''/'' \<or> is_ws c)) r_any)))"

definition SLACK_SOCKET_MODE_RX :: rx where
  "SLACK_SOCKET_MODE_RX = RSeq word_start (RSeq (lit ''socket-mode'') word_end)"

definition matchesProviderPollerCmd :: "string \<Rightarrow> provider \<Rightarrow> bool" where
  "matchesProviderPollerCmd cmd p =
     (if cmd = [] then False
      else if \<not> rx_full RUNTIME_TOKEN_RX cmd then False
      else if rx_full (SLUG_RX p) cmd then True
      else if p = Slack \<and> rx_full SLACK_SOCKET_MODE_RX cmd then True
      else False)"

section \<open>The tree walk\<close>

type_synonym proc_row = "nat \<times> nat \<times> string"

text \<open>\<open>/^\s*(\d+)\s+(\d+)\s+(.*)$/\<close>; the dot stops at a carriage return.\<close>

definition parse_row :: "string \<Rightarrow> proc_row option" where
  "parse_row line =
     (let s0 = dropWhile is_ws line;
          p = takeWhile is_digit s0; s1 = dropWhile is_digit s0;
          s2 = dropWhile is_ws s1;
          pp = takeWhile is_digit s2; s3 = dropWhile is_digit s2;
          cmd = dropWhile is_ws s3
      in if p \<noteq> [] \<and> pp \<noteq> [] \<and> s2 \<noteq> s1 \<and> cmd \<noteq> s3 \<and> list_all (\<lambda>c. code c \<notin> {10, 13}) cmd
         then Some (digits_val p, digits_val pp, cmd) else None)"

definition proc_rows :: "string \<Rightarrow> proc_row list" where
  "proc_rows out = concat (map (\<lambda>l. case parse_row l of Some r \<Rightarrow> [r] | None \<Rightarrow> [])
     (drop 1 (split_on (char_of (10::nat)) out)))"

definition childrenOf :: "proc_row list \<Rightarrow> nat \<Rightarrow> nat list" where
  "childrenOf rows p = map fst (filter (\<lambda>(_, pp, _). pp = p) rows)"

text \<open>The last row of a pid wins, as in the \<open>Map\<close>.\<close>

definition cmdOf :: "proc_row list \<Rightarrow> nat \<Rightarrow> string" where
  "cmdOf rows p =
     (case map_of (rev (map (\<lambda>(pid, _, cmd). (pid, cmd)) rows)) p of Some c \<Rightarrow> c | None \<Rightarrow> [])"

text \<open>Termination of the search below: a pid that is nobody's parent pushes nothing.\<close>

definition parents :: "proc_row list \<Rightarrow> nat set" where
  "parents rows = (\<lambda>(_, pp, _). pp) ` set rows"

lemma childrenOf_not_parent: "p \<notin> parents rows \<Longrightarrow> childrenOf rows p = []"
  by (force simp: childrenOf_def parents_def filter_empty_conv)

lemma finite_parents [simp]: "finite (parents rows)"
  by (simp add: parents_def)

text \<open>The loop over the stack (its top first): \<open>None\<close> when a match is found, else the pids seen.\<close>

function tree_search :: "proc_row list \<Rightarrow> (nat \<Rightarrow> bool) \<Rightarrow> nat list \<Rightarrow> nat set \<Rightarrow> nat set option" where
  "tree_search rows hit [] seen = Some seen"
| "tree_search rows hit (p # stack) seen =
     (if p \<in> seen then tree_search rows hit stack seen
      else if hit p then None
      else tree_search rows hit (rev (childrenOf rows p) @ stack) (insert p seen))"
  by pat_completeness auto

termination
proof (relation "measures [\<lambda>(rows, _, _, seen). card (parents rows - seen), \<lambda>(_, _, stack, _). length stack]",
    goal_cases)
  case (3 rows hit p stack seen)
  show ?case
  proof (cases "p \<in> parents rows")
    case True
    with 3 have "parents rows - insert p seen \<subset> parents rows - seen" by blast
    then have "card (parents rows - insert p seen) < card (parents rows - seen)" by (intro psubset_card_mono) auto
    then show ?thesis by simp
  next
    case False
    then have "parents rows - insert p seen = parents rows - seen" by blast
    with False show ?thesis by (simp add: childrenOf_not_parent)
  qed
qed auto

definition decideHasPluginAlive ::
  "string \<Rightarrow> nat \<Rightarrow> provider \<Rightarrow> int option \<Rightarrow> (nat \<Rightarrow> bool) \<Rightarrow> bool" where
  "decideHasPluginAlive psOutput claudePid prov botPid isPidAlive =
     (let rows = proc_rows psOutput;
          poller = (\<lambda>p. matchesProviderPollerCmd (cmdOf rows p) prov)
      in case tree_search rows poller [claudePid] {} of
           None \<Rightarrow> True
         | Some seen \<Rightarrow>
             if (case botPid of Some b \<Rightarrow> b > 1 \<and> isPidAlive (nat b) \<and> poller (nat b) | None \<Rightarrow> False) then True
             else if prov = Slack \<or> prov = Discord
             then list_ex (\<lambda>(pid, _). pid \<notin> seen \<and> poller pid \<and> isPidAlive pid) rows
             else False)"

datatype liveness = LivenessAlive | LivenessDown | LivenessUnknown

text \<open>
  \<open>probeChannelPluginLiveness\<close> on the two \<open>ps\<close> runs (the second only after a failed first) and the
  pid read from the state directory: \<open>None\<close> when reading it failed, \<open>Some None\<close> without a usable file.
\<close>

definition snapshotProcsWithRetry :: "string option \<Rightarrow> string option \<Rightarrow> string option" where
  "snapshotProcsWithRetry first retry = (case first of Some out \<Rightarrow> Some out | None \<Rightarrow> retry)"

definition probeChannelPluginLiveness ::
  "string option \<Rightarrow> string option \<Rightarrow> nat \<Rightarrow> provider \<Rightarrow> int option option \<Rightarrow> (nat \<Rightarrow> bool) \<Rightarrow> liveness" where
  "probeChannelPluginLiveness first retry claudePid prov botPid isPidAlive =
     (case snapshotProcsWithRetry first retry of
        None \<Rightarrow> LivenessUnknown
      | Some out \<Rightarrow>
          (case botPid of
             None \<Rightarrow> LivenessUnknown
           | Some b \<Rightarrow>
               if decideHasPluginAlive out claudePid prov b isPidAlive then LivenessAlive else LivenessDown))"

definition KEEPALIVE_STALE_MS :: rat where "KEEPALIVE_STALE_MS = 18 * 60 * 1000"
definition STARTUP_GRACE_MS :: rat where "STARTUP_GRACE_MS = 360000"

definition decideNativeChannelDown :: "rat option \<Rightarrow> nat option \<Rightarrow> bool \<Rightarrow> rat option \<Rightarrow> bool" where
  "decideNativeChannelDown msSinceLastRespawn claudePid pluginAlive keepaliveAgeMs =
     (if (case msSinceLastRespawn of Some m \<Rightarrow> m < STARTUP_GRACE_MS | None \<Rightarrow> False) then False
      else if claudePid = None then True
      else if \<not> pluginAlive then True
      else if (case keepaliveAgeMs of Some a \<Rightarrow> a > KEEPALIVE_STALE_MS | None \<Rightarrow> False) then True
      else False)"

section \<open>Lemmas\<close>

text \<open>The parent relation of a listing; the walk visits its reflexive transitive closure.\<close>

definition child_rel :: "proc_row list \<Rightarrow> (nat \<times> nat) set" where
  "child_rel rows = {(p, k). k \<in> set (childrenOf rows p)}"

definition below :: "proc_row list \<Rightarrow> nat set \<Rightarrow> nat set" where
  "below rows P = (child_rel rows)\<^sup>* `` P"

lemma below_refl: "P \<subseteq> below rows P"
  by (auto simp: below_def)

lemma below_child: "p \<in> P \<Longrightarrow> below rows (set (childrenOf rows p)) \<subseteq> below rows P"
  by (auto simp: below_def child_rel_def intro: converse_rtrancl_into_rtrancl)

lemma below_mono: "P \<subseteq> Q \<Longrightarrow> below rows P \<subseteq> below rows Q"
  by (auto simp: below_def)

lemma below_Un: "below rows (P \<union> Q) = below rows P \<union> below rows Q"
  by (auto simp: below_def)

lemma below_closed:
  assumes "P \<subseteq> S" and "\<And>p k. p \<in> S \<Longrightarrow> k \<in> set (childrenOf rows p) \<Longrightarrow> k \<in> S"
  shows "below rows P \<subseteq> S"
proof
  fix x assume "x \<in> below rows P"
  then obtain p where "p \<in> P" "(p, x) \<in> (child_rel rows)\<^sup>*" by (auto simp: below_def)
  from this(2,1) show "x \<in> S"
    by (induction rule: rtrancl_induct) (use assms in \<open>auto simp: child_rel_def\<close>)
qed

lemma tree_search_found:
  "tree_search rows hit stack seen = None \<Longrightarrow> \<exists>p \<in> below rows (set stack). hit p"
proof (induction rows hit stack seen rule: tree_search.induct)
  case (2 rows hit p stack seen)
  show ?case
  proof (cases "p \<in> seen")
    case True
    with 2 below_mono [of "set stack" "set (p # stack)" rows] show ?thesis by auto
  next
    case new: False
    show ?thesis
    proof (cases "hit p")
      case True
      with below_refl [of "set (p # stack)" rows] show ?thesis by auto
    next
      case False
      with 2 new obtain q where "hit q" "q \<in> below rows (set (rev (childrenOf rows p) @ stack))" by auto
      moreover have "below rows (set (rev (childrenOf rows p) @ stack)) \<subseteq> below rows (set (p # stack))"
        using below_child [of p "set (p # stack)" rows] below_mono [of "set stack" "set (p # stack)" rows]
        by (auto simp: below_Un)
      ultimately show ?thesis by blast
    qed
  qed
qed simp

lemma tree_search_seen:
  assumes "tree_search rows hit stack seen = Some S"
    and "\<forall>p \<in> seen. \<not> hit p \<and> set (childrenOf rows p) \<subseteq> seen \<union> set stack"
  shows "seen \<union> set stack \<subseteq> S \<and> S \<subseteq> seen \<union> below rows (set stack) \<and>
    (\<forall>p \<in> S. \<not> hit p \<and> set (childrenOf rows p) \<subseteq> S)"
  using assms
proof (induction rows hit stack seen rule: tree_search.induct)
  case (2 rows hit p stack seen)
  show ?case
  proof (cases "p \<in> seen")
    case True
    have c: "\<forall>q \<in> seen. \<not> hit q \<and> set (childrenOf rows q) \<subseteq> seen \<union> set stack"
      using "2.prems"(2) True by auto
    have r: "tree_search rows hit stack seen = Some S" using "2.prems"(1) True by simp
    have m: "below rows (set stack) \<subseteq> below rows (set (p # stack))" by (rule below_mono) auto
    note ih = "2.IH"(1) [OF True r c]
    from ih True have "seen \<union> set (p # stack) \<subseteq> S" by auto
    moreover from ih m have "S \<subseteq> seen \<union> below rows (set (p # stack))" by blast
    ultimately show ?thesis using ih by blast
  next
    case False
    then have h: "\<not> hit p" using "2.prems"(1) by auto
    have "\<forall>q \<in> insert p seen. \<not> hit q \<and>
        set (childrenOf rows q) \<subseteq> insert p seen \<union> set (rev (childrenOf rows p) @ stack)"
      using "2.prems"(2) h by auto
    with "2.IH"(2) [OF False h] "2.prems"(1) False h
    have "insert p seen \<union> set (rev (childrenOf rows p) @ stack) \<subseteq> S"
      and upper: "S \<subseteq> insert p seen \<union> below rows (set (rev (childrenOf rows p) @ stack))"
      and closed: "\<forall>p \<in> S. \<not> hit p \<and> set (childrenOf rows p) \<subseteq> S" by simp_all
    moreover have "below rows (set (rev (childrenOf rows p) @ stack)) \<subseteq> below rows (set (p # stack))"
      using below_child [of p "set (p # stack)" rows] below_mono [of "set stack" "set (p # stack)" rows]
      by (auto simp: below_Un)
    ultimately show ?thesis using below_refl [of "set (p # stack)" rows] by auto
  qed
qed auto

lemma tree_search_iff:
  "tree_search rows hit [p] {} = (if \<exists>q \<in> below rows {p}. hit q then None else Some (below rows {p}))"
proof (cases "tree_search rows hit [p] {}")
  case None
  with tree_search_found [OF None] show ?thesis by simp
next
  case (Some S)
  from tree_search_seen [OF Some] have "p \<in> S" "S \<subseteq> below rows {p}"
    and closed: "\<forall>p \<in> S. \<not> hit p \<and> set (childrenOf rows p) \<subseteq> S" by auto
  moreover have "below rows {p} \<subseteq> S" using \<open>p \<in> S\<close> closed by (intro below_closed) auto
  ultimately have "S = below rows {p}" by blast
  with Some closed show ?thesis by auto
qed

lemma plugin_alive_iff:
  "decideHasPluginAlive txt claude prov b isPidAlive \<longleftrightarrow>
     (let rows = proc_rows txt; poller = (\<lambda>p. matchesProviderPollerCmd (cmdOf rows p) prov)
      in (\<exists>p \<in> below rows {claude}. poller p) \<or>
         (\<exists>n. b = Some n \<and> n > 1 \<and> isPidAlive (nat n) \<and> poller (nat n)) \<or>
         (prov = Slack \<or> prov = Discord) \<and> (\<exists>p \<in> fst ` set rows. poller p \<and> isPidAlive p))"
proof (cases "\<exists>p \<in> below (proc_rows txt) {claude}. matchesProviderPollerCmd (cmdOf (proc_rows txt) p) prov")
  case True
  then show ?thesis by (simp only: decideHasPluginAlive_def Let_def tree_search_iff if_True option.case) blast
next
  case False
  then show ?thesis
    unfolding decideHasPluginAlive_def Let_def tree_search_iff
    by (cases b) (force simp: list_ex_iff)+
qed

section \<open>The walk ends\<close>

text \<open>One turn of the loop over the stack, with its early return as a flag, and the loop as it is written.\<close>

type_synonym walk_state = "nat list \<times> nat set \<times> bool"

fun walk_going :: "walk_state \<Rightarrow> bool" where
  "walk_going (stack, seen, found) \<longleftrightarrow> stack \<noteq> [] \<and> \<not> found"

fun walk_turn :: "proc_row list \<Rightarrow> (nat \<Rightarrow> bool) \<Rightarrow> walk_state \<Rightarrow> walk_state" where
  "walk_turn rows hit (p # stack, seen, found) =
     (if p \<in> seen then (stack, seen, found)
      else if hit p then (stack, insert p seen, True)
      else (rev (childrenOf rows p) @ stack, insert p seen, found))"
| "walk_turn rows hit ([], seen, found) = ([], seen, found)"

definition walk_loop :: "proc_row list \<Rightarrow> (nat \<Rightarrow> bool) \<Rightarrow> nat \<Rightarrow> walk_state option" where
  "walk_loop rows hit claudePid = while_option walk_going (walk_turn rows hit) ([claudePid], {}, False)"

text \<open>The rows not yet pushed: those whose parent has not been seen.\<close>

definition unpushed :: "proc_row list \<Rightarrow> nat set \<Rightarrow> nat" where
  "unpushed rows seen = length (filter (\<lambda>(_, pp, _). pp \<notin> seen) rows)"

lemma unpushed_turn: "p \<notin> seen \<Longrightarrow> length (childrenOf rows p) + unpushed rows (insert p seen) = unpushed rows seen"
  unfolding childrenOf_def unpushed_def by (induction rows) auto

lemma while_turn: "b s \<Longrightarrow> while_option b c (c s) = Some ((c ^^ k) (c s)) \<Longrightarrow> while_option b c s = Some ((c ^^ Suc k) s)"
  by (subst while_option_unfold) (simp add: funpow_swap1)

text \<open>Every turn takes one entry off the stack or trades a row not yet pushed for one.\<close>

definition walk_result :: "proc_row list \<Rightarrow> (nat \<Rightarrow> bool) \<Rightarrow> nat list \<Rightarrow> nat set \<Rightarrow> walk_state \<Rightarrow> bool" where
  "walk_result rows hit stack seen s \<longleftrightarrow> while_option walk_going (walk_turn rows hit) (stack, seen, False) = Some s
     \<and> (case tree_search rows hit stack seen of None \<Rightarrow> snd (snd s) | Some S \<Rightarrow> s = ([], S, False))"

lemma walk_bounded:
  "\<exists>k \<le> length stack + unpushed rows seen. walk_result rows hit stack seen ((walk_turn rows hit ^^ k) (stack, seen, False))"
proof (induction rows hit stack seen rule: tree_search.induct)
  case (1 rows hit seen)
  show ?case by (intro exI [of _ 0]) (simp add: while_option_unfold walk_result_def)
next
  case (2 rows hit p stack seen)
  show ?case
  proof (cases "p \<notin> seen \<and> hit p")
    case True
    then show ?thesis by (intro exI [of _ 1]) (simp add: while_option_unfold walk_result_def)
  next
    case False
    define stack' seen' where "stack' = (if p \<in> seen then stack else rev (childrenOf rows p) @ stack)" and "seen' = insert p seen"
    note d = stack'_def seen'_def insert_absorb
    have turn: "walk_turn rows hit (p # stack, seen, False) = (stack', seen', False)" using False by (auto simp: d)
    have same: "tree_search rows hit (p # stack) seen = tree_search rows hit stack' seen'" using False by (auto simp: d)
    have "\<exists>k \<le> length stack' + unpushed rows seen'. walk_result rows hit stack' seen' ((walk_turn rows hit ^^ k) (stack', seen', False))"
    proof (cases "p \<in> seen")
      case True
      then show ?thesis using "2.IH"(1) by (simp add: d)
    next
      case new: False
      with False have "\<not> hit p" by blast
      with new show ?thesis using "2.IH"(2) by (simp add: d)
    qed
    then obtain k where k: "k \<le> length stack' + unpushed rows seen'"
      "walk_result rows hit stack' seen' ((walk_turn rows hit ^^ k) (stack', seen', False))" by blast
    have "length stack' + unpushed rows seen' \<le> length stack + unpushed rows seen"
      using unpushed_turn [of p seen rows] by (auto simp: d)
    moreover have "(walk_turn rows hit ^^ Suc k) (p # stack, seen, False) = (walk_turn rows hit ^^ k) (stack', seen', False)"
      by (simp only: funpow_Suc_right o_apply turn)
    ultimately show ?thesis
      using k while_turn [of walk_going "(p # stack, seen, False)" "walk_turn rows hit" k] same turn
      by (intro exI [of _ "Suc k"]) (simp add: walk_result_def)
  qed
qed

text \<open>
  C38: the walk through the process table ends on every listing, also one in which processes are each other's parents,
  in at most one turn more than the listing has rows. It then has found a process of the wanted kind exactly when one is
  reachable from the session's process, and otherwise has seen exactly the reachable ones.
\<close>

theorem process_walk_ends:
  "\<exists>k stack seen found. k \<le> length rows + 1 \<and> walk_loop rows hit claude = Some (stack, seen, found)
     \<and> (walk_turn rows hit ^^ k) ([claude], {}, False) = (stack, seen, found)
     \<and> found = (\<exists>p \<in> below rows {claude}. hit p) \<and> (found \<or> stack = [] \<and> seen = below rows {claude})"
proof -
  obtain k where k: "k \<le> length [claude] + unpushed rows {}" "walk_result rows hit [claude] {} ((walk_turn rows hit ^^ k) ([claude], {}, False))"
    using walk_bounded [of "[claude]" rows "{}" hit] by blast
  obtain stack seen found where e: "(walk_turn rows hit ^^ k) ([claude], {}, False) = (stack, seen, found)"
    by (cases "(walk_turn rows hit ^^ k) ([claude], {}, False)")
  have "unpushed rows {} \<le> length rows" by (simp add: unpushed_def)
  then have "k \<le> length rows + 1" using k(1) by simp
  moreover have "found = (\<exists>p \<in> below rows {claude}. hit p) \<and> (found \<or> stack = [] \<and> seen = below rows {claude})"
    using k(2) [unfolded walk_result_def tree_search_iff e] by (auto split: if_splits)
  moreover have "walk_loop rows hit claude = Some (stack, seen, found)" using k(2) e by (simp add: walk_result_def walk_loop_def)
  ultimately show ?thesis using e by blast
qed

text \<open>A child that does not count as work: its age is readable and it is young, as old as the session, an
  MCP server or a bare sleep inhibitor.\<close>

definition harmless :: "proc_host \<Rightarrow> string list \<Rightarrow> nat \<Rightarrow> nat \<Rightarrow> bool" where
  "harmless h patterns claudeAge pid \<longleftrightarrow>
     (\<exists>age. getPidAgeSeconds h pid = Some age \<and>
        (age < 3 \<or> claudeAge \<le> age + 60 \<or>
         (\<exists>args. args = (case getChildArgsStr h pid of Some a \<Rightarrow> a | None \<Rightarrow> []) \<and>
            (isMcpProcess args patterns \<or> isSleepInhibitorProcess args))))"

lemma scan_children_False:
  "scan_children h patterns a pids = Some False \<longleftrightarrow> (\<forall>pid \<in> set pids. harmless h patterns a pid)"
proof (induction pids)
  case (Cons pid pids)
  have "isInfrastructureChild age a \<longleftrightarrow> age < 3 \<or> a \<le> age + 60" for age
    by (auto simp: isInfrastructureChild_def CHILD_MIN_AGE_S_def INFRA_AGE_DELTA_S_def)
  with Cons show ?case by (auto simp: Let_def harmless_def split: option.splits)
qed simp

section \<open>Properties\<close>

text \<open>
  C39: the plugin verdict is exact. The probe answers unknown exactly when both process listings or the
  state directory failed; otherwise it answers alive exactly when a poller of the provider is a
  descendant of the session's claude process (or that process itself), or the recorded bot process is
  a live poller, or, for Slack and Discord only, some live listed process is a poller. In particular a
  failed probe never reads as down.
\<close>

theorem plugin_verdict_exact:
  "let out = snapshotProcsWithRetry first retry; v = probeChannelPluginLiveness first retry claude prov pidFile isPidAlive
   in (v = LivenessUnknown \<longleftrightarrow> out = None \<or> pidFile = None) \<and>
      (v = LivenessAlive \<longleftrightarrow> (\<exists>txt b. out = Some txt \<and> pidFile = Some b \<and>
         (let rows = proc_rows txt; poller = (\<lambda>p. matchesProviderPollerCmd (cmdOf rows p) prov)
          in (\<exists>p \<in> below rows {claude}. poller p) \<or>
             (\<exists>n. b = Some n \<and> n > 1 \<and> isPidAlive (nat n) \<and> poller (nat n)) \<or>
             (prov = Slack \<or> prov = Discord) \<and> (\<exists>p \<in> fst ` set rows. poller p \<and> isPidAlive p))))"
  unfolding Let_def [of "snapshotProcsWithRetry first retry"] Let_def [of "probeChannelPluginLiveness _ _ _ _ _ _"]
    plugin_alive_iff [symmetric]
  by (auto simp: probeChannelPluginLiveness_def split: option.splits)

text \<open>
  what the child check calls idle. Where claude is the pane process itself and its age is readable,
  the check answers that no work is alive exactly when every listed child has a readable age and is
  younger than three seconds, within a minute of the session's own age, an MCP server or a bare sleep
  inhibitor. A failed process listing counts as an empty one: the check, which promises to fail closed,
  then answers idle whatever is running.
\<close>

theorem child_check_exact:
  assumes "panePid h = Some pane" and "getCommForPid h pane = Some comm" and "isClaudeComm comm"
    and "getPidAgeSeconds h pane = Some age"
  shows "(hasLiveChildProcesses h patterns = Some False \<longleftrightarrow>
      (\<forall>pid \<in> set (getChildPids (ps_table h) pane). harmless h patterns age pid)) \<and>
    hasLiveChildProcesses (h\<lparr>ps_table := None\<rparr>) patterns = Some False"
  using assms
  by (simp add: hasLiveChildProcesses_def findClaudePidInTree_def scan_children_False getChildPids_def
      getCommForPid_def getPidAgeSeconds_def)

definition direct_host :: proc_host where
  "direct_host = \<lparr>panePid = Some 10, comm_out = (\<lambda>_. Some ''claude''), ps_table = Some ''11 10'', ps_table2 = None,
     etime_out = (\<lambda>p. if p = 10 then Some ''01:00:00'' else Some ''10:00''), args_out = (\<lambda>_. None)\<rparr>"

theorem child_check_exact_witness:
  "hasLiveChildProcesses (direct_host\<lparr>ps_table := None\<rparr>) [] = Some False"
proof -
  have "panePid direct_host = Some 10" by (simp add: direct_host_def)
  moreover have "getCommForPid direct_host 10 = Some ''claude''" by code_simp
  moreover have "isClaudeComm ''claude''" by code_simp
  moreover have "getPidAgeSeconds direct_host 10 = Some 3600" by code_simp
  ultimately have "hasLiveChildProcesses (direct_host\<lparr>ps_table := None\<rparr>) [] = Some False"
    using child_check_exact [of direct_host 10 "''claude''" 3600 "[]"] by blast
  then show ?thesis .
qed

end
