(* ===== verification/RetryQueue.thy ===== *)
theory RetryQueue
  imports JsBase
begin

text \<open>
  The persistent retry queue of scheduled tasks: the alert decision of \<open>src/pending-retries.ts\<close> and
  the operations on the table \<open>pending_task_retries\<close> in \<open>src/db/tasks.ts\<close>. The table is the list of
  its rows; its unique pair (task, agent) is the invariant \<open>queue_ok\<close>. Times are milliseconds.
\<close>

record retry_row =
  r_task :: string
  r_agent :: string
  firstAttempt :: rat
  lastAttempt :: rat
  attemptCount :: nat
  r_reason :: "string option"
  alertSentAt :: "rat option"

definition ALERT_THRESHOLD_MS :: rat where "ALERT_THRESHOLD_MS = 60 * 60 * 1000"

definition shouldSendAlert :: "rat \<Rightarrow> rat \<Rightarrow> rat option \<Rightarrow> bool" where
  "shouldSendAlert now first sent =
     (if sent \<noteq> None then False
      else if first \<le> 0 then False
      else if now < first then False
      else now - first > ALERT_THRESHOLD_MS)"

record retry_view =
  ageMs :: rat
  alertDue :: bool

definition toPendingRetryView :: "retry_row \<Rightarrow> rat \<Rightarrow> retry_view" where
  "toPendingRetryView r now =
     \<lparr>ageMs = max 0 (now - firstAttempt r), alertDue = shouldSendAlert now (firstAttempt r) (alertSentAt r)\<rparr>"

section \<open>The table\<close>

definition is_row :: "string \<Rightarrow> string \<Rightarrow> retry_row \<Rightarrow> bool" where
  "is_row t a r \<longleftrightarrow> r_task r = t \<and> r_agent r = a"

definition getPendingTaskRetry :: "string \<Rightarrow> string \<Rightarrow> retry_row list \<Rightarrow> retry_row option" where
  "getPendingTaskRetry t a q = find (is_row t a) q"

definition insertPendingTaskRetryIfNew :: "string \<Rightarrow> string \<Rightarrow> rat \<Rightarrow> string \<Rightarrow> retry_row list \<Rightarrow> retry_row list" where
  "insertPendingTaskRetryIfNew t a now reason q =
     (if list_ex (is_row t a) q then q
      else q @ [\<lparr>r_task = t, r_agent = a, firstAttempt = now, lastAttempt = now, attemptCount = 1,
                 r_reason = Some reason, alertSentAt = None\<rparr>])"

definition updatePendingTaskRetry :: "string \<Rightarrow> string \<Rightarrow> rat \<Rightarrow> string \<Rightarrow> retry_row list \<Rightarrow> retry_row list" where
  "updatePendingTaskRetry t a now reason q =
     map (\<lambda>r. if is_row t a r
              then r\<lparr>lastAttempt := now, attemptCount := Suc (attemptCount r), r_reason := Some reason\<rparr> else r) q"

definition deletePendingTaskRetry :: "string \<Rightarrow> string \<Rightarrow> retry_row list \<Rightarrow> retry_row list" where
  "deletePendingTaskRetry t a q = filter (\<lambda>r. \<not> is_row t a r) q"

definition markPendingTaskRetryAlert :: "string \<Rightarrow> string \<Rightarrow> rat \<Rightarrow> retry_row list \<Rightarrow> retry_row list" where
  "markPendingTaskRetryAlert t a ts q =
     map (\<lambda>r. if is_row t a r \<and> alertSentAt r = None then r\<lparr>alertSentAt := Some ts\<rparr> else r) q"

definition alert_claimed :: "string \<Rightarrow> string \<Rightarrow> retry_row list \<Rightarrow> bool" where
  "alert_claimed t a q \<longleftrightarrow> list_ex (\<lambda>r. is_row t a r \<and> alertSentAt r = None) q"

definition listPendingTaskRetries :: "retry_row list \<Rightarrow> retry_row list" where
  "listPendingTaskRetries q = sort_key firstAttempt q"

section \<open>Lemmas\<close>

definition row_key :: "retry_row \<Rightarrow> string \<times> string" where
  "row_key r = (r_task r, r_agent r)"

definition queue_ok :: "retry_row list \<Rightarrow> bool" where
  "queue_ok q \<longleftrightarrow> distinct (map row_key q)"

lemma is_row_key: "is_row t a r \<longleftrightarrow> row_key r = (t, a)"
  by (simp add: is_row_def row_key_def)

lemma row_key_update [simp]:
  "row_key (r\<lparr>lastAttempt := n\<rparr>) = row_key r" "row_key (r\<lparr>attemptCount := k\<rparr>) = row_key r"
  "row_key (r\<lparr>r_reason := x\<rparr>) = row_key r" "row_key (r\<lparr>alertSentAt := y\<rparr>) = row_key r"
  by (simp_all add: row_key_def)

lemma find_app: "find P (xs @ ys) = (case find P xs of Some x \<Rightarrow> Some x | None \<Rightarrow> find P ys)"
  by (induction xs) auto

lemma get_Nil [simp]: "getPendingTaskRetry t a [] = None"
  by (simp add: getPendingTaskRetry_def)

lemma get_Some: "getPendingTaskRetry t a q = Some r \<Longrightarrow> r \<in> set q \<and> r_task r = t \<and> r_agent r = a"
  by (auto simp: getPendingTaskRetry_def is_row_def dest: find_SomeD)

lemma get_None: "getPendingTaskRetry t a q = None \<longleftrightarrow> \<not> list_ex (is_row t a) q"
  by (auto simp: getPendingTaskRetry_def find_None_iff list_ex_iff)

lemma get_unique:
  "queue_ok q \<Longrightarrow> r \<in> set q \<Longrightarrow> getPendingTaskRetry (r_task r) (r_agent r) q = Some r"
  by (induction q) (force simp: getPendingTaskRetry_def queue_ok_def is_row_key row_key_def)+

lemma get_delete [simp]:
  "getPendingTaskRetry t a (deletePendingTaskRetry t' a' q)
     = (if t = t' \<and> a = a' then None else getPendingTaskRetry t a q)"
  by (induction q) (auto simp: getPendingTaskRetry_def deletePendingTaskRetry_def is_row_def)

lemma get_update [simp]:
  "getPendingTaskRetry t a (updatePendingTaskRetry t' a' now reason q) =
     (if t = t' \<and> a = a'
      then map_option (\<lambda>r. r\<lparr>lastAttempt := now, attemptCount := Suc (attemptCount r), r_reason := Some reason\<rparr>)
             (getPendingTaskRetry t a q)
      else getPendingTaskRetry t a q)"
  by (induction q) (auto simp: getPendingTaskRetry_def updatePendingTaskRetry_def is_row_def)

lemma get_mark [simp]:
  "getPendingTaskRetry t a (markPendingTaskRetryAlert t' a' ts q) =
     (if t = t' \<and> a = a'
      then map_option (\<lambda>r. if alertSentAt r = None then r\<lparr>alertSentAt := Some ts\<rparr> else r) (getPendingTaskRetry t a q)
      else getPendingTaskRetry t a q)"
  by (induction q) (auto simp: getPendingTaskRetry_def markPendingTaskRetryAlert_def is_row_def)

lemma get_insert [simp]:
  "getPendingTaskRetry t a (insertPendingTaskRetryIfNew t' a' now reason q) =
     (if t = t' \<and> a = a' \<and> getPendingTaskRetry t a q = None
      then Some \<lparr>r_task = t, r_agent = a, firstAttempt = now, lastAttempt = now, attemptCount = 1,
                 r_reason = Some reason, alertSentAt = None\<rparr>
      else getPendingTaskRetry t a q)"
proof (cases "list_ex (is_row t' a') q")
  case True
  with get_None [of t' a' q] show ?thesis by (auto simp: insertPendingTaskRetryIfNew_def)
next
  case False
  with get_None [of t' a' q] show ?thesis
    by (auto simp: insertPendingTaskRetryIfNew_def getPendingTaskRetry_def find_app is_row_def split: option.splits)
qed

lemma alert_claimed_iff:
  "queue_ok q \<Longrightarrow> alert_claimed t a q \<longleftrightarrow> (\<exists>r. getPendingTaskRetry t a q = Some r \<and> alertSentAt r = None)"
  using get_unique [of q] by (force simp: alert_claimed_def list_ex_iff is_row_def dest: get_Some)

lemma map_row_key_id: "(\<And>r. row_key (f r) = row_key r) \<Longrightarrow> map row_key (map f q) = map row_key q"
  by simp

lemma queue_ok_ops [simp]:
  "queue_ok q \<Longrightarrow> queue_ok (deletePendingTaskRetry t a q)"
  "queue_ok q \<Longrightarrow> queue_ok (updatePendingTaskRetry t a now reason q)"
  "queue_ok q \<Longrightarrow> queue_ok (markPendingTaskRetryAlert t a ts q)"
  "queue_ok q \<Longrightarrow> queue_ok (insertPendingTaskRetryIfNew t a now reason q)"
proof -
  assume ok: "queue_ok q"
  show "queue_ok (deletePendingTaskRetry t a q)"
    using ok by (simp add: queue_ok_def deletePendingTaskRetry_def distinct_map inj_on_def)
  have "map row_key (updatePendingTaskRetry t a now reason q) = map row_key q"
    unfolding updatePendingTaskRetry_def by (rule map_row_key_id) simp
  with ok show "queue_ok (updatePendingTaskRetry t a now reason q)" by (simp add: queue_ok_def)
  have "map row_key (markPendingTaskRetryAlert t a ts q) = map row_key q"
    unfolding markPendingTaskRetryAlert_def by (rule map_row_key_id) simp
  with ok show "queue_ok (markPendingTaskRetryAlert t a ts q)" by (simp add: queue_ok_def)
  show "queue_ok (insertPendingTaskRetryIfNew t a now reason q)"
    using ok by (auto simp: queue_ok_def insertPendingTaskRetryIfNew_def list_ex_iff is_row_key row_key_def)
qed

end
