(* ===== verification/Scheduler.thy ===== *)
theory Scheduler
  imports RetryQueue PaneState QuotaGate
begin

text \<open>
  The scheduled-task runner of \<open>src/web/schedule-runner.ts\<close>: one tick (\<open>run_check\<close>, the function
  \<open>runCheck\<close>) sweeps the tracked injections, works off the retry queue and scans the cron window that
  the previous tick left. What a tick measures or is told from outside (clock, task table, panes, the
  outcome of starting and typing, pre-check scripts, the cron library, an operator cancelling a row)
  is the record \<open>sched_tick\<close>; database writes succeed. Times are milliseconds.
\<close>

section \<open>Tasks\<close>

datatype task_type = TTask | THeartbeat | TCommand | TOther

record sched_task =
  st_name :: string
  st_type :: task_type
  st_agent :: string
  st_schedule :: string
  st_enabled :: bool
  st_status :: "string option"
  skipIfBusy :: bool
  forceSend :: bool
  catchUpMaxAgeMinutes :: "rat option"
  stuckAfterMinutes :: "rat option"

definition isTaskLive :: "sched_task \<Rightarrow> bool" where
  "isTaskLive k \<longleftrightarrow> st_status k = None \<or> st_status k = Some ''live''"

definition TASK_FIRE_GRACE_MS :: rat where "TASK_FIRE_GRACE_MS = 30000"
definition TASK_FIRE_TIMEOUT_MS :: rat where "TASK_FIRE_TIMEOUT_MS = 300000"
definition TASK_FIRE_MAX_TRACK_MS :: rat where "TASK_FIRE_MAX_TRACK_MS = 6 * 60 * 60000"
definition SCHEDULE_JANITOR_PARKED_MIN_AGE_MS :: rat where "SCHEDULE_JANITOR_PARKED_MIN_AGE_MS = 120000"
definition SCHEDULE_MAX_CATCHUP_MS :: rat where "SCHEDULE_MAX_CATCHUP_MS = 24 * 60 * 60000"
definition SCHEDULE_COLD_START_CATCHUP_MS :: rat where "SCHEDULE_COLD_START_CATCHUP_MS = 30 * 60000"
definition TICK_STATE_PERSIST_INTERVAL_MS :: rat where "TICK_STATE_PERSIST_INTERVAL_MS = 60000"
definition LATE_CATCHUP_THRESHOLD_MS :: rat where "LATE_CATCHUP_THRESHOLD_MS = 90000"

definition resolveStuckTimeoutMs :: "sched_task \<Rightarrow> rat" where
  "resolveStuckTimeoutMs k =
     (case stuckAfterMinutes k of
        Some c \<Rightarrow> if c \<le> 0 then TASK_FIRE_TIMEOUT_MS
                  else min (max (c * 60000) 60000) TASK_FIRE_MAX_TRACK_MS
      | None \<Rightarrow> TASK_FIRE_TIMEOUT_MS)"

definition DEFAULT_CATCHUP_MAX_AGE_MIN :: "task_type \<Rightarrow> rat" where
  "DEFAULT_CATCHUP_MAX_AGE_MIN ty = (case ty of THeartbeat \<Rightarrow> 30 | TCommand \<Rightarrow> 1440 | _ \<Rightarrow> 180)"

text \<open>\<open>None\<close> is \<open>Infinity\<close>.\<close>

definition catchUpMaxAgeMs :: "sched_task \<Rightarrow> rat option" where
  "catchUpMaxAgeMs k =
     (case catchUpMaxAgeMinutes k of
        Some m \<Rightarrow> if m < 0 then None else Some (m * 60000)
      | None \<Rightarrow> Some (DEFAULT_CATCHUP_MAX_AGE_MIN (st_type k) * 60000))"

datatype catch_up = OnTime | CatchUp | Stale

definition decideCatchUp :: "sched_task \<Rightarrow> rat \<Rightarrow> catch_up" where
  "decideCatchUp k age =
     (if age \<le> LATE_CATCHUP_THRESHOLD_MS then OnTime
      else if (case catchUpMaxAgeMs k of None \<Rightarrow> True | Some m \<Rightarrow> age \<le> m) then CatchUp else Stale)"

definition computeCatchUpStart :: "rat option \<Rightarrow> rat \<Rightarrow> rat" where
  "computeCatchUpStart persisted now =
     (case persisted of
        None \<Rightarrow> now - SCHEDULE_COLD_START_CATCHUP_MS
      | Some p \<Rightarrow> if p > now then now - SCHEDULE_COLD_START_CATCHUP_MS else max p (now - SCHEDULE_MAX_CATCHUP_MS))"

definition quotaWorkClass :: "sched_task \<Rightarrow> work_class" where
  "quotaWorkClass k = (case st_type k of TCommand \<Rightarrow> Free | THeartbeat \<Rightarrow> Background | _ \<Rightarrow> OwnerFacing)"

definition taskInjectionRank :: "sched_task \<Rightarrow> nat" where
  "taskInjectionRank k = (if forceSend k then 0 else if st_type k = THeartbeat then 2 else 1)"

text \<open>\<open>cronPrevOccurrence\<close>; \<open>prev\<close> is the cron library: the last occurrence strictly before a time.\<close>

definition cronPrevOccurrence :: "(string \<Rightarrow> rat \<Rightarrow> rat option) \<Rightarrow> string \<Rightarrow> rat \<Rightarrow> rat \<Rightarrow> rat option" where
  "cronPrevOccurrence prev cron from_ms to_ms =
     (case prev cron (to_ms + 1) of
        Some p \<Rightarrow> if p > from_ms then Some p else None
      | None \<Rightarrow> None)"

section \<open>State and tick\<close>

datatype fire_result = Fired | Busy | Missing | Starting | FireError | McpMissing "string list" | FirstRun

datatype run_status = RunFired | RunFiredLate | RunSkipped | RunMissed | RunMissingRetrying | RunError | RunLost

record inflight_entry =
  in_task :: string
  in_agent :: string
  injectedAt :: rat
  in_alerted :: bool
  sawTurn :: bool
  in_timeoutMs :: rat
  in_restored :: bool
  in_snapshot :: bool

text \<open>Calls into other components, in order.\<close>

datatype sched_effect =
    BlackboardDone string string
  | TimeoutAlert string string rat
  | AuditUnverified string string
  | AuditSkipNotLive string
  | TenantMismatchAlert string
  | RetryAlert string string rat
  | ClearParkedInput string string
  | CommandStarted string

record sched_state =
  retries :: "retry_row list"
  taskRuns :: "(string \<times> string \<times> run_status) list"
  lastRunAt :: "string \<Rightarrow> rat option"
  tracked :: "inflight_entry list"
  pendingKeys :: "string list"
  notLiveAlerted :: "string list"
  tenantMismatchAlerted :: "string list"
  effects :: "sched_effect list"
  lastCheckMs :: rat
  lastPersistedTickMs :: rat
  storedTickMs :: "rat option"

datatype start_outcome = StartOk | StartAlreadyRunning | StartFailed

record fire_view =
  fv_exists :: bool
  fv_start :: start_outcome
  fv_ready :: bool
  fv_gate :: bool
  fv_saturated :: bool
  fv_mcp_missing :: "string list"
  fv_sent :: bool
  fv_board_row :: bool

record sched_tick =
  tk_now :: rat
  tk_tasks :: "sched_task list"
  tk_main :: string
  tk_running :: "string list"
  tk_fire :: "string \<Rightarrow> string \<Rightarrow> fire_view"
  tk_precheck_skip :: "string \<Rightarrow> bool"
  tk_cancelled :: "string \<Rightarrow> string \<Rightarrow> bool"
  tk_orphan :: "string \<Rightarrow> bool"
  tk_quota :: "quota_snapshot option"
  tk_prev :: "string \<Rightarrow> rat \<Rightarrow> rat option"
  tk_pane :: "string \<Rightarrow> string \<Rightarrow> pane_state option"
  tk_transcript :: "string \<Rightarrow> string \<Rightarrow> rat option"

definition inflightKey :: "string \<Rightarrow> string \<Rightarrow> string" where
  "inflightKey t a = t @ ''@'' @ a"

definition appendTaskRun :: "string \<Rightarrow> string \<Rightarrow> run_status \<Rightarrow> sched_state \<Rightarrow> sched_state" where
  "appendTaskRun t a st s = s\<lparr>taskRuns := taskRuns s @ [(t, a, st)]\<rparr>"

definition emit :: "sched_effect \<Rightarrow> sched_state \<Rightarrow> sched_state" where
  "emit e s = s\<lparr>effects := effects s @ [e]\<rparr>"

definition recordScheduleLastRun :: "string \<Rightarrow> rat \<Rightarrow> sched_state \<Rightarrow> sched_state" where
  "recordScheduleLastRun t when s = s\<lparr>lastRunAt := (lastRunAt s)(t := Some when)\<rparr>"

definition clearScheduleLastRunIfMatches :: "string \<Rightarrow> rat \<Rightarrow> sched_state \<Rightarrow> sched_state" where
  "clearScheduleLastRunIfMatches t expected s =
     (if lastRunAt s t = Some expected then s\<lparr>lastRunAt := (lastRunAt s)(t := None)\<rparr> else s)"

definition same_key :: "inflight_entry \<Rightarrow> inflight_entry \<Rightarrow> bool" where
  "same_key e f \<longleftrightarrow> inflightKey (in_task e) (in_agent e) = inflightKey (in_task f) (in_agent f)"

definition trackInflight :: "inflight_entry \<Rightarrow> sched_state \<Rightarrow> sched_state" where
  "trackInflight e s = s\<lparr>tracked := filter (\<lambda>f. \<not> same_key e f) (tracked s) @ [e]\<rparr>"

definition queue_retry :: "string \<Rightarrow> string \<Rightarrow> rat \<Rightarrow> string \<Rightarrow> sched_state \<Rightarrow> sched_state" where
  "queue_retry t a now reason s = s\<lparr>retries := insertPendingTaskRetryIfNew t a now reason (retries s)\<rparr>"

definition drop_retry :: "string \<Rightarrow> string \<Rightarrow> sched_state \<Rightarrow> sched_state" where
  "drop_retry t a s = s\<lparr>retries := deletePendingTaskRetry t a (retries s)\<rparr>"

section \<open>Firing\<close>

text \<open>
  The outcome of \<open>attemptFireTask\<close>. For \<open>forceSend\<close> the readiness check is bypassed, but a saturated
  pane and a first-run dialog are not.
\<close>

definition fire_outcome :: "fire_view \<Rightarrow> sched_task \<Rightarrow> fire_result" where
  "fire_outcome v k =
     (if \<not> fv_exists v
      then (case fv_start v of StartOk \<Rightarrow> Starting | StartAlreadyRunning \<Rightarrow> Busy | StartFailed \<Rightarrow> Missing)
      else if \<not> forceSend k \<and> \<not> fv_ready v then (if fv_gate v then FirstRun else Busy)
      else if forceSend k \<and> fv_saturated v then Busy
      else if forceSend k \<and> fv_gate v then FirstRun
      else if st_type k \<noteq> TCommand \<and> fv_mcp_missing v \<noteq> [] \<and> \<not> forceSend k then McpMissing (fv_mcp_missing v)
      else if fv_sent v then Fired
      else FireError)"

definition new_entry :: "sched_task \<Rightarrow> string \<Rightarrow> rat \<Rightarrow> bool \<Rightarrow> inflight_entry" where
  "new_entry k a now snap =
     \<lparr>in_task = st_name k, in_agent = a, injectedAt = now, in_alerted = False, sawTurn = False,
      in_timeoutMs = resolveStuckTimeoutMs k, in_restored = False, in_snapshot = snap\<rparr>"

definition attemptFireTask :: "sched_tick \<Rightarrow> sched_task \<Rightarrow> string \<Rightarrow> bool \<Rightarrow> sched_state \<Rightarrow> sched_state \<times> fire_result" where
  "attemptFireTask t k a late s =
     (let v = tk_fire t (st_name k) a; now = tk_now t
      in case fire_outcome v k of
           Fired \<Rightarrow>
             (trackInflight (new_entry k a now (fv_board_row v))
                (appendTaskRun (st_name k) a (if late then RunFiredLate else RunFired)
                  (recordScheduleLastRun (st_name k) now s)), Fired)
         | FireError \<Rightarrow> (appendTaskRun (st_name k) a RunError s, FireError)
         | r \<Rightarrow> (s, r))"

definition mcpMissingReason :: "string list \<Rightarrow> string" where
  "mcpMissingReason missing =
     (if missing \<noteq> [] then ''mcp-missing:'' @ join_with '','' missing else ''mcp-missing'')"

definition reason_text :: "fire_result \<Rightarrow> string" where
  "reason_text r = (case r of
       Fired \<Rightarrow> ''fired'' | Busy \<Rightarrow> ''busy'' | Missing \<Rightarrow> ''missing'' | Starting \<Rightarrow> ''starting''
     | FireError \<Rightarrow> ''error'' | FirstRun \<Rightarrow> ''first-run'' | McpMissing ms \<Rightarrow> mcpMissingReason ms)"

definition fire_targets :: "sched_tick \<Rightarrow> sched_task \<Rightarrow> string list" where
  "fire_targets t k =
     (if st_agent k = ''all'' then tk_main t # tk_running t
      else [if st_agent k = [] then tk_main t else st_agent k])"

section \<open>The injection watchdog\<close>

datatype timeout_decision = TClear | TAlert | THold | TLost

definition decideTaskTimeout :: "inflight_entry \<Rightarrow> pane_state option \<Rightarrow> rat \<Rightarrow> timeout_decision" where
  "decideTaskTimeout e pane now =
     (let elapsed = now - injectedAt e
      in if elapsed \<ge> TASK_FIRE_MAX_TRACK_MS then TClear
         else if pane = Some PIdle
         then (if sawTurn e then TClear else if elapsed < TASK_FIRE_GRACE_MS then THold else TLost)
         else if in_alerted e then THold
         else if elapsed < TASK_FIRE_GRACE_MS then THold
         else if pane = Some PBusy \<and> elapsed \<ge> in_timeoutMs e then TAlert
         else THold)"

definition agentsWithRunnerRow :: "inflight_entry list \<Rightarrow> string set" where
  "agentsWithRunnerRow es = in_agent ` set (filter in_snapshot es)"

definition note_turn :: "sched_tick \<Rightarrow> inflight_entry \<Rightarrow> inflight_entry" where
  "note_turn t e =
     (if sawTurn e then e
      else if tk_pane t (in_task e) (in_agent e) = Some PBusy then e\<lparr>sawTurn := True\<rparr>
      else (case tk_transcript t (in_task e) (in_agent e) of
              Some m \<Rightarrow> if m > injectedAt e then e\<lparr>sawTurn := True\<rparr> else e
            | None \<Rightarrow> e))"

definition set_entry :: "inflight_entry \<Rightarrow> sched_state \<Rightarrow> sched_state" where
  "set_entry e s = s\<lparr>tracked := map (\<lambda>f. if same_key e f then e else f) (tracked s)\<rparr>"

definition drop_entry :: "inflight_entry \<Rightarrow> sched_state \<Rightarrow> sched_state" where
  "drop_entry e s = s\<lparr>tracked := filter (\<lambda>f. \<not> same_key e f) (tracked s)\<rparr>"

text \<open>\<open>applyBlackboardDone\<close> up to the comparison under the agent's blackboard lock.\<close>

definition applyBlackboardDone :: "inflight_entry \<Rightarrow> sched_state \<Rightarrow> sched_state" where
  "applyBlackboardDone e s =
     (if \<not> sawTurn e \<or> \<not> in_snapshot e then s else emit (BlackboardDone (in_task e) (in_agent e)) s)"

definition sweep_entry :: "sched_tick \<Rightarrow> inflight_entry \<Rightarrow> sched_state \<Rightarrow> sched_state" where
  "sweep_entry t e0 s =
     (let e = note_turn t e0; now = tk_now t
      in case decideTaskTimeout e (tk_pane t (in_task e) (in_agent e)) now of
           TClear \<Rightarrow> drop_entry e (applyBlackboardDone e s)
         | TAlert \<Rightarrow> set_entry (e\<lparr>in_alerted := True\<rparr>)
                      (emit (TimeoutAlert (in_task e) (in_agent e) (now - injectedAt e)) s)
         | TLost \<Rightarrow>
             (if in_restored e then drop_entry e (emit (AuditUnverified (in_task e) (in_agent e)) s)
              else drop_entry e
                     (queue_retry (in_task e) (in_agent e) now ''lost-injection''
                       (clearScheduleLastRunIfMatches (in_task e) (injectedAt e)
                         (appendTaskRun (in_task e) (in_agent e) RunLost s))))
         | THold \<Rightarrow> set_entry e s)"

definition sweepInflightTasks :: "sched_tick \<Rightarrow> sched_state \<Rightarrow> sched_state" where
  "sweepInflightTasks t s = fold (sweep_entry t) (tracked s) s"

section \<open>The retry pass\<close>

definition sendPendingRetryAlert :: "retry_row \<Rightarrow> rat \<Rightarrow> sched_state \<Rightarrow> sched_state" where
  "sendPendingRetryAlert r now s =
     (if alert_claimed (r_task r) (r_agent r) (retries s)
      then emit (RetryAlert (r_task r) (r_agent r) now)
             (s\<lparr>retries := markPendingTaskRetryAlert (r_task r) (r_agent r) now (retries s)\<rparr>)
      else s)"

text \<open>After an attempt that did not fire; \<open>r\<close> is the row as it was loaded.\<close>

definition note_missing :: "retry_row \<Rightarrow> fire_result \<Rightarrow> sched_state \<Rightarrow> sched_state" where
  "note_missing r result s =
     (if result = Missing \<and> r_reason r \<noteq> Some ''missing''
      then appendTaskRun (r_task r) (r_agent r) RunMissingRetrying s else s)"

definition operator_cancel :: "sched_tick \<Rightarrow> retry_row \<Rightarrow> sched_state \<Rightarrow> sched_state" where
  "operator_cancel t r s = (if tk_cancelled t (r_task r) (r_agent r) then drop_retry (r_task r) (r_agent r) s else s)"

definition refresh_retry :: "retry_row \<Rightarrow> rat \<Rightarrow> fire_result \<Rightarrow> sched_state \<Rightarrow> sched_state" where
  "refresh_retry r now result s =
     s\<lparr>retries := updatePendingTaskRetry (r_task r) (r_agent r) now (reason_text result) (retries s)\<rparr>"

definition alert_and_unpark :: "retry_row \<Rightarrow> rat \<Rightarrow> fire_result \<Rightarrow> sched_state \<Rightarrow> sched_state" where
  "alert_and_unpark r now result s =
     (let view = toPendingRetryView r now;
          s1 = (if alertDue view then sendPendingRetryAlert r now s else s)
      in if result = Busy \<and> ageMs view > SCHEDULE_JANITOR_PARKED_MIN_AGE_MS
         then emit (ClearParkedInput (r_task r) (r_agent r)) s1 else s1)"

definition keep_retry :: "sched_tick \<Rightarrow> retry_row \<Rightarrow> fire_result \<Rightarrow> sched_state \<Rightarrow> sched_state" where
  "keep_retry t r result s =
     (let s1 = operator_cancel t r (note_missing r result s);
          s2 = refresh_retry r (tk_now t) result s1;
          stillPresent = (getPendingTaskRetry (r_task r) (r_agent r) (retries s1) \<noteq> None)
      in if stillPresent then alert_and_unpark r (tk_now t) result s2 else s2)"

definition retry_step :: "sched_tick \<Rightarrow> retry_row \<Rightarrow> sched_state \<Rightarrow> sched_state" where
  "retry_step t r s =
     (case find (\<lambda>k. st_name k = r_task r) (tk_tasks t) of
        None \<Rightarrow> drop_retry (r_task r) (r_agent r) s
      | Some k \<Rightarrow>
          if \<not> st_enabled k \<or> \<not> isTaskLive k
          then drop_retry (r_task r) (r_agent r) (emit (AuditSkipNotLive (r_task r)) s)
          else (let s1 = s\<lparr>pendingKeys := inflightKey (r_task r) (r_agent r) # pendingKeys s\<rparr>
                in if tk_precheck_skip t (r_task r)
                   then appendTaskRun (r_task r) (r_agent r) RunSkipped (drop_retry (r_task r) (r_agent r) s1)
                   else (let (s2, result) = attemptFireTask t k (r_agent r) False s1
                         in if result = Fired then drop_retry (r_task r) (r_agent r) s2
                            else keep_retry t r result s2)))"

definition retry_pass :: "sched_tick \<Rightarrow> sched_state \<Rightarrow> sched_state" where
  "retry_pass t s = fold (retry_step t) (listPendingTaskRetries (retries s)) (s\<lparr>pendingKeys := []\<rparr>)"

section \<open>The cron pass\<close>

definition append_runs :: "string \<Rightarrow> string list \<Rightarrow> run_status \<Rightarrow> sched_state \<Rightarrow> sched_state" where
  "append_runs k as st = fold (\<lambda>a. appendTaskRun k a st) as"

definition cron_target :: "sched_tick \<Rightarrow> sched_task \<Rightarrow> bool \<Rightarrow> string \<Rightarrow> sched_state \<Rightarrow> sched_state" where
  "cron_target t k late a s =
     (if inflightKey (st_name k) a \<in> set (pendingKeys s) then s
      else (let (s1, result) = attemptFireTask t k a late s; now = tk_now t
            in case result of
                 Starting \<Rightarrow> queue_retry (st_name k) a now ''starting'' s1
               | Busy \<Rightarrow> if skipIfBusy k \<and> \<not> forceSend k then appendTaskRun (st_name k) a RunSkipped s1
                          else queue_retry (st_name k) a now ''busy'' s1
               | McpMissing ms \<Rightarrow> queue_retry (st_name k) a now (mcpMissingReason ms) s1
               | FirstRun \<Rightarrow> queue_retry (st_name k) a now ''first-run'' s1
               | _ \<Rightarrow> s1))"

text \<open>What happens to a task whose occurrence is due; \<open>occurrence\<close> is the one of the window.\<close>

definition run_occurrence :: "sched_tick \<Rightarrow> sched_task \<Rightarrow> rat \<Rightarrow> sched_state \<Rightarrow> sched_state" where
  "run_occurrence t k occurrence s =
     (let now = tk_now t; decision = decideCatchUp k (now - occurrence); targets = fire_targets t k
      in if decision = Stale then append_runs (st_name k) targets RunMissed s
         else if st_type k = TCommand then recordScheduleLastRun (st_name k) now (emit (CommandStarted (st_name k)) s)
         else if q_action (decideQuotaAction (tk_quota t) now (quotaWorkClass k)) = QDefer
         then append_runs (st_name k) targets RunSkipped (recordScheduleLastRun (st_name k) now s)
         else if tk_precheck_skip t (st_name k)
         then append_runs (st_name k) targets RunSkipped (recordScheduleLastRun (st_name k) now s)
         else fold (cron_target t k (decision = CatchUp)) targets s)"

definition tenant_mismatch :: "sched_tick \<Rightarrow> string list" where
  "tenant_mismatch t =
     map st_name (filter (\<lambda>k. st_enabled k \<and> isTaskLive k \<and> st_type k \<noteq> TCommand \<and> tk_orphan t (st_name k)) (tk_tasks t))"

text \<open>\<open>from\<close> and \<open>loaded\<close> are the window start and the last-run column as the tick loaded them.\<close>

definition cron_step ::
  "sched_tick \<Rightarrow> rat \<Rightarrow> (string \<Rightarrow> rat option) \<Rightarrow> sched_task \<Rightarrow> sched_state \<Rightarrow> sched_state" where
  "cron_step t from_ms loaded k s =
     (if \<not> st_enabled k \<or> \<not> isTaskLive k
      then (if st_name k \<in> set (notLiveAlerted s) then s
            else emit (AuditSkipNotLive (st_name k)) (s\<lparr>notLiveAlerted := st_name k # notLiveAlerted s\<rparr>))
      else if st_name k \<in> set (tenant_mismatch t)
      then (let seen = filter (\<lambda>n. n \<in> set (tenant_mismatch t)) (tenantMismatchAlerted s)
            in if st_name k \<in> set seen then s\<lparr>tenantMismatchAlerted := seen\<rparr>
               else emit (TenantMismatchAlert (st_name k)) (s\<lparr>tenantMismatchAlerted := st_name k # seen\<rparr>))
      else (case cronPrevOccurrence (tk_prev t) (st_schedule k) from_ms (tk_now t) of
              None \<Rightarrow> s
            | Some occurrence \<Rightarrow>
                if (case loaded (st_name k) of Some l \<Rightarrow> l | None \<Rightarrow> 0) \<ge> from_ms then s
                else run_occurrence t k occurrence s))"

definition cron_pass :: "sched_tick \<Rightarrow> rat \<Rightarrow> (string \<Rightarrow> rat option) \<Rightarrow> sched_state \<Rightarrow> sched_state" where
  "cron_pass t from_ms loaded = fold (cron_step t from_ms loaded) (sort_key taskInjectionRank (tk_tasks t))"

section \<open>The tick\<close>

definition close_tick :: "sched_tick \<Rightarrow> sched_state \<Rightarrow> sched_state" where
  "close_tick t s =
     (let s1 = s\<lparr>lastCheckMs := tk_now t\<rparr>
      in if tk_now t - lastPersistedTickMs s1 \<ge> TICK_STATE_PERSIST_INTERVAL_MS
         then s1\<lparr>storedTickMs := Some (tk_now t), lastPersistedTickMs := tk_now t\<rparr> else s1)"

definition run_check :: "sched_tick \<Rightarrow> sched_state \<Rightarrow> sched_state" where
  "run_check t s =
     close_tick t (cron_pass t (lastCheckMs s) (lastRunAt s) (retry_pass t (sweepInflightTasks t s)))"

text \<open>A process start: memory is gone, the tables stay, the tracked entries accepted back are \<open>restored\<close>.\<close>

definition startScheduleRunner :: "rat \<Rightarrow> inflight_entry list \<Rightarrow> sched_state \<Rightarrow> sched_state" where
  "startScheduleRunner now mirror s =
     s\<lparr>tracked := map (\<lambda>e. e\<lparr>in_restored := True\<rparr>) mirror, pendingKeys := [], notLiveAlerted := [],
       tenantMismatchAlerted := [],
       lastCheckMs := computeCatchUpStart (case storedTickMs s of Some n \<Rightarrow> (if n > 0 then Some n else None) | None \<Rightarrow> None) now,
       lastPersistedTickMs := 0\<rparr>"

section \<open>Lemmas\<close>

lemmas sched_ops = appendTaskRun_def emit_def recordScheduleLastRun_def clearScheduleLastRunIfMatches_def
  trackInflight_def queue_retry_def drop_retry_def set_entry_def drop_entry_def applyBlackboardDone_def

lemma fold_inv: "(\<And>x s. x \<in> set xs \<Longrightarrow> P s \<Longrightarrow> P (f x s)) \<Longrightarrow> P s \<Longrightarrow> P (fold f xs s)"
  by (induction xs arbitrary: s) auto

subsection \<open>What each pass may touch\<close>

lemma attempt_parts:
  "snd (attemptFireTask t k a late s) = fire_outcome (tk_fire t (st_name k) a) k"
  "retries (fst (attemptFireTask t k a late s)) = retries s"
  "effects (fst (attemptFireTask t k a late s)) = effects s"
  "pendingKeys (fst (attemptFireTask t k a late s)) = pendingKeys s"
  "lastCheckMs (fst (attemptFireTask t k a late s)) = lastCheckMs s"
  "\<exists>st. taskRuns (fst (attemptFireTask t k a late s)) = taskRuns s @
     (if fire_outcome (tk_fire t (st_name k) a) k \<in> {Fired, FireError} then [(st_name k, a, st)] else [])"
  by (auto simp: attemptFireTask_def Let_def sched_ops split: fire_result.splits)

text \<open>Nothing but the retry pass removes or changes a row.\<close>

lemma sweep_entry_retries:
  "getPendingTaskRetry n a (retries s) = Some r \<Longrightarrow> getPendingTaskRetry n a (retries (sweep_entry t e s)) = Some r"
  "queue_ok (retries s) \<Longrightarrow> queue_ok (retries (sweep_entry t e s))"
  "lastCheckMs (sweep_entry t e s) = lastCheckMs s"
  by (auto simp: sweep_entry_def Let_def sched_ops split: timeout_decision.splits)

lemma sweep_retries:
  "getPendingTaskRetry n a (retries s) = Some r \<Longrightarrow> getPendingTaskRetry n a (retries (sweepInflightTasks t s)) = Some r"
  "queue_ok (retries s) \<Longrightarrow> queue_ok (retries (sweepInflightTasks t s))"
  "lastCheckMs (sweepInflightTasks t s) = lastCheckMs s"
  unfolding sweepInflightTasks_def
  by (rule fold_inv; simp add: sweep_entry_retries)+

lemma queue_retry_parts [simp]:
  "retries (queue_retry n a now re s) = insertPendingTaskRetryIfNew n a now re (retries s)"
  "pendingKeys (queue_retry n a now re s) = pendingKeys s" "lastCheckMs (queue_retry n a now re s) = lastCheckMs s"
  "effects (queue_retry n a now re s) = effects s" "taskRuns (queue_retry n a now re s) = taskRuns s"
  by (simp_all add: queue_retry_def)

lemma append_parts [simp]:
  "retries (appendTaskRun n a st s) = retries s" "pendingKeys (appendTaskRun n a st s) = pendingKeys s"
  "lastCheckMs (appendTaskRun n a st s) = lastCheckMs s" "effects (appendTaskRun n a st s) = effects s"
  "taskRuns (appendTaskRun n a st s) = taskRuns s @ [(n, a, st)]"
  by (simp_all add: appendTaskRun_def)

text \<open>A target of the cron pass: left alone, or attempted with at most a row queued or a run appended.\<close>

lemma cron_target_cases:
  obtains "cron_target t k late b s = s" "inflightKey (st_name k) b \<in> set (pendingKeys s)"
  | s1 where "inflightKey (st_name k) b \<notin> set (pendingKeys s)" "s1 = fst (attemptFireTask t k b late s)"
      "cron_target t k late b s = s1" "fire_outcome (tk_fire t (st_name k) b) k \<in> {Fired, FireError, Missing}"
  | s1 re where "inflightKey (st_name k) b \<notin> set (pendingKeys s)" "s1 = fst (attemptFireTask t k b late s)"
      "cron_target t k late b s = queue_retry (st_name k) b (tk_now t) re s1"
      "fire_outcome (tk_fire t (st_name k) b) k \<notin> {Fired, FireError, Missing}"
  | s1 where "inflightKey (st_name k) b \<notin> set (pendingKeys s)" "s1 = fst (attemptFireTask t k b late s)"
      "cron_target t k late b s = appendTaskRun (st_name k) b RunSkipped s1"
      "fire_outcome (tk_fire t (st_name k) b) k = Busy"
  by (cases "fire_outcome (tk_fire t (st_name k) b) k"; cases "inflightKey (st_name k) b \<in> set (pendingKeys s)";
      cases "skipIfBusy k \<and> \<not> forceSend k")
     (auto simp: cron_target_def attempt_parts(1) split_beta Let_def split: if_splits)

lemma cron_target_frame:
  "pendingKeys (cron_target t k late b s) = pendingKeys s" "lastCheckMs (cron_target t k late b s) = lastCheckMs s"
  "effects (cron_target t k late b s) = effects s"
  "queue_ok (retries s) \<Longrightarrow> queue_ok (retries (cron_target t k late b s))"
  by (cases rule: cron_target_cases [of t k late b s]; simp add: attempt_parts)+

lemma cron_target_keeps:
  "getPendingTaskRetry n a (retries s) = Some r \<Longrightarrow> getPendingTaskRetry n a (retries (cron_target t k late b s)) = Some r"
  by (cases rule: cron_target_cases [of t k late b s]) (simp_all add: attempt_parts)

lemma cron_target_none:
  "getPendingTaskRetry n a (retries s) = None \<Longrightarrow> (st_name k, b) \<noteq> (n, a) \<or> inflightKey n a \<in> set (pendingKeys s) \<Longrightarrow>
     getPendingTaskRetry n a (retries (cron_target t k late b s)) = None"
  by (cases rule: cron_target_cases [of t k late b s]) (auto simp: attempt_parts)

lemma append_runs_parts [simp]:
  "retries (append_runs k as st s) = retries s" "pendingKeys (append_runs k as st s) = pendingKeys s"
  "effects (append_runs k as st s) = effects s" "lastCheckMs (append_runs k as st s) = lastCheckMs s"
  "taskRuns (append_runs k as st s) = taskRuns s @ map (\<lambda>a. (k, a, st)) as"
  by (induction as arbitrary: s) (simp_all add: append_runs_def appendTaskRun_def)


lemma fold_target_frame:
  "pendingKeys (fold (cron_target t k late) as s) = pendingKeys s"
  "lastCheckMs (fold (cron_target t k late) as s) = lastCheckMs s"
  "effects (fold (cron_target t k late) as s) = effects s"
  "queue_ok (retries s) \<Longrightarrow> queue_ok (retries (fold (cron_target t k late) as s))"
  by (induction as arbitrary: s) (simp_all add: cron_target_frame)

lemma fold_target_keeps:
  "getPendingTaskRetry n a (retries s) = Some r \<Longrightarrow>
     getPendingTaskRetry n a (retries (fold (cron_target t k late) as s)) = Some r"
  by (induction as arbitrary: s) (simp_all add: cron_target_keeps)

lemma fold_target_none:
  "getPendingTaskRetry n a (retries s) = None \<Longrightarrow> n \<noteq> st_name k \<or> inflightKey n a \<in> set (pendingKeys s) \<Longrightarrow>
     getPendingTaskRetry n a (retries (fold (cron_target t k late) as s)) = None"
proof (induction as arbitrary: s)
  case (Cons b as)
  have "getPendingTaskRetry n a (retries (cron_target t k late b s)) = None"
    by (rule cron_target_none) (use Cons.prems in auto)
  with Cons.IH [of "cron_target t k late b s"] Cons.prems(2) show ?case by (simp add: cron_target_frame)
qed simp

definition no_retry_alert :: "sched_effect \<Rightarrow> bool" where
  "no_retry_alert e \<longleftrightarrow> (case e of RetryAlert _ _ _ \<Rightarrow> False | _ \<Rightarrow> True)"

text \<open>The alerts for one row, oldest first.\<close>

definition retry_alerts :: "string \<Rightarrow> string \<Rightarrow> sched_state \<Rightarrow> rat list" where
  "retry_alerts n a s =
     concat (map (\<lambda>e. case e of RetryAlert m b w \<Rightarrow> if m = n \<and> b = a then [w] else [] | _ \<Rightarrow> []) (effects s))"

lemma retry_alerts_emit:
  "retry_alerts n a (emit e s) =
     retry_alerts n a s @ (case e of RetryAlert m b w \<Rightarrow> if m = n \<and> b = a then [w] else [] | _ \<Rightarrow> [])"
  by (simp add: retry_alerts_def emit_def)

lemma emit_parts [simp]:
  "retries (emit e s) = retries s" "pendingKeys (emit e s) = pendingKeys s" "lastCheckMs (emit e s) = lastCheckMs s"
  "taskRuns (emit e s) = taskRuns s"
  by (simp_all add: emit_def)

lemma last_run_parts [simp]:
  "retries (recordScheduleLastRun n w s) = retries s" "pendingKeys (recordScheduleLastRun n w s) = pendingKeys s"
  "lastCheckMs (recordScheduleLastRun n w s) = lastCheckMs s" "effects (recordScheduleLastRun n w s) = effects s"
  "taskRuns (recordScheduleLastRun n w s) = taskRuns s"
  by (simp_all add: recordScheduleLastRun_def)

lemma run_occurrence_cases:
  obtains "run_occurrence t k c s = append_runs (st_name k) (fire_targets t k) RunMissed s"
  | "run_occurrence t k c s = recordScheduleLastRun (st_name k) (tk_now t) (emit (CommandStarted (st_name k)) s)"
  | "run_occurrence t k c s =
       append_runs (st_name k) (fire_targets t k) RunSkipped (recordScheduleLastRun (st_name k) (tk_now t) s)"
  | late where "run_occurrence t k c s = fold (cron_target t k late) (fire_targets t k) s"
proof -
  consider "decideCatchUp k (tk_now t - c) = Stale" | "decideCatchUp k (tk_now t - c) \<noteq> Stale" "st_type k = TCommand"
    | "decideCatchUp k (tk_now t - c) \<noteq> Stale" "st_type k \<noteq> TCommand"
        "q_action (decideQuotaAction (tk_quota t) (tk_now t) (quotaWorkClass k)) = QDefer \<or> tk_precheck_skip t (st_name k)"
    | "decideCatchUp k (tk_now t - c) \<noteq> Stale" "st_type k \<noteq> TCommand"
        "\<not> (q_action (decideQuotaAction (tk_quota t) (tk_now t) (quotaWorkClass k)) = QDefer \<or> tk_precheck_skip t (st_name k))"
    by blast
  then show thesis
  proof cases
    case 1 then show thesis by (intro that(1)) (simp add: run_occurrence_def Let_def)
  next
    case 2 then show thesis by (intro that(2)) (simp add: run_occurrence_def Let_def)
  next
    case 3 then show thesis by (intro that(3)) (auto simp: run_occurrence_def Let_def)
  next
    case 4 then show thesis
      by (intro that(4) [of "decideCatchUp k (tk_now t - c) = CatchUp"]) (simp add: run_occurrence_def Let_def)
  qed
qed

lemma run_occurrence_frame:
  "pendingKeys (run_occurrence t k c s) = pendingKeys s \<and> lastCheckMs (run_occurrence t k c s) = lastCheckMs s \<and>
   retry_alerts n a (run_occurrence t k c s) = retry_alerts n a s \<and>
   (queue_ok (retries s) \<longrightarrow> queue_ok (retries (run_occurrence t k c s)))"
  by (cases rule: run_occurrence_cases [of t k c s])
     (simp_all add: fold_target_frame retry_alerts_def emit_def)

lemma run_occurrence_keeps:
  "getPendingTaskRetry n a (retries s) = Some r \<Longrightarrow> getPendingTaskRetry n a (retries (run_occurrence t k c s)) = Some r"
  by (cases rule: run_occurrence_cases [of t k c s]; simp add: fold_target_keeps)

lemma run_occurrence_none:
  "getPendingTaskRetry n a (retries s) = None \<Longrightarrow> n \<noteq> st_name k \<or> inflightKey n a \<in> set (pendingKeys s) \<Longrightarrow>
     getPendingTaskRetry n a (retries (run_occurrence t k c s)) = None"
  by (cases rule: run_occurrence_cases [of t k c s]; simp add: fold_target_none)

text \<open>A task of the cron pass: at most a once-only notice, or its due occurrence.\<close>

lemma cron_step_cases:
  obtains "cron_step t f l k s = s"
  | e xs ys where "no_retry_alert e"
      "cron_step t f l k s = emit e (s\<lparr>notLiveAlerted := xs, tenantMismatchAlerted := ys\<rparr>)"
  | xs where "cron_step t f l k s = s\<lparr>tenantMismatchAlerted := xs\<rparr>"
  | c where "cron_step t f l k s = run_occurrence t k c s" "st_enabled k" "isTaskLive k"
      "cronPrevOccurrence (tk_prev t) (st_schedule k) f (tk_now t) = Some c"
proof (cases "st_enabled k \<and> isTaskLive k")
  case False
  have u: "s\<lparr>notLiveAlerted := x\<rparr> = s\<lparr>notLiveAlerted := x, tenantMismatchAlerted := tenantMismatchAlerted s\<rparr>" for x
    by simp
  show thesis
  proof (cases "st_name k \<in> set (notLiveAlerted s)")
    case True
    with False show thesis by (intro that(1)) (auto simp: cron_step_def)
  next
    case new: False
    show thesis
      by (rule that(2) [where e = "AuditSkipNotLive (st_name k)" and xs = "st_name k # notLiveAlerted s" and ys = "tenantMismatchAlerted s"])
         (use False new in \<open>auto simp: cron_step_def no_retry_alert_def\<close>)
  qed
next
  case live: True
  show thesis
  proof (cases "st_name k \<in> set (tenant_mismatch t)")
    case True
    let ?seen = "filter (\<lambda>n. n \<in> set (tenant_mismatch t)) (tenantMismatchAlerted s)"
    show thesis
    proof (cases "st_name k \<in> set ?seen")
      case old: True
      show thesis by (rule that(3) [of ?seen]) (use live True old in \<open>simp add: cron_step_def Let_def\<close>)
    next
      case False
      show thesis
        by (rule that(2) [where e = "TenantMismatchAlert (st_name k)" and xs = "notLiveAlerted s" and ys = "st_name k # ?seen"])
           (use live True False in \<open>simp_all add: cron_step_def Let_def no_retry_alert_def\<close>)
    qed
  next
    case ok: False
    show thesis
    proof (cases "cronPrevOccurrence (tk_prev t) (st_schedule k) f (tk_now t)")
      case None
      with live ok show thesis by (intro that(1)) (simp add: cron_step_def)
    next
      case (Some c)
      show thesis
      proof (cases "(case l (st_name k) of Some x \<Rightarrow> x | None \<Rightarrow> 0) \<ge> f")
        case True
        with live ok Some show thesis by (intro that(1)) (simp add: cron_step_def)
      next
        case False
        with live ok Some show thesis by (intro that(4) [of c]) (simp_all add: cron_step_def)
      qed
    qed
  qed
qed

lemma no_alert_emit: "no_retry_alert e \<Longrightarrow> retry_alerts n a (emit e s) = retry_alerts n a s"
  by (auto simp: retry_alerts_emit no_retry_alert_def split: sched_effect.splits)

lemma cron_step_frame:
  "pendingKeys (cron_step t f l k s) = pendingKeys s \<and> lastCheckMs (cron_step t f l k s) = lastCheckMs s \<and>
   retry_alerts n a (cron_step t f l k s) = retry_alerts n a s \<and>
   (queue_ok (retries s) \<longrightarrow> queue_ok (retries (cron_step t f l k s)))"
proof (cases rule: cron_step_cases [of t f l k s])
  case (2 e xs ys)
  then show ?thesis by (simp add: no_alert_emit) (simp add: retry_alerts_def)
next
  case (3 xs)
  then show ?thesis by (simp add: retry_alerts_def)
qed (simp_all add: run_occurrence_frame)

lemma cron_step_keeps:
  "getPendingTaskRetry n a (retries s) = Some r \<Longrightarrow> getPendingTaskRetry n a (retries (cron_step t f l k s)) = Some r"
  by (cases rule: cron_step_cases [of t f l k s]; simp add: run_occurrence_keeps)

lemma cron_step_none:
  "getPendingTaskRetry n a (retries s) = None \<Longrightarrow>
     n \<noteq> st_name k \<or> \<not> st_enabled k \<or> \<not> isTaskLive k \<or> inflightKey n a \<in> set (pendingKeys s) \<Longrightarrow>
     getPendingTaskRetry n a (retries (cron_step t f l k s)) = None"
  by (cases rule: cron_step_cases [of t f l k s]) (auto simp: run_occurrence_none)

lemma cron_pass_frame:
  "lastCheckMs (cron_pass t f l s) = lastCheckMs s" "retry_alerts n a (cron_pass t f l s) = retry_alerts n a s"
  "queue_ok (retries s) \<Longrightarrow> queue_ok (retries (cron_pass t f l s))"
proof -
  have "lastCheckMs (fold (cron_step t f l) ks s) = lastCheckMs s \<and>
      retry_alerts n a (fold (cron_step t f l) ks s) = retry_alerts n a s" for ks
    by (induction ks arbitrary: s) (simp_all add: cron_step_frame)
  then show "lastCheckMs (cron_pass t f l s) = lastCheckMs s" "retry_alerts n a (cron_pass t f l s) = retry_alerts n a s"
    by (simp_all add: cron_pass_def)
  show "queue_ok (retries (cron_pass t f l s))" if "queue_ok (retries s)"
    unfolding cron_pass_def using that by (rule fold_inv [rotated]) (simp add: cron_step_frame)
qed

lemma cron_pass_keeps:
  "getPendingTaskRetry n a (retries s) = Some r \<Longrightarrow> getPendingTaskRetry n a (retries (cron_pass t f l s)) = Some r"
  unfolding cron_pass_def by (rule fold_inv) (simp_all add: cron_step_keeps)

lemma cron_pass_none:
  assumes "getPendingTaskRetry n a (retries s) = None"
    and "(\<forall>k \<in> set (tk_tasks t). st_name k = n \<longrightarrow> \<not> st_enabled k \<or> \<not> isTaskLive k) \<or> inflightKey n a \<in> set (pendingKeys s)"
  shows "getPendingTaskRetry n a (retries (cron_pass t f l s)) = None"
proof -
  have "getPendingTaskRetry n a (retries (cron_pass t f l s)) = None \<and> pendingKeys (cron_pass t f l s) = pendingKeys s"
    unfolding cron_pass_def
    by (rule fold_inv) (use assms in \<open>auto simp: cron_step_none cron_step_frame [of t f l _ _ n a]\<close>)
  then show ?thesis ..
qed

subsection \<open>The retry pass on one row\<close>

text \<open>What a tick makes of a row it loaded: \<open>None\<close> is removal.\<close>

definition row_after :: "sched_tick \<Rightarrow> retry_row \<Rightarrow> retry_row option" where
  "row_after t r =
     (case find (\<lambda>k. st_name k = r_task r) (tk_tasks t) of
        None \<Rightarrow> None
      | Some k \<Rightarrow>
          (let result = fire_outcome (tk_fire t (r_task r) (r_agent r)) k; now = tk_now t
           in if \<not> st_enabled k \<or> \<not> isTaskLive k \<or> tk_precheck_skip t (r_task r) \<or> result = Fired \<or>
                 tk_cancelled t (r_task r) (r_agent r)
              then None
              else Some (r\<lparr>lastAttempt := now, attemptCount := Suc (attemptCount r),
                           r_reason := Some (reason_text result),
                           alertSentAt := (if shouldSendAlert now (firstAttempt r) (alertSentAt r) then Some now
                                           else alertSentAt r)\<rparr>)))"

definition alerts_after :: "sched_tick \<Rightarrow> retry_row \<Rightarrow> rat list" where
  "alerts_after t r =
     (if row_after t r \<noteq> None \<and> shouldSendAlert (tk_now t) (firstAttempt r) (alertSentAt r) then [tk_now t] else [])"

lemma should_send_None: "shouldSendAlert now f sent \<Longrightarrow> sent = None"
  by (simp add: shouldSendAlert_def split: if_splits)

text \<open>Other rows are left alone.\<close>

lemma drop_parts [simp]:
  "retries (drop_retry n a s) = deletePendingTaskRetry n a (retries s)" "pendingKeys (drop_retry n a s) = pendingKeys s"
  "lastCheckMs (drop_retry n a s) = lastCheckMs s" "effects (drop_retry n a s) = effects s"
  by (simp_all add: drop_retry_def)

lemma alerts_simps [simp]:
  "retry_alerts n a (drop_retry m b s) = retry_alerts n a s"
  "retry_alerts n a (appendTaskRun m b st s) = retry_alerts n a s"
  "retry_alerts n a (s\<lparr>pendingKeys := ks\<rparr>) = retry_alerts n a s"
  "retry_alerts n a (s\<lparr>retries := q\<rparr>) = retry_alerts n a s"
  "retry_alerts n a (emit (AuditSkipNotLive m) s) = retry_alerts n a s"
  "retry_alerts n a (emit (ClearParkedInput m b) s) = retry_alerts n a s"
  "retry_alerts n a (fst (attemptFireTask t k b late s)) = retry_alerts n a s"
  by (simp_all add: retry_alerts_def emit_def attempt_parts)

lemma note_missing_parts [simp]:
  "retries (note_missing r res s) = retries s" "pendingKeys (note_missing r res s) = pendingKeys s"
  "lastCheckMs (note_missing r res s) = lastCheckMs s" "retry_alerts n a (note_missing r res s) = retry_alerts n a s"
  by (simp_all add: note_missing_def)

lemma refresh_parts [simp]:
  "retries (refresh_retry r now res s) =
     updatePendingTaskRetry (r_task r) (r_agent r) now (reason_text res) (retries s)"
  "pendingKeys (refresh_retry r now res s) = pendingKeys s" "lastCheckMs (refresh_retry r now res s) = lastCheckMs s"
  "retry_alerts n a (refresh_retry r now res s) = retry_alerts n a s"
  by (simp_all add: refresh_retry_def)

lemma send_alert_parts:
  "pendingKeys (sendPendingRetryAlert r now s) = pendingKeys s" "lastCheckMs (sendPendingRetryAlert r now s) = lastCheckMs s"
  "queue_ok (retries s) \<Longrightarrow> queue_ok (retries (sendPendingRetryAlert r now s))"
  by (simp_all add: sendPendingRetryAlert_def)

lemma alert_unpark_retries:
  "retries (alert_and_unpark r now res s) =
     (if alertDue (toPendingRetryView r now) then retries (sendPendingRetryAlert r now s) else retries s)"
  "retry_alerts n a (alert_and_unpark r now res s) =
     (if alertDue (toPendingRetryView r now) then retry_alerts n a (sendPendingRetryAlert r now s) else retry_alerts n a s)"
  "pendingKeys (alert_and_unpark r now res s) = pendingKeys s" "lastCheckMs (alert_and_unpark r now res s) = lastCheckMs s"
  by (simp_all add: alert_and_unpark_def Let_def send_alert_parts)

lemma keep_retry_other:
  assumes "r_task r \<noteq> n \<or> r_agent r \<noteq> a"
  shows "getPendingTaskRetry n a (retries (keep_retry t r result s)) = getPendingTaskRetry n a (retries s) \<and>
    retry_alerts n a (keep_retry t r result s) = retry_alerts n a s"
proof -
  have ne: "(n = r_task r \<and> a = r_agent r) = False" "(r_task r = n \<and> r_agent r = a) = False" using assms by auto
  have send: "getPendingTaskRetry n a (retries (sendPendingRetryAlert r now s)) = getPendingTaskRetry n a (retries s)"
    "retry_alerts n a (sendPendingRetryAlert r now s) = retry_alerts n a s" for now s
    using ne by (auto simp: sendPendingRetryAlert_def retry_alerts_emit)
  have cancel: "getPendingTaskRetry n a (retries (operator_cancel t r s)) = getPendingTaskRetry n a (retries s)"
    "retry_alerts n a (operator_cancel t r s) = retry_alerts n a s" for s
    using ne by (auto simp: operator_cancel_def)
  show ?thesis using ne by (auto simp: keep_retry_def Let_def alert_unpark_retries send cancel)
qed

lemma keep_retry_frame:
  "pendingKeys (keep_retry t r result s) = pendingKeys s" "lastCheckMs (keep_retry t r result s) = lastCheckMs s"
  "queue_ok (retries s) \<Longrightarrow> queue_ok (retries (keep_retry t r result s))"
  by (simp_all add: keep_retry_def Let_def alert_unpark_retries send_alert_parts operator_cancel_def)

lemma keep_retry_own:
  assumes "queue_ok (retries s)" and "getPendingTaskRetry (r_task r) (r_agent r) (retries s) = Some r"
  shows "getPendingTaskRetry (r_task r) (r_agent r) (retries (keep_retry t r result s)) =
      (if tk_cancelled t (r_task r) (r_agent r) then None
       else Some (r\<lparr>lastAttempt := tk_now t, attemptCount := Suc (attemptCount r),
                    r_reason := Some (reason_text result),
                    alertSentAt := (if shouldSendAlert (tk_now t) (firstAttempt r) (alertSentAt r) then Some (tk_now t)
                                    else alertSentAt r)\<rparr>)) \<and>
    retry_alerts (r_task r) (r_agent r) (keep_retry t r result s) =
      retry_alerts (r_task r) (r_agent r) s @
      (if \<not> tk_cancelled t (r_task r) (r_agent r) \<and> shouldSendAlert (tk_now t) (firstAttempt r) (alertSentAt r)
       then [tk_now t] else [])"
proof (cases "tk_cancelled t (r_task r) (r_agent r)")
  case True
  then show ?thesis by (simp add: keep_retry_def Let_def operator_cancel_def)
next
  case nc: False
  have v: "alertDue (toPendingRetryView r now) \<longleftrightarrow> shouldSendAlert now (firstAttempt r) (alertSentAt r)" for now
    by (simp add: toPendingRetryView_def)
  show ?thesis
  proof (cases "shouldSendAlert (tk_now t) (firstAttempt r) (alertSentAt r)")
    case False
    with assms nc v show ?thesis
      by (simp add: keep_retry_def Let_def operator_cancel_def alert_unpark_retries)
  next
    case True
    then have "alertSentAt r = None" by (rule should_send_None)
    with True assms nc v show ?thesis
      by (simp add: keep_retry_def Let_def operator_cancel_def alert_unpark_retries sendPendingRetryAlert_def
          alert_claimed_iff retry_alerts_emit)
  qed
qed

lemma retry_step_frame:
  "lastCheckMs (retry_step t r s) = lastCheckMs s"
  "set (pendingKeys s) \<subseteq> set (pendingKeys (retry_step t r s))"
  "queue_ok (retries s) \<Longrightarrow> queue_ok (retries (retry_step t r s))"
  by (auto simp: retry_step_def Let_def keep_retry_frame attempt_parts split_beta split: option.split)

lemma retry_step_other:
  assumes "r_task r \<noteq> n \<or> r_agent r \<noteq> a"
  shows "getPendingTaskRetry n a (retries (retry_step t r s)) = getPendingTaskRetry n a (retries s) \<and>
    retry_alerts n a (retry_step t r s) = retry_alerts n a s"
  using assms
  by (auto simp: retry_step_def Let_def keep_retry_other attempt_parts split_beta split: option.split)

lemma retry_step_own:
  assumes ok: "queue_ok (retries s)" and r: "getPendingTaskRetry (r_task r) (r_agent r) (retries s) = Some r"
  shows "getPendingTaskRetry (r_task r) (r_agent r) (retries (retry_step t r s)) = row_after t r \<and>
    retry_alerts (r_task r) (r_agent r) (retry_step t r s) = retry_alerts (r_task r) (r_agent r) s @ alerts_after t r"
proof (cases "find (\<lambda>k. st_name k = r_task r) (tk_tasks t)")
  case None
  then show ?thesis by (simp add: retry_step_def row_after_def alerts_after_def)
next
  case (Some k)
  then have nm: "st_name k = r_task r" by (auto dest: find_SomeD)
  let ?s = "s\<lparr>pendingKeys := inflightKey (r_task r) (r_agent r) # pendingKeys s\<rparr>"
  let ?s1 = "fst (attemptFireTask t k (r_agent r) False ?s)"
  have q: "queue_ok (retries ?s1)" "getPendingTaskRetry (r_task r) (r_agent r) (retries ?s1) = Some r"
    using ok r by (simp_all add: attempt_parts)
  from keep_retry_own [OF q] Some nm show ?thesis
    by (simp add: retry_step_def row_after_def alerts_after_def Let_def split_beta attempt_parts)
qed

text \<open>A row that is gone after its step either registered its key or belongs to no runnable task.\<close>

lemma retry_step_key:
  "row_after t r = None \<Longrightarrow>
     inflightKey (r_task r) (r_agent r) \<in> set (pendingKeys (retry_step t r s)) \<or>
     (case find (\<lambda>k. st_name k = r_task r) (tk_tasks t) of Some k \<Rightarrow> \<not> st_enabled k \<or> \<not> isTaskLive k | None \<Rightarrow> True)"
  by (auto simp: retry_step_def Let_def split_beta attempt_parts keep_retry_frame split: option.split)

lemma retry_fold_frame:
  "lastCheckMs (fold (retry_step t) rs s) = lastCheckMs s"
  "x \<in> set (pendingKeys s) \<Longrightarrow> x \<in> set (pendingKeys (fold (retry_step t) rs s))"
  "queue_ok (retries s) \<Longrightarrow> queue_ok (retries (fold (retry_step t) rs s))"
proof (induction rs arbitrary: s)
  case (Cons r rs)
  { case 1 show ?case by (simp add: Cons.IH(1) retry_step_frame) }
  { case 2 with retry_step_frame(2) [of s t r] show ?case by (auto intro!: Cons.IH(2)) }
  { case 3 then show ?case by (simp add: Cons.IH(3) retry_step_frame) }
qed simp_all

lemma retry_fold_other:
  "(n, a) \<notin> row_key ` set rs \<Longrightarrow>
     getPendingTaskRetry n a (retries (fold (retry_step t) rs s)) = getPendingTaskRetry n a (retries s) \<and>
     retry_alerts n a (fold (retry_step t) rs s) = retry_alerts n a s"
proof (induction rs arbitrary: s)
  case (Cons r rs)
  then have "r_task r \<noteq> n \<or> r_agent r \<noteq> a" by (auto simp: row_key_def)
  with Cons retry_step_other [OF this] show ?case by auto
qed simp

lemma retry_fold_own:
  assumes "queue_ok rs" and "queue_ok (retries s)" and "r \<in> set rs"
    and "getPendingTaskRetry (r_task r) (r_agent r) (retries s) = Some r"
  shows "getPendingTaskRetry (r_task r) (r_agent r) (retries (fold (retry_step t) rs s)) = row_after t r \<and>
    retry_alerts (r_task r) (r_agent r) (fold (retry_step t) rs s) =
      retry_alerts (r_task r) (r_agent r) s @ alerts_after t r \<and>
    (row_after t r = None \<longrightarrow>
       inflightKey (r_task r) (r_agent r) \<in> set (pendingKeys (fold (retry_step t) rs s)) \<or>
       (case find (\<lambda>k. st_name k = r_task r) (tk_tasks t) of Some k \<Rightarrow> \<not> st_enabled k \<or> \<not> isTaskLive k | None \<Rightarrow> True))"
  using assms
proof (induction rs arbitrary: s)
  case (Cons x rs)
  show ?case
  proof (cases "row_key x = row_key r")
    case True
    with Cons.prems(1,3) have x: "x = r" and "row_key r \<notin> row_key ` set rs" by (auto simp: queue_ok_def)
    then have notin: "(r_task r, r_agent r) \<notin> row_key ` set rs" by (simp add: row_key_def)
    have "row_after t r = None \<Longrightarrow>
       inflightKey (r_task r) (r_agent r) \<in> set (pendingKeys (fold (retry_step t) rs (retry_step t r s))) \<or>
       (case find (\<lambda>k. st_name k = r_task r) (tk_tasks t) of Some k \<Rightarrow> \<not> st_enabled k \<or> \<not> isTaskLive k | None \<Rightarrow> True)"
      using retry_step_key [of t r s] retry_fold_frame(2) by blast
    with retry_fold_other [OF notin, of t "retry_step t r s"] retry_step_own [OF Cons.prems(2,4), of t] x
    show ?thesis by simp
  next
    case False
    then have o: "r_task x \<noteq> r_task r \<or> r_agent x \<noteq> r_agent r" by (auto simp: row_key_def)
    have "queue_ok rs" "r \<in> set rs" using Cons.prems(1,3) False by (auto simp: queue_ok_def)
    moreover have "queue_ok (retries (retry_step t x s))" using Cons.prems(2) by (rule retry_step_frame)
    ultimately show ?thesis
      using Cons.IH [of "retry_step t x s"] retry_step_other [OF o, of t s] Cons.prems(4) by simp
  qed
qed simp

lemma listed_ok [simp]: "queue_ok q \<Longrightarrow> queue_ok (listPendingTaskRetries q)"
  by (simp add: queue_ok_def listPendingTaskRetries_def distinct_map)

lemma listed_set [simp]: "set (listPendingTaskRetries q) = set q"
  by (simp add: listPendingTaskRetries_def)

lemma close_parts [simp]:
  "retries (close_tick t s) = retries s" "effects (close_tick t s) = effects s" "lastCheckMs (close_tick t s) = tk_now t"
  "taskRuns (close_tick t s) = taskRuns s"
  by (simp_all add: close_tick_def Let_def)

lemma sweep_alerts: "retry_alerts n a (sweepInflightTasks t s) = retry_alerts n a s"
proof -
  have "retry_alerts n a (sweep_entry t e s) = retry_alerts n a s" for e s
    by (simp add: sweep_entry_def Let_def retry_alerts_def sched_ops split: timeout_decision.split)
  then have "retry_alerts n a (fold (sweep_entry t) es s) = retry_alerts n a s" for es
    by (induction es arbitrary: s) simp_all
  then show ?thesis by (simp add: sweepInflightTasks_def)
qed

text \<open>One whole tick on one queued row.\<close>

lemma tick_row:
  assumes ok: "queue_ok (retries s)" and r: "getPendingTaskRetry n a (retries s) = Some r"
    and names: "distinct (map st_name (tk_tasks t))"
  shows "getPendingTaskRetry n a (retries (run_check t s)) = row_after t r \<and>
    retry_alerts n a (run_check t s) = retry_alerts n a s @ alerts_after t r"
proof -
  let ?s1 = "sweepInflightTasks t s"
  let ?s2 = "retry_pass t ?s1"
  have na: "r_task r = n" "r_agent r = a" using get_Some [OF r] by simp_all
  have ok1: "queue_ok (retries ?s1)" and r1: "getPendingTaskRetry n a (retries ?s1) = Some r"
    using sweep_retries ok r by blast+
  then have mem: "r \<in> set (retries ?s1)" by (auto dest: get_Some)
  have own: "getPendingTaskRetry n a (retries ?s2) = row_after t r"
    "retry_alerts n a ?s2 = retry_alerts n a s @ alerts_after t r"
    and key: "row_after t r = None \<Longrightarrow> inflightKey n a \<in> set (pendingKeys ?s2) \<or>
       (case find (\<lambda>k. st_name k = n) (tk_tasks t) of Some k \<Rightarrow> \<not> st_enabled k \<or> \<not> isTaskLive k | None \<Rightarrow> True)"
    using retry_fold_own [of "listPendingTaskRetries (retries ?s1)" "?s1\<lparr>pendingKeys := []\<rparr>" r t] ok1 r1 mem na
    by (simp_all add: retry_pass_def sweep_alerts)
  have "getPendingTaskRetry n a (retries (cron_pass t f l ?s2)) = row_after t r" for f l
  proof (cases "row_after t r")
    case (Some r')
    with own cron_pass_keeps show ?thesis by simp
  next
    case None
    have "(\<forall>k \<in> set (tk_tasks t). st_name k = n \<longrightarrow> \<not> st_enabled k \<or> \<not> isTaskLive k) \<or>
        inflightKey n a \<in> set (pendingKeys ?s2)"
    proof (cases "find (\<lambda>k. st_name k = n) (tk_tasks t)")
      case None
      then show ?thesis by (auto simp: find_None_iff)
    next
      case (Some k)
      then have "k \<in> set (tk_tasks t)" "st_name k = n" by (auto dest: find_SomeD)
      then have "k' = k" if "k' \<in> set (tk_tasks t)" "st_name k' = n" for k'
        using names that by (auto simp: distinct_map inj_on_def)
      with key [OF None] Some show ?thesis by auto
    qed
    with own None show ?thesis by (simp add: cron_pass_none)
  qed
  moreover have "retry_alerts n a (run_check t s) = retry_alerts n a ?s2"
    using cron_pass_frame(2) [of n a] by (simp add: run_check_def retry_alerts_def)
  ultimately show ?thesis using own by (simp add: run_check_def)
qed

lemma tick_queue_ok: "queue_ok (retries s) \<Longrightarrow> queue_ok (retries (run_check t s))"
  by (simp add: run_check_def cron_pass_frame retry_pass_def retry_fold_frame sweep_retries)

lemma tick_window: "lastCheckMs (run_check t s) = tk_now t"
  by (simp add: run_check_def)

section \<open>Properties\<close>

text \<open>The task of a queued row can run, and this tick neither delivers it nor takes it off the queue.\<close>

definition row_kept :: "sched_tick \<Rightarrow> string \<Rightarrow> string \<Rightarrow> bool" where
  "row_kept t n a \<longleftrightarrow>
     distinct (map st_name (tk_tasks t)) \<and> \<not> tk_precheck_skip t n \<and> \<not> tk_cancelled t n a \<and>
     (\<exists>k \<in> set (tk_tasks t). st_name k = n \<and> st_enabled k \<and> isTaskLive k \<and> fire_outcome (tk_fire t n a) k \<noteq> Fired)"

lemma find_by_name:
  assumes "distinct (map st_name ks)" and "k \<in> set ks"
  shows "find (\<lambda>x. st_name x = st_name k) ks = Some k"
proof -
  obtain k' where k': "find (\<lambda>x. st_name x = st_name k) ks = Some k'"
    using assms(2) by (cases "find (\<lambda>x. st_name x = st_name k) ks") (auto simp: find_None_iff)
  then have "k' \<in> set ks" "st_name k' = st_name k" by (auto dest: find_SomeD)
  with assms have "k' = k" by (auto simp: distinct_map inj_on_def)
  with k' show ?thesis by simp
qed

lemma row_after_kept:
  assumes "row_kept t (r_task r) (r_agent r)"
  shows "\<exists>r'. row_after t r = Some r' \<and> r_task r' = r_task r \<and> r_agent r' = r_agent r \<and>
    firstAttempt r' = firstAttempt r \<and> attemptCount r' = Suc (attemptCount r) \<and>
    alertSentAt r' = (if shouldSendAlert (tk_now t) (firstAttempt r) (alertSentAt r) then Some (tk_now t) else alertSentAt r)"
proof -
  obtain k where k: "k \<in> set (tk_tasks t)" "st_name k = r_task r" "st_enabled k" "isTaskLive k"
    "fire_outcome (tk_fire t (r_task r) (r_agent r)) k \<noteq> Fired"
    using assms by (auto simp: row_kept_def)
  have "find (\<lambda>x. st_name x = r_task r) (tk_tasks t) = Some k"
    using find_by_name [OF _ k(1)] assms k(2) by (simp add: row_kept_def)
  with k assms show ?thesis by (simp add: row_after_def row_kept_def Let_def)
qed

text \<open>
  a queued retry is never abandoned. Over one tick a row of the retry queue disappears exactly
  when its task was deleted from the task table, is disabled or not live, is skipped by its pre-check,
  was delivered, or when the operator cancelled the row; a session that is busy, starting, missing,
  gated or without its servers keeps it, with its first attempt unchanged and its count one higher.
\<close>

theorem retry_row_lifecycle:
  assumes "queue_ok (retries s)" and "getPendingTaskRetry n a (retries s) = Some r"
    and "distinct (map st_name (tk_tasks t))"
  shows "(getPendingTaskRetry n a (retries (run_check t s)) = None \<longleftrightarrow>
      (\<forall>k \<in> set (tk_tasks t). st_name k = n \<longrightarrow>
         \<not> st_enabled k \<or> \<not> isTaskLive k \<or> tk_precheck_skip t n \<or> fire_outcome (tk_fire t n a) k = Fired \<or>
         tk_cancelled t n a)) \<and>
    (\<forall>r'. getPendingTaskRetry n a (retries (run_check t s)) = Some r' \<longrightarrow>
       firstAttempt r' = firstAttempt r \<and> attemptCount r' = Suc (attemptCount r))"
proof -
  have na: "r_task r = n" "r_agent r = a" using get_Some [OF assms(2)] by simp_all
  have tick: "getPendingTaskRetry n a (retries (run_check t s)) = row_after t r"
    using tick_row [OF assms] by blast
  show ?thesis
  proof (cases "find (\<lambda>x. st_name x = n) (tk_tasks t)")
    case None
    then have "\<forall>k \<in> set (tk_tasks t). st_name k \<noteq> n" by (auto simp: find_None_iff)
    with None na tick show ?thesis by (auto simp: row_after_def)
  next
    case (Some k)
    then have k: "k \<in> set (tk_tasks t)" "st_name k = n" by (auto dest: find_SomeD)
    have uniq: "k' = k" if "k' \<in> set (tk_tasks t)" "st_name k' = n" for k'
      using find_by_name [OF assms(3) that(1)] that(2) Some by simp
    have all: "(\<forall>k' \<in> set (tk_tasks t). st_name k' = n \<longrightarrow> P k') \<longleftrightarrow> P k" for P
      using uniq k by blast
    show ?thesis unfolding all tick using Some na by (simp add: row_after_def Let_def)
  qed
qed

definition sample_task :: sched_task where
  "sample_task = \<lparr>st_name = ''brief'', st_type = TTask, st_agent = [], st_schedule = ''0 7 * * *'', st_enabled = True,
     st_status = None, skipIfBusy = False, forceSend = False, catchUpMaxAgeMinutes = None, stuckAfterMinutes = None\<rparr>"

definition busy_view :: fire_view where
  "busy_view = \<lparr>fv_exists = True, fv_start = StartOk, fv_ready = False, fv_gate = False, fv_saturated = False,
     fv_mcp_missing = [], fv_sent = True, fv_board_row = True\<rparr>"

definition busy_tick :: "rat \<Rightarrow> sched_tick" where
  "busy_tick now = \<lparr>tk_now = now, tk_tasks = [sample_task], tk_main = ''main'', tk_running = [],
     tk_fire = (\<lambda>_ _. busy_view), tk_precheck_skip = (\<lambda>_. False), tk_cancelled = (\<lambda>_ _. False),
     tk_orphan = (\<lambda>_. False), tk_quota = None, tk_prev = (\<lambda>_ _. None), tk_pane = (\<lambda>_ _. None),
     tk_transcript = (\<lambda>_ _. None)\<rparr>"

definition waiting_row :: retry_row where
  "waiting_row = \<lparr>r_task = ''brief'', r_agent = ''main'', firstAttempt = 1000, lastAttempt = 1000, attemptCount = 1,
     r_reason = Some ''busy'', alertSentAt = None\<rparr>"

definition waiting_state :: sched_state where
  "waiting_state = \<lparr>retries = [waiting_row], taskRuns = [], lastRunAt = Map.empty, tracked = [], pendingKeys = [],
     notLiveAlerted = [], tenantMismatchAlerted = [], effects = [], lastCheckMs = 1000, lastPersistedTickMs = 0,
     storedTickMs = None\<rparr>"

lemma waiting_facts:
  "queue_ok (retries waiting_state)"
  "getPendingTaskRetry ''brief'' ''main'' (retries waiting_state) = Some waiting_row"
  "distinct (map st_name (tk_tasks (busy_tick n)))"
  by (simp_all add: queue_ok_def waiting_state_def getPendingTaskRetry_def is_row_def waiting_row_def busy_tick_def)

theorem retry_row_lifecycle_witness:
  "getPendingTaskRetry ''brief'' ''main''
     (retries (run_check ((busy_tick 16000)\<lparr>tk_fire := (\<lambda>_ _. busy_view\<lparr>fv_exists := False, fv_start := StartFailed\<rparr>)\<rparr>)
        waiting_state)) \<noteq> None"
proof -
  let ?t = "(busy_tick 16000)\<lparr>tk_fire := (\<lambda>_ _. busy_view\<lparr>fv_exists := False, fv_start := StartFailed\<rparr>)\<rparr>"
  have "distinct (map st_name (tk_tasks ?t))" by (simp add: busy_tick_def)
  note p = retry_row_lifecycle [OF waiting_facts(1,2) this]
  have "sample_task \<in> set (tk_tasks ?t)" "st_name sample_task = ''brief''" "st_enabled sample_task" "isTaskLive sample_task"
    "\<not> tk_precheck_skip ?t ''brief''" "fire_outcome (tk_fire ?t ''brief'' ''main'') sample_task \<noteq> Fired"
    "\<not> tk_cancelled ?t ''brief'' ''main''"
    by (simp_all add: busy_tick_def sample_task_def isTaskLive_def fire_outcome_def busy_view_def)
  with p show ?thesis by blast
qed

text \<open>
  one alert per stuck retry. In any run of ticks during which a queued row stays queued, its alert
  goes out exactly once, at the first tick that finds it waiting for more than an hour, and not
  before; meanwhile the row is retried at every tick.
\<close>

theorem retry_alert_once:
  assumes "queue_ok (retries s)" and "getPendingTaskRetry n a (retries s) = Some r"
    and "alertSentAt r = None" and "0 < firstAttempt r" and "\<forall>t \<in> set ts. row_kept t n a"
  shows "retry_alerts n a (fold run_check ts s) = retry_alerts n a s @
      take 1 (filter (\<lambda>now. now - firstAttempt r > 3600000) (map tk_now ts)) \<and>
    (\<exists>r'. getPendingTaskRetry n a (retries (fold run_check ts s)) = Some r' \<and>
       firstAttempt r' = firstAttempt r \<and> attemptCount r' = attemptCount r + length ts)"
proof -
  have "retry_alerts n a (fold run_check ts s) = retry_alerts n a s @
      (if alertSentAt r = None then take 1 (filter (\<lambda>now. now - firstAttempt r > 3600000) (map tk_now ts)) else []) \<and>
    (\<exists>r'. getPendingTaskRetry n a (retries (fold run_check ts s)) = Some r' \<and>
       firstAttempt r' = firstAttempt r \<and> attemptCount r' = attemptCount r + length ts)"
    if "queue_ok (retries s)" "getPendingTaskRetry n a (retries s) = Some r" "0 < firstAttempt r"
      "\<forall>t \<in> set ts. row_kept t n a" for s r
    using that
  proof (induction ts arbitrary: s r)
    case (Cons t ts)
    have na: "r_task r = n" "r_agent r = a" using get_Some [OF Cons.prems(2)] by simp_all
    have kept: "row_kept t n a" using Cons.prems(4) by simp
    then obtain r' where r': "row_after t r = Some r'" "firstAttempt r' = firstAttempt r"
      "attemptCount r' = Suc (attemptCount r)"
      "alertSentAt r' = (if shouldSendAlert (tk_now t) (firstAttempt r) (alertSentAt r) then Some (tk_now t) else alertSentAt r)"
      using row_after_kept [of t r] na by auto
    have one: "getPendingTaskRetry n a (retries (run_check t s)) = Some r'"
      "retry_alerts n a (run_check t s) = retry_alerts n a s @ alerts_after t r"
      using tick_row [OF Cons.prems(1,2)] kept r'(1) by (auto simp: row_kept_def)
    have ih: "retry_alerts n a (fold run_check ts (run_check t s)) = retry_alerts n a (run_check t s) @
        (if alertSentAt r' = None then take 1 (filter (\<lambda>now. now - firstAttempt r' > 3600000) (map tk_now ts)) else []) \<and>
      (\<exists>r''. getPendingTaskRetry n a (retries (fold run_check ts (run_check t s))) = Some r'' \<and>
         firstAttempt r'' = firstAttempt r' \<and> attemptCount r'' = attemptCount r' + length ts)"
      by (rule Cons.IH) (use Cons.prems one r' in \<open>auto simp: tick_queue_ok\<close>)
    have send: "shouldSendAlert (tk_now t) (firstAttempt r) (alertSentAt r) \<longleftrightarrow>
        alertSentAt r = None \<and> tk_now t - firstAttempt r > 3600000"
      using Cons.prems(3) by (auto simp: shouldSendAlert_def ALERT_THRESHOLD_MS_def)
    show ?case using ih one r' send by (auto simp: alerts_after_def)
  qed simp
  from this [OF assms(1,2,4,5)] assms(3) show ?thesis by simp
qed

theorem retry_alert_once_witness:
  "retry_alerts ''brief'' ''main'' (fold run_check (map busy_tick [16000, 3602000, 3617000]) waiting_state) = [3602000]"
proof -
  have "\<forall>t \<in> set (map busy_tick [16000, 3602000, 3617000]). row_kept t ''brief'' ''main''"
    by (simp add: row_kept_def busy_tick_def sample_task_def isTaskLive_def fire_outcome_def busy_view_def)
  from retry_alert_once [OF waiting_facts(1,2) _ _ this] show ?thesis
    by (simp add: waiting_row_def busy_tick_def waiting_state_def retry_alerts_def del: fold_simps fold.simps)
qed

text \<open>
  the scan windows tile time. For ticks whose clock advances, every instant after the start of the
  first window up to the last tick lies in the window of exactly one tick; and a runner started within
  a day of its stored stamp begins its first window at that stamp, so that the downtime is scanned.
\<close>

theorem scan_windows_partition:
  assumes "sorted_wrt (<) (lastCheckMs s # map tk_now ts)" and "lastCheckMs s < x" and "ts \<noteq> []"
    and "x \<le> tk_now (last ts)"
  shows "(\<exists>!i. i < length ts \<and> lastCheckMs (fold run_check (take i ts) s) < x \<and> x \<le> tk_now (ts ! i)) \<and>
    (\<forall>stamp now mirror. storedTickMs s = Some stamp \<and> 0 < stamp \<and> stamp \<le> now \<and> now - stamp \<le> 24 * 3600000 \<longrightarrow>
       lastCheckMs (startScheduleRunner now mirror s) = stamp)"
proof
  let ?from = "\<lambda>i. lastCheckMs (fold run_check (take i ts) s)"
  have start: "?from i = (if i = 0 then lastCheckMs s else tk_now (ts ! (i - 1)))" if "i \<le> length ts" for i
    using that by (cases i) (simp_all add: take_Suc_conv_app_nth tick_window)
  have mono: "tk_now (ts ! i) < tk_now (ts ! j)" if "i < j" "j < length ts" for i j
    using assms(1) that sorted_wrt_nth_less [of "(<)" "map tk_now ts" i j] by simp
  let ?P = "\<lambda>i. i < length ts \<and> x \<le> tk_now (ts ! i)"
  define i where "i = (LEAST i. ?P i)"
  have ex: "?P (length ts - 1)" using assms(3,4) by (simp add: last_conv_nth)
  have i: "?P i" unfolding i_def using ex by (rule LeastI)
  have low: "\<not> ?P j" if "j < i" for j using that not_less_Least unfolding i_def by blast
  have "?from i < x"
  proof (cases i)
    case 0
    then show ?thesis using assms(2) by simp
  next
    case (Suc j)
    with low [of j] i start [of i] show ?thesis by auto
  qed
  moreover have "j = i" if j: "j < length ts" "?from j < x" "x \<le> tk_now (ts ! j)" for j
  proof (rule ccontr)
    assume "j \<noteq> i"
    with low j have "i < j" using not_less_iff_gr_or_eq by blast
    then have "tk_now (ts ! i) \<le> tk_now (ts ! (j - 1))"
    proof -
      have "i = j - 1 \<or> i < j - 1" using \<open>i < j\<close> by arith
      moreover have "j - 1 < length ts" using j(1) by arith
      ultimately show ?thesis using mono [of i "j - 1"] by auto
    qed
    with i j start [of j] \<open>i < j\<close> show False by auto
  qed
  ultimately show "\<exists>!i. i < length ts \<and> ?from i < x \<and> x \<le> tk_now (ts ! i)" using i by blast
next
  show "\<forall>stamp now mirror. storedTickMs s = Some stamp \<and> 0 < stamp \<and> stamp \<le> now \<and> now - stamp \<le> 24 * 3600000 \<longrightarrow>
      lastCheckMs (startScheduleRunner now mirror s) = stamp"
    by (auto simp: startScheduleRunner_def computeCatchUpStart_def SCHEDULE_MAX_CATCHUP_MS_def)
qed

theorem scan_windows_partition_witness:
  "\<exists>!i. i < length (map busy_tick [16000, 31000, 46000]) \<and>
     lastCheckMs (fold run_check (take i (map busy_tick [16000, 31000, 46000])) waiting_state) < 31000 \<and>
     31000 \<le> tk_now (map busy_tick [16000, 31000, 46000] ! i)"
proof -
  have "sorted_wrt (<) (lastCheckMs waiting_state # map tk_now (map busy_tick [16000, 31000, 46000]))"
    by (simp add: waiting_state_def busy_tick_def)
  moreover have "lastCheckMs waiting_state < 31000" "map busy_tick [16000, 31000, 46000] \<noteq> []"
    "31000 \<le> tk_now (last (map busy_tick [16000, 31000, 46000]))"
    by (simp_all add: waiting_state_def busy_tick_def)
  ultimately show ?thesis by (rule scan_windows_partition [THEN conjunct1])
qed

text \<open>A run row appended after the first \<open>m\<close> rows, or a queued retry.\<close>

definition traced :: "string \<Rightarrow> string \<Rightarrow> nat \<Rightarrow> sched_state \<Rightarrow> bool" where
  "traced n a m s \<longleftrightarrow> (\<exists>st. (n, a, st) \<in> set (drop m (taskRuns s))) \<or> getPendingTaskRetry n a (retries s) \<noteq> None"

lemma traced_append:
  "m \<le> length (taskRuns s) \<Longrightarrow>
     traced n a m (appendTaskRun n' a' st s) \<longleftrightarrow> traced n a m s \<or> n = n' \<and> a = a'"
  by (auto simp: traced_def)

lemma traced_queue:
  "traced n a m (queue_retry n' a' now re s) \<longleftrightarrow> traced n a m s \<or> n = n' \<and> a = a'"
  by (auto simp: traced_def)

lemma attempt_traced:
  assumes "m \<le> length (taskRuns s)"
  shows "traced n a m (fst (attemptFireTask t k b late s)) \<longleftrightarrow>
      traced n a m s \<or> n = st_name k \<and> a = b \<and> fire_outcome (tk_fire t (st_name k) b) k \<in> {Fired, FireError}" (is ?A)
    and "m \<le> length (taskRuns (fst (attemptFireTask t k b late s)))" (is ?B)
proof -
  obtain st where "taskRuns (fst (attemptFireTask t k b late s)) = taskRuns s @
      (if fire_outcome (tk_fire t (st_name k) b) k \<in> {Fired, FireError} then [(st_name k, b, st)] else [])"
    using attempt_parts(6) [of t k b late s] by blast
  with assms show ?A and ?B by (auto simp: traced_def attempt_parts(2))
qed

lemma cron_target_traced:
  assumes "m \<le> length (taskRuns s)" and "inflightKey (st_name k) a \<notin> set (pendingKeys s)"
  shows "(traced (st_name k) a m (cron_target t k late b s) \<longleftrightarrow>
      traced (st_name k) a m s \<or> a = b \<and> fire_outcome (tk_fire t (st_name k) a) k \<noteq> Missing) \<and>
    m \<le> length (taskRuns (cron_target t k late b s))"
proof (cases rule: cron_target_cases [of t k late b s])
  case 1
  with assms show ?thesis by auto
qed (use assms attempt_traced(1) [OF assms(1), of "st_name k" a t k b late]
    attempt_traced(2) [OF assms(1), of t k b late] in \<open>auto simp: traced_append traced_queue\<close>)

lemma fold_target_traced:
  assumes "m \<le> length (taskRuns s)" and "inflightKey (st_name k) a \<notin> set (pendingKeys s)"
  shows "traced (st_name k) a m (fold (cron_target t k late) bs s) \<longleftrightarrow>
      traced (st_name k) a m s \<or> a \<in> set bs \<and> fire_outcome (tk_fire t (st_name k) a) k \<noteq> Missing"
  using assms
proof (induction bs arbitrary: s)
  case (Cons b bs)
  from cron_target_traced [OF Cons.prems, of t late b] Cons.IH [of "cron_target t k late b s"] Cons.prems(2)
  show ?case by (auto simp: cron_target_frame)
qed simp

text \<open>
  C37: an occurrence that is run leaves a trace, with one exception. For every agent an occurrence of a task that is no command
  is meant for and that has no queued retry, in memory or in the table, once the cron pass runs the occurrence (its guard
  against firing twice has not dropped it), the tick writes a run row or queues a retry, whatever comes out of the attempt;
  the only exception is a first attempt, neither stale nor put off nor skipped by its check, that finds no session and fails
  to start one: it leaves neither.
\<close>

theorem occurrence_leaves_trace:
  assumes "a \<in> set (fire_targets t k)" and "inflightKey (st_name k) a \<notin> set (pendingKeys s)"
    and "st_type k \<noteq> TCommand" and "getPendingTaskRetry (st_name k) a (retries s) = None"
  shows "traced (st_name k) a (length (taskRuns s)) (run_occurrence t k c s) \<longleftrightarrow>
    \<not> (fire_outcome (tk_fire t (st_name k) a) k = Missing \<and> decideCatchUp k (tk_now t - c) \<noteq> Stale \<and>
       q_action (decideQuotaAction (tk_quota t) (tk_now t) (quotaWorkClass k)) \<noteq> QDefer \<and>
       \<not> tk_precheck_skip t (st_name k))"
proof -
  have none: "\<not> traced (st_name k) a (length (taskRuns s)) s" using assms(4) by (simp add: traced_def)
  have runs: "traced (st_name k) a (length (taskRuns s)) (append_runs (st_name k) (fire_targets t k) st s')"
    if "taskRuns s' = taskRuns s" for st s'
    using that assms(1) by (auto simp: traced_def)
  show ?thesis
    using runs [of s RunMissed] runs [of "recordScheduleLastRun (st_name k) (tk_now t) s" RunSkipped]
      fold_target_traced [OF _ assms(2), of "length (taskRuns s)" t "decideCatchUp k (tk_now t - c) = CatchUp" "fire_targets t k"]
      none assms(1,3)
    by (auto simp: run_occurrence_def Let_def)
qed

theorem occurrence_leaves_trace_witness:
  "\<not> traced ''brief'' ''main'' 0
     (run_occurrence ((busy_tick 16000)\<lparr>tk_fire := (\<lambda>_ _. busy_view\<lparr>fv_exists := False, fv_start := StartFailed\<rparr>)\<rparr>)
        sample_task 15000 (waiting_state\<lparr>retries := []\<rparr>))"
proof -
  let ?t = "(busy_tick 16000)\<lparr>tk_fire := (\<lambda>_ _. busy_view\<lparr>fv_exists := False, fv_start := StartFailed\<rparr>)\<rparr>"
  let ?s = "waiting_state\<lparr>retries := []\<rparr>"
  have "''main'' \<in> set (fire_targets ?t sample_task)"
    by (simp add: fire_targets_def sample_task_def busy_tick_def)
  moreover have "inflightKey (st_name sample_task) ''main'' \<notin> set (pendingKeys ?s)" by (simp add: waiting_state_def)
  moreover have "st_type sample_task \<noteq> TCommand" by (simp add: sample_task_def)
  moreover have "getPendingTaskRetry (st_name sample_task) ''main'' (retries ?s) = None" by simp
  ultimately have "traced (st_name sample_task) ''main'' (length (taskRuns ?s)) (run_occurrence ?t sample_task 15000 ?s) \<longleftrightarrow>
    \<not> (fire_outcome (tk_fire ?t (st_name sample_task) ''main'') sample_task = Missing \<and>
       decideCatchUp sample_task (tk_now ?t - 15000) \<noteq> Stale \<and>
       q_action (decideQuotaAction (tk_quota ?t) (tk_now ?t) (quotaWorkClass sample_task)) \<noteq> QDefer \<and>
       \<not> tk_precheck_skip ?t (st_name sample_task))"
    by (rule occurrence_leaves_trace)
  then show ?thesis
    by (simp add: fire_outcome_def busy_view_def busy_tick_def sample_task_def decideCatchUp_def
        LATE_CATCHUP_THRESHOLD_MS_def quotaWorkClass_def decideQuotaAction_def run_now_def waiting_state_def)
qed

text \<open>
  the tick after a run is blind for that task. The guard against firing twice compares the last
  run with the start of the window and not with the occurrence: after a tick that recorded a run, the
  next tick leaves the task alone whatever its schedule says, so an occurrence that falls between the
  two ticks is dropped without a run, a retry or a record.
\<close>

theorem run_blinds_next_window:
  assumes "lastRunAt (run_check t1 s) (st_name k) = Some (tk_now t1)"
    and "st_enabled k" and "isTaskLive k" and "st_name k \<notin> set (tenant_mismatch t2)"
  shows "cron_step t2 (lastCheckMs (run_check t1 s)) (lastRunAt (run_check t1 s)) k s' = s'"
  using assms by (auto simp: cron_step_def tick_window split: option.split)

definition fired_tick :: sched_tick where
  "fired_tick = (busy_tick 16000)\<lparr>tk_fire := (\<lambda>_ _. busy_view\<lparr>fv_ready := True\<rparr>), tk_prev := (\<lambda>_ _. Some 15000)\<rparr>"

theorem run_blinds_next_window_witness:
  "let s1 = run_check fired_tick (waiting_state\<lparr>retries := []\<rparr>);
       t2 = (busy_tick 61000)\<lparr>tk_prev := (\<lambda>_ _. Some 60000)\<rparr>
   in cronPrevOccurrence (tk_prev t2) (st_schedule sample_task) (lastCheckMs s1) (tk_now t2) = Some 60000 \<and>
      cron_step t2 (lastCheckMs s1) (lastRunAt s1) sample_task s1 = s1"
proof -
  let ?s1 = "run_check fired_tick (waiting_state\<lparr>retries := []\<rparr>)"
  let ?t2 = "(busy_tick 61000)\<lparr>tk_prev := (\<lambda>_ _. Some 60000)\<rparr>"
  have run: "lastRunAt ?s1 (st_name sample_task) = Some (tk_now fired_tick)" by code_simp
  have "cron_step ?t2 (lastCheckMs ?s1) (lastRunAt ?s1) sample_task ?s1 = ?s1"
    by (rule run_blinds_next_window [OF run])
       (simp_all add: sample_task_def isTaskLive_def tenant_mismatch_def busy_tick_def)
  moreover have "cronPrevOccurrence (tk_prev ?t2) (st_schedule sample_task) (lastCheckMs ?s1) (tk_now ?t2) = Some 60000"
    by (simp add: tick_window cronPrevOccurrence_def busy_tick_def fired_tick_def)
  ultimately show ?thesis by (simp only: Let_def)
qed

subsection \<open>Lost injections\<close>

definition entry_key :: "inflight_entry \<Rightarrow> string" where
  "entry_key e = inflightKey (in_task e) (in_agent e)"

lemma note_turn_key [simp]:
  "in_task (note_turn t e) = in_task e" "in_agent (note_turn t e) = in_agent e" "injectedAt (note_turn t e) = injectedAt e"
  "in_restored (note_turn t e) = in_restored e"
  by (simp_all add: note_turn_def split: option.split)

text \<open>What the sweep of another entry leaves alone, and what only grows.\<close>

lemma sweep_entry_other:
  assumes "entry_key f \<noteq> entry_key e"
  shows "getPendingTaskRetry (in_task e) (in_agent e) (retries (sweep_entry t f s)) =
      getPendingTaskRetry (in_task e) (in_agent e) (retries s)"
    and "set (taskRuns s) \<subseteq> set (taskRuns (sweep_entry t f s))"
    and "(in_task e, in_agent e, st) \<in> set (taskRuns (sweep_entry t f s)) \<longleftrightarrow> (in_task e, in_agent e, st) \<in> set (taskRuns s)"
    and "lastRunAt s n \<noteq> Some w \<Longrightarrow> lastRunAt (sweep_entry t f s) n \<noteq> Some w"
    and "(\<exists>g \<in> set (tracked (sweep_entry t f s)). entry_key g = entry_key e) \<longleftrightarrow> (\<exists>g \<in> set (tracked s). entry_key g = entry_key e)"
proof -
  have ne: "in_task e \<noteq> in_task f \<or> in_agent e \<noteq> in_agent f" using assms by (auto simp: entry_key_def)
  show "getPendingTaskRetry (in_task e) (in_agent e) (retries (sweep_entry t f s)) =
      getPendingTaskRetry (in_task e) (in_agent e) (retries s)"
    using ne by (auto simp: sweep_entry_def Let_def sched_ops split: timeout_decision.split)
  show "set (taskRuns s) \<subseteq> set (taskRuns (sweep_entry t f s))"
    by (auto simp: sweep_entry_def Let_def sched_ops split: timeout_decision.split)
  show "(in_task e, in_agent e, st) \<in> set (taskRuns (sweep_entry t f s)) \<longleftrightarrow> (in_task e, in_agent e, st) \<in> set (taskRuns s)"
    using ne by (auto simp: sweep_entry_def Let_def sched_ops split: timeout_decision.split)
  show "lastRunAt (sweep_entry t f s) n \<noteq> Some w" if "lastRunAt s n \<noteq> Some w"
    using that by (auto simp: sweep_entry_def Let_def sched_ops split: timeout_decision.split)
  have k: "same_key (note_turn t f) g \<longleftrightarrow> entry_key g = entry_key f" for g
    by (auto simp: same_key_def entry_key_def)
  have k2: "same_key ((note_turn t f)\<lparr>in_alerted := True\<rparr>) g \<longleftrightarrow> entry_key g = entry_key f" for g
    by (auto simp: same_key_def entry_key_def)
  have k3: "entry_key (note_turn t f) = entry_key f" "entry_key ((note_turn t f)\<lparr>in_alerted := True\<rparr>) = entry_key f"
    by (simp_all add: entry_key_def)
  show "(\<exists>g \<in> set (tracked (sweep_entry t f s)). entry_key g = entry_key e) \<longleftrightarrow> (\<exists>g \<in> set (tracked s). entry_key g = entry_key e)"
    using assms by (auto simp: sweep_entry_def Let_def sched_ops k k2 k3 split: timeout_decision.split)
qed

lemma fold_sweep_other:
  assumes "entry_key e \<notin> entry_key ` set fs"
  shows "getPendingTaskRetry (in_task e) (in_agent e) (retries (fold (sweep_entry t) fs s)) =
      getPendingTaskRetry (in_task e) (in_agent e) (retries s) \<and>
    ((in_task e, in_agent e, st) \<in> set (taskRuns (fold (sweep_entry t) fs s)) \<longleftrightarrow> (in_task e, in_agent e, st) \<in> set (taskRuns s)) \<and>
    (lastRunAt s n \<noteq> Some w \<longrightarrow> lastRunAt (fold (sweep_entry t) fs s) n \<noteq> Some w) \<and>
    ((\<exists>g \<in> set (tracked (fold (sweep_entry t) fs s)). entry_key g = entry_key e) \<longleftrightarrow>
       (\<exists>g \<in> set (tracked s). entry_key g = entry_key e))"
  using assms
proof (induction fs arbitrary: s)
  case (Cons f fs)
  then have ne: "entry_key f \<noteq> entry_key e" and rest: "entry_key e \<notin> entry_key ` set fs" by auto
  show ?case
    using Cons.IH [OF rest, of "sweep_entry t f s"] sweep_entry_other(1,3,5) [OF ne, where t = t and s = s]
      sweep_entry_other(4) [OF ne, of s n w t] by auto
qed simp

lemma sweep_lost:
  assumes "tk_pane t (in_task e) (in_agent e) = Some PIdle" and "\<not> sawTurn (note_turn t e)"
    and "TASK_FIRE_GRACE_MS \<le> tk_now t - injectedAt e" and "tk_now t - injectedAt e < TASK_FIRE_MAX_TRACK_MS"
  shows "sweep_entry t e s =
    (if in_restored e then drop_entry (note_turn t e) (emit (AuditUnverified (in_task e) (in_agent e)) s)
     else drop_entry (note_turn t e)
            (queue_retry (in_task e) (in_agent e) (tk_now t) ''lost-injection''
              (clearScheduleLastRunIfMatches (in_task e) (injectedAt e)
                (appendTaskRun (in_task e) (in_agent e) RunLost s))))"
proof -
  have "decideTaskTimeout (note_turn t e) (tk_pane t (in_task e) (in_agent e)) (tk_now t) = TLost"
    using assms by (simp add: decideTaskTimeout_def Let_def)
  then show ?thesis by (simp add: sweep_entry_def Let_def)
qed

text \<open>
  a lost injection is queued again, once. When a tracked injection finds its pane idle after the
  grace period without any sign of a turn, the sweep stops tracking it; unless it was restored after a
  restart, its run is on record as lost, its last-run stamp is gone and a retry is queued; a restored
  one is neither recorded as lost nor queued.
\<close>

theorem lost_injection_requeued:
  assumes "distinct (map entry_key (tracked s))" and "e \<in> set (tracked s)"
    and "tk_pane t (in_task e) (in_agent e) = Some PIdle" and "\<not> sawTurn (note_turn t e)"
    and "30000 \<le> tk_now t - injectedAt e" and "tk_now t - injectedAt e < 6 * 3600000"
  shows "let s' = sweepInflightTasks t s; n = in_task e; a = in_agent e in
    (\<forall>g \<in> set (tracked s'). entry_key g \<noteq> entry_key e) \<and>
    (if in_restored e
     then getPendingTaskRetry n a (retries s') = getPendingTaskRetry n a (retries s) \<and>
          ((n, a, RunLost) \<in> set (taskRuns s') \<longleftrightarrow> (n, a, RunLost) \<in> set (taskRuns s))
     else getPendingTaskRetry n a (retries s') \<noteq> None \<and> (n, a, RunLost) \<in> set (taskRuns s') \<and>
          lastRunAt s' n \<noteq> Some (injectedAt e))"
proof -
  obtain xs ys where split: "tracked s = xs @ e # ys" using assms(2) by (meson split_list)
  with assms(1) have nx: "entry_key e \<notin> entry_key ` set xs" and ny: "entry_key e \<notin> entry_key ` set ys"
    by auto
  let ?s1 = "fold (sweep_entry t) xs s"
  let ?s2 = "sweep_entry t e ?s1"
  have fin: "sweepInflightTasks t s = fold (sweep_entry t) ys ?s2" by (simp add: sweepInflightTasks_def split)
  note lost = sweep_lost [OF assms(3,4), of ?s1] 
  have two: "?s2 = (if in_restored e then drop_entry (note_turn t e) (emit (AuditUnverified (in_task e) (in_agent e)) ?s1)
     else drop_entry (note_turn t e)
            (queue_retry (in_task e) (in_agent e) (tk_now t) ''lost-injection''
              (clearScheduleLastRunIfMatches (in_task e) (injectedAt e)
                (appendTaskRun (in_task e) (in_agent e) RunLost ?s1))))"
    using lost assms(5,6) by (simp add: TASK_FIRE_GRACE_MS_def TASK_FIRE_MAX_TRACK_MS_def)
  have gone: "\<forall>g \<in> set (tracked ?s2). entry_key g \<noteq> entry_key e"
    unfolding two by (auto simp: sched_ops same_key_def entry_key_def)
  note ox = fold_sweep_other [OF nx, where t = t and s = s and st = RunLost and n = "in_task e" and w = "injectedAt e"]
  note oy = fold_sweep_other [OF ny, where t = t and s = ?s2 and st = RunLost and n = "in_task e" and w = "injectedAt e"]
  show ?thesis
  proof (cases "in_restored e")
    case True
    with two have "retries ?s2 = retries ?s1" "taskRuns ?s2 = taskRuns ?s1" by (simp_all add: sched_ops)
    with True ox oy gone show ?thesis by (auto simp: Let_def fin)
  next
    case False
    with two have "getPendingTaskRetry (in_task e) (in_agent e) (retries ?s2) \<noteq> None"
      "(in_task e, in_agent e, RunLost) \<in> set (taskRuns ?s2)" "lastRunAt ?s2 (in_task e) \<noteq> Some (injectedAt e)"
      by (auto simp: sched_ops)
    with False oy gone show ?thesis by (auto simp: Let_def fin)
  qed
qed

definition injected :: inflight_entry where
  "injected = new_entry sample_task ''main'' 1000 True"

theorem lost_injection_requeued_witness:
  "getPendingTaskRetry ''brief'' ''main''
     (retries (sweepInflightTasks ((busy_tick 61000)\<lparr>tk_pane := (\<lambda>_ _. Some PIdle)\<rparr>)
        (waiting_state\<lparr>retries := [], tracked := [injected]\<rparr>))) \<noteq> None"
proof -
  let ?t = "(busy_tick 61000)\<lparr>tk_pane := (\<lambda>_ _. Some PIdle)\<rparr>"
  let ?s = "waiting_state\<lparr>retries := [], tracked := [injected]\<rparr>"
  have "distinct (map entry_key (tracked ?s))" "injected \<in> set (tracked ?s)"
    "tk_pane ?t (in_task injected) (in_agent injected) = Some PIdle" by simp_all
  moreover have "\<not> sawTurn (note_turn ?t injected)" "30000 \<le> tk_now ?t - injectedAt injected"
    "tk_now ?t - injectedAt injected < 6 * 3600000"
    by (simp_all add: injected_def new_entry_def note_turn_def busy_tick_def)
  ultimately show ?thesis
    using lost_injection_requeued [of ?s injected ?t]
    by (simp add: Let_def injected_def new_entry_def sample_task_def)
qed

end
