(* ===== verification/SqlTable.thy ===== *)
theory SqlTable
  imports JsBase "HOL-Library.List_Lexorder" "HOL-Library.Char_ord" "HOL-Library.Option_ord" "HOL-Library.Product_Lexorder"
begin

text \<open>
  Tables of the database as lists of rows: a guarded \<open>UPDATE \<dots> WHERE\<close>, and the lookup
  \<open>ORDER BY <time> DESC, id DESC LIMIT 1\<close> (text keys compare byte by byte, \<open>NULL\<close> is the smallest
  time). The locale \<open>guarded_update\<close> is the contract of a write that closes its own guard: of several
  callers that race for one row, one changes it.
\<close>

definition sql_update :: "('r \<Rightarrow> bool) \<Rightarrow> ('r \<Rightarrow> 'r) \<Rightarrow> 'r list \<Rightarrow> 'r list" where
  "sql_update g f rows = map (\<lambda>r. if g r then f r else r) rows"

definition changed :: "('r \<Rightarrow> bool) \<Rightarrow> 'r list \<Rightarrow> bool" where
  "changed g rows = list_ex g rows"

definition newer :: "('r \<Rightarrow> int option) \<Rightarrow> ('r \<Rightarrow> string) \<Rightarrow> 'r \<Rightarrow> 'r \<Rightarrow> bool" where
  "newer time ident x y \<longleftrightarrow> time y < time x \<or> time y = time x \<and> ident y < ident x"

definition newest :: "('r \<Rightarrow> int option) \<Rightarrow> ('r \<Rightarrow> string) \<Rightarrow> ('r \<Rightarrow> bool) \<Rightarrow> 'r list \<Rightarrow> 'r option" where
  "newest time ident P rows =
     (case filter P rows of [] \<Rightarrow> None
      | r # rs \<Rightarrow> Some (fold (\<lambda>x best. if newer time ident x best then x else best) rs r))"

lemma sql_update_simps [simp]:
  "sql_update g f [] = []"
  "sql_update g f (r # rows) = (if g r then f r else r) # sql_update g f rows"
  by (simp_all add: sql_update_def)

lemma length_sql_update [simp]: "length (sql_update g f rows) = length rows"
  by (simp add: sql_update_def)

lemma set_sql_update: "r' \<in> set (sql_update g f rows) \<longleftrightarrow> (\<exists>r\<in>set rows. r' = (if g r then f r else r))"
  by (auto simp: sql_update_def)

lemma changed_iff: "changed g rows \<longleftrightarrow> (\<exists>r\<in>set rows. g r)"
  by (simp add: changed_def list_ex_iff)

lemma sql_update_unchanged: "\<not> changed g rows \<Longrightarrow> sql_update g f rows = rows"
  by (induction rows) (auto simp: changed_def)

lemma fold_newest_mem:
  "fold (\<lambda>x best. if newer time ident x best then x else best) rs r \<in> set (r # rs)"
  by (induction rs arbitrary: r) auto

lemma newest_SomeD: "newest time ident P rows = Some r \<Longrightarrow> r \<in> set rows \<and> P r"
proof -
  assume *: "newest time ident P rows = Some r"
  then obtain x xs where "filter P rows = x # xs" by (auto simp: newest_def split: list.splits)
  with * fold_newest_mem [of time ident xs x] have "r \<in> set (filter P rows)" by (auto simp: newest_def)
  then show ?thesis by simp
qed

lemma newest_None_iff: "newest time ident P rows = None \<longleftrightarrow> (\<forall>r\<in>set rows. \<not> P r)"
proof -
  have "newest time ident P rows = None \<longleftrightarrow> filter P rows = []" by (simp add: newest_def split: list.splits)
  then show ?thesis by (simp add: filter_empty_conv)
qed

lemma newer_iff: "newer time ident x y \<longleftrightarrow> (time y, ident y) < (time x, ident x)"
  by (auto simp: newer_def less_prod_simp)

lemma fold_newest_max:
  "x \<in> set (b # xs) \<Longrightarrow> \<not> newer time ident x (fold (\<lambda>x best. if newer time ident x best then x else best) xs b)"
proof (induction xs arbitrary: b x)
  case Nil
  then show ?case by (simp add: newer_def)
next
  case (Cons a xs)
  define c where "c = (if newer time ident a b then a else b)"
  let ?m = "fold (\<lambda>x best. if newer time ident x best then x else best) xs c"
  have c: "\<not> newer time ident b c" "\<not> newer time ident a c" by (auto simp: c_def newer_iff)
  have "\<not> newer time ident c ?m" by (rule Cons.IH) simp
  with c have "\<not> newer time ident b ?m" "\<not> newer time ident a ?m" by (auto simp: newer_iff)
  with Cons.prems Cons.IH [of x c] show ?case by (auto simp: c_def)
qed

lemma newest_max:
  assumes "newest time ident P rows = Some r" "x \<in> set rows" "P x"
  shows "\<not> newer time ident x r"
proof -
  from assms(1) obtain b xs where f: "filter P rows = b # xs" by (auto simp: newest_def split: list.splits)
  from assms(2,3) have "x \<in> set (filter P rows)" by simp
  with f have "x \<in> set (b # xs)" by simp
  from fold_newest_max [OF this, of time ident] assms(1) f show ?thesis by (simp add: newest_def)
qed

lemma newest_only:
  assumes "r \<in> set rows" "P r" "\<And>x. x \<in> set rows \<Longrightarrow> P x \<Longrightarrow> x = r"
  shows "newest time ident P rows = Some r"
proof (cases "newest time ident P rows")
  case None
  with assms(1,2) show ?thesis by (auto simp: newest_None_iff)
next
  case (Some x)
  with newest_SomeD [OF Some] assms(3) show ?thesis by blast
qed

section \<open>Writes that close their own guard\<close>

locale guarded_update =
  fixes key :: "'r \<Rightarrow> 'k" and guard :: "'a \<Rightarrow> 'r \<Rightarrow> bool" and upd :: "'a \<Rightarrow> 'r \<Rightarrow> 'r"
  assumes key_kept: "key (upd a r) = key r"
    and guard_closed: "guard a r \<Longrightarrow> \<not> guard b (upd a r)"
begin

lemma keys_kept [simp]: "map key (sql_update (guard a) (upd a) rows) = map key rows"
  by (induction rows) (auto simp: key_kept)

lemma loser:
  assumes "distinct (map key rows)" "r \<in> set rows" "guard a r"
    and "r' \<in> set (sql_update (guard a) (upd a) rows)" "key r' = key r"
  shows "\<not> guard b r'"
proof -
  from assms(4) obtain s where s: "s \<in> set rows" "r' = (if guard a s then upd a s else s)"
    by (auto simp: set_sql_update)
  with assms(5) have "key s = key r" by (auto simp: key_kept split: if_splits)
  with assms(1,2) s(1) have "s = r" by (auto simp: distinct_map inj_on_def)
  with s(2) assms(3) guard_closed show ?thesis by simp
qed

lemma write_once: "sql_update (guard a) (upd a) (sql_update (guard a) (upd a) rows) = sql_update (guard a) (upd a) rows"
  by (induction rows) (auto simp: guard_closed)

end

end
