(* ===== verification/ApprovalStore.thy ===== *)
theory ApprovalStore
  imports SqlTable
begin

text \<open>
  The storage of approval requests, \<open>src/db/vault.ts\<close>: the table \<open>approvals\<close>, the journal
  \<open>approval_events\<close> and every operation on them. A database transaction runs alone on its connection, so
  each operation is one step of the pair (table, journal). Times are epoch seconds of the server clock,
  passed as \<open>now\<close>; database writes succeed.
\<close>

section \<open>Rows\<close>

datatype approval_status = Pending | Approved | Rejected | TimedOut

text \<open>How a decision reached the server (\<open>ApprovalResolvedVia\<close>).\<close>

datatype via = DashboardSession | Bearer

record approval =
  ap_id :: string
  ap_agent :: string
  ap_category :: string
  ap_description :: string
  ap_payload :: "string option"
  ap_status :: approval_status
  timeout_at :: "int option"
  telegram_message_id :: "jsnum option"
  requested_at :: int
  resolved_at :: "int option"
  resolved_by :: "string option"
  ap_tenant :: string
  human_only :: bool
  resolved_via :: "via option"
  content_hash :: "string option"
  consumed_at :: "int option"
  consumed_by :: "string option"
  consumed_ref :: "string option"
  used_at :: "int option"
  used_ref :: "string option"

record create_params =
  cr_id :: string
  cr_agent :: string
  cr_category :: string
  cr_description :: string
  cr_payload :: "string option"
  cr_timeout_at :: "int option"
  cr_tenant :: "string option"
  cr_human_only :: bool
  cr_hash :: "string option"

datatype event_kind =
    EvConsumed | EvUsed | EvConsumeRefused | EvBearerDenied | EvOwnerUnreached | EvDeduplicated | EvSuppressed

record approval_event =
  ev_approval :: string
  ev_tenant :: string
  ev_kind :: event_kind
  ev_reason :: "string option"
  ev_actor :: "string option"
  ev_ref :: "string option"
  ev_at :: int

record approval_db =
  approvals :: "approval list"
  ap_events :: "approval_event list"

definition or_default :: "string option \<Rightarrow> string" where
  "or_default t = (case t of Some x \<Rightarrow> x | None \<Rightarrow> ''default'')"

definition pendingApproval :: "create_params \<Rightarrow> int \<Rightarrow> approval" where
  "pendingApproval p now =
     \<lparr>ap_id = cr_id p, ap_agent = cr_agent p, ap_category = cr_category p, ap_description = cr_description p,
      ap_payload = cr_payload p, ap_status = Pending, timeout_at = cr_timeout_at p, telegram_message_id = None,
      requested_at = now, resolved_at = None, resolved_by = None, ap_tenant = or_default (cr_tenant p),
      human_only = cr_human_only p, resolved_via = None, content_hash = cr_hash p,
      consumed_at = None, consumed_by = None, consumed_ref = None, used_at = None, used_ref = None\<rparr>"

definition getApproval :: "string \<Rightarrow> approval list \<Rightarrow> approval option" where
  "getApproval i rows = find (\<lambda>r. ap_id r = i) rows"

text \<open>The id is the primary key: a second row with it is a constraint error (\<open>None\<close>).\<close>

definition createApproval :: "create_params \<Rightarrow> int \<Rightarrow> approval_db \<Rightarrow> (approval \<times> approval_db) option" where
  "createApproval p now db =
     (if getApproval (cr_id p) (approvals db) \<noteq> None then None
      else let r = pendingApproval p now in Some (r, db\<lparr>approvals := approvals db @ [r]\<rparr>))"

definition recordApprovalEvent ::
  "int \<Rightarrow> approval \<Rightarrow> event_kind \<Rightarrow> string option \<Rightarrow> string option \<Rightarrow> string option \<Rightarrow> approval_db \<Rightarrow> approval_db" where
  "recordApprovalEvent now r kind reason actor ref db =
     db\<lparr>ap_events := ap_events db @ [\<lparr>ev_approval = ap_id r, ev_tenant = ap_tenant r, ev_kind = kind, ev_reason = reason,
                               ev_actor = actor, ev_ref = ref, ev_at = now\<rparr>]\<rparr>"

section \<open>Deciding and expiring\<close>

definition resolvable :: "string \<Rightarrow> approval_status \<Rightarrow> int \<Rightarrow> approval \<Rightarrow> bool" where
  "resolvable i st now r \<longleftrightarrow> ap_id r = i \<and> ap_status r = Pending \<and>
     (st = TimedOut \<or> timeout_at r = None \<or> (case timeout_at r of Some t \<Rightarrow> t > now | None \<Rightarrow> False))"

definition resolveApproval ::
  "string \<Rightarrow> approval_status \<Rightarrow> string \<Rightarrow> jsnum option \<Rightarrow> via option \<Rightarrow> int \<Rightarrow> approval_db \<Rightarrow> bool \<times> approval_db" where
  "resolveApproval i st by msg v now db =
     (changed (resolvable i st now) (approvals db),
      db\<lparr>approvals := sql_update (resolvable i st now)
           (\<lambda>r. r\<lparr>ap_status := st, resolved_at := Some now, resolved_by := Some by,
                  telegram_message_id := (case msg of Some m \<Rightarrow> Some m | None \<Rightarrow> telegram_message_id r),
                  resolved_via := v\<rparr>) (approvals db)\<rparr>)"

definition overdue :: "int \<Rightarrow> approval \<Rightarrow> bool" where
  "overdue now r \<longleftrightarrow> ap_status r = Pending \<and> (case timeout_at r of Some t \<Rightarrow> t \<le> now | None \<Rightarrow> False)"

definition expireTimedOutApprovals :: "int \<Rightarrow> approval_db \<Rightarrow> nat \<times> approval_db" where
  "expireTimedOutApprovals now db =
     (length (filter (overdue now) (approvals db)),
      db\<lparr>approvals := sql_update (overdue now)
           (\<lambda>r. r\<lparr>ap_status := TimedOut, resolved_at := Some now, resolved_by := Some ''system:timeout''\<rparr>)
           (approvals db)\<rparr>)"

section \<open>Using an approval up\<close>

definition HUMAN_DECIDED_CATEGORY :: string where "HUMAN_DECIDED_CATEGORY = ''email_send''"
definition CONSUME_REPLAY_WINDOW_S :: int where "CONSUME_REPLAY_WINDOW_S = 60"
definition SEND_ADOPT_WINDOW_S :: int where "SEND_ADOPT_WINDOW_S = 120"
definition GATE_SEND_REF_PREFIX :: string where "GATE_SEND_REF_PREFIX = ''gate-send-''"

text \<open>64 lowercase hex characters.\<close>

definition hex_char :: "char \<Rightarrow> bool" where
  "hex_char c \<longleftrightarrow> is_digit c \<or> 97 \<le> code c \<and> code c \<le> 102"

fun isContentHash :: "jsval \<Rightarrow> bool" where
  "isContentHash (JStr h) = (length h = 64 \<and> list_all hex_char h)"
| "isContentHash _ = False"

definition consumerLabel :: "string option \<Rightarrow> string option" where
  "consumerLabel c = (case c of None \<Rightarrow> None
     | Some s \<Rightarrow> let l = take 64 (js_trim s) in if l = [] then None else Some l)"

datatype use_refusal =
    NoSuchApproval | AgentMismatch | AlreadyConsumed | NotApproved | HashMismatch | Expired | NotHumanDecided
  | WrongCategory | StillPending | NoneDecided | WasRejected | AlreadyUsed

fun refusal_text :: "use_refusal \<Rightarrow> string" where
  "refusal_text NoSuchApproval = ''not_found''"
| "refusal_text AgentMismatch = ''agent_mismatch''"
| "refusal_text AlreadyConsumed = ''already_consumed''"
| "refusal_text NotApproved = ''not_approved''"
| "refusal_text HashMismatch = ''hash_mismatch''"
| "refusal_text Expired = ''expired''"
| "refusal_text NotHumanDecided = ''not_human_decided''"
| "refusal_text WrongCategory = ''wrong_category''"
| "refusal_text StillPending = ''pending''"
| "refusal_text NoneDecided = ''none''"
| "refusal_text WasRejected = ''rejected''"
| "refusal_text AlreadyUsed = ''already_used''"

text \<open>\<open>Taken replayed adopted row\<close>: the answer \<open>ok: true\<close>; \<open>Threw\<close> is the thrown error of a send without a ref.\<close>

datatype outcome = Taken bool bool approval | RefusedUse use_refusal "approval option" | Threw

record consume_params =
  cp_hash :: string
  principal :: string
  cp_tenant :: string
  window_s :: int
  cp_ref :: "string option"
  consumer :: "string option"

text \<open>\<open>t >= bound\<close> on a nullable column.\<close>

definition since :: "int option \<Rightarrow> int \<Rightarrow> bool" where
  "since t bound = (case t of Some x \<Rightarrow> bound \<le> x | None \<Rightarrow> False)"

text \<open>The \<open>WHERE\<close> of the one write that uses an approval up.\<close>

definition usable :: "string \<Rightarrow> consume_params \<Rightarrow> int \<Rightarrow> approval \<Rightarrow> bool" where
  "usable i p now r \<longleftrightarrow> ap_id r = i \<and> ap_status r = Approved \<and> consumed_at r = None
     \<and> content_hash r = Some (cp_hash p) \<and> ap_tenant r = cp_tenant p \<and> ap_agent r = principal p
     \<and> since (resolved_at r) (now - window_s p)
     \<and> (resolved_via r = Some DashboardSession
        \<or> (resolved_via r = Some Bearer \<and> ap_category r \<noteq> HUMAN_DECIDED_CATEGORY \<and> \<not> human_only r))"

definition consume_row :: "consume_params \<Rightarrow> int \<Rightarrow> string option \<Rightarrow> bool \<Rightarrow> approval \<Rightarrow> approval" where
  "consume_row p now ref seal r =
     (let r1 = r\<lparr>consumed_at := Some now, consumed_by := Some (principal p), consumed_ref := ref\<rparr>
      in if seal then r1\<lparr>used_at := Some now, used_ref := ref\<rparr> else r1)"

definition useUpApproval ::
  "string \<Rightarrow> consume_params \<Rightarrow> int \<Rightarrow> string option \<Rightarrow> bool \<Rightarrow> approval_db \<Rightarrow> bool \<times> approval_db" where
  "useUpApproval i p now ref seal db =
     (changed (usable i p now) (approvals db),
      db\<lparr>approvals := sql_update (usable i p now) (consume_row p now ref seal) (approvals db)\<rparr>)"

text \<open>\<open>LIKE\<close> folds the case of ASCII letters.\<close>

definition ascii_lower :: "char \<Rightarrow> char" where
  "ascii_lower c = (if 65 \<le> code c \<and> code c \<le> 90 then char_of (code c + 32) else c)"

definition like_gate_send :: "string option \<Rightarrow> bool" where
  "like_gate_send ref = (case ref of Some s \<Rightarrow> starts_with (map ascii_lower s) GATE_SEND_REF_PREFIX | None \<Rightarrow> False)"

definition adoptable :: "string \<Rightarrow> consume_params \<Rightarrow> string \<Rightarrow> int \<Rightarrow> approval \<Rightarrow> bool" where
  "adoptable i p cat bound r \<longleftrightarrow> ap_id r = i \<and> ap_category r = cat \<and> ap_status r = Approved
     \<and> content_hash r = Some (cp_hash p) \<and> ap_tenant r = cp_tenant p \<and> ap_agent r = principal p
     \<and> resolved_via r = Some DashboardSession
     \<and> since (consumed_at r) bound \<and> consumed_by r = Some (principal p) \<and> like_gate_send (consumed_ref r)
     \<and> used_at r = None"

definition adoptReservation ::
  "string \<Rightarrow> consume_params \<Rightarrow> string \<Rightarrow> int \<Rightarrow> int \<Rightarrow> string option \<Rightarrow> approval_db \<Rightarrow> bool \<times> approval_db" where
  "adoptReservation i p cat bound now ref db =
     (changed (adoptable i p cat bound) (approvals db),
      db\<lparr>approvals := sql_update (adoptable i p cat bound) (\<lambda>r. r\<lparr>used_at := Some now, used_ref := ref\<rparr>) (approvals db)\<rparr>)"

definition isReplay :: "approval \<Rightarrow> consume_params \<Rightarrow> int \<Rightarrow> bool" where
  "isReplay r p now \<longleftrightarrow> cp_ref p \<noteq> None \<and> cp_ref p \<noteq> Some []
     \<and> (case consumed_at r of None \<Rightarrow> False
        | Some c \<Rightarrow> consumed_by r = Some (principal p) \<and> consumed_ref r = cp_ref p
            \<and> content_hash r = Some (cp_hash p) \<and> now - c \<le> CONSUME_REPLAY_WINDOW_S)"

text \<open>The journal row of a refusal, for the refusals that name a row.\<close>

definition journalConsumeRefusal :: "int \<Rightarrow> consume_params \<Rightarrow> approval \<Rightarrow> use_refusal \<Rightarrow> approval_db \<Rightarrow> approval_db" where
  "journalConsumeRefusal now p r why db =
     recordApprovalEvent now r EvConsumeRefused (Some (refusal_text why)) (Some (principal p)) (cp_ref p) db"

text \<open>Why the guarded write of a consume by id matched nothing, read off the row.\<close>

definition classify_consume :: "string \<Rightarrow> consume_params \<Rightarrow> int \<Rightarrow> approval list \<Rightarrow> outcome" where
  "classify_consume i p now rows =
     (case getApproval i rows of
        None \<Rightarrow> RefusedUse NoSuchApproval None
      | Some r \<Rightarrow>
          if ap_tenant r \<noteq> cp_tenant p then RefusedUse NoSuchApproval None
          else if ap_agent r \<noteq> principal p then RefusedUse AgentMismatch (Some r)
          else if \<not> isContentHash (JStr (cp_hash p)) then RefusedUse HashMismatch (Some r)
          else if consumed_at r \<noteq> None
            then (if isReplay r p now then Taken True False r else RefusedUse AlreadyConsumed (Some r))
          else if ap_status r \<noteq> Approved then RefusedUse NotApproved (Some r)
          else if content_hash r \<noteq> Some (cp_hash p) then RefusedUse HashMismatch (Some r)
          else if \<not> since (resolved_at r) (now - window_s p) then RefusedUse Expired (Some r)
          else RefusedUse NotHumanDecided (Some r))"

text \<open>The guarded write that went through, with its journal row.\<close>

definition taken :: "string \<Rightarrow> consume_params \<Rightarrow> int \<Rightarrow> bool \<Rightarrow> approval_db \<Rightarrow> outcome \<times> approval_db" where
  "taken i p now seal db =
     (case getApproval i (approvals db) of
        None \<Rightarrow> (Threw, db)
      | Some r \<Rightarrow>
          (let d1 = recordApprovalEvent now r EvConsumed (consumerLabel (consumer p)) (Some (principal p)) (cp_ref p) db
           in (Taken False False r,
               if seal then recordApprovalEvent now r EvUsed (Some ''reserved_and_sealed'') (Some (principal p)) (cp_ref p) d1
               else d1)))"

definition consumeApproval :: "string \<Rightarrow> consume_params \<Rightarrow> int \<Rightarrow> approval_db \<Rightarrow> outcome \<times> approval_db" where
  "consumeApproval i p now db =
     (let (hit, d1) = useUpApproval i p now (cp_ref p) False db in
      if isContentHash (JStr (cp_hash p)) \<and> hit then taken i p now False d1
      else case classify_consume i p now (approvals db) of
             RefusedUse why (Some r) \<Rightarrow> (RefusedUse why (Some r), journalConsumeRefusal now p r why db)
           | oc \<Rightarrow> (oc, db))"

text \<open>The claim: look the approval up by the hash of the mail. First the retry of a lost answer.\<close>

datatype claim_mode = Gate | Send

definition in_scope :: "consume_params \<Rightarrow> string \<Rightarrow> approval \<Rightarrow> bool" where
  "in_scope p cat r \<longleftrightarrow> ap_agent r = principal p \<and> ap_tenant r = cp_tenant p \<and> ap_category r = cat
     \<and> content_hash r = Some (cp_hash p)"

definition claim_replay :: "consume_params \<Rightarrow> string \<Rightarrow> claim_mode \<Rightarrow> int \<Rightarrow> approval list \<Rightarrow> outcome option" where
  "claim_replay p cat m now rows =
     (case m of
        Send \<Rightarrow> map_option (\<lambda>r. Taken True (consumed_ref r \<noteq> used_ref r) r)
          (newest used_at ap_id (\<lambda>r. in_scope p cat r \<and> used_ref r = cp_ref p \<and> cp_ref p \<noteq> None
                                    \<and> since (used_at r) (now - CONSUME_REPLAY_WINDOW_S)) rows)
      | Gate \<Rightarrow>
          if cp_ref p = None \<or> cp_ref p = Some [] then None
          else map_option (Taken True False)
            (newest consumed_at ap_id (\<lambda>r. in_scope p cat r \<and> consumed_by r = Some (principal p)
                \<and> consumed_ref r = cp_ref p \<and> since (consumed_at r) (now - CONSUME_REPLAY_WINDOW_S)) rows))"

text \<open>The sender takes over the reservation its own gate made a moment ago.\<close>

definition claim_adopt :: "consume_params \<Rightarrow> string \<Rightarrow> claim_mode \<Rightarrow> int \<Rightarrow> approval_db \<Rightarrow> (outcome \<times> approval_db) option" where
  "claim_adopt p cat m now db =
     (let bound = now - min (window_s p) SEND_ADOPT_WINDOW_S in
      if m = Gate then None
      else case newest consumed_at ap_id (\<lambda>r. adoptable (ap_id r) p cat bound r) (approvals db) of
             None \<Rightarrow> None
           | Some c \<Rightarrow>
               (let (hit, d1) = adoptReservation (ap_id c) p cat bound now (cp_ref p) db in
                if \<not> hit then None
                else case getApproval (ap_id c) (approvals d1) of
                       None \<Rightarrow> Some (Threw, db)
                     | Some r \<Rightarrow> Some (Taken False True r,
                         recordApprovalEvent now r EvUsed (Some ''adopted_gate_reservation'') (Some (principal p)) (cp_ref p) d1)))"

text \<open>The newest approval that may be used now.\<close>

definition claim_fresh :: "consume_params \<Rightarrow> string \<Rightarrow> claim_mode \<Rightarrow> int \<Rightarrow> approval_db \<Rightarrow> (outcome \<times> approval_db) option" where
  "claim_fresh p cat m now db =
     (case newest resolved_at ap_id (\<lambda>r. in_scope p cat r \<and> ap_status r = Approved \<and> consumed_at r = None
             \<and> since (resolved_at r) (now - window_s p) \<and> resolved_via r = Some DashboardSession) (approvals db) of
        None \<Rightarrow> None
      | Some c \<Rightarrow>
          (let (hit, d1) = useUpApproval (ap_id c) p now (cp_ref p) (m = Send) db in
           if hit then Some (taken (ap_id c) p now (m = Send) d1) else None))"

text \<open>Why there is nothing to use: an open request first, then what became of the latest decision.\<close>

definition open_request :: "int \<Rightarrow> approval \<Rightarrow> bool" where
  "open_request now r \<longleftrightarrow> ap_status r = Pending
     \<and> (case timeout_at r of None \<Rightarrow> True | Some t \<Rightarrow> t > now)"

definition classify_claim :: "consume_params \<Rightarrow> string \<Rightarrow> claim_mode \<Rightarrow> int \<Rightarrow> approval list \<Rightarrow> outcome" where
  "classify_claim p cat m now rows =
     (case newest (\<lambda>r. Some (requested_at r)) ap_id (\<lambda>r. in_scope p cat r \<and> open_request now r) rows of
        Some r \<Rightarrow> RefusedUse StillPending (Some r)
      | None \<Rightarrow>
          (case newest resolved_at ap_id (\<lambda>r. in_scope p cat r \<and> ap_status r \<noteq> Pending \<and> resolved_at r \<noteq> None) rows of
             None \<Rightarrow> RefusedUse NoneDecided None
           | Some r \<Rightarrow>
               if ap_status r = Rejected then RefusedUse WasRejected (Some r)
               else if ap_status r \<noteq> Approved then RefusedUse NoneDecided (Some r)
               else if consumed_at r \<noteq> None
                 then RefusedUse (if m = Send \<and> used_at r \<noteq> None then AlreadyUsed else AlreadyConsumed) (Some r)
               else if \<not> since (resolved_at r) (now - window_s p) then RefusedUse Expired (Some r)
               else RefusedUse NotHumanDecided (Some r)))"

definition claimApproval :: "consume_params \<Rightarrow> string \<Rightarrow> claim_mode \<Rightarrow> int \<Rightarrow> approval_db \<Rightarrow> outcome \<times> approval_db" where
  "claimApproval p cat m now db =
     (if cat \<noteq> HUMAN_DECIDED_CATEGORY then (RefusedUse WrongCategory None, db)
      else if \<not> isContentHash (JStr (cp_hash p)) then (RefusedUse HashMismatch None, db)
      else if m = Send \<and> cp_ref p = None then (Threw, db)
      else case claim_replay p cat m now (approvals db) of Some oc \<Rightarrow> (oc, db)
      | None \<Rightarrow> (case claim_adopt p cat m now db of Some res \<Rightarrow> res
      | None \<Rightarrow> (case claim_fresh p cat m now db of Some res \<Rightarrow> res
      | None \<Rightarrow> (case classify_claim p cat m now (approvals db) of
                   RefusedUse why (Some r) \<Rightarrow>
                     (RefusedUse why (Some r),
                      if why = StillPending \<or> why = NoneDecided then db else journalConsumeRefusal now p r why db)
                 | oc \<Rightarrow> (oc, db)))))"

section \<open>Opening a hash-bound request once\<close>

definition countApprovalsRequestedSince :: "string \<Rightarrow> string \<Rightarrow> string \<Rightarrow> int \<Rightarrow> string \<Rightarrow> approval list \<Rightarrow> nat" where
  "countApprovalsRequestedSince a cat t bound except rows =
     length (filter (\<lambda>r. ap_agent r = a \<and> ap_category r = cat \<and> ap_tenant r = t
                         \<and> requested_at r \<ge> bound \<and> ap_id r \<noteq> except) rows)"

definition same_request :: "create_params \<Rightarrow> int \<Rightarrow> approval \<Rightarrow> bool" where
  "same_request p now r \<longleftrightarrow> ap_agent r = cr_agent p \<and> ap_tenant r = or_default (cr_tenant p)
     \<and> ap_category r = cr_category p \<and> open_request now r"

datatype open_outcome = Opened approval | Deduplicated approval | TooManyPending | BadHash | InsertFailed

definition createApprovalOnce :: "create_params \<Rightarrow> string \<Rightarrow> nat \<Rightarrow> int \<Rightarrow> approval_db \<Rightarrow> open_outcome \<times> approval_db" where
  "createApprovalOnce p0 h max_pending now db =
     (let p = p0\<lparr>cr_hash := Some h\<rparr> in
      if \<not> isContentHash (JStr h) then (BadHash, db)
      else case newest (\<lambda>r. Some (requested_at r)) ap_id (\<lambda>r. same_request p now r \<and> content_hash r = Some h) (approvals db) of
        Some r \<Rightarrow> (Deduplicated r, recordApprovalEvent now r EvDeduplicated None (Some (cr_agent p)) None db)
      | None \<Rightarrow>
          if length (filter (same_request p now) (approvals db)) \<ge> max_pending then (TooManyPending, db)
          else case createApproval p now db of
                 None \<Rightarrow> (InsertFailed, db)
               | Some (r, d1) \<Rightarrow> (Opened r, d1))"

section \<open>Reading\<close>

definition status_counts :: "string option \<Rightarrow> approval list \<Rightarrow> approval_status \<Rightarrow> nat" where
  "status_counts t rows st =
     length (filter (\<lambda>r. (case t of Some x \<Rightarrow> ap_tenant r = x | None \<Rightarrow> True) \<and> ap_status r = st) rows)"

definition listApprovalEvents :: "string \<Rightarrow> approval_event list \<Rightarrow> approval_event list" where
  "listApprovalEvents i evs = sort_key ev_at (filter (\<lambda>e. ev_approval e = i) evs)"

section \<open>Upkeep\<close>

text \<open>
  Two jobs outside the service delete from the same tables: the daily prune of the audit logs cuts the journal off at an
  age (\<open>pruneAuditLogs\<close> of \<open>src/db/audit.ts\<close>), and the removal of a tenant rejects its pending requests and then drops
  its journal and its rows in the same transaction (\<open>deleteTenant\<close> of \<open>src/db/observability.ts\<close>).
\<close>

definition pruneApprovalEvents :: "int \<Rightarrow> approval_db \<Rightarrow> approval_db" where
  "pruneApprovalEvents cutoff db = db\<lparr>ap_events := filter (\<lambda>e. \<not> ev_at e < cutoff) (ap_events db)\<rparr>"

definition deleteTenantApprovals :: "string \<Rightarrow> int \<Rightarrow> approval_db \<Rightarrow> approval_db" where
  "deleteTenantApprovals tenant now db =
     (let d1 = db\<lparr>approvals := sql_update (\<lambda>r. ap_tenant r = tenant \<and> ap_status r = Pending)
                     (\<lambda>r. r\<lparr>ap_status := Rejected, resolved_at := Some now\<rparr>) (approvals db)\<rparr>
      in d1\<lparr>ap_events := filter (\<lambda>e. ev_tenant e \<noteq> tenant) (ap_events d1),
            approvals := filter (\<lambda>r. ap_tenant r \<noteq> tenant) (approvals d1)\<rparr>)"

section \<open>All operations as steps\<close>

text \<open>
  What the service does to the storage, in any order and at any time: \<open>w\<close> is the configured use window. The
  notes are the journal rows the routes write (no use among them). The upkeep may come between any two of them.
\<close>

inductive approval_step :: "int \<Rightarrow> approval_db \<Rightarrow> approval_db \<Rightarrow> bool" for w where
  create: "createApproval c now db = Some (r, db') \<Longrightarrow> approval_step w db db'"
| open_once: "createApprovalOnce c h n now db = (oc, db') \<Longrightarrow> approval_step w db db'"
| resolve: "st \<noteq> Pending \<Longrightarrow> resolveApproval i st by msg v now db = (b, db') \<Longrightarrow> approval_step w db db'"
| expire: "expireTimedOutApprovals now db = (n, db') \<Longrightarrow> approval_step w db db'"
| consume: "window_s p = w \<Longrightarrow> consumeApproval i p now db = (res, db') \<Longrightarrow> approval_step w db db'"
| claim: "window_s p = w \<Longrightarrow> claimApproval p cat m now db = (res, db') \<Longrightarrow> approval_step w db db'"
| noted: "k \<notin> {EvConsumed, EvUsed} \<Longrightarrow> r \<in> set (approvals db) \<Longrightarrow>
    approval_step w db (recordApprovalEvent now r k reason actor ref db)"

inductive upkeep_step :: "approval_db \<Rightarrow> approval_db \<Rightarrow> bool" where
  prune: "upkeep_step db (pruneApprovalEvents cutoff db)"
| drop_tenant: "upkeep_step db (deleteTenantApprovals tenant now db)"

inductive approval_reach :: "int \<Rightarrow> approval_db \<Rightarrow> bool" for w where
  empty_db: "approval_reach w \<lparr>approvals = [], ap_events = []\<rparr>"
| step_db: "approval_reach w db \<Longrightarrow> approval_step w db db' \<Longrightarrow> approval_reach w db'"
| upkeep_db: "approval_reach w db \<Longrightarrow> upkeep_step db db' \<Longrightarrow> approval_reach w db'"

section \<open>Lemmas\<close>

lemma since_simps [simp]: "since (Some x) b \<longleftrightarrow> b \<le> x" "\<not> since None b"
  by (simp_all add: since_def)

lemma since_Some: "since t b \<longleftrightarrow> (\<exists>x. t = Some x \<and> b \<le> x)"
  by (cases t) simp_all

lemma consume_row_sel [simp]:
  "ap_id (consume_row p now ref seal r) = ap_id r"
  "ap_status (consume_row p now ref seal r) = ap_status r"
  "ap_agent (consume_row p now ref seal r) = ap_agent r"
  "ap_tenant (consume_row p now ref seal r) = ap_tenant r"
  "ap_category (consume_row p now ref seal r) = ap_category r"
  "timeout_at (consume_row p now ref seal r) = timeout_at r"
  "resolved_at (consume_row p now ref seal r) = resolved_at r"
  "resolved_by (consume_row p now ref seal r) = resolved_by r"
  "resolved_via (consume_row p now ref seal r) = resolved_via r"
  "human_only (consume_row p now ref seal r) = human_only r"
  "content_hash (consume_row p now ref seal r) = content_hash r"
  "consumed_at (consume_row p now ref seal r) = Some now"
  "consumed_by (consume_row p now ref seal r) = Some (principal p)"
  "consumed_ref (consume_row p now ref seal r) = ref"
  "used_at (consume_row p now ref seal r) = (if seal then Some now else used_at r)"
  "used_ref (consume_row p now ref seal r) = (if seal then ref else used_ref r)"
  by (simp_all add: consume_row_def Let_def)

interpretation consume_write: guarded_update ap_id
    "\<lambda>(i, p, now, ref, seal). usable i p now" "\<lambda>(i, p, now, ref, seal). consume_row p now ref seal"
  by unfold_locales (auto simp: usable_def)

interpretation adopt_write: guarded_update ap_id
    "\<lambda>(i, p, cat, bound, now, ref). adoptable i p cat bound" "\<lambda>(i, p, cat, bound, now, ref) r. r\<lparr>used_at := Some now, used_ref := ref\<rparr>"
  by unfold_locales (auto simp: adoptable_def)

interpretation expire_write: guarded_update ap_id
    "\<lambda>now. overdue now" "\<lambda>now r. r\<lparr>ap_status := TimedOut, resolved_at := Some now, resolved_by := Some ''system:timeout''\<rparr>"
  by unfold_locales (auto simp: overdue_def)

lemma getApproval_Some: "getApproval i rows = Some r \<Longrightarrow> r \<in> set rows \<and> ap_id r = i"
  unfolding getApproval_def by (drule find_SomeD)

lemma getApproval_None: "getApproval i rows = None \<Longrightarrow> r \<in> set rows \<Longrightarrow> ap_id r \<noteq> i"
  unfolding getApproval_def by (drule find_NoneD)

lemma getApproval_unique:
  assumes "distinct (map ap_id rows)" "r \<in> set rows"
  shows "getApproval (ap_id r) rows = Some r"
proof (cases "getApproval (ap_id r) rows")
  case None
  with assms(2) show ?thesis using getApproval_None by blast
next
  case (Some s)
  with getApproval_Some have "s \<in> set rows" "ap_id s = ap_id r" by blast+
  with assms have "s = r" by (auto simp: distinct_map inj_on_def)
  with Some show ?thesis by simp
qed

lemma getApproval_append:
  "getApproval i (rows @ [r]) = (case getApproval i rows of Some s \<Rightarrow> Some s | None \<Rightarrow> if ap_id r = i then Some r else None)"
  unfolding getApproval_def by (induction rows) auto

lemma recordApprovalEvent_sel [simp]:
  "approvals (recordApprovalEvent now r k reason actor ref db) = approvals db"
  "ap_events (recordApprovalEvent now r k reason actor ref db) = ap_events db @
     [\<lparr>ev_approval = ap_id r, ev_tenant = ap_tenant r, ev_kind = k, ev_reason = reason,
       ev_actor = actor, ev_ref = ref, ev_at = now\<rparr>]"
  by (simp_all add: recordApprovalEvent_def)

lemma journalConsumeRefusal_sel [simp]: "approvals (journalConsumeRefusal now p r why db) = approvals db"
  by (simp add: journalConsumeRefusal_def)

text \<open>How often a use of kind \<open>k\<close> of the approval \<open>i\<close> is journalled.\<close>

definition uses :: "event_kind \<Rightarrow> string \<Rightarrow> approval_event list \<Rightarrow> nat" where
  "uses k i evs = length (filter (\<lambda>e. ev_kind e = k \<and> ev_approval e = i) evs)"

lemma uses_simps [simp]:
  "uses k i [] = 0"
  "uses k i (evs @ evs') = uses k i evs + uses k i evs'"
  "uses k i (e # evs) = (if ev_kind e = k \<and> ev_approval e = i then 1 else 0) + uses k i evs"
  by (simp_all add: uses_def)

text \<open>The stamp a use of kind \<open>k\<close> leaves on the row.\<close>

definition stamped :: "event_kind \<Rightarrow> approval \<Rightarrow> bool" where
  "stamped k r \<longleftrightarrow> (if k = EvConsumed then consumed_at r \<noteq> None else used_at r \<noteq> None)"

definition decided_well :: "approval \<Rightarrow> bool" where
  "decided_well r \<longleftrightarrow> resolved_via r = Some DashboardSession
     \<or> (resolved_via r = Some Bearer \<and> ap_category r \<noteq> HUMAN_DECIDED_CATEGORY \<and> \<not> human_only r)"

definition row_ok :: "int \<Rightarrow> approval \<Rightarrow> bool" where
  "row_ok w r \<longleftrightarrow>
     (ap_status r = Pending \<longrightarrow> consumed_at r = None)
   \<and> (ap_status r \<in> {Approved, Rejected} \<longrightarrow>
        (\<exists>t. resolved_at r = Some t \<and> (\<forall>d. timeout_at r = Some d \<longrightarrow> t < d)))
   \<and> (\<forall>c. consumed_at r = Some c \<longrightarrow> ap_status r = Approved \<and> content_hash r \<noteq> None
        \<and> consumed_by r = Some (ap_agent r) \<and> since (resolved_at r) (c - w) \<and> decided_well r)
   \<and> (\<forall>u. used_at r = Some u \<longrightarrow> since (consumed_at r) (u - min w SEND_ADOPT_WINDOW_S)
        \<and> ap_category r = HUMAN_DECIDED_CATEGORY \<and> resolved_via r = Some DashboardSession)"

definition use_kinds :: "event_kind set" where "use_kinds = {EvConsumed, EvUsed}"

text \<open>
  The rows are well formed and the journal is theirs: a use stands in the journal for a row of that id and tenant, and as often
  as the row is stamped, up to the uses that are gone with the prune (\<open>gone\<close>).
\<close>

definition ledger_ok :: "int \<Rightarrow> (event_kind \<Rightarrow> string \<Rightarrow> nat) \<Rightarrow> approval_db \<Rightarrow> bool" where
  "ledger_ok w gone db \<longleftrightarrow> distinct (map ap_id (approvals db)) \<and> (\<forall>r\<in>set (approvals db). row_ok w r)
     \<and> (\<forall>k\<in>use_kinds. \<forall>i. uses k i (ap_events db) + gone k i =
          (case getApproval i (approvals db) of Some r \<Rightarrow> of_bool (stamped k r) | None \<Rightarrow> 0))
     \<and> (\<forall>e\<in>set (ap_events db). ev_kind e \<in> use_kinds \<longrightarrow>
          (\<exists>r\<in>set (approvals db). ap_id r = ev_approval e \<and> ap_tenant r = ev_tenant e))"

definition db_ok :: "int \<Rightarrow> approval_db \<Rightarrow> bool" where
  "db_ok w db \<longleftrightarrow> distinct (map ap_id (approvals db)) \<and> (\<forall>r\<in>set (approvals db). row_ok w r)"

lemma getApproval_update:
  assumes "\<And>r. r \<in> set rows \<Longrightarrow> g r \<Longrightarrow> ap_id (f r) = ap_id r"
  shows "getApproval i (sql_update g f rows) = map_option (\<lambda>r. if g r then f r else r) (getApproval i rows)"
  using assms unfolding getApproval_def by (induction rows) auto

lemma ids_update:
  assumes "\<And>r. r \<in> set rows \<Longrightarrow> g r \<Longrightarrow> ap_id (f r) = ap_id r"
  shows "map ap_id (sql_update g f rows) = map ap_id rows"
  using assms by (induction rows) auto

lemma ledger_ok_update:
  assumes ok: "ledger_ok w gone db"
    and db': "approvals db' = sql_update g f (approvals db)" "ap_events db' = ap_events db @ es"
    and rows: "\<And>r. r \<in> set (approvals db) \<Longrightarrow> g r \<Longrightarrow> row_ok w r \<Longrightarrow> row_ok w (f r) \<and> ap_id (f r) = ap_id r \<and> ap_tenant (f r) = ap_tenant r"
    and own: "\<And>e. e \<in> set es \<Longrightarrow> ev_kind e \<in> use_kinds \<Longrightarrow> \<exists>r\<in>set (approvals db). ap_id r = ev_approval e \<and> ap_tenant r = ev_tenant e"
    and here: "\<And>k r. k \<in> use_kinds \<Longrightarrow> r \<in> set (approvals db) \<Longrightarrow>
        of_bool (stamped k r) + uses k (ap_id r) es = of_bool (stamped k (if g r then f r else r))"
    and absent: "\<And>k i. k \<in> use_kinds \<Longrightarrow> getApproval i (approvals db) = None \<Longrightarrow> uses k i es = 0"
  shows "ledger_ok w gone db'"
proof -
  have ids: "\<And>r. r \<in> set (approvals db) \<Longrightarrow> g r \<Longrightarrow> ap_id (f r) = ap_id r"
    using rows ok by (simp add: ledger_ok_def)
  have "\<forall>r\<in>set (approvals db'). row_ok w r"
    using rows ok by (auto simp: db' set_sql_update ledger_ok_def)
  moreover have "uses k i (ap_events db') + gone k i = (case getApproval i (approvals db') of Some r \<Rightarrow> of_bool (stamped k r) | None \<Rightarrow> 0)"
    if "k \<in> use_kinds" for k i
  proof (cases "getApproval i (approvals db)")
    case None
    with that ok absent show ?thesis by (simp add: db' getApproval_update ids ledger_ok_def)
  next
    case (Some r)
    with getApproval_Some have "r \<in> set (approvals db)" "ap_id r = i" by blast+
    moreover from that ok Some have "uses k i (ap_events db) + gone k i = of_bool (stamped k r)" by (auto simp: ledger_ok_def)
    ultimately show ?thesis using that here [of k r] Some by (simp add: db' getApproval_update ids)
  qed
  moreover have "\<exists>r\<in>set (approvals db'). ap_id r = ev_approval e \<and> ap_tenant r = ev_tenant e"
    if e: "e \<in> set (ap_events db')" "ev_kind e \<in> use_kinds" for e
  proof -
    have "\<exists>r\<in>set (approvals db). ap_id r = ev_approval e \<and> ap_tenant r = ev_tenant e"
    proof (cases "e \<in> set es")
      case True
      show ?thesis by (rule own [OF True e(2)])
    next
      case False
      with e ok show ?thesis by (simp add: db' ledger_ok_def)
    qed
    then obtain r where "r \<in> set (approvals db)" "ap_id r = ev_approval e" "ap_tenant r = ev_tenant e" by blast
    with rows ok show ?thesis by (intro bexI [of _ "if g r then f r else r"]) (auto simp: db' set_sql_update ledger_ok_def)
  qed
  ultimately show ?thesis using ok by (simp add: ledger_ok_def db' ids_update ids)
qed

lemma ledger_ok_notes:
  assumes "ledger_ok w gone db" "approvals db' = approvals db" "ap_events db' = ap_events db @ es"
    and "\<And>e. e \<in> set es \<Longrightarrow> ev_kind e \<notin> use_kinds"
  shows "ledger_ok w gone db'"
proof -
  have "uses k i es = 0" if "k \<in> use_kinds" for k i
    using assms(4) that by (auto simp: uses_def filter_empty_conv)
  moreover have "\<exists>r\<in>set (approvals db). ap_id r = ev_approval e \<and> ap_tenant r = ev_tenant e"
    if "e \<in> set (ap_events db @ es)" "ev_kind e \<in> use_kinds" for e
    using assms(1,4) that by (auto simp: ledger_ok_def)
  ultimately show ?thesis using assms(1) unfolding ledger_ok_def assms(2,3) by simp
qed

lemma ledger_ok_create:
  assumes "ledger_ok w gone db" "createApproval p now db = Some (r, db')"
  shows "ledger_ok w gone db'"
proof -
  from assms(2) have new: "getApproval (ap_id r) (approvals db) = None" and r: "r = pendingApproval p now"
    and db': "db' = db\<lparr>approvals := approvals db @ [r]\<rparr>"
    by (auto simp: createApproval_def pendingApproval_def Let_def split: if_splits)
  have "row_ok w r" by (simp add: r pendingApproval_def row_ok_def)
  moreover have "\<not> stamped k r" for k by (simp add: r pendingApproval_def stamped_def)
  moreover have "ap_id r \<notin> ap_id ` set (approvals db)" using getApproval_None [OF new] by (metis imageE)
  ultimately show ?thesis using assms(1) new
    by (auto simp: db' ledger_ok_def getApproval_append split: option.splits)
qed

lemma usable_hit:
  assumes "distinct (map ap_id (approvals db))" "useUpApproval i p now ref seal db = (True, d1)"
  obtains r where "r \<in> set (approvals db)" "usable i p now r" "getApproval i (approvals db) = Some r"
    "getApproval i (approvals d1) = Some (consume_row p now ref seal r)"
    "approvals d1 = sql_update (usable i p now) (consume_row p now ref seal) (approvals db)" "ap_events d1 = ap_events db"
proof -
  from assms(2) obtain r where r: "r \<in> set (approvals db)" "usable i p now r"
    by (auto simp: useUpApproval_def changed_iff)
  moreover from r have "ap_id r = i" by (simp add: usable_def)
  moreover from this r assms(1) have "getApproval i (approvals db) = Some r" using getApproval_unique by blast
  moreover from this have "getApproval i (approvals d1) = Some (consume_row p now ref seal r)"
    using assms(2) r(2) by (auto simp: useUpApproval_def getApproval_update)
  moreover have "approvals d1 = sql_update (usable i p now) (consume_row p now ref seal) (approvals db)" "ap_events d1 = ap_events db"
    using assms(2) by (auto simp: useUpApproval_def)
  ultimately show thesis by (intro that)
qed

lemma consume_row_ok:
  assumes "row_ok w r" "usable i p now r" "window_s p = w" "0 \<le> w"
    and "seal \<Longrightarrow> ap_category r = HUMAN_DECIDED_CATEGORY \<and> resolved_via r = Some DashboardSession"
  shows "row_ok w (consume_row p now ref seal r)"
proof -
  have u: "ap_status r = Approved" "content_hash r \<noteq> None" "ap_agent r = principal p" "since (resolved_at r) (now - w)"
    "decided_well r" "consumed_at r = None"
    using assms(2,3) by (auto simp: usable_def decided_well_def)
  moreover have "used_at r = None" using assms(1) u(6) by (auto simp: row_ok_def)
  moreover have "decided_well (consume_row p now ref seal r) = decided_well r" by (simp add: decided_well_def)
  ultimately show ?thesis using assms(1,4,5) by (auto simp: row_ok_def SEND_ADOPT_WINDOW_S_def)
qed

lemma same_id: "distinct (map ap_id (rows :: approval list)) \<Longrightarrow> s \<in> set rows \<Longrightarrow> r \<in> set rows \<Longrightarrow> ap_id s = ap_id r \<Longrightarrow> s = r"
  unfolding distinct_map inj_on_def by blast

lemma taken_ok:
  assumes ok: "ledger_ok w gone db" and hit: "useUpApproval i p now ref seal db = (True, d1)" "window_s p = w" "0 \<le> w"
    and seal: "seal \<Longrightarrow> \<exists>r\<in>set (approvals db). ap_id r = i \<and> ap_category r = HUMAN_DECIDED_CATEGORY
                        \<and> resolved_via r = Some DashboardSession"
    and t: "taken i p now seal d1 = (oc, db')"
  shows "ledger_ok w gone db' \<and> oc = Taken False False (the (getApproval i (approvals db')))"
proof -
  from ok have d: "distinct (map ap_id (approvals db))" by (simp add: ledger_ok_def)
  from usable_hit [OF this hit(1)] obtain r where r: "r \<in> set (approvals db)" "usable i p now r"
    "getApproval i (approvals db) = Some r" "getApproval i (approvals d1) = Some (consume_row p now ref seal r)"
    "approvals d1 = sql_update (usable i p now) (consume_row p now ref seal) (approvals db)" "ap_events d1 = ap_events db"
    by metis
  from r have i: "ap_id r = i" by (simp add: usable_def)
  have only: "s = r" if "s \<in> set (approvals db)" "ap_id s = i" for s
    using same_id [OF d that(1) r(1)] that(2) i by simp
  have used: "used_at r = None"
    using ok r(1,2) by (auto simp: ledger_ok_def row_ok_def usable_def)
  define es where "es = [\<lparr>ev_approval = i, ev_tenant = ap_tenant r, ev_kind = EvConsumed, ev_reason = consumerLabel (consumer p),
      ev_actor = Some (principal p), ev_ref = cp_ref p, ev_at = now\<rparr>] @
     (if seal then [\<lparr>ev_approval = i, ev_tenant = ap_tenant r, ev_kind = EvUsed, ev_reason = Some ''reserved_and_sealed'',
      ev_actor = Some (principal p), ev_ref = cp_ref p, ev_at = now\<rparr>] else [])"
  have db': "approvals db' = approvals d1" "ap_events db' = ap_events db @ es" "oc = Taken False False (consume_row p now ref seal r)"
    using t r(4,6) i by (cases seal; simp add: taken_def Let_def es_def; fastforce)+
  have "ledger_ok w gone db'"
  proof (rule ledger_ok_update [OF ok _ db'(2)])
    show "approvals db' = sql_update (usable i p now) (consume_row p now ref seal) (approvals db)" using db' r by simp
    show "row_ok w (consume_row p now ref seal s) \<and> ap_id (consume_row p now ref seal s) = ap_id s
        \<and> ap_tenant (consume_row p now ref seal s) = ap_tenant s"
      if "s \<in> set (approvals db)" "usable i p now s" "row_ok w s" for s
    proof -
      from that(2) have "ap_id s = i" by (simp add: usable_def)
      with seal only that(1) have "seal \<Longrightarrow> ap_category s = HUMAN_DECIDED_CATEGORY \<and> resolved_via s = Some DashboardSession"
        by blast
      with consume_row_ok [OF that(3,2) hit(2,3)] show ?thesis by simp
    qed
    show "\<exists>s\<in>set (approvals db). ap_id s = ev_approval e \<and> ap_tenant s = ev_tenant e" if "e \<in> set es" for e
      using that r(1) i by (auto simp: es_def split: if_splits)
    show "of_bool (stamped k s) + uses k (ap_id s) es = of_bool (stamped k (if usable i p now s then consume_row p now ref seal s else s))"
      if "k \<in> use_kinds" "s \<in> set (approvals db)" for k s
    proof (cases "s = r")
      case True
      with r(2) i used that(1) show ?thesis by (auto simp: use_kinds_def stamped_def es_def usable_def)
    next
      case False
      with only that(2) have "ap_id s \<noteq> i" by blast
      then show ?thesis by (simp add: es_def usable_def)
    qed
    show "uses k j es = 0" if "k \<in> use_kinds" "getApproval j (approvals db) = None" for k j
      using that r(3) by (auto simp: es_def)
  qed
  with db' r(4) show ?thesis by simp
qed

lemma consume_ok:
  assumes "ledger_ok w gone db" "window_s p = w" "0 \<le> w" "consumeApproval i p now db = (oc, db')"
  shows "ledger_ok w gone db'"
proof (cases "useUpApproval i p now (cp_ref p) False db")
  case (Pair hit d1)
  show ?thesis
  proof (cases "isContentHash (JStr (cp_hash p)) \<and> hit")
    case True
    with Pair assms(4) have "taken i p now False d1 = (oc, db')" by (simp add: consumeApproval_def)
    with taken_ok [OF assms(1) _ assms(2,3), of i now "cp_ref p" False d1 oc db'] Pair True show ?thesis by simp
  next
    case False
    with Pair assms(4) have "approvals db' = approvals db \<and> (\<exists>es. ap_events db' = ap_events db @ es \<and> (\<forall>e\<in>set es. ev_kind e = EvConsumeRefused))"
      by (auto simp: consumeApproval_def journalConsumeRefusal_def split: outcome.splits option.splits if_splits)
    with ledger_ok_notes [OF assms(1)] show ?thesis by (auto simp: use_kinds_def)
  qed
qed

lemma create_once_ok:
  assumes "ledger_ok w gone db" "createApprovalOnce c h n now db = (oc, db')"
  shows "ledger_ok w gone db'"
proof -
  have "ledger_ok w gone (recordApprovalEvent now r EvDeduplicated None actor ref db)" for r actor ref
    by (rule ledger_ok_notes [OF assms(1)]) (auto simp: use_kinds_def)
  with assms show ?thesis
    by (auto simp: createApprovalOnce_def Let_def dest!: ledger_ok_create [OF assms(1)] split: if_splits option.splits)
qed

lemma resolve_ok:
  assumes "ledger_ok w gone db" "st \<noteq> Pending" "resolveApproval i st by msg v now db = (b, db')"
  shows "ledger_ok w gone db'"
proof (rule ledger_ok_update [OF assms(1), of db' _ _ "[]"])
  let ?f = "\<lambda>r::approval. r\<lparr>ap_status := st, resolved_at := Some now, resolved_by := Some by,
                  telegram_message_id := (case msg of Some m \<Rightarrow> Some m | None \<Rightarrow> telegram_message_id r), resolved_via := v\<rparr>"
  show "approvals db' = sql_update (resolvable i st now) ?f (approvals db)" "ap_events db' = ap_events db @ []"
    using assms(3) by (auto simp: resolveApproval_def)
  show "row_ok w (?f r) \<and> ap_id (?f r) = ap_id r \<and> ap_tenant (?f r) = ap_tenant r" if "resolvable i st now r" "row_ok w r" for r
  proof -
    from that have p: "ap_status r = Pending" "consumed_at r = None" "used_at r = None"
      by (auto simp: resolvable_def row_ok_def)
    from that(1) have "st = TimedOut \<or> (\<forall>d. timeout_at r = Some d \<longrightarrow> now < d)"
      by (auto simp: resolvable_def split: option.splits)
    with p show ?thesis using assms(2) by (auto simp: row_ok_def)
  qed
qed (auto simp: stamped_def)

lemma expire_ok:
  assumes "ledger_ok w gone db" "expireTimedOutApprovals now db = (n, db')"
  shows "ledger_ok w gone db'"
proof (rule ledger_ok_update [OF assms(1), of db' _ _ "[]"])
  let ?f = "\<lambda>r::approval. r\<lparr>ap_status := TimedOut, resolved_at := Some now, resolved_by := Some ''system:timeout''\<rparr>"
  show "approvals db' = sql_update (overdue now) ?f (approvals db)" "ap_events db' = ap_events db @ []"
    using assms(2) by (auto simp: expireTimedOutApprovals_def)
  show "row_ok w (?f r) \<and> ap_id (?f r) = ap_id r \<and> ap_tenant (?f r) = ap_tenant r" if "overdue now r" "row_ok w r" for r
  proof -
    from that have "consumed_at r = None" "used_at r = None" by (auto simp: overdue_def row_ok_def)
    then show ?thesis by (auto simp: row_ok_def)
  qed
qed (auto simp: stamped_def)

text \<open>The claim, path by path.\<close>

lemma claim_cases [consumes 1, case_names refused replay adopt fresh unusable]:
  assumes "claimApproval p cat m now db = (oc, db')"
  obtains (refused) "db' = db" "oc = RefusedUse WrongCategory None \<or> oc = RefusedUse HashMismatch None \<or> oc = Threw"
  | (replay) "cat = HUMAN_DECIDED_CATEGORY" "claim_replay p cat m now (approvals db) = Some oc" "db' = db"
  | (adopt) "cat = HUMAN_DECIDED_CATEGORY" "m = Send" "claim_replay p cat m now (approvals db) = None"
      "claim_adopt p cat m now db = Some (oc, db')"
  | (fresh) "cat = HUMAN_DECIDED_CATEGORY" "claim_replay p cat m now (approvals db) = None"
      "claim_adopt p cat m now db = None" "claim_fresh p cat m now db = Some (oc, db')"
  | (unusable) "cat = HUMAN_DECIDED_CATEGORY" "claim_fresh p cat m now db = None" "oc = classify_claim p cat m now (approvals db)"
      "approvals db' = approvals db" "\<exists>es. ap_events db' = ap_events db @ es \<and> (\<forall>e\<in>set es. ev_kind e = EvConsumeRefused)"
proof -
  show thesis
  proof (cases "cat = HUMAN_DECIDED_CATEGORY \<and> isContentHash (JStr (cp_hash p)) \<and> \<not> (m = Send \<and> cp_ref p = None)")
    case False
    with assms show thesis by (intro refused) (auto simp: claimApproval_def split: if_splits)
  next
    case True
    then have eq: "claimApproval p cat m now db = (case claim_replay p cat m now (approvals db) of Some oc \<Rightarrow> (oc, db)
      | None \<Rightarrow> (case claim_adopt p cat m now db of Some res \<Rightarrow> res
      | None \<Rightarrow> (case claim_fresh p cat m now db of Some res \<Rightarrow> res
      | None \<Rightarrow> (case classify_claim p cat m now (approvals db) of
                   RefusedUse why (Some r) \<Rightarrow>
                     (RefusedUse why (Some r),
                      if why = StillPending \<or> why = NoneDecided then db else journalConsumeRefusal now p r why db)
                 | oc \<Rightarrow> (oc, db)))))"
      by (auto simp: claimApproval_def)
    show thesis
    proof (cases "claim_replay p cat m now (approvals db)")
      case (Some x)
      with eq assms True show thesis by (intro replay) auto
    next
      case nr: None
      show thesis
      proof (cases "claim_adopt p cat m now db")
        case (Some x)
        moreover from this have "m = Send" by (cases m) (auto simp: claim_adopt_def)
        ultimately show thesis using nr eq assms True by (intro adopt) auto
      next
        case na: None
        show thesis
        proof (cases "claim_fresh p cat m now db")
          case (Some x)
          with nr na eq assms True show thesis by (intro fresh) auto
        next
          case None
          with nr na eq assms True show thesis
            by - (rule unusable; auto simp: journalConsumeRefusal_def split: outcome.splits option.splits if_splits)
        qed
      qed
    qed
  qed
qed

definition sealed :: "int \<Rightarrow> string option \<Rightarrow> approval \<Rightarrow> approval" where
  "sealed now ref r = r\<lparr>used_at := Some now, used_ref := ref\<rparr>"

lemma sealed_sel [simp]:
  "ap_id (sealed now ref r) = ap_id r" "ap_status (sealed now ref r) = ap_status r"
  "ap_agent (sealed now ref r) = ap_agent r" "ap_tenant (sealed now ref r) = ap_tenant r"
  "ap_category (sealed now ref r) = ap_category r" "content_hash (sealed now ref r) = content_hash r"
  "consumed_at (sealed now ref r) = consumed_at r" "consumed_by (sealed now ref r) = consumed_by r"
  "consumed_ref (sealed now ref r) = consumed_ref r" "resolved_at (sealed now ref r) = resolved_at r"
  "resolved_via (sealed now ref r) = resolved_via r" "human_only (sealed now ref r) = human_only r"
  "timeout_at (sealed now ref r) = timeout_at r"
  "used_at (sealed now ref r) = Some now" "used_ref (sealed now ref r) = ref"
  by (simp_all add: sealed_def)

lemma adopt_form:
  assumes d: "distinct (map ap_id (approvals db))" and a: "claim_adopt p cat m now db = Some (oc, db')"
  obtains c ev where "c \<in> set (approvals db)" "adoptable (ap_id c) p cat (now - min (window_s p) SEND_ADOPT_WINDOW_S) c"
    "oc = Taken False True (sealed now (cp_ref p) c)" "ap_events db' = ap_events db @ [ev]" "ev_kind ev = EvUsed" "ev_approval ev = ap_id c" "ev_tenant ev = ap_tenant c"
    "approvals db' = sql_update (adoptable (ap_id c) p cat (now - min (window_s p) SEND_ADOPT_WINDOW_S))
       (sealed now (cp_ref p)) (approvals db)" "m = Send"
proof -
  let ?b = "now - min (window_s p) SEND_ADOPT_WINDOW_S"
  from a have m: "m = Send" by (cases m) (auto simp: claim_adopt_def)
  with a obtain c where n: "newest consumed_at ap_id (\<lambda>r. adoptable (ap_id r) p cat ?b r) (approvals db) = Some c"
    by (auto simp: claim_adopt_def Let_def split: option.splits)
  from newest_SomeD [OF n] have c: "c \<in> set (approvals db)" "adoptable (ap_id c) p cat ?b c" by auto
  define rows where "rows = sql_update (adoptable (ap_id c) p cat ?b) (sealed now (cp_ref p)) (approvals db)"
  have hit: "adoptReservation (ap_id c) p cat ?b now (cp_ref p) db = (True, db\<lparr>approvals := rows\<rparr>)"
    using c by (auto simp: adoptReservation_def changed_iff rows_def sealed_def [abs_def])
  have g: "getApproval (ap_id c) rows = Some (sealed now (cp_ref p) c)"
    using c getApproval_unique [OF d c(1)] by (simp add: rows_def getApproval_update)
  from a m n hit g show thesis
    by (intro that [OF c]) (auto simp: claim_adopt_def Let_def rows_def)
qed

lemma fresh_form:
  assumes a: "claim_fresh p cat m now db = Some (oc, db')"
  obtains c d1 where "c \<in> set (approvals db)" "in_scope p cat c" "usable (ap_id c) p now c"
    "resolved_via c = Some DashboardSession"
    "useUpApproval (ap_id c) p now (cp_ref p) (m = Send) db = (True, d1)" "taken (ap_id c) p now (m = Send) d1 = (oc, db')"
proof -
  from a obtain c where n: "newest resolved_at ap_id (\<lambda>r. in_scope p cat r \<and> ap_status r = Approved \<and> consumed_at r = None
             \<and> since (resolved_at r) (now - window_s p) \<and> resolved_via r = Some DashboardSession) (approvals db) = Some c"
    by (auto simp: claim_fresh_def split: option.splits)
  from newest_SomeD [OF n] have c: "c \<in> set (approvals db)" "in_scope p cat c" "usable (ap_id c) p now c"
    "resolved_via c = Some DashboardSession"
    by (auto simp: usable_def in_scope_def)
  obtain d1 where "useUpApproval (ap_id c) p now (cp_ref p) (m = Send) db = (True, d1)"
    using c by (auto simp: useUpApproval_def changed_iff)
  with a n c show thesis by (intro that [OF c]) (auto simp: claim_fresh_def)
qed

lemma claim_ok:
  assumes ok: "ledger_ok w gone db" "window_s p = w" "0 \<le> w" and c: "claimApproval p cat m now db = (oc, db')"
  shows "ledger_ok w gone db'"
  using c
proof (cases rule: claim_cases)
  case refused
  with ok show ?thesis by simp
next
  case replay
  with ok show ?thesis by simp
next
  case adopt
  have d: "distinct (map ap_id (approvals db))" using ok by (simp add: ledger_ok_def)
  from adopt_form [OF d adopt(4)] obtain c ev where
    c: "c \<in> set (approvals db)" "adoptable (ap_id c) p cat (now - min (window_s p) SEND_ADOPT_WINDOW_S) c"
    and ev: "ap_events db' = ap_events db @ [ev]" "ev_kind ev = EvUsed" "ev_approval ev = ap_id c" "ev_tenant ev = ap_tenant c"
    and rows: "approvals db' = sql_update (adoptable (ap_id c) p cat (now - min (window_s p) SEND_ADOPT_WINDOW_S))
       (sealed now (cp_ref p)) (approvals db)"
    by metis
  let ?g = "adoptable (ap_id c) p cat (now - min (window_s p) SEND_ADOPT_WINDOW_S)"
  show ?thesis
  proof (rule ledger_ok_update [OF ok(1) rows ev(1)])
    show "row_ok w (sealed now (cp_ref p) r) \<and> ap_id (sealed now (cp_ref p) r) = ap_id r
        \<and> ap_tenant (sealed now (cp_ref p) r) = ap_tenant r" if "?g r" "row_ok w r" for r
      using that ok(2) adopt(1) by (auto simp: adoptable_def row_ok_def decided_well_def)
    show "\<exists>s\<in>set (approvals db). ap_id s = ev_approval e \<and> ap_tenant s = ev_tenant e" if "e \<in> set [ev]" for e
      using that c(1) ev by auto
    show "of_bool (stamped k r) + uses k (ap_id r) [ev] = of_bool (stamped k (if ?g r then sealed now (cp_ref p) r else r))"
      if "k \<in> use_kinds" "r \<in> set (approvals db)" for k r
    proof (cases "r = c")
      case True
      with c that(1) ev show ?thesis by (auto simp: use_kinds_def stamped_def adoptable_def)
    next
      case False
      with same_id [OF d that(2) c(1)] have "ap_id r \<noteq> ap_id c" by blast
      with ev show ?thesis by (simp add: adoptable_def)
    qed
    show "uses k i [ev] = 0" if "getApproval i (approvals db) = None" for k i
      using getApproval_None [OF that c(1)] ev by simp
  qed
next
  case fresh
  from fresh_form [OF fresh(4)] obtain c d1 where c: "c \<in> set (approvals db)" "in_scope p cat c"
    "resolved_via c = Some DashboardSession" and t: "useUpApproval (ap_id c) p now (cp_ref p) (m = Send) db = (True, d1)"
    "taken (ap_id c) p now (m = Send) d1 = (oc, db')" by metis
  have "\<exists>r\<in>set (approvals db). ap_id r = ap_id c \<and> ap_category r = HUMAN_DECIDED_CATEGORY \<and> resolved_via r = Some DashboardSession"
    using c fresh(1) by (auto simp: in_scope_def)
  with taken_ok [OF ok(1) t(1) ok(2,3) _ t(2)] show ?thesis by blast
next
  case unusable
  then obtain es where "ap_events db' = ap_events db @ es" "\<forall>e\<in>set es. ev_kind e = EvConsumeRefused" by blast
  with ledger_ok_notes [OF ok(1) unusable(4)] show ?thesis by (auto simp: use_kinds_def)
qed

lemma step_ok:
  assumes "approval_step w db db'" "ledger_ok w gone db" "0 \<le> w"
  shows "ledger_ok w gone db'"
  using assms
proof (induction rule: approval_step.induct)
  case (noted k r db now reason actor ref)
  show ?case by (rule ledger_ok_notes [OF noted.prems(1)]) (use noted.hyps in \<open>auto simp: use_kinds_def\<close>)
qed (auto intro: ledger_ok_create create_once_ok resolve_ok expire_ok consume_ok claim_ok)

lemma drop_tenant_rows:
  "approvals (deleteTenantApprovals tenant now db) = filter (\<lambda>r. ap_tenant r \<noteq> tenant) (approvals db)"
  "ap_events (deleteTenantApprovals tenant now db) = filter (\<lambda>e. ev_tenant e \<noteq> tenant) (ap_events db)"
proof -
  have keep: "filter (\<lambda>r. ap_tenant r \<noteq> tenant) (sql_update (\<lambda>r. ap_tenant r = tenant \<and> ap_status r = Pending)
        (\<lambda>r. r\<lparr>ap_status := Rejected, resolved_at := Some now\<rparr>) rows) = filter (\<lambda>r. ap_tenant r \<noteq> tenant) rows" for rows
    by (induction rows) (auto simp: sql_update_def)
  show "approvals (deleteTenantApprovals tenant now db) = filter (\<lambda>r. ap_tenant r \<noteq> tenant) (approvals db)"
    "ap_events (deleteTenantApprovals tenant now db) = filter (\<lambda>e. ev_tenant e \<noteq> tenant) (ap_events db)"
    by (simp_all add: deleteTenantApprovals_def Let_def keep)
qed

lemma upkeep_rows: "upkeep_step db db' \<Longrightarrow> \<exists>P. approvals db' = filter P (approvals db)"
proof (induction rule: upkeep_step.induct)
  case (prune db cutoff)
  show ?case by (rule exI [of _ "\<lambda>_. True"]) (simp add: pruneApprovalEvents_def)
next
  case (drop_tenant db tenant now)
  show ?case using drop_tenant_rows(1) by blast
qed

lemma getApproval_filter:
  "distinct (map ap_id rows) \<Longrightarrow> getApproval i (filter P rows) =
     (case getApproval i rows of Some r \<Rightarrow> if P r then Some r else None | None \<Rightarrow> None)"
proof (induction rows)
  case (Cons x xs)
  have "getApproval i (filter P xs) = None" if "ap_id x = i"
  proof -
    have "ap_id y \<noteq> i" if "y \<in> set xs" for y using Cons.prems \<open>ap_id x = i\<close> that by (auto simp: image_iff)
    then show ?thesis by (auto simp: getApproval_def find_None_iff)
  qed
  with Cons show ?case by (auto simp: getApproval_def)
qed (simp add: getApproval_def)

lemma uses_split: "uses k i evs = uses k i (filter P evs) + uses k i (filter (\<lambda>e. \<not> P e) evs)"
  by (induction evs) auto

lemma prune_ok:
  assumes ok: "ledger_ok w gone db" shows "\<exists>gone'. ledger_ok w gone' (pruneApprovalEvents cutoff db)"
proof -
  define gone' where "gone' = (\<lambda>k i. gone k i + uses k i (filter (\<lambda>e. \<not> \<not> ev_at e < cutoff) (ap_events db)))"
  have same: "approvals (pruneApprovalEvents cutoff db) = approvals db" by (simp add: pruneApprovalEvents_def)
  have count: "uses k i (ap_events (pruneApprovalEvents cutoff db)) + gone' k i = uses k i (ap_events db) + gone k i" for k i
    using uses_split [of k i "ap_events db" "\<lambda>e. \<not> ev_at e < cutoff"] by (simp add: pruneApprovalEvents_def gone'_def)
  have fewer: "e \<in> set (ap_events db)" if "e \<in> set (ap_events (pruneApprovalEvents cutoff db))" for e
    using that by (simp add: pruneApprovalEvents_def)
  have "ledger_ok w gone' (pruneApprovalEvents cutoff db)"
    unfolding ledger_ok_def same count using ok fewer unfolding ledger_ok_def by blast
  then show ?thesis by blast
qed

lemma drop_ok:
  assumes ok: "ledger_ok w gone db" shows "\<exists>gone'. ledger_ok w gone' (deleteTenantApprovals tenant now db)"
proof -
  let ?P = "\<lambda>r. ap_tenant r \<noteq> tenant" and ?Q = "\<lambda>e. ev_tenant e \<noteq> tenant"
  have d: "distinct (map ap_id (approvals db))" and rows: "\<forall>r\<in>set (approvals db). row_ok w r"
    using ok by (simp_all add: ledger_ok_def)
  define gone' where "gone' = (\<lambda>k i. case getApproval i (filter ?P (approvals db)) of Some r \<Rightarrow> gone k i | None \<Rightarrow> 0)"
  have owner: "\<exists>r. r \<in> set (approvals db) \<and> ap_id r = ev_approval e \<and> getApproval (ev_approval e) (approvals db) = Some r \<and> ap_tenant r = ev_tenant e"
    if "e \<in> set (ap_events db)" "ev_kind e \<in> use_kinds" for e
  proof -
    have "\<exists>r\<in>set (approvals db). ap_id r = ev_approval e \<and> ap_tenant r = ev_tenant e" using ok that unfolding ledger_ok_def by blast
    then obtain r where r: "r \<in> set (approvals db)" "ap_id r = ev_approval e" "ap_tenant r = ev_tenant e" by blast
    with getApproval_unique [OF d r(1)] show ?thesis by auto
  qed
  have count: "uses k i (filter ?Q (ap_events db)) + gone' k i =
      (case getApproval i (filter ?P (approvals db)) of Some r \<Rightarrow> of_bool (stamped k r) | None \<Rightarrow> 0)" if k: "k \<in> use_kinds" for k i
  proof (cases "getApproval i (filter ?P (approvals db))")
    case None
    have "\<not> (ev_kind e = k \<and> ev_approval e = i)" if "e \<in> set (ap_events db)" "?Q e" for e
    proof
      assume e: "ev_kind e = k \<and> ev_approval e = i"
      with owner [OF that(1)] k obtain r where "getApproval i (approvals db) = Some r" "ap_tenant r = ev_tenant e" by blast
      with None that(2) show False by (simp add: getApproval_filter [OF d])
    qed
    then have "uses k i (filter ?Q (ap_events db)) = 0" by (auto simp: uses_def filter_empty_conv)
    with None show ?thesis by (simp add: gone'_def)
  next
    case (Some r)
    then have r: "getApproval i (approvals db) = Some r" "?P r" by (simp_all add: getApproval_filter [OF d] split: option.splits if_splits)
    have "\<not> (ev_kind e = k \<and> ev_approval e = i)" if "e \<in> set (ap_events db)" "\<not> ?Q e" for e
    proof
      assume e: "ev_kind e = k \<and> ev_approval e = i"
      with owner [OF that(1)] k obtain x where "getApproval i (approvals db) = Some x" "ap_tenant x = ev_tenant e" by blast
      with r that(2) show False by simp
    qed
    then have "uses k i (filter (\<lambda>e. \<not> ?Q e) (ap_events db)) = 0" by (auto simp: uses_def filter_empty_conv)
    then have "uses k i (filter ?Q (ap_events db)) = uses k i (ap_events db)" using uses_split [of k i "ap_events db" ?Q] by simp
    moreover have "uses k i (ap_events db) + gone k i = of_bool (stamped k r)"
    proof -
      have "uses k i (ap_events db) + gone k i = (case getApproval i (approvals db) of Some r \<Rightarrow> of_bool (stamped k r) | None \<Rightarrow> 0)"
        using ok k unfolding ledger_ok_def by blast
      then show ?thesis by (simp add: r(1))
    qed
    ultimately show ?thesis using Some by (simp add: gone'_def)
  qed
  have "distinct (map ap_id (filter ?P (approvals db)))" using d by (simp add: distinct_map_filter)
  moreover have "\<exists>r\<in>set (filter ?P (approvals db)). ap_id r = ev_approval e \<and> ap_tenant r = ev_tenant e"
    if e: "e \<in> set (filter ?Q (ap_events db))" "ev_kind e \<in> use_kinds" for e
  proof -
    obtain r where "r \<in> set (approvals db)" "ap_id r = ev_approval e" "ap_tenant r = ev_tenant e" using owner [of e] e by auto
    with e(1) show ?thesis by (intro bexI [of _ r]) simp_all
  qed
  moreover have "\<forall>r\<in>set (filter ?P (approvals db)). row_ok w r" using rows by simp
  ultimately have "ledger_ok w gone' (deleteTenantApprovals tenant now db)"
    using count unfolding ledger_ok_def drop_tenant_rows by blast
  then show ?thesis by blast
qed

lemma reach_ledger: "approval_reach w db \<Longrightarrow> 0 \<le> w \<Longrightarrow> \<exists>gone. ledger_ok w gone db"
proof (induction rule: approval_reach.induct)
  case empty_db
  then show ?case by (intro exI [of _ "\<lambda>_ _. 0"]) (simp add: ledger_ok_def getApproval_def)
next
  case step_db
  then show ?case using step_ok by blast
next
  case (upkeep_db db db')
  then obtain gone where ok: "ledger_ok w gone db" by blast
  from upkeep_db(2) show ?case by cases (use prune_ok [OF ok] drop_ok [OF ok] in auto)
qed

lemma reach_ok: "approval_reach w db \<Longrightarrow> 0 \<le> w \<Longrightarrow> db_ok w db"
  using reach_ledger [of w db] by (auto simp: ledger_ok_def db_ok_def)

section \<open>What an approval is, abstractly\<close>

text \<open>
  The specification: a ticket with fixed terms, which is asked for, then granted, denied or lapsed; a granted
  ticket is reserved by the gate and sealed by the sender, each at most once, and never reopened.
\<close>

datatype ticket_life = Asked | Granted | Declined | Lapsed | Reserved | Sealed

type_synonym ticket = "(string \<times> string \<times> string \<times> string \<times> string option \<times> string option \<times> bool) \<times> ticket_life"

inductive ticket_step :: "ticket option \<Rightarrow> ticket option \<Rightarrow> bool" where
  ask: "ticket_step None (Some (t, Asked))"
| grant: "ticket_step (Some (t, Asked)) (Some (t, Granted))"
| deny: "ticket_step (Some (t, Asked)) (Some (t, Declined))"
| lapse: "ticket_step (Some (t, Asked)) (Some (t, Lapsed))"
| reserve: "ticket_step (Some (t, Granted)) (Some (t, Reserved))"
| reserve_and_seal: "ticket_step (Some (t, Granted)) (Some (t, Sealed))"
| seal: "ticket_step (Some (t, Reserved)) (Some (t, Sealed))"

definition life :: "approval \<Rightarrow> ticket_life" where
  "life r = (case ap_status r of Pending \<Rightarrow> Asked | Rejected \<Rightarrow> Declined | TimedOut \<Rightarrow> Lapsed
     | Approved \<Rightarrow> if used_at r \<noteq> None then Sealed else if consumed_at r \<noteq> None then Reserved else Granted)"

definition ticket :: "approval \<Rightarrow> ticket" where
  "ticket r = ((ap_agent r, ap_category r, ap_tenant r, ap_description r, ap_payload r, content_hash r, human_only r), life r)"

definition tickets :: "approval_db \<Rightarrow> string \<Rightarrow> ticket option" where
  "tickets db i = map_option ticket (getApproval i (approvals db))"

lemma tickets_update:
  assumes "approvals db' = sql_update g f (approvals db)"
    and "\<And>r. r \<in> set (approvals db) \<Longrightarrow> g r \<Longrightarrow> ap_id (f r) = ap_id r \<and> ticket_step (Some (ticket r)) (Some (ticket (f r)))"
  shows "tickets db' i = tickets db i \<or> ticket_step (tickets db i) (tickets db' i)"
proof -
  have "getApproval i (approvals db') = map_option (\<lambda>r. if g r then f r else r) (getApproval i (approvals db))"
    using assms by (simp add: getApproval_update)
  then show ?thesis
    using assms(2) getApproval_Some [of i "approvals db"] by (cases "getApproval i (approvals db)") (auto simp: tickets_def)
qed

lemma tickets_create:
  assumes "createApproval c now db = Some (r, db')"
  shows "tickets db' i = tickets db i \<or> ticket_step (tickets db i) (tickets db' i)"
proof -
  from assms have "getApproval (ap_id r) (approvals db) = None" "approvals db' = approvals db @ [r]" "life r = Asked"
    by (auto simp: createApproval_def pendingApproval_def life_def Let_def split: if_splits)
  then show ?thesis
    by (cases "getApproval i (approvals db)") (auto simp: tickets_def getApproval_append ticket_def intro: ticket_step.ask)
qed

lemma ticket_consume:
  assumes "row_ok w r" "usable i p now r"
  shows "ticket_step (Some (ticket r)) (Some (ticket (consume_row p now ref seal r)))"
proof -
  have "used_at r = None" using assms by (auto simp: row_ok_def usable_def)
  moreover have "ap_description (consume_row p now ref seal r) = ap_description r"
    "ap_payload (consume_row p now ref seal r) = ap_payload r" by (simp_all add: consume_row_def Let_def)
  ultimately show ?thesis using assms(2)
    by (cases seal) (auto simp: ticket_def life_def usable_def intro: ticket_step.intros)
qed

lemma ticket_seal:
  "row_ok w r \<Longrightarrow> adoptable i p cat b r \<Longrightarrow> ticket_step (Some (ticket r)) (Some (ticket (sealed now ref r)))"
  by (auto simp: ticket_def life_def adoptable_def since_Some sealed_def intro: ticket_step.intros)

lemma ticket_decide:
  assumes "row_ok w r" "ap_status r = Pending" "st \<noteq> Pending"
  shows "ticket_step (Some (ticket r)) (Some (ticket (r\<lparr>ap_status := st, resolved_at := x, resolved_by := b,
           telegram_message_id := msg, resolved_via := v\<rparr>)))"
proof -
  have "consumed_at r = None" "used_at r = None" using assms by (auto simp: row_ok_def)
  with assms show ?thesis by (cases st) (auto simp: ticket_def life_def intro: ticket_step.intros)
qed

lemma tickets_same: "approvals db' = approvals db \<Longrightarrow> tickets db' i = tickets db i"
  by (simp add: tickets_def)

lemma taken_rows: "taken i p now seal d1 = (oc, db') \<Longrightarrow> approvals db' = approvals d1"
  by (auto simp: taken_def Let_def split: option.splits if_splits)

lemma rows_ok: "db_ok w db \<Longrightarrow> r \<in> set (approvals db) \<Longrightarrow> row_ok w r"
  by (simp add: db_ok_def)

lemma tickets_taken:
  assumes "db_ok w db" "useUpApproval i p now ref seal db = (b, d1)" "taken i p now seal d1 = (oc, db')"
  shows "tickets db' j = tickets db j \<or> ticket_step (tickets db j) (tickets db' j)"
proof (rule tickets_update)
  show "approvals db' = sql_update (usable i p now) (consume_row p now ref seal) (approvals db)"
    using assms(2) taken_rows [OF assms(3)] by (auto simp: useUpApproval_def)
qed (use ticket_consume rows_ok [OF assms(1)] in \<open>simp add: ticket_consume [of w]\<close>)

lemma once_rows:
  "createApprovalOnce c h n now db = (oc, db') \<Longrightarrow>
     approvals db' = approvals db \<or> (\<exists>r. createApproval (c\<lparr>cr_hash := Some h\<rparr>) now db = Some (r, db'))"
  by (auto simp: createApprovalOnce_def Let_def split: if_splits option.splits)

lemma consume_rows:
  assumes "consumeApproval i p now db = (oc, db')"
  obtains "approvals db' = approvals db"
  | d1 where "useUpApproval i p now (cp_ref p) False db = (True, d1)" "taken i p now False d1 = (oc, db')"
proof (cases "useUpApproval i p now (cp_ref p) False db")
  case (Pair hit d1)
  show thesis
  proof (cases "isContentHash (JStr (cp_hash p)) \<and> hit")
    case True
    with Pair assms that(2) show thesis by (auto simp: consumeApproval_def)
  next
    case False
    with Pair assms have "approvals db' = approvals db"
      by (auto simp: consumeApproval_def journalConsumeRefusal_def split: outcome.splits option.splits if_splits)
    with that(1) show thesis .
  qed
qed

text \<open>
  C3: The storage refines the ticket: whatever operation runs, and whenever, every approval either stays as it
  is or makes one move its life allows, on unchanged terms (agent, category, tenant, description, payload,
  hash, human-only mark). In particular a decided approval is never reopened and a used one never used again.
\<close>

theorem approval_refines_ticket:
  assumes "approval_reach w db" "0 \<le> w" "approval_step w db db'"
  shows "tickets db' i = tickets db i \<or> ticket_step (tickets db i) (tickets db' i)"
proof -
  have ok: "db_ok w db" using assms(1,2) by (rule reach_ok)
  from assms(3) show ?thesis
  proof cases
    case (create c now r)
    then show ?thesis using tickets_create by blast
  next
    case (open_once c h n now oc)
    then show ?thesis using once_rows tickets_create tickets_same by blast
  next
    case (resolve st j who msg v now b)
    show ?thesis
    proof (rule tickets_update)
      show "approvals db' = sql_update (resolvable j st now)
          (\<lambda>r. r\<lparr>ap_status := st, resolved_at := Some now, resolved_by := Some who,
             telegram_message_id := (case msg of Some m \<Rightarrow> Some m | None \<Rightarrow> telegram_message_id r), resolved_via := v\<rparr>) (approvals db)"
        using resolve by (auto simp: resolveApproval_def)
    qed (use resolve(1) ticket_decide [OF rows_ok [OF ok]] in \<open>simp add: resolvable_def\<close>)
  next
    case (expire now n)
    show ?thesis
    proof (rule tickets_update)
      show "approvals db' = sql_update (overdue now)
          (\<lambda>r. r\<lparr>ap_status := TimedOut, resolved_at := Some now, resolved_by := Some ''system:timeout''\<rparr>) (approvals db)"
        using expire by (auto simp: expireTimedOutApprovals_def)
    next
      fix r
      assume "r \<in> set (approvals db)" "overdue now r"
      with rows_ok [OF ok] have "row_ok w r" "ap_status r = Pending" by (auto simp: overdue_def)
      from ticket_decide [OF this, where st = TimedOut and x = "Some now" and b = "Some ''system:timeout''"
        and msg = "telegram_message_id r" and v = "resolved_via r"]
      show "ap_id (r\<lparr>ap_status := TimedOut, resolved_at := Some now, resolved_by := Some ''system:timeout''\<rparr>) = ap_id r
        \<and> ticket_step (Some (ticket r)) (Some (ticket (r\<lparr>ap_status := TimedOut, resolved_at := Some now, resolved_by := Some ''system:timeout''\<rparr>)))"
        by (simp add: ticket_def life_def)
    qed
  next
    case (consume p id now res)
    then show ?thesis using tickets_taken [OF ok] tickets_same by (elim consume_rows) blast+
  next
    case (claim p cat m now res)
    from claim(2) show ?thesis
    proof (cases rule: claim_cases)
      case adopt
      have "distinct (map ap_id (approvals db))" using ok by (simp add: db_ok_def)
      from adopt_form [OF this adopt(4)] show ?thesis
        by (metis (no_types, lifting) tickets_update ticket_seal rows_ok [OF ok] sealed_sel(1))
    next
      case fresh
      from fresh_form [OF fresh(4)] show ?thesis using tickets_taken [OF ok] by metis
    next
      case unusable
      with tickets_same show ?thesis by blast
    qed simp_all
  next
    case (noted k r now reason actor ref)
    then show ?thesis by (simp add: tickets_def)
  qed
qed

text \<open>
  C6: However the operations interleave, with each other and with the prune of the journal and the removal of tenants, the
  journal holds at most one use and at most one seal of an approval, and only for a row that bears the stamp; and
  whenever an operation stamps a row as consumed or as used, it writes that use into the journal in the same step.
\<close>

theorem approval_spent_once:
  assumes "approval_reach w db" "0 \<le> w"
  shows "uses EvConsumed i (ap_events db) \<le> 1 \<and> uses EvUsed i (ap_events db) \<le> 1
    \<and> (0 < uses EvConsumed i (ap_events db) \<longrightarrow> (\<exists>r\<in>set (approvals db). ap_id r = i \<and> consumed_at r \<noteq> None))
    \<and> (0 < uses EvUsed i (ap_events db) \<longrightarrow> (\<exists>r\<in>set (approvals db). ap_id r = i \<and> used_at r \<noteq> None))
    \<and> (approval_step w db db' \<and> r \<in> set (approvals db) \<and> r' \<in> set (approvals db') \<and> ap_id r = i \<and> ap_id r' = i \<longrightarrow>
         (consumed_at r = None \<and> consumed_at r' \<noteq> None \<longrightarrow> uses EvConsumed i (ap_events db) = 0 \<and> uses EvConsumed i (ap_events db') = 1)
         \<and> (used_at r = None \<and> used_at r' \<noteq> None \<longrightarrow> uses EvUsed i (ap_events db) = 0 \<and> uses EvUsed i (ap_events db') = 1))"
proof -
  obtain gone where ok: "ledger_ok w gone db" using reach_ledger [OF assms] by blast
  have kinds: "EvConsumed \<in> use_kinds" "EvUsed \<in> use_kinds" by (simp_all add: use_kinds_def)
  have row: "uses k i (ap_events d) + gone k i = of_bool (stamped k x)"
    if "ledger_ok w gone d" "k \<in> use_kinds" "x \<in> set (approvals d)" "ap_id x = i" for d k x
    using that getApproval_unique [of "approvals d" x] by (auto simp: ledger_ok_def)
  have held: "uses k i (ap_events db) \<le> 1 \<and> (0 < uses k i (ap_events db) \<longrightarrow> (\<exists>r\<in>set (approvals db). ap_id r = i \<and> stamped k r))"
    if k: "k \<in> use_kinds" for k
  proof (cases "getApproval i (approvals db)")
    case None
    have "uses k i (ap_events db) + gone k i = (case getApproval i (approvals db) of Some r \<Rightarrow> of_bool (stamped k r) | None \<Rightarrow> 0)"
      using ok k unfolding ledger_ok_def by blast
    with None show ?thesis by simp
  next
    case (Some x)
    with getApproval_Some have x: "x \<in> set (approvals db)" "ap_id x = i" by blast+
    with row [OF ok k x] show ?thesis by (cases "stamped k x") auto
  qed
  have stamps: "uses k i (ap_events db) = 0 \<and> uses k i (ap_events db') = 1"
    if "approval_step w db db'" "r \<in> set (approvals db)" "r' \<in> set (approvals db')" "ap_id r = i" "ap_id r' = i"
      "k \<in> use_kinds" "\<not> stamped k r" "stamped k r'" for k
    using row [OF ok that(6,2,4)] row [OF step_ok [OF that(1) ok assms(2)] that(6,3,5)] that(7,8) by simp
  from held [OF kinds(1)] held [OF kinds(2)] stamps [OF _ _ _ _ _ kinds(1)] stamps [OF _ _ _ _ _ kinds(2)] show ?thesis
    by (auto simp: stamped_def)
qed

text \<open>
  Whatever was used up had been approved before its deadline and at most the use window earlier, was used by
  the agent that asked, and a mail or a human-only request was decided in a dashboard session.
\<close>

theorem spent_approval_granted:
  assumes "approval_reach w db" "0 \<le> w" "r \<in> set (approvals db)" "consumed_at r = Some c"
  shows "ap_status r = Approved \<and> consumed_by r = Some (ap_agent r)
    \<and> (\<exists>t. resolved_at r = Some t \<and> c \<le> t + w \<and> (\<forall>d. timeout_at r = Some d \<longrightarrow> t < d))
    \<and> (ap_category r = HUMAN_DECIDED_CATEGORY \<or> human_only r \<longrightarrow> resolved_via r = Some DashboardSession)"
proof -
  have "row_ok w r" using reach_ok [OF assms(1,2)] assms(3) by (simp add: db_ok_def)
  with assms(4) show ?thesis by (auto simp: row_ok_def decided_well_def since_Some)
qed

text \<open>
  A refused use changes no row and names its true cause: a missing and a foreign approval look the same,
  and the last reason is given exactly to a decision that no person's session made where one is needed.
\<close>

theorem consume_errors_exact:
  assumes "approval_reach w db" "0 \<le> w" "consumeApproval i p now db = (RefusedUse why ro, db')"
  shows "approvals db' = approvals db \<and>
    (if why = NoSuchApproval then ro = None \<and> (\<forall>r\<in>set (approvals db). ap_id r = i \<longrightarrow> ap_tenant r \<noteq> cp_tenant p)
     else \<exists>r\<in>set (approvals db). ro = Some r \<and> ap_id r = i \<and> ap_tenant r = cp_tenant p \<and>
       (case why of
          AgentMismatch \<Rightarrow> ap_agent r \<noteq> principal p
        | HashMismatch \<Rightarrow> \<not> isContentHash (JStr (cp_hash p)) \<or> content_hash r \<noteq> Some (cp_hash p)
        | AlreadyConsumed \<Rightarrow> consumed_at r \<noteq> None \<and> \<not> isReplay r p now
        | NotApproved \<Rightarrow> ap_status r \<noteq> Approved
        | Expired \<Rightarrow> ap_status r = Approved \<and> consumed_at r = None \<and> \<not> since (resolved_at r) (now - window_s p)
        | NotHumanDecided \<Rightarrow> ap_status r = Approved \<and> consumed_at r = None \<and> content_hash r = Some (cp_hash p)
            \<and> since (resolved_at r) (now - window_s p) \<and> resolved_via r \<noteq> Some DashboardSession
            \<and> (resolved_via r = None \<or> ap_category r = HUMAN_DECIDED_CATEGORY \<or> human_only r)
        | _ \<Rightarrow> False))"
proof -
  have ok: "db_ok w db" using assms(1,2) by (rule reach_ok)
  then have d: "distinct (map ap_id (approvals db))" by (simp add: db_ok_def)
  obtain hit d1 where h: "useUpApproval i p now (cp_ref p) False db = (hit, d1)" by fastforce
  have no: "\<not> (isContentHash (JStr (cp_hash p)) \<and> hit)"
  proof
    assume *: "isContentHash (JStr (cp_hash p)) \<and> hit"
    with h have "useUpApproval i p now (cp_ref p) False db = (True, d1)" by simp
    from usable_hit [OF d this] obtain r where
      "getApproval i (approvals d1) = Some (consume_row p now (cp_ref p) False r)" by metis
    with * h assms(3) show False by (auto simp: consumeApproval_def taken_def Let_def)
  qed
  with h assms(3) have c: "classify_consume i p now (approvals db) = RefusedUse why ro" and db': "approvals db' = approvals db"
    by (auto simp: consumeApproval_def split: outcome.splits option.splits)
  show ?thesis
  proof (cases "getApproval i (approvals db)")
    case None
    with c db' getApproval_None [OF None] show ?thesis by (auto simp: classify_consume_def)
  next
    case (Some r)
    with getApproval_Some have r: "r \<in> set (approvals db)" "ap_id r = i" by blast+
    have only: "s = r" if "s \<in> set (approvals db)" "ap_id s = i" for s
      using same_id [OF d that(1) r(1)] that(2) r(2) by simp
    show ?thesis
    proof (cases "ap_tenant r = cp_tenant p")
      case False
      with c db' Some only show ?thesis by (auto simp: classify_consume_def)
    next
      case own: True
      have "\<not> usable i p now r" if "isContentHash (JStr (cp_hash p))"
        using no h r(1) that by (auto simp: useUpApproval_def changed_iff)
      then have human: "resolved_via r \<noteq> Some DashboardSession
          \<and> (resolved_via r = None \<or> ap_category r = HUMAN_DECIDED_CATEGORY \<or> human_only r)"
        if "isContentHash (JStr (cp_hash p))" "ap_status r = Approved" "consumed_at r = None" "content_hash r = Some (cp_hash p)"
          "ap_agent r = principal p" "since (resolved_at r) (now - window_s p)"
        using that own r(2) by (cases "resolved_via r"; cases "the (resolved_via r)") (auto simp: usable_def)
      have "ro = Some r \<and> why \<noteq> NoSuchApproval"
        using c own Some by (auto simp: classify_consume_def split: if_splits)
      moreover have "case why of
          AgentMismatch \<Rightarrow> ap_agent r \<noteq> principal p
        | HashMismatch \<Rightarrow> \<not> isContentHash (JStr (cp_hash p)) \<or> content_hash r \<noteq> Some (cp_hash p)
        | AlreadyConsumed \<Rightarrow> consumed_at r \<noteq> None \<and> \<not> isReplay r p now
        | NotApproved \<Rightarrow> ap_status r \<noteq> Approved
        | Expired \<Rightarrow> ap_status r = Approved \<and> consumed_at r = None \<and> \<not> since (resolved_at r) (now - window_s p)
        | NotHumanDecided \<Rightarrow> ap_status r = Approved \<and> consumed_at r = None \<and> content_hash r = Some (cp_hash p)
            \<and> since (resolved_at r) (now - window_s p) \<and> resolved_via r \<noteq> Some DashboardSession
            \<and> (resolved_via r = None \<or> ap_category r = HUMAN_DECIDED_CATEGORY \<or> human_only r)
        | _ \<Rightarrow> False"
        using c own Some human unfolding classify_consume_def by (simp del: isContentHash.simps split: if_splits)
      ultimately show ?thesis using r own db' by simp
    qed
  qed
qed

lemma taken_form:
  assumes "distinct (map ap_id (approvals db))" "useUpApproval i p now ref seal db = (True, d1)"
    and "taken i p now seal d1 = (oc, db')"
  obtains r where "r \<in> set (approvals db)" "usable i p now r" "oc = Taken False False (consume_row p now ref seal r)"
    "approvals db' = sql_update (usable i p now) (consume_row p now ref seal) (approvals db)"
  using assms(1,2)
proof (rule usable_hit)
  fix r
  assume r: "r \<in> set (approvals db)" "usable i p now r" "getApproval i (approvals d1) = Some (consume_row p now ref seal r)"
    "approvals d1 = sql_update (usable i p now) (consume_row p now ref seal) (approvals db)"
  from assms(3) r(3) have "oc = Taken False False (consume_row p now ref seal r)"
    by (auto simp: taken_def Let_def split: if_splits)
  with r taken_rows [OF assms(3)] that show thesis by simp
qed

lemma updated_once:
  assumes "distinct (map ap_id rows)" "c \<in> set rows" "g c" "\<And>r. g r \<Longrightarrow> ap_id r = ap_id c" "ap_id (f c) = ap_id c"
  shows "set (sql_update g f (rows :: approval list)) = insert (f c) (set rows - {c})"
proof -
  have "g r \<longleftrightarrow> r = c" if "r \<in> set rows" for r
    using that assms(2-4) same_id [OF assms(1)] by blast
  then have "sql_update g f rows = map (\<lambda>r. if r = c then f c else r) rows" by (auto simp: sql_update_def)
  with assms(2) show ?thesis by (auto simp: image_iff split: if_splits)
qed

text \<open>
  A lost answer costs nothing: the same claim repeated within a minute answers the same row as a replay
  and writes nothing, so a retry never burns a second approval.
\<close>

theorem claim_retry_free:
  assumes "approval_reach w db" "0 \<le> w" and c: "claimApproval p cat m now db = (Taken False a r, db')"
    and ref: "cp_ref p = Some s" "s \<noteq> []" and t: "now \<le> now'" "now' \<le> now + CONSUME_REPLAY_WINDOW_S"
  shows "\<exists>a'. claimApproval p cat m now' db' = (Taken True a' r, db')"
proof -
  have d: "distinct (map ap_id (approvals db))" using reach_ok [OF assms(1,2)] by (simp add: db_ok_def)
  have ok: "cat = HUMAN_DECIDED_CATEGORY" "isContentHash (JStr (cp_hash p))"
    using c by (auto simp: claimApproval_def simp del: isContentHash.simps split: if_splits)
  define P where "P = (\<lambda>now x. case m of
      Send \<Rightarrow> in_scope p cat x \<and> used_ref x = cp_ref p \<and> cp_ref p \<noteq> None \<and> since (used_at x) (now - CONSUME_REPLAY_WINDOW_S)
    | Gate \<Rightarrow> in_scope p cat x \<and> consumed_by x = Some (principal p) \<and> consumed_ref x = cp_ref p
               \<and> since (consumed_at x) (now - CONSUME_REPLAY_WINDOW_S))"
  have early: "P now x" if "P now' x" for x
    using that t(1) by (auto simp: P_def since_Some split: claim_mode.splits)
  have replayed: ?thesis if "P now' r" "r \<in> set (approvals db')" "\<And>x. x \<in> set (approvals db') \<Longrightarrow> P now' x \<Longrightarrow> x = r"
  proof -
    have "\<exists>a'. claim_replay p cat m now' (approvals db') = Some (Taken True a' r)"
      using newest_only [of r "approvals db'" "P now'", OF that(2,1,3)] ref by (cases m) (auto simp: claim_replay_def P_def)
    then show ?thesis using ok ref by (auto simp: claimApproval_def simp del: isContentHash.simps)
  qed
  have none: "\<not> P now x" if "claim_replay p cat m now (approvals db) = None" "x \<in> set (approvals db)" for x
    using that ref by (auto simp: claim_replay_def P_def newest_None_iff split: claim_mode.splits)
  from c show ?thesis
  proof (cases rule: claim_cases)
    case replay
    then show ?thesis by (auto simp: claim_replay_def split: claim_mode.splits if_splits)
  next
    case adopt
    from adopt_form [OF d adopt(4)] obtain k where k: "k \<in> set (approvals db)"
      "adoptable (ap_id k) p cat (now - min (window_s p) SEND_ADOPT_WINDOW_S) k" "r = sealed now (cp_ref p) k"
      "approvals db' = sql_update (adoptable (ap_id k) p cat (now - min (window_s p) SEND_ADOPT_WINDOW_S))
         (sealed now (cp_ref p)) (approvals db)"
      by (metis outcome.inject(1))
    have rows: "set (approvals db') = insert r (set (approvals db) - {k})"
      unfolding k(3,4) by (rule updated_once [OF d k(1)]) (use k(2) in \<open>auto simp: adoptable_def\<close>)
    show ?thesis
    proof (rule replayed)
      show "P now' r" using k t(2) ref adopt(2) by (auto simp: P_def in_scope_def adoptable_def)
      show "x = r" if "x \<in> set (approvals db')" "P now' x" for x
        using that rows none [OF adopt(3)] early by blast
    qed (simp add: rows)
  next
    case fresh
    from fresh_form [OF fresh(4)] obtain k d1 where k: "in_scope p cat k"
      and h: "k \<in> set (approvals db)" "useUpApproval (ap_id k) p now (cp_ref p) (m = Send) db = (True, d1)"
        "taken (ap_id k) p now (m = Send) d1 = (Taken False a r, db')" by metis
    from taken_form [OF d h(2,3)] obtain k' where k': "k' \<in> set (approvals db)" "usable (ap_id k) p now k'"
      "r = consume_row p now (cp_ref p) (m = Send) k'"
      "approvals db' = sql_update (usable (ap_id k) p now) (consume_row p now (cp_ref p) (m = Send)) (approvals db)"
      by (metis outcome.inject(1))
    have "k' = k" using same_id [OF d k'(1) h(1)] k'(2) by (simp add: usable_def)
    have rows: "set (approvals db') = insert r (set (approvals db) - {k})"
      unfolding k'(3,4) \<open>k' = k\<close> by (rule updated_once [OF d h(1)]) (use k'(2) \<open>k' = k\<close> in \<open>auto simp: usable_def\<close>)
    show ?thesis
    proof (rule replayed)
      show "P now' r" using k k' \<open>k' = k\<close> t(2) ref by (cases m) (auto simp: P_def in_scope_def)
      show "x = r" if "x \<in> set (approvals db')" "P now' x" for x
        using that rows none [OF fresh(2)] early by blast
    qed (simp add: rows)
  next
    case unusable
    then show ?thesis by (auto simp: classify_claim_def split: option.splits if_splits)
  qed simp
qed

section \<open>One mail, from request to use\<close>

definition sample_create :: create_params where
  "sample_create = \<lparr>cr_id = ''a1'', cr_agent = ''main'', cr_category = ''email_send'', cr_description = ''mail'',
     cr_payload = None, cr_timeout_at = Some 100, cr_tenant = None, cr_human_only = True,
     cr_hash = Some (replicate 64 (CHR ''a''))\<rparr>"

definition sample_use :: consume_params where
  "sample_use = \<lparr>cp_hash = replicate 64 (CHR ''a''), principal = ''main'', cp_tenant = ''default'', window_s = 60,
     cp_ref = Some ''g1'', consumer = None\<rparr>"

definition sample_open :: approval_db where
  "sample_open = \<lparr>approvals = [pendingApproval sample_create 0], ap_events = []\<rparr>"

definition sample_granted :: approval_db where
  "sample_granted = snd (resolveApproval ''a1'' Approved ''human:session:o'' None (Some DashboardSession) 10 sample_open)"

definition sample_spent :: approval_db where
  "sample_spent = snd (claimApproval sample_use ''email_send'' Gate 20 sample_granted)"

lemma sample_open_reach: "approval_reach 60 sample_open"
proof -
  have "createApproval sample_create 0 \<lparr>approvals = [], ap_events = []\<rparr> = Some (pendingApproval sample_create 0, sample_open)"
    by (simp add: createApproval_def getApproval_def sample_open_def Let_def)
  then show ?thesis by (blast intro: approval_reach.intros approval_step.create)
qed

lemma sample_granted_step: "approval_step 60 sample_open sample_granted"
  unfolding sample_granted_def by (rule approval_step.resolve [OF _ prod.collapse [symmetric]]) simp

lemma sample_spent_step: "approval_step 60 sample_granted sample_spent"
  unfolding sample_spent_def by (rule approval_step.claim [OF _ prod.collapse [symmetric]]) (simp add: sample_use_def)

lemma sample_granted_reach: "approval_reach 60 sample_granted"
  using sample_open_reach sample_granted_step by (rule step_db)

lemma sample_spent_reach: "approval_reach 60 sample_spent"
  using sample_granted_reach sample_spent_step by (rule step_db)

theorem approval_refines_ticket_witness: "ticket_step (tickets sample_granted ''a1'') (tickets sample_spent ''a1'')"
proof -
  have "tickets sample_spent ''a1'' \<noteq> tickets sample_granted ''a1''" by code_simp
  with approval_refines_ticket [OF sample_granted_reach _ sample_spent_step, of "''a1''"] show ?thesis by simp
qed

theorem approval_spent_once_witness: "uses EvConsumed ''a1'' (ap_events sample_spent) = 1 \<and> uses EvUsed ''a1'' (ap_events sample_spent) \<le> 1"
proof -
  have "uses EvConsumed ''a1'' (ap_events sample_spent) = 1" by code_simp
  with approval_spent_once [OF sample_spent_reach, of "''a1''"] show ?thesis by simp
qed

theorem spent_approval_granted_witness:
  "\<exists>r\<in>set (approvals sample_spent). consumed_at r = Some 20 \<and> resolved_via r = Some DashboardSession"
proof -
  have "list_ex (\<lambda>r. consumed_at r = Some 20 \<and> human_only r) (approvals sample_spent)" by code_simp
  then obtain r where "r \<in> set (approvals sample_spent)" "consumed_at r = Some 20" "human_only r" by (auto simp: list_ex_iff)
  with spent_approval_granted [OF sample_spent_reach _ this(1,2)] show ?thesis by auto
qed

theorem consume_errors_exact_witness:
  "\<exists>r. fst (consumeApproval ''a1'' sample_use 200 sample_granted) = RefusedUse Expired (Some r) \<and> \<not> since (resolved_at r) 140"
proof -
  have "(case fst (consumeApproval ''a1'' sample_use 200 sample_granted) of RefusedUse Expired _ \<Rightarrow> True | _ \<Rightarrow> False)"
    by code_simp
  then obtain ro db' where *: "consumeApproval ''a1'' sample_use 200 sample_granted = (RefusedUse Expired ro, db')"
    by (cases "consumeApproval ''a1'' sample_use 200 sample_granted") (auto split: outcome.splits use_refusal.splits)
  from consume_errors_exact [OF sample_granted_reach _ this] * show ?thesis by (auto simp: sample_use_def)
qed

theorem claim_retry_free_witness:
  "\<exists>a r. claimApproval sample_use ''email_send'' Gate 70 sample_spent = (Taken True a r, sample_spent)"
proof -
  have "(case fst (claimApproval sample_use ''email_send'' Gate 20 sample_granted) of Taken False _ _ \<Rightarrow> True | _ \<Rightarrow> False)"
    by code_simp
  then obtain a r where "claimApproval sample_use ''email_send'' Gate 20 sample_granted = (Taken False a r, sample_spent)"
    by (cases "claimApproval sample_use ''email_send'' Gate 20 sample_granted")
       (auto simp: sample_spent_def split: outcome.splits bool.splits)
  from claim_retry_free [OF sample_granted_reach _ this, of "''g1''" 70] show ?thesis
    by (auto simp: sample_use_def CONSUME_REPLAY_WINDOW_S_def)
qed

end
