(* ===== verification/JsonText.thy ===== *)
theory JsonText
  imports JsBase
begin

text \<open>
  \<open>JSON.stringify\<close> on the values the modelled code prints: strings, natural numbers, arrays and objects
  with a fixed list of keys, without white space. A string prints with the escapes of ECMAScript; characters
  from 127 on stay as they are. The lemmas say that a printed value ends where it says it ends, so that
  two texts agree only when the values do.
\<close>

definition hex_digit :: "nat \<Rightarrow> char" where
  "hex_digit n = (if n < 10 then char_of (48 + n) else char_of (87 + n))"

definition json_char :: "char \<Rightarrow> string" where
  "json_char c =
     (if code c = 34 then [CHR 0x5C, CHR 0x22]
      else if code c = 92 then [CHR 0x5C, CHR 0x5C]
      else if code c = 8 then [CHR 0x5C, CHR ''b'']
      else if code c = 9 then [CHR 0x5C, CHR ''t'']
      else if code c = 10 then [CHR 0x5C, CHR ''n'']
      else if code c = 12 then [CHR 0x5C, CHR ''f'']
      else if code c = 13 then [CHR 0x5C, CHR ''r'']
      else if code c < 32 then [CHR 0x5C, CHR ''u'', CHR ''0'', CHR ''0'', hex_digit (code c div 16), hex_digit (code c mod 16)]
      else [c])"

definition json_string :: "string \<Rightarrow> string" where
  "json_string s = CHR 0x22 # concat (map json_char s) @ [CHR 0x22]"

definition json_array :: "('a \<Rightarrow> string) \<Rightarrow> 'a list \<Rightarrow> string" where
  "json_array f xs = CHR ''['' # join_with '','' (map f xs) @ '']''"

text \<open>One member of an object, after its comma or brace.\<close>

definition json_member :: "string \<Rightarrow> string \<Rightarrow> string" where
  "json_member k v = json_string k @ '':'' @ v"

definition json_object :: "(string \<times> string) list \<Rightarrow> string" where
  "json_object kvs = CHR ''{'' # join_with '','' (map (\<lambda>(k, v). json_member k v) kvs) @ ''}''"

section \<open>Texts that know their end\<close>

definition delimited :: "('a \<Rightarrow> string) \<Rightarrow> bool" where
  "delimited f \<longleftrightarrow> (\<forall>a b x y. f a @ x = f b @ y \<longrightarrow> a = b \<and> x = y)"

lemma delimitedD: "delimited f \<Longrightarrow> f a @ x = f b @ y \<longleftrightarrow> a = b \<and> x = y"
  by (auto simp: delimited_def)

lemma code_inject: "code c = code d \<longleftrightarrow> c = d"
  by (simp add: code_def)

lemma code_char_of [simp]: "n < 256 \<Longrightarrow> code (char_of n) = n"
  by (simp add: code_def)

lemma char_of_code [simp]: "char_of (code c) = c"
  by (simp add: code_def)

text \<open>Reading one character back.\<close>

definition hex_val :: "char \<Rightarrow> nat" where
  "hex_val c = (if code c < 58 then code c - 48 else code c - 87)"

definition unescape :: "char \<Rightarrow> char" where
  "unescape e = (if e = CHR ''b'' then char_of (8::nat) else if e = CHR ''t'' then char_of (9::nat)
     else if e = CHR ''n'' then char_of (10::nat) else if e = CHR ''f'' then char_of (12::nat)
     else if e = CHR ''r'' then char_of (13::nat) else e)"

definition json_uncons :: "string \<Rightarrow> char \<times> string" where
  "json_uncons s =
     (if code (hd s) \<noteq> 92 then (hd s, tl s)
      else if s ! 1 = CHR ''u'' then (char_of (16 * hex_val (s ! 4) + hex_val (s ! 5)), drop 6 s)
      else (unescape (s ! 1), drop 2 s))"

lemma hex_val_digit: "n < 16 \<Longrightarrow> hex_val (hex_digit n) = n"
  by (simp add: hex_val_def hex_digit_def)

lemma char_codes:
  "code (CHR 0x5C) = 92" "code (CHR 0x22) = 34" "code (CHR ''u'') = 117" "code (CHR ''b'') = 98" "code (CHR ''t'') = 116"
  "code (CHR ''n'') = 110" "code (CHR ''f'') = 102" "code (CHR ''r'') = 114"
  by (simp_all add: code_def)

lemma json_uncons_char: "json_uncons (json_char c @ x) = (c, x)"
proof (cases "code c < 32 \<or> code c = 34 \<or> code c = 92")
  case False
  then show ?thesis by (simp add: json_char_def json_uncons_def)
next
  case True
  have c: "c = char_of (code c)" by simp
  show ?thesis
  proof (cases "code c \<in> {34, 92, 8, 9, 10, 12, 13}")
    case True
    moreover have "char_of (34::nat) = CHR 0x22" "char_of (92::nat) = CHR 0x5C"
      by (simp_all add: code_inject [symmetric] char_codes)
    ultimately show ?thesis
      by (elim insertE emptyE; subst (2) c; simp add: json_char_def json_uncons_def unescape_def char_codes)
  next
    case False
    with True have "code c < 32" by auto
    then have "code c div 16 < 16" "code c mod 16 < 16" "16 * (code c div 16) + code c mod 16 = code c" by auto
    with False \<open>code c < 32\<close> show ?thesis
      by (simp add: json_char_def json_uncons_def char_codes hex_val_digit)
  qed
qed

lemma delimited_json_char: "delimited json_char"
  unfolding delimited_def by (metis json_uncons_char prod.inject)

lemma json_char_not_quote: "json_char c @ x \<noteq> CHR 0x22 # y"
proof -
  have "code (hd (json_char c @ x)) \<noteq> 34" by (simp add: json_char_def char_codes)
  then show ?thesis by (auto simp: char_codes)
qed

lemma delimited_json_string: "delimited json_string"
proof -
  have *: "a = b \<and> x = y"
    if "concat (map json_char a) @ CHR 0x22 # x = concat (map json_char b) @ CHR 0x22 # y" for a b x y
    using that
  proof (induction a arbitrary: b)
    case Nil
    show ?case
    proof (cases b)
      case (Cons d b')
      with Nil.prems have "json_char d @ concat (map json_char b') @ CHR 0x22 # y = CHR 0x22 # x" by simp
      with json_char_not_quote show ?thesis by blast
    qed (use Nil.prems in simp)
  next
    case (Cons c a)
    show ?case
    proof (cases b)
      case Nil
      with Cons.prems have "json_char c @ concat (map json_char a) @ CHR 0x22 # x = CHR 0x22 # y" by simp
      with json_char_not_quote show ?thesis by blast
    next
      case (Cons d b')
      with Cons.prems have "json_char c @ concat (map json_char a) @ CHR 0x22 # x
          = json_char d @ concat (map json_char b') @ CHR 0x22 # y" by simp
      then have "c = d" "concat (map json_char a) @ CHR 0x22 # x = concat (map json_char b') @ CHR 0x22 # y"
        by (simp_all only: delimitedD [OF delimited_json_char])
      with Cons.IH [of b'] \<open>b = d # b'\<close> show ?thesis by blast
    qed
  qed
  show ?thesis
    unfolding delimited_def json_string_def by (intro allI impI *) simp
qed

lemma json_string_inject: "json_string a = json_string b \<longleftrightarrow> a = b"
  using delimitedD [OF delimited_json_string, of a "[]" b "[]"] by simp

text \<open>An array of values that neither are empty texts nor start like the end of an array.\<close>

lemma json_array_Cons:
  "json_array f (x # xs) = CHR ''['' # f x @ (if xs = [] then '']'' else CHR '','' # tl (json_array f xs))"
  by (cases xs) (simp_all add: json_array_def)

lemma delimited_json_array:
  assumes f: "delimited f" and start: "\<And>a x y. f a @ x \<noteq> CHR '']'' # y"
  shows "delimited (json_array f)"
proof -
  have nil: "json_array f [] = ''[]''" by (simp add: json_array_def)
  have "as = bs \<and> x = y" if "tl (json_array f as) @ x = tl (json_array f bs) @ y" for as bs x y
    using that
  proof (induction as arbitrary: bs)
    case Nil
    show ?case
    proof (cases bs)
      case (Cons b bs')
      with Nil nil start [of b, THEN not_sym] show ?thesis by (simp add: json_array_Cons)
    qed (use Nil nil in simp)
  next
    case (Cons a as)
    show ?case
    proof (cases bs)
      case Nil
      with Cons.prems nil start [of a] show ?thesis by (simp add: json_array_Cons)
    next
      case bs: (Cons b bs')
      let ?t = "\<lambda>xs. if xs = [] then '']'' else CHR '','' # tl (json_array f xs)"
      from Cons.prems bs have "f a @ (?t as @ x) = f b @ (?t bs' @ y)" by (simp add: json_array_Cons)
      then have "a = b" and t: "?t as @ x = ?t bs' @ y" by (simp_all only: delimitedD [OF f])
      have "as = bs' \<and> x = y"
      proof (cases "as = [] \<or> bs' = []")
        case True
        with t show ?thesis by (auto split: if_splits)
      next
        case False
        with t Cons.IH [of bs'] show ?thesis by simp
      qed
      with \<open>a = b\<close> bs show ?thesis by simp
    qed
  qed
  moreover have "json_array f as = CHR ''['' # tl (json_array f as)" for as by (simp add: json_array_def)
  ultimately show ?thesis unfolding delimited_def by (metis append_Cons list.inject)
qed

end
