(* ===== verification/InvisibleText.thy ===== *)
theory InvisibleText
  imports JsBase
begin

text \<open>
  Text hygiene (\<open>src/invisible-text.ts\<close>): characters that render as nothing are dropped before two
  agent-written strings are compared or shown. The ranges are those of the source; a modelled character
  has a code below 256, so only the first three can match.
\<close>

definition INVISIBLE_RANGES :: "(nat \<times> nat) list" where
  "INVISIBLE_RANGES =
     [(0x0000, 0x001f), (0x007f, 0x009f), (0x00ad, 0x00ad), (0x061c, 0x061c), (0x180e, 0x180e),
      (0x200b, 0x200f), (0x2028, 0x202e), (0x2060, 0x206f), (0xfeff, 0xfeff)]"

definition stripInvisible :: "string \<Rightarrow> string" where
  "stripInvisible s = filter (\<lambda>ch. \<not> list_ex (\<lambda>(lo, hi). lo \<le> code ch \<and> code ch \<le> hi) INVISIBLE_RANGES) s"

lemma stripInvisible_idem [simp]: "stripInvisible (stripInvisible s) = stripInvisible s"
  by (simp add: stripInvisible_def)

end
