(* ===== verification/EmailEnvelope.thy ===== *)
theory EmailEnvelope
  imports JsonText SqlTable InvisibleText
begin

text \<open>
  The envelope of an outgoing mail as an approval binds it (\<open>src/web/email-envelope.ts\<close>): the check of the
  posted object, its canonical form, the text the hash is taken over and the summary the deciding person
  reads. Strings are Latin-1, so \<open>wellFormed\<close> (no unpaired surrogate) always holds and a code point is a
  character; SHA-256 is an argument.
\<close>

definition ENVELOPE_VERSION :: rat where "ENVELOPE_VERSION = 1"
definition MAX_PAYLOAD_BYTES :: nat where "MAX_PAYLOAD_BYTES = 256 * 1024"
definition MAX_ADDRESSES :: nat where "MAX_ADDRESSES = 100"
definition MAX_ATTACHMENTS :: nat where "MAX_ATTACHMENTS = 20"
definition MAX_SUBJECT_CHARS :: nat where "MAX_SUBJECT_CHARS = 998"
definition MAX_ADDRESS_CHARS :: nat where "MAX_ADDRESS_CHARS = 254"
definition MAX_NAME_CHARS :: nat where "MAX_NAME_CHARS = 255"
definition MAX_IN_REPLY_TO_CHARS :: nat where "MAX_IN_REPLY_TO_CHARS = 998"

definition ALLOWED_KEYS :: "string list" where
  "ALLOWED_KEYS = [''v'', ''agent'', ''to'', ''cc'', ''bcc'', ''subject'', ''body'', ''html_sha256'', ''attachments'',
     ''from'', ''reply_to'', ''in_reply_to'']"

definition ATTACHMENT_KEYS :: "string list" where
  "ATTACHMENT_KEYS = [''name'', ''size'', ''sha256'']"

record attachment =
  att_name :: string
  att_size :: nat
  att_sha :: string

record envelope =
  e_agent :: string
  e_to :: "string list"
  e_cc :: "string list"
  e_bcc :: "string list"
  e_subject :: string
  e_body :: string
  e_html :: "string option"
  e_attachments :: "attachment list option"
  e_from :: "string option"
  e_reply_to :: "string option"
  e_in_reply_to :: "string option"

section \<open>Addresses\<close>

definition is_alnum :: "char \<Rightarrow> bool" where
  "is_alnum c \<longleftrightarrow> is_digit c \<or> (65 \<le> code c \<and> code c \<le> 90) \<or> (97 \<le> code c \<and> code c \<le> 122)"

definition atext :: "char \<Rightarrow> bool" where
  "atext c \<longleftrightarrow> is_alnum c \<or> List.member ''!#$%&*+/=?^_`{|}~-'' c \<or> code c = 39"

text \<open>\<open>LOCAL_RE\<close>: dot-separated runs of atom characters.\<close>

definition LOCAL_RE :: "string \<Rightarrow> bool" where
  "LOCAL_RE s \<longleftrightarrow> list_all (\<lambda>p. p \<noteq> [] \<and> list_all atext p) (split_on (CHR ''.'') s)"

text \<open>\<open>DOMAIN_RE\<close>: dot-separated labels of letters, digits and inner hyphens.\<close>

definition domain_label :: "string \<Rightarrow> bool" where
  "domain_label p \<longleftrightarrow> p \<noteq> [] \<and> is_alnum (hd p) \<and> is_alnum (last p) \<and> list_all (\<lambda>c. is_alnum c \<or> c = CHR ''-'') p"

definition DOMAIN_RE :: "string \<Rightarrow> bool" where
  "DOMAIN_RE s \<longleftrightarrow> list_all domain_label (split_on (CHR ''.'') s)"

fun normalizeAddress :: "jsval \<Rightarrow> string option" where
  "normalizeAddress (JStr raw) =
     (if raw = [] \<or> length raw > MAX_ADDRESS_CHARS then None
      else case index_of (CHR ''@'') raw of
             None \<Rightarrow> None
           | Some pos \<Rightarrow>
               if pos = 0 \<or> List.member (drop (Suc pos) raw) (CHR ''@'') then None
               else (let local = take pos raw; domain = drop (Suc pos) raw
                     in if length local > 64 \<or> domain = [] \<or> length domain > 253 then None
                        else if \<not> LOCAL_RE local \<or> \<not> DOMAIN_RE domain then None
                        else Some (local @ ''@'' @ js_lower domain)))"
| "normalizeAddress _ = None"

text \<open>A refusal names the field; a value checked well is \<open>Inr\<close>.\<close>

fun collect_addresses :: "jsval list \<Rightarrow> string list option" where
  "collect_addresses [] = Some []"
| "collect_addresses (v # vs) =
     (case normalizeAddress v of None \<Rightarrow> None
      | Some a \<Rightarrow> map_option ((#) a) (collect_addresses vs))"

definition addressList :: "jsval \<Rightarrow> string \<Rightarrow> bool \<Rightarrow> string + string list" where
  "addressList raw field required =
     (if raw = JUndef \<and> \<not> required then Inr []
      else case raw of
        JArr vs \<Rightarrow>
          if length vs > MAX_ADDRESSES then Inl field
          else (case collect_addresses vs of
                  None \<Rightarrow> Inl field
                | Some as \<Rightarrow> if required \<and> as = [] then Inl field else Inr (sort (remdups as)))
      | _ \<Rightarrow> Inl field)"

definition plainString :: "jsval \<Rightarrow> string \<Rightarrow> nat \<Rightarrow> string + string" where
  "plainString raw field max_len =
     (case raw of JStr s \<Rightarrow> if length s > max_len then Inl field else Inr s | _ \<Rightarrow> Inl field)"

section \<open>The check\<close>

definition is_sha :: "jsval \<Rightarrow> bool" where
  "is_sha v = (case v of JStr h \<Rightarrow> length h = 64 \<and> list_all (\<lambda>c. is_digit c \<or> 97 \<le> code c \<and> code c \<le> 102) h | _ \<Rightarrow> False)"

definition str_of :: "jsval \<Rightarrow> string" where
  "str_of v = (case v of JStr s \<Rightarrow> s | _ \<Rightarrow> [])"

text \<open>\<open>Number.isSafeInteger(n) && n >= 0\<close>.\<close>

definition safe_size :: "jsval \<Rightarrow> nat option" where
  "safe_size v = (case finite_num v of
     Some x \<Rightarrow> if js_floor x = x \<and> 0 \<le> x \<and> x \<le> 9007199254740991 then Some (nat \<lfloor>x\<rfloor>) else None
   | None \<Rightarrow> None)"

definition control_char :: "char \<Rightarrow> bool" where
  "control_char c \<longleftrightarrow> code c < 32 \<or> code c = 127"

fun parse_attachment :: "jsval \<Rightarrow> attachment option" where
  "parse_attachment (JObj ps) =
     (if \<not> list_all (\<lambda>(k, _). List.member ATTACHMENT_KEYS k) ps then None
      else case plainString (js_prop (JObj ps) ''name'') ''attachments'' MAX_NAME_CHARS of
             Inl _ \<Rightarrow> None
           | Inr n \<Rightarrow>
               if n = [] \<or> list_ex control_char n then None
               else (case safe_size (js_prop (JObj ps) ''size'') of None \<Rightarrow> None
                     | Some sz \<Rightarrow> if \<not> is_sha (js_prop (JObj ps) ''sha256'') then None
                                 else Some \<lparr>att_name = n, att_size = sz, att_sha = str_of (js_prop (JObj ps) ''sha256'')\<rparr>))"
| "parse_attachment _ = None"

fun collect_attachments :: "jsval list \<Rightarrow> attachment list option" where
  "collect_attachments [] = Some []"
| "collect_attachments (v # vs) =
     (case parse_attachment v of None \<Rightarrow> None
      | Some a \<Rightarrow> map_option ((#) a) (collect_attachments vs))"

definition att_order :: "attachment \<Rightarrow> string \<times> string \<times> nat" where
  "att_order a = (att_name a, att_sha a, att_size a)"

definition attachment_list :: "jsval \<Rightarrow> string + attachment list option" where
  "attachment_list raw =
     (case raw of
        JUndef \<Rightarrow> Inr None
      | JArr vs \<Rightarrow>
          if length vs > MAX_ATTACHMENTS then Inl ''attachments''
          else (case collect_attachments vs of
                  None \<Rightarrow> Inl ''attachments''
                | Some as \<Rightarrow> Inr (if as = [] then None else Some (sort_key att_order as)))
      | _ \<Rightarrow> Inl ''attachments'')"

text \<open>An optional field: absent, or a checked string.\<close>

definition optional :: "(jsval \<Rightarrow> string option) \<Rightarrow> jsval \<Rightarrow> string \<Rightarrow> string + string option" where
  "optional f raw field = (if raw = JUndef then Inr None else case f raw of None \<Rightarrow> Inl field | Some s \<Rightarrow> Inr (Some s))"

definition sha_field :: "jsval \<Rightarrow> string option" where
  "sha_field v = (if is_sha v then Some (str_of v) else None)"

definition reply_field :: "jsval \<Rightarrow> string option" where
  "reply_field v = (case plainString v ''in_reply_to'' MAX_IN_REPLY_TO_CHARS of Inl _ \<Rightarrow> None
     | Inr s \<Rightarrow> if s = [] then None else Some s)"

datatype envelope_result = EnvelopeOk envelope | EnvelopeBad string

text \<open>The first failing check answers; \<open>check\<close> chains them.\<close>

definition check :: "string + 'a \<Rightarrow> ('a \<Rightarrow> envelope_result) \<Rightarrow> envelope_result" where
  "check r k = (case r of Inl f \<Rightarrow> EnvelopeBad f | Inr x \<Rightarrow> k x)"

definition optional_parts :: "jsval \<Rightarrow> envelope \<Rightarrow> envelope_result" where
  "optional_parts input e =
     check (optional sha_field (js_prop input ''html_sha256'') ''html_sha256'') (\<lambda>html.
     if e_body e = [] \<and> html = None then EnvelopeBad ''body'' else
     check (attachment_list (js_prop input ''attachments'')) (\<lambda>atts.
     check (optional normalizeAddress (js_prop input ''from'') ''from'') (\<lambda>from.
     check (optional normalizeAddress (js_prop input ''reply_to'') ''reply_to'') (\<lambda>reply.
     check (optional reply_field (js_prop input ''in_reply_to'') ''in_reply_to'') (\<lambda>irt.
     EnvelopeOk (e\<lparr>e_html := html, e_attachments := atts, e_from := from, e_reply_to := reply, e_in_reply_to := irt\<rparr>))))))"

fun parseEmailEnvelope :: "jsval \<Rightarrow> string \<Rightarrow> envelope_result" where
  "parseEmailEnvelope (JObj ps) agent =
     (case find (\<lambda>(k, _). \<not> List.member ALLOWED_KEYS k) ps of
        Some (k, _) \<Rightarrow> EnvelopeBad k
      | None \<Rightarrow>
          (let input = JObj ps in
           if js_prop input ''v'' \<noteq> JUndef \<and> js_prop input ''v'' \<noteq> JNum (Fin ENVELOPE_VERSION) then EnvelopeBad ''v''
           else if (case js_prop input ''agent'' of JUndef \<Rightarrow> False | JStr _ \<Rightarrow> False | _ \<Rightarrow> True)
             then EnvelopeBad ''agent''
           else
             check (addressList (js_prop input ''to'') ''to'' True) (\<lambda>to.
             check (addressList (js_prop input ''cc'') ''cc'' False) (\<lambda>cc.
             check (addressList (js_prop input ''bcc'') ''bcc'' False) (\<lambda>bcc.
             check (plainString (js_prop input ''subject'') ''subject'' MAX_SUBJECT_CHARS) (\<lambda>subject.
             case js_prop input ''body'' of
               JStr body \<Rightarrow> optional_parts input
                 \<lparr>e_agent = agent, e_to = to, e_cc = cc, e_bcc = bcc, e_subject = subject, e_body = body,
                  e_html = None, e_attachments = None, e_from = None, e_reply_to = None, e_in_reply_to = None\<rparr>
             | _ \<Rightarrow> EnvelopeBad ''body''))))))"
| "parseEmailEnvelope _ agent = EnvelopeBad ''action_payload''"

section \<open>The canonical text\<close>

definition json_attachment :: "attachment \<Rightarrow> string" where
  "json_attachment a = json_object [(''name'', json_string (att_name a)), (''sha256'', json_string (att_sha a)),
     (''size'', show_nat (att_size a))]"

definition opt_member :: "string \<Rightarrow> ('a \<Rightarrow> string) \<Rightarrow> 'a option \<Rightarrow> (string \<times> string) list" where
  "opt_member k f x = (case x of None \<Rightarrow> [] | Some v \<Rightarrow> [(k, f v)])"

definition canonicalJson :: "envelope \<Rightarrow> string" where
  "canonicalJson e = json_object
     ([(''agent'', json_string (e_agent e))]
      @ opt_member ''attachments'' (json_array json_attachment) (e_attachments e)
      @ [(''bcc'', json_array json_string (e_bcc e)), (''body'', json_string (e_body e)), (''cc'', json_array json_string (e_cc e))]
      @ opt_member ''from'' json_string (e_from e)
      @ opt_member ''html_sha256'' json_string (e_html e)
      @ opt_member ''in_reply_to'' json_string (e_in_reply_to e)
      @ opt_member ''reply_to'' json_string (e_reply_to e)
      @ [(''subject'', json_string (e_subject e)), (''to'', json_array json_string (e_to e)), (''v'', ''1'')])"

definition hashCanon :: "(string \<Rightarrow> string) \<Rightarrow> string \<Rightarrow> string" where
  "hashCanon sha canon = sha canon"

section \<open>What the deciding person reads\<close>

definition DESC_BODY_CHARS :: nat where "DESC_BODY_CHARS = 200"
definition DESC_SUBJECT_CHARS :: nat where "DESC_SUBJECT_CHARS = 120"
definition DESC_ADDRESSES_SHOWN :: nat where "DESC_ADDRESSES_SHOWN = 10"

text \<open>\<open>raw.replace(/[\s\u0085]+/g, ' ')\<close>: every run of white space (or NEL) becomes one space.\<close>

definition is_gap :: "char \<Rightarrow> bool" where
  "is_gap c \<longleftrightarrow> is_ws c \<or> code c = 133"

fun squeeze :: "bool \<Rightarrow> string \<Rightarrow> string" where
  "squeeze gap [] = []"
| "squeeze gap (c # cs) = (if is_gap c then (if gap then squeeze True cs else CHR '' '' # squeeze True cs) else c # squeeze False cs)"

definition trim_end :: "string \<Rightarrow> string" where
  "trim_end s = rev (dropWhile is_ws (rev s))"

definition excerpt :: "string \<Rightarrow> nat \<Rightarrow> string" where
  "excerpt raw max_len =
     (let flat = js_trim (stripInvisible (squeeze False raw))
      in if length flat > max_len then trim_end (take max_len flat) @ ''...'' else flat)"

definition addressesLine :: "string \<Rightarrow> string list \<Rightarrow> string list" where
  "addressesLine label xs =
     (if xs = [] then []
      else [label @ '': '' @ join_with '', '' (take DESC_ADDRESSES_SHOWN xs) @
            (if length xs > DESC_ADDRESSES_SHOWN then '' (+'' @ show_nat (length xs - DESC_ADDRESSES_SHOWN) @ '' more)'' else [])])"

definition quoted :: "string \<Rightarrow> string" where
  "quoted s = CHR 0x22 # s @ [CHR 0x22]"

definition describeEmail :: "envelope \<Rightarrow> string \<Rightarrow> string" where
  "describeEmail e hash = join_with '' | ''
     ([''Email from '' @ excerpt (e_agent e) 64]
      @ addressesLine ''to'' (e_to e) @ addressesLine ''cc'' (e_cc e) @ addressesLine ''bcc'' (e_bcc e)
      @ [''subject: '' @ quoted (excerpt (e_subject e) DESC_SUBJECT_CHARS),
         ''body ('' @ show_nat (length (e_body e)) @ '' chars): '' @ quoted (excerpt (e_body e) DESC_BODY_CHARS)]
      @ (case e_html e of Some h \<Rightarrow> if h = [] then [] else [''html part sha256 '' @ take 12 h] | None \<Rightarrow> [])
      @ (case e_attachments e of None \<Rightarrow> []
         | Some as \<Rightarrow> [''attachments: '' @ join_with ''; ''
             (map (\<lambda>a. excerpt (att_name a) 60 @ '' ('' @ show_nat (att_size a) @ '' bytes, sha256 '' @ take 12 (att_sha a) @ '')'') as)])
      @ (case e_from e of Some x \<Rightarrow> if x = [] then [] else [''from: '' @ x] | None \<Rightarrow> [])
      @ (case e_reply_to e of Some x \<Rightarrow> if x = [] then [] else [''reply-to: '' @ x] | None \<Rightarrow> [])
      @ (case e_in_reply_to e of Some x \<Rightarrow> if x = [] then [] else [''in-reply-to: '' @ quoted (excerpt x 80)] | None \<Rightarrow> [])
      @ [''hash '' @ take 12 hash])"

section \<open>Lemmas\<close>

lemma json_keys:
  "json_string ''name'' = CHR 0x22 # ''name'' @ [CHR 0x22]"
  "json_string ''sha256'' = CHR 0x22 # ''sha256'' @ [CHR 0x22]"
  "json_string ''size'' = CHR 0x22 # ''size'' @ [CHR 0x22]"
  "json_string ''agent'' = CHR 0x22 # ''agent'' @ [CHR 0x22]"
  "json_string ''attachments'' = CHR 0x22 # ''attachments'' @ [CHR 0x22]"
  "json_string ''bcc'' = CHR 0x22 # ''bcc'' @ [CHR 0x22]"
  "json_string ''body'' = CHR 0x22 # ''body'' @ [CHR 0x22]"
  "json_string ''cc'' = CHR 0x22 # ''cc'' @ [CHR 0x22]"
  "json_string ''from'' = CHR 0x22 # ''from'' @ [CHR 0x22]"
  "json_string ''html_sha256'' = CHR 0x22 # ''html_sha256'' @ [CHR 0x22]"
  "json_string ''in_reply_to'' = CHR 0x22 # ''in_reply_to'' @ [CHR 0x22]"
  "json_string ''reply_to'' = CHR 0x22 # ''reply_to'' @ [CHR 0x22]"
  "json_string ''subject'' = CHR 0x22 # ''subject'' @ [CHR 0x22]"
  "json_string ''to'' = CHR 0x22 # ''to'' @ [CHR 0x22]"
  "json_string ''v'' = CHR 0x22 # ''v'' @ [CHR 0x22]"
  by code_simp+

lemma show_nat_brace: "show_nat a @ CHR ''}'' # x = show_nat b @ CHR ''}'' # y \<longleftrightarrow> a = b \<and> x = y"
proof -
  have b: "\<not> is_digit (CHR ''}'')" by code_simp
  have d: "takeWhile is_digit (show_nat n @ CHR ''}'' # z) = show_nat n" for n z
    using show_nat_digits b by (subst takeWhile_append2) auto
  show ?thesis by (metis d show_nat_inject same_append_eq list.inject)
qed

lemma delimited_json_attachment: "delimited json_attachment"
proof -
  have "json_attachment a @ x = json_attachment b @ y \<longleftrightarrow> a = b \<and> x = y" for a b x y
    by (auto simp: json_attachment_def json_object_def json_member_def json_keys delimitedD [OF delimited_json_string]
        show_nat_brace intro: attachment.equality)
  then show ?thesis by (simp add: delimited_def)
qed

lemma delimited_strings: "delimited (json_array json_string)"
  by (rule delimited_json_array [OF delimited_json_string]) (simp add: json_string_def)

lemma delimited_attachments: "delimited (json_array json_attachment)"
  by (rule delimited_json_array [OF delimited_json_attachment]) (simp add: json_attachment_def json_object_def)

text \<open>An optional member, and a rest that does not begin with it.\<close>

definition opt_text :: "string \<Rightarrow> ('a \<Rightarrow> string) \<Rightarrow> 'a option \<Rightarrow> string" where
  "opt_text k f x = (case x of None \<Rightarrow> [] | Some v \<Rightarrow> CHR '','' # json_member k (f v))"

definition other_key :: "string \<Rightarrow> string \<Rightarrow> bool" where
  "other_key k s \<longleftrightarrow> \<not> starts_with s (CHR '','' # json_string k)"

lemma opt_text_delimited:
  assumes "delimited f" "other_key k x" "other_key k y"
  shows "opt_text k f a @ x = opt_text k f b @ y \<longleftrightarrow> a = b \<and> x = y"
proof -
  have *: "\<not> other_key k (CHR '','' # json_member k v @ z)" for v z
    by (simp add: other_key_def json_member_def)
  show ?thesis
    using assms * by (cases a; cases b) (auto simp: opt_text_def json_member_def delimitedD [OF assms(1)])
qed

lemma join_with_Cons: "join_with '','' (x # xs) = x @ concat (map ((#) (CHR '','')) xs)"
  by (induction xs arbitrary: x) auto

lemma concat_opt_member:
  "concat (map ((#) (CHR '','')) (map (\<lambda>(k, v). json_member k v) (opt_member k f x))) = opt_text k f x"
  by (simp add: opt_member_def opt_text_def split: option.splits)

text \<open>The rest of the canonical text from each optional member on.\<close>

definition tail_subject :: "envelope \<Rightarrow> string" where
  "tail_subject e = CHR '','' # json_member ''subject'' (json_string (e_subject e)) @ CHR '','' # json_member ''to'' (json_array json_string (e_to e))
     @ CHR '','' # json_member ''v'' ''1'' @ ''}''"

definition tail_bcc :: "envelope \<Rightarrow> string \<Rightarrow> string" where
  "tail_bcc e rest = CHR '','' # json_member ''bcc'' (json_array json_string (e_bcc e)) @ CHR '','' # json_member ''body'' (json_string (e_body e))
     @ CHR '','' # json_member ''cc'' (json_array json_string (e_cc e)) @ rest"

lemma canonicalJson_parts:
  "canonicalJson e = CHR ''{'' # json_member ''agent'' (json_string (e_agent e))
     @ opt_text ''attachments'' (json_array json_attachment) (e_attachments e)
     @ tail_bcc e (opt_text ''from'' json_string (e_from e) @ opt_text ''html_sha256'' json_string (e_html e)
         @ opt_text ''in_reply_to'' json_string (e_in_reply_to e) @ opt_text ''reply_to'' json_string (e_reply_to e) @ tail_subject e)"
  by (simp add: canonicalJson_def json_object_def join_with_Cons concat_opt_member tail_bcc_def tail_subject_def
      del: map_map)

lemma other_keys:
  "other_key ''attachments'' (tail_bcc e z)"
  "other_key ''from'' (tail_subject e)" "other_key ''html_sha256'' (tail_subject e)"
  "other_key ''in_reply_to'' (tail_subject e)" "other_key ''reply_to'' (tail_subject e)"
  "other_key ''in_reply_to'' z \<Longrightarrow> other_key ''in_reply_to'' (opt_text ''reply_to'' f a @ z)"
  "other_key ''html_sha256'' z \<Longrightarrow> other_key ''html_sha256'' (opt_text ''reply_to'' f a @ z)"
  "other_key ''html_sha256'' z \<Longrightarrow> other_key ''html_sha256'' (opt_text ''in_reply_to'' f a @ z)"
  "other_key ''from'' z \<Longrightarrow> other_key ''from'' (opt_text ''reply_to'' f a @ z)"
  "other_key ''from'' z \<Longrightarrow> other_key ''from'' (opt_text ''in_reply_to'' f a @ z)"
  "other_key ''from'' z \<Longrightarrow> other_key ''from'' (opt_text ''html_sha256'' f a @ z)"
  by (simp_all add: other_key_def tail_bcc_def tail_subject_def json_member_def json_keys opt_text_def split: option.splits)

lemma tail_subject_inject: "tail_subject a = tail_subject b \<longleftrightarrow> e_subject a = e_subject b \<and> e_to a = e_to b"
  using delimitedD [OF delimited_strings, of _ "[]" _ "[]"]
  by (simp add: tail_subject_def json_member_def delimitedD [OF delimited_json_string] delimitedD [OF delimited_strings])

lemma tail_bcc_inject: "tail_bcc a x = tail_bcc b y \<longleftrightarrow> e_bcc a = e_bcc b \<and> e_body a = e_body b \<and> e_cc a = e_cc b \<and> x = y"
  by (simp add: tail_bcc_def json_member_def delimitedD [OF delimited_json_string] delimitedD [OF delimited_strings])

lemma canonicalJson_inject: "canonicalJson a = canonicalJson b \<longleftrightarrow> a = b"
proof
  assume eq: "canonicalJson a = canonicalJson b"
  have agent: "json_member ''agent'' (json_string v) @ x = json_member ''agent'' (json_string w) @ y \<longleftrightarrow> v = w \<and> x = y" for v w x y
    by (simp add: json_member_def delimitedD [OF delimited_json_string])
  from eq have "e_agent a = e_agent b \<and> e_attachments a = e_attachments b \<and> e_bcc a = e_bcc b \<and> e_body a = e_body b
      \<and> e_cc a = e_cc b \<and> e_from a = e_from b \<and> e_html a = e_html b \<and> e_in_reply_to a = e_in_reply_to b
      \<and> e_reply_to a = e_reply_to b \<and> tail_subject a = tail_subject b"
    unfolding canonicalJson_parts
    by (simp only: list.inject agent tail_bcc_inject other_keys opt_text_delimited delimited_json_string delimited_attachments simp_thms)
  then show "a = b" by (auto simp: tail_subject_inject intro: envelope.equality)
qed simp

section \<open>The canonical form is stable\<close>

text \<open>The value the canonical text decodes to.\<close>

definition attachment_value :: "attachment \<Rightarrow> jsval" where
  "attachment_value a = JObj [(''name'', JStr (att_name a)), (''sha256'', JStr (att_sha a)), (''size'', JNum (Fin (of_nat (att_size a))))]"

definition opt_value :: "string \<Rightarrow> ('a \<Rightarrow> jsval) \<Rightarrow> 'a option \<Rightarrow> (string \<times> jsval) list" where
  "opt_value k f x = (case x of None \<Rightarrow> [] | Some v \<Rightarrow> [(k, f v)])"

definition envelope_value :: "envelope \<Rightarrow> jsval" where
  "envelope_value e = JObj
     ([(''agent'', JStr (e_agent e))]
      @ opt_value ''attachments'' (\<lambda>as. JArr (map attachment_value as)) (e_attachments e)
      @ [(''bcc'', JArr (map JStr (e_bcc e))), (''body'', JStr (e_body e)), (''cc'', JArr (map JStr (e_cc e)))]
      @ opt_value ''from'' JStr (e_from e) @ opt_value ''html_sha256'' JStr (e_html e)
      @ opt_value ''in_reply_to'' JStr (e_in_reply_to e) @ opt_value ''reply_to'' JStr (e_reply_to e)
      @ [(''subject'', JStr (e_subject e)), (''to'', JArr (map JStr (e_to e))), (''v'', JNum (Fin 1))])"

lemma map_of_opt_value:
  "map_of (opt_value k f x) j = (if j = k then map_option f x else None)"
  by (cases x) (simp_all add: opt_value_def)

lemma envelope_value_props:
  "js_prop (envelope_value e) ''agent'' = JStr (e_agent e)"
  "js_prop (envelope_value e) ''attachments'' = (case e_attachments e of None \<Rightarrow> JUndef | Some as \<Rightarrow> JArr (map attachment_value as))"
  "js_prop (envelope_value e) ''bcc'' = JArr (map JStr (e_bcc e))"
  "js_prop (envelope_value e) ''body'' = JStr (e_body e)"
  "js_prop (envelope_value e) ''cc'' = JArr (map JStr (e_cc e))"
  "js_prop (envelope_value e) ''from'' = (case e_from e of None \<Rightarrow> JUndef | Some x \<Rightarrow> JStr x)"
  "js_prop (envelope_value e) ''html_sha256'' = (case e_html e of None \<Rightarrow> JUndef | Some x \<Rightarrow> JStr x)"
  "js_prop (envelope_value e) ''in_reply_to'' = (case e_in_reply_to e of None \<Rightarrow> JUndef | Some x \<Rightarrow> JStr x)"
  "js_prop (envelope_value e) ''reply_to'' = (case e_reply_to e of None \<Rightarrow> JUndef | Some x \<Rightarrow> JStr x)"
  "js_prop (envelope_value e) ''subject'' = JStr (e_subject e)"
  "js_prop (envelope_value e) ''to'' = JArr (map JStr (e_to e))"
  "js_prop (envelope_value e) ''v'' = JNum (Fin 1)"
  by (simp_all add: envelope_value_def map_of_opt_value map_add_def split: option.split)

lemma lower_char_at [simp]: "lower_char c = CHR ''@'' \<longleftrightarrow> c = CHR ''@''" "lower_char c = CHR ''.'' \<longleftrightarrow> c = CHR ''.''"
proof -
  have "code (CHR ''@'') = 64" "code (CHR ''.'') = 46" by (simp_all add: code_def)
  moreover have "code (lower_char c) = (if (65 \<le> code c \<and> code c \<le> 90) \<or> (192 \<le> code c \<and> code c \<le> 222 \<and> code c \<noteq> 215) then code c + 32 else code c)"
    by (simp add: lower_char_def)
  ultimately show "lower_char c = CHR ''@'' \<longleftrightarrow> c = CHR ''@''" "lower_char c = CHR ''.'' \<longleftrightarrow> c = CHR ''.''"
    by (auto simp: code_inject [symmetric] split: if_splits)
qed

text \<open>
  C18: The canonical text determines the mail: two envelopes with the same text agree in the agent, every
  recipient, subject, body, attachments and reply fields, so a hash without collisions binds an approval to one mail.
\<close>

theorem canonical_text_binds: "canonicalJson a = canonicalJson b \<longleftrightarrow> a = b"
  by (rule canonicalJson_inject)

lemma lower_char_idem [simp]: "lower_char (lower_char c) = lower_char c"
  by (auto simp: lower_char_def)

lemma js_lower_idem [simp]: "js_lower (js_lower s) = js_lower s"
  by (simp add: js_lower_def)

lemma at_lower: "CHR ''@'' \<in> set (js_lower s) \<longleftrightarrow> CHR ''@'' \<in> set s"
  unfolding js_lower_def set_map by (metis image_iff lower_char_at(1))

lemma split_on_lower: "split_on (CHR ''.'') (js_lower s) = map js_lower (split_on (CHR ''.'') s)"
  by (induction s) (auto simp: js_lower_def split: list.splits)

lemma alnum_lower: "is_alnum c \<Longrightarrow> is_alnum (lower_char c)"
  by (auto simp: is_alnum_def lower_char_def is_digit_def)

lemma lower_hyphen: "lower_char (CHR ''-'') = CHR ''-''"
  by (simp add: lower_char_def code_def)

lemma domain_label_lower: "domain_label p \<Longrightarrow> domain_label (js_lower p)"
  using alnum_lower lower_hyphen
  by (fastforce simp: domain_label_def js_lower_def list_all_iff hd_map last_map)

lemma DOMAIN_RE_lower: "DOMAIN_RE d \<Longrightarrow> DOMAIN_RE (js_lower d)"
  by (auto simp: DOMAIN_RE_def split_on_lower list_all_iff intro: domain_label_lower)

lemma index_of_append: "c \<notin> set s \<Longrightarrow> index_of c (s @ c # t) = Some (length s)"
  by (induction s) auto

lemma normalizeAddress_stable:
  assumes "normalizeAddress v = Some a"
  shows "normalizeAddress (JStr a) = Some a"
proof -
  from assms obtain raw pos where v: "v = JStr raw" "raw \<noteq> []" "length raw \<le> MAX_ADDRESS_CHARS" "index_of (CHR ''@'') raw = Some pos"
    "pos \<noteq> 0" "CHR ''@'' \<notin> set (drop (Suc pos) raw)" "length (take pos raw) \<le> 64" "drop (Suc pos) raw \<noteq> []"
    "length (drop (Suc pos) raw) \<le> 253" "LOCAL_RE (take pos raw)" "DOMAIN_RE (drop (Suc pos) raw)"
    and a: "a = take pos raw @ ''@'' @ js_lower (drop (Suc pos) raw)"
    by (cases v) (auto simp: Let_def not_less split: if_splits option.splits)
  define l d where "l = take pos raw" and "d = js_lower (drop (Suc pos) raw)"
  from index_of_Some [OF v(4)] have p: "pos < length raw" "CHR ''@'' \<notin> set l" by (auto simp: l_def)
  then have l: "length l = pos" "l \<noteq> []" using v(5) by (auto simp: l_def)
  have d: "d \<noteq> []" "length d \<le> 253" "CHR ''@'' \<notin> set d" "js_lower d = d" "DOMAIN_RE d"
    using v DOMAIN_RE_lower by (auto simp: d_def at_lower) (auto simp: js_lower_def)
  have len: "length (l @ CHR ''@'' # d) = length raw" using p(1) by (simp add: l_def d_def js_lower_def)
  have idx: "index_of (CHR ''@'') (l @ CHR ''@'' # d) = Some pos" using index_of_append [OF p(2)] l by simp
  show ?thesis
    using v(3,5,7,10) d idx l len by (simp add: a l_def [symmetric] d_def [symmetric] Let_def)
qed

lemma collect_addresses_stable:
  assumes "\<And>a. a \<in> set as \<Longrightarrow> normalizeAddress (JStr a) = Some a"
  shows "collect_addresses (map JStr as) = Some as"
  using assms by (induction as) (auto simp del: normalizeAddress.simps)

lemma collect_addresses_mem: "collect_addresses vs = Some as \<Longrightarrow> a \<in> set as \<Longrightarrow> normalizeAddress (JStr a) = Some a"
  by (induction vs arbitrary: as) (auto simp del: normalizeAddress.simps split: option.splits dest: normalizeAddress_stable)

lemma collect_addresses_length: "collect_addresses vs = Some as \<Longrightarrow> length as = length vs"
  by (induction vs arbitrary: as) (auto split: option.splits)

lemma addressList_stable:
  assumes "addressList raw field req = Inr as"
  shows "addressList (JArr (map JStr as)) field req = Inr as"
proof (cases "raw = JUndef \<and> \<not> req")
  case True
  with assms show ?thesis by (simp add: addressList_def)
next
  case False
  with assms obtain vs bs where raw: "raw = JArr vs" "length vs \<le> MAX_ADDRESSES" "collect_addresses vs = Some bs"
    and as: "as = sort (remdups bs)" and ne: "req \<longrightarrow> bs \<noteq> []"
    by (auto simp: addressList_def not_less split: jsval.splits if_splits option.splits)
  have "length as \<le> MAX_ADDRESSES"
    using raw(2) collect_addresses_length [OF raw(3)] length_remdups_leq [of bs] by (simp add: as)
  moreover have "collect_addresses (map JStr as) = Some as"
    by (rule collect_addresses_stable) (use collect_addresses_mem [OF raw(3)] as in auto)
  moreover have "sort (remdups as) = as" by (simp add: as sorted_sort_id)
  moreover have "req \<longrightarrow> as \<noteq> []" using ne as by (metis remdups_eq_nil_iff set_empty set_sort)
  ultimately show ?thesis by (simp add: addressList_def)
qed

lemma safe_size_stable: "safe_size v = Some n \<Longrightarrow> safe_size (JNum (Fin (of_nat n))) = Some n"
proof -
  assume "safe_size v = Some n"
  then obtain x where x: "js_floor x = x" "0 \<le> x" "x \<le> 9007199254740991" "n = nat \<lfloor>x\<rfloor>"
    by (auto simp: safe_size_def split: option.splits if_splits)
  then have "of_nat n = x" by (simp add: js_floor_def)
  with x show ?thesis by (simp add: safe_size_def)
qed

lemma parse_attachment_stable: "parse_attachment v = Some a \<Longrightarrow> parse_attachment (attachment_value a) = Some a"
proof -
  assume "parse_attachment v = Some a"
  then obtain ps where *: "v = JObj ps" "plainString (js_prop v ''name'') ''attachments'' MAX_NAME_CHARS = Inr (att_name a)"
    "att_name a \<noteq> []" "\<not> list_ex control_char (att_name a)" "safe_size (js_prop v ''size'') = Some (att_size a)"
    "is_sha (js_prop v ''sha256'')" "att_sha a = str_of (js_prop v ''sha256'')"
    by (cases v) (auto split: if_splits sum.splits option.splits)
  from *(2) have "length (att_name a) \<le> MAX_NAME_CHARS"
    by (auto simp: plainString_def not_less split: jsval.splits if_splits)
  moreover from *(6,7) have "is_sha (JStr (att_sha a))" by (auto simp: is_sha_def str_of_def split: jsval.splits)
  ultimately show ?thesis using *(3,4) safe_size_stable [OF *(5)]
    by (simp add: attachment_value_def plainString_def ATTACHMENT_KEYS_def str_of_def)
qed

lemma collect_attachments_stable:
  assumes "\<And>a. a \<in> set as \<Longrightarrow> parse_attachment (attachment_value a) = Some a"
  shows "collect_attachments (map attachment_value as) = Some as"
  using assms by (induction as) auto

lemma collect_attachments_mem:
  "collect_attachments vs = Some as \<Longrightarrow> a \<in> set as \<Longrightarrow> parse_attachment (attachment_value a) = Some a"
  by (induction vs arbitrary: as) (auto split: option.splits dest: parse_attachment_stable)

lemma collect_attachments_length: "collect_attachments vs = Some as \<Longrightarrow> length as = length vs"
  by (induction vs arbitrary: as) (auto split: option.splits)

lemma attachment_list_stable:
  assumes "attachment_list raw = Inr x"
  shows "attachment_list (case x of None \<Rightarrow> JUndef | Some as \<Rightarrow> JArr (map attachment_value as)) = Inr x"
proof (cases x)
  case None
  then show ?thesis by (simp add: attachment_list_def)
next
  case (Some as)
  with assms obtain vs bs where raw: "length vs \<le> MAX_ATTACHMENTS" "collect_attachments vs = Some bs" "bs \<noteq> []"
    and as: "as = sort_key att_order bs"
    by (auto simp: attachment_list_def not_less split: jsval.splits if_splits option.splits)
  have "length as \<le> MAX_ATTACHMENTS" using raw(1) collect_attachments_length [OF raw(2)] by (simp add: as)
  moreover have "collect_attachments (map attachment_value as) = Some as"
    by (rule collect_attachments_stable) (use collect_attachments_mem [OF raw(2)] as in auto)
  moreover have "sort_key att_order as = as" by (simp add: as sort_key_id_if_sorted)
  moreover have "as \<noteq> []" using raw(3) as by (metis length_0_conv length_sort)
  ultimately show ?thesis using Some by (simp add: attachment_list_def)
qed

lemma optional_stable:
  assumes "optional f raw k = Inr x" "\<And>v s. f v = Some s \<Longrightarrow> f (JStr s) = Some s"
  shows "optional f (case x of None \<Rightarrow> JUndef | Some s \<Rightarrow> JStr s) k = Inr x"
  using assms by (auto simp: optional_def split: option.splits if_splits)

lemma sha_field_stable: "sha_field v = Some s \<Longrightarrow> sha_field (JStr s) = Some s"
  by (auto simp: sha_field_def is_sha_def str_of_def split: jsval.splits if_splits)

lemma reply_field_stable: "reply_field v = Some s \<Longrightarrow> reply_field (JStr s) = Some s"
  by (auto simp: reply_field_def plainString_def split: jsval.splits if_splits)

lemma check_Ok: "check r k = EnvelopeOk e \<longleftrightarrow> (\<exists>x. r = Inr x \<and> k x = EnvelopeOk e)"
  by (cases r) (simp_all add: check_def)

lemma optional_parts_Ok:
  "optional_parts input b = EnvelopeOk e \<longleftrightarrow>
     (\<exists>html atts from reply irt. optional sha_field (js_prop input ''html_sha256'') ''html_sha256'' = Inr html
        \<and> \<not> (e_body b = [] \<and> html = None) \<and> attachment_list (js_prop input ''attachments'') = Inr atts
        \<and> optional normalizeAddress (js_prop input ''from'') ''from'' = Inr from
        \<and> optional normalizeAddress (js_prop input ''reply_to'') ''reply_to'' = Inr reply
        \<and> optional reply_field (js_prop input ''in_reply_to'') ''in_reply_to'' = Inr irt
        \<and> e = b\<lparr>e_html := html, e_attachments := atts, e_from := from, e_reply_to := reply, e_in_reply_to := irt\<rparr>)"
  by (auto simp: optional_parts_def check_Ok)

lemma body_Ok: "(case v of JStr b \<Rightarrow> k b | _ \<Rightarrow> EnvelopeBad f) = EnvelopeOk e \<longleftrightarrow> (\<exists>b. v = JStr b \<and> k b = EnvelopeOk e)"
  by (cases v) simp_all

lemma agent_Ok: "\<not> (case v of JUndef \<Rightarrow> False | JStr _ \<Rightarrow> False | _ \<Rightarrow> True) \<longleftrightarrow> v = JUndef \<or> (\<exists>s. v = JStr s)"
  by (cases v) simp_all

lemma parseEmailEnvelope_Ok:
  "parseEmailEnvelope (JObj ps) agent = EnvelopeOk e \<longleftrightarrow>
     (\<forall>(k, _)\<in>set ps. k \<in> set ALLOWED_KEYS)
     \<and> js_prop (JObj ps) ''v'' \<in> {JUndef, JNum (Fin 1)}
     \<and> (js_prop (JObj ps) ''agent'' = JUndef \<or> (\<exists>s. js_prop (JObj ps) ''agent'' = JStr s))
     \<and> (\<exists>to cc bcc subject body. addressList (js_prop (JObj ps) ''to'') ''to'' True = Inr to
          \<and> addressList (js_prop (JObj ps) ''cc'') ''cc'' False = Inr cc \<and> addressList (js_prop (JObj ps) ''bcc'') ''bcc'' False = Inr bcc
          \<and> plainString (js_prop (JObj ps) ''subject'') ''subject'' MAX_SUBJECT_CHARS = Inr subject
          \<and> js_prop (JObj ps) ''body'' = JStr body
          \<and> optional_parts (JObj ps)
                 \<lparr>e_agent = agent, e_to = to, e_cc = cc, e_bcc = bcc, e_subject = subject, e_body = body,
                  e_html = None, e_attachments = None, e_from = None, e_reply_to = None, e_in_reply_to = None\<rparr> = EnvelopeOk e)"
proof (cases "find (\<lambda>(k, _). \<not> List.member ALLOWED_KEYS k) ps")
  case None
  then have "\<forall>(k, _)\<in>set ps. k \<in> set ALLOWED_KEYS" by (auto simp: find_None_iff)
  with None show ?thesis
    by (auto simp: check_Ok body_Ok agent_Ok [symmetric] Let_def ENVELOPE_VERSION_def simp del: js_prop.simps)
next
  case (Some kv)
  with find_SomeD [OF Some] show ?thesis by auto
qed

text \<open>
  Canonicalisation is stable: the value the canonical text decodes to passes the check again, for the same
  agent, with the same envelope, so the hash the server computes twice is one hash.
\<close>

theorem canonical_form_stable:
  assumes "parseEmailEnvelope raw agent = EnvelopeOk e"
  shows "parseEmailEnvelope (envelope_value e) agent = EnvelopeOk e"
proof -
  from assms obtain ps where raw: "raw = JObj ps" by (cases raw) auto
  from assms [unfolded raw parseEmailEnvelope_Ok] obtain to cc bcc subject body html atts fr reply irt where
    l: "addressList (js_prop (JObj ps) ''to'') ''to'' True = Inr to" "addressList (js_prop (JObj ps) ''cc'') ''cc'' False = Inr cc"
      "addressList (js_prop (JObj ps) ''bcc'') ''bcc'' False = Inr bcc"
    and s: "plainString (js_prop (JObj ps) ''subject'') ''subject'' MAX_SUBJECT_CHARS = Inr subject"
    and o: "optional sha_field (js_prop (JObj ps) ''html_sha256'') ''html_sha256'' = Inr html" "\<not> (body = [] \<and> html = None)"
      "attachment_list (js_prop (JObj ps) ''attachments'') = Inr atts"
      "optional normalizeAddress (js_prop (JObj ps) ''from'') ''from'' = Inr fr"
      "optional normalizeAddress (js_prop (JObj ps) ''reply_to'') ''reply_to'' = Inr reply"
      "optional reply_field (js_prop (JObj ps) ''in_reply_to'') ''in_reply_to'' = Inr irt"
    and e: "e = \<lparr>e_agent = agent, e_to = to, e_cc = cc, e_bcc = bcc, e_subject = subject, e_body = body, e_html = html,
       e_attachments = atts, e_from = fr, e_reply_to = reply, e_in_reply_to = irt\<rparr>"
    unfolding optional_parts_Ok by (elim conjE exE) (rule that; simp del: js_prop.simps)
  from s have "plainString (JStr subject) ''subject'' MAX_SUBJECT_CHARS = Inr subject"
    by (auto simp: plainString_def split: jsval.splits if_splits)
  moreover have opts: "optional sha_field (case html of None \<Rightarrow> JUndef | Some s \<Rightarrow> JStr s) ''html_sha256'' = Inr html"
    "optional normalizeAddress (case fr of None \<Rightarrow> JUndef | Some s \<Rightarrow> JStr s) ''from'' = Inr fr"
    "optional normalizeAddress (case reply of None \<Rightarrow> JUndef | Some s \<Rightarrow> JStr s) ''reply_to'' = Inr reply"
    "optional reply_field (case irt of None \<Rightarrow> JUndef | Some s \<Rightarrow> JStr s) ''in_reply_to'' = Inr irt"
    by (rule optional_stable [OF o(1)] optional_stable [OF o(4)] optional_stable [OF o(5)] optional_stable [OF o(6)],
        erule sha_field_stable normalizeAddress_stable reply_field_stable)+
  moreover obtain qs where v: "envelope_value e = JObj qs" by (simp add: envelope_value_def)
  moreover have "\<forall>(k, _)\<in>set qs. k \<in> set ALLOWED_KEYS"
    using v by (auto simp: envelope_value_def opt_value_def ALLOWED_KEYS_def split: option.splits)
  ultimately show ?thesis
    using addressList_stable [OF l(1)] addressList_stable [OF l(2)] addressList_stable [OF l(3)] o(2)
      opts attachment_list_stable [OF o(3)] envelope_value_props [of e]
    by (simp add: v parseEmailEnvelope_Ok optional_parts_Ok e del: js_prop.simps parseEmailEnvelope.simps)
qed

theorem canonical_form_stable_witness:
  "\<exists>e. parseEmailEnvelope (JObj [(''to'', JArr [JStr ''Bob@Example.COM'', JStr ''ann@x.org'']), (''subject'', JStr ''hi''),
      (''body'', JStr ''text'')]) ''main'' = EnvelopeOk e \<and> parseEmailEnvelope (envelope_value e) ''main'' = EnvelopeOk e
      \<and> e_to e = [''Bob@example.com'', ''ann@x.org'']"
proof -
  let ?raw = "JObj [(''to'', JArr [JStr ''Bob@Example.COM'', JStr ''ann@x.org'']), (''subject'', JStr ''hi''), (''body'', JStr ''text'')]"
  have *: "parseEmailEnvelope ?raw ''main'' = EnvelopeOk \<lparr>e_agent = ''main'', e_to = [''Bob@example.com'', ''ann@x.org''],
     e_cc = [], e_bcc = [], e_subject = ''hi'', e_body = ''text'', e_html = None, e_attachments = None, e_from = None,
     e_reply_to = None, e_in_reply_to = None\<rparr>"
    by code_simp
  from canonical_form_stable [OF *] * show ?thesis by simp
qed

end
