(* ===== verification/ApprovalRules.thy ===== *)
theory ApprovalRules
  imports ApprovalStore RequestGate EmailEnvelope
begin

text \<open>
  The rules the approval routes apply: how long a request stays open (\<open>web/approval-timeout.ts\<close>), the use
  window (\<open>config.ts\<close>), which categories a person must decide and how their names are compared
  (\<open>web/approval-human-only.ts\<close>), and whom a token may act as
  (\<open>web/fleet-agent-identity.ts\<close>). Unicode normalisation (NFKC) is an argument: on Latin-1 text it may
  leave that range.
\<close>

section \<open>Deadlines and windows\<close>

definition DEFAULT_APPROVAL_TIMEOUT_MINUTES :: rat where "DEFAULT_APPROVAL_TIMEOUT_MINUTES = 1440"
definition MAX_CATEGORY_TIMEOUT_MINUTES :: rat where "MAX_CATEGORY_TIMEOUT_MINUTES = 10080"

definition resolveApprovalTimeoutSeconds :: "jsval \<Rightarrow> jsval \<Rightarrow> int" where
  "resolveApprovalTimeoutSeconds categoryMinutes requestedSeconds =
     (let ceilingMinutes = (case finite_num categoryMinutes of
                              Some x \<Rightarrow> if x > 0 then x else DEFAULT_APPROVAL_TIMEOUT_MINUTES
                            | None \<Rightarrow> DEFAULT_APPROVAL_TIMEOUT_MINUTES);
          ceiling = \<lfloor>ceilingMinutes * 60\<rfloor>
      in case finite_num requestedSeconds of
           Some s \<Rightarrow> if s \<ge> 1 then min \<lfloor>s\<rfloor> ceiling else ceiling
         | None \<Rightarrow> ceiling)"

definition CONSUME_WINDOW_DEFAULT_S :: int where "CONSUME_WINDOW_DEFAULT_S = 1800"
definition CONSUME_WINDOW_MIN_S :: int where "CONSUME_WINDOW_MIN_S = 60"
definition CONSUME_WINDOW_MAX_S :: int where "CONSUME_WINDOW_MAX_S = 86400"

definition parseConsumeWindowSeconds :: "string option \<Rightarrow> int" where
  "parseConsumeWindowSeconds raw =
     (let text = js_trim (case raw of Some s \<Rightarrow> s | None \<Rightarrow> [])
      in if \<not> (1 \<le> length text \<and> length text \<le> 9 \<and> list_all is_digit text) then CONSUME_WINDOW_DEFAULT_S
         else min CONSUME_WINDOW_MAX_S (max CONSUME_WINDOW_MIN_S (int (digits_val text))))"

section \<open>Names\<close>

definition HUMAN_ONLY_FLOOR :: "string list" where
  "HUMAN_ONLY_FLOOR = [''email_send'', ''email_standing_recipient'']"

definition MAX_CATEGORY_LENGTH :: nat where "MAX_CATEGORY_LENGTH = 64"
definition EMAIL_SEND_CATEGORY :: string where "EMAIL_SEND_CATEGORY = ''email_send''"

text \<open>\<open>normalize\<close>; \<open>nfkc\<close> is \<open>String.prototype.normalize('NFKC')\<close>.\<close>

definition normalize_name :: "(string \<Rightarrow> string) \<Rightarrow> string \<Rightarrow> string" where
  "normalize_name nfkc raw = js_lower (js_trim (stripInvisible (nfkc raw)))"

definition skeleton :: "string \<Rightarrow> string" where
  "skeleton canonical = filter (\<lambda>c. c \<noteq> CHR ''_'') canonical"

datatype category_check = CategoryOk string | AliasOfHumanOnly string | BadCategory

definition category_char :: "char \<Rightarrow> bool" where
  "category_char c \<longleftrightarrow> is_digit c \<or> 97 \<le> code c \<and> code c \<le> 122 \<or> c = CHR ''_''"

definition checkCategory :: "(string \<Rightarrow> string) \<Rightarrow> string list \<Rightarrow> string \<Rightarrow> category_check" where
  "checkCategory nfkc keys raw =
     (if List.member keys raw then CategoryOk raw
      else (let canonical = normalize_name nfkc raw; skel = skeleton canonical
            in case find (\<lambda>key. skel \<noteq> [] \<and> skeleton key = skel) keys of
                 Some key \<Rightarrow> AliasOfHumanOnly key
               | None \<Rightarrow>
                   if canonical = [] \<or> \<not> list_all category_char canonical \<or> length canonical > MAX_CATEGORY_LENGTH
                   then BadCategory else CategoryOk canonical))"

text \<open>The floor and the keys the table marks; \<open>None\<close> is a table that cannot be read. A set keeps the first of equals.\<close>

definition humanOnlyKeysNow :: "string list option \<Rightarrow> string list" where
  "humanOnlyKeysNow marked =
     (case marked of None \<Rightarrow> HUMAN_ONLY_FLOOR
      | Some ks \<Rightarrow> HUMAN_ONLY_FLOOR @ filter (\<lambda>k. \<not> List.member HUMAN_ONLY_FLOOR k) (rev (remdups (rev ks))))"

definition isHumanOnly :: "(string \<Rightarrow> string) \<Rightarrow> string list option \<Rightarrow> string \<Rightarrow> bool" where
  "isHumanOnly nfkc marked category =
     (let canonical = normalize_name nfkc category
      in list_ex (\<lambda>k. k = canonical \<or> skeleton k = skeleton canonical) (humanOnlyKeysNow marked))"

definition isEmailSendCategory :: "(string \<Rightarrow> string) \<Rightarrow> string \<Rightarrow> bool" where
  "isEmailSendCategory nfkc raw \<longleftrightarrow> skeleton (normalize_name nfkc raw) = skeleton EMAIL_SEND_CATEGORY"

definition isHumanOnlyFloorKey :: "string \<Rightarrow> bool" where
  "isHumanOnlyFloorKey k = List.member HUMAN_ONLY_FLOOR k"

definition ident_char :: "char \<Rightarrow> bool" where
  "ident_char c \<longleftrightarrow> is_word c \<or> c = CHR ''-''"

definition sanitizeAgentIdent :: "string \<Rightarrow> string" where
  "sanitizeAgentIdent raw = filter ident_char raw"

definition sameAgentIdent :: "string \<Rightarrow> string \<Rightarrow> bool" where
  "sameAgentIdent a b \<longleftrightarrow> a = b \<or>
     (let na = js_lower (sanitizeAgentIdent a) in na \<noteq> [] \<and> na = js_lower (sanitizeAgentIdent b))"

section \<open>Who is asking\<close>

definition callerMayActAs :: "route_ctx \<Rightarrow> string \<Rightarrow> bool" where
  "callerMayActAs ctx a \<longleftrightarrow> ctx_role ctx \<noteq> Some FleetAgent \<or> ctx_token_agent ctx = Some a"

text \<open>\<open>truthy\<close> excludes the empty id.\<close>

definition agentBoundAdminId :: "auth_result \<Rightarrow> route_ctx \<Rightarrow> string option" where
  "agentBoundAdminId auth ctx =
     (if ctx_role ctx = Some Admin \<and> (case auth of Token _ \<Rightarrow> True | _ \<Rightarrow> False) \<and> truthy (ctx_token_agent ctx) then ctx_token_agent ctx else None)"

definition boundToOther :: "auth_result \<Rightarrow> route_ctx \<Rightarrow> string \<Rightarrow> bool" where
  "boundToOther auth ctx a =
     (case agentBoundAdminId auth ctx of None \<Rightarrow> False
      | Some own \<Rightarrow> js_lower (sanitizeAgentIdent a) \<noteq> js_lower (sanitizeAgentIdent own))"

text \<open>
  \<open>humanSessionOf\<close>: the user of a live session cookie who is a global admin. The lookups are those of the
  credential gate; one that throws is not modelled here (the code then answers null as well).
\<close>

definition humanSessionOf :: "auth_env \<Rightarrow> string option \<Rightarrow> string option" where
  "humanSessionOf env header =
     (case map_of (parseCookies header) SESSION_COOKIE_NAME of
        Some (c # cs) \<Rightarrow>
          (case resolveSession env (c # cs) of
             None \<Rightarrow> None
           | Some username \<Rightarrow>
               (case getDashboardUserAuthRow env username of
                  Some (Admin, None) \<Rightarrow> Some username
                | _ \<Rightarrow> None))
      | _ \<Rightarrow> None)"

end
