(* ===== verification/ApprovalRoutes.thy ===== *)
theory ApprovalRoutes
  imports ApprovalRules
begin

text \<open>
  The approval endpoints: creating, deciding (\<open>src/web/routes/approvals.ts\<close>) and using up
  (\<open>src/web/routes/approvals-consume.ts\<close>, with the signed answer of \<open>src/web/claim-signature.ts\<close>) a request,
  on the storage of \<open>ApprovalStore\<close>. A handler takes the identity the request gate resolved, the parsed body
  (\<open>None\<close> when it is no JSON), the clock and a fresh id, and gives the answer, the notices it sends and the
  new storage. Audit-log rows and log lines are left out; the configuration and the platform (SHA-256, HMAC,
  Unicode normalisation, the JSON parser, the category table) are the record \<open>approval_server\<close>.
\<close>

record approval_server =
  as_env :: auth_env
  as_enforce :: bool
  as_window :: int
  as_main :: string
  as_sha :: "string \<Rightarrow> string"
  as_nfkc :: "string \<Rightarrow> string"
  as_nfc :: "string \<Rightarrow> string"
  as_json :: "string \<Rightarrow> jsval option"
  as_marked :: "string list option"
  as_minutes :: "string \<Rightarrow> jsval"
  as_hmac :: "(string \<Rightarrow> string) option"

datatype approval_reply =
    Answer nat approval
  | Fails nat string
  | Signed approval bool bool string
  | ServerError

datatype notice = TellMain string | TellMainHumanOnly string | TellOwner string | TellRequester string string

definition is_session :: "auth_result \<Rightarrow> bool" where
  "is_session auth = (case auth of Session _ _ _ \<Rightarrow> True | _ \<Rightarrow> False)"

definition trimmed :: "jsval \<Rightarrow> string option" where
  "trimmed v = (case v of JStr s \<Rightarrow> if js_trim s = [] then None else Some (js_trim s) | _ \<Rightarrow> None)"

definition isHumanOnlyApproval :: "approval_server \<Rightarrow> approval \<Rightarrow> bool" where
  "isHumanOnlyApproval srv r \<longleftrightarrow> human_only r \<or> isHumanOnly (as_nfkc srv) (as_marked srv) (ap_category r)"

text \<open>\<open>approvalContentHash\<close> of \<open>src/db/vault.ts\<close>.\<close>

definition approvalContentHash :: "approval_server \<Rightarrow> string \<Rightarrow> string \<Rightarrow> string \<Rightarrow> string \<Rightarrow> string option \<Rightarrow> string" where
  "approvalContentHash srv category agent tenant description payload =
     as_sha srv (json_object
       [(''action_description'', json_string (as_nfc srv description)),
        (''action_payload'', case payload of None \<Rightarrow> ''null'' | Some p \<Rightarrow> json_string (as_nfc srv p)),
        (''agent_id'', json_string (as_nfc srv agent)),
        (''category'', json_string (as_nfc srv category)),
        (''tenant_id'', json_string (as_nfc srv tenant))])"

definition getTimeoutAt :: "approval_server \<Rightarrow> int \<Rightarrow> string \<Rightarrow> jsval \<Rightarrow> int" where
  "getTimeoutAt srv now category requestedSeconds =
     now + resolveApprovalTimeoutSeconds (as_minutes srv category) requestedSeconds"

section \<open>Telling people\<close>

definition MAX_PENDING_EMAIL_REQUESTS :: nat where "MAX_PENDING_EMAIL_REQUESTS = 10"
definition MAX_EMAIL_OWNER_NOTICES_PER_HOUR :: nat where "MAX_EMAIL_OWNER_NOTICES_PER_HOUR = 5"
definition HOUR_S :: int where "HOUR_S = 3600"

definition withinOwnerNoticeAllowance :: "int \<Rightarrow> approval \<Rightarrow> approval list \<Rightarrow> bool" where
  "withinOwnerNoticeAllowance now r rows \<longleftrightarrow>
     countApprovalsRequestedSince (ap_agent r) (ap_category r) (ap_tenant r) (now - HOUR_S) (ap_id r) rows
       < MAX_EMAIL_OWNER_NOTICES_PER_HOUR"

definition notifyAboutNewRequest :: "approval_server \<Rightarrow> int \<Rightarrow> approval \<Rightarrow> approval_db \<Rightarrow> notice list \<times> approval_db" where
  "notifyAboutNewRequest srv now r db =
     (if ap_category r = EMAIL_SEND_CATEGORY \<and> \<not> withinOwnerNoticeAllowance now r (approvals db)
      then ([], recordApprovalEvent now r EvSuppressed (Some ''rate_limited'') (Some ''system'') None db)
      else if \<not> as_enforce srv \<or> \<not> isHumanOnlyApproval srv r then ([TellMain (ap_id r)], db)
      else ((if ap_agent r \<noteq> as_main srv then [TellMainHumanOnly (ap_id r)] else []) @ [TellOwner (ap_id r)], db))"

definition notifyRequester :: "approval_server \<Rightarrow> approval option \<Rightarrow> notice list" where
  "notifyRequester srv ro =
     (case ro of None \<Rightarrow> []
      | Some r \<Rightarrow> if \<not> isHumanOnlyApproval srv r \<or> \<not> as_enforce srv then [] else [TellRequester (ap_agent r) (ap_id r)])"

definition journalNonHumanDecision :: "approval_server \<Rightarrow> int \<Rightarrow> approval \<Rightarrow> string option \<Rightarrow> approval_db \<Rightarrow> approval_db" where
  "journalNonHumanDecision srv now r actor db =
     recordApprovalEvent now r EvBearerDenied
       (Some (if as_enforce srv then ''human_only_category'' else ''human_only_category_advisory'')) actor None db"

section \<open>POST /api/approvals\<close>

record asked =
  q_agent :: string
  q_category :: string
  q_description :: string
  q_payload :: "string option"
  q_hash :: "string option"
  q_tenant :: "string option"
  q_email :: bool
  q_timeout :: jsval

text \<open>The checks in their order; \<open>Inl\<close> is the refusal.\<close>

definition check_fields :: "approval_server \<Rightarrow> jsval \<Rightarrow> approval_reply + asked" where
  "check_fields srv b =
     (case trimmed (js_prop b ''agent_id'') of None \<Rightarrow> Inl (Fails 400 ''agent_id'')
      | Some agent \<Rightarrow>
     (case trimmed (js_prop b ''category'') of None \<Rightarrow> Inl (Fails 400 ''category'')
      | Some category \<Rightarrow>
     (let email = isEmailSendCategory (as_nfkc srv) (str_of (js_prop b ''category'')) in
      if \<not> email \<and> trimmed (js_prop b ''action_description'') = None then Inl (Fails 400 ''action_description'')
      else if js_prop b ''action_payload'' \<noteq> JUndef \<and> js_prop b ''action_payload'' \<noteq> JStr (str_of (js_prop b ''action_payload''))
        then Inl (Fails 400 ''action_payload'')
      else if js_prop b ''content_hash'' \<noteq> JUndef \<and> \<not> isContentHash (js_prop b ''content_hash'')
        then Inl (Fails 400 ''content_hash'')
      else if js_prop b ''tenant_id'' \<noteq> JUndef \<and> js_prop b ''tenant_id'' \<noteq> JStr (str_of (js_prop b ''tenant_id''))
        then Inl (Fails 400 ''tenant_id'')
      else Inr \<lparr>q_agent = agent, q_category = category,
                q_description = (case trimmed (js_prop b ''action_description'') of Some d \<Rightarrow> d | None \<Rightarrow> []),
                q_payload = (case js_prop b ''action_payload'' of JStr p \<Rightarrow> Some p | _ \<Rightarrow> None),
                q_hash = (case js_prop b ''content_hash'' of JStr h \<Rightarrow> Some h | _ \<Rightarrow> None),
                q_tenant = trimmed (js_prop b ''tenant_id''), q_email = email,
                q_timeout = js_prop b ''timeout_seconds''\<rparr>)))"

text \<open>Who it is stored under, in which tenant and category.\<close>

definition request_tenant :: "route_ctx \<Rightarrow> asked \<Rightarrow> string option" where
  "request_tenant ctx q =
     (if ctx_role ctx = Some FleetAgent then (case ctx_tenant ctx of Some t \<Rightarrow> t | None \<Rightarrow> None) else q_tenant q)"

definition check_identity :: "approval_server \<Rightarrow> auth_result \<Rightarrow> route_ctx \<Rightarrow> jsval \<Rightarrow> asked \<Rightarrow> approval_reply + asked" where
  "check_identity srv auth ctx b q =
     (if \<not> callerMayActAs ctx (q_agent q) then Inl (Fails 403 ''own_agent_only'')
      else if boundToOther auth ctx (q_agent q) then Inl (Fails 403 ''agent_id_mismatch'')
      else (let requester = (case agentBoundAdminId auth ctx of Some a \<Rightarrow> a | None \<Rightarrow> q_agent q);
                q1 = q\<lparr>q_agent := requester, q_tenant := request_tenant ctx q\<rparr>
            in if \<not> as_enforce srv then Inr q1
               else case checkCategory (as_nfkc srv) (humanOnlyKeysNow (as_marked srv)) (str_of (js_prop b ''category'')) of
                      CategoryOk c \<Rightarrow> Inr (q1\<lparr>q_category := c\<rparr>)
                    | AliasOfHumanOnly _ \<Rightarrow> Inl (Fails 400 ''category_alias_of_human_only'')
                    | BadCategory \<Rightarrow> Inl (Fails 400 ''category'')))"

definition create_plain :: "approval_server \<Rightarrow> asked \<Rightarrow> string \<Rightarrow> int \<Rightarrow> approval_db \<Rightarrow> approval_reply \<times> notice list \<times> approval_db" where
  "create_plain srv q i now db =
     (let h = approvalContentHash srv (q_category q) (q_agent q) (or_default (q_tenant q)) (q_description q) (q_payload q) in
      if q_hash q \<noteq> None \<and> q_hash q \<noteq> Some h then (Fails 400 ''hash_mismatch'', [], db)
      else case createApproval
             \<lparr>cr_id = i, cr_agent = q_agent q, cr_category = q_category q, cr_description = q_description q,
              cr_payload = q_payload q, cr_timeout_at = Some (getTimeoutAt srv now (q_category q) (q_timeout q)),
              cr_tenant = q_tenant q, cr_human_only = isHumanOnly (as_nfkc srv) (as_marked srv) (q_category q),
              cr_hash = Some h\<rparr> now db of
             None \<Rightarrow> (ServerError, [], db)
           | Some (r, d1) \<Rightarrow> (let (ns, d2) = notifyAboutNewRequest srv now r d1 in (Answer 201 r, ns, d2)))"

definition utf8_length :: "string \<Rightarrow> nat" where
  "utf8_length s = sum_list (map (\<lambda>c. if code c < 128 then 1 else 2) s)"

text \<open>An email request binds the envelope; the description is the server's own.\<close>

definition check_email :: "approval_server \<Rightarrow> asked \<Rightarrow> approval_reply + envelope" where
  "check_email srv q =
     (if q_agent q \<noteq> as_main srv then Inl (Fails 403 ''main_agent_only'')
      else case q_payload q of None \<Rightarrow> Inl (Fails 400 ''action_payload'')
      | Some p \<Rightarrow>
          if utf8_length p > MAX_PAYLOAD_BYTES then Inl (Fails 400 ''action_payload'')
          else case as_json srv p of None \<Rightarrow> Inl (Fails 400 ''action_payload'')
          | Some v \<Rightarrow>
              (case parseEmailEnvelope v (q_agent q) of
                 EnvelopeBad _ \<Rightarrow> Inl (Fails 400 ''invalid_envelope'')
               | EnvelopeOk e \<Rightarrow>
                   if e_html e \<noteq> None then Inl (Fails 400 ''html_not_supported'')
                   else if q_hash q \<noteq> None \<and> q_hash q \<noteq> Some (hashCanon (as_sha srv) (canonicalJson e))
                     then Inl (Fails 400 ''hash_mismatch'')
                   else Inr e))"

definition create_email :: "approval_server \<Rightarrow> asked \<Rightarrow> string \<Rightarrow> int \<Rightarrow> approval_db \<Rightarrow> approval_reply \<times> notice list \<times> approval_db" where
  "create_email srv q i now db =
     (case check_email srv q of Inl r \<Rightarrow> (r, [], db)
      | Inr e \<Rightarrow>
          (let canon = canonicalJson e; h = hashCanon (as_sha srv) canon in
           case createApprovalOnce
             \<lparr>cr_id = i, cr_agent = q_agent q, cr_category = EMAIL_SEND_CATEGORY, cr_description = describeEmail e h,
              cr_payload = Some canon, cr_timeout_at = Some (getTimeoutAt srv now EMAIL_SEND_CATEGORY (q_timeout q)),
              cr_tenant = q_tenant q, cr_human_only = True, cr_hash = None\<rparr> h MAX_PENDING_EMAIL_REQUESTS now db of
             (BadHash, d1) \<Rightarrow> (Fails 400 ''hash_mismatch'', [], d1)
           | (TooManyPending, d1) \<Rightarrow> (Fails 409 ''too_many_pending'', [], d1)
           | (InsertFailed, d1) \<Rightarrow> (ServerError, [], d1)
           | (Deduplicated r, d1) \<Rightarrow> (Answer 200 r, [], d1)
           | (Opened r, d1) \<Rightarrow> (let (ns, d2) = notifyAboutNewRequest srv now r d1 in (Answer 201 r, ns, d2))))"

definition post_approval ::
  "approval_server \<Rightarrow> auth_result \<Rightarrow> route_ctx \<Rightarrow> jsval option \<Rightarrow> string \<Rightarrow> int \<Rightarrow> approval_db \<Rightarrow> approval_reply \<times> notice list \<times> approval_db" where
  "post_approval srv auth ctx body i now db =
     (if is_session auth \<and> ctx_role ctx \<noteq> Some Admin then (Fails 403 ''forbidden'', [], db)
      else case body of None \<Rightarrow> (Fails 400 ''parse_error'', [], db)
      | Some b \<Rightarrow>
          if b = JNull then (ServerError, [], db)
          else (case check_fields srv b of Inl r \<Rightarrow> (r, [], db)
           | Inr q0 \<Rightarrow>
               (case check_identity srv auth ctx b q0 of Inl r \<Rightarrow> (r, [], db)
                | Inr q \<Rightarrow> if q_email q then create_email srv q i now db else create_plain srv q i now db)))"

section \<open>GET /api/approvals/:id\<close>

definition foreign_session :: "auth_result \<Rightarrow> route_ctx \<Rightarrow> approval \<Rightarrow> bool" where
  "foreign_session auth ctx r \<longleftrightarrow> is_session auth \<and> ctx_role ctx \<noteq> Some Admin \<and> ctx_tenant ctx \<noteq> Some (Some (ap_tenant r))"

definition get_approval :: "auth_result \<Rightarrow> route_ctx \<Rightarrow> string \<Rightarrow> approval_db \<Rightarrow> approval_reply" where
  "get_approval auth ctx i db =
     (case getApproval i (approvals db) of None \<Rightarrow> Fails 404 ''not_found''
      | Some r \<Rightarrow>
          if (ctx_role ctx = Some FleetAgent \<and> ctx_token_agent ctx \<noteq> Some (ap_agent r)) \<or> foreign_session auth ctx r
          then Fails 404 ''not_found'' else Answer 200 r)"

section \<open>PATCH /api/approvals/:id\<close>

text \<open>Who decides: the authenticated principal; the body's name counts only where there is none.\<close>

definition resolver :: "auth_result \<Rightarrow> jsval \<Rightarrow> string option" where
  "resolver auth b =
     (case auth of
        Session u _ _ \<Rightarrow> Some u
      | Federation peer \<Rightarrow> Some peer
      | Device name _ \<Rightarrow> Some name
      | Token t \<Rightarrow> Some (case tok_agent t of Some a \<Rightarrow> a
                         | None \<Rightarrow> (case tok_name t of Some n \<Rightarrow> n | None \<Rightarrow> ''shared-token''))
      | NoAuth \<Rightarrow> trimmed (js_prop b ''resolved_by''))"

definition auth_via :: "auth_result \<Rightarrow> via option" where
  "auth_via auth = (if is_session auth then Some DashboardSession else if auth = NoAuth then None else Some Bearer)"

definition message_id :: "jsval \<Rightarrow> jsnum option" where
  "message_id v = (case v of JNum n \<Rightarrow> Some n | _ \<Rightarrow> None)"

fun asked_status :: "jsval \<Rightarrow> approval_status option" where
  "asked_status (JStr s) = (if s = ''approved'' then Some Approved else if s = ''rejected'' then Some Rejected
     else if s = ''timeout'' then Some TimedOut else None)"
| "asked_status _ = None"

definition human_resolver :: "string \<Rightarrow> string" where
  "human_resolver u = ''human:session:'' @ u"

text \<open>
  A human-only request is decided by a person's session. Without one the attempt is journalled, and refused
  (\<open>None\<close>) under enforcement.
\<close>

definition human_gate ::
  "approval_server \<Rightarrow> auth_result \<Rightarrow> string option \<Rightarrow> approval option \<Rightarrow> string \<Rightarrow> int \<Rightarrow> approval_db
     \<Rightarrow> (string \<times> via option) option \<times> approval_db" where
  "human_gate srv auth ck target who now db =
     (case target of
        None \<Rightarrow> (Some (who, auth_via auth), db)
      | Some r \<Rightarrow>
          if \<not> isHumanOnlyApproval srv r then (Some (who, auth_via auth), db)
          else (case humanSessionOf (as_env srv) ck of
                  Some u \<Rightarrow> (Some (if as_enforce srv then human_resolver u else who, Some DashboardSession), db)
                | None \<Rightarrow>
                    (let d1 = journalNonHumanDecision srv now r (Some who) db
                     in if as_enforce srv then (None, d1) else (Some (who, auth_via auth), d1))))"

text \<open>The two guards behind it: no agent decides its own request, no session another tenant's.\<close>

definition decision_guard :: "auth_result \<Rightarrow> route_ctx \<Rightarrow> approval option \<Rightarrow> string \<Rightarrow> approval_reply option" where
  "decision_guard auth ctx target who =
     (if (case target of Some r \<Rightarrow> sameAgentIdent who (ap_agent r) | None \<Rightarrow> False) then Some (Fails 403 ''own_request'')
      else if is_session auth \<and> ctx_role ctx \<noteq> Some Admin then
        (case ctx_tenant ctx of
           Some (Some (c # t)) \<Rightarrow>
             (case target of Some r \<Rightarrow> if ap_tenant r \<noteq> c # t then Some (Fails 404 ''not_found'') else None
              | None \<Rightarrow> Some (Fails 404 ''not_found''))
         | _ \<Rightarrow> Some (Fails 403 ''no_tenant_scope''))
      else None)"

definition decide ::
  "approval_server \<Rightarrow> string \<Rightarrow> approval_status \<Rightarrow> string \<Rightarrow> via option \<Rightarrow> jsnum option \<Rightarrow> int \<Rightarrow> approval_db
     \<Rightarrow> approval_reply \<times> notice list \<times> approval_db" where
  "decide srv i st who v msg now db =
     (let (hit, d1) = resolveApproval i st who msg v now db in
      if hit then (case getApproval i (approvals d1) of
                     Some r \<Rightarrow> (Answer 200 r, notifyRequester srv (Some r), d1)
                   | None \<Rightarrow> (ServerError, [], d1))
      else (case getApproval i (approvals db) of
              None \<Rightarrow> (Fails 404 ''not_found'', [], d1)
            | Some r \<Rightarrow> (Fails 409 (if ap_status r = Pending then ''expired'' else ''already_resolved''), [], d1)))"

definition patch_approval ::
  "approval_server \<Rightarrow> auth_result \<Rightarrow> route_ctx \<Rightarrow> string option \<Rightarrow> jsval option \<Rightarrow> string \<Rightarrow> int \<Rightarrow> approval_db
     \<Rightarrow> approval_reply \<times> notice list \<times> approval_db" where
  "patch_approval srv auth ctx ck body i now db =
     (let target = getApproval i (approvals db) in
      if ctx_role ctx = Some FleetAgent then
        (Fails 403 ''forbidden'', [],
         (case target of
            Some r \<Rightarrow> if isHumanOnlyApproval srv r then journalNonHumanDecision srv now r (ctx_token_agent ctx) db else db
          | None \<Rightarrow> db))
      else case body of None \<Rightarrow> (Fails 400 ''parse_error'', [], db)
      | Some b \<Rightarrow>
          if b = JNull then (ServerError, [], db)
          else (case asked_status (js_prop b ''status'') of None \<Rightarrow> (Fails 400 ''status'', [], db)
           | Some st \<Rightarrow>
               (case resolver auth b of None \<Rightarrow> (Fails 400 ''resolved_by'', [], db)
                | Some who0 \<Rightarrow>
                    if who0 = [] then (Fails 400 ''resolved_by'', [], db)
                    else (case human_gate srv auth ck target who0 now db of
                       (None, d1) \<Rightarrow> (Fails 403 ''human_only_category'', [], d1)
                     | (Some (who, v), d1) \<Rightarrow>
                         (case decision_guard auth ctx target who of Some r \<Rightarrow> (r, [], d1)
                          | None \<Rightarrow> decide srv i st who v (message_id (js_prop b ''telegram_message_id'')) now d1)))))"

section \<open>Using a request up\<close>

definition MAX_REF_CHARS :: nat where "MAX_REF_CHARS = 200"
definition MAX_CONSUMER_CHARS :: nat where "MAX_CONSUMER_CHARS = 64"

definition safe_label_char :: "char \<Rightarrow> bool" where
  "safe_label_char c \<longleftrightarrow> 32 \<le> code c \<and> code c \<le> 126"

record use_body =
  ub_hash :: string
  ub_category :: "string option"
  ub_ref :: "string option"
  ub_consumer :: "string option"
  ub_send :: bool

text \<open>\<open>None\<close> is a label that is refused, \<open>Some None\<close> an absent one.\<close>

definition use_label :: "jsval \<Rightarrow> nat \<Rightarrow> string option option" where
  "use_label v n =
     (case v of JUndef \<Rightarrow> Some None | JNull \<Rightarrow> Some None
      | JStr s \<Rightarrow> if length s > n \<or> \<not> list_all safe_label_char s then None
                 else Some (if s = [] then None else Some s)
      | _ \<Rightarrow> None)"

definition use_mode :: "jsval \<Rightarrow> bool \<Rightarrow> string option \<Rightarrow> string + bool" where
  "use_mode v needCategory ref =
     (if v = JUndef \<or> v = JNull then Inr False
      else if v \<noteq> JStr ''send'' \<or> \<not> needCategory then Inl ''mode''
      else if ref = None then Inl ''ref''
      else Inr True)"

definition readUseBody :: "bool \<Rightarrow> jsval option \<Rightarrow> approval_reply + use_body" where
  "readUseBody needCategory raw =
     (case raw of None \<Rightarrow> Inl (Fails 400 ''parse_error'')
      | Some (JObj ps) \<Rightarrow>
          (let b = JObj ps in
           if \<not> isContentHash (js_prop b ''content_hash'') then Inl (Fails 400 ''content_hash'')
           else if needCategory \<and> trimmed (js_prop b ''category'') = None then Inl (Fails 400 ''category'')
           else case use_label (js_prop b ''ref'') MAX_REF_CHARS of None \<Rightarrow> Inl (Fails 400 ''ref'')
           | Some ref \<Rightarrow>
               (case use_label (js_prop b ''consumer'') MAX_CONSUMER_CHARS of None \<Rightarrow> Inl (Fails 400 ''consumer'')
                | Some con \<Rightarrow>
                    (case use_mode (js_prop b ''mode'') needCategory ref of
                       Inl field \<Rightarrow> Inl (Fails 400 field)
                     | Inr send \<Rightarrow>
                         Inr \<lparr>ub_hash = str_of (js_prop b ''content_hash''),
                              ub_category = (if needCategory then trimmed (js_prop b ''category'') else None),
                              ub_ref = ref, ub_consumer = con, ub_send = send\<rparr>)))
      | Some _ \<Rightarrow> Inl (Fails 400 ''body''))"

text \<open>The signed texts of \<open>src/web/claim-signature.ts\<close>.\<close>

definition show_int :: "int \<Rightarrow> string" where
  "show_int z = (if z < 0 then CHR ''-'' # show_nat (nat (- z)) else show_nat (nat z))"

definition claimSignatureInput :: "string \<Rightarrow> string \<Rightarrow> string \<Rightarrow> string option \<Rightarrow> int \<Rightarrow> string" where
  "claimSignatureInput h category agent ref c =
     join_with ''|'' [''v1'', h, category, agent, (case ref of Some r \<Rightarrow> r | None \<Rightarrow> []), show_int c]"

definition useSignatureInput :: "string \<Rightarrow> string \<Rightarrow> string \<Rightarrow> string \<Rightarrow> int \<Rightarrow> int \<Rightarrow> string" where
  "useSignatureInput h category agent ref c u =
     join_with ''|'' [''v2'', h, category, agent, ref, show_int c, show_int u]"

definition use_principal :: "route_ctx \<Rightarrow> string option" where
  "use_principal ctx = (case ctx_token_agent ctx of Some (c # a) \<Rightarrow> Some (c # a) | _ \<Rightarrow> None)"

definition tenantOf :: "route_ctx \<Rightarrow> string" where
  "tenantOf ctx = (case ctx_tenant ctx of Some (Some (c # t)) \<Rightarrow> c # t | _ \<Rightarrow> ''default'')"

definition sign_use :: "(string \<Rightarrow> string) \<Rightarrow> bool \<Rightarrow> bool \<Rightarrow> bool \<Rightarrow> approval \<Rightarrow> approval_reply" where
  "sign_use key send replayed adopted r =
     (case (consumed_at r, content_hash r) of
        (Some c, Some h) \<Rightarrow>
          if send then (case (used_at r, used_ref r) of
                          (Some u, Some ref) \<Rightarrow>
                            Signed r replayed adopted (key (useSignatureInput h (ap_category r) (ap_agent r) ref c u))
                        | _ \<Rightarrow> Fails 503 ''claim_signing_unavailable'')
          else Signed r replayed False (key (claimSignatureInput h (ap_category r) (ap_agent r) (consumed_ref r) c))
      | _ \<Rightarrow> Fails 503 ''claim_signing_unavailable'')"

definition use_reply :: "(string \<Rightarrow> string) \<Rightarrow> bool \<Rightarrow> outcome \<Rightarrow> approval_reply" where
  "use_reply key send oc =
     (case oc of
        Taken replayed adopted r \<Rightarrow> sign_use key send replayed adopted r
      | RefusedUse why _ \<Rightarrow>
          (if why = NoSuchApproval then Fails 404 ''not_found''
           else if why = AgentMismatch then Fails 403 ''agent_mismatch''
           else Fails 409 (refusal_text why))
      | Threw \<Rightarrow> ServerError)"

text \<open>\<open>handleUse\<close>: \<open>None\<close> is the claim by hash, \<open>Some\<close> id the consume of a named request.\<close>

definition use_approval ::
  "approval_server \<Rightarrow> route_ctx \<Rightarrow> string option \<Rightarrow> jsval option \<Rightarrow> int \<Rightarrow> approval_db \<Rightarrow> approval_reply \<times> approval_db" where
  "use_approval srv ctx io body now db =
     (case use_principal ctx of None \<Rightarrow> (Fails 403 ''agent_identity_required'', db)
      | Some who \<Rightarrow>
     (case readUseBody (io = None) body of Inl r \<Rightarrow> (r, db)
      | Inr u \<Rightarrow>
     (case as_hmac srv of None \<Rightarrow> (Fails 503 ''claim_signing_unavailable'', db)
      | Some key \<Rightarrow>
          (let p = \<lparr>cp_hash = ub_hash u, principal = who, cp_tenant = tenantOf ctx, window_s = as_window srv,
                    cp_ref = ub_ref u, consumer = ub_consumer u\<rparr>;
               (oc, db') = (case io of
                    Some i \<Rightarrow> consumeApproval i p now db
                  | None \<Rightarrow> claimApproval p (case ub_category u of Some c \<Rightarrow> c | None \<Rightarrow> []) (if ub_send u then Send else Gate) now db)
           in (use_reply key (ub_send u) oc, db')))))"

definition approval_events_route :: "auth_result \<Rightarrow> route_ctx \<Rightarrow> string \<Rightarrow> approval_db \<Rightarrow> string + approval_event list" where
  "approval_events_route auth ctx i db =
     (if ctx_role ctx = Some FleetAgent then Inl ''forbidden''
      else case getApproval i (approvals db) of None \<Rightarrow> Inl ''not_found''
      | Some r \<Rightarrow> if foreign_session auth ctx r then Inl ''not_found'' else Inr (listApprovalEvents i (ap_events db)))"

end
