(* ===== verification/ApprovalFlow.thy ===== *)
theory ApprovalFlow
  imports ApprovalRoutes
begin

text \<open>
  The approval service as a whole: every call of a route is a run of storage operations, so what
  \<open>ApprovalStore\<close> proves of the storage holds of the service; and what the routes add, from the request
  of a mail to the signed answer that lets it be sent.
\<close>

section \<open>The service\<close>

text \<open>
  Between two calls sessions, the category table and the signing key may change; the rest of the
  configuration stays.
\<close>

definition same_config :: "approval_server \<Rightarrow> approval_server \<Rightarrow> bool" where
  "same_config a b \<longleftrightarrow> as_enforce a = as_enforce b \<and> as_window a = as_window b \<and> as_main a = as_main b
     \<and> as_sha a = as_sha b \<and> as_nfkc a = as_nfkc b"

inductive api_step :: "approval_server \<Rightarrow> approval_db \<Rightarrow> approval_db \<Rightarrow> bool" for srv where
  post: "same_config srv s \<Longrightarrow> post_approval s auth ctx body i now db = (rep, ns, db') \<Longrightarrow> api_step srv db db'"
| patch: "same_config srv s \<Longrightarrow> patch_approval s auth ctx ck body i now db = (rep, ns, db') \<Longrightarrow> api_step srv db db'"
| use_up: "same_config srv s \<Longrightarrow> use_approval s ctx io body now db = (rep, db') \<Longrightarrow> api_step srv db db'"
| sweep: "expireTimedOutApprovals now db = (n, db') \<Longrightarrow> api_step srv db db'"
| unreached: "r \<in> set (approvals db) \<Longrightarrow> api_step srv db (recordApprovalEvent now r EvOwnerUnreached None (Some ''system'') None db)"

inductive api_reach :: "approval_server \<Rightarrow> approval_db \<Rightarrow> bool" for srv where
  no_requests: "api_reach srv \<lparr>approvals = [], ap_events = []\<rparr>"
| served: "api_reach srv db \<Longrightarrow> api_step srv db db' \<Longrightarrow> api_reach srv db'"
| kept_up: "api_reach srv db \<Longrightarrow> upkeep_step db db' \<Longrightarrow> api_reach srv db'"

section \<open>Every handler is a run of storage operations\<close>

abbreviation runs :: "int \<Rightarrow> approval_db \<Rightarrow> approval_db \<Rightarrow> bool" where
  "runs w \<equiv> (approval_step w)\<^sup>*\<^sup>*"

lemma reach_runs: "runs w db db' \<Longrightarrow> approval_reach w db \<Longrightarrow> approval_reach w db'"
  by (induction rule: rtranclp_induct) (auto intro: step_db)

lemma run_journal: "r \<in> set (approvals db) \<Longrightarrow> runs w db (journalNonHumanDecision srv now r actor db)"
  unfolding journalNonHumanDecision_def by (rule r_into_rtranclp, rule approval_step.noted) simp_all

lemma journal_rows [simp]: "approvals (journalNonHumanDecision srv now r actor db) = approvals db"
  by (simp add: journalNonHumanDecision_def)

lemma run_notify:
  assumes "notifyAboutNewRequest srv now r db = (ns, db')" "r \<in> set (approvals db)"
  shows "runs w db db'" "approvals db' = approvals db"
proof -
  from assms(1) have "db' = db \<or> db' = recordApprovalEvent now r EvSuppressed (Some ''rate_limited'') (Some ''system'') None db"
    by (auto simp: notifyAboutNewRequest_def split: if_splits)
  with assms(2) show "runs w db db'" "approvals db' = approvals db"
    by (auto intro: r_into_rtranclp [of "approval_step w"] approval_step.noted)
qed

lemma created_mem: "createApproval c now db = Some (r, db') \<Longrightarrow> r \<in> set (approvals db')"
  by (auto simp: createApproval_def Let_def split: if_splits)

lemma run_create_plain:
  assumes "create_plain srv q i now db = (rep, ns, db')"
  obtains "db' = db"
  | r d1 where "createApproval
             \<lparr>cr_id = i, cr_agent = q_agent q, cr_category = q_category q, cr_description = q_description q,
              cr_payload = q_payload q, cr_timeout_at = Some (getTimeoutAt srv now (q_category q) (q_timeout q)),
              cr_tenant = q_tenant q, cr_human_only = isHumanOnly (as_nfkc srv) (as_marked srv) (q_category q),
              cr_hash = Some (approvalContentHash srv (q_category q) (q_agent q) (or_default (q_tenant q)) (q_description q) (q_payload q))\<rparr>
             now db = Some (r, d1)" "notifyAboutNewRequest srv now r d1 = (ns, db')" "rep = Answer 201 r"
  using assms by (auto simp: create_plain_def Let_def split: if_splits option.splits prod.splits)

lemma run_create_email:
  assumes "create_email srv q i now db = (rep, ns, db')"
  obtains "db' = db"
  | e oc d1 where "check_email srv q = Inr e" "createApprovalOnce
             \<lparr>cr_id = i, cr_agent = q_agent q, cr_category = EMAIL_SEND_CATEGORY,
              cr_description = describeEmail e (hashCanon (as_sha srv) (canonicalJson e)),
              cr_payload = Some (canonicalJson e), cr_timeout_at = Some (getTimeoutAt srv now EMAIL_SEND_CATEGORY (q_timeout q)),
              cr_tenant = q_tenant q, cr_human_only = True, cr_hash = None\<rparr>
              (hashCanon (as_sha srv) (canonicalJson e)) MAX_PENDING_EMAIL_REQUESTS now db = (oc, d1)"
      "case oc of Opened r \<Rightarrow> notifyAboutNewRequest srv now r d1 = (ns, db') \<and> rep = Answer 201 r | _ \<Rightarrow> db' = d1"
proof (cases "check_email srv q")
  case (Inl r)
  with assms that(1) show thesis by (simp add: create_email_def)
next
  case (Inr e)
  obtain oc d1 where once: "createApprovalOnce
             \<lparr>cr_id = i, cr_agent = q_agent q, cr_category = EMAIL_SEND_CATEGORY,
              cr_description = describeEmail e (hashCanon (as_sha srv) (canonicalJson e)),
              cr_payload = Some (canonicalJson e), cr_timeout_at = Some (getTimeoutAt srv now EMAIL_SEND_CATEGORY (q_timeout q)),
              cr_tenant = q_tenant q, cr_human_only = True, cr_hash = None\<rparr>
              (hashCanon (as_sha srv) (canonicalJson e)) MAX_PENDING_EMAIL_REQUESTS now db = (oc, d1)" by fastforce
  with Inr assms have "case oc of Opened r \<Rightarrow> notifyAboutNewRequest srv now r d1 = (ns, db') \<and> rep = Answer 201 r | _ \<Rightarrow> db' = d1"
    by (auto simp: create_email_def Let_def split: open_outcome.splits prod.splits)
  with Inr once that(2) show thesis by blast
qed

lemma run_post_cases:
  assumes "post_approval srv auth ctx body i now db = (rep, ns, db')"
  obtains "db' = db" 
  | b q0 q where "body = Some b" "b \<noteq> JNull" "check_fields srv b = Inr q0" "check_identity srv auth ctx b q0 = Inr q"
      "is_session auth \<longrightarrow> ctx_role ctx = Some Admin"
      "(if q_email q then create_email srv q i now db else create_plain srv q i now db) = (rep, ns, db')"
  using assms by (auto simp: post_approval_def split: if_splits option.splits sum.splits)

lemma run_post: "post_approval srv auth ctx body i now db = (rep, ns, db') \<Longrightarrow> runs w db db'"
proof (erule run_post_cases, simp)
  fix q
  assume *: "(if q_email q then create_email srv q i now db else create_plain srv q i now db) = (rep, ns, db')"
  show "runs w db db'"
  proof (cases "q_email q")
    case True
    with * have "create_email srv q i now db = (rep, ns, db')" by simp
    then show ?thesis
    proof (rule run_create_email)
      fix c h n oc d1
      assume "createApprovalOnce c h n now db = (oc, d1)"
        and oc: "case oc of Opened r \<Rightarrow> notifyAboutNewRequest srv now r d1 = (ns, db') \<and> rep = Answer 201 r | _ \<Rightarrow> db' = d1"
      then have new: "oc = Opened r \<Longrightarrow> r \<in> set (approvals d1)" for r
        by (auto simp: createApprovalOnce_def Let_def split: if_splits option.splits dest: created_mem)
      have "approval_step w db d1" using \<open>createApprovalOnce c h n now db = (oc, d1)\<close> by (rule approval_step.open_once)
      moreover from oc new have "runs w d1 db'" by (cases oc) (auto dest: run_notify(1))
      ultimately show "runs w db db'" by (rule converse_rtranclp_into_rtranclp)
    qed simp
  next
    case False
    with * have "create_plain srv q i now db = (rep, ns, db')" by simp
    then show ?thesis
      by (rule run_create_plain)
         (auto intro: converse_rtranclp_into_rtranclp approval_step.create run_notify(1) dest: created_mem)
  qed
qed

lemma human_gate_runs:
  assumes "human_gate srv auth ck (getApproval i (approvals db)) who now db = (x, d1)"
  shows "runs w db d1" "approvals d1 = approvals db"
proof -
  from assms have "d1 = db \<or> (\<exists>r\<in>set (approvals db). d1 = journalNonHumanDecision srv now r (Some who) db)"
    by (auto simp: human_gate_def Let_def split: option.splits if_splits dest: getApproval_Some)
  then show "runs w db d1" "approvals d1 = approvals db"
    by (auto intro: run_journal)
qed

lemma asked_status_decided: "asked_status v = Some st \<Longrightarrow> st \<noteq> Pending"
  by (cases v) (auto split: if_splits)

lemma decide_resolves: "decide srv i st who v msg now db = (rep, ns, db') \<Longrightarrow> \<exists>b. resolveApproval i st who msg v now db = (b, db')"
  by (auto simp: decide_def resolveApproval_def Let_def split: if_splits option.splits)

lemma patch_cases:
  assumes "patch_approval srv auth ctx ck body i now db = (rep, ns, db')"
  obtains (refused) "runs w db db'" "approvals db' = approvals db" 
  | (decided) b st who0 who v d1 msg where "ctx_role ctx \<noteq> Some FleetAgent" "body = Some b"
      "asked_status (js_prop b ''status'') = Some st" "resolver auth b = Some who0"
      "human_gate srv auth ck (getApproval i (approvals db)) who0 now db = (Some (who, v), d1)"
      "decision_guard auth ctx (getApproval i (approvals db)) who = None"
      "decide srv i st who v msg now d1 = (rep, ns, db')"
proof (cases "ctx_role ctx = Some FleetAgent")
  case True
  with assms have "db' = db \<or> (\<exists>r\<in>set (approvals db). db' = journalNonHumanDecision srv now r (ctx_token_agent ctx) db)"
    by (auto simp: patch_approval_def split: option.splits if_splits dest: getApproval_Some)
  then show thesis by (intro refused) (auto intro: run_journal)
next
  case False
  show thesis
  proof (cases "db' = db")
    case True
    with refused show thesis by simp
  next
    case changed: False
    with False assms obtain b st who0 x d1 where *: "body = Some b" "asked_status (js_prop b ''status'') = Some st" "resolver auth b = Some who0"
      "human_gate srv auth ck (getApproval i (approvals db)) who0 now db = (x, d1)"
      "(case x of None \<Rightarrow> (Fails 403 ''human_only_category'', [], d1)
        | Some (who, v) \<Rightarrow>
           (case decision_guard auth ctx (getApproval i (approvals db)) who of Some r \<Rightarrow> (r, [], d1)
            | None \<Rightarrow> decide srv i st who v (message_id (js_prop b ''telegram_message_id'')) now d1)) = (rep, ns, db')"
      by (auto simp: patch_approval_def Let_def split: option.splits if_splits prod.splits)
    note gate = human_gate_runs(1) [OF *(4), of w] human_gate_runs(2) [OF *(4)]
    show thesis
    proof (cases "db' = d1")
      case True
      with gate refused show thesis by simp
    next
      case False
      with *(5) obtain who v where "x = Some (who, v)" "decision_guard auth ctx (getApproval i (approvals db)) who = None"
        "decide srv i st who v (message_id (js_prop b ''telegram_message_id'')) now d1 = (rep, ns, db')"
        by (auto split: option.splits)
      with * decided \<open>ctx_role ctx \<noteq> Some FleetAgent\<close> show thesis by blast
    qed
  qed
qed

lemma run_patch:
  assumes "patch_approval srv auth ctx ck body i now db = (rep, ns, db')"
  shows "runs w db db'"
  using assms
proof (cases rule: patch_cases [where w = w])
  case (decided b st who0 who v d1 msg)
  from decided(7) obtain hit where "resolveApproval i st who msg v now d1 = (hit, db')" using decide_resolves by blast
  with asked_status_decided [OF decided(3)] have "approval_step w d1 db'" by (blast intro: approval_step.resolve)
  with human_gate_runs(1) [OF decided(5)] show ?thesis by (rule rtranclp.rtrancl_into_rtrancl)
qed

lemma use_cases:
  assumes "use_approval srv ctx io body now db = (rep, db')"
  obtains (unused) "db' = db" "\<And>r a b c. rep \<noteq> Signed r a b c"
  | (asked) who u key p oc where "use_principal ctx = Some who" "readUseBody (io = None) body = Inr u" "as_hmac srv = Some key"
      "p = \<lparr>cp_hash = ub_hash u, principal = who, cp_tenant = tenantOf ctx, window_s = as_window srv,
            cp_ref = ub_ref u, consumer = ub_consumer u\<rparr>"
      "(case io of Some i \<Rightarrow> consumeApproval i p now db
        | None \<Rightarrow> claimApproval p (case ub_category u of Some c \<Rightarrow> c | None \<Rightarrow> []) (if ub_send u then Send else Gate) now db) = (oc, db')"
      "rep = use_reply key (ub_send u) oc"
proof (cases "use_principal ctx = None \<or> (\<exists>r. readUseBody (io = None) body = Inl r) \<or> as_hmac srv = None")
  case True
  have "readUseBody n raw = Inl r \<Longrightarrow> r \<noteq> Signed x a b c" for n raw r x a b c
    by (auto simp: readUseBody_def Let_def split: option.splits jsval.splits if_splits sum.splits)
  with True assms show thesis
    by (intro unused) (auto simp: use_approval_def split: option.splits sum.splits)
next
  case False
  then obtain who u key where *: "use_principal ctx = Some who" "readUseBody (io = None) body = Inr u" "as_hmac srv = Some key"
    by (metis not_None_eq obj_sumE)
  let ?p = "\<lparr>cp_hash = ub_hash u, principal = who, cp_tenant = tenantOf ctx, window_s = as_window srv,
            cp_ref = ub_ref u, consumer = ub_consumer u\<rparr>"
  obtain oc d where oc: "(case io of Some i \<Rightarrow> consumeApproval i ?p now db
        | None \<Rightarrow> claimApproval ?p (case ub_category u of Some c \<Rightarrow> c | None \<Rightarrow> []) (if ub_send u then Send else Gate) now db) = (oc, d)"
    by fastforce
  from * oc assms have "rep = use_reply key (ub_send u) oc" "d = db'" unfolding use_approval_def Let_def by simp_all
  with * oc asked [OF * refl] show thesis by blast
qed

lemma run_use:
  assumes "use_approval srv ctx io body now db = (rep, db')" "w = as_window srv"
  shows "runs w db db'"
  using assms(1)
proof (cases rule: use_cases)
  case (asked who u key p oc)
  then have "window_s p = w" using assms(2) by simp
  with asked(5) show ?thesis
    by (cases io) (auto intro!: r_into_rtranclp [of "approval_step w"] intro: approval_step.consume approval_step.claim)
qed simp

lemma api_runs: "api_step srv db db' \<Longrightarrow> runs (as_window srv) db db'"
proof (induction rule: api_step.induct)
  case use_up
  then show ?case by (auto simp: same_config_def intro: run_use)
next
  case sweep
  then show ?case by (blast intro: approval_step.expire)
next
  case unreached
  then show ?case by (intro r_into_rtranclp approval_step.noted) simp_all
qed (auto intro: run_post run_patch)

lemma api_reach_reach: "api_reach srv db \<Longrightarrow> approval_reach (as_window srv) db"
  by (induction rule: api_reach.induct) (auto intro: empty_db upkeep_db reach_runs api_runs)

section \<open>What a use writes\<close>

text \<open>A use leaves the terms of a request and the decision on it alone.\<close>

definition same_decision :: "approval \<Rightarrow> approval \<Rightarrow> bool" where
  "same_decision r s \<longleftrightarrow> ap_id s = ap_id r \<and> ap_agent s = ap_agent r \<and> ap_category s = ap_category r \<and> ap_tenant s = ap_tenant r
     \<and> ap_description s = ap_description r \<and> ap_payload s = ap_payload r \<and> content_hash s = content_hash r
     \<and> human_only s = human_only r \<and> ap_status s = ap_status r \<and> timeout_at s = timeout_at r
     \<and> resolved_at s = resolved_at r \<and> resolved_by s = resolved_by r \<and> resolved_via s = resolved_via r"

lemma same_decision_use: "same_decision r (consume_row p now ref seal r)" "same_decision r (sealed now ref r)" "same_decision r r"
  by (simp_all add: same_decision_def consume_row_def sealed_def Let_def)

text \<open>The outcome \<open>oc\<close> of a use with \<open>p\<close>: nothing written, or the one row answered is now spent.\<close>

definition spends ::
  "consume_params \<Rightarrow> bool \<Rightarrow> outcome \<Rightarrow> approval_db \<Rightarrow> approval_db \<Rightarrow> approval \<Rightarrow> (approval \<Rightarrow> bool) \<Rightarrow> (approval \<Rightarrow> approval) \<Rightarrow> bool" where
  "spends p send oc db db' r g f \<longleftrightarrow> r \<in> set (approvals db) \<and> g r \<and> approvals db' = sql_update g f (approvals db)
     \<and> (\<forall>x. same_decision x (f x)) \<and> (\<exists>a. oc = Taken False a (f r)) \<and> consumed_at (f r) \<noteq> None
     \<and> content_hash r = Some (cp_hash p) \<and> ap_agent r = principal p \<and> ap_tenant r = cp_tenant p
     \<and> (send \<longrightarrow> used_at (f r) \<noteq> None \<and> used_ref (f r) = cp_ref p)"

definition writes_use :: "consume_params \<Rightarrow> bool \<Rightarrow> outcome \<Rightarrow> approval_db \<Rightarrow> approval_db \<Rightarrow> bool" where
  "writes_use p send oc db db' \<longleftrightarrow>
     approvals db' = approvals db \<and> (\<forall>a r. oc \<noteq> Taken False a r) \<or> (\<exists>r g f. spends p send oc db db' r g f)"

lemma writes_useE:
  assumes "writes_use p send oc db db'"
  obtains (kept) "approvals db' = approvals db" "\<forall>a r. oc \<noteq> Taken False a r" | (spent) r g f where "spends p send oc db db' r g f"
  using assms unfolding writes_use_def by blast

lemma writes_kept: "approvals db' = approvals db \<Longrightarrow> \<forall>a r. oc \<noteq> Taken False a r \<Longrightarrow> writes_use p send oc db db'"
  by (simp add: writes_use_def)

lemma writes_spent: "spends p send oc db db' r g f \<Longrightarrow> writes_use p send oc db db'"
  unfolding writes_use_def by blast

lemma writes_taken:
  assumes "distinct (map ap_id (approvals db))" "useUpApproval i p now (cp_ref p) send db = (True, d1)" "taken i p now send d1 = (oc, db')"
  shows "writes_use p send oc db db'"
proof -
  from taken_form [OF assms] obtain r where *: "r \<in> set (approvals db)" "usable i p now r"
    "oc = Taken False False (consume_row p now (cp_ref p) send r)"
    "approvals db' = sql_update (usable i p now) (consume_row p now (cp_ref p) send) (approvals db)" by metis
  then have "content_hash r = Some (cp_hash p)" "ap_agent r = principal p" "ap_tenant r = cp_tenant p" by (simp_all add: usable_def)
  with * same_decision_use(1) show ?thesis 
    by (intro writes_spent [of p send oc db db' r "usable i p now" "consume_row p now (cp_ref p) send"]) (auto simp: spends_def)
qed

lemma writes_consume:
  assumes "distinct (map ap_id (approvals db))" "consumeApproval i p now db = (oc, db')"
  shows "writes_use p False oc db db'"
proof (cases "useUpApproval i p now (cp_ref p) False db")
  case (Pair hit d1)
  show ?thesis
  proof (cases "isContentHash (JStr (cp_hash p)) \<and> hit")
    case True
    with Pair assms show ?thesis by (auto simp: consumeApproval_def intro: writes_taken)
  next
    case False
    have no: "\<forall>a r. classify_consume i p now (approvals db) \<noteq> Taken False a r"
      by (auto simp: classify_consume_def split: option.splits if_splits)
    have "consumeApproval i p now db = (case classify_consume i p now (approvals db) of
             RefusedUse why (Some r) \<Rightarrow> (RefusedUse why (Some r), journalConsumeRefusal now p r why db)
           | oc \<Rightarrow> (oc, db))" using False Pair by (auto simp: consumeApproval_def simp del: isContentHash.simps)
    with no assms(2) have "approvals db' = approvals db \<and> (\<forall>a r. oc \<noteq> Taken False a r)"
      by (auto split: outcome.splits option.splits)
    then show ?thesis by (blast intro: writes_kept)
  qed
qed

lemma writes_claim:
  assumes d: "distinct (map ap_id (approvals db))" and c: "claimApproval p cat m now db = (oc, db')"
  shows "writes_use p (m = Send) oc db db'"
  using c
proof (cases rule: claim_cases)
  case adopt
  from adopt_form [OF d adopt(4)] obtain k where k: "k \<in> set (approvals db)"
    "adoptable (ap_id k) p cat (now - min (window_s p) SEND_ADOPT_WINDOW_S) k" "oc = Taken False True (sealed now (cp_ref p) k)"
    "approvals db' = sql_update (adoptable (ap_id k) p cat (now - min (window_s p) SEND_ADOPT_WINDOW_S))
       (sealed now (cp_ref p)) (approvals db)" by metis
  then have "content_hash k = Some (cp_hash p)" "ap_agent k = principal p" "ap_tenant k = cp_tenant p" "consumed_at k \<noteq> None"
    by (auto simp: adoptable_def since_Some)
  with k same_decision_use(2) show ?thesis 
    by (intro writes_spent [of p "m = Send" oc db db' k "adoptable (ap_id k) p cat (now - min (window_s p) SEND_ADOPT_WINDOW_S)"
        "sealed now (cp_ref p)"]) (auto simp: spends_def)
next
  case fresh
  from fresh_form [OF fresh(4)] show ?thesis using writes_taken [OF d] by metis
next
  case replay
  then show ?thesis by (intro writes_kept) (auto simp: claim_replay_def split: claim_mode.splits if_splits)
next
  case unusable
  then show ?thesis by (intro writes_kept) (auto simp: classify_claim_def split: option.splits)
qed (auto intro: writes_kept)

text \<open>The row of a replayed answer is stored, spent and the caller's.\<close>

definition replays_use :: "consume_params \<Rightarrow> outcome \<Rightarrow> approval_db \<Rightarrow> bool" where
  "replays_use p oc db \<longleftrightarrow> (\<forall>a r. oc = Taken True a r \<longrightarrow> r \<in> set (approvals db) \<and> content_hash r = Some (cp_hash p)
     \<and> ap_agent r = principal p \<and> ap_tenant r = cp_tenant p \<and> (consumed_at r \<noteq> None \<or> used_at r \<noteq> None))"

lemma consume_replayed:
  assumes "consumeApproval i p now db = (Taken True a r, db')"
  shows "classify_consume i p now (approvals db) = Taken True a r"
proof (cases "useUpApproval i p now (cp_ref p) False db")
  case (Pair hit d1)
  show ?thesis
  proof (cases "isContentHash (JStr (cp_hash p)) \<and> hit")
    case True
    with Pair assms have "taken i p now False d1 = (Taken True a r, db')" by (simp add: consumeApproval_def)
    then show ?thesis by (auto simp: taken_def Let_def split: option.splits)
  next
    case False
    then have "consumeApproval i p now db = (case classify_consume i p now (approvals db) of
             RefusedUse why (Some r) \<Rightarrow> (RefusedUse why (Some r), journalConsumeRefusal now p r why db)
           | oc \<Rightarrow> (oc, db))" using Pair by (auto simp: consumeApproval_def simp del: isContentHash.simps)
    with assms show ?thesis by (simp split: outcome.splits option.splits)
  qed
qed

lemma replays_consume:
  assumes "consumeApproval i p now db = (oc, db')"
  shows "replays_use p oc db"
  unfolding replays_use_def
proof (intro allI impI)
  fix a r
  assume "oc = Taken True a r"
  with assms consume_replayed have "classify_consume i p now (approvals db) = Taken True a r" by blast
  then have "getApproval i (approvals db) = Some r \<and> ap_tenant r = cp_tenant p \<and> ap_agent r = principal p \<and> isReplay r p now"
    by (auto simp: classify_consume_def split: option.splits if_splits)
  moreover from this have "r \<in> set (approvals db)" using getApproval_Some by blast
  ultimately show "r \<in> set (approvals db) \<and> content_hash r = Some (cp_hash p)
     \<and> ap_agent r = principal p \<and> ap_tenant r = cp_tenant p \<and> (consumed_at r \<noteq> None \<or> used_at r \<noteq> None)"
    by (auto simp: isReplay_def split: option.splits)
qed

lemma replays_claim:
  assumes d: "distinct (map ap_id (approvals db))" and "claimApproval p cat m now db = (oc, db')"
  shows "replays_use p oc db"
  using assms(2)
proof (cases rule: claim_cases)
  case replay
  then show ?thesis
    by (auto simp: replays_use_def claim_replay_def in_scope_def since_Some split: claim_mode.splits if_splits dest!: newest_SomeD)
next
  case adopt
  from adopt_form [OF d adopt(4)] show ?thesis by (metis outcome.inject(1) replays_use_def)
next
  case fresh
  from fresh_form [OF fresh(4)] taken_form [OF d] show ?thesis by (metis outcome.inject(1) replays_use_def)
next
  case unusable
  then show ?thesis by (auto simp: replays_use_def classify_claim_def split: option.splits)
qed (auto simp: replays_use_def)

section \<open>Deciding\<close>

lemma human_gate_decides:
  assumes "human_gate srv auth ck (Some r) who0 now db = (Some (who, v), d1)" "as_enforce srv" "isHumanOnlyApproval srv r"
  obtains u where "humanSessionOf (as_env srv) ck = Some u" "who = human_resolver u" "v = Some DashboardSession"
  using assms by (auto simp: human_gate_def Let_def split: option.splits)

lemma decision_guard_None:
  assumes "decision_guard auth ctx (Some r) who = None"
  shows "\<not> sameAgentIdent who (ap_agent r)"
    "is_session auth \<Longrightarrow> ctx_role ctx \<noteq> Some Admin \<Longrightarrow> ctx_tenant ctx = Some (Some (ap_tenant r))"
  using assms by (auto simp: decision_guard_def split: if_splits option.splits list.splits)

lemma resolve_lookup:
  assumes "resolveApproval i st who msg v now db = (b, db')"
  shows "getApproval j (approvals db') = map_option (\<lambda>r. if resolvable i st now r
     then r\<lparr>ap_status := st, resolved_at := Some now, resolved_by := Some who,
            telegram_message_id := (case msg of Some m \<Rightarrow> Some m | None \<Rightarrow> telegram_message_id r), resolved_via := v\<rparr>
     else r) (getApproval j (approvals db))"
  using assms by (auto simp: resolveApproval_def getApproval_update)

text \<open>
  C8: Only one who may decide decides. Whenever a PATCH changes a request, it is the one named, still pending and
  (unless it is timed out by hand) before its deadline; the caller is no fleet agent, the recorded resolver is not the
  requester under any spelling of its name, and a session that is not an administrator's works in the request's
  tenant; and with human-only enforcement on, a human-only request was decided by a live session of a global admin,
  who is recorded as the resolver.
\<close>

theorem decision_authority:
  assumes p: "patch_approval srv auth ctx ck body i now db = (rep, ns, db')"
    and n: "getApproval j (approvals db') \<noteq> getApproval j (approvals db)"
  shows "j = i \<and> ctx_role ctx \<noteq> Some FleetAgent
    \<and> (\<exists>r s who. getApproval i (approvals db) = Some r \<and> getApproval i (approvals db') = Some s
        \<and> ap_status r = Pending \<and> ap_status s \<noteq> Pending
        \<and> (ap_status s \<noteq> TimedOut \<longrightarrow> (\<forall>t. timeout_at r = Some t \<longrightarrow> now < t))
        \<and> resolved_by s = Some who \<and> \<not> sameAgentIdent who (ap_agent r)
        \<and> (is_session auth \<and> ctx_role ctx \<noteq> Some Admin \<longrightarrow> ctx_tenant ctx = Some (Some (ap_tenant r)))
        \<and> (as_enforce srv \<and> isHumanOnlyApproval srv r \<longrightarrow>
             (\<exists>u. humanSessionOf (as_env srv) ck = Some u \<and> who = human_resolver u \<and> resolved_via s = Some DashboardSession)))"
  using p
proof (cases rule: patch_cases [where w = 0])
  case refused
  with n show ?thesis by simp
next
  case (decided b st who0 who v d1 msg)
  from decided(7) obtain hit where res: "resolveApproval i st who msg v now d1 = (hit, db')" using decide_resolves by blast
  have rows: "approvals d1 = approvals db" by (rule human_gate_runs(2) [OF decided(5)])
  from n obtain r where r: "getApproval j (approvals db) = Some r" "resolvable i st now r"
    unfolding resolve_lookup [OF res] rows by (cases "getApproval j (approvals db)") (auto split: if_splits)
  with getApproval_Some [OF r(1)] have j: "j = i" by (simp add: resolvable_def)
  with r have g: "getApproval i (approvals db) = Some r" by simp
  let ?s = "r\<lparr>ap_status := st, resolved_at := Some now, resolved_by := Some who,
      telegram_message_id := (case msg of Some m \<Rightarrow> Some m | None \<Rightarrow> telegram_message_id r), resolved_via := v\<rparr>"
  have s: "getApproval i (approvals db') = Some ?s" using resolve_lookup [OF res, of i] rows g r(2) by simp
  note guard = decision_guard_None [OF decided(6) [unfolded g]]
  have human: "\<exists>u. humanSessionOf (as_env srv) ck = Some u \<and> who = human_resolver u \<and> v = Some DashboardSession"
    if "as_enforce srv" "isHumanOnlyApproval srv r"
    using human_gate_decides [OF decided(5) [unfolded g] that] by blast
  have st: "st \<noteq> Pending" by (rule asked_status_decided [OF decided(3)])
  have "ap_status r = Pending \<and> (st \<noteq> TimedOut \<longrightarrow> (\<forall>t. timeout_at r = Some t \<longrightarrow> now < t))"
    using r(2) by (auto simp: resolvable_def)
  with g s j decided(1) guard human st show ?thesis by auto
qed

section \<open>The mail that is approved is the mail that is sent\<close>

text \<open>What every stored email request satisfies under enforcement.\<close>

definition mail_row_ok :: "approval_server \<Rightarrow> approval \<Rightarrow> bool" where
  "mail_row_ok srv r \<longleftrightarrow> (ap_category r = EMAIL_SEND_CATEGORY \<longrightarrow>
     human_only r \<and> ap_agent r = as_main srv
   \<and> (\<exists>e. ap_payload r = Some (canonicalJson e) \<and> content_hash r = Some (hashCanon (as_sha srv) (canonicalJson e))
        \<and> ap_description r = describeEmail e (hashCanon (as_sha srv) (canonicalJson e))
        \<and> e_agent e = ap_agent r \<and> e_html e = None)
   \<and> (ap_status r \<in> {Approved, Rejected} \<longrightarrow>
        (\<exists>u. resolved_by r = Some (human_resolver u)) \<and> resolved_via r = Some DashboardSession))"

lemma mail_row_same: "same_decision r s \<Longrightarrow> mail_row_ok srv s \<longleftrightarrow> mail_row_ok srv r"
  by (simp add: same_decision_def mail_row_ok_def)

lemma mail_row_config: "same_config a b \<Longrightarrow> mail_row_ok a r \<longleftrightarrow> mail_row_ok b r"
  by (simp add: same_config_def mail_row_ok_def)

lemma envelope_agent:
  assumes "parseEmailEnvelope v a = EnvelopeOk e"
  shows "e_agent e = a"
proof -
  from assms obtain ps where "v = JObj ps" by (cases v) auto
  with assms show ?thesis
    by (auto simp: parseEmailEnvelope_Ok optional_parts_Ok simp del: js_prop.simps parseEmailEnvelope.simps)
qed

lemma check_email_ok:
  assumes "check_email srv q = Inr e"
  shows "q_agent q = as_main srv \<and> e_agent e = q_agent q \<and> e_html e = None"
proof -
  from assms obtain v where "parseEmailEnvelope v (q_agent q) = EnvelopeOk e" "q_agent q = as_main srv" "e_html e = None"
    by (auto simp: check_email_def simp del: parseEmailEnvelope.simps split: if_splits option.splits envelope_result.splits)
  with envelope_agent show ?thesis by blast
qed

text \<open>No other request is stored under the category of mail.\<close>

lemma email_plain: "js_lower (js_trim (stripInvisible EMAIL_SEND_CATEGORY)) = EMAIL_SEND_CATEGORY"
  by (simp add: EMAIL_SEND_CATEGORY_def stripInvisible_def INVISIBLE_RANGES_def js_trim_def js_lower_def is_ws_def lower_char_def code_def)

lemma email_normal: "nfkc EMAIL_SEND_CATEGORY = EMAIL_SEND_CATEGORY \<Longrightarrow> normalize_name nfkc EMAIL_SEND_CATEGORY = EMAIL_SEND_CATEGORY"
  by (simp add: normalize_name_def email_plain)

lemma checkCategory_email:
  assumes "checkCategory nfkc keys raw = CategoryOk EMAIL_SEND_CATEGORY" "nfkc EMAIL_SEND_CATEGORY = EMAIL_SEND_CATEGORY"
  shows "isEmailSendCategory nfkc raw"
proof -
  from assms have "raw = EMAIL_SEND_CATEGORY \<or> normalize_name nfkc raw = EMAIL_SEND_CATEGORY"
    by (auto simp: checkCategory_def Let_def split: if_splits option.splits)
  with assms(2) email_normal show ?thesis by (auto simp: isEmailSendCategory_def)
qed

lemma check_fields_email: "check_fields srv b = Inr q \<Longrightarrow> q_email q = isEmailSendCategory (as_nfkc srv) (str_of (js_prop b ''category''))"
  by (auto simp: check_fields_def Let_def split: option.splits if_splits)

lemma check_identity_kept:
  assumes "check_identity srv auth ctx b q0 = Inr q"
  shows "q_email q = q_email q0" "q_tenant q = request_tenant ctx q0"
    "q_agent q = (case agentBoundAdminId auth ctx of Some a \<Rightarrow> a | None \<Rightarrow> q_agent q0)"
    "callerMayActAs ctx (q_agent q0)" "q_timeout q = q_timeout q0"
    "as_enforce srv \<Longrightarrow> checkCategory (as_nfkc srv) (humanOnlyKeysNow (as_marked srv)) (str_of (js_prop b ''category'')) = CategoryOk (q_category q)"
  using assms by (auto simp: check_identity_def Let_def split: if_splits category_check.splits)

lemma created_row: "createApproval c now db = Some (r, db') \<Longrightarrow> r = pendingApproval c now \<and> approvals db' = approvals db @ [r]"
  by (auto simp: createApproval_def Let_def split: if_splits)

lemma once_opened:
  "createApprovalOnce c h n now db = (oc, db') \<Longrightarrow> approvals db' = approvals db
     \<or> (\<exists>r. oc = Opened r \<and> r = pendingApproval (c\<lparr>cr_hash := Some h\<rparr>) now \<and> approvals db' = approvals db @ [r])"
  by (auto simp: createApprovalOnce_def Let_def split: if_splits option.splits dest!: created_row)

text \<open>What a POST stores, if anything: the row is new, and this is how it is made.\<close>

lemma post_new_row:
  assumes "post_approval srv auth ctx body i now db = (rep, ns, db')"
  obtains "approvals db' = approvals db"
  | b q0 q r where "body = Some b" "check_fields srv b = Inr q0" "check_identity srv auth ctx b q0 = Inr q"
      "is_session auth \<longrightarrow> ctx_role ctx = Some Admin" "approvals db' = approvals db @ [r]" "rep = Answer 201 r"
      "if q_email q
       then (\<exists>e. check_email srv q = Inr e \<and> r = pendingApproval
             \<lparr>cr_id = i, cr_agent = q_agent q, cr_category = EMAIL_SEND_CATEGORY,
              cr_description = describeEmail e (hashCanon (as_sha srv) (canonicalJson e)),
              cr_payload = Some (canonicalJson e), cr_timeout_at = Some (getTimeoutAt srv now EMAIL_SEND_CATEGORY (q_timeout q)),
              cr_tenant = q_tenant q, cr_human_only = True, cr_hash = Some (hashCanon (as_sha srv) (canonicalJson e))\<rparr> now)
       else r = pendingApproval
             \<lparr>cr_id = i, cr_agent = q_agent q, cr_category = q_category q, cr_description = q_description q,
              cr_payload = q_payload q, cr_timeout_at = Some (getTimeoutAt srv now (q_category q) (q_timeout q)),
              cr_tenant = q_tenant q, cr_human_only = isHumanOnly (as_nfkc srv) (as_marked srv) (q_category q),
              cr_hash = Some (approvalContentHash srv (q_category q) (q_agent q) (or_default (q_tenant q)) (q_description q) (q_payload q))\<rparr> now"
  using assms
proof (cases rule: run_post_cases)
  case 1
  with that(1) show thesis by simp
next
  case (2 b q0 q)
  show thesis
  proof (cases "q_email q")
    case True
    with 2(6) have "create_email srv q i now db = (rep, ns, db')" by simp
    then show thesis
    proof (cases rule: run_create_email)
      case 1
      with that(1) show thesis by simp
    next
      case (2 e oc d1)
      from once_opened [OF 2(2)] show thesis
      proof
        assume "approvals d1 = approvals db"
        moreover from this 2(2,3) have "approvals db' = approvals d1"
          by (cases oc) (auto dest: run_notify(2) simp: createApprovalOnce_def Let_def
              split: if_splits option.splits dest!: created_row)
        ultimately show thesis using that(1) by simp
      next
        assume "\<exists>r. oc = Opened r \<and> r = pendingApproval (\<lparr>cr_id = i, cr_agent = q_agent q, cr_category = EMAIL_SEND_CATEGORY,
              cr_description = describeEmail e (hashCanon (as_sha srv) (canonicalJson e)),
              cr_payload = Some (canonicalJson e), cr_timeout_at = Some (getTimeoutAt srv now EMAIL_SEND_CATEGORY (q_timeout q)),
              cr_tenant = q_tenant q, cr_human_only = True, cr_hash = None\<rparr>
                \<lparr>cr_hash := Some (hashCanon (as_sha srv) (canonicalJson e))\<rparr>) now \<and> approvals d1 = approvals db @ [r]"
        then obtain r where r: "oc = Opened r" "approvals d1 = approvals db @ [r]" and f: "r = pendingApproval
             \<lparr>cr_id = i, cr_agent = q_agent q, cr_category = EMAIL_SEND_CATEGORY,
              cr_description = describeEmail e (hashCanon (as_sha srv) (canonicalJson e)),
              cr_payload = Some (canonicalJson e), cr_timeout_at = Some (getTimeoutAt srv now EMAIL_SEND_CATEGORY (q_timeout q)),
              cr_tenant = q_tenant q, cr_human_only = True, cr_hash = Some (hashCanon (as_sha srv) (canonicalJson e))\<rparr> now" by auto
        with 2(3) have "approvals db' = approvals db @ [r]" "rep = Answer 201 r" by (auto dest: run_notify(2))
        with f 2(1) True \<open>body = Some b\<close> \<open>check_fields srv b = Inr q0\<close> \<open>check_identity srv auth ctx b q0 = Inr q\<close>
          \<open>is_session auth \<longrightarrow> ctx_role ctx = Some Admin\<close> that(2) show thesis by simp
      qed
    qed
  next
    case False
    with 2(6) have "create_plain srv q i now db = (rep, ns, db')" by simp
    then show thesis
    proof (cases rule: run_create_plain)
      case 1
      with that(1) show thesis by simp
    next
      case (2 r d1)
      note row = created_row [OF 2(1)]
      with 2(2) have "approvals db' = approvals db @ [r]" by (auto dest: run_notify(2))
      with row 2(3) False \<open>body = Some b\<close> \<open>check_fields srv b = Inr q0\<close> \<open>check_identity srv auth ctx b q0 = Inr q\<close>
          \<open>is_session auth \<longrightarrow> ctx_role ctx = Some Admin\<close> that(2) show thesis by simp
    qed
  qed
qed

lemma mail_row_update:
  assumes "approvals db' = sql_update g f (approvals db)" "\<And>r. r \<in> set (approvals db) \<Longrightarrow> mail_row_ok srv r"
    and "\<And>r. r \<in> set (approvals db) \<Longrightarrow> g r \<Longrightarrow> mail_row_ok srv r \<Longrightarrow> mail_row_ok srv (f r)"
  shows "s \<in> set (approvals db') \<Longrightarrow> mail_row_ok srv s"
  using assms by (auto simp: sql_update_def)

lemma mail_post:
  assumes "same_config srv s" "as_enforce srv" "as_nfkc srv EMAIL_SEND_CATEGORY = EMAIL_SEND_CATEGORY"
    and "post_approval s auth ctx body i now db = (rep, ns, db')" "r \<in> set (approvals db')" "r \<notin> set (approvals db)"
  shows "mail_row_ok srv r"
  using assms(4)
proof (cases rule: post_new_row)
  case (2 b q0 q r')
  from 2(5) assms(5,6) have r': "r' = r" by auto
  have cfg: "as_enforce s" "as_nfkc s = as_nfkc srv" "as_main s = as_main srv" "as_sha s = as_sha srv"
    using assms(1,2) by (simp_all add: same_config_def)
  show ?thesis
  proof (cases "q_email q")
    case True
    with 2(7) r' obtain e where e: "check_email s q = Inr e" "r = pendingApproval
             \<lparr>cr_id = i, cr_agent = q_agent q, cr_category = EMAIL_SEND_CATEGORY,
              cr_description = describeEmail e (hashCanon (as_sha s) (canonicalJson e)),
              cr_payload = Some (canonicalJson e), cr_timeout_at = Some (getTimeoutAt s now EMAIL_SEND_CATEGORY (q_timeout q)),
              cr_tenant = q_tenant q, cr_human_only = True, cr_hash = Some (hashCanon (as_sha s) (canonicalJson e))\<rparr> now" by auto
    with check_email_ok [OF e(1)] cfg show ?thesis
      by (auto simp: mail_row_ok_def pendingApproval_def)
  next
    case False
    with 2(7) r' have "ap_category r = q_category q" by (simp add: pendingApproval_def)
    moreover have "q_category q \<noteq> EMAIL_SEND_CATEGORY"
    proof
      assume "q_category q = EMAIL_SEND_CATEGORY"
      with check_identity_kept(6) [OF 2(3)] cfg assms(3) checkCategory_email
      have "isEmailSendCategory (as_nfkc s) (str_of (js_prop b ''category''))" by metis
      with False check_fields_email [OF 2(2)] check_identity_kept(1) [OF 2(3)] show False by simp
    qed
    ultimately show ?thesis by (simp add: mail_row_ok_def)
  qed
qed (use assms in simp)

lemma post_keeps: "post_approval s auth ctx body i now db = (rep, ns, db') \<Longrightarrow> set (approvals db) \<subseteq> set (approvals db')"
  by (erule post_new_row) auto

lemma mail_patch:
  assumes "same_config srv s" "as_enforce srv" "distinct (map ap_id (approvals db))"
    and "patch_approval s auth ctx ck body i now db = (rep, ns, db')"
    and ok: "\<And>r. r \<in> set (approvals db) \<Longrightarrow> mail_row_ok srv r"
  shows "r \<in> set (approvals db') \<Longrightarrow> mail_row_ok srv r"
  using assms(4)
proof (cases rule: patch_cases [where w = 0])
  case refused
  then show "r \<in> set (approvals db') \<Longrightarrow> mail_row_ok srv r" using ok by simp
next
  case (decided b st who0 who v d1 msg)
  from decided(7) obtain hit where res: "resolveApproval i st who msg v now d1 = (hit, db')" using decide_resolves by blast
  have enf: "as_enforce s" using assms(1,2) by (simp add: same_config_def)
  assume r: "r \<in> set (approvals db')"
  show "mail_row_ok srv r"
  proof (rule mail_row_update [OF _ ok _ r])
    show "approvals db' = sql_update (resolvable i st now)
           (\<lambda>r. r\<lparr>ap_status := st, resolved_at := Some now, resolved_by := Some who,
                  telegram_message_id := (case msg of Some m \<Rightarrow> Some m | None \<Rightarrow> telegram_message_id r),
                  resolved_via := v\<rparr>) (approvals db)"
      using res human_gate_runs(2) [OF decided(5)] by (auto simp: resolveApproval_def)
    show "mail_row_ok srv (x\<lparr>ap_status := st, resolved_at := Some now, resolved_by := Some who,
                  telegram_message_id := (case msg of Some m \<Rightarrow> Some m | None \<Rightarrow> telegram_message_id x),
                  resolved_via := v\<rparr>)" if x: "x \<in> set (approvals db)" "resolvable i st now x" "mail_row_ok srv x" for x
    proof (cases "human_only x")
      case True
      from x have "getApproval i (approvals db) = Some x" using getApproval_unique [OF assms(3) x(1)] by (simp add: resolvable_def)
      with human_gate_decides decided(5) enf True obtain u where "who = human_resolver u" "v = Some DashboardSession"
        by (metis isHumanOnlyApproval_def)
      with x(3) show ?thesis by (auto simp: mail_row_ok_def)
    next
      case False
      with x(3) show ?thesis by (auto simp: mail_row_ok_def)
    qed
  qed
qed

lemma asked_writes:
  assumes "distinct (map ap_id (approvals db))" "(case io of Some i \<Rightarrow> consumeApproval i p now db
        | None \<Rightarrow> claimApproval p cat (if send then Send else Gate) now db) = (oc, db')"
  shows "writes_use p (io = None \<and> send) oc db db'" "replays_use p oc db"
  using assms writes_consume [OF assms(1)] replays_consume writes_claim [OF assms(1)] replays_claim [OF assms(1)]
  by (cases io; cases send; fastforce)+

lemma use_writes_row:
  assumes "use_approval s ctx io body now db = (rep, db')" "distinct (map ap_id (approvals db))"
  obtains "approvals db' = approvals db" | g f where "approvals db' = sql_update g f (approvals db)" "\<And>x. same_decision x (f x)"
  using assms(1)
proof (cases rule: use_cases)
  case unused
  with that(1) show thesis by simp
next
  case (asked who u key p oc)
  from asked_writes(1) [OF assms(2) asked(5)] show thesis
  proof (cases rule: writes_useE)
    case (spent r g f)
    with that(2) [of g f] show thesis by (simp add: spends_def)
  qed (rule that(1))
qed

lemma mail_rows:
  assumes "api_reach srv db" "as_enforce srv" "0 \<le> as_window srv" "as_nfkc srv EMAIL_SEND_CATEGORY = EMAIL_SEND_CATEGORY"
  shows "r \<in> set (approvals db) \<Longrightarrow> mail_row_ok srv r"
  using assms(1)
proof (induction arbitrary: r rule: api_reach.induct)
  case no_requests
  then show ?case by simp
next
  case (served db db')
  have d: "distinct (map ap_id (approvals db))"
    using reach_ok [OF api_reach_reach [OF served(1)] assms(3)] by (simp add: db_ok_def)
  from served(2) show ?case
  proof cases
    case (post s auth ctx body i now rep ns)
    show ?thesis
      using mail_post [OF post(1) assms(2,4) post(2) served(4)] served(3) by blast
  next
    case (patch s auth ctx ck body i now rep ns)
    show ?thesis by (rule mail_patch [OF patch(1) assms(2) d patch(2) served(3) served(4)])
  next
    case (use_up s ctx io body now rep)
    from use_up(2) d show ?thesis
    proof (rule use_writes_row)
      fix g f
      assume rows: "approvals db' = sql_update g f (approvals db)" and f: "\<And>x. same_decision x (f x)"
      show ?thesis by (rule mail_row_update [OF rows served(3) _ served(4)]) (simp_all add: mail_row_same [OF f])
    qed (use served in simp)
  next
    case (sweep now n)
    then have rows: "approvals db' = sql_update (overdue now)
         (\<lambda>r. r\<lparr>ap_status := TimedOut, resolved_at := Some now, resolved_by := Some ''system:timeout''\<rparr>) (approvals db)"
      by (auto simp: expireTimedOutApprovals_def)
    show ?thesis by (rule mail_row_update [OF rows served(3) _ served(4)]) (auto simp: mail_row_ok_def)
  next
    case unreached
    with served show ?thesis by simp
  qed
next
  case (kept_up db db')
  then show ?case using upkeep_rows [OF kept_up(2)] by auto
qed

text \<open>
  C4: Under enforcement every stored email request is a person's: it is marked human-only, the main agent's, its
  payload is the canonical text of one mail without an HTML part, whose hash and description the server made itself,
  and if it is decided, a named person's session decided it. No call of any route, by anybody, breaks this.
\<close>

theorem mail_requests_bound:
  assumes "api_reach srv db" "as_enforce srv" "0 \<le> as_window srv" "as_nfkc srv EMAIL_SEND_CATEGORY = EMAIL_SEND_CATEGORY"
    and "r \<in> set (approvals db)" "ap_category r = EMAIL_SEND_CATEGORY"
  shows "human_only r \<and> ap_agent r = as_main srv
   \<and> (\<exists>e. ap_payload r = Some (canonicalJson e) \<and> content_hash r = Some (hashCanon (as_sha srv) (canonicalJson e))
        \<and> ap_description r = describeEmail e (hashCanon (as_sha srv) (canonicalJson e))
        \<and> e_agent e = ap_agent r \<and> e_html e = None)
   \<and> (ap_status r \<in> {Approved, Rejected} \<longrightarrow>
        (\<exists>u. resolved_by r = Some (human_resolver u)) \<and> resolved_via r = Some DashboardSession)"
  using mail_rows [OF assms(1-4) assms(5)] assms(6) unfolding mail_row_ok_def by blast

section \<open>The signed answer\<close>

lemma use_body_ref: "readUseBody n body = Inr u \<Longrightarrow> ub_send u \<Longrightarrow> n \<and> ub_ref u \<noteq> None"
  by (auto simp: readUseBody_def use_mode_def Let_def split: option.splits jsval.splits if_splits sum.splits)

lemma use_body_hash:
  "readUseBody n body = Inr u \<Longrightarrow> \<exists>b. body = Some b \<and> isContentHash (js_prop b ''content_hash'') \<and> ub_hash u = str_of (js_prop b ''content_hash'')"
  by (auto simp: readUseBody_def Let_def simp del: js_prop.simps split: option.splits jsval.splits if_splits sum.splits)

lemma use_reply_signed: "use_reply key send oc = Signed r b a sig \<Longrightarrow> \<exists>a'. oc = Taken b a' r"
  by (auto simp: use_reply_def sign_use_def split: outcome.splits option.splits if_splits)

text \<open>A valid signature on the use of a row: the gate's text or the sender's.\<close>

definition signature_of :: "(string \<Rightarrow> string) \<Rightarrow> approval \<Rightarrow> string \<Rightarrow> bool" where
  "signature_of key r sig \<longleftrightarrow> (\<exists>c h. consumed_at r = Some c \<and> content_hash r = Some h
     \<and> (sig = key (claimSignatureInput h (ap_category r) (ap_agent r) (consumed_ref r) c)
        \<or> (\<exists>ref t. used_ref r = Some ref \<and> used_at r = Some t
             \<and> sig = key (useSignatureInput h (ap_category r) (ap_agent r) ref c t))))"

lemma sign_use_ok:
  assumes "consumed_at r \<noteq> None" "content_hash r = Some h" "send \<Longrightarrow> used_at r \<noteq> None \<and> used_ref r \<noteq> None"
  shows "\<exists>a' sig. sign_use key send b a r = Signed r b a' sig \<and> signature_of key r sig"
  using assms by (cases send) (auto simp: sign_use_def signature_of_def)

text \<open>
  No approval is spent on an answer that could not be signed: without the key nothing is written at all, and
  whenever a call changes a row its answer is the signed success for that row, never an error.
\<close>

theorem spent_only_when_signed:
  assumes "api_reach srv db" "0 \<le> as_window srv" "use_approval s ctx io body now db = (rep, db')"
  shows "(as_hmac s = None \<longrightarrow> db' = db)
    \<and> (approvals db' \<noteq> approvals db \<longrightarrow> (\<exists>r a sig key. rep = Signed r False a sig \<and> r \<in> set (approvals db')
         \<and> as_hmac s = Some key \<and> signature_of key r sig))"
proof -
  have d: "distinct (map ap_id (approvals db))"
    using reach_ok [OF api_reach_reach [OF assms(1)] assms(2)] by (simp add: db_ok_def)
  from assms(3) show ?thesis
  proof (cases rule: use_cases)
    case unused
    then show ?thesis by simp
  next
    case (asked who u key p oc)
    from asked_writes(1) [OF d asked(5)] show ?thesis
    proof (cases rule: writes_useE)
      case kept
      with asked(3) show ?thesis by simp
    next
      case (spent r g f)
      then obtain a where a: "oc = Taken False a (f r)" and mem: "f r \<in> set (approvals db')"
        and h: "consumed_at (f r) \<noteq> None" "content_hash (f r) = Some (cp_hash p)"
        by (auto simp: spends_def sql_update_def same_decision_def)
      have "ub_send u \<Longrightarrow> used_at (f r) \<noteq> None \<and> used_ref (f r) \<noteq> None"
        using use_body_ref [OF asked(2)] spent asked(4) by (auto simp: spends_def)
      from sign_use_ok [where send = "ub_send u", OF h this, of key False a] obtain a' sig where
        "rep = Signed (f r) False a' sig" "signature_of key (f r) sig"
        unfolding asked(6) a by (auto simp: use_reply_def)
      with mem asked(3) show ?thesis by auto
    qed
  qed
qed

text \<open>
  C1: With human-only enforcement on (the switch \<open>APPROVAL_HUMAN_ONLY_ENFORCE\<close>, which is off by default), the mail that is sent
  is the mail a person approved. If a claim for the hash of a mail \<open>m\<close> is answered with a signature and the request it
  spends is an email request, and if the Unicode normaliser leaves the name of that category alone and no other stored text
  has the hash of \<open>m\<close>, then the request holds exactly \<open>m\<close>, was shown as the description of \<open>m\<close>, belongs to the main agent
  that \<open>m\<close> names, and was approved before its deadline in a named person's dashboard session, no longer ago than the
  window when it was spent.
\<close>

theorem approved_mail_is_sent_mail:
  assumes "api_reach srv db" "as_enforce srv" "0 \<le> as_window srv" "as_nfkc srv EMAIL_SEND_CATEGORY = EMAIL_SEND_CATEGORY"
    and "same_config srv s" "use_approval s ctx io body now db = (Signed r replayed adopted sig, db')"
    and "ap_category r = EMAIL_SEND_CATEGORY"
    and "body = Some b" "js_prop b ''content_hash'' = JStr (hashCanon (as_sha srv) (canonicalJson m))"
    and "\<And>t x. x \<in> set (approvals db) \<Longrightarrow> ap_payload x = Some t \<Longrightarrow>
           hashCanon (as_sha srv) t = hashCanon (as_sha srv) (canonicalJson m) \<Longrightarrow> t = canonicalJson m"
  shows "r \<in> set (approvals db') \<and> ap_payload r = Some (canonicalJson m)
    \<and> ap_description r = describeEmail m (hashCanon (as_sha srv) (canonicalJson m)) \<and> e_html m = None
    \<and> e_agent m = as_main srv \<and> ap_agent r = as_main srv \<and> use_principal ctx = Some (as_main srv)
    \<and> ap_status r = Approved \<and> (\<exists>u. resolved_by r = Some (human_resolver u)) \<and> resolved_via r = Some DashboardSession
    \<and> (\<exists>c t. consumed_at r = Some c \<and> resolved_at r = Some t \<and> c \<le> t + as_window srv \<and> (\<forall>d. timeout_at r = Some d \<longrightarrow> t < d))"
proof -
  have ok: "db_ok (as_window srv) db" by (rule reach_ok [OF api_reach_reach [OF assms(1)] assms(3)])
  then have d: "distinct (map ap_id (approvals db))" by (simp add: db_ok_def)
  have reach: "api_reach srv db'" using assms(1) by (rule served) (rule api_step.use_up [OF assms(5,6)])
  from assms(6) show ?thesis
  proof (cases rule: use_cases)
    case (asked who u key p oc)
    from use_reply_signed [OF asked(6) [symmetric]] obtain a where oc: "oc = Taken replayed a r" by blast
    have p: "cp_hash p = hashCanon (as_sha srv) (canonicalJson m)" "principal p = who"
      using use_body_hash [OF asked(2)] assms(8,9) asked(4) by (auto simp: str_of_def)
    have mem: "r \<in> set (approvals db') \<and> content_hash r = Some (cp_hash p) \<and> ap_agent r = principal p \<and> consumed_at r \<noteq> None
        \<and> (\<exists>x\<in>set (approvals db). same_decision x r)"
      using asked_writes(1) [OF d asked(5)]
    proof (cases rule: writes_useE)
      case kept
      with oc have "oc = Taken True a r" by (cases replayed) auto
      with asked_writes(2) [OF d asked(5)] have *: "r \<in> set (approvals db)" "content_hash r = Some (cp_hash p)"
        "ap_agent r = principal p" "consumed_at r \<noteq> None \<or> used_at r \<noteq> None" by (auto simp: replays_use_def)
      have "row_ok (as_window srv) r" using ok *(1) by (rule rows_ok)
      with *(4) have "consumed_at r \<noteq> None" by (auto simp: row_ok_def since_Some)
      with * same_decision_use(3) kept(1) show ?thesis by auto
    next
      case (spent x g f)
      with oc have "r = f x" by (simp add: spends_def)
      with spent show ?thesis by (auto simp: spends_def sql_update_def same_decision_def)
    qed
    then obtain x where x: "x \<in> set (approvals db)" "same_decision x r" by blast
    from mem obtain c where c: "consumed_at r = Some c" by auto
    have "row_ok (as_window srv) r" using rows_ok [OF reach_ok [OF api_reach_reach [OF reach] assms(3)]] mem by blast
    with c have row: "ap_status r = Approved" "\<exists>t. resolved_at r = Some t \<and> c \<le> t + as_window srv \<and> (\<forall>d. timeout_at r = Some d \<longrightarrow> t < d)"
      by (auto simp: row_ok_def since_Some)
    from mail_rows [OF reach assms(2-4)] assms(7) mem row(1) obtain e who' where e:
      "ap_agent r = as_main srv" "ap_payload r = Some (canonicalJson e)" "content_hash r = Some (hashCanon (as_sha srv) (canonicalJson e))"
      "ap_description r = describeEmail e (hashCanon (as_sha srv) (canonicalJson e))" "e_agent e = ap_agent r" "e_html e = None"
      "resolved_by r = Some (human_resolver who')" "resolved_via r = Some DashboardSession"
      unfolding mail_row_ok_def by blast
    have "ap_payload x = Some (canonicalJson e)" using x(2) e(2) by (simp add: same_decision_def)
    moreover have "hashCanon (as_sha srv) (canonicalJson e) = hashCanon (as_sha srv) (canonicalJson m)" using e(3) mem p(1) by simp
    ultimately have "canonicalJson e = canonicalJson m" by (rule assms(10) [OF x(1)])
    then have "e = m" by (simp add: canonicalJson_inject)
    with e mem p asked(1) row c show ?thesis by auto
  next
    case unused
    then show ?thesis by blast
  qed
qed

section \<open>One mail, from the request to the signed answer\<close>

definition demo_mail :: envelope where
  "demo_mail = \<lparr>e_agent = ''main'', e_to = [''a@b.co''], e_cc = [], e_bcc = [], e_subject = ''hi'', e_body = ''text'',
     e_html = None, e_attachments = None, e_from = None, e_reply_to = None, e_in_reply_to = None\<rparr>"

definition demo_env :: auth_env where
  "demo_env = \<lparr>dbLookups = True, sha256 = (\<lambda>s. s), getValidApiToken = (\<lambda>_. None), apiTokenHashExists = (\<lambda>_. False),
     getServingTenant = (\<lambda>_. None), getServedTenantIds = (\<lambda>_. []),
     resolveSession = (\<lambda>s. if s = ''s1'' then Some ''owner'' else None),
     getDashboardUserAuthRow = (\<lambda>u. if u = ''owner'' then Some (Admin, None) else None),
     resolveDeviceKey = (\<lambda>_. None), getFederationConfig = None, dashboardToken = ''t''\<rparr>"

definition demo_server :: approval_server where
  "demo_server = \<lparr>as_env = demo_env, as_enforce = True, as_window = 1800, as_main = ''main'', as_sha = (\<lambda>_. replicate 64 (CHR ''a'')),
     as_nfkc = (\<lambda>s. s), as_nfc = (\<lambda>s. s),
     as_json = (\<lambda>_. Some (JObj [(''to'', JArr [JStr ''a@b.co'']), (''subject'', JStr ''hi''), (''body'', JStr ''text'')])),
     as_marked = Some [], as_minutes = (\<lambda>_. JNull), as_hmac = Some (\<lambda>s. s)\<rparr>"

definition demo_agent :: auth_result where
  "demo_agent = Token \<lparr>tok_role = Some Admin, tok_tenant = None, tok_name = Some ''main'', tok_agent = Some ''main'',
     tenantContextMissing = False, tenantInvalid = False\<rparr>"

definition demo_owner :: auth_result where
  "demo_owner = Session ''owner'' (Some Admin) (Some None)"

definition demo_asked :: approval_db where
  "demo_asked = snd (snd (post_approval demo_server demo_agent (route_identity demo_agent None ''/api/approvals'')
     (Some (JObj [(''agent_id'', JStr ''main''), (''category'', JStr ''email_send''), (''action_payload'', JStr ''mail'')])) ''m1'' 0
     \<lparr>approvals = [], ap_events = []\<rparr>))"

definition demo_granted :: approval_db where
  "demo_granted = snd (snd (patch_approval demo_server demo_owner (route_identity demo_owner None ''/api/approvals/m1'')
     (Some (SESSION_COOKIE_NAME @ ''=s1'')) (Some (JObj [(''status'', JStr ''approved'')])) ''m1'' 10 demo_asked))"

definition demo_claim :: "approval_server \<Rightarrow> approval_reply \<times> approval_db" where
  "demo_claim srv = use_approval srv (route_identity demo_agent None ''/api/approvals/claim'') None
     (Some (JObj [(''content_hash'', JStr (replicate 64 (CHR ''a''))), (''category'', JStr ''email_send''), (''ref'', JStr ''g1'')])) 20 demo_granted"

lemma demo_config: "as_enforce demo_server" "0 \<le> as_window demo_server" "as_nfkc demo_server EMAIL_SEND_CATEGORY = EMAIL_SEND_CATEGORY"
  "same_config demo_server demo_server"
  by (simp_all add: demo_server_def same_config_def)

lemma triple: "x = (fst x, fst (snd x), snd (snd x))"
  by simp

lemma demo_granted_reach: "api_reach demo_server demo_granted"
proof -
  have "api_reach demo_server demo_asked" unfolding demo_asked_def
    by (rule served [OF no_requests api_step.post [OF demo_config(4) triple]])
  then show ?thesis unfolding demo_granted_def
    by (rule served) (rule api_step.patch [OF demo_config(4) triple])
qed

lemma demo_parse:
  "parseEmailEnvelope (JObj [(''to'', JArr [JStr ''a@b.co'']), (''subject'', JStr ''hi''), (''body'', JStr ''text'')]) ''main'' = EnvelopeOk demo_mail"
  by code_simp

lemma demo_trim [simp]: "js_trim ''main'' = ''main''" "js_trim ''email_send'' = ''email_send''"
  by (simp_all add: js_trim_def is_ws_def code_def)

lemma demo_email: "isEmailSendCategory (\<lambda>s. s) ''email_send''"
  using email_normal [of "\<lambda>s. s"] by (simp add: isEmailSendCategory_def EMAIL_SEND_CATEGORY_def)

definition demo_row :: approval where
  "demo_row = pendingApproval \<lparr>cr_id = ''m1'', cr_agent = ''main'', cr_category = EMAIL_SEND_CATEGORY,
     cr_description = describeEmail demo_mail (replicate 64 (CHR ''a'')), cr_payload = Some (canonicalJson demo_mail),
     cr_timeout_at = Some 86400, cr_tenant = None, cr_human_only = True, cr_hash = Some (replicate 64 (CHR ''a''))\<rparr> 0"

lemma demo_hash [simp]: "list_all hex_char (replicate 64 (CHR ''a''))"
  by (simp add: list_all_iff hex_char_def is_digit_def code_def)

lemma demo_asked_eq: "demo_asked = \<lparr>approvals = [demo_row], ap_events = []\<rparr>"
proof -
  let ?b = "JObj [(''agent_id'', JStr ''main''), (''category'', JStr ''email_send''), (''action_payload'', JStr ''mail'')]"
  let ?ctx = "route_identity demo_agent None ''/api/approvals''"
  let ?q = "\<lparr>q_agent = ''main'', q_category = ''email_send'', q_description = [], q_payload = Some ''mail'', q_hash = None,
             q_tenant = None, q_email = True, q_timeout = JUndef\<rparr>"
  have f: "check_fields demo_server ?b = Inr ?q"
    using demo_email by (simp add: check_fields_def trimmed_def demo_server_def str_of_def)
  have bound: "agentBoundAdminId demo_agent ?ctx = Some ''main''"
    by (simp add: agentBoundAdminId_def demo_agent_def route_identity_def)
  have own: "\<not> boundToOther demo_agent ?ctx ''main''" by (simp add: boundToOther_def bound)
  have role: "ctx_role ?ctx = Some Admin" by (simp add: demo_agent_def route_identity_def)
  have i: "check_identity demo_server demo_agent ?ctx ?b ?q = Inr ?q"
    by (simp add: check_identity_def bound own role callerMayActAs_def request_tenant_def checkCategory_def str_of_def
        humanOnlyKeysNow_def HUMAN_ONLY_FLOOR_def demo_server_def List.member_iff)
  have e: "check_email demo_server ?q = Inr demo_mail"
    using demo_parse by (simp add: check_email_def demo_server_def utf8_length_def MAX_PAYLOAD_BYTES_def demo_mail_def del: parseEmailEnvelope.simps)
  have t: "getTimeoutAt demo_server 0 EMAIL_SEND_CATEGORY JUndef = 86400"
    by (simp add: getTimeoutAt_def resolveApprovalTimeoutSeconds_def demo_server_def DEFAULT_APPROVAL_TIMEOUT_MINUTES_def)
  have "as_sha demo_server (canonicalJson demo_mail) = replicate 64 (CHR ''a'')" by (simp add: demo_server_def)
  moreover have "withinOwnerNoticeAllowance 0 demo_row [demo_row]"
    by (simp add: withinOwnerNoticeAllowance_def countApprovalsRequestedSince_def MAX_EMAIL_OWNER_NOTICES_PER_HOUR_def)
  then have "snd (notifyAboutNewRequest demo_server 0 demo_row \<lparr>approvals = [demo_row], ap_events = []\<rparr>) = \<lparr>approvals = [demo_row], ap_events = []\<rparr>"
    by (simp add: notifyAboutNewRequest_def)
  ultimately have "snd (snd (create_email demo_server ?q ''m1'' 0 \<lparr>approvals = [], ap_events = []\<rparr>)) = \<lparr>approvals = [demo_row], ap_events = []\<rparr>"
    using e t by (simp add: create_email_def createApprovalOnce_def Let_def hashCanon_def newest_def
        MAX_PENDING_EMAIL_REQUESTS_def createApproval_def getApproval_def demo_row_def split: prod.splits)
  moreover have "\<not> is_session demo_agent" by (simp add: is_session_def demo_agent_def)
  ultimately show ?thesis using f i by (simp add: demo_asked_def post_approval_def)
qed


definition demo_row2 :: approval where
  "demo_row2 = demo_row\<lparr>ap_status := Approved, resolved_at := Some 10, resolved_by := Some (human_resolver ''owner''),
     telegram_message_id := None, resolved_via := Some DashboardSession\<rparr>"

lemma demo_human: "humanSessionOf demo_env (Some (SESSION_COOKIE_NAME @ ''=s1'')) = Some ''owner''"
  by code_simp

lemma demo_row_sel [simp]: "ap_id demo_row = ''m1''" "ap_status demo_row = Pending" "timeout_at demo_row = Some 86400" "human_only demo_row"
  "ap_agent demo_row = ''main''" "telegram_message_id demo_row = None"
  by (simp_all add: demo_row_def pendingApproval_def)

lemma demo_granted_eq: "demo_granted = \<lparr>approvals = [demo_row2], ap_events = []\<rparr>"
proof -
  let ?ctx = "route_identity demo_owner None ''/api/approvals/m1''"
  have g: "getApproval ''m1'' (approvals demo_asked) = Some demo_row" by (simp add: demo_asked_eq getApproval_def)
  have role: "ctx_role ?ctx = Some Admin" by (simp add: demo_owner_def route_identity_def)
  have h: "human_gate demo_server demo_owner (Some (SESSION_COOKIE_NAME @ ''=s1'')) (Some demo_row) ''owner'' 10 demo_asked
      = (Some (human_resolver ''owner'', Some DashboardSession), demo_asked)"
    using demo_human by (simp add: human_gate_def isHumanOnlyApproval_def demo_server_def)
  have "\<not> sameAgentIdent (human_resolver ''owner'') ''main''"
    by (simp add: sameAgentIdent_def human_resolver_def sanitizeAgentIdent_def ident_char_def is_word_def is_digit_def code_def js_lower_def lower_char_def)
  then have "decision_guard demo_owner ?ctx (Some demo_row) (human_resolver ''owner'') = None"
    by (simp add: decision_guard_def role)
  with g h role show ?thesis
    by (simp add: demo_granted_def patch_approval_def resolver_def demo_owner_def decide_def resolveApproval_def resolvable_def
        message_id_def changed_iff demo_row2_def demo_asked_eq getApproval_def)
qed

lemma demo_claimed:
  "demo_claim demo_server = (Signed (demo_row2\<lparr>consumed_at := Some 20, consumed_by := Some ''main'', consumed_ref := Some ''g1''\<rparr>) False False
     (claimSignatureInput (replicate 64 (CHR ''a'')) EMAIL_SEND_CATEGORY ''main'' (Some ''g1'') 20), snd (demo_claim demo_server))"
proof -
  let ?b = "JObj [(''content_hash'', JStr (replicate 64 (CHR ''a''))), (''category'', JStr ''email_send''), (''ref'', JStr ''g1'')]"
  let ?ctx = "route_identity demo_agent None ''/api/approvals/claim''"
  have p: "use_principal ?ctx = Some ''main''" "tenantOf ?ctx = ''default''"
    by (simp_all add: use_principal_def tenantOf_def demo_agent_def route_identity_def)
  let ?u = "\<lparr>ub_hash = replicate 64 (CHR ''a''), ub_category = Some ''email_send'', ub_ref = Some ''g1'', ub_consumer = None, ub_send = False\<rparr>"
  have hash: "isContentHash (JStr (replicate 64 (CHR ''a'')))" by simp
  have b: "readUseBody True (Some ?b) = Inr ?u"
    using hash by (simp add: readUseBody_def Let_def trimmed_def use_label_def use_mode_def safe_label_char_def code_def str_of_def
        MAX_REF_CHARS_def del: isContentHash.simps)
  show ?thesis
    using hash by (simp add: demo_claim_def use_approval_def p b demo_server_def demo_granted_eq claimApproval_def HUMAN_DECIDED_CATEGORY_def
        claim_replay_def newest_def in_scope_def demo_row2_def demo_row_def pendingApproval_def or_default_def EMAIL_SEND_CATEGORY_def
        claim_adopt_def claim_fresh_def useUpApproval_def changed_iff usable_def taken_def getApproval_def consume_row_def Let_def
        use_reply_def sign_use_def del: isContentHash.simps)
qed

theorem approved_mail_is_sent_mail_witness:
  "\<exists>r sig. fst (demo_claim demo_server) = Signed r False False sig \<and> ap_payload r = Some (canonicalJson demo_mail)
     \<and> (\<exists>u. resolved_by r = Some (human_resolver u))"
proof -
  have h: "js_prop (JObj [(''content_hash'', JStr (replicate 64 (CHR ''a''))), (''category'', JStr ''email_send''), (''ref'', JStr ''g1'')])
     ''content_hash'' = JStr (hashCanon (as_sha demo_server) (canonicalJson demo_mail))"
    by (simp add: hashCanon_def demo_server_def)
  have c: "ap_category (demo_row2\<lparr>consumed_at := Some 20, consumed_by := Some ''main'', consumed_ref := Some ''g1''\<rparr>) = EMAIL_SEND_CATEGORY"
    by (simp add: demo_row2_def demo_row_def pendingApproval_def)
  have t: "x \<in> set (approvals demo_granted) \<Longrightarrow> ap_payload x = Some p \<Longrightarrow> p = canonicalJson demo_mail" for x p
    by (simp add: demo_granted_eq demo_row2_def demo_row_def pendingApproval_def)
  from approved_mail_is_sent_mail [OF demo_granted_reach demo_config demo_claimed [unfolded demo_claim_def] c refl h t]
  show ?thesis unfolding arg_cong [OF demo_claimed, of fst] by simp
qed

theorem mail_requests_bound_witness: "\<exists>u. resolved_by demo_row2 = Some (human_resolver u)"
proof -
  have "demo_row2 \<in> set (approvals demo_granted)" "ap_category demo_row2 = EMAIL_SEND_CATEGORY" "ap_status demo_row2 = Approved"
    by (simp_all add: demo_granted_eq demo_row2_def demo_row_def pendingApproval_def)
  with mail_requests_bound [OF demo_granted_reach demo_config(1,2,3)] show ?thesis by blast
qed

theorem spent_only_when_signed_witness:
  "snd (demo_claim (demo_server\<lparr>as_hmac := None\<rparr>)) = demo_granted
   \<and> (fst (demo_claim demo_server) \<noteq> ServerError)"
proof -
  have keyless: "demo_claim (demo_server\<lparr>as_hmac := None\<rparr>) = (fst (demo_claim (demo_server\<lparr>as_hmac := None\<rparr>)), snd (demo_claim (demo_server\<lparr>as_hmac := None\<rparr>)))"
    by simp
  have "fst (demo_claim demo_server) \<noteq> ServerError" unfolding arg_cong [OF demo_claimed, of fst] by simp
  with spent_only_when_signed [OF demo_granted_reach demo_config(2) keyless [unfolded demo_claim_def]]
  show ?thesis unfolding demo_claim_def by simp
qed

theorem decision_authority_witness: "\<exists>s. getApproval ''m1'' (approvals demo_granted) = Some s \<and> resolved_by s = Some (human_resolver ''owner'')"
proof -
  have old: "getApproval ''m1'' (approvals demo_asked) = Some demo_row" by (simp add: demo_asked_eq getApproval_def)
  have now: "getApproval ''m1'' (approvals demo_granted) = Some demo_row2" by (simp add: demo_granted_eq getApproval_def demo_row2_def)
  have "ap_status demo_row2 \<noteq> ap_status demo_row" by (simp add: demo_row2_def)
  then have "getApproval ''m1'' (approvals demo_granted) \<noteq> getApproval ''m1'' (approvals demo_asked)" unfolding old now by auto
  note new = this [unfolded demo_granted_def]
  have h: "humanSessionOf (as_env demo_server) (Some (SESSION_COOKIE_NAME @ ''=s1'')) = Some ''owner''"
    using demo_human by (simp add: demo_server_def)
  from decision_authority [OF triple new, folded demo_granted_def] obtain r s who where
    "getApproval ''m1'' (approvals demo_asked) = Some r" "getApproval ''m1'' (approvals demo_granted) = Some s" "resolved_by s = Some who"
    "as_enforce demo_server \<and> isHumanOnlyApproval demo_server r \<longrightarrow>
       (\<exists>u. humanSessionOf (as_env demo_server) (Some (SESSION_COOKIE_NAME @ ''=s1'')) = Some u \<and> who = human_resolver u
          \<and> resolved_via s = Some DashboardSession)" by blast
  moreover from this(1) old have "isHumanOnlyApproval demo_server r" by (simp add: isHumanOnlyApproval_def)
  ultimately show ?thesis using h demo_config(1) by simp
qed

section \<open>Who a new request belongs to\<close>

text \<open>What the category editor lets into the table (\<open>src/web/routes/autonomy.ts\<close>): no limit, or 1 to 10080 minutes.\<close>

definition valid_minutes :: "jsval \<Rightarrow> bool" where
  "valid_minutes v \<longleftrightarrow> v = JNull \<or> (\<exists>n::int. v = JNum (Fin (of_int n)) \<and> 1 \<le> n \<and> of_int n \<le> MAX_CATEGORY_TIMEOUT_MINUTES)"

lemma deadline_bounds:
  assumes "valid_minutes m"
  shows "1 \<le> resolveApprovalTimeoutSeconds m q \<and> resolveApprovalTimeoutSeconds m q \<le> 604800
    \<and> (\<forall>x. finite_num q = Some x \<and> 1 \<le> x \<longrightarrow> of_int (resolveApprovalTimeoutSeconds m q) \<le> x)"
proof -
  define c where "c = (case finite_num m of Some x \<Rightarrow> if x > 0 then x else DEFAULT_APPROVAL_TIMEOUT_MINUTES
                            | None \<Rightarrow> DEFAULT_APPROVAL_TIMEOUT_MINUTES)"
  have "1 \<le> c \<and> c \<le> 10080"
    using assms by (auto simp: c_def valid_minutes_def DEFAULT_APPROVAL_TIMEOUT_MINUTES_def MAX_CATEGORY_TIMEOUT_MINUTES_def)
  then have c: "60 \<le> \<lfloor>c * 60\<rfloor>" "\<lfloor>c * 60\<rfloor> \<le> 604800" by linarith+
  have eq: "resolveApprovalTimeoutSeconds m q = (case finite_num q of
           Some s \<Rightarrow> if s \<ge> 1 then min \<lfloor>s\<rfloor> \<lfloor>c * 60\<rfloor> else \<lfloor>c * 60\<rfloor> | None \<Rightarrow> \<lfloor>c * 60\<rfloor>)"
    by (simp only: resolveApprovalTimeoutSeconds_def c_def Let_def)
  show ?thesis
  proof (cases "finite_num q")
    case None
    with c eq show ?thesis by simp
  next
    case (Some s)
    show ?thesis
    proof (cases "1 \<le> s")
      case True
      then have "1 \<le> \<lfloor>s\<rfloor>" "of_int \<lfloor>s\<rfloor> \<le> s" by simp_all
      moreover have "of_int (min \<lfloor>s\<rfloor> \<lfloor>c * 60\<rfloor>) \<le> s" using \<open>of_int \<lfloor>s\<rfloor> \<le> s\<close>
        by (metis le_floor_iff min.cobounded1)
      moreover have "min \<lfloor>s\<rfloor> \<lfloor>c * 60\<rfloor> \<le> 604800" using c(2) by (rule min.coboundedI2)
      ultimately show ?thesis using True Some c(1) eq by simp
    next
      case False
      with Some c eq show ?thesis by simp
    qed
  qed
qed

text \<open>
  C10: A new request belongs to whoever authenticated, as far as the credential names an agent. Whatever the body says, at most
  one row is added, pending and unused; a fleet agent's is its own, in the tenant it serves; an agent-bound admin token's
  is that agent's (other callers name the agent in the body); a session creates one only if it is an administrator's; it
  is open for at least a second and at most a week, and where at least a second was asked for, no longer than that.
\<close>

theorem created_as_authenticated:
  assumes "post_approval srv auth ctx body i now db = (rep, ns, db')" "approvals db' \<noteq> approvals db"
    and "\<And>c. valid_minutes (as_minutes srv c)"
  shows "\<exists>b r t. body = Some b \<and> approvals db' = approvals db @ [r] \<and> rep = Answer 201 r
    \<and> ap_status r = Pending \<and> consumed_at r = None \<and> used_at r = None
    \<and> (ctx_role ctx = Some FleetAgent \<longrightarrow> ctx_token_agent ctx = Some (ap_agent r)
         \<and> ap_tenant r = (case ctx_tenant ctx of Some (Some x) \<Rightarrow> x | _ \<Rightarrow> ''default''))
    \<and> (\<forall>a. agentBoundAdminId auth ctx = Some a \<longrightarrow> ap_agent r = a)
    \<and> (is_session auth \<longrightarrow> ctx_role ctx = Some Admin)
    \<and> timeout_at r = Some t \<and> now < t \<and> t \<le> now + 604800
    \<and> (\<forall>x. finite_num (js_prop b ''timeout_seconds'') = Some x \<and> 1 \<le> x \<longrightarrow> of_int (t - now) \<le> x)"
  using assms(1)
proof (cases rule: post_new_row)
  case 1
  with assms(2) show ?thesis by simp
next
  case (2 b q0 q r)
  have q0: "q_timeout q0 = js_prop b ''timeout_seconds''"
    using 2(2) by (auto simp: check_fields_def Let_def split: option.splits if_splits)
  have kept: "q_timeout q = q_timeout q0" using check_identity_kept(5) [OF 2(3)] .
  obtain cat where r: "ap_agent r = q_agent q" "ap_tenant r = or_default (q_tenant q)" "ap_status r = Pending"
    "consumed_at r = None" "used_at r = None" "timeout_at r = Some (getTimeoutAt srv now cat (q_timeout q))"
    using 2(7) by (cases "q_email q") (auto simp: pendingApproval_def)
  have bounds: "1 \<le> resolveApprovalTimeoutSeconds (as_minutes srv cat) (q_timeout q)"
    "resolveApprovalTimeoutSeconds (as_minutes srv cat) (q_timeout q) \<le> 604800"
    "\<And>x. finite_num (q_timeout q) = Some x \<Longrightarrow> 1 \<le> x \<Longrightarrow>
       of_int (resolveApprovalTimeoutSeconds (as_minutes srv cat) (q_timeout q)) \<le> x"
    using deadline_bounds [OF assms(3) [of cat], of "q_timeout q"] by blast+
  have fleet: "ctx_token_agent ctx = Some (q_agent q) \<and> q_tenant q = (case ctx_tenant ctx of Some t \<Rightarrow> t | None \<Rightarrow> None)"
    if "ctx_role ctx = Some FleetAgent"
    using check_identity_kept(2-4) [OF 2(3)] that
    by (auto simp: callerMayActAs_def agentBoundAdminId_def request_tenant_def)
  have "agentBoundAdminId auth ctx = Some a \<longrightarrow> ap_agent r = a" for a
    using check_identity_kept(3) [OF 2(3)] r(1) by simp
  with 2(1,4,5,6) r bounds fleet q0 kept show ?thesis
    by (intro exI [of _ b] exI [of _ r] exI [of _ "getTimeoutAt srv now cat (q_timeout q)"])
       (auto simp: getTimeoutAt_def or_default_def split: option.splits)
qed

theorem created_as_authenticated_witness: "ap_agent demo_row = ''main'' \<and> (\<exists>t. timeout_at demo_row = Some t \<and> t \<le> 604800)"
proof -
  let ?ctx = "route_identity demo_agent None ''/api/approvals''"
  have bound: "agentBoundAdminId demo_agent ?ctx = Some ''main''"
    by (simp add: agentBoundAdminId_def demo_agent_def route_identity_def)
  have rows: "approvals demo_asked = [demo_row]" by (simp add: demo_asked_eq)
  have "valid_minutes (as_minutes demo_server c)" for c by (simp add: demo_server_def valid_minutes_def)
  from created_as_authenticated [OF triple _ this] rows bound show ?thesis
    unfolding demo_asked_def by fastforce
qed

section \<open>What a signature says\<close>

lemma split_at: "c \<notin> set x \<Longrightarrow> c \<notin> set y \<Longrightarrow> x @ c # u = y @ c # v \<longleftrightarrow> x = y \<and> u = v"
proof (induction x arbitrary: y)
  case Nil
  then show ?case by (cases y) auto
next
  case (Cons d x)
  then show ?case by (cases y) auto
qed

lemma split_at_end: "c \<notin> set u \<Longrightarrow> c \<notin> set v \<Longrightarrow> x @ c # u = y @ c # v \<longleftrightarrow> x = y \<and> u = v"
  using split_at [of c "rev u" "rev v" "rev x" "rev y"] by (metis rev_append rev.simps(2) append.assoc append_Cons append_Nil rev_is_rev_conv set_rev)

lemma show_int_inject: "show_int a = show_int b \<longleftrightarrow> a = b"
proof -
  have m: "show_nat n \<noteq> CHR ''-'' # s" for n s
    using show_nat_digits [of "CHR ''-''" n] by (auto simp: is_digit_def code_def)
  have "nat x = nat y \<longleftrightarrow> x = y" if "0 \<le> x" "0 \<le> y" for x y using that by linarith
  with m m [symmetric] show ?thesis by (auto simp: show_int_def show_nat_inject)
qed

lemma show_int_bar: "CHR ''|'' \<notin> set (show_int z)"
  using show_nat_digits [of "CHR ''|''"] by (auto simp: show_int_def is_digit_def code_def)

text \<open>
  A signed text names one use: with hash, category and agent free of the separator, two gate texts agree only if
  all fields do (no reference and an empty one are the same), likewise two sender texts, whatever the references
  hold; and a gate text is never a sender text.
\<close>

theorem signed_text_binds:
  assumes "\<And>x. x \<in> {h, cat, a, h', cat', a'} \<Longrightarrow> CHR ''|'' \<notin> set x"
  shows "(claimSignatureInput h cat a ref c = claimSignatureInput h' cat' a' ref' c' \<longleftrightarrow>
            h = h' \<and> cat = cat' \<and> a = a' \<and> c = c' \<and> (case ref of Some r \<Rightarrow> r | None \<Rightarrow> []) = (case ref' of Some r \<Rightarrow> r | None \<Rightarrow> []))
       \<and> (useSignatureInput h cat a s c u = useSignatureInput h' cat' a' s' c' u' \<longleftrightarrow>
            h = h' \<and> cat = cat' \<and> a = a' \<and> s = s' \<and> c = c' \<and> u = u')
       \<and> claimSignatureInput h cat a ref c \<noteq> useSignatureInput h' cat' a' s' c' u'"
proof -
  from assms have bars: "CHR ''|'' \<notin> set h" "CHR ''|'' \<notin> set cat" "CHR ''|'' \<notin> set a"
    "CHR ''|'' \<notin> set h'" "CHR ''|'' \<notin> set cat'" "CHR ''|'' \<notin> set a'" by simp_all
  let ?r = "case ref of Some r \<Rightarrow> r | None \<Rightarrow> []" and ?r' = "case ref' of Some r \<Rightarrow> r | None \<Rightarrow> []"
  have gate: "claimSignatureInput h cat a ref c = claimSignatureInput h' cat' a' ref' c' \<longleftrightarrow>
      h = h' \<and> cat = cat' \<and> a = a' \<and> ?r @ CHR ''|'' # show_int c = ?r' @ CHR ''|'' # show_int c'"
    unfolding claimSignatureInput_def by (simp add: split_at bars)
  have sender: "useSignatureInput h cat a s c u = useSignatureInput h' cat' a' s' c' u' \<longleftrightarrow>
      h = h' \<and> cat = cat' \<and> a = a' \<and> (s @ CHR ''|'' # show_int c) @ CHR ''|'' # show_int u = (s' @ CHR ''|'' # show_int c') @ CHR ''|'' # show_int u'"
    unfolding useSignatureInput_def by (simp add: split_at bars)
  show ?thesis
    unfolding gate sender split_at_end [OF show_int_bar show_int_bar] show_int_inject
    by (auto simp: claimSignatureInput_def useSignatureInput_def)
qed

theorem signed_text_binds_witness:
  "claimSignatureInput ''h'' ''c'' ''a'' (Some ''x|1'') 2 \<noteq> claimSignatureInput ''h'' ''c'' ''a'' (Some ''x'') 12"
proof -
  have "x \<in> {''h'', ''c'', ''a'', ''h'', ''c'', ''a''} \<Longrightarrow> CHR ''|'' \<notin> set x" for x :: string by auto
  from signed_text_binds [OF this, where ref = "Some ''x|1''" and c = 2 and ref' = "Some ''x''" and c' = 12] show ?thesis by simp
qed

end
