(* ===== verification/FifoLock.thy ===== *)
theory FifoLock
  imports Main
begin

text \<open>
  The first-in-first-out mutex \<open>AsyncLock\<close> (\<open>src/db/tx-lock.ts\<close>) and what a component that uses such a lock may
  rely on. \<open>acquire\<close> and \<open>release\<close> are synchronous; a lock that is handed over is never free in between. The
  session send lane (\<open>src/web/session-send-lock.ts\<close>) is the same lock, with waiters that may give up.
\<close>

section \<open>The lock\<close>

record 'c async_lock =
  lock_held :: bool
  queue :: "'c list"

definition free_lock :: "'c async_lock" where
  "free_lock = \<lparr>lock_held = False, queue = []\<rparr>"

text \<open>Whether the caller has the lock at once; if not it is queued.\<close>

definition acquire :: "'c \<Rightarrow> 'c async_lock \<Rightarrow> bool \<times> 'c async_lock" where
  "acquire c l = (if \<not> lock_held l then (True, l\<lparr>lock_held := True\<rparr>) else (False, l\<lparr>queue := queue l @ [c]\<rparr>))"

text \<open>The next owner, if anybody waits.\<close>

definition release :: "'c async_lock \<Rightarrow> 'c option \<times> 'c async_lock" where
  "release l = (case queue l of [] \<Rightarrow> (None, l\<lparr>lock_held := False\<rparr>) | n # q \<Rightarrow> (Some n, l\<lparr>queue := q\<rparr>))"

definition abandon :: "'c \<Rightarrow> 'c async_lock \<Rightarrow> 'c async_lock" where
  "abandon c l = l\<lparr>queue := remove1 c (queue l)\<rparr>"

section \<open>How a lock is used\<close>

text \<open>
  The view of one lock: the lock, who owns it and who waits for it. A move of its users is one of these; whoever
  asks neither owns the lock nor waits for it.
\<close>

inductive lock_move ::
  "'c async_lock \<Rightarrow> ('c \<Rightarrow> bool) \<Rightarrow> ('c \<Rightarrow> bool) \<Rightarrow> 'c async_lock \<Rightarrow> ('c \<Rightarrow> bool) \<Rightarrow> ('c \<Rightarrow> bool) \<Rightarrow> bool" where
  still: "lock_move l own wait l own wait"
| take_it: "\<not> own c \<Longrightarrow> \<not> wait c \<Longrightarrow> acquire c l = (True, l') \<Longrightarrow> lock_move l own wait l' (own(c := True)) wait"
| line_up: "\<not> own c \<Longrightarrow> \<not> wait c \<Longrightarrow> acquire c l = (False, l') \<Longrightarrow> lock_move l own wait l' own (wait(c := True))"
| set_free: "own c \<Longrightarrow> release l = (None, l') \<Longrightarrow> lock_move l own wait l' (own(c := False)) wait"
| hand_over: "own c \<Longrightarrow> release l = (Some n, l') \<Longrightarrow> lock_move l own wait l' (own(c := False, n := True)) (wait(n := False))"
| give_up: "wait c \<Longrightarrow> lock_move l own wait (abandon c l) own (wait(c := False))"

definition lock_ok :: "'c async_lock \<Rightarrow> ('c \<Rightarrow> bool) \<Rightarrow> ('c \<Rightarrow> bool) \<Rightarrow> bool" where
  "lock_ok l own wait \<longleftrightarrow> (lock_held l \<longleftrightarrow> (\<exists>c. own c)) \<and> (\<forall>c d. own c \<longrightarrow> own d \<longrightarrow> c = d)
     \<and> distinct (queue l) \<and> (\<forall>c. wait c \<longleftrightarrow> c \<in> set (queue l)) \<and> (\<forall>c. own c \<longrightarrow> \<not> wait c) \<and> (queue l \<noteq> [] \<longrightarrow> lock_held l)"

lemma lock_ok_start: "lock_ok free_lock (\<lambda>_. False) (\<lambda>_. False)"
  by (simp add: lock_ok_def free_lock_def)

lemma lock_move_ok: "lock_move l own wait l' own' wait' \<Longrightarrow> lock_ok l own wait \<Longrightarrow> lock_ok l' own' wait'"
proof (induction rule: lock_move.induct)
  case (take_it own c wait l l')
  then show ?case by (auto simp: acquire_def lock_ok_def split: if_splits)
next
  case (line_up own c wait l l')
  then show ?case by (auto simp: acquire_def lock_ok_def split: if_splits)
next
  case (set_free own c l l' wait)
  then show ?case by (auto simp: release_def lock_ok_def split: list.splits)
next
  case (hand_over own c l n l' wait)
  then show ?case by (auto simp: release_def lock_ok_def split: list.splits)
next
  case (give_up wait c l own)
  then show ?case by (auto simp: abandon_def lock_ok_def set_remove1_eq)
qed

text \<open>Nobody overtakes: a waiter keeps everybody behind it, and each release brings it one place forward.\<close>

definition ahead :: "'c \<Rightarrow> 'c async_lock \<Rightarrow> 'c list" where
  "ahead c l = takeWhile (\<lambda>d. d \<noteq> c) (queue l)"

lemma ahead_acquire: "acquire d l = (b, l') \<Longrightarrow> c \<in> set (queue l) \<Longrightarrow> ahead c l' = ahead c l"
  by (auto simp: acquire_def ahead_def takeWhile_append1 split: if_splits)

lemma ahead_release:
  "release l = (x, l') \<Longrightarrow> c \<in> set (queue l) \<Longrightarrow> (x = Some c \<and> ahead c l = []) \<or> (x \<noteq> Some c \<and> x \<noteq> None \<and> ahead c l' = tl (ahead c l) \<and> ahead c l \<noteq> [])"
  by (auto simp: release_def ahead_def split: list.splits)

lemma ahead_abandon: "d \<noteq> c \<Longrightarrow> length (ahead c (abandon d l)) \<le> length (ahead c l)"
proof -
  have "length (takeWhile (\<lambda>x. x \<noteq> c) (remove1 d q)) \<le> length (takeWhile (\<lambda>x. x \<noteq> c) q)" if "d \<noteq> c" for q
    using that by (induction q) auto
  then show "d \<noteq> c \<Longrightarrow> length (ahead c (abandon d l)) \<le> length (ahead c l)" by (simp add: ahead_def abandon_def)
qed

section \<open>The contract\<close>

text \<open>
  A component with a family of locks, one per key, that its steps use only by such moves. \<open>lock\<close>, \<open>owns\<close> and \<open>waits\<close>
  read the lock of a key, and the calls that own it or wait for it, off the state.
\<close>

locale lock_user =
  fixes start :: 's and step :: "'s \<Rightarrow> 's \<Rightarrow> bool"
    and lock :: "'k \<Rightarrow> 's \<Rightarrow> 'c async_lock" and owns :: "'k \<Rightarrow> 's \<Rightarrow> 'c \<Rightarrow> bool" and waits :: "'k \<Rightarrow> 's \<Rightarrow> 'c \<Rightarrow> bool"
  assumes at_start: "lock k start = free_lock \<and> owns k start = (\<lambda>_. False) \<and> waits k start = (\<lambda>_. False)"
    and moves: "step s s' \<Longrightarrow> \<forall>j. lock_ok (lock j s) (owns j s) (waits j s) \<Longrightarrow>
      lock_move (lock k s) (owns k s) (waits k s) (lock k s') (owns k s') (waits k s')"
begin

lemma locks_ok: "step\<^sup>*\<^sup>* start s \<Longrightarrow> \<forall>k. lock_ok (lock k s) (owns k s) (waits k s)"
proof (induction rule: rtranclp_induct)
  case base
  then show ?case using at_start lock_ok_start by metis
next
  case step
  then show ?case using moves lock_move_ok by blast
qed

lemma one_owner: "step\<^sup>*\<^sup>* start s \<Longrightarrow> owns k s c \<Longrightarrow> owns k s d \<Longrightarrow> c = d"
  using locks_ok by (fastforce simp: lock_ok_def)

lemma held_iff_owned: "step\<^sup>*\<^sup>* start s \<Longrightarrow> lock_held (lock k s) \<longleftrightarrow> (\<exists>c. owns k s c)"
  using locks_ok by (fastforce simp: lock_ok_def)

lemma waiter_queued: "step\<^sup>*\<^sup>* start s \<Longrightarrow> waits k s c \<longleftrightarrow> c \<in> set (queue (lock k s))"
  using locks_ok by (fastforce simp: lock_ok_def)

lemma waiter_has_owner: "step\<^sup>*\<^sup>* start s \<Longrightarrow> waits k s c \<Longrightarrow> \<exists>d. owns k s d \<and> d \<noteq> c"
proof -
  assume r: "step\<^sup>*\<^sup>* start s" and w: "waits k s c"
  from locks_ok [OF r] have ok: "lock_ok (lock k s) (owns k s) (waits k s)" by blast
  with w have "queue (lock k s) \<noteq> []" by (auto simp: lock_ok_def)
  with ok obtain d where "owns k s d" by (auto simp: lock_ok_def)
  moreover from this ok w have "d \<noteq> c" by (auto simp: lock_ok_def)
  ultimately show ?thesis by blast
qed

text \<open>Nobody overtakes: while a call waits, every release brings it one place forward or gives it the lock.\<close>

lemma no_overtaking:
  assumes "step\<^sup>*\<^sup>* start s" "step s s'" "waits k s c" "waits k s' c"
  shows "length (ahead c (lock k s')) \<le> length (ahead c (lock k s))"
    and "owns k s d \<Longrightarrow> \<not> owns k s' d \<Longrightarrow> length (ahead c (lock k s')) < length (ahead c (lock k s))"
proof -
  have q: "c \<in> set (queue (lock k s))" using waiter_queued [OF assms(1)] assms(3) by blast
  have m: "lock_move (lock k s) (owns k s) (waits k s) (lock k s') (owns k s') (waits k s')"
    by (rule moves [OF assms(2) locks_ok [OF assms(1)]])
  from m show "length (ahead c (lock k s')) \<le> length (ahead c (lock k s))"
  proof cases
    case (hand_over e n)
    with assms(4) have "n \<noteq> c" by (auto simp: fun_eq_iff)
    with ahead_release [OF hand_over(4) q] show ?thesis by auto
  next
    case (set_free e)
    with ahead_release [OF set_free(4) q] show ?thesis by auto
  next
    case (give_up e)
    with assms(4) have "e \<noteq> c" by auto
    with give_up ahead_abandon show ?thesis by metis
  qed (auto dest: ahead_acquire [OF _ q])
  assume d: "owns k s d" "\<not> owns k s' d"
  from m show "length (ahead c (lock k s')) < length (ahead c (lock k s))"
  proof cases
    case (hand_over e n)
    with assms(4) have "n \<noteq> c" by (auto simp: fun_eq_iff)
    with ahead_release [OF hand_over(4) q] show ?thesis by auto
  next
    case (set_free e)
    with ahead_release [OF set_free(4) q] show ?thesis by auto
  qed (use d in \<open>auto split: if_splits\<close>)
qed

end

end
