(* ===== verification/SendLock.thy ===== *)
theory SendLock
  imports JsBase FifoLock
begin

text \<open>
  The mutex on the delivery path into a terminal pane, \<open>src/web/session-send-lock.ts\<close>. A pane has a lane; a
  delivery waits for it, but not for ever (it then writes without it), a recovery and a synchronous healer are
  skipped when it is busy. The model has every call of \<open>withSessionSendLock\<close> and of \<open>tryAcquireSessionSendLane\<close>,
  numbered, with any number in flight; a step is what runs between two awaits: the call itself, its wait budget
  running out, its continuation after the wait, and the end of the write (which may be an exception).
\<close>

section \<open>Lanes and calls\<close>

datatype send_mode = Deliver | Recover | TrySync

record send_call =
  sc_session :: string
  sc_host :: "string option"
  sc_mode :: send_mode

definition keyFor :: "string \<Rightarrow> string option \<Rightarrow> string" where
  "keyFor session host = (case host of None \<Rightarrow> ''local'' | Some h \<Rightarrow> h) @ ''::'' @ session"

text \<open>
  Where a call is: \<open>Waiting t\<close> in the queue, \<open>t\<close> when its budget has run out and its continuation has not run;
  \<open>HandedLane\<close> when the lane was handed to it; \<open>Writing\<close> with the lane; \<open>WritingOpen\<close> without it.
\<close>

datatype send_phase = NotCalled | Waiting bool | HandedLane | Writing | WritingOpen | Skipped | Finished bool

record send_state =
  lanes :: "string \<Rightarrow> nat async_lock"
  call_phase :: "nat \<Rightarrow> send_phase"

definition call_key :: "(nat \<Rightarrow> send_call) \<Rightarrow> nat \<Rightarrow> string" where
  "call_key calls i = keyFor (sc_session (calls i)) (sc_host (calls i))"

definition send_start :: send_state where
  "send_start = \<lparr>lanes = (\<lambda>_. free_lock), call_phase = (\<lambda>_. NotCalled)\<rparr>"

definition set_phase :: "nat \<Rightarrow> send_phase \<Rightarrow> send_state \<Rightarrow> send_state" where
  "set_phase i p s = s\<lparr>call_phase := (call_phase s)(i := p)\<rparr>"

definition set_lane :: "string \<Rightarrow> nat async_lock \<Rightarrow> send_state \<Rightarrow> send_state" where
  "set_lane k l s = s\<lparr>lanes := (lanes s)(k := l)\<rparr>"

text \<open>The call, up to its first await.\<close>

definition call_lock :: "(nat \<Rightarrow> send_call) \<Rightarrow> nat \<Rightarrow> send_state \<Rightarrow> send_state" where
  "call_lock calls i s =
     (let k = call_key calls i; l = lanes s k in
      if \<not> lock_held l then set_phase i Writing (set_lane k (snd (acquire i l)) s)
      else if sc_mode (calls i) \<noteq> Deliver then set_phase i Skipped s
      else set_phase i (Waiting False) (set_lane k (snd (acquire i l)) s))"

definition handOff :: "string \<Rightarrow> send_state \<Rightarrow> send_state" where
  "handOff k s =
     (case release (lanes s k) of
        (None, l) \<Rightarrow> set_lane k l s
      | (Some n, l) \<Rightarrow> set_phase n HandedLane (set_lane k l s))"

text \<open>The continuation after the race between the lane and the budget.\<close>

definition resume_call :: "(nat \<Rightarrow> send_call) \<Rightarrow> nat \<Rightarrow> send_state \<Rightarrow> send_state" where
  "resume_call calls i s =
     (let k = call_key calls i in
      case call_phase s i of
        HandedLane \<Rightarrow> set_phase i Writing s
      | Waiting True \<Rightarrow> set_phase i WritingOpen (set_lane k (abandon i (lanes s k)) s)
      | _ \<Rightarrow> s)"

definition end_write :: "(nat \<Rightarrow> send_call) \<Rightarrow> nat \<Rightarrow> send_state \<Rightarrow> send_state" where
  "end_write calls i s =
     (case call_phase s i of
        Writing \<Rightarrow> handOff (call_key calls i) (set_phase i (Finished False) s)
      | WritingOpen \<Rightarrow> set_phase i (Finished True) s
      | _ \<Rightarrow> s)"

inductive send_step :: "(nat \<Rightarrow> send_call) \<Rightarrow> send_state \<Rightarrow> send_state \<Rightarrow> bool" for calls where
  asks: "call_phase s i = NotCalled \<Longrightarrow> send_step calls s (call_lock calls i s)"
| budget_out: "call_phase s i = Waiting False \<Longrightarrow> send_step calls s (set_phase i (Waiting True) s)"
| resumes: "call_phase s i = HandedLane \<or> call_phase s i = Waiting True \<Longrightarrow> send_step calls s (resume_call calls i s)"
| ends: "call_phase s i = Writing \<or> call_phase s i = WritingOpen \<Longrightarrow> send_step calls s (end_write calls i s)"

abbreviation send_run :: "(nat \<Rightarrow> send_call) \<Rightarrow> send_state \<Rightarrow> bool" where
  "send_run calls \<equiv> (send_step calls)\<^sup>*\<^sup>* send_start"

section \<open>Every lane is a lock\<close>

definition lane_owner :: "(nat \<Rightarrow> send_call) \<Rightarrow> string \<Rightarrow> send_state \<Rightarrow> nat \<Rightarrow> bool" where
  "lane_owner calls k s i \<longleftrightarrow> call_key calls i = k \<and> call_phase s i \<in> {HandedLane, Writing}"

definition lane_waiter :: "(nat \<Rightarrow> send_call) \<Rightarrow> string \<Rightarrow> send_state \<Rightarrow> nat \<Rightarrow> bool" where
  "lane_waiter calls k s i \<longleftrightarrow> call_key calls i = k \<and> (\<exists>t. call_phase s i = Waiting t)"

lemma waiting_flag [simp]: "(\<exists>t. \<not> t)" "(\<exists>t. t)"
  by blast+

lemma set_sel [simp]:
  "lanes (set_phase i p s) = lanes s" "lanes (set_lane k l s) = (lanes s)(k := l)"
  "call_phase (set_phase i p s) = (call_phase s)(i := p)" "call_phase (set_lane k l s) = call_phase s"
  "lane_owner calls k (set_lane j l s) = lane_owner calls k s" "lane_waiter calls k (set_lane j l s) = lane_waiter calls k s"
  by (simp_all add: set_phase_def set_lane_def lane_owner_def lane_waiter_def fun_eq_iff)

lemma owner_set_phase [simp]:
  "lane_owner calls k (set_phase i p s) =
     (if call_key calls i = k then (lane_owner calls k s)(i := p \<in> {HandedLane, Writing}) else lane_owner calls k s)"
  by (auto simp: lane_owner_def fun_eq_iff)

lemma waiter_set_phase [simp]:
  "lane_waiter calls k (set_phase i p s) =
     (if call_key calls i = k then (lane_waiter calls k s)(i := (\<exists>t. p = Waiting t)) else lane_waiter calls k s)"
  by (auto simp: lane_waiter_def fun_eq_iff)

lemma lane_phase:
  "lane_owner calls k s i \<Longrightarrow> call_key calls i = k" "lane_waiter calls k s i \<Longrightarrow> call_key calls i = k"
  by (simp_all add: lane_owner_def lane_waiter_def)

text \<open>A phase that changes neither ownership nor waiting changes no view.\<close>

lemma still_phase:
  assumes "call_key calls i = k \<Longrightarrow> lane_owner calls k s i \<longleftrightarrow> p \<in> {HandedLane, Writing}"
    and "call_key calls i = k \<Longrightarrow> lane_waiter calls k s i \<longleftrightarrow> (\<exists>t. p = Waiting t)"
  shows "lock_move (lanes s k) (lane_owner calls k s) (lane_waiter calls k s)
    (lanes (set_phase i p s) k) (lane_owner calls k (set_phase i p s)) (lane_waiter calls k (set_phase i p s))"
proof -
  have "lane_owner calls k (set_phase i p s) = lane_owner calls k s" "lane_waiter calls k (set_phase i p s) = lane_waiter calls k s"
    using assms by (auto simp: fun_eq_iff)
  then show ?thesis by (metis lock_move.still set_sel(1))
qed

lemma lane_moves:
  assumes "send_step calls s s'" "\<forall>j. lock_ok (lanes s j) (lane_owner calls j s) (lane_waiter calls j s)"
  shows "lock_move (lanes s k) (lane_owner calls k s) (lane_waiter calls k s) (lanes s' k) (lane_owner calls k s') (lane_waiter calls k s')"
  using assms(1)
proof cases
  case (asks i)
  then have new: "\<not> lane_owner calls j s i" "\<not> lane_waiter calls j s i" for j by (simp_all add: lane_owner_def lane_waiter_def)
  show ?thesis
  proof (cases "call_key calls i = k")
    case False
    with asks(1) show ?thesis by (simp add: call_lock_def Let_def lock_move.still)
  next
    case True
    obtain b l where a: "acquire i (lanes s k) = (b, l)" by fastforce
    show ?thesis
    proof (cases "lock_held (lanes s k)")
      case free: False
      with a have "b" by (simp add: acquire_def)
      with a free True asks(1) new show ?thesis
        by (simp add: call_lock_def Let_def fun_upd_idem lock_move.take_it)
    next
      case lock_held: True
      with a have "\<not> b" by (auto simp: acquire_def)
      with a lock_held True asks(1) new show ?thesis
        by (auto simp: call_lock_def Let_def fun_upd_idem intro: lock_move.line_up lock_move.still)
    qed
  qed
next
  case (budget_out i)
  then show ?thesis unfolding budget_out(1) by (intro still_phase) (auto simp: lane_owner_def lane_waiter_def)
next
  case (resumes i)
  show ?thesis
  proof (cases "call_phase s i = HandedLane")
    case True
    then have eq: "s' = set_phase i Writing s" using resumes(1) by (simp add: resume_call_def Let_def)
    show ?thesis unfolding eq by (rule still_phase) (use True in \<open>auto simp: lane_owner_def lane_waiter_def\<close>)
  next
    case False
    with resumes(2) have w: "call_phase s i = Waiting True" by simp
    with resumes(1) have eq: "s' = set_phase i WritingOpen (set_lane (call_key calls i) (abandon i (lanes s (call_key calls i))) s)"
      by (simp add: resume_call_def Let_def)
    have "\<not> lane_owner calls k s i" using w by (simp add: lane_owner_def)
    moreover have "call_key calls i = k \<Longrightarrow> lane_waiter calls k s i" using w by (simp add: lane_waiter_def)
    ultimately show ?thesis unfolding eq by (auto simp: fun_upd_idem intro: lock_move.give_up lock_move.still)
  qed
next
  case (ends i)
  show ?thesis
  proof (cases "call_phase s i = Writing")
    case False
    with ends(2) have w: "call_phase s i = WritingOpen" by simp
    with ends(1) have eq: "s' = set_phase i (Finished True) s" by (simp add: end_write_def)
    show ?thesis unfolding eq by (rule still_phase) (use w in \<open>auto simp: lane_owner_def lane_waiter_def\<close>)
  next
    case True
    let ?k = "call_key calls i"
    obtain x l where r: "release (lanes s ?k) = (x, l)" by fastforce
    with True ends(1) have eq: "s' = (case x of None \<Rightarrow> set_lane ?k l (set_phase i (Finished False) s)
        | Some n \<Rightarrow> set_phase n HandedLane (set_lane ?k l (set_phase i (Finished False) s)))"
      by (simp add: end_write_def handOff_def split: option.splits)
    have i: "lane_owner calls ?k s i" "\<not> lane_waiter calls ?k s i" using True by (simp_all add: lane_owner_def lane_waiter_def)
    show ?thesis
    proof (cases x)
      case None
      with r i eq show ?thesis
        by (auto simp: fun_upd_idem intro: lock_move.set_free lock_move.still)
    next
      case (Some n)
      have "lock_ok (lanes s ?k) (lane_owner calls ?k s) (lane_waiter calls ?k s)" using assms(2) by blast
      with r Some have n: "lane_waiter calls ?k s n" by (auto simp: release_def lock_ok_def split: list.splits)
      then have kn: "call_key calls n = ?k" by (rule lane_phase)
      show ?thesis
      proof (cases "?k = k")
        case here: True
        from n i have ne: "n \<noteq> i" by auto
        have own: "lane_owner calls k s' = (lane_owner calls k s)(i := False, n := True)"
          and wait: "lane_waiter calls k s' = (lane_waiter calls k s)(n := False)" and lane: "lanes s' k = l"
          using here kn ne i Some by (auto simp: eq fun_eq_iff)
        show ?thesis unfolding own wait lane
          by (rule lock_move.hand_over) (use r Some i here in auto)
      next
        case elsewhere: False
        with kn Some show ?thesis by (simp add: eq lock_move.still)
      qed
    qed
  qed
qed

interpretation lane: lock_user send_start "send_step calls" "\<lambda>k s. lanes s k" "lane_owner calls" "lane_waiter calls"
  by unfold_locales (auto simp: send_start_def lane_owner_def lane_waiter_def fun_eq_iff intro: lane_moves)

section \<open>What the lock gives\<close>

lemma owner_phase: "call_phase s i \<in> {HandedLane, Writing} \<Longrightarrow> lane_owner calls (call_key calls i) s i"
  by (simp add: lane_owner_def)

text \<open>Only a delivery waits, so only a delivery writes without the lane; the others write or are skipped.\<close>

definition mode_ok :: "(nat \<Rightarrow> send_call) \<Rightarrow> send_state \<Rightarrow> bool" where
  "mode_ok calls s \<longleftrightarrow> (\<forall>i. (call_phase s i \<in> {Waiting False, Waiting True, HandedLane, WritingOpen, Finished True} \<longrightarrow> sc_mode (calls i) = Deliver)
     \<and> (call_phase s i = Skipped \<longrightarrow> sc_mode (calls i) \<noteq> Deliver))"

lemma granted_by_handOff:
  "call_phase (handOff k s) i = (if fst (release (lanes s k)) = Some i then HandedLane else call_phase s i)"
  by (auto simp: handOff_def split: option.splits prod.splits)

lemma grants_waiter:
  assumes "\<forall>k. lock_ok (lanes s k) (lane_owner calls k s) (lane_waiter calls k s)" "fst (release (lanes s k)) = Some n"
  shows "\<exists>t. call_phase s n = Waiting t" "call_key calls n = k"
proof -
  from assms(2) have "n \<in> set (queue (lanes s k))" by (auto simp: release_def split: list.splits)
  with assms(1) have "lane_waiter calls k s n" by (auto simp: lock_ok_def)
  then show "\<exists>t. call_phase s n = Waiting t" "call_key calls n = k" by (auto simp: lane_waiter_def)
qed

lemma mode_ok_step:
  assumes "send_step calls s s'" "mode_ok calls s" "\<forall>k. lock_ok (lanes s k) (lane_owner calls k s) (lane_waiter calls k s)"
  shows "mode_ok calls s'"
  using assms(1)
proof cases
  case (asks i)
  with assms(2) show ?thesis by (auto simp: mode_ok_def call_lock_def Let_def)
next
  case (budget_out i)
  with assms(2) show ?thesis by (auto simp: mode_ok_def)
next
  case (resumes i)
  with assms(2) show ?thesis by (auto simp: mode_ok_def resume_call_def Let_def split: send_phase.splits bool.splits)
next
  case (ends i)
  have "sc_mode (calls n) = Deliver" if "fst (release (lanes s k)) = Some n" for n k
  proof -
    from grants_waiter(1) [OF assms(3) that] obtain t where "call_phase s n = Waiting t" by blast
    with assms(2) show ?thesis by (cases t) (auto simp: mode_ok_def)
  qed
  with ends assms(2) show ?thesis by (auto simp: mode_ok_def end_write_def granted_by_handOff split: if_split_asm)
qed

text \<open>Who has just been granted a lane was waiting for it.\<close>

lemma granted_after:
  assumes "send_step calls s s'" "\<forall>k. lock_ok (lanes s k) (lane_owner calls k s) (lane_waiter calls k s)" "call_phase s' j = HandedLane"
  shows "call_phase s j = HandedLane \<or> (\<exists>t. call_phase s j = Waiting t)"
  using assms(1)
proof cases
  case (ends i)
  with assms(3) grants_waiter(1) [OF assms(2)] show ?thesis
    by (fastforce simp: end_write_def granted_by_handOff split: if_split_asm)
qed (use assms(3) in \<open>auto simp: call_lock_def resume_call_def Let_def split: if_split_asm send_phase.splits bool.splits\<close>)

lemma mode_run: "send_run calls s \<Longrightarrow> mode_ok calls s"
proof (induction rule: rtranclp_induct)
  case base
  then show ?case by (simp add: mode_ok_def send_start_def)
next
  case (step s s')
  then show ?case using mode_ok_step lane.locks_ok by blast
qed

text \<open>
  C9: One writer per pane. In every interleaving at most one call holds the lane of a pane, the lane is busy exactly
  while somebody holds it, so it is never leaked, and who waits always waits for another call; whoever writes
  without the lane is a delivery, and only a recovery or a synchronous healer is ever skipped.
\<close>

theorem one_writer_per_pane:
  assumes "send_run calls s"
  shows "(\<forall>i j. call_phase s i \<in> {HandedLane, Writing} \<and> call_phase s j \<in> {HandedLane, Writing} \<and> call_key calls i = call_key calls j \<longrightarrow> i = j)
    \<and> (\<forall>k. lock_held (lanes s k) \<longleftrightarrow> (\<exists>i. call_key calls i = k \<and> call_phase s i \<in> {HandedLane, Writing}))
    \<and> (\<forall>i t. call_phase s i = Waiting t \<longrightarrow> (\<exists>j. j \<noteq> i \<and> call_key calls j = call_key calls i \<and> call_phase s j \<in> {HandedLane, Writing}))
    \<and> (\<forall>i. call_phase s i = WritingOpen \<longrightarrow> sc_mode (calls i) = Deliver) \<and> (\<forall>i. call_phase s i = Skipped \<longrightarrow> sc_mode (calls i) \<noteq> Deliver)"
proof (intro conjI allI impI)
  fix i j
  assume "call_phase s i \<in> {HandedLane, Writing} \<and> call_phase s j \<in> {HandedLane, Writing} \<and> call_key calls i = call_key calls j"
  then show "i = j" using lane.one_owner [OF assms, of "call_key calls i" i j] by (simp add: lane_owner_def)
next
  fix i t
  assume "call_phase s i = Waiting t"
  then have "lane_waiter calls (call_key calls i) s i" by (auto simp: lane_waiter_def)
  from lane.waiter_has_owner [OF assms this]
  show "\<exists>j. j \<noteq> i \<and> call_key calls j = call_key calls i \<and> call_phase s j \<in> {HandedLane, Writing}" by (auto simp: lane_owner_def)
qed (use lane.held_iff_owned [OF assms] mode_run [OF assms] in \<open>auto simp: lane_owner_def mode_ok_def\<close>)

text \<open>
  C40: A waiting delivery gets on. While it waits nobody overtakes it, each time the lane's holder finishes there is one
  call fewer before it, and when it is the first it gets the lane; its wait ends otherwise only when its own budget
  runs out.
\<close>

theorem delivery_gets_on:
  assumes "send_run calls s" "send_step calls s s'" "call_phase s i = Waiting t" "k = call_key calls i"
  shows "(\<exists>t'. call_phase s' i = Waiting t' \<and> length (ahead i (lanes s' k)) \<le> length (ahead i (lanes s k))
            \<and> (\<forall>j. call_key calls j = k \<and> call_phase s j = Writing \<and> call_phase s' j \<noteq> Writing \<longrightarrow>
                 length (ahead i (lanes s' k)) < length (ahead i (lanes s k))))
       \<or> call_phase s' i = HandedLane \<and> ahead i (lanes s k) = [] \<or> call_phase s' i = WritingOpen \<and> t"
proof -
  have w: "lane_waiter calls k s i" using assms(3,4) by (auto simp: lane_waiter_def)
  then have q: "i \<in> set (queue (lanes s k))" using lane.waiter_queued [OF assms(1)] by blast
  show ?thesis
  proof (cases "\<exists>t'. call_phase s' i = Waiting t'")
    case True
    then have w': "lane_waiter calls k s' i" using assms(4) by (auto simp: lane_waiter_def)
    have "\<not> lane_owner calls k s' j" if "call_key calls j = k" "call_phase s j = Writing" "call_phase s' j \<noteq> Writing" for j
      using granted_after [OF assms(2) lane.locks_ok [OF assms(1)], of j] that by (auto simp: lane_owner_def)
    with True show ?thesis
      using lane.no_overtaking [OF assms(1,2) w w'] by (auto simp: lane_owner_def)
  next
    case False
    from assms(2) show ?thesis
    proof cases
      case (ends m)
      with False assms(3) have m: "call_phase s m = Writing" "fst (release (lanes s (call_key calls m))) = Some i"
        by (auto simp: end_write_def granted_by_handOff split: if_splits)
      then have "call_key calls m = k" using grants_waiter(2) [OF lane.locks_ok [OF assms(1)]] assms(4) by metis
      with m ends show ?thesis
        by (auto simp: ahead_def release_def end_write_def granted_by_handOff split: list.splits)
    qed (use assms(3) False in \<open>auto simp: call_lock_def resume_call_def Let_def split: if_splits send_phase.splits bool.splits\<close>)
  qed
qed

section \<open>Two deliveries to one pane\<close>

definition pane_calls :: "nat \<Rightarrow> send_call" where
  "pane_calls i = \<lparr>sc_session = ''agent-a'', sc_host = None, sc_mode = Deliver\<rparr>"

definition second_waits :: send_state where
  "second_waits = call_lock pane_calls 1 (call_lock pane_calls 0 send_start)"

lemma second_waits_phase: "call_phase second_waits 0 = Writing" "call_phase second_waits 1 = Waiting False"
  "lanes second_waits (keyFor ''agent-a'' None) = \<lparr>lock_held = True, queue = [1]\<rparr>"
  by (simp_all add: second_waits_def call_lock_def pane_calls_def call_key_def send_start_def free_lock_def acquire_def Let_def)

lemma second_waits_run: "send_run pane_calls second_waits"
proof -
  have "send_step pane_calls send_start (call_lock pane_calls 0 send_start)" by (rule send_step.asks) (simp add: send_start_def)
  moreover have "send_step pane_calls (call_lock pane_calls 0 send_start) second_waits" unfolding second_waits_def
    by (rule send_step.asks) (simp add: send_start_def call_lock_def Let_def free_lock_def)
  ultimately show ?thesis by (meson rtranclp.rtrancl_into_rtrancl rtranclp.rtrancl_refl)
qed

theorem one_writer_per_pane_witness: "\<exists>j. j \<noteq> 1 \<and> call_phase second_waits j \<in> {HandedLane, Writing}"
  using one_writer_per_pane [OF second_waits_run] second_waits_phase(2) by blast

theorem delivery_gets_on_witness: "call_phase (end_write pane_calls 0 second_waits) 1 = HandedLane"
proof -
  have s: "send_step pane_calls second_waits (end_write pane_calls 0 second_waits)"
    by (rule send_step.ends) (simp add: second_waits_phase)
  have k: "call_key pane_calls 1 = keyFor ''agent-a'' None" by (simp add: call_key_def pane_calls_def)
  have "ahead 1 (lanes second_waits (keyFor ''agent-a'' None)) = []" by (simp add: second_waits_phase ahead_def)
  moreover have "call_phase (end_write pane_calls 0 second_waits) 0 = Finished False"
    using second_waits_phase k by (simp add: end_write_def granted_by_handOff release_def call_key_def pane_calls_def)
  ultimately show ?thesis
    using delivery_gets_on [OF second_waits_run s second_waits_phase(2) k [symmetric]] second_waits_phase(1)
    by (auto simp: call_key_def pane_calls_def)
qed

end
