(* ===== verification/TxFacade.thy ===== *)
theory TxFacade
  imports FifoLock
begin

text \<open>
  The database facade \<open>dbx\<close> (\<open>src/db/facade.ts\<close>) with the locks and transaction scopes of \<open>src/db/tx-lock.ts\<close>:
  many asynchronous callers share one SQLite connection. The model keeps every call of the facade, numbered, with any
  number in flight, and the commands that reach the connection; a step is what runs between two awaits. What a
  statement does is irrelevant here, only in whose name and when it is sent. A transaction call and its scope
  share a number; a call may carry the scope of the body it runs in (the \<open>AsyncLocalStorage\<close>), also after that
  body has ended.
\<close>

section \<open>Calls and state\<close>

text \<open>\<open>None\<close> is the lock of the connection, \<open>Some p\<close> the lock of the savepoints under scope \<open>p\<close>.\<close>

type_synonym lock_key = "nat option"

text \<open>A statement or a transaction of \<open>dbx\<close> with the scope it carries, or of the handle of a scope.\<close>

datatype db_call = Stmt "nat option" | HandleStmt nat | Tx "nat option" | HandleTx nat

datatype db_phase = NotStarted | Queued lock_key | Holder lock_key | Ran lock_key | InBody lock_key | Settled bool

text \<open>
  What is sent to the connection; a flag says whether the engine accepted it. \<open>Over\<close> is the check of \<open>rollback\<close> that
  finds no transaction open any more. A savepoint names its parent scope and its number.
\<close>

datatype conn_cmd =
    Exec "nat option" | Begin bool | Commit bool | Rollback bool | Over
  | Savepoint nat nat bool | RollbackTo nat bool | ReleaseSp nat bool

record facade =
  db_locks :: "lock_key \<Rightarrow> nat async_lock"
  at_phase :: "nat \<Rightarrow> db_phase"
  active :: "nat \<Rightarrow> bool"
  tree :: "nat \<Rightarrow> nat"
  counter :: "nat \<Rightarrow> nat"
  sp_number :: "nat \<Rightarrow> nat"
  sent :: "(nat \<times> conn_cmd) list"

definition facade_start :: facade where
  "facade_start = \<lparr>db_locks = (\<lambda>_. free_lock), at_phase = (\<lambda>_. NotStarted), active = (\<lambda>_. False), tree = (\<lambda>i. i),
     counter = (\<lambda>_. 0), sp_number = (\<lambda>_. 0), sent = []\<rparr>"

definition to_phase :: "nat \<Rightarrow> db_phase \<Rightarrow> facade \<Rightarrow> facade" where
  "to_phase i p s = s\<lparr>at_phase := (at_phase s)(i := p)\<rparr>"

definition send_cmd :: "nat \<Rightarrow> conn_cmd \<Rightarrow> facade \<Rightarrow> facade" where
  "send_cmd i c s = s\<lparr>sent := sent s @ [(i, c)]\<rparr>"

definition with_lock :: "lock_key \<Rightarrow> nat async_lock \<Rightarrow> facade \<Rightarrow> facade" where
  "with_lock k l s = s\<lparr>db_locks := (db_locks s)(k := l)\<rparr>"

definition activate :: "nat \<Rightarrow> bool \<Rightarrow> facade \<Rightarrow> facade" where
  "activate i b s = s\<lparr>active := (active s)(i := b)\<rparr>"

text \<open>\<open>currentTxScope\<close>: the scope carried, if it is still open.\<close>

definition currentTxScope :: "facade \<Rightarrow> nat option \<Rightarrow> nat option" where
  "currentTxScope s carried = (case carried of Some p \<Rightarrow> if active s p then Some p else None | None \<Rightarrow> None)"

section \<open>Locks\<close>

definition ask_lock :: "nat \<Rightarrow> lock_key \<Rightarrow> facade \<Rightarrow> facade" where
  "ask_lock i k s =
     (let (now, l) = acquire i (db_locks s k)
      in to_phase i (if now then Holder k else Queued k) (with_lock k l s))"

definition give_back :: "lock_key \<Rightarrow> facade \<Rightarrow> facade" where
  "give_back k s =
     (case release (db_locks s k) of
        (None, l) \<Rightarrow> with_lock k l s
      | (Some n, l) \<Rightarrow> to_phase n (Holder k) (with_lock k l s))"

section \<open>Steps\<close>

text \<open>A call, up to its first await: \<open>guarded\<close>, \<open>runTx\<close>, and the handle's \<open>live\<close>.\<close>

definition start_call :: "(nat \<Rightarrow> db_call) \<Rightarrow> nat \<Rightarrow> facade \<Rightarrow> facade" where
  "start_call calls i s =
     (case calls i of
        Stmt carried \<Rightarrow>
          (case currentTxScope s carried of
             Some p \<Rightarrow> to_phase i (Settled True) (send_cmd i (Exec (Some p)) s)
           | None \<Rightarrow> if \<not> lock_held (db_locks s None) then to_phase i (Settled True) (send_cmd i (Exec None) s)
                     else ask_lock i None s)
      | HandleStmt p \<Rightarrow> if active s p then to_phase i (Settled True) (send_cmd i (Exec (Some p)) s)
                        else to_phase i (Settled False) s
      | Tx carried \<Rightarrow> (case currentTxScope s carried of Some p \<Rightarrow> ask_lock i (Some p) s | None \<Rightarrow> ask_lock i None s)
      | HandleTx p \<Rightarrow> if active s p then ask_lock i (Some p) s else to_phase i (Settled False) s)"

text \<open>The continuation of a call that has its lock; \<open>ok\<close> is whether \<open>BEGIN\<close> or \<open>SAVEPOINT\<close> succeeds.\<close>

definition open_root :: "nat \<Rightarrow> bool \<Rightarrow> facade \<Rightarrow> facade" where
  "open_root i ok s =
     (let s1 = send_cmd i (Begin ok) s
      in if \<not> ok then give_back None (to_phase i (Settled False) s1)
         else to_phase i (InBody None) (activate i True (s1\<lparr>tree := (tree s1)(i := i), counter := (counter s1)(i := 0)\<rparr>)))"

definition open_nested :: "nat \<Rightarrow> nat \<Rightarrow> bool \<Rightarrow> facade \<Rightarrow> facade" where
  "open_nested i p ok s =
     (if \<not> active s p then give_back (Some p) (to_phase i (Settled False) s)
      else (let n = Suc (counter s (tree s p));
                s1 = send_cmd i (Savepoint p n ok) (s\<lparr>counter := (counter s)(tree s p := n)\<rparr>)
            in if \<not> ok then give_back (Some p) (to_phase i (Settled False) s1)
               else to_phase i (InBody (Some p))
                      (activate i True (s1\<lparr>tree := (tree s1)(i := tree s p), sp_number := (sp_number s1)(i := n)\<rparr>))))"

definition resume_db :: "(nat \<Rightarrow> db_call) \<Rightarrow> nat \<Rightarrow> bool \<Rightarrow> facade \<Rightarrow> facade" where
  "resume_db calls i ok s =
     (case at_phase s i of
        Holder k \<Rightarrow>
          (case calls i of
             Stmt _ \<Rightarrow> to_phase i (Ran k) (send_cmd i (Exec None) s)
           | HandleStmt _ \<Rightarrow> s
           | _ \<Rightarrow> (case k of None \<Rightarrow> open_root i ok s | Some p \<Rightarrow> open_nested i p ok s))
      | Ran k \<Rightarrow> give_back k (to_phase i (Settled True) s)
      | _ \<Rightarrow> s)"

text \<open>
  How a body ends: it returns and the engine accepts or refuses what follows, or it throws. The flags of the last two
  are, for a transaction, whether the handle is still in one and whether \<open>ROLLBACK\<close> is accepted (\<open>rollback\<close> catches
  the error of one that is not), and for a savepoint, whether \<open>ROLLBACK TO\<close> and \<open>RELEASE\<close> are accepted.
\<close>

datatype body_end = Returned | ReturnedRefused bool bool | BodyThrew bool bool

definition rollback_cmd :: "bool \<Rightarrow> bool \<Rightarrow> conn_cmd" where
  "rollback_cmd open_tx ok = (if open_tx then Rollback ok else Over)"

definition end_root :: "nat \<Rightarrow> body_end \<Rightarrow> facade \<Rightarrow> facade" where
  "end_root i e s =
     (let s1 = activate i False s in
      give_back None
        (case e of
           Returned \<Rightarrow> to_phase i (Settled True) (send_cmd i (Commit True) s1)
         | ReturnedRefused b ok \<Rightarrow> to_phase i (Settled False) (send_cmd i (rollback_cmd b ok) (send_cmd i (Commit False) s1))
         | BodyThrew b ok \<Rightarrow> to_phase i (Settled False) (send_cmd i (rollback_cmd b ok) s1)))"

definition end_nested :: "nat \<Rightarrow> nat \<Rightarrow> body_end \<Rightarrow> facade \<Rightarrow> facade" where
  "end_nested i p e s =
     (let s1 = activate i False s; n = sp_number s i in
      give_back (Some p)
        (case e of
           Returned \<Rightarrow> to_phase i (Settled True) (send_cmd i (ReleaseSp n True) s1)
         | ReturnedRefused _ _ \<Rightarrow> to_phase i (Settled False) (send_cmd i (ReleaseSp n False) s1)
         | BodyThrew b ok \<Rightarrow> to_phase i (Settled False)
             (let s2 = send_cmd i (RollbackTo n b) s1 in if b then send_cmd i (ReleaseSp n ok) s2 else s2)))"

definition end_body :: "nat \<Rightarrow> body_end \<Rightarrow> facade \<Rightarrow> facade" where
  "end_body i e s =
     (case at_phase s i of
        InBody None \<Rightarrow> end_root i e s
      | InBody (Some p) \<Rightarrow> end_nested i p e s
      | _ \<Rightarrow> s)"

text \<open>
  \<open>strict\<close>: no body ends while a transaction it opened inside itself is still in its body, that is, every nested
  transaction is awaited.
\<close>

inductive facade_step :: "bool \<Rightarrow> (nat \<Rightarrow> db_call) \<Rightarrow> facade \<Rightarrow> facade \<Rightarrow> bool" for strict calls where
  starts: "at_phase s i = NotStarted \<Longrightarrow> facade_step strict calls s (start_call calls i s)"
| resumes: "at_phase s i = Holder k \<or> at_phase s i = Ran k \<Longrightarrow> facade_step strict calls s (resume_db calls i ok s)"
| ends: "at_phase s i = InBody k \<Longrightarrow> strict \<longrightarrow> (\<forall>j. at_phase s j \<noteq> InBody (Some i)) \<Longrightarrow>
    facade_step strict calls s (end_body i e s)"

abbreviation facade_run :: "bool \<Rightarrow> (nat \<Rightarrow> db_call) \<Rightarrow> facade \<Rightarrow> bool" where
  "facade_run strict calls \<equiv> (facade_step strict calls)\<^sup>*\<^sup>* facade_start"

section \<open>The locks of the facade\<close>

definition db_owner :: "lock_key \<Rightarrow> facade \<Rightarrow> nat \<Rightarrow> bool" where
  "db_owner k s i \<longleftrightarrow> at_phase s i \<in> {Holder k, InBody k, Ran k}"

definition db_waiter :: "lock_key \<Rightarrow> facade \<Rightarrow> nat \<Rightarrow> bool" where
  "db_waiter k s i \<longleftrightarrow> at_phase s i = Queued k"

lemma facade_sel [simp]:
  "db_locks (to_phase i p s) = db_locks s" "at_phase (to_phase i p s) = (at_phase s)(i := p)"
  "active (to_phase i p s) = active s" "sent (to_phase i p s) = sent s"
  "db_locks (send_cmd i c s) = db_locks s" "at_phase (send_cmd i c s) = at_phase s"
  "active (send_cmd i c s) = active s" "sent (send_cmd i c s) = sent s @ [(i, c)]"
  "db_locks (with_lock k l s) = (db_locks s)(k := l)" "at_phase (with_lock k l s) = at_phase s"
  "active (with_lock k l s) = active s" "sent (with_lock k l s) = sent s"
  "db_locks (activate i b s) = db_locks s" "at_phase (activate i b s) = at_phase s"
  "active (activate i b s) = (active s)(i := b)" "sent (activate i b s) = sent s"
  by (simp_all add: to_phase_def send_cmd_def with_lock_def activate_def)

lemma view_cong: "at_phase s' = at_phase s \<Longrightarrow> db_owner k s' = db_owner k s \<and> db_waiter k s' = db_waiter k s"
  by (simp add: db_owner_def db_waiter_def fun_eq_iff)

text \<open>The phase that owns \<open>k\<close>, the phase that waits for \<open>k\<close>.\<close>

definition owning :: "lock_key \<Rightarrow> db_phase \<Rightarrow> bool" where
  "owning k p \<longleftrightarrow> p \<in> {Holder k, InBody k, Ran k}"

lemma db_owner_phase: "db_owner k s i \<longleftrightarrow> owning k (at_phase s i)"
  by (simp add: db_owner_def owning_def)

lemma owning_simps [simp]:
  "owning k (Holder j) \<longleftrightarrow> j = k" "owning k (InBody j) \<longleftrightarrow> j = k" "owning k (Ran j) \<longleftrightarrow> j = k"
  "\<not> owning k NotStarted" "\<not> owning k (Queued j)" "\<not> owning k (Settled b)"
  by (auto simp: owning_def)

abbreviation locks_fine :: "facade \<Rightarrow> bool" where
  "locks_fine s \<equiv> \<forall>k. lock_ok (db_locks s k) (db_owner k s) (db_waiter k s)"

definition db_move :: "lock_key \<Rightarrow> facade \<Rightarrow> facade \<Rightarrow> bool" where
  "db_move k s s' \<longleftrightarrow> lock_move (db_locks s k) (db_owner k s) (db_waiter k s) (db_locks s' k) (db_owner k s') (db_waiter k s')"

lemma move_still:
  assumes "db_locks s' k = db_locks s k" "db_owner k s' = db_owner k s" "db_waiter k s' = db_waiter k s"
  shows "db_move k s s'"
  unfolding db_move_def assms by (rule lock_move.still)

lemma move_phase:
  assumes "db_locks s' = db_locks s" "at_phase s' = (at_phase s)(i := p)"
    and "\<And>k. owning k p \<longleftrightarrow> owning k (at_phase s i)" "\<And>k. p \<noteq> Queued k \<and> at_phase s i \<noteq> Queued k"
  shows "db_move k s s'"
  by (rule move_still) (use assms in \<open>auto simp: fun_eq_iff db_owner_phase db_waiter_def\<close>)

lemma move_ask:
  assumes "at_phase s i = NotStarted"
  shows "db_move k s (ask_lock i j s)"
proof (cases "j = k")
  case False
  show ?thesis
    by (rule move_still) (use False assms in \<open>auto simp: ask_lock_def fun_eq_iff db_owner_phase db_waiter_def split: prod.splits\<close>)
next
  case True
  obtain b l where a: "acquire i (db_locks s k) = (b, l)" by fastforce
  have new: "\<not> db_owner k s i" "\<not> db_waiter k s i" using assms by (simp_all add: db_owner_phase db_waiter_def)
  show ?thesis
  proof (cases b)
    case b: True
    have view: "db_owner k (ask_lock i j s) = (db_owner k s)(i := True)" "db_waiter k (ask_lock i j s) = db_waiter k s"
      "db_locks (ask_lock i j s) k = l"
      using a b True assms by (auto simp: ask_lock_def fun_eq_iff db_owner_phase db_waiter_def)
    show ?thesis unfolding db_move_def view by (rule lock_move.take_it) (use new a b in simp_all)
  next
    case b: False
    have view: "db_owner k (ask_lock i j s) = db_owner k s" "db_waiter k (ask_lock i j s) = (db_waiter k s)(i := True)"
      "db_locks (ask_lock i j s) k = l"
      using a b True assms by (auto simp: ask_lock_def fun_eq_iff db_owner_phase db_waiter_def)
    show ?thesis unfolding db_move_def view by (rule lock_move.line_up) (use new a b in simp_all)
  qed
qed

text \<open>Giving a lock back, after the owner has settled.\<close>

lemma release_phase:
  "at_phase (give_back k s) = (case fst (release (db_locks s k)) of None \<Rightarrow> at_phase s | Some n \<Rightarrow> (at_phase s)(n := Holder k))"
  "db_locks (give_back k s) = (db_locks s)(k := snd (release (db_locks s k)))"
  "active (give_back k s) = active s" "sent (give_back k s) = sent s"
  by (simp_all add: give_back_def split: option.splits prod.splits)

lemma next_waits: "locks_fine s \<Longrightarrow> fst (release (db_locks s k)) = Some n \<Longrightarrow> at_phase s n = Queued k"
  by (auto simp: release_def lock_ok_def db_waiter_def split: list.splits)

lemma move_give_back:
  assumes ok: "locks_fine s" and own: "db_owner j s i"
    and s1: "db_locks s1 = db_locks s" "at_phase s1 = (at_phase s)(i := Settled b)"
  shows "db_move k s (give_back j s1)"
proof -
  obtain x l where r: "release (db_locks s j) = (x, l)" by fastforce
  have notw: "\<not> db_waiter m s i" for m using own by (auto simp: db_owner_def db_waiter_def)
  have ni: "n \<noteq> i" "at_phase s n = Queued j" if "x = Some n" for n
    using next_waits [OF ok, of j n] r that own by (auto simp: db_owner_def)
  show ?thesis
  proof (cases "k = j")
    case False
    have "\<not> db_owner k s i" using own False by (auto simp: db_owner_phase owning_def)
    with False notw ni show ?thesis
      by (intro move_still) (auto simp: release_phase s1 r fun_eq_iff db_owner_phase db_waiter_def split: option.splits)
  next
    case True
    have lock: "db_locks (give_back j s1) k = l" by (simp add: release_phase s1 r True)
    show ?thesis
    proof (cases x)
      case None
      have own': "db_owner k (give_back j s1) = (db_owner k s)(i := False)" and wait': "db_waiter k (give_back j s1) = db_waiter k s"
        using notw None by (auto simp: release_phase s1 r fun_eq_iff db_owner_phase db_waiter_def)
      show ?thesis unfolding db_move_def own' wait' lock
        by (rule lock_move.set_free) (use own r True None in auto)
    next
      case (Some n)
      have own': "db_owner k (give_back j s1) = (db_owner k s)(i := False, n := True)"
        and wait': "db_waiter k (give_back j s1) = (db_waiter k s)(n := False)"
        using notw Some ni [OF Some] True by (auto simp: release_phase s1 r fun_eq_iff db_owner_phase db_waiter_def)
      show ?thesis unfolding db_move_def own' wait' lock
        by (rule lock_move.hand_over) (use own r True Some in auto)
    qed
  qed
qed

lemma facade_moves:
  assumes "facade_step strict calls s s'" "locks_fine s"
  shows "db_move k s s'"
  using assms(1)
proof cases
  case (starts i)
  have "db_move k s (to_phase i (Settled b) (send_cmd i c s))" "db_move k s (to_phase i (Settled b) s)" for b c
    using starts(2) by (auto intro!: move_phase [of _ s i "Settled b"])
  then show ?thesis
    using move_ask [OF starts(2)] by (auto simp: starts(1) start_call_def split: db_call.splits option.splits)
next
  case (resumes i j ok)
  from resumes(2) have own: "db_owner j s i" by (auto simp: db_owner_phase)
  have settle: "db_move k s (give_back j s1)" if "db_locks s1 = db_locks s" "at_phase s1 = (at_phase s)(i := Settled b)" for s1 b
    by (rule move_give_back [OF assms(2) own that])
  show ?thesis
  proof (cases "at_phase s i = Ran j")
    case True
    with settle [of _ True] show ?thesis by (simp add: resumes(1) resume_db_def)
  next
    case False
    with resumes(2) have h: "at_phase s i = Holder j" by blast
    have body: "db_move k s s1" if "db_locks s1 = db_locks s" "at_phase s1 = (at_phase s)(i := InBody j)" for s1
      by (rule move_phase [OF that]) (use h in auto)
    have root: "db_move k s (open_root i ok s)" if "j = None"
      using that settle [of _ False] body by (cases ok) (simp_all add: open_root_def Let_def)
    have nested: "db_move k s (open_nested i q ok s)" if "j = Some q" for q
      using that settle [of _ False] body by (cases "active s q"; cases ok) (simp_all add: open_nested_def Let_def)
    show ?thesis
    proof (cases "calls i")
      case (Stmt x)
      have "db_move k s (to_phase i (Ran j) (send_cmd i (Exec None) s))"
        by (rule move_phase [of _ s i "Ran j"]) (use h in auto)
      with Stmt h show ?thesis by (simp add: resumes(1) resume_db_def)
    next
      case (HandleStmt x)
      with h show ?thesis by (simp add: resumes(1) resume_db_def move_still)
    next
      case (Tx x)
      with h root nested show ?thesis by (cases j) (simp_all add: resumes(1) resume_db_def)
    next
      case (HandleTx x)
      with h root nested show ?thesis by (cases j) (simp_all add: resumes(1) resume_db_def)
    qed
  qed
next
  case (ends i j e)
  then have own: "db_owner j s i" by (simp add: db_owner_phase)
  have settle: "db_move k s (give_back j s1)" if "db_locks s1 = db_locks s" "at_phase s1 = (at_phase s)(i := Settled b)" for s1 b
    by (rule move_give_back [OF assms(2) own that])
  show ?thesis
  proof (cases j)
    case None
    with ends show ?thesis
      using settle by (cases e) (simp_all add: end_body_def end_root_def Let_def)
  next
    case (Some q)
    with ends show ?thesis
      using settle by (cases e) (simp_all add: end_body_def end_nested_def Let_def)
  qed
qed

interpretation conn: lock_user facade_start "facade_step strict calls" "\<lambda>k s. db_locks s k" db_owner db_waiter for strict calls
proof
  fix k
  show "db_locks facade_start k = free_lock \<and> db_owner k facade_start = (\<lambda>_. False) \<and> db_waiter k facade_start = (\<lambda>_. False)"
    by (simp add: facade_start_def db_owner_def db_waiter_def fun_eq_iff)
next
  fix s s' k
  assume "facade_step strict calls s s'" "locks_fine s"
  then show "lock_move (db_locks s k) (db_owner k s) (db_waiter k s) (db_locks s' k) (db_owner k s') (db_waiter k s')"
    using facade_moves by (simp add: db_move_def)
qed

section \<open>What the connection sees\<close>

text \<open>
  The recogniser of a serial history: the open transaction and its savepoints, innermost first. A transaction begins
  only when none is open, a savepoint only under the innermost scope; a statement of a transaction runs inside it and
  one of no transaction runs when none is open; scopes close from the innermost outwards.
\<close>

fun scan :: "nat list \<Rightarrow> nat \<times> conn_cmd \<Rightarrow> nat list option" where
  "scan st (i, Exec None) = (if st = [] then Some [] else None)"
| "scan st (i, Exec (Some p)) = (if p \<in> set st then Some st else None)"
| "scan st (i, Begin ok) = (if st = [] then Some (if ok then [i] else []) else None)"
| "scan st (i, Commit ok) = (if st = [i] then Some (if ok then [] else st) else None)"
| "scan st (i, Rollback ok) = (if st = [i] then Some (if ok then [] else st) else None)"
| "scan st (i, Over) = (if st = [i] then Some [] else None)"
| "scan (p # st) (i, Savepoint q n ok) = (if p = q then Some (if ok then i # p # st else p # st) else None)"
| "scan (j # st) (i, RollbackTo n ok) = (if i = j \<and> st \<noteq> [] then Some (j # st) else None)"
| "scan (j # st) (i, ReleaseSp n ok) = (if i = j \<and> st \<noteq> [] then Some (if ok then st else j # st) else None)"
| "scan [] _ = None"

fun scan_log :: "nat list \<Rightarrow> (nat \<times> conn_cmd) list \<Rightarrow> nat list option" where
  "scan_log st [] = Some st"
| "scan_log st (c # cs) = (case scan st c of None \<Rightarrow> None | Some st' \<Rightarrow> scan_log st' cs)"

lemma scan_log_append [simp]: "scan_log st (cs @ ds) = (case scan_log st cs of None \<Rightarrow> None | Some st' \<Rightarrow> scan_log st' ds)"
  by (induction cs arbitrary: st) (auto split: option.splits)

text \<open>The engine refused to undo or to release something, so a scope the facade takes for closed is still open in it.\<close>

fun left_open :: "conn_cmd \<Rightarrow> bool" where
  "left_open (Rollback ok) = (\<not> ok)"
| "left_open (RollbackTo n ok) = (\<not> ok)"
| "left_open (ReleaseSp n ok) = (\<not> ok)"
| "left_open _ = False"

definition all_undone :: "facade \<Rightarrow> bool" where
  "all_undone s \<longleftrightarrow> list_all (\<lambda>(i, c). \<not> left_open c) (sent s)"

text \<open>The open bodies as a chain: each the only child of the next, the last one the transaction.\<close>

fun chain :: "(nat \<Rightarrow> db_phase) \<Rightarrow> nat list \<Rightarrow> bool" where
  "chain f [] \<longleftrightarrow> True"
| "chain f [i] \<longleftrightarrow> f i = InBody None"
| "chain f (i # p # st) \<longleftrightarrow> f i = InBody (Some p) \<and> chain f (p # st)"

lemma chain_cong: "chain f st \<Longrightarrow> (\<And>i. i \<in> set st \<Longrightarrow> g i = f i) \<Longrightarrow> chain g st"
  by (induction f st rule: chain.induct) auto

lemma chain_root: "chain f st \<Longrightarrow> st \<noteq> [] \<Longrightarrow> \<exists>r\<in>set st. f r = InBody None"
  by (induction f st rule: chain.induct) auto

lemma chain_child: "chain f (i # st) \<Longrightarrow> p \<in> set st \<Longrightarrow> \<exists>q. f q = InBody (Some p)"
  by (induction f "i # st" arbitrary: i st rule: chain.induct) auto

definition open_bodies :: "facade \<Rightarrow> nat list \<Rightarrow> bool" where
  "open_bodies s st \<longleftrightarrow> scan_log [] (sent s) = Some st \<and> chain (at_phase s) st \<and> distinct st
     \<and> (\<forall>i. active s i \<longleftrightarrow> i \<in> set st) \<and> (\<forall>i. (\<exists>k. at_phase s i = InBody k) \<longleftrightarrow> i \<in> set st)"

text \<open>A step that opens and closes no body.\<close>

lemma quiet_step:
  assumes "open_bodies s st" "sent s' = sent s @ cs" "scan_log st cs = Some st" "active s' = active s"
    and "\<And>i k. at_phase s' i = InBody k \<longleftrightarrow> at_phase s i = InBody k"
  shows "open_bodies s' st"
proof -
  have "chain (at_phase s') st"
  proof (rule chain_cong)
    show "chain (at_phase s) st" using assms(1) by (simp add: open_bodies_def)
    show "at_phase s' i = at_phase s i" if "i \<in> set st" for i
      using assms(1,5) that by (metis open_bodies_def)
  qed
  with assms show ?thesis by (simp add: open_bodies_def)
qed

lemma give_back_open:
  assumes ok: "locks_fine s" and i: "db_owner k s i"
    and s1: "db_locks s1 = db_locks s" "at_phase s1 = (at_phase s)(i := Settled b)" and b: "open_bodies s1 st"
  shows "open_bodies (give_back k s1) st"
proof (rule quiet_step [OF b, of _ "[]"])
  fix n j
  have "at_phase s1 m \<noteq> InBody l" if "fst (release (db_locks s1 k)) = Some m" for m l
    using next_waits [OF ok, of k m] that s1 by auto
  then show "at_phase (give_back k s1) n = InBody j \<longleftrightarrow> at_phase s1 n = InBody j"
    by (auto simp: release_phase split: option.splits)
qed (simp_all add: release_phase)

text \<open>Whoever holds the lock of the connection without a body, or finds it free, finds no body open.\<close>

lemma none_open:
  assumes "locks_fine s" "open_bodies s st" "\<And>r. db_owner None s r \<Longrightarrow> at_phase s r \<noteq> InBody None"
  shows "st = []"
proof (rule ccontr)
  assume "st \<noteq> []"
  with assms(2) obtain r where "at_phase s r = InBody None" using chain_root unfolding open_bodies_def by metis
  with assms(3) [of r] show False by (simp add: db_owner_phase)
qed

text \<open>Whoever holds the lock of the savepoints of \<open>p\<close> without a body finds \<open>p\<close> innermost.\<close>

lemma innermost:
  assumes "locks_fine s" "open_bodies s st" "active s p" "\<And>r. at_phase s r \<noteq> InBody (Some p)"
  obtains st' where "st = p # st'"
proof -
  from assms(2,3) have p: "p \<in> set st" and c: "chain (at_phase s) st" by (simp_all add: open_bodies_def)
  then obtain q st' where st: "st = q # st'" by (cases st) auto
  with c p assms(4) chain_child have "q = p" by fastforce
  with st that show ?thesis by blast
qed

lemma same_owner: "locks_fine s \<Longrightarrow> db_owner k s i \<Longrightarrow> db_owner k s j \<Longrightarrow> j = i"
  by (auto simp: lock_ok_def)

lemma start_open:
  assumes ok: "locks_fine s" and b: "open_bodies s st" and f: "at_phase s i = NotStarted"
  shows "open_bodies (start_call calls i s) st"
proof -
  have ask: "open_bodies (ask_lock i k s) st" for k
    by (rule quiet_step [OF b, of _ "[]"]) (use f in \<open>auto simp: ask_lock_def split: prod.splits\<close>)
  have run: "open_bodies (to_phase i (Settled True) (send_cmd i (Exec x) s)) st" if "scan st (i, Exec x) = Some st" for x
    by (rule quiet_step [OF b, of _ "[(i, Exec x)]"]) (use f that in auto)
  have refuse: "open_bodies (to_phase i (Settled False) s) st"
    by (rule quiet_step [OF b, of _ "[]"]) (use f in auto)
  have free: "open_bodies (to_phase i (Settled True) (send_cmd i (Exec None) s)) st" if "\<not> lock_held (db_locks s None)"
  proof -
    have "st = []" by (rule none_open [OF ok b]) (use ok that in \<open>auto simp: lock_ok_def\<close>)
    then show ?thesis by (intro run) simp
  qed
  have inside: "open_bodies (to_phase i (Settled True) (send_cmd i (Exec (Some p)) s)) st" if "active s p" for p
    by (rule run) (use b that in \<open>simp add: open_bodies_def\<close>)
  show ?thesis
    by (simp add: start_call_def currentTxScope_def ask refuse free inside split: db_call.splits option.splits)
qed

lemma open_root_open:
  assumes ok: "locks_fine s" and b: "open_bodies s st" and h: "at_phase s i = Holder None"
  shows "\<exists>st. open_bodies (open_root i okay s) st"
proof -
  have own: "db_owner None s i" using h by (simp add: db_owner_phase)
  have st: "st = []" by (rule none_open [OF ok b]) (use same_owner [OF ok own] h in auto)
  show ?thesis
  proof (cases okay)
    case False
    have "open_bodies (to_phase i (Settled False) (send_cmd i (Begin False) s)) []"
      by (rule quiet_step [of s "[]" _ "[(i, Begin False)]"]) (use b st h in auto)
    then have "open_bodies (give_back None (to_phase i (Settled False) (send_cmd i (Begin False) s))) []"
      by (intro give_back_open [OF ok own]) simp_all
    with False show ?thesis by (auto simp: open_root_def Let_def)
  next
    case True
    have "open_bodies (open_root i okay s) [i]"
      using b st h True by (auto simp: open_bodies_def open_root_def Let_def)
    then show ?thesis by blast
  qed
qed

lemma open_nested_open:
  assumes ok: "locks_fine s" and b: "open_bodies s st" and h: "at_phase s i = Holder (Some p)"
  shows "\<exists>st. open_bodies (open_nested i p okay s) st"
proof -
  have own: "db_owner (Some p) s i" using h by (simp add: db_owner_phase)
  show ?thesis
  proof (cases "active s p")
    case False
    have "open_bodies (to_phase i (Settled False) s) st" by (rule quiet_step [OF b, of _ "[]"]) (use h in auto)
    then have "open_bodies (give_back (Some p) (to_phase i (Settled False) s)) st"
      by (intro give_back_open [OF ok own]) simp_all
    with False show ?thesis by (auto simp: open_nested_def)
  next
    case act: True
    have "at_phase s r \<noteq> InBody (Some p)" for r
      using same_owner [OF ok own, of r] h by (auto simp: db_owner_phase)
    then obtain st' where st: "st = p # st'" using innermost [OF ok b act] by blast
    define s1 where "s1 = s\<lparr>counter := (counter s)(tree s p := Suc (counter s (tree s p)))\<rparr>"
    let ?n = "Suc (counter s (tree s p))"
    have s1: "at_phase s1 = at_phase s" "db_locks s1 = db_locks s" "sent s1 = sent s" "active s1 = active s"
      by (simp_all add: s1_def)
    show ?thesis
    proof (cases okay)
      case False
      have "open_bodies (to_phase i (Settled False) (send_cmd i (Savepoint p ?n False) s1)) st"
        by (rule quiet_step [OF b, of _ "[(i, Savepoint p ?n False)]"]) (use st h s1 in auto)
      then have "open_bodies (give_back (Some p) (to_phase i (Settled False) (send_cmd i (Savepoint p ?n False) s1))) st"
        by (intro give_back_open [OF ok own]) (simp_all add: s1)
      with False act show ?thesis by (auto simp: open_nested_def s1_def Let_def)
    next
      case True
      have new: "i \<notin> set st"
      proof
        assume "i \<in> set st"
        with b obtain j where "at_phase s i = InBody j" unfolding open_bodies_def by blast
        with h show False by simp
      qed
      from b have facts: "scan_log [] (sent s) = Some st" "chain (at_phase s) st" "distinct st"
        "\<And>j. active s j \<longleftrightarrow> j \<in> set st" "\<And>j. (\<exists>k. at_phase s j = InBody k) \<longleftrightarrow> j \<in> set st"
        by (simp_all add: open_bodies_def)
      let ?s' = "open_nested i p okay s"
      have s': "at_phase ?s' = (at_phase s)(i := InBody (Some p))" "active ?s' = (active s)(i := True)"
        "sent ?s' = sent s @ [(i, Savepoint p ?n True)]"
        using True act by (simp_all add: open_nested_def Let_def)
      have "chain (at_phase ?s') st" by (rule chain_cong [OF facts(2)]) (use new s' in auto)
      then have "chain (at_phase ?s') (i # st)" by (simp add: st s')
      moreover have "scan_log [] (sent ?s') = Some (i # st)" using facts(1) by (simp add: s' st)
      ultimately have "open_bodies ?s' (i # st)" using new facts(3,4,5) by (simp add: open_bodies_def s')
      then show ?thesis by blast
    qed
  qed
qed

text \<open>The end of the innermost body: its commands close its scope.\<close>

lemma close_step:
  assumes ok: "locks_fine s" and b: "open_bodies s (i # st)" and i: "at_phase s i = InBody k"
    and s1: "db_locks s1 = db_locks s" "at_phase s1 = (at_phase s)(i := Settled r)" "active s1 = (active s)(i := False)"
      "sent s1 = sent s @ cs" "scan_log (i # st) cs = Some st"
  shows "open_bodies (give_back k s1) st"
proof (rule give_back_open [OF ok _ s1(1,2)])
  show "db_owner k s i" using i by (simp add: db_owner_phase)
  have "chain (at_phase s) st" using b by (cases st) (auto simp: open_bodies_def)
  then have "chain (at_phase s1) st"
    by (rule chain_cong) (use b s1 in \<open>auto simp: open_bodies_def\<close>)
  with b s1 show "open_bodies s1 st" by (auto simp: open_bodies_def)
qed

lemma end_open:
  assumes ok: "locks_fine s" and b: "open_bodies s st" and i: "at_phase s i = InBody k"
    and strict: "\<And>j. at_phase s j \<noteq> InBody (Some i)" and undone: "all_undone (end_body i e s)"
  shows "\<exists>st. open_bodies (end_body i e s) st"
proof -
  have "active s i" using b i by (auto simp: open_bodies_def)
  then obtain st' where st: "st = i # st'" using innermost [OF ok b _ strict] by blast
  note close = close_step [OF ok b [unfolded st] i]
  show ?thesis
  proof (cases k)
    case None
    with b i st have "st' = []" by (cases st') (auto simp: open_bodies_def)
    with close i None undone show ?thesis
      by (cases e) (auto simp: all_undone_def release_phase end_body_def end_root_def Let_def rollback_cmd_def intro!: exI [of _ "[]"])
  next
    case (Some p)
    with b i st have "st' \<noteq> []" by (cases st') (auto simp: open_bodies_def)
    with close i Some undone show ?thesis
      by (cases e) (auto simp: all_undone_def release_phase end_body_def end_nested_def Let_def intro!: exI [of _ st'])
  qed
qed

lemma resume_open:
  assumes ok: "locks_fine s" and b: "open_bodies s st" and h: "at_phase s i = Holder k \<or> at_phase s i = Ran k"
    and key: "\<And>x. calls i = Stmt x \<Longrightarrow> k = None"
  shows "\<exists>st. open_bodies (resume_db calls i okay s) st"
proof (cases "at_phase s i = Holder k")
  case True
  have run: "open_bodies (to_phase i (Ran None) (send_cmd i (Exec None) s)) st" if "k = None"
  proof (rule quiet_step [OF b, of _ "[(i, Exec None)]"])
    have own: "db_owner None s i" using True that by (simp add: db_owner_phase)
    have "st = []" by (rule none_open [OF ok b]) (use same_owner [OF ok own] True in auto)
    then show "scan_log st [(i, Exec None)] = Some st" by simp
  qed (use True in auto)
  have "\<exists>st. open_bodies (case k of None \<Rightarrow> open_root i okay s | Some p \<Rightarrow> open_nested i p okay s) st"
    using open_root_open [OF ok b, of i] open_nested_open [OF ok b, of i] True by (auto split: option.split)
  with True run key b show ?thesis by (auto simp: resume_db_def split: db_call.split)
next
  case False
  with h have r: "at_phase s i = Ran k" by blast
  have own: "db_owner k s i" using r by (simp add: db_owner_phase)
  have "open_bodies (to_phase i (Settled True) s) st" by (rule quiet_step [OF b, of _ "[]"]) (use r in auto)
  then have "open_bodies (give_back k (to_phase i (Settled True) s)) st" by (intro give_back_open [OF ok own]) simp_all
  with r show ?thesis by (auto simp: resume_db_def)
qed

text \<open>A plain statement only ever asks for the lock of the connection.\<close>

definition stmt_key :: "db_call \<Rightarrow> db_phase \<Rightarrow> bool" where
  "stmt_key c p \<longleftrightarrow> (\<forall>x k. c = Stmt x \<longrightarrow> p \<in> {Queued k, Holder k, Ran k} \<longrightarrow> k = None)"

lemma stmt_key_simps [simp]:
  "stmt_key c NotStarted" "stmt_key c (Settled b)" "stmt_key c (InBody j)" "stmt_key (HandleStmt x) p"
  "stmt_key (Tx y) p" "stmt_key (HandleTx x) p"
  "stmt_key (Stmt y) (Queued k) \<longleftrightarrow> k = None" "stmt_key (Stmt y) (Holder k) \<longleftrightarrow> k = None" "stmt_key (Stmt y) (Ran k) \<longleftrightarrow> k = None"
  by (auto simp: stmt_key_def)

lemma stmt_key_cong: "stmt_key c (Queued k) \<Longrightarrow> stmt_key c (Holder k)" "stmt_key c (Holder k) \<Longrightarrow> stmt_key c (Ran k)"
  by (auto simp: stmt_key_def)

abbreviation statement_keys :: "(nat \<Rightarrow> db_call) \<Rightarrow> facade \<Rightarrow> bool" where
  "statement_keys calls s \<equiv> \<forall>i. stmt_key (calls i) (at_phase s i)"

lemma give_back_keys:
  assumes "locks_fine s" "db_owner k s i" "statement_keys calls s" "db_locks s1 = db_locks s" "at_phase s1 = (at_phase s)(i := Settled b)"
  shows "statement_keys calls (give_back k s1)"
proof -
  have "stmt_key (calls n) (Holder k)" if "fst (release (db_locks s k)) = Some n" for n
    using next_waits [OF assms(1) that] assms(3) stmt_key_cong(1) by metis
  with assms(3-5) show ?thesis by (auto simp: release_phase split: option.split)
qed

lemma statement_keys_step:
  assumes "facade_step strict calls s s'" "locks_fine s" "statement_keys calls s"
  shows "statement_keys calls s'"
  using assms(1)
proof cases
  case (starts i)
  with assms(3) show ?thesis
    by (auto simp: start_call_def ask_lock_def split: db_call.split option.split prod.split)
next
  case (resumes i k ok)
  then have own: "db_owner k s i" by (auto simp: db_owner_phase)
  note settle = give_back_keys [OF assms(2) own assms(3)]
  have key: "stmt_key (calls i) (Ran k)" if "at_phase s i = Holder k" using assms(3) that stmt_key_cong(2) by metis
  from resumes(2) show ?thesis
  proof
    assume h: "at_phase s i = Holder k"
    with settle assms(3) have "statement_keys calls (case k of None \<Rightarrow> open_root i ok s | Some p \<Rightarrow> open_nested i p ok s)"
      by (auto simp: open_root_def open_nested_def Let_def split: option.split)
    with h key assms(3) show ?thesis by (auto simp: resumes(1) resume_db_def split: db_call.split)
  next
    assume "at_phase s i = Ran k"
    with settle show ?thesis by (simp add: resumes(1) resume_db_def)
  qed
next
  case (ends i k e)
  then have own: "db_owner k s i" by (simp add: db_owner_phase)
  note settle = give_back_keys [OF assms(2) own assms(3)]
  with ends show ?thesis
    by (cases e; cases k) (auto simp: end_body_def end_root_def end_nested_def Let_def)
qed

text \<open>What was sent stays sent.\<close>

lemma sent_grows: "facade_step strict calls s s' \<Longrightarrow> \<exists>cs. sent s' = sent s @ cs"
proof (induction rule: facade_step.induct)
  case (starts s i)
  show ?case by (auto simp: start_call_def ask_lock_def split: db_call.split option.split prod.split)
next
  case (resumes s i k ok)
  show ?case by (auto simp: resume_db_def open_root_def open_nested_def release_phase Let_def split: db_phase.split db_call.split option.split)
next
  case (ends s i k e)
  show ?case by (auto simp: end_body_def end_root_def end_nested_def release_phase Let_def split: db_phase.split option.split body_end.split)
qed

lemma undone_before: "facade_step strict calls s s' \<Longrightarrow> all_undone s' \<Longrightarrow> all_undone s"
  using sent_grows by (fastforce simp: all_undone_def)

text \<open>In a strict run the commands sent so far are a serial history, whose open scopes are the open bodies.\<close>

lemma facade_keys: "facade_run True calls s \<Longrightarrow> statement_keys calls s"
proof (induction rule: rtranclp_induct)
  case base
  show ?case by (simp add: facade_start_def)
next
  case (step s s')
  show ?case by (rule statement_keys_step [OF step(2) conn.locks_ok [OF step(1)] step.IH])
qed

lemma facade_serial: "facade_run True calls s \<Longrightarrow> all_undone s \<Longrightarrow> \<exists>st. open_bodies s st"
proof (induction rule: rtranclp_induct)
  case base
  show ?case by (auto simp: open_bodies_def facade_start_def intro!: exI [of _ "[]"])
next
  case (step s s')
  have ok: "locks_fine s" by (rule conn.locks_ok [OF step(1)])
  obtain st where b: "open_bodies s st" using step.IH undone_before [OF step(2,4)] by blast
  from step(2) show ?case
  proof cases
    case (starts i)
    with start_open [OF ok b] show ?thesis by blast
  next
    case (resumes i k okay)
    have "k = None" if "calls i = Stmt x" for x
      using facade_keys [OF step(1)] resumes(2) that by (metis stmt_key_simps(8,9))
    with resume_open [OF ok b resumes(2)] resumes(1) show ?thesis by blast
  next
    case (ends i k e)
    with end_open [OF ok b ends(2)] step(4) show ?thesis by blast
  qed
qed

text \<open>
  C5: transactions are isolated. In a program that awaits every transaction it opens inside another, whatever the
  interleaving of its calls and whichever of its bodies, statements, openings and commits fail, the commands the connection has
  seen form a serial history: no statement of another caller and no second \<open>BEGIN\<close> falls between the \<open>BEGIN\<close> of a
  transaction and its end, savepoints nest, and the scopes open at the end of the history are exactly the bodies now
  running - as long as the engine has refused no \<open>ROLLBACK\<close>, \<open>ROLLBACK TO\<close> or \<open>RELEASE\<close>, whose errors the facade swallows
  or passes on while it gives the lock back.
\<close>

theorem transactions_isolated:
  assumes "facade_run True calls s" and "all_undone s"
  shows "\<exists>st. scan_log [] (sent s) = Some st \<and> distinct st \<and> (\<forall>i. i \<in> set st \<longleftrightarrow> (\<exists>k. at_phase s i = InBody k))"
  using facade_serial [OF assms] by (auto simp: open_bodies_def)

section \<open>Concrete runs\<close>

datatype facade_act = Start nat | Resume nat bool | EndBody nat body_end

fun act_ok :: "bool \<Rightarrow> facade \<Rightarrow> facade_act \<Rightarrow> bool" where
  "act_ok strict s (Start i) = (at_phase s i = NotStarted)"
| "act_ok strict s (Resume i _) = (case at_phase s i of Holder _ \<Rightarrow> True | Ran _ \<Rightarrow> True | _ \<Rightarrow> False)"
| "act_ok strict s (EndBody i _) = ((case at_phase s i of InBody _ \<Rightarrow> True | _ \<Rightarrow> False)
     \<and> (strict \<longrightarrow> (\<forall>j. at_phase s j \<noteq> InBody (Some i))))"

fun perform :: "(nat \<Rightarrow> db_call) \<Rightarrow> facade \<Rightarrow> facade_act \<Rightarrow> facade" where
  "perform calls s (Start i) = start_call calls i s"
| "perform calls s (Resume i ok) = resume_db calls i ok s"
| "perform calls s (EndBody i e) = end_body i e s"

fun facade_plays :: "bool \<Rightarrow> (nat \<Rightarrow> db_call) \<Rightarrow> facade \<Rightarrow> facade_act list \<Rightarrow> facade option" where
  "facade_plays strict calls s [] = Some s"
| "facade_plays strict calls s (a # as) = (if act_ok strict s a then facade_plays strict calls (perform calls s a) as else None)"

lemma act_step: "act_ok strict s a \<Longrightarrow> facade_step strict calls s (perform calls s a)"
  by (cases a) (auto split: db_phase.splits intro: facade_step.intros)

lemma plays_run: "facade_plays strict calls s as = Some s' \<Longrightarrow> (facade_step strict calls)\<^sup>*\<^sup>* s s'"
proof (induction as arbitrary: s)
  case (Cons a as)
  then have "act_ok strict s a" "(facade_step strict calls)\<^sup>*\<^sup>* (perform calls s a) s'" by (auto split: if_splits)
  then show ?case by (blast intro: act_step converse_rtranclp_into_rtranclp)
qed simp

lemmas play_simps = facade_start_def start_call_def resume_db_def end_body_def open_root_def open_nested_def end_root_def
  end_nested_def ask_lock_def give_back_def currentTxScope_def acquire_def release_def free_lock_def rollback_cmd_def
  to_phase_def send_cmd_def with_lock_def activate_def

text \<open>
  Two transactions and a statement at once: the second transaction and the statement wait; the first has a savepoint
  that fails, is rolled back, and commits.
\<close>

definition two_calls :: "nat \<Rightarrow> db_call" where
  "two_calls = (\<lambda>_. Stmt None)(0 := Tx None, 1 := HandleTx 0, 2 := Tx None, 3 := Stmt None, 4 := Stmt (Some 1))"

definition two_acts :: "facade_act list" where
  "two_acts = [Start 0, Start 2, Start 3, Resume 0 True, Start 1, Resume 1 True, Start 4, EndBody 1 (BodyThrew True True),
     EndBody 0 Returned, Resume 2 True]"

lemma two_play:
  "\<exists>s. facade_plays True two_calls facade_start two_acts = Some s \<and> at_phase s 2 = InBody None
     \<and> sent s = [(0, Begin True), (1, Savepoint 0 1 True), (4, Exec (Some 1)), (1, RollbackTo 1 True), (1, ReleaseSp 1 True),
         (0, Commit True), (2, Begin True)]"
  by (simp add: two_acts_def two_calls_def play_simps)

theorem transactions_isolated_witness:
  "\<exists>s. facade_run True two_calls s \<and> length (sent s) = 7 \<and> (\<exists>st. scan_log [] (sent s) = Some st \<and> 2 \<in> set st)"
proof -
  obtain s where s: "facade_plays True two_calls facade_start two_acts = Some s" "at_phase s 2 = InBody None" "length (sent s) = 7" "all_undone s"
    using two_play by (force simp: all_undone_def)
  have run: "facade_run True two_calls s" by (rule plays_run [OF s(1)])
  obtain st where "scan_log [] (sent s) = Some st" "\<forall>i. i \<in> set st \<longleftrightarrow> (\<exists>k. at_phase s i = InBody k)"
    using transactions_isolated [OF run s(4)] by blast
  with run s show ?thesis by blast
qed

text \<open>
  A \<open>ROLLBACK\<close> that the engine refuses: its error is caught and the lock given back, so the next caller's statement runs
  inside the transaction that is still open.
\<close>

definition stuck_calls :: "nat \<Rightarrow> db_call" where
  "stuck_calls = (\<lambda>_. Stmt None)(0 := Tx None)"

lemma failed_rollback_leaks:
  "\<exists>s. facade_run True stuck_calls s \<and> sent s = [(0, Begin True), (0, Rollback False), (1, Exec None)] \<and> scan_log [] (sent s) = None"
proof -
  obtain s where "facade_plays True stuck_calls facade_start [Start 0, Resume 0 True, EndBody 0 (BodyThrew True False), Start 1] = Some s"
      "sent s = [(0, Begin True), (0, Rollback False), (1, Exec None)]"
    by (simp add: stuck_calls_def play_simps)
  with plays_run show ?thesis by fastforce
qed

text \<open>
  A transaction opened inside another and not awaited: the outer body returns and commits, the inner scope stays
  active, and a statement of its handle runs inside the transaction of somebody else.
\<close>

definition stray_calls :: "nat \<Rightarrow> db_call" where
  "stray_calls = (\<lambda>_. Stmt None)(0 := Tx None, 1 := HandleTx 0, 2 := Tx None, 3 := HandleStmt 1)"

definition stray_acts :: "facade_act list" where
  "stray_acts = [Start 0, Start 2, Resume 0 True, Start 1, Resume 1 True, EndBody 0 Returned, Resume 2 True, Start 3]"

lemma stray_play:
  "\<exists>s. facade_plays False stray_calls facade_start stray_acts = Some s
     \<and> sent s = [(0, Begin True), (1, Savepoint 0 1 True), (0, Commit True), (2, Begin True), (3, Exec (Some 1))]"
  by (simp add: stray_acts_def stray_calls_def play_simps)

text \<open>
  the restriction to awaited transactions is needed. The handle of a nested transaction that was not awaited goes on
  working after the outer transaction has committed: its statement is sent while the transaction of another caller is
  open, under neither its lock nor its savepoint.
\<close>

theorem stray_handle_escapes:
  "\<exists>s. facade_run False stray_calls s \<and> scan_log [] (sent s) = None
     \<and> sent s = [(0, Begin True), (1, Savepoint 0 1 True), (0, Commit True), (2, Begin True), (3, Exec (Some 1))]"
proof -
  obtain s where s: "facade_plays False stray_calls facade_start stray_acts = Some s"
    "sent s = [(0, Begin True), (1, Savepoint 0 1 True), (0, Commit True), (2, Begin True), (3, Exec (Some 1))]"
    using stray_play by blast
  have "scan_log [] (sent s) = None" by (simp add: s(2))
  with plays_run [OF s(1)] s(2) show ?thesis by blast
qed

end
