(* ===== verification/ServerMarkers.thy ===== *)
theory ServerMarkers
  imports ApprovalRules
begin

text \<open>
  The markers only the server may open a line with, \<open>src/server-markers.ts\<close>, and the filter that refuses a message in
  which anybody else does. A text is a list of code points here, because a character reference may decode to any of
  them. What the platform knows about Unicode (normalisation, case folding, categories) is the record \<open>unicode\<close>.
\<close>

type_synonym points = "nat list"

record unicode =
  nfkd :: "points \<Rightarrow> points"
  to_lower :: "points \<Rightarrow> points"
  cat_M :: "nat \<Rightarrow> bool"
  cat_Cf :: "nat \<Rightarrow> bool"
  cat_Z :: "nat \<Rightarrow> bool"

definition points_of :: "string \<Rightarrow> points" where
  "points_of s = map code s"

section \<open>Markers\<close>

definition SERVER_SENDER :: string where
  "SERVER_SENDER = ''system''"

definition MARKER_APPROVAL_REQUEST :: string where "MARKER_APPROVAL_REQUEST = ''[APPROVAL_REQUEST]''"
definition MARKER_APPROVAL_REQUEST_HUMAN_ONLY :: string where "MARKER_APPROVAL_REQUEST_HUMAN_ONLY = ''[APPROVAL_REQUEST][HUMAN_ONLY]''"
definition MARKER_OWNER_UNREACHED :: string where "MARKER_OWNER_UNREACHED = ''[OWNER_UNREACHED]''"
definition MARKER_APPROVAL_RESOLVED :: string where "MARKER_APPROVAL_RESOLVED = ''[APPROVAL_RESOLVED]''"

definition SERVER_ONLY_MARKERS :: "string list" where
  "SERVER_ONLY_MARKERS = [MARKER_APPROVAL_REQUEST_HUMAN_ONLY, MARKER_APPROVAL_REQUEST, MARKER_OWNER_UNREACHED, MARKER_APPROVAL_RESOLVED]"

definition CONFUSABLE_PAIRS :: "(nat \<times> string) list" where
  "CONFUSABLE_PAIRS =
     [(0x0430, ''a''), (0x0435, ''e''), (0x043e, ''o''), (0x0440, ''p''), (0x0441, ''c''), (0x0445, ''x''),
      (0x0456, ''i''), (0x0455, ''s''), (0x0458, ''j''), (0x0501, ''d''), (0x051b, ''q''), (0x051d, ''w''),
      (0x04bb, ''h''), (0x0475, ''v''), (0x043a, ''k''), (0x0442, ''t''), (0x043d, ''h''), (0x043c, ''m''),
      (0x04cf, ''l''), (0x0131, ''i''),
      (0x03b1, ''a''), (0x03b5, ''e''), (0x03bf, ''o''), (0x03c1, ''p''), (0x03b9, ''i''), (0x03c4, ''t''),
      (0x03bd, ''v''), (0x03c5, ''u''), (0x03ba, ''k''), (0x03b7, ''n''),
      (0x0578, ''n''), (0x057d, ''u'')]"

definition unconfuse :: "nat \<Rightarrow> nat" where
  "unconfuse c = (case map_of CONFUSABLE_PAIRS c of Some [l] \<Rightarrow> code l | _ \<Rightarrow> c)"

definition OPEN_BRACKETS :: "nat list" where
  "OPEN_BRACKETS = [0x2045, 0x27e6, 0x27ec, 0x2772, 0x3010, 0x3014, 0x3016, 0x3018, 0x301a]"

definition CLOSE_BRACKETS :: "nat list" where
  "CLOSE_BRACKETS = [0x2046, 0x27e7, 0x27ed, 0x2773, 0x3011, 0x3015, 0x3017, 0x3019, 0x301b]"

definition LINE_BREAKS :: "nat list" where
  "LINE_BREAKS = [0x0a, 0x0b, 0x0c, 0x0d, 0x1c, 0x1d, 0x1e, 0x85, 0x2028, 0x2029]"

fun split_lines :: "points \<Rightarrow> points list" where
  "split_lines [] = [[]]"
| "split_lines (c # s) =
     (if List.member LINE_BREAKS c then [] # split_lines s
      else (case split_lines s of [] \<Rightarrow> [[c]] | l # ls \<Rightarrow> (c # l) # ls))"

text \<open>\<open>\s\<close> of a regular expression.\<close>

definition point_ws :: "nat \<Rightarrow> bool" where
  "point_ws c \<longleftrightarrow> List.member [9, 10, 11, 12, 13, 32, 160, 0x1680, 0x2028, 0x2029, 0x202f, 0x205f, 0x3000, 0xfeff] c
     \<or> 0x2000 \<le> c \<and> c \<le> 0x200a"

section \<open>What a renderer does not show\<close>

definition decoration :: "nat \<Rightarrow> bool" where
  "decoration c = List.member (points_of ''*_#~'') c"

definition TAG_WORDS :: "string list" where
  "TAG_WORDS = [''a'', ''b'', ''strong'', ''em'', ''i'', ''u'', ''ins'', ''del'', ''s'', ''strike'', ''mark'', ''span'', ''p'', ''div'',
     ''small'', ''big'', ''sub'', ''sup'', ''center'', ''font'', ''h1'', ''h2'', ''h3'', ''h4'', ''h5'', ''h6'']"

text \<open>\<open>LEADING_HTML_TAG\<close>: the rest after one wrapping tag, if the text starts with one.\<close>

definition strip_tag :: "points \<Rightarrow> points" where
  "strip_tag s =
     (case s of [] \<Rightarrow> s
      | c # t \<Rightarrow>
          if c \<noteq> code (CHR ''<'') then s
          else let u = (case t of d # v \<Rightarrow> if d = code (CHR ''/'') then v else t | [] \<Rightarrow> t);
                   heads = filter (\<lambda>w. take (length w) u = points_of w
                     \<and> (case drop (length w) u of d # _ \<Rightarrow> point_ws d \<or> d = code (CHR ''/'') \<or> d = code (CHR ''>'') | [] \<Rightarrow> False)) TAG_WORDS;
                   body = dropWhile (\<lambda>d. d \<noteq> code (CHR ''<'') \<and> d \<noteq> code (CHR ''>'')) u
               in (case body of d # rest \<Rightarrow> if heads \<noteq> [] \<and> d = code (CHR ''>'') then rest else s | [] \<Rightarrow> s))"

definition strip_pass :: "unicode \<Rightarrow> points \<Rightarrow> points" where
  "strip_pass uni s = strip_tag (dropWhile decoration (dropWhile (\<lambda>c. point_ws c \<or> cat_Z uni c) s))"

text \<open>At most 32 passes.\<close>

fun strip_passes :: "unicode \<Rightarrow> nat \<Rightarrow> points \<Rightarrow> points" where
  "strip_passes uni 0 s = s"
| "strip_passes uni (Suc n) s = (let t = strip_pass uni s in if t = s then t else strip_passes uni n t)"

definition stripLeadingWrappers :: "unicode \<Rightarrow> points \<Rightarrow> points" where
  "stripLeadingWrappers uni s = strip_passes uni 32 s"

definition ascii_punct :: "nat \<Rightarrow> bool" where
  "ascii_punct c \<longleftrightarrow> 33 \<le> c \<and> c \<le> 47 \<or> 58 \<le> c \<and> c \<le> 64 \<or> 91 \<le> c \<and> c \<le> 96 \<or> 123 \<le> c \<and> c \<le> 126"

text \<open>\<open>MARKDOWN_ESCAPE\<close>, replaced by the character escaped.\<close>

fun unescape_markdown :: "points \<Rightarrow> points" where
  "unescape_markdown [] = []"
| "unescape_markdown [c] = [c]"
| "unescape_markdown (c # d # s) = (if c = 92 \<and> ascii_punct d then d # unescape_markdown s else c # unescape_markdown (d # s))"

section \<open>Character references\<close>

definition NAMED_ENTITIES :: "(string \<times> string) list" where
  "NAMED_ENTITIES = [(''lbrack'', ''[''), (''lsqb'', ''[''), (''rbrack'', '']''), (''rsqb'', '']''), (''lowbar'', ''_''),
     (''underbar'', ''_''), (''hyphen'', ''-''), (''nbsp'', '' ''), (''amp'', ''&'')]"

definition MAX_ENTITY_PASSES :: nat where
  "MAX_ENTITY_PASSES = 3"

text \<open>\<open>PERCENT_BRACKET\<close>.\<close>

fun percent_brackets :: "points \<Rightarrow> points" where
  "percent_brackets [] = []"
| "percent_brackets (c # s) =
     (case s of
        d # h # t \<Rightarrow>
          if c = 37 \<and> d = 53 \<and> (h = 98 \<or> h = 66) then 91 # percent_brackets t
          else if c = 37 \<and> d = 53 \<and> (h = 100 \<or> h = 68) then 93 # percent_brackets t
          else c # percent_brackets s
      | _ \<Rightarrow> c # percent_brackets s)"

definition point_digit :: "nat \<Rightarrow> bool" where "point_digit c \<longleftrightarrow> 48 \<le> c \<and> c \<le> 57"
definition point_hex :: "nat \<Rightarrow> bool" where
  "point_hex c \<longleftrightarrow> point_digit c \<or> 97 \<le> c \<and> c \<le> 102 \<or> 65 \<le> c \<and> c \<le> 70"
definition point_alpha :: "nat \<Rightarrow> bool" where "point_alpha c \<longleftrightarrow> 65 \<le> c \<and> c \<le> 90 \<or> 97 \<le> c \<and> c \<le> 122"

definition hex_value :: "nat \<Rightarrow> nat" where
  "hex_value c = (if point_digit c then c - 48 else if c \<ge> 97 then c - 87 else c - 55)"

text \<open>A greedy \<open>{lo,hi}\<close> run of a class at the start: the run, if it is long enough.\<close>

definition run_of :: "(nat \<Rightarrow> bool) \<Rightarrow> nat \<Rightarrow> nat \<Rightarrow> points \<Rightarrow> points option" where
  "run_of P lo hi s = (let r = take hi (takeWhile P s) in if lo \<le> length r then Some r else None)"

definition skip_semicolon :: "points \<Rightarrow> points" where
  "skip_semicolon s = (case s of c # t \<Rightarrow> if c = 59 then t else s | [] \<Rightarrow> [])"

text \<open>A valid code point, or the reference as written.\<close>

definition reference :: "nat \<Rightarrow> points \<Rightarrow> points" where
  "reference point whole = (if point > 0x10ffff \<or> 0xd800 \<le> point \<and> point \<le> 0xdfff then whole else [point])"

text \<open>
  \<open>HTML_ENTITY\<close> after its ampersand: the replacement and the rest. \<open>value\<close> gets the reference as written.
\<close>

definition finish_entity :: "points \<Rightarrow> points \<Rightarrow> (points \<Rightarrow> points) \<Rightarrow> points \<times> points" where
  "finish_entity s rest value = (let end = skip_semicolon rest in (value (38 # take (length s - length end) s), end))"

definition entity_here :: "points \<Rightarrow> (points \<times> points) option" where
  "entity_here s =
     (case (if take 1 s = [35] then run_of point_digit 1 7 (drop 1 s) else None) of
        Some r \<Rightarrow> Some (finish_entity s (drop (1 + length r) s) (reference (foldl (\<lambda>n c. 10 * n + (c - 48)) 0 r)))
      | None \<Rightarrow>
          (case (if take 2 s = [35, 120] \<or> take 2 s = [35, 88] then run_of point_hex 1 6 (drop 2 s) else None) of
             Some r \<Rightarrow> Some (finish_entity s (drop (2 + length r) s) (reference (foldl (\<lambda>n c. 16 * n + hex_value c) 0 r)))
           | None \<Rightarrow>
               (case run_of point_alpha 2 8 s of
                  Some r \<Rightarrow> Some (finish_entity s (drop (length r) s)
                    (\<lambda>whole. case map_of NAMED_ENTITIES (js_lower (map char_of r)) of Some t \<Rightarrow> points_of t | None \<Rightarrow> whole))
                | None \<Rightarrow> None)))"

lemma skip_semicolon_length: "length (skip_semicolon s) \<le> length s"
  by (simp add: skip_semicolon_def split: list.split)

lemma entity_finished: "entity_here s = Some p \<Longrightarrow> \<exists>n v. p = finish_entity s (drop n s) v"
  unfolding entity_here_def by (auto split: option.splits)

lemma entity_shrinks: "entity_here s = Some (t, rest) \<Longrightarrow> length rest \<le> length s"
proof -
  assume "entity_here s = Some (t, rest)"
  then obtain n v where "(t, rest) = finish_entity s (drop n s) v" using entity_finished by blast
  then have "rest = skip_semicolon (drop n s)" by (simp add: finish_entity_def Let_def)
  then show ?thesis using skip_semicolon_length [of "drop n s"] by simp
qed

function html_entities :: "points \<Rightarrow> points" where
  "html_entities [] = []"
| "html_entities (c # s) =
     (case (if c = 38 then entity_here s else None) of
        Some (t, rest) \<Rightarrow> t @ html_entities rest
      | None \<Rightarrow> c # html_entities s)"
  by pat_completeness auto
termination by (relation "measure length") (auto split: if_splits dest: entity_shrinks)

definition decodeEntityPass :: "points \<Rightarrow> points" where
  "decodeEntityPass s = html_entities (percent_brackets s)"

fun decode_passes :: "nat \<Rightarrow> points \<Rightarrow> points" where
  "decode_passes 0 s = s"
| "decode_passes (Suc n) s = (let t = decodeEntityPass s in if t = s then s else decode_passes n t)"

definition decodeEntities :: "points \<Rightarrow> points" where
  "decodeEntities s = decode_passes MAX_ENTITY_PASSES s"

section \<open>The filter\<close>

definition drop_invisible :: "points \<Rightarrow> points" where
  "drop_invisible s = filter (\<lambda>c. \<not> list_ex (\<lambda>(lo, hi). lo \<le> c \<and> c \<le> hi) INVISIBLE_RANGES) s"

definition plain_bracket :: "nat \<Rightarrow> nat" where
  "plain_bracket c = (if List.member OPEN_BRACKETS c then 91 else if List.member CLOSE_BRACKETS c then 93 else c)"

definition folded_line :: "unicode \<Rightarrow> points \<Rightarrow> points" where
  "folded_line uni line =
     to_lower uni (filter (\<lambda>c. \<not> cat_Cf uni c \<and> \<not> cat_M uni c) (drop_invisible (nfkd uni (decodeEntities line))))"

definition marker_skeleton :: "unicode \<Rightarrow> points \<Rightarrow> points" where
  "marker_skeleton uni line =
     (let shape = map (plain_bracket \<circ> unconfuse) (folded_line uni line);
          visible = filter (\<lambda>c. \<not> (point_ws c \<or> cat_Z uni c)) (stripLeadingWrappers uni (unescape_markdown shape))
      in case visible of c # _ \<Rightarrow> if c = 91 then filter (\<lambda>d. d \<noteq> 95 \<and> d \<noteq> 45) visible else [] | [] \<Rightarrow> [])"

fun find_marker_in :: "unicode \<Rightarrow> points list \<Rightarrow> string option" where
  "find_marker_in uni [] = None"
| "find_marker_in uni (line # ls) =
     (let shape = marker_skeleton uni line in
      if shape = [] then find_marker_in uni ls
      else (case find (\<lambda>m. let sk = marker_skeleton uni (points_of m) in take (length sk) shape = sk) SERVER_ONLY_MARKERS of
              Some m \<Rightarrow> Some m | None \<Rightarrow> find_marker_in uni ls))"

definition findReservedMarker :: "unicode \<Rightarrow> points \<Rightarrow> string option" where
  "findReservedMarker uni content = find_marker_in uni (split_lines content)"

definition isServerSender :: "string \<Rightarrow> bool" where
  "isServerSender from_agent \<longleftrightarrow> from_agent = SERVER_SENDER"

definition claimsServerSender :: "string \<Rightarrow> bool" where
  "claimsServerSender from_agent \<longleftrightarrow> js_lower (sanitizeAgentIdent from_agent) = SERVER_SENDER"

text \<open>Whether the message may be stored.\<close>

definition assertNoReservedMarker :: "unicode \<Rightarrow> string \<Rightarrow> points \<Rightarrow> bool" where
  "assertNoReservedMarker uni from_agent content \<longleftrightarrow> isServerSender from_agent \<or> findReservedMarker uni content = None"

section \<open>A forged marker is found\<close>

text \<open>
  What is used of Unicode: text of ASCII characters is decomposed and lower-cased one by one, also in front of other
  text, and has no marks, no format characters and no separator but the blank.
\<close>

definition ascii :: "points \<Rightarrow> bool" where
  "ascii s \<longleftrightarrow> list_all (\<lambda>c. c < 128) s"

definition lower_point :: "nat \<Rightarrow> nat" where
  "lower_point c = (if 65 \<le> c \<and> c \<le> 90 then c + 32 else c)"

definition unicode_ascii :: "unicode \<Rightarrow> bool" where
  "unicode_ascii uni \<longleftrightarrow>
     (\<forall>p s. ascii p \<longrightarrow> (\<exists>t. nfkd uni (p @ s) = p @ t) \<and> (\<exists>t. to_lower uni (p @ s) = map lower_point p @ t))
     \<and> (\<forall>p. ascii p \<longrightarrow> nfkd uni p = p \<and> to_lower uni p = map lower_point p)
     \<and> (\<forall>c<128. \<not> cat_M uni c \<and> \<not> cat_Cf uni c \<and> (cat_Z uni c \<longrightarrow> c = 32))"

text \<open>Characters that no decoding touches.\<close>

definition inert :: "points \<Rightarrow> bool" where
  "inert s \<longleftrightarrow> list_all (\<lambda>c. c < 128 \<and> c \<noteq> 37 \<and> c \<noteq> 38 \<and> c \<noteq> 92) s"

lemma inert_ascii: "inert s \<Longrightarrow> ascii s"
  by (simp add: inert_def ascii_def list_all_iff)

lemma percent_other: "c \<noteq> 37 \<Longrightarrow> percent_brackets (c # s) = c # percent_brackets s"
  unfolding percent_brackets.simps(2) by (simp del: percent_brackets.simps split: list.split)

lemma percent_inert: "inert p \<Longrightarrow> percent_brackets (p @ s) = p @ percent_brackets s"
proof (induction p)
  case (Cons c p)
  then have "c \<noteq> 37" "percent_brackets (p @ s) = p @ percent_brackets s" by (simp_all add: inert_def)
  then show ?case by (simp add: percent_other del: percent_brackets.simps)
qed simp

lemma entities_inert: "inert p \<Longrightarrow> html_entities (p @ s) = p @ html_entities s"
  by (induction p) (simp_all add: inert_def)

lemma decode_inert: "inert p \<Longrightarrow> \<exists>t. decode_passes n (p @ s) = p @ t"
proof (induction n arbitrary: s)
  case (Suc n)
  have "decodeEntityPass (p @ s) = p @ html_entities (percent_brackets s)"
    by (simp add: decodeEntityPass_def percent_inert entities_inert Suc.prems)
  with Suc show ?case by (auto simp: Let_def)
qed auto

lemma decode_inert_only: "inert p \<Longrightarrow> decode_passes n p = p"
  using percent_inert [of p "[]"] entities_inert [of p "[]"] by (cases n) (simp_all add: decodeEntityPass_def Let_def)

lemma unescape_inert: "inert p \<Longrightarrow> unescape_markdown (p @ s) = p @ unescape_markdown s"
proof (induction p)
  case (Cons c p)
  then have "c \<noteq> 92" "unescape_markdown (p @ s) = p @ unescape_markdown s" by (simp_all add: inert_def)
  then show ?case by (cases "p @ s") auto
qed simp

lemma shape_inert: "ascii p \<Longrightarrow> map (plain_bracket \<circ> unconfuse) p = p"
proof -
  have "(plain_bracket \<circ> unconfuse) c = c" if "c < 128" for c
  proof -
    have "\<forall>k\<in>fst ` set CONFUSABLE_PAIRS \<union> set OPEN_BRACKETS \<union> set CLOSE_BRACKETS. 128 \<le> k"
      by (simp add: CONFUSABLE_PAIRS_def OPEN_BRACKETS_def CLOSE_BRACKETS_def)
    then have "c \<notin> fst ` set CONFUSABLE_PAIRS" "c \<notin> set OPEN_BRACKETS" "c \<notin> set CLOSE_BRACKETS" using that leD by blast+
    then show ?thesis by (simp add: unconfuse_def plain_bracket_def List.member_iff map_of_eq_None_iff [THEN iffD2])
  qed
  then show "ascii p \<Longrightarrow> map (plain_bracket \<circ> unconfuse) p = p" by (induction p) (simp_all add: ascii_def)
qed

definition visible_ascii :: "points \<Rightarrow> points" where
  "visible_ascii p = map lower_point (filter (\<lambda>c. 31 < c \<and> c \<noteq> 127) p)"

lemma drop_invisible_ascii: "ascii p \<Longrightarrow> drop_invisible p = filter (\<lambda>c. 31 < c \<and> c \<noteq> 127) p"
  by (induction p) (auto simp: drop_invisible_def INVISIBLE_RANGES_def ascii_def)

lemma visible_inert: "inert p \<Longrightarrow> inert (visible_ascii p)"
proof -
  have "c < 128 \<and> c \<noteq> 37 \<and> c \<noteq> 38 \<and> c \<noteq> 92 \<Longrightarrow> lower_point c < 128 \<and> lower_point c \<noteq> 37 \<and> lower_point c \<noteq> 38 \<and> lower_point c \<noteq> 92" for c
    by (simp add: lower_point_def)
  then show "inert p \<Longrightarrow> inert (visible_ascii p)"
    by (induction p) (simp_all add: inert_def visible_ascii_def)
qed

lemma folded_inert:
  assumes uni: "unicode_ascii uni" and p: "inert p"
  shows "\<exists>t. folded_line uni (p @ s) = visible_ascii p @ t" "folded_line uni p = visible_ascii p"
proof -
  have a: "ascii p" by (rule inert_ascii [OF p])
  have fa: "ascii (filter (\<lambda>c. 31 < c \<and> c \<noteq> 127) p)" using a by (auto simp: ascii_def list_all_iff)
  have keep: "filter (\<lambda>c. \<not> cat_Cf uni c \<and> \<not> cat_M uni c) (filter (\<lambda>c. 31 < c \<and> c \<noteq> 127) p) = filter (\<lambda>c. 31 < c \<and> c \<noteq> 127) p"
    using fa uni by (auto simp: unicode_ascii_def ascii_def list_all_iff filter_id_conv simp del: filter_filter)
  obtain t1 where t1: "decodeEntities (p @ s) = p @ t1" using decode_inert [OF p] by (auto simp: decodeEntities_def)
  obtain t2 where t2: "nfkd uni (p @ t1) = p @ t2" using uni a unfolding unicode_ascii_def by blast
  obtain t3 where t3: "to_lower uni (filter (\<lambda>c. 31 < c \<and> c \<noteq> 127) p @ filter (\<lambda>c. \<not> cat_Cf uni c \<and> \<not> cat_M uni c) (drop_invisible t2))
      = map lower_point (filter (\<lambda>c. 31 < c \<and> c \<noteq> 127) p) @ t3"
    using uni fa unfolding unicode_ascii_def by blast
  have "drop_invisible (p @ t2) = filter (\<lambda>c. 31 < c \<and> c \<noteq> 127) p @ drop_invisible t2"
    using drop_invisible_ascii [OF a] by (simp add: drop_invisible_def)
  then have "folded_line uni (p @ s) = visible_ascii p @ t3"
    using keep t3 by (simp add: folded_line_def t1 t2 visible_ascii_def del: filter_filter)
  then show "\<exists>t. folded_line uni (p @ s) = visible_ascii p @ t" by blast
  have "nfkd uni p = p" "to_lower uni (filter (\<lambda>c. 31 < c \<and> c \<noteq> 127) p) = map lower_point (filter (\<lambda>c. 31 < c \<and> c \<noteq> 127) p)"
    using uni a fa by (simp_all add: unicode_ascii_def)
  then show "folded_line uni p = visible_ascii p"
    using keep drop_invisible_ascii [OF a] decode_inert_only [OF p]
    by (simp add: folded_line_def decodeEntities_def visible_ascii_def del: filter_filter)
qed

text \<open>Blanks and Markdown decoration in front of a bracket are stripped, one group at least per pass.\<close>

definition lead_char :: "nat \<Rightarrow> bool" where
  "lead_char c \<longleftrightarrow> c = 32 \<or> decoration c"

lemma ascii_no_separator: "unicode_ascii uni \<Longrightarrow> c < 128 \<Longrightarrow> c \<noteq> 32 \<Longrightarrow> \<not> cat_Z uni c"
  unfolding unicode_ascii_def by blast

lemma ascii_shown: "unicode_ascii uni \<Longrightarrow> 32 < c \<Longrightarrow> c < 128 \<Longrightarrow> \<not> (point_ws c \<or> cat_Z uni c)"
  using ascii_no_separator [of uni c] by (simp add: point_ws_def List.member_iff)

lemma lead_char_cases: "lead_char c \<longleftrightarrow> c \<in> {32, 42, 95, 35, 126}"
  by (auto simp: lead_char_def decoration_def points_of_def code_def)

lemma strip_tag_other: "c \<noteq> 60 \<Longrightarrow> strip_tag (c # t) = c # t"
  by (simp add: strip_tag_def code_def)

lemma dropWhile_before: "\<not> P d \<Longrightarrow> dropWhile P (p @ d # s) = dropWhile P p @ d # s"
  by (induction p) auto

lemma strip_pass_lead:
  assumes uni: "unicode_ascii uni" and lead: "list_all lead_char lead"
  shows "\<exists>l. list_all lead_char l \<and> strip_pass uni (lead @ 91 # s) = l @ 91 # s \<and> (lead = [] \<longrightarrow> l = []) \<and> (lead \<noteq> [] \<longrightarrow> length l < length lead)"
proof -
  let ?ws = "\<lambda>c. point_ws c \<or> cat_Z uni c"
  define l where "l = dropWhile decoration (dropWhile ?ws lead)"
  have b: "\<not> ?ws 91" "\<not> decoration 91"
    using ascii_shown [OF uni, of 91] by (simp_all add: decoration_def points_of_def code_def List.member_iff)
  have drop: "dropWhile decoration (dropWhile ?ws (lead @ 91 # s)) = l @ 91 # s"
    using b by (simp add: l_def dropWhile_before del: de_Morgan_disj)
  have l: "list_all lead_char l" using lead by (auto simp: l_def list_all_iff dest!: set_dropWhileD)
  have "strip_tag (l @ 91 # s) = l @ 91 # s"
    using l by (cases l) (auto simp: strip_tag_other lead_char_cases)
  moreover have "length l < length lead" if ne: "lead \<noteq> []"
  proof -
    obtain c t where c: "lead = c # t" using ne by (cases lead) auto
    then have "?ws c \<or> decoration c" using lead by (auto simp: lead_char_def point_ws_def)
    then show ?thesis
      using length_dropWhile_le [of decoration "dropWhile ?ws lead"] length_dropWhile_le [of ?ws t] length_dropWhile_le [of decoration t]
      by (auto simp: l_def c)
  qed
  ultimately show ?thesis using l drop by (intro exI [of _ l]) (auto simp: strip_pass_def l_def)
qed

lemma strip_passes_lead:
  "unicode_ascii uni \<Longrightarrow> list_all lead_char lead \<Longrightarrow> length lead < n \<Longrightarrow> strip_passes uni n (lead @ 91 # s) = 91 # s"
proof (induction n arbitrary: lead)
  case (Suc n)
  obtain l where l: "list_all lead_char l" "strip_pass uni (lead @ 91 # s) = l @ 91 # s" "lead = [] \<longrightarrow> l = []" "lead \<noteq> [] \<longrightarrow> length l < length lead"
    using strip_pass_lead [OF Suc.prems(1,2)] by blast
  show ?case
  proof (cases "lead = []")
    case True
    with l show ?thesis by simp
  next
    case False
    with l(4) have "l \<noteq> lead" by auto
    with Suc.IH [OF Suc.prems(1) l(1)] l(2,4) False Suc.prems(3) show ?thesis by (simp add: Let_def)
  qed
qed simp

text \<open>The skeleton of a line that starts with a bracket behind such a lead.\<close>

lemma skeleton_lead:
  assumes uni: "unicode_ascii uni" and lead: "list_all lead_char lead" "length lead < 32" and q: "\<forall>c\<in>set q. 32 < c \<and> c < 128"
    and line: "folded_line uni line = lead @ 91 # q @ t" and inert: "inert (lead @ 91 # q)"
  shows "\<exists>t'. marker_skeleton uni line = 91 # filter (\<lambda>d. d \<noteq> 95 \<and> d \<noteq> 45) q @ t' \<and> (t = [] \<longrightarrow> t' = [])"
proof -
  let ?shape = "map (plain_bracket \<circ> unconfuse)" and ?vis = "\<lambda>c. \<not> (point_ws c \<or> cat_Z uni c)"
  have "?shape (folded_line uni line) = (lead @ 91 # q) @ ?shape t"
    using shape_inert [OF inert_ascii [OF inert]] by (simp add: line)
  then have "unescape_markdown (?shape (folded_line uni line)) = lead @ 91 # q @ unescape_markdown (?shape t)"
    using unescape_inert [OF inert] by simp
  then have strip: "stripLeadingWrappers uni (unescape_markdown (?shape (folded_line uni line))) = 91 # q @ unescape_markdown (?shape t)"
    using strip_passes_lead [OF uni lead] by (simp add: stripLeadingWrappers_def)
  have visq: "\<forall>c\<in>set q. ?vis c" using q ascii_shown [OF uni] by blast
  have b: "?vis 91" using ascii_shown [OF uni, of 91] by simp
  have "filter ?vis (91 # q @ unescape_markdown (?shape t)) = 91 # q @ filter ?vis (unescape_markdown (?shape t))"
    using visq b by (simp add: filter_id_conv del: de_Morgan_disj)
  with strip show ?thesis by (auto simp: marker_skeleton_def Let_def simp del: de_Morgan_disj)
qed

text \<open>Where the lines of a text begin.\<close>

definition at_line_start :: "points \<Rightarrow> bool" where
  "at_line_start pre \<longleftrightarrow> pre = [] \<or> List.member LINE_BREAKS (last pre)"

lemma split_lines_nonempty: "split_lines s \<noteq> []"
  by (induction s) (auto split: list.split)

lemma split_lines_run: "list_all (\<lambda>c. \<not> List.member LINE_BREAKS c) p \<Longrightarrow> \<exists>r ls. split_lines (p @ s) = (p @ r) # ls"
proof (induction p)
  case Nil
  show ?case using split_lines_nonempty [of s] by (auto simp: neq_Nil_conv)
qed auto

lemma split_lines_start: "at_line_start pre \<Longrightarrow> \<exists>ls. split_lines (pre @ s) = ls @ split_lines s \<and> (pre \<noteq> [] \<longrightarrow> ls \<noteq> [])"
proof (induction pre)
  case (Cons c pre)
  show ?case
  proof (cases "pre = []")
    case True
    with Cons.prems show ?thesis by (auto simp: at_line_start_def)
  next
    case False
    with Cons.prems have "at_line_start pre" by (simp add: at_line_start_def)
    with Cons.IH False obtain l ls where "split_lines (pre @ s) = (l # ls) @ split_lines s" by (auto simp: neq_Nil_conv)
    then show ?thesis by auto
  qed
qed simp

lemma find_marker_skips: "find_marker_in uni (ls @ ks) \<noteq> None \<longleftrightarrow> find_marker_in uni ls \<noteq> None \<or> find_marker_in uni ks \<noteq> None"
  by (induction ls) (simp_all add: Let_def split: option.split)

text \<open>The markers themselves, in lower case.\<close>

definition marker_char :: "nat \<Rightarrow> bool" where
  "marker_char d \<longleftrightarrow> 32 < d \<and> d < 127 \<and> d \<noteq> 37 \<and> d \<noteq> 38 \<and> d \<noteq> 92"

lemma markers_shape:
  "m \<in> set SERVER_ONLY_MARKERS \<Longrightarrow> \<exists>q. points_of m = 91 # q \<and> list_all marker_char q"
  by (auto simp: SERVER_ONLY_MARKERS_def MARKER_APPROVAL_REQUEST_def MARKER_APPROVAL_REQUEST_HUMAN_ONLY_def
      MARKER_OWNER_UNREACHED_def MARKER_APPROVAL_RESOLVED_def points_of_def code_def marker_char_def)

lemma same_letters:
  assumes "map lower_point p = map lower_point r" and "list_all marker_char r"
  shows "list_all marker_char p"
proof -
  have "marker_char c" if "lower_point c = lower_point d" "marker_char d" for c d
    using that by (auto simp: marker_char_def lower_point_def split: if_splits)
  with assms show ?thesis
  proof (induction p arbitrary: r)
    case (Cons c p)
    then obtain d r' where "r = d # r'" by (cases r) auto
    with Cons show ?case by auto
  qed simp
qed

lemma marker_text:
  assumes "list_all marker_char p"
  shows "inert p" "list_all (\<lambda>c. \<not> List.member LINE_BREAKS c) p" "visible_ascii p = map lower_point p"
proof -
  show "inert p" using assms unfolding inert_def by (rule list.pred_mono_strong) (simp add: marker_char_def)
  have "\<not> List.member LINE_BREAKS c" if "marker_char c" for c
  proof -
    have "32 < c" "c < 127" using that by (simp_all add: marker_char_def)
    then show ?thesis by (simp add: LINE_BREAKS_def List.member_iff)
  qed
  then show "list_all (\<lambda>c. \<not> List.member LINE_BREAKS c) p" using assms by (auto simp: list_all_iff)
  have "31 < c \<and> c \<noteq> 127" if "marker_char c" for c using that by (simp add: marker_char_def)
  then have "filter (\<lambda>c. 31 < c \<and> c \<noteq> 127) p = p" using assms by (auto simp: filter_id_conv list_all_iff)
  then show "visible_ascii p = map lower_point p" by (simp add: visible_ascii_def)
qed

lemma marker_lowered: "list_all marker_char p \<Longrightarrow> list_all marker_char (map lower_point p)"
proof -
  have "marker_char (lower_point c)" if "marker_char c" for c
  proof (cases "65 \<le> c \<and> c \<le> 90")
    case True
    then show ?thesis by (simp add: marker_char_def lower_point_def)
  next
    case False
    then show ?thesis using that by (simp only: lower_point_def if_False)
  qed
  then show "list_all marker_char p \<Longrightarrow> list_all marker_char (map lower_point p)" by (auto simp: list_all_iff)
qed

text \<open>What may stand in front: tabs, blanks and Markdown decoration.\<close>

definition lead_in :: "nat \<Rightarrow> bool" where
  "lead_in c \<longleftrightarrow> c = 9 \<or> lead_char c"

lemma lead_in_text:
  assumes "list_all lead_in p"
  shows "inert p" "list_all (\<lambda>c. \<not> List.member LINE_BREAKS c) p" "list_all lead_char (visible_ascii p)" "length (visible_ascii p) \<le> length p"
proof -
  have c: "\<forall>c\<in>set p. c \<in> {9, 32, 42, 95, 35, 126}" using assms by (auto simp: lead_in_def lead_char_cases list_all_iff)
  show "inert p" using c by (auto simp: inert_def list_all_iff)
  show "list_all (\<lambda>c. \<not> List.member LINE_BREAKS c) p" using c by (auto simp: list_all_iff LINE_BREAKS_def List.member_iff)
  show "list_all lead_char (visible_ascii p)" using c by (auto simp: visible_ascii_def lead_char_cases list_all_iff lower_point_def)
  show "length (visible_ascii p) \<le> length p" by (simp add: visible_ascii_def)
qed

lemma inert_append [simp]: "inert (p @ q) \<longleftrightarrow> inert p \<and> inert q"
  by (simp add: inert_def)

lemma visible_append [simp]: "visible_ascii (p @ q) = visible_ascii p @ visible_ascii q"
  by (simp add: visible_ascii_def)

text \<open>The line of a forged marker begins with the shape of the marker.\<close>

lemma forged_shape:
  assumes uni: "unicode_ascii uni" and m: "m \<in> set SERVER_ONLY_MARKERS"
    and mk: "map lower_point mk = map lower_point (points_of m)" and lead: "list_all lead_in lead" "length lead < 32"
  shows "\<exists>t. marker_skeleton uni (lead @ mk @ r) = marker_skeleton uni (points_of m) @ t" "marker_skeleton uni (points_of m) \<noteq> []"
proof -
  obtain q where q: "points_of m = 91 # q" "list_all marker_char q" using markers_shape [OF m] by blast
  then have pm: "list_all marker_char (points_of m)" by (simp add: marker_char_def)
  have mkc: "list_all marker_char mk" by (rule same_letters [OF mk pm])
  define q' where "q' = map lower_point q"
  have low: "map lower_point (points_of m) = 91 # q'" by (simp add: q(1) q'_def lower_point_def)
  have q': "\<forall>c\<in>set q'. 32 < c \<and> c < 128" "inert (91 # q')"
    using marker_lowered [OF q(2)] marker_text(1) [OF marker_lowered [OF pm]] low
    by (auto simp: q'_def list_all_iff marker_char_def)
  have "folded_line uni (points_of m) = [] @ 91 # q' @ []"
    using folded_inert(2) [OF uni marker_text(1) [OF pm]] marker_text(3) [OF pm] low by simp
  then have own: "marker_skeleton uni (points_of m) = 91 # filter (\<lambda>d. d \<noteq> 95 \<and> d \<noteq> 45) q'"
    using skeleton_lead [OF uni, of "[]" q' "points_of m" "[]"] q' by auto
  then show "marker_skeleton uni (points_of m) \<noteq> []" by simp
  obtain t where "folded_line uni ((lead @ mk) @ r) = visible_ascii (lead @ mk) @ t"
    using folded_inert(1) [OF uni, of "lead @ mk" r] lead_in_text(1) [OF lead(1)] marker_text(1) [OF mkc] by auto
  then have "folded_line uni (lead @ mk @ r) = visible_ascii lead @ 91 # q' @ t"
    using marker_text(3) [OF mkc] mk low by simp
  then show "\<exists>t. marker_skeleton uni (lead @ mk @ r) = marker_skeleton uni (points_of m) @ t"
    using skeleton_lead [OF uni lead_in_text(3) [OF lead(1)] _ q'(1)] own lead_in_text(4) [OF lead(1)] lead(2) q'(2)
      visible_inert [OF lead_in_text(1) [OF lead(1)]] by fastforce
qed

lemma find_marker_line:
  assumes m: "m \<in> set SERVER_ONLY_MARKERS" and shape: "marker_skeleton uni line = marker_skeleton uni (points_of m) @ t"
    and sk: "marker_skeleton uni (points_of m) \<noteq> []"
  shows "find_marker_in uni (line # ls) \<noteq> None"
proof -
  let ?P = "\<lambda>k. let sk = marker_skeleton uni (points_of k) in take (length sk) (marker_skeleton uni line) = sk"
  have "?P m" by (simp add: shape Let_def)
  then have "find ?P SERVER_ONLY_MARKERS \<noteq> None" using m by (auto simp: find_None_iff)
  then show ?thesis using shape sk by (auto simp: Let_def)
qed

text \<open>
  C24: a server marker at the start of a line is found behind emphasis and headings. If a line begins with fewer than 32
  characters, each a tab, a blank, an asterisk, an underscore, a number sign or a tilde, and then one of the server's
  markers in any case, the filter finds a marker in the text, after any earlier lines and whatever follows, and the
  message of any sender but the server itself is refused. Other prefixes, such as those of quotes and lists, and longer ones
  are not covered.
\<close>

theorem forged_marker_refused:
  assumes "unicode_ascii uni" and "m \<in> set SERVER_ONLY_MARKERS" and "map lower_point mk = map lower_point (points_of m)"
    and "list_all lead_in lead" and "length lead < 32" and "at_line_start pre" and "from_agent \<noteq> SERVER_SENDER"
  shows "findReservedMarker uni (pre @ lead @ mk @ rest) \<noteq> None
    \<and> \<not> assertNoReservedMarker uni from_agent (pre @ lead @ mk @ rest)"
proof -
  obtain q where q: "points_of m = 91 # q" "list_all marker_char q" using markers_shape [OF assms(2)] by blast
  have "list_all marker_char (points_of m)" using q by (simp add: marker_char_def)
  from marker_text(2) [OF same_letters [OF assms(3) this]] lead_in_text(2) [OF assms(4)]
  obtain r ls where line: "split_lines ((lead @ mk) @ rest) = ((lead @ mk) @ r) # ls"
    using split_lines_run [of "lead @ mk" rest] by auto
  obtain ks where "split_lines (pre @ lead @ mk @ rest) = ks @ split_lines (lead @ mk @ rest)"
    using split_lines_start [OF assms(6)] by blast
  moreover obtain t where "marker_skeleton uni (lead @ mk @ r) = marker_skeleton uni (points_of m) @ t"
    using forged_shape(1) [OF assms(1-5)] by blast
  ultimately have "findReservedMarker uni (pre @ lead @ mk @ rest) \<noteq> None"
    using line find_marker_line [OF assms(2) _ forged_shape(2) [OF assms(1-5)]] find_marker_skips
    by (simp add: findReservedMarker_def)
  then show ?thesis
    using assms(7) by (simp add: assertNoReservedMarker_def isServerSender_def)
qed

definition plain_unicode :: unicode where
  "plain_unicode = \<lparr>nfkd = (\<lambda>s. s), to_lower = map lower_point, cat_M = (\<lambda>_. False), cat_Cf = (\<lambda>_. False), cat_Z = (\<lambda>c. c = 32)\<rparr>"

theorem forged_marker_refused_witness:
  "findReservedMarker plain_unicode (points_of (''hi'' @ [CHR 0x0A]) @ points_of ''** '' @ points_of ''[Owner_Unreached]'' @ points_of '' x'') \<noteq> None
   \<and> \<not> assertNoReservedMarker plain_unicode ''nova'' (points_of (''hi'' @ [CHR 0x0A]) @ points_of ''** '' @ points_of ''[Owner_Unreached]'' @ points_of '' x'')"
proof -
  have "unicode_ascii plain_unicode" by (auto simp: unicode_ascii_def plain_unicode_def)
  moreover have "map lower_point (points_of ''[Owner_Unreached]'') = map lower_point (points_of MARKER_OWNER_UNREACHED)"
    by (simp add: MARKER_OWNER_UNREACHED_def points_of_def lower_point_def code_def)
  moreover have "list_all lead_in (points_of ''** '')" by (simp add: points_of_def lead_in_def lead_char_cases code_def)
  moreover have "at_line_start (points_of (''hi'' @ [CHR 0x0A]))"
    by (simp add: at_line_start_def points_of_def LINE_BREAKS_def List.member_iff code_def)
  ultimately show ?thesis
    using forged_marker_refused [where uni = plain_unicode and m = MARKER_OWNER_UNREACHED and from_agent = "''nova''"
        and pre = "points_of (''hi'' @ [CHR 0x0A])" and lead = "points_of ''** ''" and mk = "points_of ''[Owner_Unreached]''"]
    by (simp add: SERVER_ONLY_MARKERS_def SERVER_SENDER_def points_of_def)
qed

end
