(* ===== verification/Addressing.thy ===== *)
theory Addressing
  imports ApprovalRules
begin

text \<open>
  System-qualified ids of federated agents, \<open>src/web/federation/address.ts\<close>: parsed strictly, never sanitised
  and passed along.
\<close>

record qualified_id =
  fed_system :: string
  fed_agent :: string

definition alnum_char :: "char \<Rightarrow> bool" where
  "alnum_char c \<longleftrightarrow> is_word c \<and> c \<noteq> CHR ''_''"

definition SEGMENT_RE :: "string \<Rightarrow> bool" where
  "SEGMENT_RE s = (case s of [] \<Rightarrow> False | c # t \<Rightarrow> alnum_char c \<and> list_all ident_char t \<and> length t \<le> 63)"

definition isQualifiedId :: "string \<Rightarrow> bool" where
  "isQualifiedId raw = List.member raw (CHR ''/'')"

definition parseQualifiedId :: "string \<Rightarrow> qualified_id option" where
  "parseQualifiedId raw =
     (case index_of (CHR ''/'') raw of
        None \<Rightarrow> None
      | Some i \<Rightarrow>
          let system = take i raw; agent = drop (Suc i) raw in
          if List.member agent (CHR ''/'') then None
          else if \<not> SEGMENT_RE system \<or> \<not> SEGMENT_RE agent then None
          else Some \<lparr>fed_system = system, fed_agent = agent\<rparr>)"

definition isValidIdSegment :: "string \<Rightarrow> bool" where
  "isValidIdSegment raw = SEGMENT_RE raw"

definition formatQualifiedId :: "string \<Rightarrow> string \<Rightarrow> string" where
  "formatQualifiedId system agent = system @ ''/'' @ agent"

definition federationSource :: "qualified_id \<Rightarrow> string" where
  "federationSource q = ''federation:'' @ fed_system q @ '':'' @ fed_agent q"

text \<open>The senders whose messages are channel handoffs (\<open>src/channel-coordinator/ingest.ts\<close>, \<open>src/web/agent-message-wrap.ts\<close>).\<close>

definition COORDINATOR_AGENT_ID :: string where
  "COORDINATOR_AGENT_ID = ''telegram-coordinator''"

definition CHANNEL_COORDINATOR_AGENTS :: "string list" where
  "CHANNEL_COORDINATOR_AGENTS = [COORDINATOR_AGENT_ID]"

definition isChannelCoordinatorSender :: "string \<Rightarrow> bool" where
  "isChannelCoordinatorSender safeFrom = List.member CHANNEL_COORDINATOR_AGENTS safeFrom"

text \<open>\<open>sanitizeAgentSource\<close> (\<open>src/prompt-safety.ts\<close>): the source attribute of a frame.\<close>

definition sanitizeAgentSource :: "string \<Rightarrow> string" where
  "sanitizeAgentSource raw =
     (let cleaned = filter (\<lambda>c. ident_char c \<or> c = CHR '':'') raw in if cleaned = [] then ''unknown'' else cleaned)"

lemma slash_not_ident: "\<not> ident_char (CHR ''/'')" "\<not> ident_char (CHR '':'')" "\<not> ident_char (CHR ''<'')" "\<not> ident_char (CHR ''\<newline>'')"
  by (simp_all add: ident_char_def is_word_def is_digit_def code_def)

lemma segment_ident: "SEGMENT_RE s \<Longrightarrow> s \<noteq> [] \<and> list_all ident_char s \<and> length s \<le> 64"
  by (cases s) (auto simp: SEGMENT_RE_def alnum_char_def ident_char_def)

lemma segment_no: "SEGMENT_RE s \<Longrightarrow> CHR ''/'' \<notin> set s \<and> CHR '':'' \<notin> set s"
  using segment_ident slash_not_ident by (auto simp: list_all_iff)

lemma index_of_first: "c \<notin> set xs \<Longrightarrow> index_of c (xs @ c # ys) = Some (length xs)"
  by (induction xs) auto

lemma parse_format:
  "SEGMENT_RE s \<Longrightarrow> SEGMENT_RE a \<Longrightarrow> parseQualifiedId (formatQualifiedId s a) = Some \<lparr>fed_system = s, fed_agent = a\<rparr>"
  using segment_no by (simp add: parseQualifiedId_def formatQualifiedId_def index_of_first List.member_iff)

lemma parse_SomeD:
  assumes "parseQualifiedId raw = Some q"
  shows "raw = formatQualifiedId (fed_system q) (fed_agent q) \<and> SEGMENT_RE (fed_system q) \<and> SEGMENT_RE (fed_agent q)"
proof -
  from assms obtain i where i: "index_of (CHR ''/'') raw = Some i" by (auto simp: parseQualifiedId_def split: option.splits)
  with assms have q: "q = \<lparr>fed_system = take i raw, fed_agent = drop (Suc i) raw\<rparr>" "SEGMENT_RE (take i raw)" "SEGMENT_RE (drop (Suc i) raw)"
    by (auto simp: parseQualifiedId_def Let_def split: if_splits)
  from index_of_Some [OF i] have "raw = take i raw @ CHR ''/'' # drop (Suc i) raw" by (metis id_take_nth_drop)
  with q show ?thesis by (simp add: formatQualifiedId_def)
qed

lemma source_kept: "SEGMENT_RE (fed_system q) \<Longrightarrow> SEGMENT_RE (fed_agent q) \<Longrightarrow> sanitizeAgentSource (federationSource q) = federationSource q"
proof -
  assume a: "SEGMENT_RE (fed_system q)" "SEGMENT_RE (fed_agent q)"
  have "\<forall>c\<in>set (federationSource q). ident_char c \<or> c = CHR '':''"
    using segment_ident [OF a(1)] segment_ident [OF a(2)]
    by (auto simp: federationSource_def list_all_iff ident_char_def is_word_def is_digit_def code_def)
  then show ?thesis by (simp add: sanitizeAgentSource_def filter_id_conv federationSource_def)
qed

lemma source_inject:
  assumes "SEGMENT_RE (fed_system p)" "SEGMENT_RE (fed_system q)" "federationSource p = federationSource q"
  shows "p = q"
proof -
  have eq: "fed_system p @ CHR '':'' # fed_agent p = fed_system q @ CHR '':'' # fed_agent q"
    using assms(3) by (simp add: federationSource_def)
  have "length (fed_system p) = length (fed_system q)"
    using index_of_first [of "CHR '':''" "fed_system p" "fed_agent p"] index_of_first [of "CHR '':''" "fed_system q" "fed_agent q"]
      segment_no assms(1,2) eq by simp
  with eq show ?thesis by (cases p; cases q) simp
qed

text \<open>
  C30: qualified ids are read as they are written. Parsing gives a pair of segments exactly for the texts that formatting
  such a pair gives, with no other reading; the source attribute of the pair passes the sanitiser unchanged and
  determines it, so two remote senders are never shown under one source.
\<close>

theorem qualified_id_roundtrip:
  "(parseQualifiedId raw = Some q \<longleftrightarrow> SEGMENT_RE (fed_system q) \<and> SEGMENT_RE (fed_agent q) \<and> raw = formatQualifiedId (fed_system q) (fed_agent q))
   \<and> (parseQualifiedId raw = Some q \<longrightarrow> sanitizeAgentSource (federationSource q) = federationSource q
        \<and> (\<forall>r. parseQualifiedId (formatQualifiedId (fed_system r) (fed_agent r)) = Some r \<and> federationSource r = federationSource q \<longrightarrow> r = q))"
  using parse_format [of "fed_system q" "fed_agent q"] parse_SomeD source_kept source_inject by fastforce

theorem qualified_id_roundtrip_witness:
  "parseQualifiedId ''teodor/dev-1'' = Some \<lparr>fed_system = ''teodor'', fed_agent = ''dev-1''\<rparr>"
proof -
  have "SEGMENT_RE ''teodor''" "SEGMENT_RE ''dev-1''" "''teodor/dev-1'' = formatQualifiedId ''teodor'' ''dev-1''"
    by (simp_all add: SEGMENT_RE_def alnum_char_def ident_char_def is_word_def is_digit_def code_def formatQualifiedId_def)
  then show ?thesis
    using qualified_id_roundtrip [of "''teodor/dev-1''" "\<lparr>fed_system = ''teodor'', fed_agent = ''dev-1''\<rparr>"] by simp
qed

end
