(* ===== verification/MessageStore.thy ===== *)
theory MessageStore
  imports ServerMarkers Addressing "HOL-Library.Product_Lexorder"
begin

text \<open>
  The table of inter-agent messages: \<open>src/db/agents.ts\<close>, with the writers of the same table in \<open>src/db/vault.ts\<close>,
  \<open>src/db/tenant-scoped.ts\<close> and \<open>src/channel-coordinator/ingest.ts\<close>, and the tenant a delegation inherits
  (\<open>src/db/tenant-channel-bindings.ts\<close>). A statement that says \<open>changes > 0\<close> returns that flag beside the table. Times
  are seconds. Rows stand in the order of their ids, as SQLite scans them.
\<close>

section \<open>Rows\<close>

datatype msg_status = Unread | Delivered | Done | Failed

record message =
  m_id :: nat
  m_from :: string
  m_to :: string
  m_content :: string
  m_status :: msg_status
  m_result :: "string option"
  m_created :: int
  m_delivered :: "int option"
  m_completed :: "int option"
  m_origin_note :: "string option"
  m_trace :: "string option"
  m_span :: "string option"
  m_parent_span :: "string option"
  m_tenant :: string
  m_refused :: "string option"
  m_no_session :: "int option"
  m_envelope :: "string option"

record message_db =
  msgs :: "message list"
  last_id :: nat

definition UNBOUND_SOURCE_TENANT :: string where "UNBOUND_SOURCE_TENANT = ''default''"

section \<open>The tenant a delegation inherits\<close>

datatype context_status = Bound | DefaultContext | UnknownContext | Conflict

record tenant_context =
  cx_tenant :: "string option"
  cx_status :: context_status
  cx_updated :: "int option"

record tenant_row =
  tn_id :: string
  tn_main :: "string option"
  tn_disabled :: "int option"

record tenant_db =
  contexts :: "string \<Rightarrow> tenant_context option"
  tenants :: "tenant_row list"
  availability :: "(string \<times> string \<times> bool) list"
  reads_fail :: bool

definition agentServesTenant :: "tenant_db \<Rightarrow> string \<Rightarrow> string \<Rightarrow> bool" where
  "agentServesTenant td agent tenant \<longleftrightarrow>
     list_ex (\<lambda>t. tn_id t = tenant \<and> tn_disabled t = None
       \<and> (tn_main t = Some agent \<or> List.member (availability td) (tenant, agent, True))) (tenants td)"

definition DEFAULT_CONTEXT_MAX_AGE_SECONDS :: int where
  "DEFAULT_CONTEXT_MAX_AGE_SECONDS = 43200"

text \<open>\<open>parsed\<close> is the number the environment sets, if it sets one.\<close>

definition context_stale :: "int option \<Rightarrow> int \<Rightarrow> tenant_context \<Rightarrow> bool" where
  "context_stale parsed now r =
     (let maxAge = (case parsed of Some n \<Rightarrow> n | None \<Rightarrow> DEFAULT_CONTEXT_MAX_AGE_SECONDS)
      in maxAge > 0 \<and> now - (case cx_updated r of Some u \<Rightarrow> u | None \<Rightarrow> 0) > maxAge)"

definition servingTenant :: "tenant_db \<Rightarrow> int option \<Rightarrow> string \<Rightarrow> int \<Rightarrow> string option" where
  "servingTenant td parsed agent now =
     (if reads_fail td then None
      else case contexts td agent of
        None \<Rightarrow> None
      | Some r \<Rightarrow>
          if cx_status r \<noteq> Bound \<and> cx_status r \<noteq> DefaultContext \<or> cx_tenant r = None \<or> cx_tenant r = Some [] then None
          else if context_stale parsed now r then None
          else if cx_status r = DefaultContext then cx_tenant r
          else if agentServesTenant td agent (the (cx_tenant r)) then cx_tenant r else None)"

definition getDelegationTenant :: "tenant_db \<Rightarrow> int option \<Rightarrow> string \<Rightarrow> int \<Rightarrow> string" where
  "getDelegationTenant td parsed agent now =
     (if reads_fail td then UNBOUND_SOURCE_TENANT
      else case contexts td agent of
        None \<Rightarrow> UNBOUND_SOURCE_TENANT
      | Some r \<Rightarrow>
          (case cx_tenant r of
             None \<Rightarrow> UNBOUND_SOURCE_TENANT
           | Some t \<Rightarrow>
               if cx_status r \<noteq> Bound \<or> t = [] \<or> t = UNBOUND_SOURCE_TENANT then UNBOUND_SOURCE_TENANT
               else if context_stale parsed now r then UNBOUND_SOURCE_TENANT
               else if agentServesTenant td agent t then t else UNBOUND_SOURCE_TENANT))"

text \<open>Why there is no answer.\<close>

definition explainServingTenantMiss :: "tenant_db \<Rightarrow> int option \<Rightarrow> string \<Rightarrow> int \<Rightarrow> string" where
  "explainServingTenantMiss td parsed agent now =
     (if reads_fail td then ''error''
      else case contexts td agent of
        None \<Rightarrow> ''no_row''
      | Some r \<Rightarrow>
          if cx_status r \<noteq> Bound \<and> cx_status r \<noteq> DefaultContext \<or> cx_tenant r = None \<or> cx_tenant r = Some []
          then (if cx_status r = Conflict then ''conflict'' else ''unknown'')
          else if context_stale parsed now r then ''stale''
          else if cx_status r = DefaultContext then ''fresh''
          else if agentServesTenant td agent (the (cx_tenant r)) then ''fresh'' else ''not_serving'')"

section \<open>Writing a message\<close>

definition blank_message :: "nat \<Rightarrow> string \<Rightarrow> string \<Rightarrow> string \<Rightarrow> int \<Rightarrow> string \<Rightarrow> message" where
  "blank_message i from_agent to_agent content now tenant =
     \<lparr>m_id = i, m_from = from_agent, m_to = to_agent, m_content = content, m_status = Unread, m_result = None, m_created = now,
      m_delivered = None, m_completed = None, m_origin_note = None, m_trace = None, m_span = None, m_parent_span = None,
      m_tenant = tenant, m_refused = None, m_no_session = None, m_envelope = None\<rparr>"

text \<open>\<open>INTEGER PRIMARY KEY AUTOINCREMENT\<close>: an id is never used twice.\<close>

definition insert_message :: "(nat \<Rightarrow> message) \<Rightarrow> message_db \<Rightarrow> message_db" where
  "insert_message mk db = \<lparr>msgs = msgs db @ [mk (last_id db + 1)], last_id = last_id db + 1\<rparr>"

record draft =
  d_from :: string
  d_to :: string
  d_content :: string
  d_origin_note :: "string option"
  d_trace :: "(string \<times> string \<times> string option) option"
  d_tenant :: string
  d_envelope :: "string option"
  d_pin :: bool

definition message_of :: "draft \<Rightarrow> string \<Rightarrow> int \<Rightarrow> nat \<Rightarrow> message" where
  "message_of d tenant now i = (blank_message i (d_from d) (d_to d) (d_content d) now tenant)
     \<lparr>m_origin_note := d_origin_note d, m_trace := map_option fst (d_trace d), m_span := map_option (fst \<circ> snd) (d_trace d),
      m_parent_span := Option.bind (d_trace d) (snd \<circ> snd), m_envelope := d_envelope d\<rparr>"

definition stamped_tenant :: "tenant_db \<Rightarrow> int option \<Rightarrow> int \<Rightarrow> draft \<Rightarrow> string" where
  "stamped_tenant td parsed now d =
     (if \<not> d_pin d \<and> d_tenant d = UNBOUND_SOURCE_TENANT \<and> \<not> List.member (d_to d) (CHR ''/'')
      then getDelegationTenant td parsed (d_from d) now else d_tenant d)"

text \<open>\<open>None\<close> when the marker filter throws.\<close>

definition createAgentMessage :: "unicode \<Rightarrow> tenant_db \<Rightarrow> int option \<Rightarrow> int \<Rightarrow> draft \<Rightarrow> message_db \<Rightarrow> (message \<times> message_db) option" where
  "createAgentMessage uni td parsed now d db =
     (if assertNoReservedMarker uni (d_from d) (points_of (d_content d))
      then (let mk = message_of d (stamped_tenant td parsed now d) now in Some (mk (last_id db + 1), insert_message mk db))
      else None)"

definition insertTenantMessage :: "unicode \<Rightarrow> string \<Rightarrow> string \<Rightarrow> string \<Rightarrow> string \<Rightarrow> int \<Rightarrow> message_db \<Rightarrow> (nat \<times> message_db) option" where
  "insertTenantMessage uni tenant from_agent to_agent content now db =
     (if assertNoReservedMarker uni from_agent (points_of content)
      then Some (last_id db + 1, insert_message (\<lambda>i. blank_message i from_agent to_agent content now tenant) db) else None)"

definition createHandoffMessage :: "string \<Rightarrow> string \<Rightarrow> int \<Rightarrow> message_db \<Rightarrow> nat \<times> message_db" where
  "createHandoffMessage main_agent content now db =
     (last_id db + 1, insert_message (\<lambda>i. blank_message i COORDINATOR_AGENT_ID main_agent content now UNBOUND_SOURCE_TENANT) db)"

section \<open>Reading the queue\<close>

definition getAgentMessage :: "nat \<Rightarrow> message_db \<Rightarrow> message option" where
  "getAgentMessage i db = find (\<lambda>m. m_id m = i) (msgs db)"

definition tenant_ok :: "string option \<Rightarrow> message \<Rightarrow> bool" where
  "tenant_ok tenant m \<longleftrightarrow> (case tenant of None \<Rightarrow> True | Some t \<Rightarrow> t = [] \<or> m_tenant m = t)"

definition getPendingMessages :: "string option \<Rightarrow> string option \<Rightarrow> message_db \<Rightarrow> message list" where
  "getPendingMessages to_agent tenant db =
     sort_key m_created (filter (\<lambda>m. m_status m = Unread \<and> tenant_ok tenant m
       \<and> (case to_agent of None \<Rightarrow> True | Some a \<Rightarrow> a = [] \<or> m_to m = a)) (msgs db))"

record backlog =
  bl_agent :: string
  bl_pending :: nat
  bl_oldest :: int

definition getPendingBacklogByAgent :: "int \<Rightarrow> message_db \<Rightarrow> backlog list" where
  "getPendingBacklogByAgent now db =
     (let waiting = filter (\<lambda>m. m_status m = Unread) (msgs db);
          of_agent = (\<lambda>a. filter (\<lambda>m. m_to m = a) waiting)
      in sort_key (\<lambda>b. - bl_oldest b)
           (map (\<lambda>a. \<lparr>bl_agent = a, bl_pending = length (of_agent a), bl_oldest = max 0 (now - Min (set (map m_created (of_agent a))))\<rparr>)
             (remdups (map m_to waiting))))"

definition newest_first :: "message list \<Rightarrow> message list" where
  "newest_first ms = sort_key (\<lambda>m. - m_created m) ms"

definition listAgentMessages :: "nat \<Rightarrow> string option \<Rightarrow> message_db \<Rightarrow> message list" where
  "listAgentMessages limit tenant db = take limit (newest_first (filter (tenant_ok tenant) (msgs db)))"

definition listTenantMessagesFor :: "string \<Rightarrow> string \<Rightarrow> msg_status option \<Rightarrow> nat \<Rightarrow> message_db \<Rightarrow> message list" where
  "listTenantMessagesFor tenant to_agent status limit db =
     take limit (newest_first (filter (\<lambda>m. m_tenant m = tenant \<and> m_to m = to_agent
       \<and> (case status of None \<Rightarrow> True | Some s \<Rightarrow> m_status m = s)) (msgs db)))"

section \<open>Changing a message\<close>

definition update_messages :: "(message \<Rightarrow> bool) \<Rightarrow> (message \<Rightarrow> message) \<Rightarrow> message_db \<Rightarrow> bool \<times> message_db" where
  "update_messages g f db = (changed g (msgs db), db\<lparr>msgs := sql_update g f (msgs db)\<rparr>)"

definition closed :: "message \<Rightarrow> bool" where
  "closed m \<longleftrightarrow> m_status m = Done \<or> m_status m = Failed"

definition waiting :: "nat \<Rightarrow> message \<Rightarrow> bool" where
  "waiting i m \<longleftrightarrow> m_id m = i \<and> m_status m = Unread"

definition deliver_row :: "int \<Rightarrow> message \<Rightarrow> message" where
  "deliver_row now m = m\<lparr>m_status := Delivered, m_delivered := Some now\<rparr>"

definition fail_row :: "int \<Rightarrow> string option \<Rightarrow> message \<Rightarrow> message" where
  "fail_row now text m = m\<lparr>m_status := Failed, m_result := text, m_completed := Some now\<rparr>"

definition refuse_row :: "int \<Rightarrow> string option \<Rightarrow> message \<Rightarrow> message" where
  "refuse_row now text m = m\<lparr>m_status := Failed, m_refused := text, m_result := text, m_completed := Some now\<rparr>"

definition done_row :: "int \<Rightarrow> string option \<Rightarrow> message \<Rightarrow> message" where
  "done_row now text m = m\<lparr>m_status := Done, m_result := text, m_completed := Some now,
     m_delivered := (case m_delivered m of Some t \<Rightarrow> Some t | None \<Rightarrow> Some now)\<rparr>"

definition markMessageDelivered :: "nat \<Rightarrow> int \<Rightarrow> message_db \<Rightarrow> bool \<times> message_db" where
  "markMessageDelivered i now = update_messages (waiting i) (deliver_row now)"

definition requeueDeliveredMessage :: "nat \<Rightarrow> string \<Rightarrow> string \<Rightarrow> message_db \<Rightarrow> bool \<times> message_db" where
  "requeueDeliveredMessage i to_agent tenant =
     update_messages (\<lambda>m. m_id m = i \<and> m_status m = Delivered \<and> m_to m = to_agent \<and> m_tenant m = tenant)
       (\<lambda>m. m\<lparr>m_status := Unread, m_delivered := None\<rparr>)"

text \<open>One transaction; the count of rows closed.\<close>

definition closed_note :: "string \<Rightarrow> string" where
  "closed_note reason = ''closed-without-delivery: '' @ reason"

fun closeMessagesWithoutDelivery :: "nat list \<Rightarrow> string \<Rightarrow> int \<Rightarrow> message_db \<Rightarrow> nat \<times> message_db" where
  "closeMessagesWithoutDelivery [] reason now db = (0, db)"
| "closeMessagesWithoutDelivery (i # is) reason now db =
     (let (hit, db') = update_messages (waiting i) (\<lambda>m. (deliver_row now m)\<lparr>m_result := Some (closed_note reason)\<rparr>) db;
          (n, db'') = closeMessagesWithoutDelivery is reason now db'
      in ((if hit then 1 else 0) + n, db''))"

definition setMessageResult :: "nat \<Rightarrow> string \<Rightarrow> message_db \<Rightarrow> bool \<times> message_db" where
  "setMessageResult i text = update_messages (\<lambda>m. m_id m = i) (\<lambda>m. m\<lparr>m_result := Some text\<rparr>)"

text \<open>\<open>LIKE\<close>, case-insensitive on ASCII letters, with an optional escape character.\<close>

definition like_escaped :: "char option \<Rightarrow> char \<Rightarrow> bool" where
  "like_escaped esc c \<longleftrightarrow> esc = Some c"

fun like :: "char option \<Rightarrow> string \<Rightarrow> string \<Rightarrow> bool" where
  "like esc [] s \<longleftrightarrow> s = []"
| "like esc (p # ps) s \<longleftrightarrow>
     (if like_escaped esc p
      then (case ps of [] \<Rightarrow> False | q # qs \<Rightarrow> (case s of [] \<Rightarrow> False | c # cs \<Rightarrow> ascii_lower c = ascii_lower q \<and> like esc qs cs))
      else if p = CHR ''%'' then like esc ps s \<or> (case s of [] \<Rightarrow> False | _ # cs \<Rightarrow> like esc (p # ps) cs)
      else (case s of [] \<Rightarrow> False | c # cs \<Rightarrow> (p = CHR ''_'' \<or> ascii_lower c = ascii_lower p) \<and> like esc ps cs))"

definition escapeLike :: "string \<Rightarrow> string" where
  "escapeLike value = concat (map (\<lambda>c. if c = CHR 0x5C \<or> c = CHR ''%'' \<or> c = CHR ''_'' then [CHR 0x5C, c] else [c]) value)"

definition federated_for :: "string option \<Rightarrow> message \<Rightarrow> bool" where
  "federated_for peer m \<longleftrightarrow>
     (case peer of
        None \<Rightarrow> like None ''%/%'' (m_to m)
      | Some p \<Rightarrow> like (Some (CHR 0x5C)) (escapeLike (js_lower p) @ ''/%'') (map ascii_lower (m_to m)))"

definition failPendingFederatedMessages :: "string option \<Rightarrow> string \<Rightarrow> int \<Rightarrow> message_db \<Rightarrow> nat list \<times> message_db" where
  "failPendingFederatedMessages peer reason now db =
     (let g = (\<lambda>m. m_status m = Unread \<and> federated_for peer m)
      in (map m_id (filter g (msgs db)), snd (update_messages g (fail_row now (Some reason)) db)))"

text \<open>
  The claim of the pull path. The columns the statement does not return are absent from the rows handed out.
\<close>

definition claim_order :: "message \<Rightarrow> int \<times> nat" where
  "claim_order m = (m_created m, m_id m)"

definition claimed_ids :: "string \<Rightarrow> nat \<Rightarrow> message_db \<Rightarrow> nat list" where
  "claimed_ids to_agent limit db =
     map m_id (take limit (sort_key claim_order (filter (\<lambda>m. m_to m = to_agent \<and> m_status m = Unread) (msgs db))))"

definition returned_columns :: "message \<Rightarrow> message" where
  "returned_columns m = m\<lparr>m_origin_note := None, m_trace := None, m_span := None, m_parent_span := None, m_refused := None,
     m_no_session := None, m_envelope := None\<rparr>"

definition claimPendingForAgent :: "string \<Rightarrow> nat \<Rightarrow> int \<Rightarrow> message_db \<Rightarrow> message list \<times> message_db" where
  "claimPendingForAgent to_agent limit now db =
     (let ids = claimed_ids to_agent limit db;
          db' = snd (update_messages (\<lambda>m. List.member ids (m_id m)) (deliver_row now) db)
      in (sort_key claim_order (map returned_columns (filter (\<lambda>m. List.member ids (m_id m)) (msgs db'))), db'))"

definition markMessageDone :: "nat \<Rightarrow> string option \<Rightarrow> int \<Rightarrow> message_db \<Rightarrow> bool \<times> message_db" where
  "markMessageDone i text now = update_messages (\<lambda>m. m_id m = i) (done_row now text)"

definition markMessageFailed :: "nat \<Rightarrow> string option \<Rightarrow> int \<Rightarrow> message_db \<Rightarrow> bool \<times> message_db" where
  "markMessageFailed i text now = update_messages (\<lambda>m. m_id m = i) (fail_row now text)"

definition markMessageRefused :: "nat \<Rightarrow> string option \<Rightarrow> int \<Rightarrow> message_db \<Rightarrow> bool \<times> message_db" where
  "markMessageRefused i text now = update_messages (\<lambda>m. m_id m = i) (refuse_row now text)"

datatype close_as = CloseDone | CloseFailed | CloseRefused

fun close_row :: "close_as \<Rightarrow> int \<Rightarrow> string option \<Rightarrow> message \<Rightarrow> message" where
  "close_row CloseDone now text = done_row now text"
| "close_row CloseFailed now text = fail_row now text"
| "close_row CloseRefused now text = refuse_row now text"

definition open_row :: "nat \<Rightarrow> message \<Rightarrow> bool" where
  "open_row i m \<longleftrightarrow> m_id m = i \<and> \<not> closed m"

definition closeOpenMessage :: "nat \<Rightarrow> close_as \<Rightarrow> string option \<Rightarrow> int \<Rightarrow> message_db \<Rightarrow> bool \<times> message_db" where
  "closeOpenMessage i status text now = update_messages (open_row i) (close_row status now text)"

definition markMessageNoSession :: "nat \<Rightarrow> int \<Rightarrow> message_db \<Rightarrow> bool \<times> message_db" where
  "markMessageNoSession i now = update_messages (waiting i)
     (\<lambda>m. m\<lparr>m_no_session := (case m_no_session m of Some t \<Rightarrow> Some t | None \<Rightarrow> Some now)\<rparr>)"

definition markPendingFederatedFailed :: "nat \<Rightarrow> string \<Rightarrow> int \<Rightarrow> message_db \<Rightarrow> bool \<times> message_db" where
  "markPendingFederatedFailed i error now = update_messages (waiting i) (fail_row now (Some error))"

definition stampMessageTrace :: "nat \<Rightarrow> string \<Rightarrow> string \<Rightarrow> string option \<Rightarrow> message_db \<Rightarrow> bool \<times> message_db" where
  "stampMessageTrace i trace sp parent = update_messages (\<lambda>m. waiting i m \<and> m_trace m = None)
     (\<lambda>m. m\<lparr>m_trace := Some trace, m_span := Some sp, m_parent_span := parent\<rparr>)"

definition pruneAgentMessages :: "int \<Rightarrow> int \<Rightarrow> message_db \<Rightarrow> nat \<times> message_db" where
  "pruneAgentMessages retentionDays now db =
     (let gone = (\<lambda>m. m_created m < now - retentionDays * 86400)
      in (length (filter gone (msgs db)), db\<lparr>msgs := filter (\<lambda>m. \<not> gone m) (msgs db)\<rparr>))"

text \<open>\<open>COMPLETION_REPORT_PREFIX\<close>; its eighth letter is an e with an acute accent.\<close>

definition COMPLETION_REPORT_PREFIX :: string where
  "COMPLETION_REPORT_PREFIX = ''[Eredm'' @ [CHR 0xE9] @ ''ny]''"

definition awaiting_result :: "string \<Rightarrow> string option \<Rightarrow> message \<Rightarrow> bool" where
  "awaiting_result from_agent coordinator m \<longleftrightarrow>
     m_from m = from_agent \<and> (m_status m = Unread \<or> m_status m = Delivered)
     \<and> take (length COMPLETION_REPORT_PREFIX) (m_content m) \<noteq> COMPLETION_REPORT_PREFIX
     \<and> (case coordinator of None \<Rightarrow> True | Some c \<Rightarrow> c = [] \<or> c = from_agent \<or> m_to m \<noteq> c)"

definition getDispatchedPendingStats :: "string \<Rightarrow> int \<Rightarrow> int \<Rightarrow> string option \<Rightarrow> message_db \<Rightarrow> nat \<times> bool" where
  "getDispatchedPendingStats from_agent nowMs staleCutoffMs coordinator db =
     (let cutoff = (nowMs - staleCutoffMs) div 1000
      in (length (filter (\<lambda>m. awaiting_result from_agent coordinator m \<and> m_created m > cutoff) (msgs db)),
          list_ex (\<lambda>m. awaiting_result from_agent coordinator m \<and> m_created m \<le> cutoff) (msgs db)))"

section \<open>The operations together\<close>

record store_env =
  se_unicode :: unicode
  se_tenants :: tenant_db
  se_max_age :: "int option"
  se_main :: string

datatype message_op =
    OpCreate draft | OpTenantInsert string string string string | OpHandoff string
  | OpDeliver nat | OpRequeue nat string string | OpCloseUndelivered "nat list" string | OpResult nat string
  | OpPurge "string option" string | OpClaim string nat | OpDone nat "string option" | OpFailed nat "string option"
  | OpRefused nat "string option" | OpClose nat close_as "string option" | OpNoSession nat | OpFederatedFailed nat string
  | OpStamp nat string string "string option" | OpPrune int

fun message_do :: "store_env \<Rightarrow> int \<Rightarrow> message_op \<Rightarrow> message_db \<Rightarrow> message_db" where
  "message_do e now (OpCreate d) db =
     (case createAgentMessage (se_unicode e) (se_tenants e) (se_max_age e) now d db of Some (_, db') \<Rightarrow> db' | None \<Rightarrow> db)"
| "message_do e now (OpTenantInsert t a b c) db = (case insertTenantMessage (se_unicode e) t a b c now db of Some (_, db') \<Rightarrow> db' | None \<Rightarrow> db)"
| "message_do e now (OpHandoff c) db = snd (createHandoffMessage (se_main e) c now db)"
| "message_do e now (OpDeliver i) db = snd (markMessageDelivered i now db)"
| "message_do e now (OpRequeue i a t) db = snd (requeueDeliveredMessage i a t db)"
| "message_do e now (OpCloseUndelivered is reason) db = snd (closeMessagesWithoutDelivery is reason now db)"
| "message_do e now (OpResult i text) db = snd (setMessageResult i text db)"
| "message_do e now (OpPurge peer reason) db = snd (failPendingFederatedMessages peer reason now db)"
| "message_do e now (OpClaim a limit) db = snd (claimPendingForAgent a limit now db)"
| "message_do e now (OpDone i text) db = snd (markMessageDone i text now db)"
| "message_do e now (OpFailed i text) db = snd (markMessageFailed i text now db)"
| "message_do e now (OpRefused i text) db = snd (markMessageRefused i text now db)"
| "message_do e now (OpClose i status text) db = snd (closeOpenMessage i status text now db)"
| "message_do e now (OpNoSession i) db = snd (markMessageNoSession i now db)"
| "message_do e now (OpFederatedFailed i error) db = snd (markPendingFederatedFailed i error now db)"
| "message_do e now (OpStamp i t s p) db = snd (stampMessageTrace i t s p db)"
| "message_do e now (OpPrune days) db = snd (pruneAgentMessages days now db)"

fun message_run :: "store_env \<Rightarrow> (int \<times> message_op) list \<Rightarrow> message_db \<Rightarrow> message_db" where
  "message_run e [] db = db"
| "message_run e ((now, op) # ops) db = message_run e ops (message_do e now op db)"

definition no_messages :: message_db where
  "no_messages = \<lparr>msgs = [], last_id = 0\<rparr>"

section \<open>What an operation does to a row\<close>

text \<open>The letter is what the sender wrote; the rest of a row is its fate.\<close>

definition letter :: "message \<Rightarrow> nat \<times> string \<times> string \<times> string \<times> int \<times> string \<times> string option \<times> string option" where
  "letter m = (m_id m, m_from m, m_to m, m_content m, m_created m, m_tenant m, m_origin_note m, m_envelope m)"

definition row_typed :: "message \<Rightarrow> bool" where
  "row_typed m \<longleftrightarrow>
     (case m_status m of
        Unread \<Rightarrow> m_delivered m = None \<and> m_completed m = None \<and> m_refused m = None
      | Delivered \<Rightarrow> m_delivered m \<noteq> None \<and> m_completed m = None \<and> m_refused m = None
      | Done \<Rightarrow> m_delivered m \<noteq> None \<and> m_completed m \<noteq> None
      | Failed \<Rightarrow> m_completed m \<noteq> None)"

text \<open>Operations that overwrite the fate of the row \<open>i\<close> whatever it is.\<close>

fun overwrites :: "nat \<Rightarrow> message_op \<Rightarrow> bool" where
  "overwrites i (OpResult j _) \<longleftrightarrow> i = j"
| "overwrites i (OpDone j _) \<longleftrightarrow> i = j"
| "overwrites i (OpFailed j _) \<longleftrightarrow> i = j"
| "overwrites i (OpRefused j _) \<longleftrightarrow> i = j"
| "overwrites i _ \<longleftrightarrow> False"

fun requeues :: "nat \<Rightarrow> message_op \<Rightarrow> bool" where
  "requeues i (OpRequeue j _ _) \<longleftrightarrow> i = j"
| "requeues i _ \<longleftrightarrow> False"

definition evolves :: "message_op \<Rightarrow> message \<Rightarrow> message \<Rightarrow> bool" where
  "evolves op r r' \<longleftrightarrow> letter r' = letter r \<and> (row_typed r \<longrightarrow> row_typed r') \<and> (closed r \<longrightarrow> closed r')
     \<and> (closed r \<and> \<not> overwrites (m_id r) op \<longrightarrow> r' = r)
     \<and> (m_status r' = Unread \<longrightarrow> m_status r = Unread \<or> requeues (m_id r) op)"

lemma evolves_refl [simp]: "evolves op r r"
  by (simp add: evolves_def)

lemma evolves_id: "evolves op r s \<Longrightarrow> m_id s = m_id r"
  by (simp add: evolves_def letter_def)

lemma evolves_trans: "evolves op r s \<Longrightarrow> evolves op s t \<Longrightarrow> evolves op r t"
  by (auto simp: evolves_def letter_def)

named_theorems fate

lemmas [fate] = evolves_def letter_def row_typed_def closed_def waiting_def open_row_def deliver_row_def fail_row_def refuse_row_def done_row_def

lemma update_messages_evolves:
  assumes "\<And>r. g r \<Longrightarrow> evolves op r (f r)" and "r' \<in> set (msgs (snd (update_messages g f db)))"
  shows "\<exists>r\<in>set (msgs db). evolves op r r'"
proof -
  obtain r where "r \<in> set (msgs db)" "r' = (if g r then f r else r)" using assms(2) by (auto simp: update_messages_def set_sql_update)
  with assms(1) show ?thesis by (cases "g r") (auto intro: bexI [where x = r])
qed

lemma close_undelivered_evolves:
  "r' \<in> set (msgs (snd (closeMessagesWithoutDelivery is reason now db))) \<Longrightarrow> \<exists>r\<in>set (msgs db). evolves (OpCloseUndelivered js reason) r r'"
proof (induction "is" arbitrary: db)
  case (Cons i "is")
  let ?f = "\<lambda>m. (deliver_row now m)\<lparr>m_result := Some (closed_note reason)\<rparr>"
  from Cons.prems have "r' \<in> set (msgs (snd (closeMessagesWithoutDelivery is reason now (snd (update_messages (waiting i) ?f db)))))"
    by (simp add: case_prod_beta)
  from Cons.IH [OF this] obtain s where s: "s \<in> set (msgs (snd (update_messages (waiting i) ?f db)))" "evolves (OpCloseUndelivered js reason) s r'"
    by blast
  have "evolves (OpCloseUndelivered js reason) r (?f r)" if "waiting i r" for r using that by (auto simp: fate)
  from update_messages_evolves [OF this s(1)] s(2) evolves_trans show ?case by blast
qed (use evolves_refl in fastforce)

lemma claimed_waiting: "List.member (claimed_ids a limit db) i \<Longrightarrow> \<exists>m\<in>set (msgs db). m_id m = i \<and> m_to m = a \<and> m_status m = Unread"
  by (fastforce simp: claimed_ids_def List.member_iff dest: in_set_takeD)

text \<open>Ids name one row each and are never above the counter.\<close>

definition ids_ok :: "message_db \<Rightarrow> bool" where
  "ids_ok db \<longleftrightarrow> distinct (map m_id (msgs db)) \<and> (\<forall>m\<in>set (msgs db). m_id m \<le> last_id db)"

lemma same_row: "ids_ok db \<Longrightarrow> r \<in> set (msgs db) \<Longrightarrow> s \<in> set (msgs db) \<Longrightarrow> m_id r = m_id s \<Longrightarrow> r = s"
  by (simp add: ids_ok_def distinct_map inj_on_def)

lemma message_ids_update: "(\<And>r. m_id (f r) = m_id r) \<Longrightarrow> map m_id (sql_update g f rows) = map m_id rows"
  by (induction rows) auto

lemma ids_ok_update: "ids_ok db \<Longrightarrow> (\<And>r. m_id (f r) = m_id r) \<Longrightarrow> ids_ok (snd (update_messages g f db))"
  by (auto simp: ids_ok_def update_messages_def message_ids_update set_sql_update)

lemma ids_ok_insert: "ids_ok db \<Longrightarrow> (\<And>i. m_id (mk i) = i) \<Longrightarrow> ids_ok (insert_message mk db)"
  by (fastforce simp: ids_ok_def insert_message_def)

lemma ids_ok_undelivered: "ids_ok db \<Longrightarrow> ids_ok (snd (closeMessagesWithoutDelivery is reason now db))"
proof (induction "is" arbitrary: db)
  case (Cons i "is")
  let ?db = "snd (update_messages (waiting i) (\<lambda>m. (deliver_row now m)\<lparr>m_result := Some (closed_note reason)\<rparr>) db)"
  have "ids_ok ?db" by (rule ids_ok_update [OF Cons.prems]) (simp add: deliver_row_def)
  from Cons.IH [OF this] show ?case by (simp add: case_prod_beta)
qed simp

lemma close_row_id [simp]: "m_id (close_row status now text m) = m_id m"
  by (cases status) (simp_all add: done_row_def fail_row_def refuse_row_def)

lemma ids_kept: "ids_ok db \<Longrightarrow> ids_ok (message_do e now op db)"
proof (cases op)
  case (OpPrune days)
  then show "ids_ok db \<Longrightarrow> ids_ok (message_do e now op db)"
    by (auto simp: pruneAgentMessages_def ids_ok_def distinct_map inj_on_def Let_def)
qed (auto simp: createAgentMessage_def insertTenantMessage_def createHandoffMessage_def markMessageDelivered_def requeueDeliveredMessage_def
    setMessageResult_def failPendingFederatedMessages_def claimPendingForAgent_def markMessageDone_def markMessageFailed_def
    markMessageRefused_def closeOpenMessage_def markMessageNoSession_def markPendingFederatedFailed_def stampMessageTrace_def
    Let_def message_of_def blank_message_def deliver_row_def fail_row_def refuse_row_def done_row_def
    intro!: ids_ok_update ids_ok_insert ids_ok_undelivered)

text \<open>A row after an operation comes from a row before it, or was written by it.\<close>

definition fresh_row :: "store_env \<Rightarrow> message_op \<Rightarrow> message_db \<Rightarrow> message \<Rightarrow> bool" where
  "fresh_row e op db r \<longleftrightarrow> m_id r = last_id db + 1 \<and> m_status r = Unread \<and> row_typed r
     \<and> (m_from r = COORDINATOR_AGENT_ID \<and> (\<exists>c. op = OpHandoff c)
        \<or> assertNoReservedMarker (se_unicode e) (m_from r) (points_of (m_content r)))"

lemma update_rows:
  assumes "message_do e now op db = snd (update_messages g f db)" and "\<And>r. r \<in> set (msgs db) \<Longrightarrow> g r \<Longrightarrow> evolves op r (f r)"
    and "r' \<in> set (msgs (message_do e now op db))"
  shows "(\<exists>r\<in>set (msgs db). evolves op r r') \<or> fresh_row e op db r'"
proof -
  obtain r where "r \<in> set (msgs db)" "r' = (if g r then f r else r)"
    using assms(1,3) by (auto simp: update_messages_def set_sql_update)
  with assms(2) show ?thesis by (cases "g r") (auto intro: bexI [where x = r])
qed

lemma insert_rows:
  assumes "message_do e now op db = insert_message mk db" and "fresh_row e op db (mk (last_id db + 1))"
    and "r' \<in> set (msgs (message_do e now op db))"
  shows "(\<exists>r\<in>set (msgs db). evolves op r r') \<or> fresh_row e op db r'"
  using assms by (auto simp: insert_message_def intro: bexI [where x = r'])

lemma claimed_is_waiting:
  assumes "ids_ok db" "r \<in> set (msgs db)" "List.member (claimed_ids a limit db) (m_id r)"
  shows "m_status r = Unread \<and> m_to r = a"
  using claimed_waiting [OF assms(3)] same_row [OF assms(1)] assms(2) by blast

lemmas op_defs = markMessageDelivered_def requeueDeliveredMessage_def setMessageResult_def failPendingFederatedMessages_def
  claimPendingForAgent_def markMessageDone_def markMessageFailed_def markMessageRefused_def closeOpenMessage_def
  markMessageNoSession_def markPendingFederatedFailed_def stampMessageTrace_def

lemma op_rows:
  assumes ok: "ids_ok db" and r': "r' \<in> set (msgs (message_do e now op db))"
  shows "(\<exists>r\<in>set (msgs db). evolves op r r') \<or> fresh_row e op db r'"
proof (cases op)
  case (OpCreate d)
  show ?thesis
  proof (cases "assertNoReservedMarker (se_unicode e) (d_from d) (points_of (d_content d))")
    case True
    then have "fresh_row e op db (message_of d (stamped_tenant (se_tenants e) (se_max_age e) now d) now (last_id db + 1))"
      by (simp add: fresh_row_def message_of_def blank_message_def row_typed_def)
    moreover have "message_do e now op db = insert_message (message_of d (stamped_tenant (se_tenants e) (se_max_age e) now d) now) db"
      using True OpCreate by (simp add: createAgentMessage_def Let_def)
    ultimately show ?thesis using insert_rows r' by blast
  next
    case False
    with r' OpCreate show ?thesis by (auto simp: createAgentMessage_def intro: bexI [where x = r'])
  qed
next
  case (OpTenantInsert t a b c)
  show ?thesis
  proof (cases "assertNoReservedMarker (se_unicode e) a (points_of c)")
    case True
    then have "fresh_row e op db (blank_message (last_id db + 1) a b c now t)"
      by (simp add: fresh_row_def blank_message_def row_typed_def)
    moreover have "message_do e now op db = insert_message (\<lambda>i. blank_message i a b c now t) db"
      using True OpTenantInsert by (simp add: insertTenantMessage_def)
    ultimately show ?thesis using insert_rows [where mk = "\<lambda>i. blank_message i a b c now t"] r' by blast
  next
    case False
    with r' OpTenantInsert show ?thesis by (auto simp: insertTenantMessage_def intro: bexI [where x = r'])
  qed
next
  case (OpHandoff c)
  then have "fresh_row e op db (blank_message (last_id db + 1) COORDINATOR_AGENT_ID (se_main e) c now UNBOUND_SOURCE_TENANT)"
    by (simp add: fresh_row_def blank_message_def row_typed_def)
  moreover have "message_do e now op db = insert_message (\<lambda>i. blank_message i COORDINATOR_AGENT_ID (se_main e) c now UNBOUND_SOURCE_TENANT) db"
    using OpHandoff by (simp add: createHandoffMessage_def)
  ultimately show ?thesis
    using insert_rows [where mk = "\<lambda>i. blank_message i COORDINATOR_AGENT_ID (se_main e) c now UNBOUND_SOURCE_TENANT"] r' by blast
next
  case (OpCloseUndelivered "is" reason)
  with r' close_undelivered_evolves show ?thesis by fastforce
next
  case (OpPrune days)
  with r' show ?thesis by (auto simp: pruneAgentMessages_def Let_def intro: bexI [where x = r'])
next
  case (OpClaim a limit)
  have "evolves op r (deliver_row now r)" if "r \<in> set (msgs db)" "List.member (claimed_ids a limit db) (m_id r)" for r
    using claimed_is_waiting [OF ok that] by (simp add: fate)
  with update_rows [OF _ _ r'] OpClaim show ?thesis by (simp add: claimPendingForAgent_def Let_def)
next
  case (OpClose i status res)
  have "evolves op r (close_row status now res r)" if "open_row i r" for r
    using that by (cases status; cases "m_status r") (auto simp: fate split: option.split)
  with update_rows [OF _ _ r'] OpClose show ?thesis by (simp add: closeOpenMessage_def)
qed (rule update_rows [OF _ _ r'], (simp add: op_defs Let_def)[1], (auto simp: fate split: msg_status.splits option.splits)[1])+

section \<open>Runs\<close>

lemma run_ids: "ids_ok db \<Longrightarrow> ids_ok (message_run e ops db)"
  by (induction e ops db rule: message_run.induct) (simp_all add: ids_kept)

lemma ids_ok_empty [simp]: "ids_ok no_messages"
  by (simp add: ids_ok_def no_messages_def)

lemma last_id_undelivered [simp]: "last_id (snd (closeMessagesWithoutDelivery is reason now db)) = last_id db"
  by (induction "is" arbitrary: db) (simp_all add: case_prod_beta update_messages_def)

lemma last_id_grows: "last_id db \<le> last_id (message_do e now op db)"
  by (cases op) (auto simp: op_defs createAgentMessage_def insertTenantMessage_def createHandoffMessage_def update_messages_def
      insert_message_def pruneAgentMessages_def Let_def)

text \<open>An id that is gone stays gone.\<close>

lemma run_keeps_away:
  "ids_ok db \<Longrightarrow> (\<And>r. r \<in> set (msgs db) \<Longrightarrow> m_id r \<noteq> i) \<Longrightarrow> i \<le> last_id db \<Longrightarrow> r' \<in> set (msgs (message_run e ops db)) \<Longrightarrow> m_id r' \<noteq> i"
proof (induction e ops db rule: message_run.induct)
  case (2 e now op ops db)
  let ?db = "message_do e now op db"
  have "m_id s \<noteq> i" if "s \<in> set (msgs ?db)" for s
    using op_rows [OF 2(2) that] 2(3,4) evolves_id by (fastforce simp: fresh_row_def)
  moreover have "i \<le> last_id ?db" using 2(4) last_id_grows [of db e now op] by simp
  ultimately show ?case using 2(1) [OF ids_kept [OF 2(2)]] 2(5) by simp
qed simp

text \<open>A row of a run with the id of an earlier row descends from it.\<close>

lemma run_descends:
  assumes "ids_ok db" and "r \<in> set (msgs db)" and "r' \<in> set (msgs (message_run e ops db))" and "m_id r' = m_id r"
  shows "letter r' = letter r \<and> (row_typed r \<longrightarrow> row_typed r') \<and> (closed r \<longrightarrow> closed r')
     \<and> (closed r \<and> list_all (\<lambda>(_, op). \<not> overwrites (m_id r) op) ops \<longrightarrow> r' = r)
     \<and> (m_status r \<noteq> Unread \<and> list_all (\<lambda>(_, op). \<not> requeues (m_id r) op) ops \<longrightarrow> m_status r' \<noteq> Unread)"
  using assms
proof (induction e ops db arbitrary: r rule: message_run.induct)
  case (1 e db)
  then have "r' = r" using same_row [OF 1(1), of r' r] by simp
  then show ?case by simp
next
  case (2 e now op ops db)
  let ?db = "message_do e now op db"
  have ok: "ids_ok ?db" by (rule ids_kept [OF 2(2)])
  show ?case
  proof (cases "\<exists>s\<in>set (msgs ?db). m_id s = m_id r")
    case True
    then obtain s where s: "s \<in> set (msgs ?db)" "m_id s = m_id r" by blast
    have "m_id r \<le> last_id db" using 2(2,3) by (simp add: ids_ok_def)
    then have "\<not> fresh_row e op db s" using s(2) by (auto simp: fresh_row_def)
    then obtain q where q: "q \<in> set (msgs db)" "evolves op q s" using op_rows [OF 2(2) s(1)] by blast
    have "m_id q = m_id s" using q(2) by (simp add: evolves_def letter_def)
    then have qr: "q = r" using same_row [OF 2(2) q(1) 2(3)] s(2) by simp
    have "r' \<in> set (msgs (message_run e ops ?db))" using 2(4) by simp
    from 2(1) [OF ok s(1) this] 2(5) s(2) q(2) qr show ?thesis by (auto simp: evolves_def)
  next
    case False
    have "False" using 2(4,5) False ok
    proof -
      have r': "r' \<in> set (msgs (message_run e ops ?db))" using 2(4) by simp
      have "m_id r \<le> last_id ?db" using 2(2,3) last_id_grows [of db e now op] by (auto simp: ids_ok_def)
      with run_keeps_away [OF ok _ this r'] 2(5) False show False by auto
    qed
    then show ?thesis ..
  qed
qed

text \<open>What holds of every row that is written and depends only on its letter and type.\<close>

lemma run_all:
  assumes "\<And>op db r. fresh_row e op db r \<Longrightarrow> P r" and "\<And>op r s. P r \<Longrightarrow> evolves op r s \<Longrightarrow> P s"
  shows "ids_ok db \<Longrightarrow> \<forall>r\<in>set (msgs db). P r \<Longrightarrow> \<forall>r\<in>set (msgs (message_run e ops db)). P r"
proof (induction ops arbitrary: db)
  case (Cons nop ops)
  obtain now op where nop: "nop = (now, op)" by (cases nop)
  have "\<forall>r\<in>set (msgs (message_do e now op db)). P r" using op_rows [OF Cons.prems(1)] Cons.prems(2) assms by blast
  with Cons.IH [OF ids_kept [OF Cons.prems(1)]] show ?case by (simp add: nop)
qed simp

section \<open>Properties\<close>

text \<open>
  C25: the rows are well typed after any operations in any order. A waiting message carries no delivery and no
  completion time, a delivered one a delivery time and no completion time, a finished one both, a failed one a
  completion time, and no two rows share an id.
\<close>

theorem message_rows_typed:
  "list_all row_typed (msgs (message_run e ops no_messages)) \<and> distinct (map m_id (msgs (message_run e ops no_messages)))"
proof -
  have "\<forall>r\<in>set (msgs (message_run e ops no_messages)). row_typed r"
    by (rule run_all [where P = row_typed]) (auto simp: fresh_row_def evolves_def, simp add: no_messages_def)
  moreover have "ids_ok (message_run e ops no_messages)" by (rule run_ids) simp
  ultimately show ?thesis by (simp add: list_all_iff ids_ok_def)
qed

text \<open>
  only the server's own writers can store a message that opens a line with one of its markers. Whatever is
  done to the table, a row with such a content is from the server itself or a channel handoff.
\<close>

theorem marked_rows_are_the_servers:
  "list_all (\<lambda>m. m_from m \<in> {SERVER_SENDER, COORDINATOR_AGENT_ID} \<or> findReservedMarker (se_unicode e) (points_of (m_content m)) = None)
     (msgs (message_run e ops no_messages))"
proof -
  let ?P = "\<lambda>m. m_from m \<in> {SERVER_SENDER, COORDINATOR_AGENT_ID} \<or> findReservedMarker (se_unicode e) (points_of (m_content m)) = None"
  have "\<forall>m\<in>set (msgs (message_run e ops no_messages)). ?P m"
  proof (rule run_all)
    show "\<forall>m\<in>set (msgs no_messages). ?P m" by (simp add: no_messages_def)
  qed (auto simp: fresh_row_def assertNoReservedMarker_def isServerSender_def evolves_def letter_def)
  then show ?thesis by (simp only: list_all_iff)
qed

lemma close_row_closed [simp]: "closed (close_row st now res m)"
  by (cases st) (simp_all add: closed_def done_row_def fail_row_def refuse_row_def)

interpretation closing: guarded_update m_id "\<lambda>(i, st, res, now). open_row i" "\<lambda>(i, st, res, now). close_row st now res"
  by unfold_locales (auto simp: open_row_def)

text \<open>After a successful close the row is closed.\<close>

lemma close_closes:
  assumes "ids_ok db" and "closeOpenMessage i st res now db = (True, db')"
  shows "ids_ok db'" and "i \<le> last_id db'" and "\<exists>r\<in>set (msgs db'). m_id r = i" and "\<And>r. r \<in> set (msgs db') \<Longrightarrow> m_id r = i \<Longrightarrow> closed r"
proof -
  have db': "db' = snd (update_messages (open_row i) (close_row st now res) db)" and ch: "changed (open_row i) (msgs db)"
    using assms(2) by (auto simp: closeOpenMessage_def update_messages_def)
  then obtain r where r: "r \<in> set (msgs db)" "open_row i r" by (auto simp: changed_iff)
  show "ids_ok db'" unfolding db' by (rule ids_ok_update [OF assms(1)]) simp
  show "i \<le> last_id db'" using assms(1) r by (auto simp: db' update_messages_def ids_ok_def open_row_def)
  have "map m_id (msgs db') = map m_id (msgs db)" by (simp add: db' update_messages_def message_ids_update)
  moreover have "i \<in> set (map m_id (msgs db))" using r by (auto simp: open_row_def)
  ultimately have "i \<in> set (map m_id (msgs db'))" by simp
  then show "\<exists>r\<in>set (msgs db'). m_id r = i" by auto
  have d: "distinct (map m_id (msgs db))" using assms(1) by (simp add: ids_ok_def)
  show "closed q" if q: "q \<in> set (msgs db')" "m_id q = i" for q
  proof -
    have "q \<in> set (sql_update (open_row i) (close_row st now res) (msgs db))" using q(1) by (simp add: db' update_messages_def)
    moreover have "m_id q = m_id r" using q(2) r(2) by (simp add: open_row_def)
    ultimately have "\<not> open_row i q"
      using closing.loser [OF d r(1), of "(i, st, res, now)" q "(i, st, res, now)", unfolded prod.case, OF r(2)] by blast
    then show ?thesis using q(2) by (simp add: open_row_def)
  qed
qed

text \<open>
  C13: once its executor has closed a message, the close is final. A second close reports false and changes nothing,
  and whatever happens to the table - deliveries, claims, requeues, purges, trace stamps, new messages - the row stays
  as the close left it, unless the router's own forced outcomes or a result note name it.
\<close>

theorem executor_close_is_final:
  assumes "ids_ok db" and "closeOpenMessage i st res now db = (True, db')" and "list_all (\<lambda>(_, op). \<not> overwrites i op) ops"
  shows "(\<forall>r\<in>set (msgs (message_run e ops db')). m_id r = i \<longrightarrow> r \<in> set (msgs db') \<and> closed r)
    \<and> closeOpenMessage i st2 res2 now2 (message_run e ops db') = (False, message_run e ops db')"
proof -
  note c = close_closes [OF assms(1,2)]
  obtain q where q: "q \<in> set (msgs db')" "m_id q = i" using c(3) by blast
  have same: "r = q" if "r \<in> set (msgs (message_run e ops db'))" "m_id r = i" for r
    using run_descends [OF c(1) q(1) that(1)] q that(2) c(4) [OF q] assms(3) by auto
  then have "\<not> changed (open_row i) (msgs (message_run e ops db'))"
    using c(4) [OF q] by (auto simp: changed_iff open_row_def)
  then have "closeOpenMessage i st2 res2 now2 (message_run e ops db') = (False, message_run e ops db')"
    by (simp add: closeOpenMessage_def update_messages_def sql_update_unchanged)
  with same c(4) q show ?thesis by blast
qed

section \<open>Claims\<close>

lemma claim_spec:
  assumes ok: "ids_ok db" and claim: "claimPendingForAgent a limit now db = (ms, db')"
  defines "W \<equiv> filter (\<lambda>m. m_to m = a \<and> m_status m = Unread) (msgs db)"
  defines "T \<equiv> take limit (sort_key claim_order W)"
  shows "\<And>m. m \<in> set ms \<Longrightarrow> \<exists>r\<in>set T. m = returned_columns (deliver_row now r)"
    and "\<And>r. r \<in> set T \<Longrightarrow> returned_columns (deliver_row now r) \<in> set ms"
    and "sorted (map claim_order ms)" and "length ms = min limit (length W)" and "set T \<subseteq> set W" and "ids_ok db'"
    and "\<And>r w. r \<in> set T \<Longrightarrow> w \<in> set W \<Longrightarrow> w \<notin> set T \<Longrightarrow> claim_order r \<le> claim_order w"
    and "\<And>r. r \<in> set T \<Longrightarrow> deliver_row now r \<in> set (msgs db')"
proof -
  let ?ids = "claimed_ids a limit db" and ?g = "\<lambda>m. List.member (claimed_ids a limit db) (m_id m)"
  have ids: "?ids = map m_id T" by (simp add: claimed_ids_def T_def W_def)
  have TW: "set T \<subseteq> set W" using set_take_subset [of limit "sort_key claim_order W"] by (simp add: T_def)
  then show "set T \<subseteq> set W" .
  have WM: "set W \<subseteq> set (msgs db)" by (auto simp: W_def)
  have g: "?g r \<longleftrightarrow> r \<in> set T" if "r \<in> set (msgs db)" for r
    using that TW WM same_row [OF ok] by (auto simp: ids List.member_iff)
  have db': "db' = snd (update_messages ?g (deliver_row now) db)"
    and ms: "ms = sort_key claim_order (map returned_columns (filter ?g (msgs db')))"
    using claim by (auto simp: claimPendingForAgent_def Let_def)
  have rows: "filter ?g (sql_update ?g (deliver_row now) xs) = map (deliver_row now) (filter ?g xs)" for xs
    by (induction xs) (auto simp: deliver_row_def)
  then have ms': "ms = sort_key claim_order (map (returned_columns \<circ> deliver_row now) (filter ?g (msgs db)))"
    by (simp add: ms db' update_messages_def)
  have F: "set (filter ?g (msgs db)) = set T" using g TW WM by auto
  show "m \<in> set ms \<Longrightarrow> \<exists>r\<in>set T. m = returned_columns (deliver_row now r)" for m using F by (auto simp: ms')
  show "r \<in> set T \<Longrightarrow> returned_columns (deliver_row now r) \<in> set ms" for r using F by (auto simp: ms')
  show "sorted (map claim_order ms)" by (simp add: ms')
  have dW: "distinct W" using ok by (auto simp: W_def ids_ok_def distinct_map)
  then have "distinct T" by (simp add: T_def)
  moreover have "distinct (filter ?g (msgs db))" using ok by (auto simp: ids_ok_def distinct_map)
  ultimately have "length (filter ?g (msgs db)) = length T" using F distinct_card by metis
  then show "length ms = min limit (length W)" by (simp add: ms' T_def min.commute)
  show "ids_ok db'" unfolding db' by (rule ids_ok_update [OF ok]) (simp add: deliver_row_def)
  show "r \<in> set T \<Longrightarrow> deliver_row now r \<in> set (msgs db')" for r using g TW WM by (force simp: db' update_messages_def set_sql_update)
  show "claim_order r \<le> claim_order w" if "r \<in> set T" "w \<in> set W" "w \<notin> set T" for r w
  proof -
    let ?S = "sort_key claim_order W"
    have "sorted (map claim_order (take limit ?S @ drop limit ?S))" by simp
    then have "\<forall>x\<in>set (take limit ?S). \<forall>y\<in>set (drop limit ?S). claim_order x \<le> claim_order y"
      unfolding map_append sorted_append by auto
    moreover have "w \<in> set (drop limit ?S)"
      using that(2,3) set_append [of "take limit ?S" "drop limit ?S"] by (auto simp: T_def)
    ultimately show ?thesis using that(1) by (simp add: T_def)
  qed
qed

text \<open>
  C12: no message is handed out twice, and the oldest go first. A claim hands out as many of the agent's waiting messages
  as the limit allows, in the order of their age and ids, none younger than one it leaves behind; whatever is done
  afterwards short of a requeue of the very message, no later claim by anybody hands it out again.
\<close>

theorem claims_fifo_and_once:
  assumes "ids_ok db" and "claimPendingForAgent a limit now db = (ms, db')"
    and "list_all (\<lambda>(_, op). \<forall>m\<in>set ms. \<not> requeues (m_id m) op) ops"
    and "claimPendingForAgent a2 limit2 now2 (message_run e ops db') = (ms2, db2)"
  shows "sorted (map claim_order ms) \<and> length ms = min limit (length (filter (\<lambda>m. m_to m = a \<and> m_status m = Unread) (msgs db)))
    \<and> (\<forall>m\<in>set ms. m_to m = a \<and> m_status m = Delivered)
    \<and> (\<forall>m\<in>set ms. \<forall>w\<in>set (msgs db). m_to w = a \<and> m_status w = Unread \<and> m_id w \<notin> m_id ` set ms \<longrightarrow> claim_order m \<le> claim_order w)
    \<and> m_id ` set ms \<inter> m_id ` set ms2 = {}"
proof -
  let ?W = "filter (\<lambda>m. m_to m = a \<and> m_status m = Unread) (msgs db)"
  let ?T = "set (take limit (sort_key claim_order ?W))"
  note c = claim_spec [OF assms(1,2)]
  have m: "\<exists>r\<in>?T. m = returned_columns (deliver_row now r)" if "m \<in> set ms" for m using c(1) that .
  have kept: "m_to m = a \<and> m_status m = Delivered" if "m \<in> set ms" for m
    using m [OF that] c(5) by (auto simp: returned_columns_def deliver_row_def)
  have older: "claim_order m \<le> claim_order w"
    if w: "m \<in> set ms" "w \<in> set (msgs db)" "m_to w = a" "m_status w = Unread" "m_id w \<notin> m_id ` set ms" for m w
  proof -
    obtain r where r: "r \<in> ?T" "m = returned_columns (deliver_row now r)" using m [OF w(1)] by blast
    have "w \<notin> ?T"
    proof
      assume "w \<in> ?T"
      then have "m_id (returned_columns (deliver_row now w)) \<in> m_id ` set ms" using c(2) by blast
      then show False using w(5) by (simp add: returned_columns_def deliver_row_def)
    qed
    then have "claim_order r \<le> claim_order w" using c(7) [OF r(1)] w by simp
    then show ?thesis by (simp add: r(2) claim_order_def returned_columns_def deliver_row_def)
  qed
  have "m_id m \<noteq> m_id m2" if mm: "m \<in> set ms" "m2 \<in> set ms2" for m m2
  proof
    assume same: "m_id m = m_id m2"
    let ?db = "message_run e ops db'"
    obtain r where r: "r \<in> ?T" "m = returned_columns (deliver_row now r)" using m [OF mm(1)] by blast
    note c2 = claim_spec [OF run_ids [OF c(6)] assms(4)]
    obtain r2 where r2: "r2 \<in> set (msgs ?db)" "m_status r2 = Unread" "m2 = returned_columns (deliver_row now2 r2)"
      using c2(1) [OF mm(2)] c2(5) by auto
    have "list_all (\<lambda>(_, op). \<not> requeues (m_id (deliver_row now r)) op) ops"
      using assms(3) by (rule list.pred_mono_strong) (use mm(1) r(2) in \<open>auto simp: returned_columns_def\<close>)
    with run_descends [OF c(6) c(8) [OF r(1)] r2(1)] same r(2) r2 show False
      by (simp add: returned_columns_def deliver_row_def)
  qed
  with c(3,4) kept older show ?thesis by auto
qed

section \<open>The life of a message, its tenant and the purge of a peer\<close>

text \<open>
  what the sender wrote never changes. Whatever is done to the table, a row that is still there has the sender,
  recipient, text, time, tenant, origin note and envelope it was stored with, a closed row is still closed, and a row
  that was taken from the queue is not back in it unless it was requeued.
\<close>

theorem message_letter_fixed:
  assumes "ids_ok db" and "r \<in> set (msgs db)" and "r' \<in> set (msgs (message_run e ops db))" and "m_id r' = m_id r"
  shows "letter r' = letter r \<and> (closed r \<longrightarrow> closed r')
    \<and> (m_status r \<noteq> Unread \<and> m_status r' = Unread \<longrightarrow> (\<exists>(_, op)\<in>set ops. requeues (m_id r) op))"
  using run_descends [OF assms] by (auto simp: list_all_iff)

lemma delegation_tenant_cases:
  "getDelegationTenant td parsed a now = UNBOUND_SOURCE_TENANT
   \<or> (\<exists>cx. contexts td a = Some cx \<and> cx_status cx = Bound \<and> cx_tenant cx = Some (getDelegationTenant td parsed a now)
        \<and> \<not> context_stale parsed now cx \<and> agentServesTenant td a (getDelegationTenant td parsed a now))"
  by (auto simp: getDelegationTenant_def split: option.splits)

text \<open>
  a message carries the tenant its sender named, or one the sender serves. A tenant nobody named is inherited only
  from a fresh bound context of the sender, only while the sender still serves that enabled tenant, and never for
  a pinned message or a recipient on another system.
\<close>

theorem inherited_tenant_is_served:
  assumes "createAgentMessage uni td parsed now d db = Some (m, db')" and "m_tenant m \<noteq> d_tenant d"
  shows "\<not> d_pin d \<and> CHR ''/'' \<notin> set (d_to d) \<and> d_tenant d = UNBOUND_SOURCE_TENANT
    \<and> (\<exists>cx. contexts td (d_from d) = Some cx \<and> cx_status cx = Bound \<and> cx_tenant cx = Some (m_tenant m) \<and> \<not> context_stale parsed now cx)
    \<and> (\<exists>t\<in>set (tenants td). tn_id t = m_tenant m \<and> tn_disabled t = None
         \<and> (tn_main t = Some (d_from d) \<or> (m_tenant m, d_from d, True) \<in> set (availability td)))"
proof -
  have "m_tenant m = stamped_tenant td parsed now d"
    using assms(1) by (auto simp: createAgentMessage_def Let_def message_of_def blank_message_def split: if_splits)
  then have t: "m_tenant m = getDelegationTenant td parsed (d_from d) now" "\<not> d_pin d" "CHR ''/'' \<notin> set (d_to d)" "d_tenant d = UNBOUND_SOURCE_TENANT"
    using assms(2) by (auto simp: stamped_tenant_def List.member_iff split: if_splits)
  then show ?thesis
    using assms(2) delegation_tenant_cases [of td parsed "d_from d" now]
    by (auto simp: agentServesTenant_def list_ex_iff List.member_iff)
qed

lemma like_rest: "like esc ''%'' s" if "esc \<noteq> Some (CHR ''%'')"
  using that by (induction s) (simp_all add: like_escaped_def)

lemma like_escaped_prefix:
  "like (Some (CHR 0x5C)) (escapeLike p @ ''/%'') s \<longleftrightarrow> take (length p + 1) (map ascii_lower s) = map ascii_lower (p @ ''/'')"
proof (induction p arbitrary: s)
  case Nil
  have "like (Some (CHR 0x5C)) (CHR ''/'' # ''%'') s \<longleftrightarrow> (\<exists>c cs. s = c # cs \<and> ascii_lower c = ascii_lower (CHR ''/''))"
    by (subst like.simps(2)) (cases s; simp add: like_rest like_escaped_def del: like.simps)
  then show ?case by (cases s) (simp_all add: escapeLike_def del: like.simps)
next
  case (Cons c p)
  show ?case
  proof (cases s)
    case Nil
    then show ?thesis by (auto simp: escapeLike_def like_escaped_def)
  next
    case (Cons d t)
    then show ?thesis using Cons.IH [of t] by (auto simp: escapeLike_def like_escaped_def)
  qed
qed

lemma ascii_lower_slash: "ascii_lower c = ascii_lower (CHR ''/'') \<longleftrightarrow> c = CHR ''/''"
proof -
  have "ascii_lower c = CHR ''/'' \<Longrightarrow> c = CHR ''/''"
  proof (cases "65 \<le> code c \<and> code c \<le> 90")
    case True
    assume "ascii_lower c = CHR ''/''"
    then have "code (char_of (code c + 32) :: char) = 47" using True by (simp add: ascii_lower_def code_def)
    then show ?thesis using True by (simp add: code_def)
  qed (simp add: ascii_lower_def)
  moreover have "ascii_lower (CHR ''/'') = CHR ''/''" by (simp add: ascii_lower_def code_def)
  ultimately show ?thesis by auto
qed

lemma like_slash: "like None ''%/%'' s \<longleftrightarrow> CHR ''/'' \<in> set s"
proof (induction s)
  case Nil
  show ?case by (simp add: like_escaped_def)
next
  case (Cons c s)
  have "like None ''%/%'' (c # s) \<longleftrightarrow> like None ''/%'' (c # s) \<or> like None ''%/%'' s"
    by (subst like.simps(2)) (simp add: like_escaped_def del: like.simps)
  moreover have "like None ''/%'' (c # s) \<longleftrightarrow> c = CHR ''/''"
    by (subst like.simps(2)) (simp add: like_escaped_def like_rest ascii_lower_slash del: like.simps)
  ultimately show ?case using Cons by auto
qed

lemma ascii_lower_idem [simp]: "ascii_lower (ascii_lower c) = ascii_lower c"
proof (cases "65 \<le> code c \<and> code c \<le> 90")
  case True
  then have "code (char_of (code c + 32) :: char) = code c + 32" by (simp add: code_def)
  with True show ?thesis by (simp add: ascii_lower_def)
next
  case False
  then have "ascii_lower c = c" by (simp only: ascii_lower_def if_False)
  then show ?thesis by simp
qed

text \<open>
  the removal of a peer closes exactly the peer's waiting messages. They are those whose recipient begins, in
  any case, with the peer's id and a slash, the id taken literally whatever characters it has; and without a peer,
  those addressed to another system at all.
\<close>

theorem peer_purge_exact:
  "fst (failPendingFederatedMessages (Some p) reason now db) =
     map m_id (filter (\<lambda>m. m_status m = Unread
       \<and> take (length p + 1) (map ascii_lower (m_to m)) = map ascii_lower (js_lower p @ ''/'')) (msgs db))
   \<and> fst (failPendingFederatedMessages None reason now db) =
     map m_id (filter (\<lambda>m. m_status m = Unread \<and> CHR ''/'' \<in> set (m_to m)) (msgs db))"
  by (simp add: failPendingFederatedMessages_def federated_for_def like_escaped_prefix like_slash js_lower_def comp_def Let_def del: like.simps)

section \<open>Instances\<close>

definition demo_letter :: "nat \<Rightarrow> int \<Rightarrow> message" where
  "demo_letter i t = blank_message i ''nova'' ''dev'' ''hello'' t UNBOUND_SOURCE_TENANT"

definition demo_messages :: message_db where
  "demo_messages = \<lparr>msgs = [demo_letter 1 7, demo_letter 2 5, demo_letter 3 9], last_id = 3\<rparr>"

definition demo_tenants :: tenant_db where
  "demo_tenants = \<lparr>contexts = (\<lambda>_. Some \<lparr>cx_tenant = Some ''acme'', cx_status = Bound, cx_updated = Some 100\<rparr>),
     tenants = [\<lparr>tn_id = ''acme'', tn_main = None, tn_disabled = None\<rparr>], availability = [(''acme'', ''nova'', True)], reads_fail = False\<rparr>"

definition demo_store_env :: store_env where
  "demo_store_env = \<lparr>se_unicode = plain_unicode, se_tenants = demo_tenants, se_max_age = None, se_main = ''marveen''\<rparr>"

lemma demo_ids: "ids_ok demo_messages"
  by (simp add: ids_ok_def demo_messages_def demo_letter_def blank_message_def)

theorem executor_close_is_final_witness:
  "\<exists>db'. closeOpenMessage 2 CloseDone (Some ''ok'') 20 demo_messages = (True, db')
     \<and> closeOpenMessage 2 CloseRefused None 40 (message_run demo_store_env [(30, OpDeliver 2), (31, OpClaim ''dev'' 10)] db')
       = (False, message_run demo_store_env [(30, OpDeliver 2), (31, OpClaim ''dev'' 10)] db')"
proof -
  define db' where "db' = snd (closeOpenMessage 2 CloseDone (Some ''ok'') 20 demo_messages)"
  have c: "closeOpenMessage 2 CloseDone (Some ''ok'') 20 demo_messages = (True, db')"
    by (simp add: db'_def closeOpenMessage_def update_messages_def changed_def demo_messages_def demo_letter_def blank_message_def
        open_row_def closed_def)
  show ?thesis
    using executor_close_is_final [OF demo_ids c, of "[(30, OpDeliver 2), (31, OpClaim ''dev'' 10)]" demo_store_env CloseRefused None 40] c by auto
qed

theorem claims_fifo_and_once_witness:
  "\<exists>ms db' ms2 db2. claimPendingForAgent ''dev'' 2 20 demo_messages = (ms, db') \<and> length ms = 2
     \<and> claimPendingForAgent ''dev'' 2 30 (message_run demo_store_env [(25, OpRequeue 3 ''dev'' ''default'')] db') = (ms2, db2)
     \<and> m_id ` set ms \<inter> m_id ` set ms2 = {}"
proof -
  have "claimed_ids ''dev'' 2 demo_messages = [2, 1]"
    by (simp add: claimed_ids_def demo_messages_def demo_letter_def blank_message_def claim_order_def)
  then obtain ms db' where c: "claimPendingForAgent ''dev'' 2 20 demo_messages = (ms, db')" "m_id ` set ms = {1, 2}" "length ms = 2"
    by (auto simp: claimPendingForAgent_def Let_def update_messages_def demo_messages_def demo_letter_def blank_message_def
        deliver_row_def returned_columns_def)
  obtain ms2 db2 where c2: "claimPendingForAgent ''dev'' 2 30 (message_run demo_store_env [(25, OpRequeue 3 ''dev'' ''default'')] db') = (ms2, db2)"
    by fastforce
  have "list_all (\<lambda>(_, op). \<forall>m\<in>set ms. \<not> requeues (m_id m) op) [(25::int, OpRequeue 3 ''dev'' ''default'')]"
    using c(2) by force
  from claims_fifo_and_once [OF demo_ids c(1) this c2] c c2 show ?thesis by blast
qed

theorem message_letter_fixed_witness:
  "letter (deliver_row 4 (demo_letter 1 7)) = letter (demo_letter 1 7)"
proof -
  have m: "deliver_row 4 (demo_letter 1 7) \<in> set (msgs (message_run demo_store_env [(4, OpDeliver 1)] demo_messages))"
    by (simp add: markMessageDelivered_def update_messages_def demo_messages_def waiting_def demo_letter_def blank_message_def)
  have "demo_letter 1 7 \<in> set (msgs demo_messages)" by (simp add: demo_messages_def)
  from message_letter_fixed [OF demo_ids this m] show ?thesis by (simp add: deliver_row_def)
qed

theorem inherited_tenant_is_served_witness:
  "\<exists>m db. createAgentMessage plain_unicode demo_tenants None 200
       \<lparr>d_from = ''nova'', d_to = ''dev'', d_content = [], d_origin_note = None, d_trace = None, d_tenant = UNBOUND_SOURCE_TENANT,
        d_envelope = None, d_pin = False\<rparr> no_messages = Some (m, db)
     \<and> m_tenant m = ''acme'' \<and> (\<exists>t\<in>set (tenants demo_tenants). tn_id t = m_tenant m)"
proof -
  let ?d = "\<lparr>d_from = ''nova'', d_to = ''dev'', d_content = [], d_origin_note = None, d_trace = None, d_tenant = UNBOUND_SOURCE_TENANT,
        d_envelope = None, d_pin = False\<rparr>"
  have "decode_passes n [] = []" for n by (cases n) (simp_all add: decodeEntityPass_def Let_def)
  then have "folded_line plain_unicode [] = []"
    by (simp add: folded_line_def decodeEntities_def plain_unicode_def drop_invisible_def)
  moreover have "strip_passes plain_unicode n [] = []" for n by (cases n) (simp_all add: strip_pass_def strip_tag_def)
  ultimately have "marker_skeleton plain_unicode [] = []" by (simp add: marker_skeleton_def stripLeadingWrappers_def)
  then have "assertNoReservedMarker plain_unicode ''nova'' (points_of [])"
    by (simp add: assertNoReservedMarker_def findReservedMarker_def points_of_def)
  then obtain m db where c: "createAgentMessage plain_unicode demo_tenants None 200 ?d no_messages = Some (m, db)" "m_tenant m = ''acme''"
    by (auto simp: createAgentMessage_def Let_def message_of_def blank_message_def stamped_tenant_def getDelegationTenant_def demo_tenants_def
        context_stale_def DEFAULT_CONTEXT_MAX_AGE_SECONDS_def agentServesTenant_def UNBOUND_SOURCE_TENANT_def List.member_iff)
  then have "m_tenant m \<noteq> d_tenant ?d" by (simp add: UNBOUND_SOURCE_TENANT_def)
  from inherited_tenant_is_served [OF c(1) this] c show ?thesis by blast
qed

end
