(* ===== verification/TeamTrust.thy ===== *)
theory TeamTrust
  imports JsBase
begin

text \<open>
  Who counts as a team member (\<open>src/team-trust.ts\<close>) and whom a kanban card wakes (\<open>src/kanban-dispatch.ts\<close>).
  Which agents exist, their team files and the running sessions are arguments.
\<close>

section \<open>Trusted peers\<close>

record team_config =
  reportsTo :: "string option"
  delegatesTo :: "string list"
  trustFrom :: "string list"

record trust_context =
  tc_main :: string
  isKnownAgent :: "string \<Rightarrow> bool"
  readAgentTeam :: "string \<Rightarrow> team_config"

definition isTrustedPeer :: "string \<Rightarrow> string \<Rightarrow> trust_context \<Rightarrow> bool" where
  "isTrustedPeer from_agent to_agent ctx =
     (if from_agent = [] \<or> to_agent = [] then False
      else if from_agent = to_agent then False
      else if \<not> isKnownAgent ctx from_agent \<or> \<not> isKnownAgent ctx to_agent then False
      else if from_agent = tc_main ctx \<or> to_agent = tc_main ctx then True
      else (let f = readAgentTeam ctx from_agent; t = readAgentTeam ctx to_agent in
        if reportsTo f = Some to_agent then True
        else if reportsTo t = Some from_agent then True
        else if List.member (delegatesTo f) to_agent then True
        else if List.member (delegatesTo t) from_agent then True
        else if List.member (trustFrom f) to_agent then True
        else if List.member (trustFrom t) from_agent then True
        else False))"

text \<open>One end names the other in its team file.\<close>

definition names_peer :: "trust_context \<Rightarrow> string \<Rightarrow> string \<Rightarrow> bool" where
  "names_peer ctx a b \<longleftrightarrow> reportsTo (readAgentTeam ctx a) = Some b \<or> b \<in> set (delegatesTo (readAgentTeam ctx a))
     \<or> b \<in> set (trustFrom (readAgentTeam ctx a))"

lemma trusted_peer_iff:
  "isTrustedPeer a b ctx \<longleftrightarrow> a \<noteq> b \<and> a \<noteq> [] \<and> b \<noteq> [] \<and> isKnownAgent ctx a \<and> isKnownAgent ctx b
     \<and> (a = tc_main ctx \<or> b = tc_main ctx \<or> names_peer ctx a b \<or> names_peer ctx b a)"
  by (auto simp: isTrustedPeer_def names_peer_def Let_def List.member_iff)

text \<open>
  trust is symmetric and needs two known agents. It holds exactly between two different known agents of which one
  is the main agent or names the other in its team file; a sender that is no known agent is trusted by nobody, not
  even by the main agent.
\<close>

theorem trust_graph_exact:
  "(isTrustedPeer a b ctx \<longleftrightarrow> a \<noteq> b \<and> a \<noteq> [] \<and> b \<noteq> [] \<and> isKnownAgent ctx a \<and> isKnownAgent ctx b
      \<and> (a = tc_main ctx \<or> b = tc_main ctx \<or> names_peer ctx a b \<or> names_peer ctx b a))
   \<and> (isTrustedPeer a b ctx \<longleftrightarrow> isTrustedPeer b a ctx)"
  unfolding trusted_peer_iff by auto

section \<open>Dispatch of a kanban card\<close>

record dispatch_opts =
  ownerName :: string
  botName :: string
  mainAgentId :: string
  agentNames :: "string list"
  isRunning :: "string \<Rightarrow> bool"
  actor :: "string option"

definition canonicalAgentId :: "string option \<Rightarrow> dispatch_opts \<Rightarrow> string option" where
  "canonicalAgentId r opts =
     (let a = js_trim (case r of None \<Rightarrow> [] | Some x \<Rightarrow> x) in
      if a = [] then None
      else let lower = js_lower a in
        if a = ownerName opts then None
        else if lower = js_lower (botName opts) \<or> lower = js_lower (mainAgentId opts) then Some (mainAgentId opts)
        else find (\<lambda>n. js_lower n = lower) (agentNames opts))"

definition resolveKanbanDispatchTarget :: "string option \<Rightarrow> dispatch_opts \<Rightarrow> string option" where
  "resolveKanbanDispatchTarget assignee opts =
     (case canonicalAgentId assignee opts of
        None \<Rightarrow> None
      | Some target \<Rightarrow>
          if target = [] then None
          else if canonicalAgentId (actor opts) opts = Some target then None
          else if target = mainAgentId opts then Some target
          else if isRunning opts target then Some target else None)"

lemma canonical_SomeD:
  assumes "canonicalAgentId r opts = Some t"
  shows "\<exists>a. r = Some a \<and> js_trim a \<noteq> [] \<and> js_trim a \<noteq> ownerName opts \<and>
    (t = mainAgentId opts \<and> js_lower (js_trim a) \<in> {js_lower (botName opts), js_lower (mainAgentId opts)}
     \<or> t \<in> set (agentNames opts) \<and> js_lower t = js_lower (js_trim a))"
proof (cases r)
  case None
  with assms show ?thesis by (simp add: canonicalAgentId_def js_trim_def)
next
  case (Some a)
  with assms show ?thesis
    by (auto simp: canonicalAgentId_def Let_def split: if_splits dest: find_SomeD)
qed

text \<open>
  a card wakes at most the agent it names, and never its mover or the owner. The agent woken is the main agent or
  a registered agent with a running session, it is the one the assignee text reads as, and it is not the agent
  that moved the card.
\<close>

theorem dispatch_wakes_assignee:
  assumes "resolveKanbanDispatchTarget assignee opts = Some t"
  shows "(t = mainAgentId opts \<or> t \<in> set (agentNames opts) \<and> isRunning opts t)
    \<and> canonicalAgentId assignee opts = Some t \<and> canonicalAgentId (actor opts) opts \<noteq> Some t
    \<and> (\<forall>a. assignee = Some a \<longrightarrow> js_trim a \<noteq> ownerName opts)"
proof -
  from assms have c: "canonicalAgentId assignee opts = Some t" "canonicalAgentId (actor opts) opts \<noteq> Some t"
    "t = mainAgentId opts \<or> isRunning opts t"
    by (auto simp: resolveKanbanDispatchTarget_def split: option.splits if_splits)
  with canonical_SomeD [OF c(1)] show ?thesis by auto
qed

definition demo_dispatch :: dispatch_opts where
  "demo_dispatch = \<lparr>ownerName = ''Anna'', botName = ''Marveen'', mainAgentId = ''marveen'', agentNames = [''dev-a'', ''dev-b''],
     isRunning = (\<lambda>n. n = ''dev-b''), actor = Some ''DEV-A''\<rparr>"

theorem dispatch_wakes_assignee_witness:
  "resolveKanbanDispatchTarget (Some '' Dev-B '') demo_dispatch = Some ''dev-b'' \<and> canonicalAgentId (actor demo_dispatch) demo_dispatch \<noteq> Some ''dev-b''"
proof -
  have r: "resolveKanbanDispatchTarget (Some '' Dev-B '') demo_dispatch = Some ''dev-b''"
    by (simp add: resolveKanbanDispatchTarget_def canonicalAgentId_def demo_dispatch_def js_trim_def is_ws_def js_lower_def lower_char_def
        code_def char_of_def bit_0)
  with dispatch_wakes_assignee [OF r] show ?thesis by simp
qed

end
