(* ===== verification/SenderRouting.thy ===== *)
theory SenderRouting
  imports MessageStore TeamTrust
begin

text \<open>
  Who may address whom: the rule table of \<open>src/web/sender-routing.ts\<close> and its wiring in \<open>src/web/sender-routing-wire.ts\<close>
  (the mode, the tables it is judged on, the class of a sender, the gate in front of a delivery).
\<close>

section \<open>The table\<close>

datatype sender_class = Owner | TenantUser | PartnerSender | FleetSender | FederatedPeer | UnknownClass | SystemClass

record routing_context =
  ownerMainAgentId :: string
  tenantMainAgentId :: "string \<Rightarrow> string option"
  tenantAgentIds :: "string \<Rightarrow> string list"
  trusts :: "string \<Rightarrow> string \<Rightarrow> bool"
  advertisedAgentIds :: "string list"
  excludedAgentIds :: "string list"
  isNonDefaultTenantAgent :: "string \<Rightarrow> bool"

record route_request =
  senderClass :: sender_class
  senderId :: string
  senderTenant :: "string option"
  toAgent :: string

datatype route_refusal =
    UnknownSenderClass | EmptyTarget | TargetNotOwnerMainAgent | TenantUnknown | TenantHasNoMainAgent
  | TargetNotTenantMainAgent | TargetNotInTenant | NotTrustedPeer
  | FederatedTargetIsCoordinator | FederatedTargetInOtherTenant | FederatedTargetNotAdvertised

datatype route_decision = Allow | Refuse route_refusal

definition routeOwner :: "route_request \<Rightarrow> routing_context \<Rightarrow> route_decision" where
  "routeOwner req ctx = (if toAgent req = ownerMainAgentId ctx then Allow else Refuse TargetNotOwnerMainAgent)"

text \<open>An absent tenant and an empty one read the same.\<close>

definition named :: "string option \<Rightarrow> string option" where
  "named t = (case t of Some (c # s) \<Rightarrow> Some (c # s) | _ \<Rightarrow> None)"

definition routeTenantUser :: "route_request \<Rightarrow> routing_context \<Rightarrow> route_decision" where
  "routeTenantUser req ctx =
     (case named (senderTenant req) of
        None \<Rightarrow> Refuse TenantUnknown
      | Some t \<Rightarrow>
          (case named (tenantMainAgentId ctx t) of
             None \<Rightarrow> Refuse TenantHasNoMainAgent
           | Some main \<Rightarrow> if toAgent req = main then Allow else Refuse TargetNotTenantMainAgent))"

definition routePartner :: "route_request \<Rightarrow> routing_context \<Rightarrow> route_decision" where
  "routePartner req ctx =
     (case named (senderTenant req) of
        None \<Rightarrow> Refuse TenantUnknown
      | Some t \<Rightarrow>
          if named (tenantMainAgentId ctx t) = Some (toAgent req) then Allow
          else if List.member (tenantAgentIds ctx t) (toAgent req) then Allow else Refuse TargetNotInTenant)"

definition routeFleetAgent :: "route_request \<Rightarrow> routing_context \<Rightarrow> route_decision" where
  "routeFleetAgent req ctx = (if trusts ctx (senderId req) (toAgent req) then Allow else Refuse NotTrustedPeer)"

definition routeFederated :: "route_request \<Rightarrow> routing_context \<Rightarrow> route_decision" where
  "routeFederated req ctx =
     (if List.member (excludedAgentIds ctx) (toAgent req) then Refuse FederatedTargetIsCoordinator
      else if isNonDefaultTenantAgent ctx (toAgent req) then Refuse FederatedTargetInOtherTenant
      else if toAgent req = ownerMainAgentId ctx \<or> List.member (advertisedAgentIds ctx) (toAgent req) then Allow
      else Refuse FederatedTargetNotAdvertised)"

definition isRouteAllowed :: "route_request \<Rightarrow> routing_context \<Rightarrow> route_decision" where
  "isRouteAllowed req ctx =
     (if toAgent req = [] then Refuse EmptyTarget
      else (case senderClass req of
              Owner \<Rightarrow> routeOwner req ctx
            | TenantUser \<Rightarrow> routeTenantUser req ctx
            | PartnerSender \<Rightarrow> routePartner req ctx
            | FleetSender \<Rightarrow> routeFleetAgent req ctx
            | FederatedPeer \<Rightarrow> routeFederated req ctx
            | UnknownClass \<Rightarrow> Refuse UnknownSenderClass
            | SystemClass \<Rightarrow> Refuse UnknownSenderClass))"

section \<open>The wiring\<close>

datatype routing_mode = RouteAudit | RouteEnforce

text \<open>The setting, \<open>None\<close> when it cannot be read.\<close>

definition getSenderRoutingMode :: "string option \<Rightarrow> routing_mode" where
  "getSenderRoutingMode raw = (case raw of Some s \<Rightarrow> if js_lower (js_trim s) = ''enforce'' then RouteEnforce else RouteAudit | None \<Rightarrow> RouteAudit)"

definition BUILTIN_SYSTEM_FROM :: "string list" where
  "BUILTIN_SYSTEM_FROM = [''scheduler'', ''system'']"

definition parseSystemSenderIds :: "string option \<Rightarrow> string list" where
  "parseSystemSenderIds raw =
     filter (\<lambda>s. s \<noteq> []) (map (\<lambda>s. sanitizeAgentIdent (js_trim s)) (split_on (CHR '','') (case raw of Some r \<Rightarrow> r | None \<Rightarrow> [])))"

definition MANIFEST_EXCLUDED_AGENTS :: "string list" where
  "MANIFEST_EXCLUDED_AGENTS = [''heartbeat'', COORDINATOR_AGENT_ID, ''channel-coordinator'']"

definition catalogAgentNames :: "string list \<Rightarrow> string list" where
  "catalogAgentNames names = filter (\<lambda>n. \<not> List.member MANIFEST_EXCLUDED_AGENTS n) names"

text \<open>
  What the process knows: its configuration, its agent directories with their team files and the tenant tables; and the
  messages whose closing statement the database does not carry out.
\<close>

record routing_env =
  re_owner :: string
  re_system_ids :: "string option"
  re_trust :: trust_context
  re_agents :: "string list"
  re_tables :: "tenant_db option"
  re_mode :: "string option"
  re_close_fails :: "nat \<Rightarrow> bool"

definition isPlatformSender :: "routing_env \<Rightarrow> string \<Rightarrow> bool" where
  "isPlatformSender e safeFrom \<longleftrightarrow> List.member BUILTIN_SYSTEM_FROM safeFrom
     \<or> List.member (parseSystemSenderIds (re_system_ids e)) safeFrom \<or> isChannelCoordinatorSender safeFrom"

definition main_of :: "tenant_row list \<Rightarrow> string \<Rightarrow> string option" where
  "main_of ts tenant = fold (\<lambda>t acc. if tn_id t = tenant then (case named (tn_main t) of Some m \<Rightarrow> Some m | None \<Rightarrow> acc) else acc) ts None"

definition enabled_for :: "(string \<times> string \<times> bool) list \<Rightarrow> string \<Rightarrow> string list" where
  "enabled_for rows tenant = map (fst \<circ> snd) (filter (\<lambda>(t, a, on). on \<and> t = tenant) rows)"

definition other_tenant_agent :: "tenant_row list \<Rightarrow> (string \<times> string \<times> bool) list \<Rightarrow> string \<Rightarrow> bool" where
  "other_tenant_agent ts rows a \<longleftrightarrow>
     list_ex (\<lambda>t. tn_id t \<noteq> UNBOUND_SOURCE_TENANT \<and> main_of ts (tn_id t) = Some a) ts
     \<or> list_ex (\<lambda>(t, b, on). on \<and> b = a \<and> t \<noteq> UNBOUND_SOURCE_TENANT) rows \<and> \<not> List.member (enabled_for rows UNBOUND_SOURCE_TENANT) a"

text \<open>\<open>None\<close> when the tables cannot be read. The statement reads the enabled tenants only.\<close>

definition buildRoutingContext :: "routing_env \<Rightarrow> routing_context option" where
  "buildRoutingContext e =
     (case re_tables e of
        None \<Rightarrow> None
      | Some td \<Rightarrow>
          (let ts = filter (\<lambda>t. tn_disabled t = None) (tenants td); rows = availability td in
           Some \<lparr>ownerMainAgentId = (case main_of ts UNBOUND_SOURCE_TENANT of Some m \<Rightarrow> m | None \<Rightarrow> tc_main (re_trust e)),
             tenantMainAgentId = main_of ts, tenantAgentIds = enabled_for rows,
             trusts = (\<lambda>a b. isTrustedPeer a b (re_trust e)),
             advertisedAgentIds = catalogAgentNames (re_agents e), excludedAgentIds = MANIFEST_EXCLUDED_AGENTS,
             isNonDefaultTenantAgent = other_tenant_agent ts rows\<rparr>))"

record sender_identity =
  si_system_lane :: bool
  si_class :: sender_class
  si_id :: string
  si_tenant :: "string option"

definition identity :: "bool \<Rightarrow> sender_class \<Rightarrow> string \<Rightarrow> string option \<Rightarrow> sender_identity" where
  "identity system_lane cls i t = \<lparr>si_system_lane = system_lane, si_class = cls, si_id = i, si_tenant = t\<rparr>"

record sender_facts =
  sf_role :: "string option"
  sf_tenant :: "string option"
  sf_token_agent :: "string option"
  sf_bound_agent :: "string option"
  sf_from :: string
  sf_partner :: bool

definition classifyRouteSender :: "routing_env \<Rightarrow> sender_facts \<Rightarrow> sender_identity" where
  "classifyRouteSender e f =
     (let partnerTenant = sf_tenant f \<noteq> None \<and> sf_tenant f \<noteq> Some UNBOUND_SOURCE_TENANT;
          unknown = identity False UnknownClass (sf_from f) (if partnerTenant then sf_tenant f else None)
      in if sf_partner f \<and> partnerTenant then identity False PartnerSender (sf_from f) (sf_tenant f)
         else if sf_role f = Some ''fleet_agent''
         then (let own = sanitizeAgentIdent (case sf_token_agent f of Some a \<Rightarrow> a | None \<Rightarrow> []) in
               if own \<noteq> [] then identity False FleetSender own None else identity False UnknownClass (sf_from f) None)
         else if sf_role f = Some ''admin''
         then (if isPlatformSender e (sf_from f) then identity True SystemClass (sf_from f) None
               else if sf_from f = sanitizeAgentIdent (re_owner e) then identity False Owner (sf_from f) None
               else case named (sf_bound_agent f) of
                   Some a \<Rightarrow> if sf_from f = sanitizeAgentIdent a then identity False FleetSender (sf_from f) None else unknown
                 | None \<Rightarrow> unknown)
         else unknown)"

definition classifyDeliverySender :: "routing_env \<Rightarrow> message \<Rightarrow> sender_identity" where
  "classifyDeliverySender e m =
     (if List.member (m_from m) (CHR ''/'') then identity False FederatedPeer (m_from m) None
      else let safeFrom = sanitizeAgentIdent (m_from m);
               rowTenant = (if m_tenant m \<noteq> [] \<and> m_tenant m \<noteq> UNBOUND_SOURCE_TENANT then Some (m_tenant m) else None)
           in if safeFrom = [] then identity False UnknownClass [] None
              else if isPlatformSender e safeFrom then identity True SystemClass safeFrom None
              else if safeFrom = sanitizeAgentIdent (re_owner e) then identity False Owner safeFrom None
              else if isKnownAgent (re_trust e) safeFrom then identity False FleetSender safeFrom rowTenant
              else if rowTenant \<noteq> None then identity False PartnerSender safeFrom rowTenant
              else identity False UnknownClass safeFrom None)"

definition judgeRoute :: "sender_identity \<Rightarrow> string \<Rightarrow> routing_context \<Rightarrow> route_decision" where
  "judgeRoute i to_agent ctx =
     (if si_system_lane i then Allow
      else isRouteAllowed \<lparr>senderClass = si_class i, senderId = si_id i, senderTenant = si_tenant i, toAgent = sanitizeAgentIdent to_agent\<rparr> ctx)"

definition denied :: "routing_mode \<Rightarrow> route_decision \<Rightarrow> bool" where
  "denied mode d \<longleftrightarrow> mode = RouteEnforce \<and> d \<noteq> Allow"

section \<open>The gate in front of a delivery\<close>

text \<open>The reasons as the refused row keeps them.\<close>

fun refusal_code :: "route_refusal \<Rightarrow> string" where
  "refusal_code UnknownSenderClass = ''unknown_sender_class''"
| "refusal_code EmptyTarget = ''empty_target''"
| "refusal_code TargetNotOwnerMainAgent = ''target_not_owner_main_agent''"
| "refusal_code TenantUnknown = ''tenant_unknown''"
| "refusal_code TenantHasNoMainAgent = ''tenant_has_no_main_agent''"
| "refusal_code TargetNotTenantMainAgent = ''target_not_tenant_main_agent''"
| "refusal_code TargetNotInTenant = ''target_not_in_tenant''"
| "refusal_code NotTrustedPeer = ''not_trusted_peer''"
| "refusal_code FederatedTargetIsCoordinator = ''federated_target_is_coordinator''"
| "refusal_code FederatedTargetInOtherTenant = ''federated_target_in_other_tenant''"
| "refusal_code FederatedTargetNotAdvertised = ''federated_target_not_advertised''"

fun decision_reason :: "route_decision \<Rightarrow> string" where
  "decision_reason Allow = ''denied''"
| "decision_reason (Refuse r) = refusal_code r"

definition refusal_note :: "route_decision \<Rightarrow> string" where
  "refusal_note d = ''sender_route_'' @ decision_reason d"

definition AUDITED_AT_DELIVERY_CAP :: nat where
  "AUDITED_AT_DELIVERY_CAP = 5000"

text \<open>The table, the messages already audited and the audit rows written.\<close>

record gate_state =
  gs_db :: message_db
  gs_audited :: "(nat \<times> routing_mode) list"
  gs_log :: "(nat \<times> routing_mode \<times> route_decision) list"

definition audit_once :: "nat \<Rightarrow> routing_mode \<Rightarrow> sender_identity \<Rightarrow> route_decision \<Rightarrow> gate_state \<Rightarrow> gate_state" where
  "audit_once i mode si d st =
     (let worthy = d \<noteq> Allow \<or> si_system_lane si \<or> si_class si = FederatedPeer in
      if worthy \<and> \<not> List.member (gs_audited st) (i, mode)
      then st\<lparr>gs_audited := (if length (gs_audited st) \<ge> AUDITED_AT_DELIVERY_CAP then [(i, mode)] else gs_audited st @ [(i, mode)]),
              gs_log := gs_log st @ [(i, mode, d)]\<rparr>
      else st)"

definition delivery_verdict :: "routing_env \<Rightarrow> routing_context \<Rightarrow> message \<Rightarrow> route_decision" where
  "delivery_verdict e ctx m = judgeRoute (classifyDeliverySender e m) (m_to m) ctx"

fun judgeDeliveryBatch :: "routing_env \<Rightarrow> routing_mode \<Rightarrow> routing_context \<Rightarrow> int \<Rightarrow> message list \<Rightarrow> gate_state \<Rightarrow> message list \<times> gate_state" where
  "judgeDeliveryBatch e mode ctx now [] st = ([], st)"
| "judgeDeliveryBatch e mode ctx now (m # ms) st =
     (let d = delivery_verdict e ctx m;
          st1 = audit_once (m_id m) mode (classifyDeliverySender e m) d st
      in if denied mode d
         then judgeDeliveryBatch e mode ctx now ms
           (if re_close_fails e (m_id m) then st1
            else st1\<lparr>gs_db := snd (closeOpenMessage (m_id m) CloseRefused (Some (refusal_note d)) now (gs_db st1))\<rparr>)
         else (let (kept, st2) = judgeDeliveryBatch e mode ctx now ms st1 in (m # kept, st2)))"

datatype delivery_gate = ClosedGate | PassThrough | OpenGate routing_mode routing_context

definition openDeliveryGate :: "routing_env \<Rightarrow> delivery_gate" where
  "openDeliveryGate e =
     (let mode = getSenderRoutingMode (re_mode e) in
      case buildRoutingContext e of
        None \<Rightarrow> if mode = RouteEnforce then ClosedGate else PassThrough
      | Some ctx \<Rightarrow> OpenGate mode ctx)"

fun gate_judge :: "routing_env \<Rightarrow> delivery_gate \<Rightarrow> int \<Rightarrow> message list \<Rightarrow> gate_state \<Rightarrow> message list \<times> gate_state" where
  "gate_judge e ClosedGate now batch st = ([], st)"
| "gate_judge e PassThrough now batch st = (batch, st)"
| "gate_judge e (OpenGate mode ctx) now batch st = judgeDeliveryBatch e mode ctx now batch st"

definition gateDeliveryBatch :: "routing_env \<Rightarrow> int \<Rightarrow> message list \<Rightarrow> gate_state \<Rightarrow> message list \<times> gate_state" where
  "gateDeliveryBatch e now batch st = (if batch = [] then ([], st) else gate_judge e (openDeliveryGate e) now batch st)"

section \<open>Properties\<close>

lemma named_simps [simp]: "named None = None" "named (Some t) = (if t = [] then None else Some t)"
  by (simp_all add: named_def split: list.split)

lemma named_Some: "named t = Some x \<longleftrightarrow> t = Some x \<and> x \<noteq> []"
  by (auto simp: named_def split: option.split list.split)

text \<open>
  the rule is default-deny. A message is allowed exactly from the owner to the owner's main agent, from a tenant's
  user to that tenant's main agent, from a partner to the main agent or an enabled agent of its tenant, from an
  agent to a trusted peer, or from a federated peer to the owner's main agent or an advertised one that is neither
  a coordinator nor another tenant's; no other class of sender reaches anybody.
\<close>

theorem route_default_deny:
  "isRouteAllowed req ctx = Allow \<longleftrightarrow> toAgent req \<noteq> [] \<and>
     (senderClass req = Owner \<and> toAgent req = ownerMainAgentId ctx
      \<or> (\<exists>t. senderTenant req = Some t \<and> t \<noteq> [] \<and>
           (senderClass req \<in> {TenantUser, PartnerSender} \<and> tenantMainAgentId ctx t = Some (toAgent req)
            \<or> senderClass req = PartnerSender \<and> toAgent req \<in> set (tenantAgentIds ctx t)))
      \<or> senderClass req = FleetSender \<and> trusts ctx (senderId req) (toAgent req)
      \<or> senderClass req = FederatedPeer \<and> toAgent req \<notin> set (excludedAgentIds ctx) \<and> \<not> isNonDefaultTenantAgent ctx (toAgent req)
         \<and> toAgent req \<in> {ownerMainAgentId ctx} \<union> set (advertisedAgentIds ctx))"
  by (cases "senderClass req"; cases "senderTenant req")
    (auto simp: isRouteAllowed_def routeOwner_def routeTenantUser_def routePartner_def routeFleetAgent_def routeFederated_def
      List.member_iff named_Some split: option.split)

text \<open>The tables as the context reads them.\<close>

lemma main_of_fold:
  "fold (\<lambda>t acc. if tn_id t = k then (case named (tn_main t) of Some m \<Rightarrow> Some m | None \<Rightarrow> acc) else acc) ts acc0 = Some m
   \<Longrightarrow> acc0 = Some m \<or> (\<exists>t\<in>set ts. tn_id t = k \<and> tn_main t = Some m \<and> m \<noteq> [])"
  by (induction ts arbitrary: acc0) (auto split: option.splits if_splits simp: named_Some, blast?)

lemma main_of_SomeD: "main_of ts k = Some m \<Longrightarrow> \<exists>t\<in>set ts. tn_id t = k \<and> tn_main t = Some m \<and> m \<noteq> []"
  using main_of_fold [of k ts None m] by (simp add: main_of_def)

text \<open>
  C23: a federated peer reaches no other tenant. With the tables readable, the rule lets a federated sender through only to
  the default tenant's main agent or a local agent; never to a coordinator, never to the main agent of another
  enabled tenant, and to an agent enabled for another tenant only if it is enabled for the default one too.
\<close>

theorem federated_reach:
  assumes "buildRoutingContext e = Some ctx" and "re_tables e = Some td" and "si_class si = FederatedPeer" and "\<not> si_system_lane si"
    and "judgeRoute si a ctx = Allow"
  shows "sanitizeAgentIdent a \<notin> set MANIFEST_EXCLUDED_AGENTS
    \<and> (sanitizeAgentIdent a \<in> set (re_agents e) \<or> sanitizeAgentIdent a = ownerMainAgentId ctx)
    \<and> (\<forall>k. k \<noteq> UNBOUND_SOURCE_TENANT \<longrightarrow> tenantMainAgentId ctx k \<noteq> Some (sanitizeAgentIdent a)
         \<and> ((k, sanitizeAgentIdent a, True) \<in> set (availability td) \<longrightarrow> (UNBOUND_SOURCE_TENANT, sanitizeAgentIdent a, True) \<in> set (availability td)))"
proof -
  let ?a = "sanitizeAgentIdent a" and ?ts = "filter (\<lambda>t. tn_disabled t = None) (tenants td)"
  have ctx: "excludedAgentIds ctx = MANIFEST_EXCLUDED_AGENTS" "advertisedAgentIds ctx = catalogAgentNames (re_agents e)"
    "tenantMainAgentId ctx = main_of ?ts" "isNonDefaultTenantAgent ctx = other_tenant_agent ?ts (availability td)"
    using assms(1,2) by (auto simp: buildRoutingContext_def Let_def)
  have j: "?a \<notin> set (excludedAgentIds ctx)" "\<not> isNonDefaultTenantAgent ctx ?a" "?a \<in> {ownerMainAgentId ctx} \<union> set (advertisedAgentIds ctx)"
    using assms(3-5) by (auto simp: judgeRoute_def isRouteAllowed_def routeFederated_def List.member_iff split: if_splits)
  have "main_of ?ts k \<noteq> Some ?a" if "k \<noteq> UNBOUND_SOURCE_TENANT" for k
  proof
    assume m: "main_of ?ts k = Some ?a"
    then obtain t where "t \<in> set ?ts" "tn_id t = k" using main_of_SomeD by blast
    with m that have "other_tenant_agent ?ts (availability td) ?a" by (auto simp: other_tenant_agent_def list_ex_iff)
    with j(2) show False by (simp add: ctx)
  qed
  moreover have "(UNBOUND_SOURCE_TENANT, ?a, True) \<in> set (availability td)"
    if "k \<noteq> UNBOUND_SOURCE_TENANT" "(k, ?a, True) \<in> set (availability td)" for k
  proof -
    have "?a \<in> set (enabled_for (availability td) UNBOUND_SOURCE_TENANT)"
      using j(2) that unfolding ctx other_tenant_agent_def list_ex_iff List.member_iff by fastforce
    then show ?thesis by (auto simp: enabled_for_def)
  qed
  ultimately show ?thesis using j(1,3) by (auto simp: ctx catalogAgentNames_def)
qed

text \<open>The gate keeps the messages that are not denied and closes the others it can close, oldest first.\<close>

abbreviation shuts :: "routing_env \<Rightarrow> routing_mode \<Rightarrow> routing_context \<Rightarrow> message \<Rightarrow> bool" where
  "shuts e mode ctx m \<equiv> denied mode (delivery_verdict e ctx m) \<and> \<not> re_close_fails e (m_id m)"

definition refusals :: "routing_env \<Rightarrow> routing_mode \<Rightarrow> routing_context \<Rightarrow> int \<Rightarrow> message list \<Rightarrow> (int \<times> message_op) list" where
  "refusals e mode ctx now ms =
     map (\<lambda>m. (now, OpClose (m_id m) CloseRefused (Some (refusal_note (delivery_verdict e ctx m)))))
       (filter (shuts e mode ctx) ms)"

lemma audit_once_db [simp]: "gs_db (audit_once i mode si d st) = gs_db st"
  by (simp add: audit_once_def Let_def)

lemma gate_spec:
  "judgeDeliveryBatch e mode ctx now ms st = (kept, st') \<Longrightarrow>
     kept = filter (\<lambda>m. \<not> denied mode (delivery_verdict e ctx m)) ms
     \<and> gs_db st' = message_run se (refusals e mode ctx now ms) (gs_db st)"
proof (induction ms arbitrary: st kept)
  case (Cons m ms)
  then show ?case
    by (cases "denied mode (delivery_verdict e ctx m)"; cases "re_close_fails e (m_id m)") (auto simp: Let_def refusals_def split: prod.splits)
qed (simp add: refusals_def)

lemma one_refusal:
  "msgs (snd (closeOpenMessage i st res now db)) = sql_update (open_row i) (close_row st now res) (msgs db)"
  by (simp add: closeOpenMessage_def update_messages_def)

lemma refusals_rows:
  assumes "r' \<in> set (msgs (message_run se (refusals e mode ctx now ms) db))"
  shows "\<exists>r\<in>set (msgs db). m_id r' = m_id r \<and> (closed r \<longrightarrow> r' = r)
    \<and> (\<forall>m\<in>set ms. shuts e mode ctx m \<and> m_id m = m_id r \<longrightarrow> closed r')"
  using assms
proof (induction ms arbitrary: db)
  case (Cons m ms)
  show ?case
  proof (cases "shuts e mode ctx m")
    case True
    let ?db = "message_do se now (OpClose (m_id m) CloseRefused (Some (refusal_note (delivery_verdict e ctx m)))) db"
    from Cons.prems True have "r' \<in> set (msgs (message_run se (refusals e mode ctx now ms) ?db))" by (simp add: refusals_def)
    from Cons.IH [OF this] obtain s where s: "s \<in> set (msgs ?db)" "m_id r' = m_id s" "closed s \<longrightarrow> r' = s"
      "\<forall>k\<in>set ms. shuts e mode ctx k \<and> m_id k = m_id s \<longrightarrow> closed r'" by blast
    from s(1) obtain r where r: "r \<in> set (msgs db)" "s = (if open_row (m_id m) r
        then close_row CloseRefused now (Some (refusal_note (delivery_verdict e ctx m))) r else r)"
      by (auto simp: one_refusal set_sql_update simp del: close_row.simps)
    have "m_id s = m_id r" "closed r \<longrightarrow> s = r" "m_id m = m_id r \<longrightarrow> closed s"
      using r(2) by (auto simp: open_row_def simp del: close_row.simps)
    with s r(1) show ?thesis by (intro bexI [where x = r]) auto
  next
    case False
    with Cons.prems have "r' \<in> set (msgs (message_run se (refusals e mode ctx now ms) db))" by (simp add: refusals_def)
    from Cons.IH [OF this] False show ?thesis by auto
  qed
qed (auto simp: refusals_def)

lemma refusals_keep:
  "r \<in> set (msgs db) \<Longrightarrow> closed r \<or> (\<forall>m\<in>set ms. shuts e mode ctx m \<longrightarrow> m_id m \<noteq> m_id r)
   \<Longrightarrow> r \<in> set (msgs (message_run se (refusals e mode ctx now ms) db))"
proof (induction ms arbitrary: db)
  case (Cons m ms)
  show ?case
  proof (cases "shuts e mode ctx m")
    case True
    with Cons.prems(2) have "\<not> open_row (m_id m) r" by (auto simp: open_row_def)
    with Cons.prems(1) have "r \<in> set (msgs (snd (closeOpenMessage (m_id m) CloseRefused x now db)))" for x
      by (auto simp: one_refusal set_sql_update simp del: close_row.simps intro!: bexI [where x = r])
    moreover have "closed r \<or> (\<forall>m\<in>set ms. shuts e mode ctx m \<longrightarrow> m_id m \<noteq> m_id r)" using Cons.prems(2) by auto
    ultimately show ?thesis using Cons.IH True by (simp add: refusals_def)
  next
    case False
    then have "refusals e mode ctx now (m # ms) = refusals e mode ctx now ms" by (auto simp: refusals_def)
    with Cons.IH [of db] Cons.prems show ?thesis by auto
  qed
qed (simp add: refusals_def)

lemma refusals_close:
  assumes "r \<in> set (msgs db)" "\<not> closed r" "m \<in> set ms" "shuts e mode ctx m" "m_id m = m_id r"
  shows "\<exists>m\<in>set ms. shuts e mode ctx m \<and> m_id m = m_id r
    \<and> close_row CloseRefused now (Some (refusal_note (delivery_verdict e ctx m))) r \<in> set (msgs (message_run se (refusals e mode ctx now ms) db))"
  using assms
proof (induction ms arbitrary: db)
  case (Cons k ms)
  let ?reason = "Some (refusal_note (delivery_verdict e ctx k))"
  let ?db = "message_do se now (OpClose (m_id k) CloseRefused ?reason) db"
  have rest: "refusals e mode ctx now (k # ms) = (if shuts e mode ctx k then (now, OpClose (m_id k) CloseRefused ?reason) # refusals e mode ctx now ms
      else refusals e mode ctx now ms)" by (simp add: refusals_def)
  show ?case
  proof (cases "shuts e mode ctx k \<and> m_id k = m_id r")
    case True
    let ?r = "close_row CloseRefused now ?reason r"
    have "open_row (m_id k) r" using True Cons.prems(2) by (simp add: open_row_def)
    then have "?r \<in> set (msgs ?db)" using Cons.prems(1) by (force simp: one_refusal set_sql_update simp del: close_row.simps)
    moreover have "closed ?r" by (rule close_row_closed)
    ultimately have "?r \<in> set (msgs (message_run se (refusals e mode ctx now ms) ?db))" using refusals_keep by blast
    moreover have "message_run se (refusals e mode ctx now (k # ms)) db = message_run se (refusals e mode ctx now ms) ?db"
      unfolding rest if_P [OF True [THEN conjunct1]] message_run.simps ..
    ultimately have res: "?r \<in> set (msgs (message_run se (refusals e mode ctx now (k # ms)) db))" by (simp only:)
    show ?thesis by (rule bexI [of _ k]) (use True res in blast, simp)
  next
    case False
    then have m: "m \<in> set ms" using Cons.prems(3-5) by auto
    have "r \<in> set (msgs ?db)" if "shuts e mode ctx k"
      using Cons.prems(1) False that by (auto simp: one_refusal set_sql_update open_row_def simp del: close_row.simps intro!: bexI [where x = r])
    then show ?thesis using Cons.IH [OF _ Cons.prems(2) m Cons.prems(4,5)] Cons.prems(1) by (auto simp: rest simp del: close_row.simps)
  qed
qed simp

lemma refusals_ids: "map m_id (msgs (message_run se (refusals e mode ctx now ms) db)) = map m_id (msgs db)"
  by (induction ms arbitrary: db) (auto simp: refusals_def one_refusal sql_update_def comp_def refuse_row_def)

text \<open>
  C14: nothing is delivered past the enforced rule. With the rule enforced, the gate hands on exactly the messages the table
  allows, in their order; an open row of a message it withholds is closed as refused, with the reason of its verdict, unless
  the database fails at that statement (it is withheld all the same); a row already closed and every other row stay
  as they are. In audit mode, the default, it hands on everything. If the tables cannot be read, an enforcing gate hands on
  nothing, an auditing one everything, and neither changes anything.
\<close>

theorem delivery_gate_exact:
  assumes "gateDeliveryBatch e now batch st = (kept, st')"
  shows "case buildRoutingContext e of
      None \<Rightarrow> kept = (if getSenderRoutingMode (re_mode e) = RouteEnforce then [] else batch) \<and> st' = st
    | Some ctx \<Rightarrow>
        kept = filter (\<lambda>m. getSenderRoutingMode (re_mode e) = RouteAudit \<or> delivery_verdict e ctx m = Allow) batch
        \<and> (\<forall>r\<in>set (msgs (gs_db st)).
            if \<not> closed r \<and> (\<exists>m\<in>set batch. m \<notin> set kept \<and> m_id m = m_id r) \<and> \<not> re_close_fails e (m_id r)
            then \<exists>m\<in>set batch. m \<notin> set kept \<and> m_id m = m_id r
              \<and> close_row CloseRefused now (Some (refusal_note (delivery_verdict e ctx m))) r \<in> set (msgs (gs_db st'))
            else r \<in> set (msgs (gs_db st')))
        \<and> map m_id (msgs (gs_db st')) = map m_id (msgs (gs_db st))"
proof (cases "buildRoutingContext e")
  case None
  with assms show ?thesis
    by (cases "batch = []") (auto simp: gateDeliveryBatch_def openDeliveryGate_def Let_def split: if_splits)
next
  case (Some ctx)
  let ?mode = "getSenderRoutingMode (re_mode e)"
  have j: "judgeDeliveryBatch e ?mode ctx now batch st = (kept, st')"
    using assms Some by (cases "batch = []") (simp_all add: gateDeliveryBatch_def openDeliveryGate_def Let_def)
  note g = gate_spec [OF j, of demo_store_env]
  have d: "\<not> denied ?mode v \<longleftrightarrow> ?mode = RouteAudit \<or> v = Allow" for v
    by (cases ?mode) (auto simp: denied_def)
  have kept: "kept = filter (\<lambda>m. ?mode = RouteAudit \<or> delivery_verdict e ctx m = Allow) batch" using g by (simp only: d)
  have den: "denied ?mode (delivery_verdict e ctx m) \<longleftrightarrow> m \<notin> set kept" if "m \<in> set batch" for m
    using that g by auto
  have shut: "\<exists>m\<in>set batch. m \<notin> set kept \<and> m_id m = m_id r
      \<and> close_row CloseRefused now (Some (refusal_note (delivery_verdict e ctx m))) r \<in> set (msgs (gs_db st'))"
    if r: "r \<in> set (msgs (gs_db st))" "\<not> closed r" and m: "m \<in> set batch" "m \<notin> set kept" "m_id m = m_id r" and f: "\<not> re_close_fails e (m_id r)" for r m
  proof -
    have "shuts e ?mode ctx m" using den [OF m(1)] m f by simp
    from refusals_close [OF r m(1) this m(3), of now demo_store_env] g den show ?thesis by fastforce
  qed
  have stay: "r \<in> set (msgs (gs_db st'))"
    if r: "r \<in> set (msgs (gs_db st))" and o: "closed r \<or> (\<forall>m\<in>set batch. m \<notin> set kept \<longrightarrow> m_id m \<noteq> m_id r) \<or> re_close_fails e (m_id r)" for r
  proof -
    have "closed r \<or> (\<forall>m\<in>set batch. shuts e ?mode ctx m \<longrightarrow> m_id m \<noteq> m_id r)" using o den by metis
    from refusals_keep [OF r this] g show ?thesis by simp
  qed
  have ids: "map m_id (msgs (gs_db st')) = map m_id (msgs (gs_db st))" using g refusals_ids by simp
  show ?thesis unfolding Some option.case using kept shut stay ids by auto
qed

definition demo_trust :: trust_context where
  "demo_trust = \<lparr>tc_main = ''marveen'', isKnownAgent = (\<lambda>n. n \<in> {''marveen'', ''nova'', ''dev''}),
     readAgentTeam = (\<lambda>_. \<lparr>reportsTo = None, delegatesTo = [], trustFrom = []\<rparr>)\<rparr>"

definition demo_routing :: routing_env where
  "demo_routing = \<lparr>re_owner = ''Anna'', re_system_ids = None, re_trust = demo_trust, re_agents = [''nova'', ''dev'', ''heartbeat''],
     re_tables = Some demo_tenants, re_mode = Some '' Enforce'', re_close_fails = (\<lambda>_. False)\<rparr>"

lemma demo_enforces: "getSenderRoutingMode (re_mode demo_routing) = RouteEnforce"
  by (simp add: getSenderRoutingMode_def demo_routing_def js_trim_def js_lower_def is_ws_def lower_char_def code_def char_of_def bit_0)

definition demo_context :: routing_context where
  "demo_context = the (buildRoutingContext demo_routing)"

lemma demo_context_built: "buildRoutingContext demo_routing = Some demo_context"
  by (simp add: demo_context_def buildRoutingContext_def demo_routing_def Let_def)

theorem delivery_gate_exact_witness:
  "fst (gateDeliveryBatch demo_routing 9 [demo_letter 1 7] \<lparr>gs_db = demo_messages, gs_audited = [], gs_log = []\<rparr>)
     = filter (\<lambda>m. delivery_verdict demo_routing demo_context m = Allow) [demo_letter 1 7]
   \<and> delivery_verdict demo_routing demo_context (demo_letter 1 7) = Refuse NotTrustedPeer"
proof -
  obtain kept st' where g: "gateDeliveryBatch demo_routing 9 [demo_letter 1 7] \<lparr>gs_db = demo_messages, gs_audited = [], gs_log = []\<rparr> = (kept, st')"
    by fastforce
  have "delivery_verdict demo_routing demo_context (demo_letter 1 7) = Refuse NotTrustedPeer"
    by (simp add: delivery_verdict_def judgeRoute_def classifyDeliverySender_def demo_letter_def blank_message_def sanitizeAgentIdent_def
        ident_char_def is_word_def is_digit_def code_def isPlatformSender_def BUILTIN_SYSTEM_FROM_def parseSystemSenderIds_def
        isChannelCoordinatorSender_def CHANNEL_COORDINATOR_AGENTS_def COORDINATOR_AGENT_ID_def demo_routing_def demo_trust_def identity_def
        isRouteAllowed_def routeFleetAgent_def demo_context_def buildRoutingContext_def isTrustedPeer_def js_trim_def UNBOUND_SOURCE_TENANT_def
        List.member_iff Let_def)
  with delivery_gate_exact [OF g] g demo_enforces demo_context_built show ?thesis by simp
qed

theorem federated_reach_witness:
  "judgeRoute (identity False FederatedPeer ''teodor/x'' None) ''dev'' demo_context = Allow
   \<and> tenantMainAgentId demo_context ''acme'' \<noteq> Some (sanitizeAgentIdent ''dev'')"
proof -
  have "sanitizeAgentIdent ''dev'' = ''dev''" by (simp add: sanitizeAgentIdent_def ident_char_def is_word_def is_digit_def code_def)
  then have j: "judgeRoute (identity False FederatedPeer ''teodor/x'' None) ''dev'' demo_context = Allow"
    by (simp add: judgeRoute_def identity_def isRouteAllowed_def routeFederated_def demo_context_def buildRoutingContext_def demo_routing_def
        demo_tenants_def MANIFEST_EXCLUDED_AGENTS_def COORDINATOR_AGENT_ID_def catalogAgentNames_def other_tenant_agent_def main_of_def UNBOUND_SOURCE_TENANT_def
        List.member_iff Let_def)
  from federated_reach [OF demo_context_built _ _ _ j] j show ?thesis
    by (simp add: demo_routing_def identity_def UNBOUND_SOURCE_TENANT_def)
qed

end
