(* ===== verification/DeliveryIntent.thy ===== *)
theory DeliveryIntent
  imports JsBase "HOL-Library.Sublist"
begin

text \<open>
  The registry of what was really delivered into a session, \<open>src/web/delivery-intent.ts\<close>: text found parked in an input
  box may only be sent again, or requeued, when the registry vouches for it. Times are milliseconds.
\<close>

definition FRESHNESS_MS :: int where "FRESHNESS_MS = 5 * 60 * 1000"
definition RING_CAP :: nat where "RING_CAP = 10"
definition EXACT_MATCH_THRESHOLD :: nat where "EXACT_MATCH_THRESHOLD = 40"
definition TAIL_MATCH_MIN_CHARS :: nat where "TAIL_MATCH_MIN_CHARS = 40"

record ledger_ref =
  lr_msg :: nat
  lr_to :: string
  lr_tenant :: string

record delivery =
  dl_content :: string
  dl_ts :: int
  dl_ref :: string
  dl_ledger :: "ledger_ref option"

text \<open>The rings, newest delivery last; a session without one has the empty ring.\<close>

type_synonym registry = "string \<Rightarrow> delivery list"

definition recordDelivery :: "string \<Rightarrow> string \<Rightarrow> string \<Rightarrow> ledger_ref option \<Rightarrow> int \<Rightarrow> registry \<Rightarrow> registry" where
  "recordDelivery session content r ledger now reg =
     (let ring = reg session @ [\<lparr>dl_content = content, dl_ts = now, dl_ref = r, dl_ledger = ledger\<rparr>]
      in reg(session := (if length ring > RING_CAP then tl ring else ring)))"

definition recentDeliveryRefs :: "string \<Rightarrow> nat \<Rightarrow> registry \<Rightarrow> string list" where
  "recentDeliveryRefs session n reg =
     (let ring = reg session in map dl_ref (if n = 0 then ring else drop (length ring - n) ring))"

definition fresh_delivery :: "int \<Rightarrow> delivery \<Rightarrow> bool" where
  "fresh_delivery now r \<longleftrightarrow> now - dl_ts r \<le> FRESHNESS_MS"

definition matchDelivery :: "string \<Rightarrow> string \<Rightarrow> int \<Rightarrow> registry \<Rightarrow> bool" where
  "matchDelivery session boxContent now reg =
     (let trimmed = js_trim boxContent in
      if trimmed = [] then False
      else list_ex (\<lambda>r. fresh_delivery now r \<and>
             (let t = js_trim (dl_content r) in
              if length trimmed \<ge> EXACT_MATCH_THRESHOLD then take (length trimmed) t = trimmed \<or> t = trimmed else t = trimmed)) (reg session))"

text \<open>Runs of whitespace to one blank; the flag says a run is open.\<close>

fun squeeze_ws :: "(char \<Rightarrow> bool) \<Rightarrow> bool \<Rightarrow> string \<Rightarrow> string" where
  "squeeze_ws P open_run [] = []"
| "squeeze_ws P open_run (c # s) =
     (if P c then (if open_run then squeeze_ws P True s else CHR '' '' # squeeze_ws P True s) else c # squeeze_ws P False s)"

definition collapse :: "string \<Rightarrow> string" where
  "collapse s = js_trim (squeeze_ws is_ws False s)"

datatype tail_match = NoMatch | Ambiguous | TailMatch string ledger_ref

definition ends_with :: "string \<Rightarrow> string \<Rightarrow> bool" where
  "ends_with s t \<longleftrightarrow> length t \<le> length s \<and> drop (length s - length t) s = t"

definition tail_hit :: "int \<Rightarrow> string \<Rightarrow> delivery \<Rightarrow> bool" where
  "tail_hit now flat r \<longleftrightarrow> fresh_delivery now r \<and> ends_with (collapse (dl_content r)) flat"

definition matchDeliveryTail :: "string \<Rightarrow> string \<Rightarrow> int \<Rightarrow> registry \<Rightarrow> tail_match" where
  "matchDeliveryTail session boxText now reg =
     (let flat = collapse boxText in
      if length flat < TAIL_MATCH_MIN_CHARS then NoMatch
      else (case filter (tail_hit now flat) (reg session) of
              [] \<Rightarrow> NoMatch
            | [hit] \<Rightarrow> (case dl_ledger hit of Some l \<Rightarrow> TailMatch (dl_ref hit) l | None \<Rightarrow> NoMatch)
            | _ \<Rightarrow> Ambiguous))"

definition removeDeliveryByMsgId :: "string \<Rightarrow> nat \<Rightarrow> registry \<Rightarrow> registry" where
  "removeDeliveryByMsgId session i reg = reg(session := filter (\<lambda>r. map_option lr_msg (dl_ledger r) \<noteq> Some i) (reg session))"

definition clearDeliveries :: "string \<Rightarrow> registry \<Rightarrow> registry" where
  "clearDeliveries session reg = reg(session := [])"

section \<open>Properties\<close>

datatype registry_op = Record string string string "ledger_ref option" int | Remove string nat | Clear string

fun registry_do :: "registry_op \<Rightarrow> registry \<Rightarrow> registry" where
  "registry_do (Record s c r l now) reg = recordDelivery s c r l now reg"
| "registry_do (Remove s i) reg = removeDeliveryByMsgId s i reg"
| "registry_do (Clear s) reg = clearDeliveries s reg"

definition registry_run :: "registry_op list \<Rightarrow> registry" where
  "registry_run ops = fold registry_do ops (\<lambda>_. [])"

text \<open>Every record was made by a delivery into that session.\<close>

definition vouched :: "registry_op list \<Rightarrow> string \<Rightarrow> delivery \<Rightarrow> bool" where
  "vouched ops s r \<longleftrightarrow> Record s (dl_content r) (dl_ref r) (dl_ledger r) (dl_ts r) \<in> set ops"

lemma set_tl_subset: "set (tl xs) \<subseteq> set xs"
  by (cases xs) auto

lemma in_record:
  "r \<in> set (recordDelivery s c x l now reg t) \<Longrightarrow> r \<in> set (reg t) \<or> t = s \<and> r = \<lparr>dl_content = c, dl_ts = now, dl_ref = x, dl_ledger = l\<rparr>"
  using set_tl_subset [of "reg s @ [\<lparr>dl_content = c, dl_ts = now, dl_ref = x, dl_ledger = l\<rparr>]"]
  by (auto simp: recordDelivery_def Let_def split: if_splits)

lemma registry_fold:
  assumes "\<And>s. length (reg s) \<le> RING_CAP" and "\<And>s r. r \<in> set (reg s) \<Longrightarrow> Q s r"
    and "\<And>s c r l now. Record s c r l now \<in> set ops \<Longrightarrow> Q s \<lparr>dl_content = c, dl_ts = now, dl_ref = r, dl_ledger = l\<rparr>"
  shows "length (fold registry_do ops reg s) \<le> RING_CAP \<and> (\<forall>r\<in>set (fold registry_do ops reg s). Q s r)"
  using assms
proof (induction ops arbitrary: reg)
  case (Cons op ops)
  let ?reg = "registry_do op reg"
  have len: "length (?reg t) \<le> RING_CAP" for t
  proof (cases op)
    case (Remove s i)
    have "length (filter P (reg u)) \<le> RING_CAP" for P u using Cons.prems(1) [of u] length_filter_le [of P "reg u"] by linarith
    with Remove Cons.prems(1) show ?thesis by (simp add: removeDeliveryByMsgId_def)
  qed (use Cons.prems(1) in \<open>auto simp: recordDelivery_def clearDeliveries_def Let_def not_le intro: le_trans [OF _ Cons.prems(1)]\<close>)
  have mem: "Q t r" if "r \<in> set (?reg t)" for t r
    using that Cons.prems(2,3)
    by (cases op) (auto simp: removeDeliveryByMsgId_def clearDeliveries_def split: if_splits dest!: in_record)
  from Cons.IH [of ?reg] len mem Cons.prems(3) show ?case by simp
qed simp

lemma registry_run_spec: "length (registry_run ops s) \<le> RING_CAP \<and> (\<forall>r\<in>set (registry_run ops s). vouched ops s r)"
  unfolding registry_run_def by (rule registry_fold) (auto simp: vouched_def)

text \<open>
  parked text is attributed only to what was really delivered. After any deliveries, removals and clears, a parked box
  matches by its tail only if exactly one recent delivery into that very session ends with its text, at least
  40 characters of it, and then the ledger row is that delivery's own; once that row is requeued and its record
  dropped, no box text matches it again. A ring never holds more than ten.
\<close>

theorem tail_attribution_sound:
  assumes "matchDeliveryTail s box now (registry_run ops) = TailMatch ref l"
  shows "(\<exists>c ts. Record s c ref (Some l) ts \<in> set ops \<and> now - ts \<le> FRESHNESS_MS \<and> suffix (collapse box) (collapse c))
    \<and> 40 \<le> length (collapse box)
    \<and> length (filter (tail_hit now (collapse box)) (registry_run ops s)) = 1
    \<and> (\<forall>box' now' ref'. matchDeliveryTail s box' now' (removeDeliveryByMsgId s (lr_msg l) (registry_run ops)) \<noteq> TailMatch ref' l)
    \<and> length (registry_run ops s) \<le> 10"
proof -
  have long: "40 \<le> length (collapse box)" using assms by (auto simp: matchDeliveryTail_def TAIL_MATCH_MIN_CHARS_def Let_def split: if_splits)
  obtain hit where hit: "filter (tail_hit now (collapse box)) (registry_run ops s) = [hit]" "dl_ledger hit = Some l" "dl_ref hit = ref"
    using assms by (auto simp: matchDeliveryTail_def Let_def split: if_splits list.splits option.splits)
  then have h: "hit \<in> set (registry_run ops s)" "tail_hit now (collapse box) hit" by (auto dest: filter_eq_ConsD)
  then have "vouched ops s hit" using registry_run_spec by blast
  moreover have "suffix (collapse box) (collapse (dl_content hit))"
    using h(2) unfolding tail_hit_def ends_with_def by (metis suffix_drop)
  ultimately have "\<exists>c ts. Record s c ref (Some l) ts \<in> set ops \<and> now - ts \<le> FRESHNESS_MS \<and> suffix (collapse box) (collapse c)"
    using h(2) hit by (auto simp: vouched_def tail_hit_def fresh_delivery_def)
  moreover have "matchDeliveryTail s box' now' (removeDeliveryByMsgId s (lr_msg l) (registry_run ops)) \<noteq> TailMatch ref' l" for box' now' ref'
  proof
    assume "matchDeliveryTail s box' now' (removeDeliveryByMsgId s (lr_msg l) (registry_run ops)) = TailMatch ref' l"
    then obtain k where "filter (tail_hit now' (collapse box')) (removeDeliveryByMsgId s (lr_msg l) (registry_run ops) s) = [k]" "dl_ledger k = Some l"
      by (auto simp: matchDeliveryTail_def Let_def split: if_splits list.splits option.splits)
    then have "k \<in> set (removeDeliveryByMsgId s (lr_msg l) (registry_run ops) s)" "dl_ledger k = Some l" by (auto dest: filter_eq_ConsD)
    then show False by (simp add: removeDeliveryByMsgId_def)
  qed
  ultimately show ?thesis using long hit(1) registry_run_spec [of ops s] by (simp add: RING_CAP_def)
qed

theorem tail_attribution_sound_witness:
  "matchDeliveryTail ''agent-dev'' ''the quick brown fox jumps over the lazy dogs'' 60000
       (registry_run [Record ''agent-dev'' ''[x] the quick brown  fox jumps over the lazy dogs'' ''7'' (Some \<lparr>lr_msg = 7, lr_to = ''dev'', lr_tenant = ''default''\<rparr>) 1000])
     = TailMatch ''7'' \<lparr>lr_msg = 7, lr_to = ''dev'', lr_tenant = ''default''\<rparr>
   \<and> 40 \<le> length (collapse ''the quick brown fox jumps over the lazy dogs'')"
proof -
  have c: "collapse ''the quick brown fox jumps over the lazy dogs'' = ''the quick brown fox jumps over the lazy dogs''"
    "collapse ''[x] the quick brown  fox jumps over the lazy dogs'' = ''[x] the quick brown fox jumps over the lazy dogs''"
    by (simp_all add: collapse_def js_trim_def is_ws_def code_def)
  have m: "matchDeliveryTail ''agent-dev'' ''the quick brown fox jumps over the lazy dogs'' 60000
       (registry_run [Record ''agent-dev'' ''[x] the quick brown  fox jumps over the lazy dogs'' ''7'' (Some \<lparr>lr_msg = 7, lr_to = ''dev'', lr_tenant = ''default''\<rparr>) 1000])
     = TailMatch ''7'' \<lparr>lr_msg = 7, lr_to = ''dev'', lr_tenant = ''default''\<rparr>"
    by (simp add: matchDeliveryTail_def c registry_run_def recordDelivery_def tail_hit_def fresh_delivery_def ends_with_def
        FRESHNESS_MS_def TAIL_MATCH_MIN_CHARS_def RING_CAP_def)
  from tail_attribution_sound [OF m] m show ?thesis by blast
qed

end
