(* ===== verification/MessageRouter.thy ===== *)
theory MessageRouter
  imports SenderRouting MessageFrame DeliveryIntent PaneState
begin

text \<open>
  The router of inter-agent messages, \<open>src/web/message-router.ts\<close>: one tick as a function of the router's memory, the
  message table and what the tick meets outside (sessions, panes, injections, the federation bridge), which is the
  record \<open>tick_env\<close>, indexed by message or agent. Log lines and telemetry are left out. Times of the tick are
  milliseconds, those of the table seconds. The notices are the source's, with the nearest Latin-1
  text for a character outside it (a dash, an ellipsis, one Hungarian vowel).
\<close>

section \<open>Decisions\<close>

definition MESSAGE_ABANDON_WINDOW_MS :: int where "MESSAGE_ABANDON_WINDOW_MS = 60 * 60 * 1000"
definition JANITOR_PARKED_MIN_AGE_MS :: int where "JANITOR_PARKED_MIN_AGE_MS = 45 * 1000"
definition MAX_INJECT_FAILURES :: nat where "MAX_INJECT_FAILURES = 3"
definition MAIN_AGENT_WAKEUP_COOLDOWN_MS :: int where "MAIN_AGENT_WAKEUP_COOLDOWN_MS = 45 * 1000"
definition STUCK_ESCALATE_MS :: int where "STUCK_ESCALATE_MS = 10 * 60 * 1000"
definition BUSY_STUCK_ESCALATE_MS :: int where "BUSY_STUCK_ESCALATE_MS = 30 * 60 * 1000"
definition RECONNECT_BATCH_THRESHOLD :: nat where "RECONNECT_BATCH_THRESHOLD = 5"
definition RECONNECT_BATCH_AGE_MS :: int where "RECONNECT_BATCH_AGE_MS = 30 * 60 * 1000"
definition MAX_MESSAGES_PER_TICK :: nat where "MAX_MESSAGES_PER_TICK = 25"
definition MAX_FEDERATED_PER_TICK :: nat where "MAX_FEDERATED_PER_TICK = 3"

definition shouldGiveUpOnInject :: "nat \<Rightarrow> nat \<Rightarrow> bool" where
  "shouldGiveUpOnInject failCount maxFailures \<longleftrightarrow> failCount \<ge> maxFailures"

definition shouldEscalateStuckSession :: "pane_state option \<Rightarrow> int \<Rightarrow> bool" where
  "shouldEscalateStuckSession pane stuckMs \<longleftrightarrow> stuckMs > (if pane = Some PBusy then BUSY_STUCK_ESCALATE_MS else STUCK_ESCALATE_MS)"

definition shouldAbandon :: "bool \<Rightarrow> int \<Rightarrow> int \<Rightarrow> bool" where
  "shouldAbandon sessionExists ageMs windowMs \<longleftrightarrow> \<not> sessionExists \<and> ageMs > windowMs"

section \<open>The world of a tick and the router's memory\<close>

datatype bridge_result = BridgeSkipped | BridgeDelivered "string option" | BridgeFailed string | BridgeRetry

record tick_env =
  te_store :: store_env
  te_routing :: routing_env
  te_now :: int
  te_session :: "string \<Rightarrow> bool option"
  te_ready :: "nat \<Rightarrow> bool option"
  te_pane :: "nat \<Rightarrow> pane_state option"
  te_janitor :: "nat \<Rightarrow> bool"
  te_inject :: "nat \<Rightarrow> bool"
  te_bridge :: "nat \<Rightarrow> bridge_result"
  te_peer_window :: "string \<Rightarrow> int"
  te_new_trace :: "nat \<Rightarrow> string \<times> string"
  te_inbound :: "message \<Rightarrow> string"
  te_nonce :: "nat \<Rightarrow> nat list"
  te_error :: "nat \<Rightarrow> string"
  te_iso :: "int \<Rightarrow> string"

record router_state =
  rs_gate :: gate_state
  rs_failures :: "nat \<Rightarrow> nat"
  rs_stamped :: "nat list"
  rs_was_absent :: "string list"
  rs_batched :: "string list"
  rs_stuck :: "string \<Rightarrow> int option"
  rs_last_wakeup :: int
  rs_trace :: "string \<Rightarrow> (string \<times> string) option"
  rs_registry :: registry
  rs_injected :: "(nat \<times> string \<times> string) list"
  rs_wakeups :: "int list"

abbreviation rs_db :: "router_state \<Rightarrow> message_db" where
  "rs_db st \<equiv> gs_db (rs_gate st)"

abbreviation te_main :: "tick_env \<Rightarrow> string" where
  "te_main e \<equiv> tc_main (re_trust (te_routing e))"

definition on_db :: "tick_env \<Rightarrow> message_op \<Rightarrow> router_state \<Rightarrow> router_state" where
  "on_db e op st = st\<lparr>rs_gate := (rs_gate st)\<lparr>gs_db := message_do (te_store e) (te_now e div 1000) op (rs_db st)\<rparr>\<rparr>"

definition age_ms :: "tick_env \<Rightarrow> message \<Rightarrow> int" where
  "age_ms e m = te_now e - m_created m * 1000"

section \<open>Notices\<close>

definition oneLine :: "string \<Rightarrow> string" where
  "oneLine raw = js_trim (stripInvisible (squeeze_ws (\<lambda>c. is_ws c \<or> 0x1c \<le> code c \<and> code c \<le> 0x1e \<or> code c = 0x85) False raw))"

definition send_notice :: "tick_env \<Rightarrow> string \<Rightarrow> string \<Rightarrow> router_state \<Rightarrow> router_state" where
  "send_notice e to_agent text =
     on_db e (OpCreate \<lparr>d_from = SERVER_SENDER, d_to = to_agent, d_content = text, d_origin_note = None, d_trace = None,
       d_tenant = UNBOUND_SOURCE_TENANT, d_envelope = None, d_pin = False\<rparr>)"

definition round_minutes :: "int \<Rightarrow> int" where
  "round_minutes ms = (ms + 30000) div 60000"

definition formatStuckSessionAlert :: "string \<Rightarrow> string \<Rightarrow> string \<Rightarrow> int \<Rightarrow> nat \<Rightarrow> pane_state option \<Rightarrow> string option" where
  "formatStuckSessionAlert agent main_agent session stuckMs pendingCount pane =
     (if agent = main_agent then None
      else let mins = show_nat (nat (round_minutes stuckMs));
               queue = show_nat pendingCount @ '' pending message(s) queued''
           in Some (if pane = Some PBusy
             then ''[session-stuck] Agent '' @ [CHR 0x27] @ agent @ [CHR 0x27] @ '' (tmux '' @ session
               @ '') has been BUSY (actively working, spinner up) for '' @ mins @ '' min with '' @ queue
               @ ''. Not a stall by itself -- check whether the turn is progressing or a tool call is wedged. Do NOT restart on this alert alone.''
             else ''[session-stuck] Agent '' @ [CHR 0x27] @ agent @ [CHR 0x27] @ '' (tmux '' @ session @ '') has been not-ready for '' @ mins
               @ '' min with '' @ queue
               @ ''. Run the delivery-stall diagnosis: check the pane (busy vs idle vs full context) and restart the agent if it is wedged.''))"

definition notifyOrchestratorOfStuckSession :: "tick_env \<Rightarrow> string \<Rightarrow> string \<Rightarrow> int \<Rightarrow> nat \<Rightarrow> pane_state option \<Rightarrow> router_state \<Rightarrow> router_state" where
  "notifyOrchestratorOfStuckSession e agent session stuckMs pendingCount pane st =
     (case formatStuckSessionAlert agent (te_main e) session stuckMs pendingCount pane of
        None \<Rightarrow> st | Some alert \<Rightarrow> send_notice e (te_main e) alert st)"

definition handoff_notice :: "message \<Rightarrow> string \<Rightarrow> string" where
  "handoff_notice m reason =
     ''[handoff-failure] Inter-agent message (id '' @ show_nat (m_id m) @ '') '' @ m_from m @ '' -> '' @ m_to m
     @ '' could NOT be delivered: '' @ reason @ ''. Consider re-sending or checking the target agent. Content preview: ''
     @ take 220 (oneLine (m_content m))"

definition notifyOrchestratorOfFailedHandoff :: "tick_env \<Rightarrow> message \<Rightarrow> string \<Rightarrow> router_state \<Rightarrow> router_state" where
  "notifyOrchestratorOfFailedHandoff e m reason st =
     (if m_to m = te_main e then st else send_notice e (te_main e) (handoff_notice m reason) st)"

definition notifyDelegationFailed :: "tick_env \<Rightarrow> message \<Rightarrow> string \<Rightarrow> router_state \<Rightarrow> router_state" where
  "notifyDelegationFailed e m error =
     send_notice e (m_from m)
       (''A(z) '' @ m_to m @ '' c'' @ [CHR 0xED] @ ''mre k'' @ [CHR 0xFC] @ ''ld'' @ [CHR 0xF6] @ ''tt f'' @ [CHR 0xF6] @ ''der'' @ [CHR 0xE1]
        @ ''lt '' @ [CHR 0xFC] @ ''zeneted (#'' @ show_nat (m_id m) @ '') v'' @ [CHR 0xE9] @ ''glegesen meghi'' @ [CHR 0xFA] @ ''sult: ''
        @ take 200 error @ ''. Ne deleg'' @ [CHR 0xE1] @ ''ld '' @ [CHR 0xFA] @ ''jra automatikusan -- jelezd a tulajdonosnak, vagy v''
        @ [CHR 0xE1] @ ''laszolj magad a k'' @ [CHR 0xE9] @ ''ronek.'')"

section \<open>Delivery to a local session\<close>

definition set_stuck :: "string \<Rightarrow> int option \<Rightarrow> router_state \<Rightarrow> router_state" where
  "set_stuck a t st = st\<lparr>rs_stuck := (rs_stuck st)(a := t)\<rparr>"

definition forget_message :: "nat \<Rightarrow> router_state \<Rightarrow> router_state" where
  "forget_message i st = st\<lparr>rs_failures := (rs_failures st)(i := 0)\<rparr>"

definition session_of :: "string \<Rightarrow> string" where
  "session_of agent = ''agent-'' @ agent"

definition ABANDONED_REASON :: string where
  "ABANDONED_REASON = ''Abandoned: target session absent for full retry window''"

definition abandon_local :: "tick_env \<Rightarrow> message \<Rightarrow> router_state \<Rightarrow> router_state" where
  "abandon_local e m st =
     (let st1 = notifyOrchestratorOfFailedHandoff e m ''target session was absent for the entire retry window''
                  (on_db e (OpFailed (m_id m) (Some ABANDONED_REASON)) st)
      in forget_message (m_id m) (st1\<lparr>rs_stamped := removeAll (m_id m) (rs_stamped st1)\<rparr>))"

definition wait_absent :: "tick_env \<Rightarrow> message \<Rightarrow> router_state \<Rightarrow> router_state" where
  "wait_absent e m st =
     (if List.member (rs_stamped st) (m_id m) then st
      else (on_db e (OpNoSession (m_id m)) st)\<lparr>rs_stamped := m_id m # rs_stamped st\<rparr>)"

text \<open>A session that is there and not ready. The janitor's clearing of a parked input is an effect of the pane alone.\<close>

definition wait_not_ready :: "tick_env \<Rightarrow> message list \<Rightarrow> message \<Rightarrow> router_state \<Rightarrow> router_state" where
  "wait_not_ready e pending m st =
     (let a = m_to m; since = (case rs_stuck st a of Some t \<Rightarrow> t | None \<Rightarrow> 0) in
      if since = 0 then set_stuck a (Some (te_now e)) st
      else if te_now e - since > STUCK_ESCALATE_MS
      then (if shouldEscalateStuckSession (te_pane e (m_id m)) (te_now e - since)
            then set_stuck a (Some (te_now e))
              (notifyOrchestratorOfStuckSession e a (session_of a) (te_now e - since)
                (length (filter (\<lambda>k. m_to k = a) pending)) (te_pane e (m_id m)) st)
            else st)
      else st)"

text \<open>The trace of a message: the one on the row, or one stamped now, inherited from what its sender last received.\<close>

definition row_trace :: "message \<Rightarrow> (string \<times> string) option" where
  "row_trace m = (case (named (m_trace m), named (m_span m)) of (Some t, Some s) \<Rightarrow> Some (t, s) | _ \<Rightarrow> None)"

definition stampTraceOnMessage :: "tick_env \<Rightarrow> message \<Rightarrow> router_state \<Rightarrow> (string \<times> string) \<times> router_state" where
  "stampTraceOnMessage e m st =
     (let inherited = rs_trace st (m_from m);
          trace = (case inherited of Some (t, _) \<Rightarrow> t | None \<Rightarrow> fst (te_new_trace e (m_id m)));
          sp = snd (te_new_trace e (m_id m))
      in ((trace, sp), on_db e (OpStamp (m_id m) trace sp (map_option snd inherited)) st))"

definition frame_text :: "tick_env \<Rightarrow> message \<Rightarrow> message_category \<Rightarrow> string \<Rightarrow> string" where
  "frame_text e m cat safeFrom =
     (case wrapAgentMessageForDelivery (te_nonce e (m_id m)) cat safeFrom (m_from m)
        (if cat = ChannelInbound then te_inbound e m else m_content m) (Some (m_id m)) (m_origin_note m) of (p, w) \<Rightarrow> p @ w)"

definition inject_done :: "tick_env \<Rightarrow> message \<Rightarrow> string \<Rightarrow> (string \<times> string) option \<Rightarrow> router_state \<Rightarrow> router_state" where
  "inject_done e m text trace st =
     (let ledger = (if m_tenant m = [] then None else Some \<lparr>lr_msg = m_id m, lr_to = m_to m, lr_tenant = m_tenant m\<rparr>);
          st1 = on_db e (OpDeliver (m_id m))
            (st\<lparr>rs_injected := rs_injected st @ [(m_id m, session_of (m_to m), text)],
                rs_registry := recordDelivery (session_of (m_to m)) text (show_nat (m_id m)) ledger (te_now e) (rs_registry st)\<rparr>)
      in forget_message (m_id m)
           (case trace of Some t \<Rightarrow> st1\<lparr>rs_trace := (rs_trace st1)(m_to m := Some t)\<rparr> | None \<Rightarrow> st1))"

definition inject_reason :: "nat \<Rightarrow> string" where
  "inject_reason n = ''Failed to inject into tmux session after '' @ show_nat n @ '' attempts''"

definition inject_failed :: "tick_env \<Rightarrow> message \<Rightarrow> router_state \<Rightarrow> router_state" where
  "inject_failed e m st =
     (let n = rs_failures st (m_id m) + 1 in
      if \<not> shouldGiveUpOnInject n MAX_INJECT_FAILURES then st\<lparr>rs_failures := (rs_failures st)(m_id m := n)\<rparr>
      else forget_message (m_id m)
             (notifyOrchestratorOfFailedHandoff e m (''tmux inject failed '' @ show_nat n @ ''x'')
               (on_db e (OpFailed (m_id m) (Some (inject_reason n))) (st\<lparr>rs_failures := (rs_failures st)(m_id m := n)\<rparr>))))"

text \<open>Channel messages carry no trace.\<close>

definition effective_trace :: "tick_env \<Rightarrow> message \<Rightarrow> message_category \<Rightarrow> router_state \<Rightarrow> (string \<times> string) option \<times> router_state" where
  "effective_trace e m cat st =
     (if cat = ChannelInbound then (None, st)
      else case row_trace m of Some t \<Rightarrow> (Some t, st)
      | None \<Rightarrow> (let (t, st') = stampTraceOnMessage e m st in (Some t, st')))"

definition deliver_ready :: "tick_env \<Rightarrow> message \<Rightarrow> router_state \<Rightarrow> router_state" where
  "deliver_ready e m st0 =
     (let st = set_stuck (m_to m) None st0 in
      case classifyAgentMessage (re_trust (te_routing e)) (m_from m) (m_to m) of
        None \<Rightarrow> on_db e (OpFailed (m_id m) (Some ''Invalid or empty from_agent'')) st
      | Some (cat, safeFrom) \<Rightarrow>
          (let (trace, st1) = effective_trace e m cat st in
           if te_inject e (m_id m) then inject_done e m (frame_text e m cat safeFrom) trace st1 else inject_failed e m st1))"

definition deliver_local :: "tick_env \<Rightarrow> message list \<Rightarrow> message \<Rightarrow> router_state \<Rightarrow> router_state" where
  "deliver_local e pending m st =
     (let exists = (te_session e (m_to m) = Some True) in
      if shouldAbandon exists (age_ms e m) MESSAGE_ABANDON_WINDOW_MS then abandon_local e m st
      else if \<not> exists then wait_absent e m st
      else let st1 = st\<lparr>rs_stamped := removeAll (m_id m) (rs_stamped st)\<rparr> in
        case te_ready e (m_id m) of
          None \<Rightarrow> on_db e (OpFailed (m_id m) (Some (''Delivery error: '' @ take 200 (te_error e (m_id m))))) st1
        | Some False \<Rightarrow> wait_not_ready e pending m st1
        | Some True \<Rightarrow> deliver_ready e m st1)"

text \<open>The main agent drains its own inbox; it is only woken, once a tick and once a cooldown.\<close>

definition wake_main :: "tick_env \<Rightarrow> bool \<times> router_state \<Rightarrow> bool \<times> router_state" where
  "wake_main e = (\<lambda>(fired, st).
     if \<not> fired \<and> te_now e - rs_last_wakeup st \<ge> MAIN_AGENT_WAKEUP_COOLDOWN_MS
     then (True, st\<lparr>rs_last_wakeup := te_now e, rs_wakeups := rs_wakeups st @ [te_now e]\<rparr>) else (fired, st))"

definition route_one :: "tick_env \<Rightarrow> message list \<Rightarrow> nat list \<Rightarrow> message \<Rightarrow> bool \<times> router_state \<Rightarrow> bool \<times> router_state" where
  "route_one e pending batched m fst_st =
     (if List.member batched (m_id m) then fst_st
      else if m_to m = te_main e then wake_main e fst_st
      else (fst fst_st, deliver_local e pending m (snd fst_st)))"

section \<open>Delivery to another system\<close>

definition peer_of :: "string \<Rightarrow> string" where
  "peer_of a = takeWhile (\<lambda>c. c \<noteq> CHR ''/'') a"

definition PEER_UNREACHABLE :: string where
  "PEER_UNREACHABLE = ''Abandoned: peer unreachable for full retry window''"

text \<open>A terminal failure bounces a notice only if this call closed the row.\<close>

definition fail_federated :: "tick_env \<Rightarrow> message \<Rightarrow> string \<Rightarrow> string \<Rightarrow> router_state \<Rightarrow> router_state" where
  "fail_federated e m error shown st =
     (let hit = fst (markPendingFederatedFailed (m_id m) error (te_now e div 1000) (rs_db st));
          st1 = on_db e (OpFederatedFailed (m_id m) error) st
      in if hit then notifyDelegationFailed e m shown st1 else st1)"

definition delivered_federated :: "tick_env \<Rightarrow> message \<Rightarrow> string option \<Rightarrow> router_state \<Rightarrow> router_state" where
  "delivered_federated e m remote st =
     (let hit = fst (markMessageDelivered (m_id m) (te_now e div 1000) (rs_db st));
          st1 = on_db e (OpDeliver (m_id m)) st
      in case (if hit then named remote else None) of
           Some r \<Rightarrow> on_db e (OpResult (m_id m) (''fed:'' @ peer_of (m_to m) @ '':'' @ r)) st1
         | None \<Rightarrow> st1)"

definition WINDOW_NOTICE :: string where
  "WINDOW_NOTICE = ''a t'' @ [CHR 0xE1] @ ''rs a teljes t'' @ [CHR 0xFC] @ ''relmi ablakban el'' @ [CHR 0xE9] @ ''rhetetlen volt''"

fun deliverFederatedBatch :: "tick_env \<Rightarrow> message list \<Rightarrow> nat \<Rightarrow> nat \<Rightarrow> router_state \<Rightarrow> router_state" where
  "deliverFederatedBatch e [] attempts abandons st = st"
| "deliverFederatedBatch e (m # ms) attempts abandons st =
     (if age_ms e m > te_peer_window e (peer_of (m_to m))
      then (if abandons \<ge> MAX_FEDERATED_PER_TICK then deliverFederatedBatch e ms attempts abandons st
            else deliverFederatedBatch e ms attempts (abandons + 1) (fail_federated e m PEER_UNREACHABLE WINDOW_NOTICE st))
      else if attempts \<ge> MAX_FEDERATED_PER_TICK then deliverFederatedBatch e ms attempts abandons st
      else (case te_bridge e (m_id m) of
              BridgeSkipped \<Rightarrow> deliverFederatedBatch e ms attempts abandons st
            | BridgeDelivered remote \<Rightarrow> deliverFederatedBatch e ms (attempts + 1) abandons (delivered_federated e m remote st)
            | BridgeFailed error \<Rightarrow> deliverFederatedBatch e ms (attempts + 1) abandons (fail_federated e m error error st)
            | BridgeRetry \<Rightarrow> deliverFederatedBatch e ms (attempts + 1) abandons st))"

section \<open>The backlog of an agent that is back\<close>

definition old_message :: "tick_env \<Rightarrow> message \<Rightarrow> bool" where
  "old_message e m \<longleftrightarrow> age_ms e m > RECONNECT_BATCH_AGE_MS"

definition sender_name :: "message \<Rightarrow> string" where
  "sender_name m = (if m_from m = [] then ''unknown'' else m_from m)"

definition backlog_line :: "tick_env \<Rightarrow> message \<Rightarrow> string" where
  "backlog_line e m =
     (let iso = te_iso e (m_created m * 1000);
          dt = take 19 (takeWhile (\<lambda>c. c \<noteq> CHR ''T'') iso @ (case dropWhile (\<lambda>c. c \<noteq> CHR ''T'') iso of [] \<Rightarrow> [] | _ # r \<Rightarrow> CHR '' '' # r));
          flat = oneLine (m_content m);
          preview = (if length flat > 120 then take 120 flat @ ''...'' else flat)
      in ''['' @ dt @ ''] '' @ sender_name m @ '': '' @ preview)"

definition backlog_summary :: "tick_env \<Rightarrow> message list \<Rightarrow> string" where
  "backlog_summary e old =
     (let senders = rev (remdups (rev (map sender_name old)));
          counts = map (\<lambda>s. s @ '' ('' @ show_nat (length (filter (\<lambda>m. sender_name m = s) old)) @ '')'') senders
      in join_with newline
           ([''[BACKLOG-SUMMARY] '' @ show_nat (length old) @ '' inter-agent message(s) received while you were away:'', []]
            @ map (backlog_line e) old
            @ [[], ''Summary: '' @ show_nat (length old) @ '' old message(s) from '' @ join_with '', '' counts @ ''. Check the message log for full details.'']))"

text \<open>The ids batched, and the state.\<close>

definition batchDeliverBacklog :: "tick_env \<Rightarrow> string \<Rightarrow> message list \<Rightarrow> router_state \<Rightarrow> nat list \<times> router_state" where
  "batchDeliverBacklog e agent agentPending st =
     (let old = filter (old_message e) agentPending in
      if old = [] then ([], st)
      else (map m_id old,
            send_notice e agent (backlog_summary e old)
              (fold (\<lambda>m. on_db e (OpDone (m_id m) (Some (''batched into backlog summary for '' @ agent)))) old st)))"

definition gated :: "tick_env \<Rightarrow> message list \<Rightarrow> router_state \<Rightarrow> message list \<times> router_state" where
  "gated e batch st =
     (let (kept, g) = gateDeliveryBatch (te_routing e) (te_now e div 1000) batch (rs_gate st) in (kept, st\<lparr>rs_gate := g\<rparr>))"

definition reconnect_one :: "tick_env \<Rightarrow> string \<Rightarrow> nat list \<times> router_state \<Rightarrow> nat list \<times> router_state" where
  "reconnect_one e agent = (\<lambda>(batched, st).
     if \<not> List.member (rs_was_absent st) agent \<or> List.member (rs_batched st) agent then (batched, st)
     else let (agentPending, st1) = gated e (getPendingMessages (Some agent) None (rs_db st)) st in
       if length agentPending > RECONNECT_BATCH_THRESHOLD \<and> age_ms e (hd agentPending) > RECONNECT_BATCH_AGE_MS
       then (let (ids, st2) = batchDeliverBacklog e agent agentPending st1 in (batched @ ids, st2\<lparr>rs_batched := agent # rs_batched st2\<rparr>))
       else (batched, st1))"

section \<open>One tick\<close>

definition mark_absent :: "string \<Rightarrow> router_state \<Rightarrow> router_state" where
  "mark_absent a st = set_stuck a None (st\<lparr>rs_was_absent := List.insert a (rs_was_absent st), rs_batched := removeAll a (rs_batched st)\<rparr>)"

definition mark_present :: "string \<Rightarrow> router_state \<Rightarrow> router_state" where
  "mark_present a st = st\<lparr>rs_was_absent := removeAll a (rs_was_absent st)\<rparr>"

definition local_rows :: "message_db \<Rightarrow> message list" where
  "local_rows db = filter (\<lambda>m. \<not> isQualifiedId (m_to m)) (getPendingMessages None None db)"

definition federated_rows :: "message_db \<Rightarrow> message list" where
  "federated_rows db = filter (\<lambda>m. isQualifiedId (m_to m)) (getPendingMessages None None db)"

definition receivers :: "tick_env \<Rightarrow> message list \<Rightarrow> string list" where
  "receivers e pending = rev (remdups (rev (map m_to (filter (\<lambda>m. m_to m \<noteq> te_main e) pending))))"

definition runMessageRouterTick :: "tick_env \<Rightarrow> router_state \<Rightarrow> router_state" where
  "runMessageRouterTick e st =
     (let federated = federated_rows (rs_db st);
          (pending, st1) = gated e (take MAX_MESSAGES_PER_TICK (local_rows (rs_db st))) st;
          rcv = receivers e pending
      in if list_ex (\<lambda>a. te_session e a = None) rcv then st1
         else
           let present = filter (\<lambda>a. te_session e a = Some True) rcv;
               absent = filter (\<lambda>a. te_session e a = Some False) rcv;
               (batched, st2) = fold (reconnect_one e) present ([], st1);
               st3 = fold mark_present present (fold mark_absent absent st2);
               st4 = deliverFederatedBatch e federated 0 0 st3
           in snd (fold (route_one e pending batched) pending (False, st4)))"

section \<open>A tick as operations on the table\<close>

text \<open>The rows an operation can touch.\<close>

fun op_ids :: "message_op \<Rightarrow> nat set" where
  "op_ids (OpCreate _) = {}"
| "op_ids (OpDeliver i) = {i}"
| "op_ids (OpResult i _) = {i}"
| "op_ids (OpDone i _) = {i}"
| "op_ids (OpFailed i _) = {i}"
| "op_ids (OpClose i _ _) = {i}"
| "op_ids (OpNoSession i) = {i}"
| "op_ids (OpFederatedFailed i _) = {i}"
| "op_ids (OpStamp i _ _ _) = {i}"
| "op_ids _ = UNIV"

fun router_op :: "message_op \<Rightarrow> bool" where
  "router_op (OpPrune _) \<longleftrightarrow> False"
| "router_op (OpRequeue _ _ _) \<longleftrightarrow> False"
| "router_op (OpClaim _ _) \<longleftrightarrow> False"
| "router_op (OpPurge _ _) \<longleftrightarrow> False"
| "router_op (OpHandoff _) \<longleftrightarrow> False"
| "router_op _ \<longleftrightarrow> True"

definition stamp_now :: "tick_env \<Rightarrow> message_op list \<Rightarrow> (int \<times> message_op) list" where
  "stamp_now e ops = map (Pair (te_now e div 1000)) ops"

definition tick_runs :: "tick_env \<Rightarrow> nat set \<Rightarrow> router_state \<Rightarrow> router_state \<Rightarrow> bool" where
  "tick_runs e A st st' \<longleftrightarrow>
     (\<exists>ops. rs_db st' = message_run (te_store e) (stamp_now e ops) (rs_db st) \<and> (\<forall>op\<in>set ops. router_op op \<and> op_ids op \<subseteq> A))"

lemma message_run_append: "message_run e (xs @ ys) db = message_run e ys (message_run e xs db)"
  by (induction e xs db rule: message_run.induct) auto

lemma runs_same: "rs_gate st' = rs_gate st \<Longrightarrow> tick_runs e A st st'"
  unfolding tick_runs_def by (intro exI [of _ "[]"]) (simp add: stamp_now_def)

lemma runs_trans:
  assumes "tick_runs e A st st'" "tick_runs e B st' st''"
  shows "tick_runs e (A \<union> B) st st''"
proof -
  from assms obtain xs ys where
    "rs_db st' = message_run (te_store e) (stamp_now e xs) (rs_db st)" "\<forall>op\<in>set xs. router_op op \<and> op_ids op \<subseteq> A"
    "rs_db st'' = message_run (te_store e) (stamp_now e ys) (rs_db st')" "\<forall>op\<in>set ys. router_op op \<and> op_ids op \<subseteq> B"
    unfolding tick_runs_def by blast
  then show ?thesis unfolding tick_runs_def by (intro exI [of _ "xs @ ys"]) (auto simp: stamp_now_def message_run_append)
qed

lemma runs_mono: "tick_runs e A st st' \<Longrightarrow> A \<subseteq> B \<Longrightarrow> tick_runs e B st st'"
  unfolding tick_runs_def by blast

lemma runs_then: "tick_runs e A st st' \<Longrightarrow> tick_runs e A st' st'' \<Longrightarrow> tick_runs e A st st''"
  using runs_trans [of e A st st' A st''] by simp

lemma runs_on_db: "router_op op \<Longrightarrow> op_ids op \<subseteq> A \<Longrightarrow> tick_runs e A st (on_db e op st)"
  unfolding tick_runs_def by (intro exI [of _ "[op]"]) (simp add: stamp_now_def on_db_def)

lemma runs_notice: "tick_runs e A st (send_notice e a text st)"
  unfolding send_notice_def by (rule runs_on_db) simp_all

lemma rs_on_db [simp]:
  "rs_injected (on_db e op st) = rs_injected st" "rs_wakeups (on_db e op st) = rs_wakeups st"
  "rs_last_wakeup (on_db e op st) = rs_last_wakeup st" "rs_failures (on_db e op st) = rs_failures st"
  "rs_stamped (on_db e op st) = rs_stamped st" "rs_stuck (on_db e op st) = rs_stuck st" "rs_trace (on_db e op st) = rs_trace st"
  "rs_registry (on_db e op st) = rs_registry st"
  by (simp_all add: on_db_def)

lemma rs_notices [simp]:
  "rs_injected (send_notice e a text st) = rs_injected st" "rs_wakeups (send_notice e a text st) = rs_wakeups st"
  "rs_last_wakeup (send_notice e a text st) = rs_last_wakeup st"
  "rs_injected (notifyOrchestratorOfFailedHandoff e m r st) = rs_injected st"
  "rs_wakeups (notifyOrchestratorOfFailedHandoff e m r st) = rs_wakeups st"
  "rs_last_wakeup (notifyOrchestratorOfFailedHandoff e m r st) = rs_last_wakeup st"
  "rs_injected (set_stuck b t st) = rs_injected st" "rs_wakeups (set_stuck b t st) = rs_wakeups st"
  "rs_last_wakeup (set_stuck b t st) = rs_last_wakeup st" "rs_gate (set_stuck b t st) = rs_gate st"
  "rs_injected (forget_message i st) = rs_injected st" "rs_wakeups (forget_message i st) = rs_wakeups st"
  "rs_last_wakeup (forget_message i st) = rs_last_wakeup st" "rs_gate (forget_message i st) = rs_gate st"
  "rs_injected (notifyOrchestratorOfStuckSession e b s ms n p st) = rs_injected st"
  "rs_wakeups (notifyOrchestratorOfStuckSession e b s ms n p st) = rs_wakeups st"
  "rs_last_wakeup (notifyOrchestratorOfStuckSession e b s ms n p st) = rs_last_wakeup st"
  by (simp_all add: send_notice_def notifyOrchestratorOfFailedHandoff_def set_stuck_def forget_message_def notifyOrchestratorOfStuckSession_def
      split: option.split)

lemma runs_gate: "tick_runs e A st st' \<Longrightarrow> rs_gate st'' = rs_gate st' \<Longrightarrow> tick_runs e A st st''"
  by (simp add: tick_runs_def)

lemma runs_handoff: "tick_runs e A st (notifyOrchestratorOfFailedHandoff e m r st)"
  by (simp add: notifyOrchestratorOfFailedHandoff_def runs_notice runs_same)

lemma runs_stuck_notice: "tick_runs e A st (notifyOrchestratorOfStuckSession e b s ms n p st)"
  by (simp add: notifyOrchestratorOfStuckSession_def runs_notice runs_same split: option.split)

lemma runs_from: "rs_gate st0 = rs_gate st \<Longrightarrow> tick_runs e A st st' \<Longrightarrow> tick_runs e A st0 st'"
  by (simp add: tick_runs_def)

text \<open>The rest of the memory plays no part.\<close>

lemma runs_memory [simp]:
  "tick_runs e A st (forget_message i st') = tick_runs e A st st'" "tick_runs e A st (set_stuck a t st') = tick_runs e A st st'"
  "tick_runs e A (set_stuck a t st) st' = tick_runs e A st st'"
  "tick_runs e A st (st'\<lparr>rs_stamped := x\<rparr>) = tick_runs e A st st'" "tick_runs e A st (st'\<lparr>rs_failures := f\<rparr>) = tick_runs e A st st'"
  "tick_runs e A st (st'\<lparr>rs_trace := tr\<rparr>) = tick_runs e A st st'" "tick_runs e A st (st'\<lparr>rs_batched := x'\<rparr>) = tick_runs e A st st'"
  "tick_runs e A (st\<lparr>rs_stamped := x\<rparr>) st' = tick_runs e A st st'" "tick_runs e A (st\<lparr>rs_failures := f\<rparr>) st' = tick_runs e A st st'"
  "tick_runs e A st (st'\<lparr>rs_last_wakeup := w, rs_wakeups := ws\<rparr>) = tick_runs e A st st'"
  "tick_runs e A (st\<lparr>rs_injected := j, rs_registry := g\<rparr>) st' = tick_runs e A st st'"
  by (simp_all add: tick_runs_def forget_message_def set_stuck_def)

lemma runs_refl [simp]: "tick_runs e A st st"
  by (rule runs_same) simp

named_theorems router_runs

lemma runs_abandon [router_runs]: "tick_runs e {m_id m} st (abandon_local e m st)"
  unfolding abandon_local_def Let_def runs_memory by (rule runs_then [OF runs_on_db runs_handoff]) simp_all

lemma runs_absent [router_runs]: "tick_runs e {m_id m} st (wait_absent e m st)"
  by (simp add: wait_absent_def runs_on_db)

lemma runs_not_ready [router_runs]: "tick_runs e A st (wait_not_ready e pending m st)"
  by (simp add: wait_not_ready_def Let_def runs_stuck_notice split: option.split)

lemma runs_injected [router_runs]: "tick_runs e {m_id m} st (inject_done e m text trace st)"
proof -
  have "tick_runs e {m_id m} st' (on_db e (OpDeliver (m_id m)) st')" for st' by (rule runs_on_db) simp_all
  then have "tick_runs e {m_id m} st (on_db e (OpDeliver (m_id m)) (st\<lparr>rs_injected := j, rs_registry := g\<rparr>))" for j g
    by (metis runs_memory(11))
  then show ?thesis by (simp add: inject_done_def Let_def split: option.split)
qed

lemma runs_inject_failed [router_runs]: "tick_runs e {m_id m} st (inject_failed e m st)"
proof -
  let ?st = "st\<lparr>rs_failures := (rs_failures st)(m_id m := rs_failures st (m_id m) + 1)\<rparr>"
  have "tick_runs e {m_id m} ?st (on_db e (OpFailed (m_id m) r) ?st)" for r by (rule runs_on_db) simp_all
  then have "tick_runs e {m_id m} ?st (notifyOrchestratorOfFailedHandoff e m q (on_db e (OpFailed (m_id m) r) ?st))" for q r
    using runs_then runs_handoff by blast
  then show ?thesis by (simp add: inject_failed_def Let_def del: fun_upd_apply)
qed

lemma runs_trace: "effective_trace e m cat st = (t, st') \<Longrightarrow> tick_runs e {m_id m} st st'"
  by (auto simp: effective_trace_def stampTraceOnMessage_def Let_def runs_on_db split: if_splits option.splits)

lemma runs_ready [router_runs]: "tick_runs e {m_id m} st (deliver_ready e m st)"
proof (cases "classifyAgentMessage (re_trust (te_routing e)) (m_from m) (m_to m)")
  case None
  have "tick_runs e {m_id m} st' (on_db e (OpFailed (m_id m) r) st')" for r st' by (rule runs_on_db) simp_all
  from this [of "set_stuck (m_to m) None st"] None show ?thesis by (simp add: deliver_ready_def)
next
  case (Some c)
  let ?st = "set_stuck (m_to m) None st"
  obtain cat safeFrom where c: "c = (cat, safeFrom)" by (cases c)
  obtain trace st1 where t: "effective_trace e m cat ?st = (trace, st1)" by fastforce
  have st1: "tick_runs e {m_id m} st st1" using runs_trace [OF t] by simp
  have "tick_runs e {m_id m} st (inject_done e m x trace st1)" for x by (rule runs_then [OF st1 runs_injected])
  moreover have "tick_runs e {m_id m} st (inject_failed e m st1)" by (rule runs_then [OF st1 runs_inject_failed])
  ultimately show ?thesis using Some c t by (simp add: deliver_ready_def)
qed

lemma runs_local [router_runs]: "tick_runs e {m_id m} st (deliver_local e pending m st)"
proof -
  let ?st = "st\<lparr>rs_stamped := removeAll (m_id m) (rs_stamped st)\<rparr>"
  have "tick_runs e {m_id m} st' (on_db e (OpFailed (m_id m) r) st')" for r st' by (rule runs_on_db) simp_all
  from this [of ?st] runs_not_ready [of e "{m_id m}" ?st pending m] runs_ready [of e m ?st] runs_abandon runs_absent
  show ?thesis by (simp add: deliver_local_def Let_def split: option.split bool.split)
qed

lemma runs_fold: "(\<And>x st. x \<in> set xs \<Longrightarrow> tick_runs e A st (f x st)) \<Longrightarrow> tick_runs e A st (fold f xs st)"
proof (induction xs arbitrary: st)
  case (Cons x xs)
  have "tick_runs e A (f x st) (fold f xs (f x st))" using Cons.IH Cons.prems by simp
  from runs_then [OF _ this] Cons.prems show ?case by simp
qed simp

lemma runs_federated_end [router_runs]:
  "tick_runs e {m_id m} st (fail_federated e m error shown st)" "tick_runs e {m_id m} st (delivered_federated e m remote st)"
proof -
  have f: "tick_runs e {m_id m} st (on_db e (OpFederatedFailed (m_id m) error) st)" by (rule runs_on_db) simp_all
  then show "tick_runs e {m_id m} st (fail_federated e m error shown st)"
    using runs_then [OF f runs_notice] by (simp add: fail_federated_def notifyDelegationFailed_def Let_def)
  have d: "tick_runs e {m_id m} st (on_db e (OpDeliver (m_id m)) st)" by (rule runs_on_db) simp_all
  have "tick_runs e {m_id m} st' (on_db e (OpResult (m_id m) r) st')" for st' r by (rule runs_on_db) simp_all
  with d runs_then [OF d this] show "tick_runs e {m_id m} st (delivered_federated e m remote st)"
    by (simp add: delivered_federated_def Let_def split: option.split)
qed

lemma runs_federated: "m_id ` set ms \<subseteq> A \<Longrightarrow> tick_runs e A st (deliverFederatedBatch e ms attempts abandons st)"
proof (induction ms arbitrary: attempts abandons st)
  case (Cons m ms)
  then have sub: "{m_id m} \<subseteq> A" by simp
  have ih: "tick_runs e A st' (deliverFederatedBatch e ms i j st')" for st' i j using Cons by simp
  have then_ih: "tick_runs e {m_id m} st st' \<Longrightarrow> tick_runs e A st (deliverFederatedBatch e ms i j st')" for st' i j
    by (rule runs_then [OF runs_mono [OF _ sub] ih])
  show ?case
    by (cases "te_bridge e (m_id m)") (simp_all add: ih then_ih runs_federated_end)
qed simp

lemma gated_spec:
  assumes "gated e batch st = (kept, st')"
  shows "set kept \<subseteq> set batch" "subseq kept batch" "tick_runs e (m_id ` set batch) st st'"
    "getSenderRoutingMode (re_mode (te_routing e)) = RouteAudit \<Longrightarrow> kept = batch \<and> rs_db st' = rs_db st"
    "st' = st\<lparr>rs_gate := rs_gate st'\<rparr>"
proof -
  obtain g where g: "gateDeliveryBatch (te_routing e) (te_now e div 1000) batch (rs_gate st) = (kept, g)" "st' = st\<lparr>rs_gate := g\<rparr>"
    using assms by (auto simp: gated_def split: prod.splits)
  then show "st' = st\<lparr>rs_gate := rs_gate st'\<rparr>" by simp
  let ?mode = "getSenderRoutingMode (re_mode (te_routing e))"
  consider "kept = []" "g = rs_gate st" "batch = [] \<or> ?mode = RouteEnforce" | "kept = batch" "g = rs_gate st"
    | ctx where "judgeDeliveryBatch (te_routing e) ?mode ctx (te_now e div 1000) batch (rs_gate st) = (kept, g)"
  proof (cases "batch = []")
    case True
    with g(1) that(1) show ?thesis by (simp add: gateDeliveryBatch_def)
  next
    case False
    with g(1) that show ?thesis
      by (cases "buildRoutingContext (te_routing e)"; cases "?mode = RouteEnforce") (simp_all add: gateDeliveryBatch_def openDeliveryGate_def Let_def)
  qed
  then have "subseq kept batch \<and> tick_runs e (m_id ` set batch) st st' \<and> (?mode = RouteAudit \<longrightarrow> kept = batch \<and> rs_db st' = rs_db st)"
  proof cases
    case (3 ctx)
    let ?ops = "map snd (refusals (te_routing e) ?mode ctx (te_now e div 1000) batch)"
    note k = gate_spec [OF 3, of "te_store e"]
    have ops: "refusals (te_routing e) ?mode ctx (te_now e div 1000) batch = stamp_now e ?ops"
      by (simp add: refusals_def stamp_now_def comp_def)
    have "\<forall>op\<in>set ?ops. router_op op \<and> op_ids op \<subseteq> m_id ` set batch" by (auto simp: refusals_def)
    then have "tick_runs e (m_id ` set batch) st st'" using k ops g(2) unfolding tick_runs_def by (intro exI [of _ ?ops]) auto
    moreover have "?mode = RouteAudit \<longrightarrow> kept = batch \<and> rs_db st' = rs_db st"
      using k g(2) by (auto simp: denied_def refusals_def)
    ultimately show ?thesis using k by simp
  next
    case 1
    then have "rs_gate st' = rs_gate st" using g(2) by simp
    with 1 show ?thesis by (auto simp: runs_same)
  next
    case 2
    then have "rs_gate st' = rs_gate st" using g(2) by simp
    with 2 show ?thesis by (auto simp: runs_same)
  qed
  then show "subseq kept batch" "tick_runs e (m_id ` set batch) st st'" "?mode = RouteAudit \<Longrightarrow> kept = batch \<and> rs_db st' = rs_db st" by blast+
  then show "set kept \<subseteq> set batch" by (meson subseq_singleton_left subseq_order.trans subsetI)
qed

text \<open>What the table keeps through any of these steps.\<close>

definition all_kept :: "message_db \<Rightarrow> message_db \<Rightarrow> bool" where
  "all_kept db db' \<longleftrightarrow> (\<forall>r\<in>set (msgs db). \<exists>r'\<in>set (msgs db'). letter r' = letter r)"

lemma update_keeps:
  "(\<And>r. letter (f r) = letter r) \<Longrightarrow> all_kept db (snd (update_messages g f db))"
proof -
  assume f: "\<And>r. letter (f r) = letter r"
  have "\<exists>r'\<in>set (sql_update g f (msgs db)). letter r' = letter r" if "r \<in> set (msgs db)" for r
    using that f by (intro bexI [where x = "if g r then f r else r"]) (auto simp: set_sql_update)
  then show ?thesis by (simp add: all_kept_def update_messages_def)
qed

lemma all_kept_refl [simp]: "all_kept db db"
  by (auto simp: all_kept_def)

lemma all_kept_trans: "all_kept a b \<Longrightarrow> all_kept b c \<Longrightarrow> all_kept a c"
  unfolding all_kept_def by metis

lemma undelivered_keeps: "all_kept db (snd (closeMessagesWithoutDelivery is reason now db))"
proof (induction "is" arbitrary: db)
  case (Cons i "is")
  let ?db = "snd (update_messages (waiting i) (\<lambda>m. (deliver_row now m)\<lparr>m_result := Some (closed_note reason)\<rparr>) db)"
  have "all_kept db ?db" by (rule update_keeps) (simp add: letter_def deliver_row_def)
  from all_kept_trans [OF this Cons.IH] show ?case by (simp add: case_prod_beta)
qed simp

lemma op_keeps: "router_op op \<Longrightarrow> all_kept db (message_do e now op db)"
proof (cases op)
  case (OpClose i st res)
  have "all_kept db (snd (closeOpenMessage i st res now db))"
    unfolding closeOpenMessage_def by (rule update_keeps) (cases st; simp add: letter_def fail_row_def done_row_def refuse_row_def)
  with OpClose show ?thesis by simp
qed (auto simp: createAgentMessage_def insertTenantMessage_def insert_message_def op_defs Let_def undelivered_keeps letter_def
    deliver_row_def fail_row_def done_row_def refuse_row_def all_kept_def [of _ "\<lparr>msgs = _ @ _, last_id = _\<rparr>"] intro!: update_keeps)

lemma update_untouched: "r \<in> set (msgs db) \<Longrightarrow> \<not> g r \<Longrightarrow> r \<in> set (msgs (snd (update_messages g f db)))"
  unfolding update_messages_def by (auto simp: set_sql_update intro: bexI [where x = r])

lemma op_untouched: "router_op op \<Longrightarrow> r \<in> set (msgs db) \<Longrightarrow> m_id r \<notin> op_ids op \<Longrightarrow> r \<in> set (msgs (message_do e now op db))"
  by (cases op) (auto simp: createAgentMessage_def insert_message_def op_defs closeOpenMessage_def waiting_def open_row_def Let_def
      intro!: update_untouched)

lemma run_keeps:
  "(\<forall>op\<in>set ops. router_op op \<and> op_ids op \<subseteq> A) \<Longrightarrow>
     all_kept db (message_run se (stamp_now e ops) db) \<and> (r \<in> set (msgs db) \<and> m_id r \<notin> A \<longrightarrow> r \<in> set (msgs (message_run se (stamp_now e ops) db)))"
proof (induction ops arbitrary: db)
  case (Cons op ops)
  let ?db = "message_do se (te_now e div 1000) op db"
  have ih: "all_kept ?db (message_run se (stamp_now e ops) ?db)"
    "r \<in> set (msgs ?db) \<and> m_id r \<notin> A \<longrightarrow> r \<in> set (msgs (message_run se (stamp_now e ops) ?db))"
    using Cons by simp_all
  have "all_kept db ?db" using Cons.prems op_keeps by simp
  moreover have "r \<in> set (msgs ?db)" if "r \<in> set (msgs db)" "m_id r \<notin> A" using op_untouched [OF _ that(1)] Cons.prems that(2) by auto
  moreover have "message_run se (stamp_now e (op # ops)) db = message_run se (stamp_now e ops) ?db" by (simp add: stamp_now_def)
  ultimately show ?case using ih all_kept_trans by metis
qed (simp add: stamp_now_def)

lemma runs_facts:
  assumes "tick_runs e A st st'" and "ids_ok (rs_db st)"
  shows "ids_ok (rs_db st')" and "all_kept (rs_db st) (rs_db st')"
    and "\<And>r. r \<in> set (msgs (rs_db st)) \<Longrightarrow> m_id r \<notin> A \<Longrightarrow> r \<in> set (msgs (rs_db st'))"
proof -
  obtain ops where ops: "rs_db st' = message_run (te_store e) (stamp_now e ops) (rs_db st)" "\<forall>op\<in>set ops. router_op op \<and> op_ids op \<subseteq> A"
    using assms(1) unfolding tick_runs_def by blast
  then show "ids_ok (rs_db st')" using run_ids [OF assms(2)] by simp
  show "all_kept (rs_db st) (rs_db st')" using run_keeps [OF ops(2)] ops(1) by simp
  show "r \<in> set (msgs (rs_db st')) " if "r \<in> set (msgs (rs_db st))" "m_id r \<notin> A" for r
    using run_keeps [OF ops(2), of "rs_db st" "te_store e" e r] ops(1) that by simp
qed

section \<open>Injections of a tick\<close>

definition message_frame :: "tick_env \<Rightarrow> message \<Rightarrow> string" where
  "message_frame e m =
     (case classifyAgentMessage (re_trust (te_routing e)) (m_from m) (m_to m) of Some (cat, safeFrom) \<Rightarrow> frame_text e m cat safeFrom | None \<Rightarrow> [])"

definition injection :: "tick_env \<Rightarrow> message \<Rightarrow> nat \<times> string \<times> string" where
  "injection e m = (m_id m, session_of (m_to m), message_frame e m)"

definition injectable :: "tick_env \<Rightarrow> message \<Rightarrow> bool" where
  "injectable e m \<longleftrightarrow> m_to m \<noteq> te_main e \<and> te_session e (m_to m) = Some True \<and> te_ready e (m_id m) = Some True \<and> te_inject e (m_id m)
     \<and> classifyAgentMessage (re_trust (te_routing e)) (m_from m) (m_to m) \<noteq> None"

definition same_memory :: "router_state \<Rightarrow> router_state \<Rightarrow> bool" where
  "same_memory st st' \<longleftrightarrow> rs_injected st' = rs_injected st \<and> rs_wakeups st' = rs_wakeups st \<and> rs_last_wakeup st' = rs_last_wakeup st"

lemma memory_ready:
  "rs_wakeups (deliver_ready e m st) = rs_wakeups st \<and> rs_last_wakeup (deliver_ready e m st) = rs_last_wakeup st
   \<and> rs_injected (deliver_ready e m st) = rs_injected st @
       (if te_inject e (m_id m) \<and> classifyAgentMessage (re_trust (te_routing e)) (m_from m) (m_to m) \<noteq> None then [injection e m] else [])"
proof (cases "classifyAgentMessage (re_trust (te_routing e)) (m_from m) (m_to m)")
  case (Some c)
  obtain cat safeFrom where c: "c = (cat, safeFrom)" by (cases c)
  obtain trace st1 where t: "effective_trace e m cat (set_stuck (m_to m) None st) = (trace, st1)" by fastforce
  have st1: "rs_injected st1 = rs_injected st" "rs_wakeups st1 = rs_wakeups st" "rs_last_wakeup st1 = rs_last_wakeup st"
    using t by (auto simp: effective_trace_def stampTraceOnMessage_def Let_def split: if_splits option.splits)
  have "rs_wakeups (inject_done e m x tr st1) = rs_wakeups st1 \<and> rs_last_wakeup (inject_done e m x tr st1) = rs_last_wakeup st1
     \<and> rs_injected (inject_done e m x tr st1) = rs_injected st1 @ [(m_id m, session_of (m_to m), x)]" for x tr
    by (simp add: inject_done_def Let_def split: option.split)
  moreover have "rs_wakeups (inject_failed e m st1) = rs_wakeups st1 \<and> rs_last_wakeup (inject_failed e m st1) = rs_last_wakeup st1
     \<and> rs_injected (inject_failed e m st1) = rs_injected st1" by (simp add: inject_failed_def Let_def)
  ultimately show ?thesis using Some c t st1 by (simp add: deliver_ready_def injection_def message_frame_def)
qed (simp add: deliver_ready_def)

lemma memory_local:
  "rs_wakeups (deliver_local e pending m st) = rs_wakeups st \<and> rs_last_wakeup (deliver_local e pending m st) = rs_last_wakeup st
   \<and> rs_injected (deliver_local e pending m st) = rs_injected st @
       (if te_session e (m_to m) = Some True \<and> te_ready e (m_id m) = Some True \<and> te_inject e (m_id m)
          \<and> classifyAgentMessage (re_trust (te_routing e)) (m_from m) (m_to m) \<noteq> None then [injection e m] else [])"
  using memory_ready [of e m "st\<lparr>rs_stamped := removeAll (m_id m) (rs_stamped st)\<rparr>"]
  by (simp add: deliver_local_def Let_def abandon_local_def wait_absent_def wait_not_ready_def shouldAbandon_def split: option.split bool.split)

lemma route_spec:
  "fold (route_one e pending batched) ms (fired, st) = (fired', st') \<Longrightarrow>
     \<exists>js. subseq js ms \<and> list_all (injectable e) js \<and> rs_injected st' = rs_injected st @ map (injection e) js
       \<and> (rs_wakeups st' = rs_wakeups st \<and> rs_last_wakeup st' = rs_last_wakeup st
          \<or> \<not> fired \<and> rs_wakeups st' = rs_wakeups st @ [te_now e] \<and> te_now e - rs_last_wakeup st \<ge> MAIN_AGENT_WAKEUP_COOLDOWN_MS
             \<and> rs_last_wakeup st' = te_now e \<and> fired')
       \<and> (fired \<longrightarrow> fired')"
proof (induction ms arbitrary: fired st)
  case Nil
  then show ?case by (intro exI [of _ "[]"]) auto
next
  case (Cons m ms)
  obtain f1 s1 where one: "route_one e pending batched m (fired, st) = (f1, s1)" by fastforce
  with Cons.prems have "fold (route_one e pending batched) ms (f1, s1) = (fired', st')" by simp
  from Cons.IH [OF this] obtain js where js: "subseq js ms" "list_all (injectable e) js" "rs_injected st' = rs_injected s1 @ map (injection e) js"
    "rs_wakeups st' = rs_wakeups s1 \<and> rs_last_wakeup st' = rs_last_wakeup s1
      \<or> \<not> f1 \<and> rs_wakeups st' = rs_wakeups s1 @ [te_now e] \<and> te_now e - rs_last_wakeup s1 \<ge> MAIN_AGENT_WAKEUP_COOLDOWN_MS
         \<and> rs_last_wakeup st' = te_now e \<and> fired'" "f1 \<longrightarrow> fired'" by blast
  show ?case
  proof (cases "List.member batched (m_id m) \<or> m_to m = te_main e")
    case True
    then have "rs_injected s1 = rs_injected st" using one by (auto simp: route_one_def wake_main_def split: if_splits)
    moreover have "rs_wakeups s1 = rs_wakeups st \<and> rs_last_wakeup s1 = rs_last_wakeup st \<and> f1 = fired
       \<or> \<not> fired \<and> f1 \<and> rs_wakeups s1 = rs_wakeups st @ [te_now e] \<and> rs_last_wakeup s1 = te_now e
          \<and> te_now e - rs_last_wakeup st \<ge> MAIN_AGENT_WAKEUP_COOLDOWN_MS"
      using one True by (auto simp: route_one_def wake_main_def split: if_splits)
    ultimately show ?thesis using js by (intro exI [of _ js]) auto
  next
    case False
    then have s1: "s1 = deliver_local e pending m st" "f1 = fired" using one by (simp_all add: route_one_def)
    show ?thesis
    proof (cases "injectable e m")
      case True
      then have "rs_injected s1 = rs_injected st @ [injection e m]" using memory_local [of e pending m st] s1(1) by (simp add: injectable_def)
      with js s1 True memory_local [of e pending m st] show ?thesis by (intro exI [of _ "m # js"]) auto
    next
      case no: False
      then have "rs_injected s1 = rs_injected st" using False memory_local [of e pending m st] s1(1) by (auto simp: injectable_def)
      with js s1 memory_local [of e pending m st] show ?thesis by (intro exI [of _ js]) auto
    qed
  qed
qed

lemma memory_batch: "batchDeliverBacklog e a ms st = (ids, st') \<Longrightarrow> same_memory st st' \<and> set ids \<subseteq> m_id ` set ms \<and> tick_runs e (m_id ` set ms) st st'"
proof -
  assume b: "batchDeliverBacklog e a ms st = (ids, st')"
  let ?old = "filter (old_message e) ms" and ?f = "\<lambda>m. on_db e (OpDone (m_id m) (Some (''batched into backlog summary for '' @ a)))"
  have mem: "same_memory st (fold ?f xs st)" for xs by (induction xs arbitrary: st) (auto simp: same_memory_def)
  have "tick_runs e (m_id ` set ms) st (fold ?f ?old st)" by (rule runs_fold, rule runs_on_db) auto
  then have "tick_runs e (m_id ` set ms) st (send_notice e a x (fold ?f ?old st))" for x by (rule runs_then) (rule runs_notice)
  with b mem [of ?old] show ?thesis by (auto simp: batchDeliverBacklog_def Let_def same_memory_def split: if_splits)
qed

lemma only_gate: "s = st\<lparr>rs_gate := g\<rparr> \<Longrightarrow> same_memory st s \<and> rs_was_absent s = rs_was_absent st"
  by (simp add: same_memory_def)

lemma batch_absent: "batchDeliverBacklog e a ms st = (ids, st') \<Longrightarrow> rs_was_absent st' = rs_was_absent st"
proof -
  have "rs_was_absent (fold (\<lambda>m. on_db e (OpDone (m_id m) x)) xs st) = rs_was_absent st" for xs x
    by (induction xs arbitrary: st) (auto simp: on_db_def)
  then show "batchDeliverBacklog e a ms st = (ids, st') \<Longrightarrow> rs_was_absent st' = rs_was_absent st"
    by (auto simp: batchDeliverBacklog_def Let_def send_notice_def on_db_def split: if_splits)
qed

text \<open>The pre-pass: batched rows belong to agents that are back.\<close>

definition rows_of :: "string \<Rightarrow> router_state \<Rightarrow> nat set" where
  "rows_of a st = m_id ` {k \<in> set (msgs (rs_db st)). a = [] \<or> m_to k = a}"

lemma reconnect_spec:
  assumes "reconnect_one e a (batched, st) = (batched', st')"
  shows "same_memory st st' \<and> rs_was_absent st' = rs_was_absent st \<and> set batched' \<subseteq> set batched \<union> rows_of a st
    \<and> tick_runs e (rows_of a st) st st' \<and> (a \<notin> set (rs_was_absent st) \<longrightarrow> st' = st \<and> batched' = batched)"
proof (cases "a \<in> set (rs_was_absent st) \<and> a \<notin> set (rs_batched st)")
  case False
  with assms show ?thesis by (auto simp: reconnect_one_def List.member_iff same_memory_def)
next
  case True
  obtain kept st1 where g: "gated e (getPendingMessages (Some a) None (rs_db st)) st = (kept, st1)" by fastforce
  have sub: "m_id ` set (getPendingMessages (Some a) None (rs_db st)) \<subseteq> rows_of a st"
    by (auto simp: getPendingMessages_def rows_of_def)
  note gs = gated_spec [OF g]
  have r1: "tick_runs e (rows_of a st) st st1" by (rule runs_mono [OF gs(3) sub])
  have mem1: "same_memory st st1" "rs_was_absent st1 = rs_was_absent st" using only_gate [OF gs(5)] by simp_all
  show ?thesis
  proof (cases "length kept > RECONNECT_BATCH_THRESHOLD \<and> age_ms e (hd kept) > RECONNECT_BATCH_AGE_MS")
    case False
    then have "batched' = batched" "st' = st1" using assms True g by (auto simp: reconnect_one_def List.member_iff)
    with r1 mem1 True show ?thesis by simp
  next
    case long: True
    obtain ids st2 where b: "batchDeliverBacklog e a kept st1 = (ids, st2)" by fastforce
    with long assms True g have st': "batched' = batched @ ids" "st' = st2\<lparr>rs_batched := a # rs_batched st2\<rparr>"
      by (auto simp: reconnect_one_def List.member_iff)
    have ks: "m_id ` set kept \<subseteq> rows_of a st" using gs(1) sub by blast
    note bs = memory_batch [OF b]
    have "tick_runs e (rows_of a st) st1 st2" using bs runs_mono [OF _ ks] by blast
    with r1 have "tick_runs e (rows_of a st) st st'" using runs_then st'(2) by simp
    moreover have "rs_was_absent st2 = rs_was_absent st1" using b by (rule batch_absent)
    moreover have "set ids \<subseteq> rows_of a st" using bs ks by (meson subset_trans)
    ultimately show ?thesis using st' bs mem1 True by (auto simp: same_memory_def)
  qed
qed

lemma same_memory_trans: "same_memory a b \<Longrightarrow> same_memory b c \<Longrightarrow> same_memory a c"
  by (simp add: same_memory_def)

text \<open>A row that none of the returning agents owns comes through the pre-pass as it is.\<close>

lemma reconnects_spec:
  assumes "fold (reconnect_one e) as (batched, st) = (batched', st')"
  shows "same_memory st st' \<and> (\<exists>A. tick_runs e A st st')
    \<and> (ids_ok (rs_db st) \<and> r \<in> set (msgs (rs_db st)) \<and> m_to r \<notin> set as \<inter> set (rs_was_absent st) \<and> [] \<notin> set as \<inter> set (rs_was_absent st)
       \<and> m_id r \<notin> set batched \<longrightarrow> r \<in> set (msgs (rs_db st')) \<and> m_id r \<notin> set batched')"
  using assms
proof (induction as arbitrary: batched st)
  case Nil
  then show ?case by (auto simp: same_memory_def)
next
  case (Cons a as)
  obtain b1 s1 where one: "reconnect_one e a (batched, st) = (b1, s1)" by fastforce
  note sp = reconnect_spec [OF one]
  from Cons.prems one have rest: "fold (reconnect_one e) as (b1, s1) = (batched', st')" by simp
  note ih = Cons.IH [OF rest]
  have mem: "same_memory st st'" using sp ih same_memory_trans by blast
  have "\<exists>A. tick_runs e A st st'" using sp ih runs_trans by blast
  moreover have "r \<in> set (msgs (rs_db st')) \<and> m_id r \<notin> set batched'"
    if r: "ids_ok (rs_db st)" "r \<in> set (msgs (rs_db st))" "m_to r \<notin> set (a # as) \<inter> set (rs_was_absent st)"
      "[] \<notin> set (a # as) \<inter> set (rs_was_absent st)" "m_id r \<notin> set batched"
  proof -
    have ok1: "ids_ok (rs_db s1)" using runs_facts(1) [OF _ r(1)] sp by blast
    have "r \<in> set (msgs (rs_db s1)) \<and> m_id r \<notin> set b1"
    proof (cases "a \<in> set (rs_was_absent st)")
      case True
      then have a: "a \<noteq> []" "m_to r \<noteq> a" using r(3,4) by auto
      have "m_id r \<notin> rows_of a st" using a same_row [OF r(1) r(2)] by (auto simp: rows_of_def)
      with sp r(2,5) runs_facts(3) [OF _ r(1)] show ?thesis by blast
    qed (use sp r in auto)
    with ih ok1 r(3,4) sp show ?thesis by auto
  qed
  ultimately show ?case using mem by blast
qed

lemma memory_federated: "same_memory st (deliverFederatedBatch e ms attempts abandons st)"
proof (induction ms arbitrary: attempts abandons st)
  case (Cons m ms)
  have "same_memory st (fail_federated e m error shown st)" "same_memory st (delivered_federated e m remote st)" for error shown remote
    by (simp_all add: same_memory_def fail_federated_def notifyDelegationFailed_def delivered_federated_def Let_def split: option.split)
  with Cons.IH same_memory_trans have
    "same_memory st (deliverFederatedBatch e ms i j (fail_federated e m error shown st))"
    "same_memory st (deliverFederatedBatch e ms i j (delivered_federated e m remote st))" for i j error shown remote by blast+
  with Cons.IH show ?case by (simp split: bridge_result.split)
qed (simp add: same_memory_def)

lemma memory_marks: "same_memory st (fold mark_present ps (fold mark_absent as st)) \<and> rs_gate (fold mark_present ps (fold mark_absent as st)) = rs_gate st"
proof -
  have a: "same_memory st (fold mark_absent as st) \<and> rs_gate (fold mark_absent as st) = rs_gate st" for st
    by (induction as arbitrary: st) (auto simp: same_memory_def mark_absent_def set_stuck_def)
  have p: "same_memory st (fold mark_present ps st) \<and> rs_gate (fold mark_present ps st) = rs_gate st" for st
    by (induction ps arbitrary: st) (auto simp: same_memory_def mark_present_def)
  from a [of st] p [of "fold mark_absent as st"] same_memory_trans show ?thesis by auto
qed

text \<open>A tick, taken apart once.\<close>

lemma tick_parts:
  obtains kept st1 where "gated e (take MAX_MESSAGES_PER_TICK (local_rows (rs_db st))) st = (kept, st1)"
    "list_ex (\<lambda>a. te_session e a = None) (receivers e kept)" "runMessageRouterTick e st = st1"
  | kept st1 present batched st2 st3 st4 fired where
    "gated e (take MAX_MESSAGES_PER_TICK (local_rows (rs_db st))) st = (kept, st1)"
    "present = filter (\<lambda>a. te_session e a = Some True) (receivers e kept)"
    "fold (reconnect_one e) present ([], st1) = (batched, st2)" "same_memory st2 st3" "rs_gate st3 = rs_gate st2"
    "st4 = deliverFederatedBatch e (federated_rows (rs_db st)) 0 0 st3"
    "fold (route_one e kept batched) kept (False, st4) = (fired, runMessageRouterTick e st)"
proof -
  obtain kept st1 where g: "gated e (take MAX_MESSAGES_PER_TICK (local_rows (rs_db st))) st = (kept, st1)" by fastforce
  let ?present = "filter (\<lambda>a. te_session e a = Some True) (receivers e kept)"
  let ?absent = "filter (\<lambda>a. te_session e a = Some False) (receivers e kept)"
  obtain batched st2 where r: "fold (reconnect_one e) ?present ([], st1) = (batched, st2)" by fastforce
  let ?st3 = "fold mark_present ?present (fold mark_absent ?absent st2)"
  show thesis
  proof (cases "list_ex (\<lambda>a. te_session e a = None) (receivers e kept)")
    case True
    with g that(1) [OF g] show ?thesis by (simp add: runMessageRouterTick_def)
  next
    case False
    let ?st4 = "deliverFederatedBatch e (federated_rows (rs_db st)) 0 0 ?st3"
    have "runMessageRouterTick e st = snd (fold (route_one e kept batched) kept (False, ?st4))"
      using g r False by (simp add: runMessageRouterTick_def Let_def)
    then have "fold (route_one e kept batched) kept (False, ?st4) = (fst (fold (route_one e kept batched) kept (False, ?st4)), runMessageRouterTick e st)"
      by simp
    from that(2) [OF g refl r _ _ refl this] memory_marks [of st2 ?present ?absent] show ?thesis by blast
  qed
qed

lemma tick_injections:
  "\<exists>js. subseq js (take 25 (local_rows (rs_db st))) \<and> list_all (injectable e) js
     \<and> rs_injected (runMessageRouterTick e st) = rs_injected st @ map (injection e) js
     \<and> (rs_wakeups (runMessageRouterTick e st) = rs_wakeups st
        \<or> rs_wakeups (runMessageRouterTick e st) = rs_wakeups st @ [te_now e] \<and> te_now e - rs_last_wakeup st \<ge> 45000
           \<and> rs_last_wakeup (runMessageRouterTick e st) = te_now e)"
proof (cases rule: tick_parts [of e st])
  case (1 kept st1)
  have "same_memory st st1" using only_gate [OF gated_spec(5) [OF 1(1)]] by simp
  with 1 show ?thesis by (intro exI [of _ "[]"]) (simp add: same_memory_def)
next
  case (2 kept st1 present batched st2 st3 st4 fired)
  have "same_memory st st1" using only_gate [OF gated_spec(5) [OF 2(1)]] by simp
  moreover have "same_memory st1 st2" using reconnects_spec [OF 2(3)] by blast
  moreover have "same_memory st3 st4" unfolding 2(6) by (rule memory_federated)
  ultimately have mem: "same_memory st st4" using 2(4) same_memory_trans by blast
  from route_spec [OF 2(7)] obtain js where js: "subseq js kept" "list_all (injectable e) js"
    "rs_injected (runMessageRouterTick e st) = rs_injected st4 @ map (injection e) js"
    "rs_wakeups (runMessageRouterTick e st) = rs_wakeups st4
      \<or> rs_wakeups (runMessageRouterTick e st) = rs_wakeups st4 @ [te_now e] \<and> te_now e - rs_last_wakeup st4 \<ge> MAIN_AGENT_WAKEUP_COOLDOWN_MS
         \<and> rs_last_wakeup (runMessageRouterTick e st) = te_now e" by blast
  have "subseq js (take 25 (local_rows (rs_db st)))"
    using subseq_order.trans [OF js(1) gated_spec(2) [OF 2(1)]] by (simp add: MAX_MESSAGES_PER_TICK_def)
  with js mem show ?thesis by (intro exI [of _ js]) (auto simp: same_memory_def MAIN_AGENT_WAKEUP_COOLDOWN_MS_def)
qed

section \<open>Properties\<close>

text \<open>
  C15: the router injects only what it may. A tick injects, in the order of the queue, some of the first 25 waiting local
  messages, each into the session of its recipient, which is there and ready and is not the main agent, each
  under the frame of its sender's class; and it wakes the main agent at most once, and not within 45 seconds of
  the last time.
\<close>

theorem tick_injections_sound:
  "\<exists>js. subseq js (take 25 (local_rows (rs_db st))) \<and> list_all (injectable e) js
     \<and> rs_injected (runMessageRouterTick e st) = rs_injected st @ map (injection e) js
     \<and> (rs_wakeups (runMessageRouterTick e st) = rs_wakeups st
        \<or> rs_wakeups (runMessageRouterTick e st) = rs_wakeups st @ [te_now e] \<and> te_now e - rs_last_wakeup st \<ge> 45000
           \<and> rs_last_wakeup (runMessageRouterTick e st) = te_now e)"
  by (rule tick_injections)

text \<open>The rule as it is enforced lets a message pass, or does not judge it.\<close>

definition rule_lets_pass :: "routing_env \<Rightarrow> message \<Rightarrow> bool" where
  "rule_lets_pass e m \<longleftrightarrow> (case buildRoutingContext e of
     Some ctx \<Rightarrow> getSenderRoutingMode (re_mode e) = RouteAudit \<or> delivery_verdict e ctx m = Allow | None \<Rightarrow> True)"

lemma gated_keeps:
  assumes g: "gated e batch st = (kept, st')" and m: "m \<in> set (msgs (rs_db st))" "rule_lets_pass (te_routing e) m"
    and one: "\<forall>k\<in>set batch. m_id k = m_id m \<longrightarrow> k = m"
  shows "m \<in> set (msgs (rs_db st'))"
proof (cases "buildRoutingContext (te_routing e)")
  case None
  then have "rs_gate st' = rs_gate st"
    using g by (auto simp: gated_def gateDeliveryBatch_def openDeliveryGate_def Let_def split: if_splits)
  then show ?thesis using m(1) by simp
next
  case (Some ctx)
  let ?mode = "getSenderRoutingMode (re_mode (te_routing e))"
  obtain h where h: "judgeDeliveryBatch (te_routing e) ?mode ctx (te_now e div 1000) batch (rs_gate st) = (kept, h)" "rs_gate st' = h"
    using g Some by (cases "batch = []") (auto simp: gated_def gateDeliveryBatch_def openDeliveryGate_def Let_def split: prod.splits)
  have "\<not> denied ?mode (delivery_verdict (te_routing e) ctx m)" using m(2) Some by (auto simp: rule_lets_pass_def denied_def)
  then have "\<forall>k\<in>set batch. shuts (te_routing e) ?mode ctx k \<longrightarrow> m_id k \<noteq> m_id m" using one by auto
  then have "m \<in> set (msgs (message_run demo_store_env (refusals (te_routing e) ?mode ctx (te_now e div 1000) batch) (rs_db st)))"
    using refusals_keep [OF m(1)] by blast
  then show ?thesis using gate_spec [OF h(1), of demo_store_env] h(2) by simp
qed

text \<open>
  C16: mail for a live session is never given up. While the session of a local agent other than the main one is there but
  busy, a tick leaves a message waiting for it exactly as it is, whatever its age and whatever else the tick delivers, fails
  or forwards - unless the enforced routing rule refuses that very message, or the session has just come back after the
  router had seen it absent, which makes the router hand over its backlog at once.
\<close>

theorem live_session_keeps_its_mail:
  assumes "ids_ok (rs_db st)" and "m \<in> set (msgs (rs_db st))" and "\<not> isQualifiedId (m_to m)" and "m_to m \<noteq> te_main e"
    and "te_session e (m_to m) = Some True" and "te_ready e (m_id m) = Some False"
    and "rule_lets_pass (te_routing e) m"
    and "m_to m \<notin> set (rs_was_absent st)" and "[] \<notin> set (rs_was_absent st)"
  shows "m \<in> set (msgs (rs_db (runMessageRouterTick e st)))"
proof -
  let ?batch = "take MAX_MESSAGES_PER_TICK (local_rows (rs_db st))"
  have batch: "set ?batch \<subseteq> set (msgs (rs_db st))"
    using set_take_subset [of MAX_MESSAGES_PER_TICK "local_rows (rs_db st)"] by (auto simp: local_rows_def getPendingMessages_def)
  have one: "\<forall>k\<in>set ?batch. m_id k = m_id m \<longrightarrow> k = m" using batch same_row [OF assms(1) _ assms(2)] by blast
  show ?thesis
proof (cases rule: tick_parts [of e st])
  case (1 kept st1)
  from gated_keeps [OF 1(1) assms(2,7) one] show ?thesis using 1 by simp
next
  case (2 kept st1 present batched st2 st3 st4 fired)
  have m1: "m \<in> set (msgs (rs_db st1))" by (rule gated_keeps [OF 2(1) assms(2,7) one])
  have ids1: "ids_ok (rs_db st1)" by (rule runs_facts(1) [OF gated_spec(3) [OF 2(1)] assms(1)])
  note g = m1 ids1 only_gate [OF gated_spec(5) [OF 2(1)]]
  have "m \<in> set (msgs (rs_db st2)) \<and> ids_ok (rs_db st2)"
    using reconnects_spec [OF 2(3), of m] g assms(8,9) runs_facts(1) by fastforce
  then have m3: "m \<in> set (msgs (rs_db st3))" "ids_ok (rs_db st3)" using 2(5) by simp_all
  have "m_id m \<notin> m_id ` set (federated_rows (rs_db st))"
    using same_row [OF assms(1,2)] assms(3) by (auto simp: federated_rows_def getPendingMessages_def)
  note f = runs_facts [OF runs_federated [OF subset_refl, where ms = "federated_rows (rs_db st)" and e = e and st = st3 and attempts = 0 and abandons = 0] m3(2)]
  have m4: "m \<in> set (msgs (rs_db st4))" "ids_ok (rs_db st4)"
    using f(1,3) m3(1) \<open>m_id m \<notin> m_id ` set (federated_rows (rs_db st))\<close> 2(6) by auto
  have kept: "set kept \<subseteq> set (msgs (rs_db st))"
    using gated_spec(1) [OF 2(1)] set_take_subset [of MAX_MESSAGES_PER_TICK "local_rows (rs_db st)"]
    by (auto simp: local_rows_def getPendingMessages_def)
  have "m \<in> set (msgs (rs_db s')) \<and> ids_ok (rs_db s')"
    if "set ks \<subseteq> set kept" "m \<in> set (msgs (rs_db s))" "ids_ok (rs_db s)" "fold (route_one e kept batched) ks (f, s) = (f', s')" for ks s s' f f'
    using that
  proof (induction ks arbitrary: f s)
    case (Cons k ks)
    obtain f1 s1 where one: "route_one e kept batched k (f, s) = (f1, s1)" by fastforce
    have "m \<in> set (msgs (rs_db s1)) \<and> ids_ok (rs_db s1)"
    proof (cases "List.member batched (m_id k) \<or> m_to k = te_main e")
      case True
      then have "rs_gate s1 = rs_gate s" using one by (auto simp: route_one_def wake_main_def split: if_splits)
      with Cons.prems show ?thesis by simp
    next
      case False
      then have s1: "s1 = deliver_local e kept k s" using one by (simp add: route_one_def)
      show ?thesis
      proof (cases "m_id k = m_id m")
        case True
        then have "k = m" using same_row [OF assms(1) _ assms(2)] Cons.prems(1) kept by auto
        then have "tick_runs e {} s s1"
          using runs_not_ready [of e "{}" "s\<lparr>rs_stamped := removeAll (m_id m) (rs_stamped s)\<rparr>" kept m] assms(5,6)
          by (simp add: s1 deliver_local_def shouldAbandon_def)
        with Cons.prems runs_facts show ?thesis by blast
      next
        case False
        then show ?thesis unfolding s1
          using runs_facts(1) [OF runs_local Cons.prems(3)] runs_facts(3) [OF runs_local Cons.prems(3,2)] by simp
      qed
    qed
    then show ?case using Cons.IH [of s1 f1] Cons.prems(1,4) one by simp
  qed simp
  from this [OF subset_refl m4 2(7)] show ?thesis by simp
qed
qed

text \<open>
  mail the router cannot deliver can hold up everybody's. While the first 25 waiting local messages are for the main
  agent, which reads only when it takes a turn, or for sessions that are busy, a tick injects nothing at all, for
  any agent, however ready its session and however long it has waited.
\<close>

theorem full_slice_starves_the_rest:
  assumes "list_all (\<lambda>m. m_to m = te_main e \<or> te_ready e (m_id m) = Some False) (take 25 (local_rows (rs_db st)))"
  shows "rs_injected (runMessageRouterTick e st) = rs_injected st"
proof -
  obtain js where js: "subseq js (take 25 (local_rows (rs_db st)))" "list_all (injectable e) js"
    "rs_injected (runMessageRouterTick e st) = rs_injected st @ map (injection e) js" using tick_injections by blast
  have "set js \<subseteq> set (take 25 (local_rows (rs_db st)))" using js(1) by (meson subseq_singleton_left subseq_order.trans subsetI)
  then have "js = []" using assms js(2) by (cases js) (auto simp: list_all_iff injectable_def)
  with js(3) show ?thesis by simp
qed

text \<open>A notice is always stored.\<close>

lemma notice_stored: "\<exists>n\<in>set (msgs (rs_db (send_notice e a text st))). m_from n = SERVER_SENDER \<and> m_to n = a \<and> m_content n = text \<and> m_status n = Unread"
  by (simp add: send_notice_def on_db_def createAgentMessage_def assertNoReservedMarker_def isServerSender_def insert_message_def
      message_of_def blank_message_def Let_def)

lemma notice_keeps: "r \<in> set (msgs (rs_db st)) \<Longrightarrow> r \<in> set (msgs (rs_db (send_notice e a text st)))"
  by (simp add: send_notice_def on_db_def createAgentMessage_def assertNoReservedMarker_def isServerSender_def insert_message_def Let_def)

lemma failed_and_told:
  fixes reason res :: string
  assumes "m_id r = m_id m" and "r \<in> set (msgs (rs_db st))" and "m_to m \<noteq> te_main e"
  defines "st' \<equiv> notifyOrchestratorOfFailedHandoff e m reason (on_db e (OpFailed (m_id m) (Some res)) st)"
  shows "\<exists>n\<in>set (msgs (rs_db st')). m_from n = SERVER_SENDER \<and> m_to n = te_main e \<and> m_content n = handoff_notice m reason"
    and "fail_row (te_now e div 1000) (Some res) r \<in> set (msgs (rs_db st'))"
proof -
  have st': "st' = send_notice e (te_main e) (handoff_notice m reason) (on_db e (OpFailed (m_id m) (Some res)) st)"
    using assms(3) by (simp add: st'_def notifyOrchestratorOfFailedHandoff_def)
  show "\<exists>n\<in>set (msgs (rs_db st')). m_from n = SERVER_SENDER \<and> m_to n = te_main e \<and> m_content n = handoff_notice m reason"
    unfolding st' using notice_stored by blast
  have "fail_row (te_now e div 1000) (Some res) r \<in> set (msgs (rs_db (on_db e (OpFailed (m_id m) (Some res)) st)))"
    using assms(1,2) by (auto simp: on_db_def markMessageFailed_def update_messages_def set_sql_update intro!: bexI [where x = r])
  then show "fail_row (te_now e div 1000) (Some res) r \<in> set (msgs (rs_db st'))" unfolding st' by (rule notice_keeps)
qed

text \<open>
  C17: a failed handoff is not silent. When a message waited an hour for a session that is not there, or its injection into
  a ready session failed for the third time in a row, the step that handles it closes the row as failed and puts a
  notice naming the message, its sender, its recipient and the reason into the main agent's inbox.
\<close>

theorem failed_handoff_is_told:
  assumes "r \<in> set (msgs (rs_db st))" and "m_id r = m_id m" and "m_to m \<noteq> te_main e" and "ids_ok (rs_db st)"
    and "te_session e (m_to m) \<noteq> Some True \<and> age_ms e m > 3600000
      \<or> te_session e (m_to m) = Some True \<and> te_ready e (m_id m) = Some True \<and> te_inject e (m_id m) = False
         \<and> classifyAgentMessage (re_trust (te_routing e)) (m_from m) (m_to m) \<noteq> None \<and> 2 \<le> rs_failures st (m_id m)"
  shows "(\<exists>n\<in>set (msgs (rs_db (deliver_local e pending m st))).
      m_from n = SERVER_SENDER \<and> m_to n = te_main e \<and> (\<exists>reason. m_content n = handoff_notice m reason))
    \<and> (\<exists>r'\<in>set (msgs (rs_db (deliver_local e pending m st))). m_id r' = m_id m \<and> m_status r' = Failed)"
  using assms(5)
proof
  assume a: "te_session e (m_to m) \<noteq> Some True \<and> age_ms e m > 3600000"
  then have "deliver_local e pending m st = abandon_local e m st"
    by (simp add: deliver_local_def shouldAbandon_def MESSAGE_ABANDON_WINDOW_MS_def)
  then have "rs_gate (deliver_local e pending m st) = rs_gate (notifyOrchestratorOfFailedHandoff e m
      ''target session was absent for the entire retry window'' (on_db e (OpFailed (m_id m) (Some ABANDONED_REASON)) st))"
    by (simp add: abandon_local_def Let_def forget_message_def)
  with failed_and_told [OF assms(2,1,3), where reason = "''target session was absent for the entire retry window''" and res = ABANDONED_REASON]
  show ?thesis using assms(2) by (auto simp: fail_row_def intro: bexI [rotated])
next
  assume b: "te_session e (m_to m) = Some True \<and> te_ready e (m_id m) = Some True \<and> te_inject e (m_id m) = False
         \<and> classifyAgentMessage (re_trust (te_routing e)) (m_from m) (m_to m) \<noteq> None \<and> 2 \<le> rs_failures st (m_id m)"
  let ?st = "set_stuck (m_to m) None (st\<lparr>rs_stamped := removeAll (m_id m) (rs_stamped st)\<rparr>)"
  obtain cat safeFrom where c: "classifyAgentMessage (re_trust (te_routing e)) (m_from m) (m_to m) = Some (cat, safeFrom)" using b by auto
  obtain trace st1 where t: "effective_trace e m cat ?st = (trace, st1)" by fastforce
  have "deliver_local e pending m st = inject_failed e m st1"
    using b c t by (simp add: deliver_local_def deliver_ready_def shouldAbandon_def)
  moreover have f1: "rs_failures st1 = rs_failures st"
    using t by (auto simp: effective_trace_def stampTraceOnMessage_def Let_def set_stuck_def split: if_splits option.splits)
  moreover define n where "n = rs_failures st (m_id m) + 1"
  ultimately have d: "rs_gate (deliver_local e pending m st) = rs_gate (notifyOrchestratorOfFailedHandoff e m (''tmux inject failed '' @ show_nat n @ ''x'')
      (on_db e (OpFailed (m_id m) (Some (inject_reason n))) (st1\<lparr>rs_failures := (rs_failures st1)(m_id m := n)\<rparr>)))"
    using b by (simp add: inject_failed_def shouldGiveUpOnInject_def MAX_INJECT_FAILURES_def Let_def forget_message_def del: show_nat.simps)
  have "all_kept (rs_db st) (rs_db st1)"
    using runs_facts(2) [OF _ assms(4)] runs_trace [OF t] by simp
  then obtain q where q: "q \<in> set (msgs (rs_db st1))" "m_id q = m_id m" using assms(1,2) by (auto simp: all_kept_def letter_def)
  then have "q \<in> set (msgs (rs_db (st1\<lparr>rs_failures := (rs_failures st1)(m_id m := n)\<rparr>)))" by simp
  from failed_and_told [OF q(2) this assms(3), where reason = "''tmux inject failed '' @ show_nat n @ ''x''" and res = "inject_reason n"] d q(2)
  show ?thesis by (auto simp: fail_row_def intro: bexI [rotated])
qed

section \<open>Instances\<close>

definition demo_tick :: "(string \<Rightarrow> bool option) \<Rightarrow> (nat \<Rightarrow> bool option) \<Rightarrow> int \<Rightarrow> tick_env" where
  "demo_tick session rdy now = \<lparr>te_store = demo_store_env, te_routing = demo_routing\<lparr>re_mode := None\<rparr>, te_now = now, te_session = session,
     te_ready = rdy, te_pane = (\<lambda>_. None), te_janitor = (\<lambda>_. False), te_inject = (\<lambda>_. False), te_bridge = (\<lambda>_. BridgeSkipped),
     te_peer_window = (\<lambda>_. 3600000), te_new_trace = (\<lambda>_. (''t'', ''s'')), te_inbound = m_content, te_nonce = (\<lambda>_. []),
     te_error = (\<lambda>_. []), te_iso = (\<lambda>_. [])\<rparr>"

definition demo_router :: "message_db \<Rightarrow> router_state" where
  "demo_router db = \<lparr>rs_gate = \<lparr>gs_db = db, gs_audited = [], gs_log = []\<rparr>, rs_failures = (\<lambda>_. 2), rs_stamped = [], rs_was_absent = [],
     rs_batched = [], rs_stuck = (\<lambda>_. None), rs_last_wakeup = 0, rs_trace = (\<lambda>_. None), rs_registry = (\<lambda>_. []), rs_injected = [],
     rs_wakeups = []\<rparr>"

lemmas demo_tick_defs = demo_tick_def demo_router_def demo_routing_def demo_trust_def demo_letter_def blank_message_def demo_messages_def

theorem live_session_keeps_its_mail_witness:
  "demo_letter 1 7 \<in> set (msgs (rs_db (runMessageRouterTick (demo_tick (\<lambda>_. Some True) (\<lambda>_. Some False) 9000000) (demo_router demo_messages))))"
  by (rule live_session_keeps_its_mail) (simp_all add: demo_tick_defs getSenderRoutingMode_def isQualifiedId_def List.member_iff
      ids_ok_def rule_lets_pass_def split: option.split)

definition full_inbox :: message_db where
  "full_inbox = \<lparr>msgs = map (\<lambda>i. (demo_letter i (int i))\<lparr>m_to := ''marveen''\<rparr>) [1..<26] @ [demo_letter 26 26], last_id = 26\<rparr>"

theorem full_slice_starves_the_rest_witness:
  "rs_injected (runMessageRouterTick (demo_tick (\<lambda>_. Some True) (\<lambda>_. Some True) 9000000) (demo_router full_inbox)) = []
   \<and> demo_letter 26 26 \<in> set (local_rows full_inbox)"
proof -
  have f: "filter (\<lambda>m. m_status m = Unread \<and> tenant_ok None m \<and> True) (msgs full_inbox) = msgs full_inbox"
    by (auto simp: filter_id_conv full_inbox_def demo_letter_def blank_message_def tenant_ok_def)
  have "sorted (map m_created (msgs full_inbox))"
    by (auto simp: full_inbox_def demo_letter_def blank_message_def comp_def sorted_append sorted_map sorted_wrt_map
        intro: sorted_wrt_mono_rel [OF _ sorted_wrt_upt])
  then have l: "local_rows full_inbox = msgs full_inbox"
    using f by (simp add: local_rows_def getPendingMessages_def sort_key_id_if_sorted)
      (auto simp: filter_id_conv full_inbox_def demo_letter_def blank_message_def isQualifiedId_def List.member_iff)
  have "list_all (\<lambda>m. m_to m = ''marveen'' \<or> False) (take 25 (msgs full_inbox))"
    by (simp add: full_inbox_def list_all_iff)
  then have "list_all (\<lambda>m. m_to m = te_main (demo_tick (\<lambda>_. Some True) (\<lambda>_. Some True) 9000000) \<or>
      te_ready (demo_tick (\<lambda>_. Some True) (\<lambda>_. Some True) 9000000) (m_id m) = Some False) (take 25 (local_rows (rs_db (demo_router full_inbox))))"
    by (simp add: l demo_tick_def demo_router_def demo_routing_def demo_trust_def)
  from full_slice_starves_the_rest [OF this] l show ?thesis by (simp add: demo_router_def full_inbox_def)
qed

theorem failed_handoff_is_told_witness:
  "\<exists>n\<in>set (msgs (rs_db (deliver_local (demo_tick (\<lambda>_. Some True) (\<lambda>_. Some True) 9000000) [] (demo_letter 1 7) (demo_router demo_messages)))).
     m_from n = SERVER_SENDER \<and> m_to n = ''marveen''"
proof -
  let ?e = "demo_tick (\<lambda>_. Some True) (\<lambda>_. Some True) 9000000" and ?st = "demo_router demo_messages"
  have c: "classifyAgentMessage (re_trust (te_routing ?e)) (m_from (demo_letter 1 7)) (m_to (demo_letter 1 7)) \<noteq> None"
    by (simp add: demo_tick_defs classifyAgentMessage_def sanitizeAgentIdent_def ident_char_def is_word_def is_digit_def code_def Let_def)
  have "demo_letter 1 7 \<in> set (msgs (rs_db ?st))" "ids_ok (rs_db ?st)" using demo_ids by (simp_all add: demo_router_def demo_messages_def)
  from failed_handoff_is_told [OF this(1) refl _ this(2), of ?e] c show ?thesis
    by (auto simp: demo_tick_def demo_router_def demo_letter_def blank_message_def demo_routing_def demo_trust_def)
qed

end
