(* ===== verification/Blackboard.thy ===== *)
theory Blackboard
  imports SenderRouting ApprovalRules SqlTable
begin

text \<open>
  The fleet blackboard: one row per agent, the history of its changes and the plan bindings that go with it. The
  statements are those of \<open>src/db/agents.ts\<close> and \<open>src/db/claude-plans.ts\<close>, the endpoints \<open>src/web/routes/blackboard.ts\<close>
  and the sweep \<open>src/web/blackboard-stale-sweeper.ts\<close>. Times are seconds. \<open>None\<close> is a statement that throws (a broken
  constraint); the audit log and the trace columns are left out.
\<close>

section \<open>Tables\<close>

datatype board_status = BoardActive | BoardDone | BoardBlocked | BoardStale | BoardAssigned

record board_row =
  bb_id :: string
  bb_agent :: string
  bb_task :: "string option"
  bb_status :: board_status
  bb_summary :: string
  bb_updated :: int
  bb_tenant :: string
  bb_by :: "string option"
  bb_reason :: "string option"

record board_event =
  be_agent :: string
  be_task :: "string option"
  be_status :: board_status
  be_summary :: string
  be_at :: int
  be_tenant :: string
  be_by :: "string option"
  be_reason :: "string option"
  be_resolved :: "string option"

record plan_binding =
  pb_agent :: string
  pb_plan :: string
  pb_activated :: int
  pb_heartbeat :: int

record board =
  bb_rows :: "board_row list"
  bb_history :: "board_event list"
  bb_plans :: "plan_binding list"

definition MULTI_TENANT :: string where "MULTI_TENANT = ''_multi_''"
definition SUMMARY_MAX :: nat where "SUMMARY_MAX = 500"

text \<open>The tenant of an agent, by the availability matrix.\<close>

definition resolveAgentTenant :: "tenant_db \<Rightarrow> string \<Rightarrow> string" where
  "resolveAgentTenant td a =
     (case filter (\<lambda>(t, b, on). b = a \<and> on) (availability td) of
        [] \<Rightarrow> UNBOUND_SOURCE_TENANT | [(t, _)] \<Rightarrow> t | _ \<Rightarrow> MULTI_TENANT)"

section \<open>Plan bindings\<close>

text \<open>\<open>None\<close> when the plan is not registered.\<close>

definition activatePlanForAgent :: "string list \<Rightarrow> int \<Rightarrow> string \<Rightarrow> string \<Rightarrow> board \<Rightarrow> board option" where
  "activatePlanForAgent registry now a plan b =
     (if List.member registry plan
      then Some (b\<lparr>bb_plans := filter (\<lambda>p. pb_agent p \<noteq> a) (bb_plans b)
                     @ [\<lparr>pb_agent = a, pb_plan = plan, pb_activated = now, pb_heartbeat = now\<rparr>]\<rparr>)
      else None)"

definition deactivatePlanForAgent :: "string \<Rightarrow> board \<Rightarrow> board" where
  "deactivatePlanForAgent a b = b\<lparr>bb_plans := filter (\<lambda>p. pb_agent p \<noteq> a) (bb_plans b)\<rparr>"

definition touchActivePlanHeartbeat :: "int \<Rightarrow> string \<Rightarrow> board \<Rightarrow> board" where
  "touchActivePlanHeartbeat now a b = b\<lparr>bb_plans := sql_update (\<lambda>p. pb_agent p = a) (\<lambda>p. p\<lparr>pb_heartbeat := now\<rparr>) (bb_plans b)\<rparr>"

definition sweepStaleActivePlans :: "int \<Rightarrow> int \<Rightarrow> board \<Rightarrow> board" where
  "sweepStaleActivePlans ttlMin now b = b\<lparr>bb_plans := filter (\<lambda>p. \<not> pb_heartbeat p < now - ttlMin * 60) (bb_plans b)\<rparr>"

section \<open>Writing a row\<close>

definition findBlackboardRowByAgent :: "string \<Rightarrow> board \<Rightarrow> board_row option" where
  "findBlackboardRowByAgent a b = find (\<lambda>r. bb_agent r = a) (bb_rows b)"

definition getBlackboardRowById :: "string \<Rightarrow> board \<Rightarrow> board_row option" where
  "getBlackboardRowById i b = find (\<lambda>r. bb_id r = i) (bb_rows b)"

definition insertBlackboardHistory :: "tenant_db \<Rightarrow> int \<Rightarrow> board_row \<Rightarrow> string option \<Rightarrow> board \<Rightarrow> board" where
  "insertBlackboardHistory td now r resolved b =
     b\<lparr>bb_history := bb_history b @ [\<lparr>be_agent = bb_agent r, be_task = bb_task r, be_status = bb_status r, be_summary = bb_summary r,
       be_at = now, be_tenant = resolveAgentTenant td (bb_agent r), be_by = bb_by r, be_reason = bb_reason r, be_resolved = resolved\<rparr>]\<rparr>"

text \<open>What a write compares, and when it goes to the history.\<close>

definition bb_state :: "board_row \<Rightarrow> board_status \<times> string \<times> string option \<times> string option \<times> string option" where
  "bb_state r = (bb_status r, bb_summary r, bb_task r, bb_by r, bb_reason r)"

definition record_change :: "tenant_db \<Rightarrow> int \<Rightarrow> board_row option \<Rightarrow> board_row \<Rightarrow> string option \<Rightarrow> board \<Rightarrow> board" where
  "record_change td now old r resolved b =
     (if map_option bb_state old = Some (bb_state r) then b
      else insertBlackboardHistory td now r
             (if map_option bb_status old = Some BoardBlocked \<and> bb_status r \<noteq> BoardBlocked then resolved else None) b)"

text \<open>A changed row that is done has no live plan.\<close>

definition release_plan :: "board_row option \<Rightarrow> board_row \<Rightarrow> board \<Rightarrow> board" where
  "release_plan old r b =
     (if map_option bb_state old \<noteq> Some (bb_state r) \<and> bb_status r = BoardDone then deactivatePlanForAgent (bb_agent r) b else b)"

record board_post =
  po_task :: "string option"
  po_status :: "board_status option"
  po_summary :: string
  po_by :: "string option"
  po_reason :: "string option"
  po_resolved :: "string option"

definition or_else :: "'a option \<Rightarrow> 'a option \<Rightarrow> 'a option" where
  "or_else x y = (case x of Some v \<Rightarrow> Some v | None \<Rightarrow> y)"

text \<open>The row an upsert leaves; \<open>fresh\<close> is the random id of a first row.\<close>

definition posted_row :: "tenant_db \<Rightarrow> int \<Rightarrow> string \<Rightarrow> string \<Rightarrow> board_post \<Rightarrow> board_row option \<Rightarrow> board_row" where
  "posted_row td now fresh a d old =
     (let st = (case po_status d of Some s \<Rightarrow> s | None \<Rightarrow> BoardActive) in
      \<lparr>bb_id = (case old of Some r \<Rightarrow> bb_id r | None \<Rightarrow> fresh), bb_agent = a, bb_task = po_task d, bb_status = st,
       bb_summary = po_summary d, bb_updated = now, bb_tenant = resolveAgentTenant td a,
       bb_by = (if st = BoardBlocked then or_else (po_by d) (Option.bind old bb_by) else None),
       bb_reason = (if st = BoardBlocked then or_else (po_reason d) (Option.bind old bb_reason) else None)\<rparr>)"

definition writeBlackboardRow :: "tenant_db \<Rightarrow> int \<Rightarrow> string \<Rightarrow> string \<Rightarrow> board_post \<Rightarrow> board \<Rightarrow> (board_row \<times> board) option" where
  "writeBlackboardRow td now fresh a d b =
     (let old = findBlackboardRowByAgent a b; r = posted_row td now fresh a d old in
      if length (po_summary d) > SUMMARY_MAX \<or> (old = None \<and> getBlackboardRowById fresh b \<noteq> None) then None
      else Some (r, record_change td now old r (po_resolved d)
             (b\<lparr>bb_rows := (if old = None then bb_rows b @ [r] else sql_update (\<lambda>q. bb_agent q = a) (\<lambda>_. r) (bb_rows b))\<rparr>)))"

definition upsertBlackboard :: "tenant_db \<Rightarrow> int \<Rightarrow> string \<Rightarrow> string \<Rightarrow> board_post \<Rightarrow> board \<Rightarrow> (board_row \<times> board) option" where
  "upsertBlackboard td now fresh a d b =
     (case writeBlackboardRow td now fresh a d b of None \<Rightarrow> None
      | Some (r, b') \<Rightarrow> Some (r, release_plan (findBlackboardRowByAgent a b) r b'))"

section \<open>Changing a row by its id\<close>

datatype write_scope = AnyRow | TenantRows string | OwnRow string

definition blackboardRowInScope :: "write_scope \<Rightarrow> board_row \<Rightarrow> bool" where
  "blackboardRowInScope s r = (case s of AnyRow \<Rightarrow> True | TenantRows t \<Rightarrow> bb_tenant r = t | OwnRow a \<Rightarrow> bb_agent r = a)"

record board_patch =
  pa_status :: "board_status option"
  pa_summary :: "string option"
  pa_task :: "string option option"
  pa_by :: "string option"
  pa_reason :: "string option"
  pa_resolved :: "string option"

text \<open>The fields a patch makes of the row as it was read.\<close>

definition patched_fields :: "board_patch \<Rightarrow> board_row \<Rightarrow> board_row \<Rightarrow> board_row" where
  "patched_fields d seen q =
     (let st = (case pa_status d of Some s \<Rightarrow> s | None \<Rightarrow> bb_status seen) in
      q\<lparr>bb_status := st, bb_summary := (case pa_summary d of Some s \<Rightarrow> s | None \<Rightarrow> bb_summary seen),
        bb_task := (case pa_task d of Some t \<Rightarrow> t | None \<Rightarrow> bb_task seen),
        bb_by := (if st = BoardBlocked then or_else (pa_by d) (bb_by seen) else None),
        bb_reason := (if st = BoardBlocked then or_else (pa_reason d) (bb_reason seen) else None)\<rparr>)"

definition updateBlackboardRowById :: "int \<Rightarrow> string \<Rightarrow> (board_row \<Rightarrow> board_row) \<Rightarrow> write_scope \<Rightarrow> board \<Rightarrow> bool \<times> board" where
  "updateBlackboardRowById now i f s b =
     (let g = (\<lambda>r. bb_id r = i \<and> blackboardRowInScope s r) in
      (changed g (bb_rows b), b\<lparr>bb_rows := sql_update g (\<lambda>r. (f r)\<lparr>bb_updated := now\<rparr>) (bb_rows b)\<rparr>))"

text \<open>
  A patch takes no lock: it reads the row, writes it, reads it again, writes the history entry and gives up the plan in steps
  between which others may run. A row that is gone at the second read throws.
\<close>

datatype patch_pc =
    PatchStart
  | PatchSeen board_row
  | PatchUpdated board_row
  | PatchReread board_row board_row
  | PatchRecorded board_row board_row
  | PatchDone "board_row option"
  | PatchThrew

fun patch_turn :: "tenant_db \<Rightarrow> int \<Rightarrow> string \<Rightarrow> board_patch \<Rightarrow> write_scope \<Rightarrow> patch_pc \<Rightarrow> board \<Rightarrow> patch_pc \<times> board" where
  "patch_turn td now i d s PatchStart b =
     (case getBlackboardRowById i b of
        Some r \<Rightarrow> if blackboardRowInScope s r then (PatchSeen r, b) else (PatchDone None, b)
      | None \<Rightarrow> (PatchDone None, b))"
| "patch_turn td now i d s (PatchSeen seen) b =
     (case updateBlackboardRowById now i (patched_fields d seen) s b of
        (True, b') \<Rightarrow> (PatchUpdated seen, b') | (False, _) \<Rightarrow> (PatchDone None, b))"
| "patch_turn td now i d s (PatchUpdated seen) b =
     (case getBlackboardRowById i b of Some r \<Rightarrow> (PatchReread seen r, b) | None \<Rightarrow> (PatchThrew, b))"
| "patch_turn td now i d s (PatchReread seen r) b = (PatchRecorded seen r, record_change td now (Some seen) r (pa_resolved d) b)"
| "patch_turn td now i d s (PatchRecorded seen r) b = (PatchDone (Some r), release_plan (Some seen) r b)"
| "patch_turn td now i d s (PatchDone res) b = (PatchDone res, b)"
| "patch_turn td now i d s PatchThrew b = (PatchThrew, b)"



section \<open>Sweeping stale rows\<close>

definition sweep_threshold :: "(string \<Rightarrow> int option) \<Rightarrow> int \<Rightarrow> int \<Rightarrow> board_row \<Rightarrow> int" where
  "sweep_threshold byAgent defaultSec assignedSec r =
     (if bb_status r = BoardAssigned then assignedSec else case byAgent (bb_agent r) of Some t \<Rightarrow> t | None \<Rightarrow> defaultSec)"

definition sweep_due :: "(string \<Rightarrow> int option) \<Rightarrow> int \<Rightarrow> int \<Rightarrow> int \<Rightarrow> string list \<Rightarrow> board_row \<Rightarrow> bool" where
  "sweep_due byAgent defaultSec assignedSec now inFlight r \<longleftrightarrow>
     \<not> (bb_status r = BoardActive \<and> List.member inFlight (bb_agent r)) \<and> now - bb_updated r > sweep_threshold byAgent defaultSec assignedSec r"

text \<open>
  One row, compared with the row as it was read. The sweep takes no lock either: it marks a row, writes its entry and drops its
  plan in steps of their own.
\<close>

definition sweep_guard :: "board_row \<Rightarrow> board_row \<Rightarrow> bool" where
  "sweep_guard seen r \<longleftrightarrow> bb_id r = bb_id seen \<and> bb_status r = bb_status seen \<and> bb_updated r = bb_updated seen"

definition staled :: "int \<Rightarrow> board_row \<Rightarrow> board_row" where
  "staled now r = r\<lparr>bb_status := BoardStale, bb_updated := now\<rparr>"

datatype sweep_pc =
    SweepRows "board_row list"
  | SweepMarked board_row "board_row list"
  | SweepRecorded board_row "board_row list"

fun sweep_turn :: "tenant_db \<Rightarrow> int \<Rightarrow> int \<Rightarrow> sweep_pc \<Rightarrow> board \<Rightarrow> sweep_pc \<times> board" where
  "sweep_turn td started now (SweepRows []) b = (SweepRows [], b)"
| "sweep_turn td started now (SweepRows (x # xs)) b =
     (if changed (sweep_guard x) (bb_rows b)
      then (SweepMarked x xs, b\<lparr>bb_rows := sql_update (sweep_guard x) (staled started) (bb_rows b)\<rparr>) else (SweepRows xs, b))"
| "sweep_turn td started now (SweepMarked x xs) b =
     (SweepRecorded x xs, insertBlackboardHistory td now (x\<lparr>bb_status := BoardStale, bb_by := None, bb_reason := None\<rparr>) None b)"
| "sweep_turn td started now (SweepRecorded x xs) b = (SweepRows xs, deactivatePlanForAgent (bb_agent x) b)"

text \<open>The steps on one row when nobody comes between them.\<close>

definition sweep_row :: "tenant_db \<Rightarrow> int \<Rightarrow> board_row \<Rightarrow> board \<Rightarrow> bool \<times> board" where
  "sweep_row td now seen b =
     (case sweep_turn td now now (SweepRows [seen]) b of
        (SweepMarked x xs, b1) \<Rightarrow> (True, snd (sweep_turn td now now (SweepRecorded x xs) (snd (sweep_turn td now now (SweepMarked x xs) b1))))
      | (_, b1) \<Rightarrow> (False, b1))"

definition sweepable :: "board_row \<Rightarrow> bool" where
  "sweepable r \<longleftrightarrow> bb_status r = BoardActive \<or> bb_status r = BoardAssigned"

definition stale_rows :: "(string \<Rightarrow> int option) \<Rightarrow> int \<Rightarrow> int \<Rightarrow> int \<Rightarrow> string list \<Rightarrow> board \<Rightarrow> board_row list" where
  "stale_rows byAgent defaultSec assignedSec now inFlight b =
     filter (sweep_due byAgent defaultSec assignedSec now inFlight) (filter sweepable (bb_rows b))"

definition markBlackboardStale :: "tenant_db \<Rightarrow> (string \<Rightarrow> int option) \<Rightarrow> int \<Rightarrow> int \<Rightarrow> int \<Rightarrow> string list \<Rightarrow> board \<Rightarrow> nat \<times> board" where
  "markBlackboardStale td byAgent defaultSec assignedSec now inFlight b =
     fold (\<lambda>r (n, b1). case sweep_row td now r b1 of (True, b2) \<Rightarrow> (n + 1, b2) | (False, b2) \<Rightarrow> (n, b2))
       (stale_rows byAgent defaultSec assignedSec now inFlight b) (0, b)"

definition getActiveBlackboardAgentIds :: "board \<Rightarrow> string list" where
  "getActiveBlackboardAgentIds b = remdups (map bb_agent (filter sweepable (bb_rows b)))"

record board_settings =
  bs_tier :: "string \<Rightarrow> string option"
  bs_value :: "string \<Rightarrow> int"

definition getAgentTier :: "board_settings \<Rightarrow> string \<Rightarrow> string" where
  "getAgentTier s a = (case bs_tier s a of Some t \<Rightarrow> t | None \<Rightarrow> ''default'')"

definition TIER_CONFIG_KEY :: "string \<Rightarrow> string option" where
  "TIER_CONFIG_KEY = map_of [(''orchestrator'', ''BB_STALE_ORCHESTRATOR_MIN''), (''interactive'', ''BB_STALE_INTERACTIVE_MIN''),
     (''short-running'', ''BB_STALE_SHORT_RUNNING_MIN''), (''default'', ''BB_STALE_DEFAULT_MIN'')]"

definition resolveThresholdSec :: "board_settings \<Rightarrow> string \<Rightarrow> int" where
  "resolveThresholdSec s a =
     bs_value s (case TIER_CONFIG_KEY (getAgentTier s a) of Some k \<Rightarrow> k | None \<Rightarrow> ''BB_STALE_DEFAULT_MIN'') * 60"

text \<open>One run of the sweeper; \<open>inFlight\<close> is empty when its provider throws.\<close>

definition blackboard_sweep :: "tenant_db \<Rightarrow> board_settings \<Rightarrow> int \<Rightarrow> string list option \<Rightarrow> board \<Rightarrow> board" where
  "blackboard_sweep td s now inFlight b =
     (let ids = getActiveBlackboardAgentIds b;
          byAgent = (\<lambda>a. if List.member ids a then Some (resolveThresholdSec s a) else None);
          skip = (case inFlight of Some xs \<Rightarrow> xs | None \<Rightarrow> []);
          b1 = snd (markBlackboardStale td byAgent (resolveThresholdSec s ''__nonexistent__'')
                      (bs_value s ''BB_STALE_ASSIGNED_MIN'' * 60) now skip b)
      in sweepStaleActivePlans (bs_value s ''PLAN_STALE_MIN'') now b1)"

definition pruneBlackboardHistory :: "int \<Rightarrow> int \<Rightarrow> board \<Rightarrow> board" where
  "pruneBlackboardHistory ttlDays now b = b\<lparr>bb_history := filter (\<lambda>h. \<not> be_at h < now - ttlDays * 86400) (bb_history b)\<rparr>"

section \<open>Reading the board\<close>

definition in_tenant :: "string option \<Rightarrow> string \<Rightarrow> bool" where
  "in_tenant t x = (case t of None \<Rightarrow> True | Some y \<Rightarrow> x = y)"

definition listBlackboardRows :: "nat \<Rightarrow> string option \<Rightarrow> board \<Rightarrow> board_row list" where
  "listBlackboardRows limit t b = take limit (sort_key (\<lambda>r. - bb_updated r) (filter (\<lambda>r. in_tenant t (bb_tenant r)) (bb_rows b)))"

text \<open>An empty agent or tenant filters nothing here.\<close>

definition listBlackboardHistory :: "string option \<Rightarrow> int option \<Rightarrow> nat option \<Rightarrow> string option \<Rightarrow> board \<Rightarrow> board_event list" where
  "listBlackboardHistory agent since_s limit t b =
     take (min (case limit of Some n \<Rightarrow> n | None \<Rightarrow> 50) 200) (sort_key (\<lambda>h. - be_at h)
       (filter (\<lambda>h. in_tenant (named agent) (be_agent h) \<and> (case since_s of Some c \<Rightarrow> be_at h \<ge> c | None \<Rightarrow> True)
           \<and> in_tenant (named t) (be_tenant h)) (bb_history b)))"

definition max_time :: "int list \<Rightarrow> int option" where
  "max_time ts = (case ts of [] \<Rightarrow> None | t # r \<Rightarrow> Some (fold max r t))"

definition getLastOutboundMessageTimes :: "int \<Rightarrow> message_db \<Rightarrow> string \<Rightarrow> int option" where
  "getLastOutboundMessageTimes sinceSec db a = max_time (map m_created (filter (\<lambda>m. m_from m = a \<and> m_created m > sinceSec) (msgs db)))"

definition getLastBlackboardChangeTimes :: "board \<Rightarrow> string \<Rightarrow> int option" where
  "getLastBlackboardChangeTimes b a = max_time (map be_at (filter (\<lambda>h. be_agent h = a) (bb_history b)))"

datatype board_signal = SignalA | SignalB | SignalAB

definition computeBlackboardSignal :: "board_row \<Rightarrow> int option \<Rightarrow> int \<Rightarrow> int \<Rightarrow> int \<times> int \<times> int \<Rightarrow> board_signal option" where
  "computeBlackboardSignal r lastMsgAt lastChangedAt now hours =
     (case hours of (msgHours, bbHours, activeHours) \<Rightarrow>
      let a = (case lastMsgAt of Some m \<Rightarrow> m > now - msgHours * 3600 \<and> bb_updated r < now - bbHours * 3600 | None \<Rightarrow> False);
          bs = ((bb_status r = BoardActive \<or> bb_status r = BoardAssigned) \<and> lastChangedAt < now - activeHours * 3600)
      in if a \<and> bs then Some SignalAB else if a then Some SignalA else if bs then Some SignalB else None)"

definition listBlackboardWithSignals ::
  "board_settings \<Rightarrow> int \<Rightarrow> nat \<Rightarrow> string option \<Rightarrow> message_db \<Rightarrow> board \<Rightarrow> (board_row \<times> board_signal option \<times> plan_binding option) list" where
  "listBlackboardWithSignals s now limit t db b =
     (let msgHours = bs_value s ''BB_SIGNAL_A_MSG_HOURS'';
          hours = (msgHours, bs_value s ''BB_SIGNAL_A_BB_HOURS'', bs_value s ''BB_SIGNAL_B_ACTIVE_HOURS'')
      in map (\<lambda>r. (r, computeBlackboardSignal r (getLastOutboundMessageTimes (now - msgHours * 3600) db (bb_agent r))
                      (case getLastBlackboardChangeTimes b (bb_agent r) of Some c \<Rightarrow> c | None \<Rightarrow> bb_updated r) now hours,
                    find (\<lambda>p. pb_agent p = bb_agent r) (bb_plans b)))
           (listBlackboardRows limit t b))"

section \<open>The endpoints\<close>


definition board_tenant :: "route_ctx \<Rightarrow> string" where
  "board_tenant ctx = (case ctx_tenant ctx of Some (Some t) \<Rightarrow> t | _ \<Rightarrow> UNBOUND_SOURCE_TENANT)"

definition readTenantId :: "route_ctx \<Rightarrow> string option" where
  "readTenantId ctx = (if ctx_role ctx = Some Admin then None else Some (board_tenant ctx))"
















text \<open>\<open>GET /api/blackboard\<close> and \<open>GET /api/blackboard/history\<close>; \<open>since_s\<close> is the parsed parameter, \<open>Some None\<close> is no number.\<close>

definition get_blackboard :: "board_settings \<Rightarrow> route_ctx \<Rightarrow> int \<Rightarrow> message_db \<Rightarrow> board \<Rightarrow> (board_row \<times> board_signal option \<times> plan_binding option) list" where
  "get_blackboard s ctx now db b = listBlackboardWithSignals s now 10 (readTenantId ctx) db b"

definition get_blackboard_history :: "route_ctx \<Rightarrow> string option \<Rightarrow> int option option \<Rightarrow> nat option \<Rightarrow> board \<Rightarrow> board_event list option" where
  "get_blackboard_history ctx agent since_s limit b =
     (case since_s of
        Some None \<Rightarrow> None
      | _ \<Rightarrow> Some (listBlackboardHistory agent (Option.bind since_s id) (map_option (\<lambda>n. min (max 1 n) 200) limit) (readTenantId ctx) b))"

section \<open>The board with everybody at it\<close>

text \<open>
  A post holds the agent's lock and its statements are one transaction, so it is one step; a patch and a sweep are jobs that
  take one step at a time.
\<close>

datatype board_job = PatchJob string board_patch write_scope patch_pc | SweepJob int sweep_pc

record board_world =
  bw_board :: board
  bw_jobs :: "nat \<Rightarrow> board_job option"

datatype board_move =
    MovePost string string board_post
  | MovePatch nat string board_patch write_scope
  | MoveSweep nat "(string \<times> int) list" int int "string list"
  | MoveTurn nat
  | MovePrune int
  | MoveActivate "string list" string string
  | MoveTouch string
  | MoveStop string
  | MoveSweepPlans int

fun job_turn :: "tenant_db \<Rightarrow> int \<Rightarrow> board_job \<Rightarrow> board \<Rightarrow> board_job \<times> board" where
  "job_turn td now (PatchJob i d s pc) b = (case patch_turn td now i d s pc b of (pc', b') \<Rightarrow> (PatchJob i d s pc', b'))"
| "job_turn td now (SweepJob started pc) b = (case sweep_turn td started now pc b of (pc', b') \<Rightarrow> (SweepJob started pc', b'))"

fun board_do :: "tenant_db \<Rightarrow> int \<Rightarrow> board_move \<Rightarrow> board \<Rightarrow> board" where
  "board_do td now (MovePost fresh a d) b = (case upsertBlackboard td now fresh a d b of Some (_, b') \<Rightarrow> b' | None \<Rightarrow> b)"
| "board_do td now (MovePrune days) b = pruneBlackboardHistory days now b"
| "board_do td now (MoveActivate registry a plan) b = (case activatePlanForAgent registry now a plan b of Some b' \<Rightarrow> b' | None \<Rightarrow> b)"
| "board_do td now (MoveTouch a) b = touchActivePlanHeartbeat now a b"
| "board_do td now (MoveStop a) b = deactivatePlanForAgent a b"
| "board_do td now (MoveSweepPlans minutes) b = sweepStaleActivePlans minutes now b"
| "board_do td now _ b = b"

fun new_job :: "int \<Rightarrow> board_move \<Rightarrow> board \<Rightarrow> (nat \<times> board_job) option" where
  "new_job now (MovePatch k i d s) b = Some (k, PatchJob i d s PatchStart)"
| "new_job now (MoveSweep k byAgent defaultSec assignedSec inFlight) b =
     Some (k, SweepJob now (SweepRows (stale_rows (map_of byAgent) defaultSec assignedSec now inFlight b)))"
| "new_job now _ b = None"

definition board_step :: "tenant_db \<Rightarrow> int \<Rightarrow> board_move \<Rightarrow> board_world \<Rightarrow> board_world" where
  "board_step td now m w =
     (case m of
        MoveTurn k \<Rightarrow>
          (case bw_jobs w k of
             Some j \<Rightarrow> (case job_turn td now j (bw_board w) of (j', b') \<Rightarrow> w\<lparr>bw_board := b', bw_jobs := (bw_jobs w)(k \<mapsto> j')\<rparr>)
           | None \<Rightarrow> w)
      | _ \<Rightarrow>
          (case new_job now m (bw_board w) of
             Some (k, j) \<Rightarrow> (if bw_jobs w k = None then w\<lparr>bw_jobs := (bw_jobs w)(k \<mapsto> j)\<rparr> else w)
           | None \<Rightarrow> w\<lparr>bw_board := board_do td now m (bw_board w)\<rparr>))"

fun board_run :: "tenant_db \<Rightarrow> (int \<times> board_move) list \<Rightarrow> board_world \<Rightarrow> board_world" where
  "board_run td [] w = w"
| "board_run td ((now, m) # ms) w = board_run td ms (board_step td now m w)"

definition empty_board :: board where
  "empty_board = \<lparr>bb_rows = [], bb_history = [], bb_plans = []\<rparr>"

definition empty_world :: board_world where
  "empty_world = \<lparr>bw_board = empty_board, bw_jobs = (\<lambda>_. None)\<rparr>"

section \<open>The invariant of the board\<close>

definition be_state :: "board_event \<Rightarrow> board_status \<times> string \<times> string option \<times> string option \<times> string option" where
  "be_state h = (be_status h, be_summary h, be_task h, be_by h, be_reason h)"

definition board_row_ok :: "board_row \<Rightarrow> bool" where
  "board_row_ok r \<longleftrightarrow> (bb_status r = BoardBlocked \<or> bb_by r = None \<and> bb_reason r = None) \<and> length (bb_summary r) \<le> SUMMARY_MAX"

abbreviation events_of :: "string \<Rightarrow> board \<Rightarrow> board_event list" where
  "events_of a b \<equiv> filter (\<lambda>h. be_agent h = a) (bb_history b)"

text \<open>The newest entry of an agent is its row, unless all its entries are pruned.\<close>

definition in_history :: "board \<Rightarrow> board_row \<Rightarrow> bool" where
  "in_history b r \<longleftrightarrow> events_of (bb_agent r) b = [] \<or> be_state (last (events_of (bb_agent r) b)) = bb_state r"

definition board_sound :: "int \<Rightarrow> board \<Rightarrow> bool" where
  "board_sound now b \<longleftrightarrow> distinct (map bb_agent (bb_rows b)) \<and> distinct (map bb_id (bb_rows b)) \<and> list_all board_row_ok (bb_rows b)
     \<and> sorted (map be_at (bb_history b)) \<and> list_all (\<lambda>h. be_at h \<le> now) (bb_history b)"

text \<open>
  The row a job is at work on: from its read to its entry for a patch, from its mark to its entry for a sweep; and whether it
  may have changed the row without having written the entry.
\<close>

fun job_watch :: "board_job \<Rightarrow> string option" where
  "job_watch (PatchJob i d s (PatchSeen q)) = Some i"
| "job_watch (PatchJob i d s (PatchUpdated q)) = Some i"
| "job_watch (PatchJob i d s (PatchReread q r)) = Some i"
| "job_watch (SweepJob started (SweepMarked x xs)) = Some (bb_id x)"
| "job_watch _ = None"

fun job_pending :: "board_job \<Rightarrow> string option" where
  "job_pending (PatchJob i d s (PatchUpdated q)) = Some i"
| "job_pending (PatchJob i d s (PatchReread q r)) = Some i"
| "job_pending (SweepJob started (SweepMarked x xs)) = Some (bb_id x)"
| "job_pending _ = None"

text \<open>The rows a move may write, or a patch work on, by id.\<close>

fun job_touches :: "board_job \<Rightarrow> string \<Rightarrow> bool" where
  "job_touches (PatchJob j d s pc) i \<longleftrightarrow> j = i"
| "job_touches (SweepJob started (SweepRows (x # xs))) i \<longleftrightarrow> bb_id x = i"
| "job_touches (SweepJob started (SweepMarked x xs)) i \<longleftrightarrow> bb_id x = i"
| "job_touches _ i \<longleftrightarrow> False"

fun move_touches :: "board_world \<Rightarrow> board_move \<Rightarrow> string \<Rightarrow> bool" where
  "move_touches w (MovePost fresh a d) i \<longleftrightarrow> list_ex (\<lambda>r. bb_id r = i \<and> bb_agent r = a) (bb_rows (bw_board w))"
| "move_touches w (MoveTurn k) i \<longleftrightarrow> (case bw_jobs w k of Some j \<Rightarrow> job_touches j i | None \<Rightarrow> False)"
| "move_touches w _ i \<longleftrightarrow> False"

text \<open>Nobody touches a row another is at work on.\<close>

definition undisturbed :: "board_move \<Rightarrow> board_world \<Rightarrow> bool" where
  "undisturbed m w \<longleftrightarrow> (\<forall>k j i. bw_jobs w k = Some j \<and> job_watch j = Some i \<and> m \<noteq> MoveTurn k \<longrightarrow> \<not> move_touches w m i)"

fun undisturbed_run :: "tenant_db \<Rightarrow> (int \<times> board_move) list \<Rightarrow> board_world \<Rightarrow> bool" where
  "undisturbed_run td [] w \<longleftrightarrow> True"
| "undisturbed_run td ((now, m) # ms) w \<longleftrightarrow> undisturbed m w \<and> undisturbed_run td ms (board_step td now m w)"

text \<open>A patch's summary fits its column, as its endpoint checks; a sweep's thresholds are not negative.\<close>

fun move_fits :: "board_move \<Rightarrow> bool" where
  "move_fits (MovePatch k i d s) \<longleftrightarrow> (case pa_summary d of Some t \<Rightarrow> length t \<le> SUMMARY_MAX | None \<Rightarrow> True)"
| "move_fits (MoveSweep k byAgent defaultSec assignedSec inFlight) \<longleftrightarrow>
     list_all (\<lambda>(a, t). 0 \<le> t) byAgent \<and> 0 \<le> defaultSec \<and> 0 \<le> assignedSec"
| "move_fits _ \<longleftrightarrow> True"

lemma find_row_agent: "findBlackboardRowByAgent a b = Some r \<Longrightarrow> r \<in> set (bb_rows b) \<and> bb_agent r = a"
  unfolding findBlackboardRowByAgent_def by (auto dest: find_SomeD)

lemma find_row_none: "findBlackboardRowByAgent a b = None \<longleftrightarrow> a \<notin> bb_agent ` set (bb_rows b)"
  by (auto simp: findBlackboardRowByAgent_def find_None_iff)

lemma get_row_id: "getBlackboardRowById i b = Some r \<Longrightarrow> r \<in> set (bb_rows b) \<and> bb_id r = i"
  unfolding getBlackboardRowById_def by (auto dest: find_SomeD)

lemma get_row_none: "getBlackboardRowById i b = None \<longleftrightarrow> i \<notin> bb_id ` set (bb_rows b)"
  by (auto simp: getBlackboardRowById_def find_None_iff)

lemma get_row_unique:
  assumes "distinct (map bb_id (bb_rows b))" "r \<in> set (bb_rows b)"
  shows "getBlackboardRowById (bb_id r) b = Some r"
proof (cases "getBlackboardRowById (bb_id r) b")
  case None
  then show ?thesis using assms(2) by (auto simp: get_row_none)
next
  case (Some q)
  then have "q \<in> set (bb_rows b)" "bb_id q = bb_id r" using get_row_id by blast+
  then show ?thesis using assms Some by (auto simp: distinct_map inj_on_def)
qed

lemma find_row_unique:
  assumes "distinct (map bb_agent (bb_rows b))" "r \<in> set (bb_rows b)"
  shows "findBlackboardRowByAgent (bb_agent r) b = Some r"
proof (cases "findBlackboardRowByAgent (bb_agent r) b")
  case None
  then show ?thesis using assms(2) by (auto simp: find_row_none)
next
  case (Some q)
  then have "q \<in> set (bb_rows b)" "bb_agent q = bb_agent r" using find_row_agent by blast+
  then show ?thesis using assms Some by (auto simp: distinct_map inj_on_def)
qed

lemma board_parts [simp]:
  "bb_rows (record_change td now old r x b) = bb_rows b" "bb_plans (record_change td now old r x b) = bb_plans b"
  "bb_rows (release_plan old r b) = bb_rows b" "bb_history (release_plan old r b) = bb_history b"
  "bb_rows (deactivatePlanForAgent a b) = bb_rows b" "bb_history (deactivatePlanForAgent a b) = bb_history b"
  "bb_rows (insertBlackboardHistory td now r x b) = bb_rows b" "bb_plans (insertBlackboardHistory td now r x b) = bb_plans b"
  by (simp_all add: record_change_def release_plan_def deactivatePlanForAgent_def insertBlackboardHistory_def)

text \<open>What a write appends: nothing or one entry of the row written.\<close>

lemma history_insert:
  "events_of a (insertBlackboardHistory td now r x b) =
     events_of a b @ (if bb_agent r = a then [\<lparr>be_agent = bb_agent r, be_task = bb_task r, be_status = bb_status r, be_summary = bb_summary r,
       be_at = now, be_tenant = resolveAgentTenant td (bb_agent r), be_by = bb_by r, be_reason = bb_reason r, be_resolved = x\<rparr>] else [])"
  by (simp add: insertBlackboardHistory_def)

lemma events_other: "bb_agent r \<noteq> a \<Longrightarrow> events_of a (record_change td now old r x b) = events_of a b"
  by (simp add: record_change_def history_insert)

lemma events_own:
  assumes "map_option bb_state old \<noteq> Some (bb_state r)"
  shows "in_history (record_change td now old r x b) r"
  by (simp only: record_change_def if_not_P [OF assms]) (simp add: in_history_def history_insert be_state_def bb_state_def)

lemma events_kept: "map_option bb_state old = Some (bb_state r) \<Longrightarrow> record_change td now old r x b = b"
  by (simp add: record_change_def)

lemma tracked_history: "bb_history b = bb_history b' \<Longrightarrow> in_history b r = in_history b' r"
  by (simp add: in_history_def)

lemma times_insert:
  assumes "sorted (map be_at (bb_history b))" "list_all (\<lambda>h. be_at h \<le> now) (bb_history b)"
  shows "sorted (map be_at (bb_history (insertBlackboardHistory td now r x b)))
    \<and> list_all (\<lambda>h. be_at h \<le> now) (bb_history (insertBlackboardHistory td now r x b))"
  using assms by (auto simp: insertBlackboardHistory_def sorted_append list_all_iff)

lemma times_change:
  assumes "sorted (map be_at (bb_history b))" "list_all (\<lambda>h. be_at h \<le> now) (bb_history b)"
  shows "sorted (map be_at (bb_history (record_change td now old r x b))) \<and> list_all (\<lambda>h. be_at h \<le> now) (bb_history (record_change td now old r x b))"
  using assms times_insert by (simp add: record_change_def)

lemma update_one:
  assumes "distinct (map k rows)" "q \<in> set rows"
  shows "sql_update (\<lambda>p. k p = k q) f rows = map (\<lambda>p. if p = q then f q else p) rows"
  using assms by (auto simp: sql_update_def distinct_map inj_on_def)

lemma update_one_if:
  assumes "distinct (map k rows)" "q \<in> set rows" "P q"
  shows "sql_update (\<lambda>p. k p = k q \<and> P p) f rows = map (\<lambda>p. if p = q then f q else p) rows"
  using assms by (auto simp: sql_update_def distinct_map inj_on_def)

lemma posted_fields [simp]:
  "bb_agent (posted_row td now fresh a d old) = a" "bb_updated (posted_row td now fresh a d old) = now"
  "bb_id (posted_row td now fresh a d (Some q)) = bb_id q" "bb_id (posted_row td now fresh a d None) = fresh"
  "bb_summary (posted_row td now fresh a d old) = po_summary d"
  "bb_tenant (posted_row td now fresh a d old) = resolveAgentTenant td a"
  by (simp_all add: posted_row_def Let_def)

lemma posted_ok: "length (po_summary d) \<le> SUMMARY_MAX \<Longrightarrow> board_row_ok (posted_row td now fresh a d old)"
  by (simp add: board_row_ok_def posted_row_def Let_def)

lemma patched_keys [simp]:
  "bb_agent (patched_fields d seen q) = bb_agent q" "bb_id (patched_fields d seen q) = bb_id q"
  "bb_tenant (patched_fields d seen q) = bb_tenant q"
  by (simp_all add: patched_fields_def Let_def)

lemma posted_cases:
  assumes "writeBlackboardRow td now fresh a d b = Some (r, b')"
  obtains "findBlackboardRowByAgent a b = None" "fresh \<notin> bb_id ` set (bb_rows b)" "r = posted_row td now fresh a d None"
      "b' = record_change td now None r (po_resolved d) (b\<lparr>bb_rows := bb_rows b @ [r]\<rparr>)" "length (po_summary d) \<le> SUMMARY_MAX"
  | q where "findBlackboardRowByAgent a b = Some q" "r = posted_row td now fresh a d (Some q)"
      "b' = record_change td now (Some q) r (po_resolved d) (b\<lparr>bb_rows := sql_update (\<lambda>p. bb_agent p = a) (\<lambda>_. r) (bb_rows b)\<rparr>)"
      "length (po_summary d) \<le> SUMMARY_MAX"
  using assms by (cases "findBlackboardRowByAgent a b") (auto simp: writeBlackboardRow_def Let_def get_row_none split: if_splits)

lemma upsert_cases:
  assumes "upsertBlackboard td now fresh a d b = Some (r, b')"
  obtains b1 where "writeBlackboardRow td now fresh a d b = Some (r, b1)" "b' = release_plan (findBlackboardRowByAgent a b) r b1"
  using assms by (auto simp: upsertBlackboard_def split: option.splits)


text \<open>What keeps the table sound.\<close>

lemma soundD:
  assumes "board_sound now b"
  shows "distinct (map bb_agent (bb_rows b))" "distinct (map bb_id (bb_rows b))" "r \<in> set (bb_rows b) \<Longrightarrow> board_row_ok r"
  using assms by (auto simp: board_sound_def list_all_iff)

lemma sound_later: "board_sound t b \<Longrightarrow> t \<le> now \<Longrightarrow> board_sound now b"
  by (auto simp: board_sound_def list_all_iff)

lemma sound_same: "board_sound now b \<Longrightarrow> bb_rows b' = bb_rows b \<Longrightarrow> bb_history b' = bb_history b \<Longrightarrow> board_sound now b'"
  by (simp add: board_sound_def)

lemma sound_record: "board_sound now b \<Longrightarrow> board_sound now (record_change td now old r x b)"
  using times_change [of b now td old r x] by (simp add: board_sound_def)

lemma sound_entry: "board_sound now b \<Longrightarrow> board_sound now (insertBlackboardHistory td now r x b)"
  using times_insert [of b now td r x] by (simp add: board_sound_def)

lemma sound_replace:
  assumes "board_sound now b" and "q \<in> set (bb_rows b)" and r: "bb_agent r = bb_agent q" "bb_id r = bb_id q" "board_row_ok r"
    and rows: "bb_rows b1 = map (\<lambda>p. if p = q then r else p) (bb_rows b)" "bb_history b1 = bb_history b"
  shows "board_sound now b1"
proof -
  have "map bb_agent (bb_rows b1) = map bb_agent (bb_rows b)" "map bb_id (bb_rows b1) = map bb_id (bb_rows b)"
    using r by (auto simp: rows comp_def)
  moreover have "list_all board_row_ok (bb_rows b1)" using assms(1) r(3) by (auto simp: board_sound_def list_all_iff rows)
  ultimately show ?thesis using assms(1) rows(2) unfolding board_sound_def by simp
qed

lemma sound_append:
  assumes "board_sound now b" and new: "bb_agent r \<notin> bb_agent ` set (bb_rows b)" "bb_id r \<notin> bb_id ` set (bb_rows b)" "board_row_ok r"
    and rows: "bb_rows b1 = bb_rows b @ [r]" "bb_history b1 = bb_history b"
  shows "board_sound now b1"
  using assms by (auto simp: board_sound_def)

lemma same_row_id: "board_sound now b \<Longrightarrow> r \<in> set (bb_rows b) \<Longrightarrow> q \<in> set (bb_rows b) \<Longrightarrow> bb_id r = bb_id q \<Longrightarrow> r = q"
  by (auto simp: board_sound_def distinct_map inj_on_def)

lemma same_agent: "board_sound now b \<Longrightarrow> r \<in> set (bb_rows b) \<Longrightarrow> q \<in> set (bb_rows b) \<Longrightarrow> bb_agent r = bb_agent q \<Longrightarrow> r = q"
  by (auto simp: board_sound_def distinct_map inj_on_def)

text \<open>What an entry changes of the history.\<close>

lemma in_history_other:
  "bb_agent r \<noteq> bb_agent p \<Longrightarrow> in_history (record_change td now old r x b) p = in_history b p"
  "bb_agent r \<noteq> bb_agent p \<Longrightarrow> in_history (insertBlackboardHistory td now r x b) p = in_history b p"
  by (simp_all add: in_history_def record_change_def history_insert)

lemma in_history_own:
  "(map_option bb_state old = Some (bb_state r) \<Longrightarrow> in_history b r) \<Longrightarrow> in_history (record_change td now old r x b) r"
  using events_own [of old r td now x b] events_kept [of old r td now x b] by (cases "map_option bb_state old = Some (bb_state r)") auto

lemma in_history_entry: "in_history (insertBlackboardHistory td now r x b) r"
  by (simp add: in_history_def history_insert be_state_def bb_state_def)

lemma in_history_state: "bb_agent r = bb_agent q \<Longrightarrow> bb_state r = bb_state q \<Longrightarrow> in_history b r = in_history b q"
  by (simp add: in_history_def)

section \<open>The sweep alone\<close>

lemma staled_keys [simp]: "bb_agent (staled now r) = bb_agent r" "bb_id (staled now r) = bb_id r" "bb_tenant (staled now r) = bb_tenant r"
  "bb_status (staled now r) = BoardStale" "bb_updated (staled now r) = now"
  by (simp_all add: staled_def)

lemma staled_ok: "board_row_ok r \<Longrightarrow> sweepable r \<Longrightarrow> board_row_ok (staled now r)"
  by (auto simp: board_row_ok_def sweepable_def staled_def)

lemma mark_rows:
  assumes "board_sound now b" "q \<in> set (bb_rows b)"
  shows "changed (sweep_guard q) (bb_rows b)" "sql_update (sweep_guard q) (staled t) (bb_rows b) = map (\<lambda>p. if p = q then staled t q else p) (bb_rows b)"
proof -
  show "changed (sweep_guard q) (bb_rows b)" using assms(2) by (auto simp: changed_iff sweep_guard_def)
  have g: "sweep_guard q = (\<lambda>p. bb_id p = bb_id q \<and> (bb_status p = bb_status q \<and> bb_updated p = bb_updated q))"
    by (simp add: fun_eq_iff sweep_guard_def)
  show "sql_update (sweep_guard q) (staled t) (bb_rows b) = map (\<lambda>p. if p = q then staled t q else p) (bb_rows b)"
    unfolding g by (rule update_one_if [where P = "\<lambda>p. bb_status p = bb_status q \<and> bb_updated p = bb_updated q", OF soundD(2) [OF assms(1)] assms(2)]) simp
qed

lemma sweep_row_result:
  fixes now :: int and q :: board_row and b :: board
  defines "b1 \<equiv> b\<lparr>bb_rows := map (\<lambda>p. if p = q then staled now q else p) (bb_rows b)\<rparr>"
  assumes ok: "board_sound now b" and q: "q \<in> set (bb_rows b)"
  shows "sweep_row td now q b = (True, deactivatePlanForAgent (bb_agent q)
    (insertBlackboardHistory td now (q\<lparr>bb_status := BoardStale, bb_by := None, bb_reason := None\<rparr>) None b1))"
  using mark_rows(1) [OF ok q] mark_rows(2) [OF ok q, of now] by (simp add: sweep_row_def b1_def)

lemma sweep_row_sound:
  assumes ok: "board_sound now b" and q: "q \<in> set (bb_rows b)" "sweepable q"
  shows "board_sound now (snd (sweep_row td now q b))"
proof -
  let ?b1 = "b\<lparr>bb_rows := map (\<lambda>p. if p = q then staled now q else p) (bb_rows b)\<rparr>"
  have "board_sound now ?b1"
    by (rule sound_replace [OF ok q(1), where r = "staled now q"]) (use staled_ok [OF soundD(3) [OF ok q(1)] q(2)] in simp_all)
  from sound_entry [OF this] show ?thesis unfolding sweep_row_result [OF ok q(1)] snd_conv by (rule sound_same) simp_all
qed

abbreviation sweep_step :: "tenant_db \<Rightarrow> int \<Rightarrow> board_row \<Rightarrow> nat \<times> board \<Rightarrow> nat \<times> board" where
  "sweep_step td now \<equiv> (\<lambda>r (n, b1). case sweep_row td now r b1 of (True, b2) \<Rightarrow> (n + 1, b2) | (False, b2) \<Rightarrow> (n, b2))"

text \<open>The rows read are each marked once, and nothing else changes.\<close>

lemma sweep_fold:
  assumes "board_sound now b" "set xs \<subseteq> set (bb_rows b)" "distinct (map bb_id xs)" "list_all sweepable xs"
  shows "\<exists>b'. fold (sweep_step td now) xs (n, b) = (n + length xs, b')
    \<and> bb_rows b' = map (\<lambda>r. if r \<in> set xs then staled now r else r) (bb_rows b)
    \<and> bb_plans b' = filter (\<lambda>p. pb_agent p \<notin> bb_agent ` set xs) (bb_plans b)"
  using assms
proof (induction xs arbitrary: n b)
  case (Cons q xs)
  let ?b = "snd (sweep_row td now q b)"
  have q: "q \<in> set (bb_rows b)" "sweepable q" using Cons.prems by simp_all
  note res = sweep_row_result [OF Cons.prems(1) q(1), where td = td]
  have rows: "bb_rows ?b = map (\<lambda>p. if p = q then staled now q else p) (bb_rows b)"
    and plans: "bb_plans ?b = filter (\<lambda>p. pb_agent p \<noteq> bb_agent q) (bb_plans b)" by (simp_all add: res deactivatePlanForAgent_def)
  have step: "sweep_step td now q (n, b) = (n + 1, ?b)" by (simp add: res)
  have q_new: "q \<notin> set xs" "staled now q \<notin> set xs"
    using Cons.prems(3) imageI [of q "set xs" bb_id] imageI [of "staled now q" "set xs" bb_id] by auto
  have sub: "set xs \<subseteq> set (bb_rows ?b)" using Cons.prems(2) q_new by (auto simp: rows)
  have rest: "distinct (map bb_id xs)" "list_all sweepable xs" using Cons.prems(3,4) by simp_all
  obtain b' where b': "fold (sweep_step td now) xs (n + 1, ?b) = (n + 1 + length xs, b')"
      "bb_rows b' = map (\<lambda>r. if r \<in> set xs then staled now r else r) (bb_rows ?b)"
      "bb_plans b' = filter (\<lambda>p. pb_agent p \<notin> bb_agent ` set xs) (bb_plans ?b)"
    using Cons.IH [OF sweep_row_sound [OF Cons.prems(1) q] sub rest] by blast
  have "bb_rows b' = map (\<lambda>r. if r \<in> set (q # xs) then staled now r else r) (bb_rows b)"
    unfolding b'(2) rows map_map
  proof (rule map_cong [OF refl])
    fix p
    show "((\<lambda>r. if r \<in> set xs then staled now r else r) \<circ> (\<lambda>p. if p = q then staled now q else p)) p
        = (if p \<in> set (q # xs) then staled now p else p)" using q_new by (cases "p = q") simp_all
  qed
  moreover have "bb_plans b' = filter (\<lambda>p. pb_agent p \<notin> bb_agent ` set (q # xs)) (bb_plans b)"
    unfolding b'(3) plans filter_filter by (rule filter_cong) auto
  moreover have "fold (sweep_step td now) (q # xs) (n, b) = (n + length (q # xs), b')"
    using b'(1) by (simp only: fold_simps comp_def step) simp
  ultimately show ?case by (intro exI [of _ b']) simp
qed simp

text \<open>
  A sweep nobody interrupts marks exactly the rows that are due. Every active or assigned row that was last written longer ago
  than its threshold becomes stale, with the time of the sweep and nothing else changed, the count is their number, their
  agents lose their plans and nobody else does; an active row of an agent whose run is in flight is not due.
\<close>

theorem stale_sweep_exact:
  assumes ok: "board_sound now b" and m: "markBlackboardStale td byAgent defaultSec assignedSec now inFlight b = (n, b')"
  shows "bb_rows b' = map (\<lambda>r. if sweepable r \<and> sweep_due byAgent defaultSec assignedSec now inFlight r
        then r\<lparr>bb_status := BoardStale, bb_updated := now\<rparr> else r) (bb_rows b)
    \<and> n = length (filter (\<lambda>r. sweepable r \<and> sweep_due byAgent defaultSec assignedSec now inFlight r) (bb_rows b))
    \<and> bb_plans b' = filter (\<lambda>p. \<not> list_ex (\<lambda>r. sweepable r \<and> sweep_due byAgent defaultSec assignedSec now inFlight r
        \<and> bb_agent r = pb_agent p) (bb_rows b)) (bb_plans b)"
proof -
  let ?due = "\<lambda>r. sweepable r \<and> sweep_due byAgent defaultSec assignedSec now inFlight r"
  have xs: "stale_rows byAgent defaultSec assignedSec now inFlight b = filter ?due (bb_rows b)" by (simp add: stale_rows_def conj_commute)
  have "distinct (map bb_id (filter ?due (bb_rows b)))" "list_all sweepable (filter ?due (bb_rows b))"
    using soundD(2) [OF ok] by (auto simp: distinct_map_filter list_all_iff)
  from sweep_fold [OF ok filter_is_subset this, of td 0] m
  have r: "bb_rows b' = map (\<lambda>r. if r \<in> set (filter ?due (bb_rows b)) then staled now r else r) (bb_rows b)"
      and n: "n = length (filter ?due (bb_rows b))"
      and p: "bb_plans b' = filter (\<lambda>p. pb_agent p \<notin> bb_agent ` set (filter ?due (bb_rows b))) (bb_plans b)"
    unfolding markBlackboardStale_def xs by auto
  have "bb_rows b' = map (\<lambda>r. if ?due r then r\<lparr>bb_status := BoardStale, bb_updated := now\<rparr> else r) (bb_rows b)"
    unfolding r by (rule map_cong) (auto simp: staled_def)
  moreover have "bb_plans b' = filter (\<lambda>p. \<not> list_ex (\<lambda>r. sweepable r \<and> sweep_due byAgent defaultSec assignedSec now inFlight r
        \<and> bb_agent r = pb_agent p) (bb_rows b)) (bb_plans b)"
    unfolding p by (rule filter_cong) (auto simp: list_ex_iff image_iff)
  ultimately show ?thesis using n by blast
qed

section \<open>Every move keeps the invariant\<close>

text \<open>A row a sweep has read and not come to: no row but itself passes the comparison.\<close>

definition due_ok :: "int \<Rightarrow> board \<Rightarrow> board_row \<Rightarrow> bool" where
  "due_ok started b x \<longleftrightarrow> sweepable x \<and> board_row_ok x \<and> bb_updated x < started \<and> (\<forall>r\<in>set (bb_rows b). sweep_guard x r \<longrightarrow> r = x)"

fun job_ok :: "int \<Rightarrow> board \<Rightarrow> board_job \<Rightarrow> bool" where
  "job_ok now b (PatchJob i d s pc) \<longleftrightarrow>
     (\<forall>t. pa_summary d = Some t \<longrightarrow> length t \<le> SUMMARY_MAX) \<and>
     (case pc of
        PatchSeen q \<Rightarrow> q \<in> set (bb_rows b) \<and> bb_id q = i \<and> in_history b q
      | PatchUpdated q \<Rightarrow> (\<exists>r\<in>set (bb_rows b). bb_id r = i \<and> (bb_state r = bb_state q \<longrightarrow> in_history b r))
      | PatchReread q r \<Rightarrow> r \<in> set (bb_rows b) \<and> bb_id r = i \<and> (bb_state r = bb_state q \<longrightarrow> in_history b r)
      | _ \<Rightarrow> True)"
| "job_ok now b (SweepJob started pc) \<longleftrightarrow> started \<le> now \<and>
     (case pc of
        SweepRows xs \<Rightarrow> list_all (due_ok started b) xs
      | SweepMarked x xs \<Rightarrow> list_all (due_ok started b) xs \<and> staled started x \<in> set (bb_rows b) \<and> sweepable x \<and> board_row_ok x
      | SweepRecorded x xs \<Rightarrow> list_all (due_ok started b) xs)"

text \<open>A change that spares the rows outside a set of ids, and stamps what it writes.\<close>

definition spares :: "int \<Rightarrow> (string \<Rightarrow> bool) \<Rightarrow> board \<Rightarrow> board \<Rightarrow> bool" where
  "spares now A b b' \<longleftrightarrow>
     (\<forall>r\<in>set (bb_rows b). \<not> A (bb_id r) \<longrightarrow> r \<in> set (bb_rows b') \<and> (in_history b r \<longrightarrow> in_history b' r))
     \<and> (\<forall>r\<in>set (bb_rows b'). r \<in> set (bb_rows b) \<or> bb_updated r = now \<or> bb_status r = BoardStale)"

lemma due_spared: "due_ok started b x \<Longrightarrow> spares now A b b' \<Longrightarrow> started \<le> now \<Longrightarrow> due_ok started b' x"
  unfolding due_ok_def spares_def sweep_guard_def by (auto simp: sweepable_def)

lemma dues_spared: "list_all (due_ok started b) xs \<Longrightarrow> spares now A b b' \<Longrightarrow> started \<le> now \<Longrightarrow> list_all (due_ok started b') xs"
  using due_spared by (auto simp: list_all_iff)

lemma job_spared:
  assumes "job_ok now b j" "spares now A b b'" "\<And>i. job_watch j = Some i \<Longrightarrow> \<not> A i"
  shows "job_ok now b' j"
proof (cases j)
  case (PatchJob i d s pc)
  then show ?thesis using assms by (cases pc) (auto simp: spares_def)
next
  case (SweepJob started pc)
  show ?thesis
  proof (cases pc)
    case (SweepMarked x xs)
    then have "\<not> A (bb_id (staled started x))" using assms(3) SweepJob by simp
    then show ?thesis using assms(1,2) SweepJob SweepMarked dues_spared [of started b xs now A b'] by (auto simp: spares_def)
  qed (use assms(1,2) SweepJob dues_spared [of started b _ now A b'] in auto)
qed

lemma spares_same: "bb_rows b' = bb_rows b \<Longrightarrow> bb_history b' = bb_history b \<Longrightarrow> spares now A b b'"
  by (simp add: spares_def tracked_history [of b' b])

lemma spares_refl [simp]: "spares now A b b"
  by (simp add: spares_def)

definition world_ok :: "int \<Rightarrow> board_world \<Rightarrow> bool" where
  "world_ok now w \<longleftrightarrow> board_sound now (bw_board w)
     \<and> (\<forall>k k' j j' i. bw_jobs w k = Some j \<and> bw_jobs w k' = Some j' \<and> job_watch j = Some i \<and> job_watch j' = Some i \<longrightarrow> k = k')
     \<and> (\<forall>r\<in>set (bb_rows (bw_board w)). in_history (bw_board w) r \<or> (\<exists>k j. bw_jobs w k = Some j \<and> job_pending j = Some (bb_id r)))
     \<and> (\<forall>k j. bw_jobs w k = Some j \<longrightarrow> job_ok now (bw_board w) j)"

lemma world_okD:
  assumes "world_ok now w"
  shows "board_sound now (bw_board w)"
    and "bw_jobs w k = Some j \<Longrightarrow> bw_jobs w k' = Some j' \<Longrightarrow> job_watch j = Some i \<Longrightarrow> job_watch j' = Some i \<Longrightarrow> k = k'"
    and "r \<in> set (bb_rows (bw_board w)) \<Longrightarrow> in_history (bw_board w) r \<or> (\<exists>k j. bw_jobs w k = Some j \<and> job_pending j = Some (bb_id r))"
    and "bw_jobs w k = Some j \<Longrightarrow> job_ok now (bw_board w) j"
  using assms unfolding world_ok_def by blast+

lemma pending_watch: "job_pending j = Some i \<Longrightarrow> job_watch j = Some i"
  by (cases j rule: job_pending.cases) simp_all

lemma watch_touches: "job_watch j = Some i \<Longrightarrow> job_touches j i"
  by (cases j rule: job_watch.cases) simp_all

text \<open>A move touches no row another job watches.\<close>

lemma undisturbedD: "undisturbed m w \<Longrightarrow> bw_jobs w k = Some j \<Longrightarrow> job_watch j = Some i \<Longrightarrow> m \<noteq> MoveTurn k \<Longrightarrow> \<not> move_touches w m i"
  unfolding undisturbed_def by blast

lemma settled:
  assumes w: "world_ok now w" "undisturbed (MoveTurn k) w" and j: "bw_jobs w k = Some j"
    and r: "r \<in> set (bb_rows (bw_board w))" "job_touches j (bb_id r)" "job_pending j \<noteq> Some (bb_id r)"
  shows "in_history (bw_board w) r"
proof -
  have "\<not> (bw_jobs w k' = Some j' \<and> job_pending j' = Some (bb_id r))" for k' j'
  proof
    assume other: "bw_jobs w k' = Some j' \<and> job_pending j' = Some (bb_id r)"
    then have "k' \<noteq> k" using j r(3) by auto
    then show False using undisturbedD [OF w(2) _ pending_watch] other j r(2) by fastforce
  qed
  then show ?thesis using world_okD(3) [OF w(1) r(1)] by blast
qed

text \<open>One step of a job, and one step of no job.\<close>

lemma job_step:
  assumes w: "world_ok now w" "undisturbed (MoveTurn k) w" and j: "bw_jobs w k = Some j"
    and b': "board_sound now b'" "spares now (job_touches j) (bw_board w) b'" "job_ok now b' j'"
    and watch: "\<And>i. job_watch j' = Some i \<Longrightarrow> job_touches j i"
    and rows: "\<And>r. r \<in> set (bb_rows b') \<Longrightarrow>
        r \<in> set (bb_rows (bw_board w)) \<and> \<not> job_touches j (bb_id r) \<or> in_history b' r \<or> job_pending j' = Some (bb_id r)"
  shows "world_ok now (w\<lparr>bw_board := b', bw_jobs := (bw_jobs w)(k \<mapsto> j')\<rparr>)"
proof -
  have apart: "\<not> job_touches j i" if "bw_jobs w k' = Some l" "job_watch l = Some i" "k' \<noteq> k" for k' l i
    using undisturbedD [OF w(2) that(1,2)] that(3) j by auto
  have unique: "k1 = k2" if "((bw_jobs w)(k \<mapsto> j')) k1 = Some j1" "((bw_jobs w)(k \<mapsto> j')) k2 = Some j2"
      "job_watch j1 = Some i" "job_watch j2 = Some i" for k1 k2 j1 j2 i
    using that apart watch world_okD(2) [OF w(1)] by (auto split: if_splits)
  have told: "in_history b' r \<or> (\<exists>k1 j1. ((bw_jobs w)(k \<mapsto> j')) k1 = Some j1 \<and> job_pending j1 = Some (bb_id r))"
    if r: "r \<in> set (bb_rows b')" for r
  proof -
    consider "in_history b' r" | "job_pending j' = Some (bb_id r)"
      | (old) "r \<in> set (bb_rows (bw_board w))" "\<not> job_touches j (bb_id r)" using rows [OF r] by blast
    then show ?thesis
    proof cases
      case old
      then consider "in_history (bw_board w) r" | k1 j1 where "bw_jobs w k1 = Some j1" "job_pending j1 = Some (bb_id r)"
        using world_okD(3) [OF w(1)] by blast
      then show ?thesis
      proof cases
        case 1
        then show ?thesis using old b'(2) by (auto simp: spares_def)
      next
        case (2 k1 j1)
        then have "k1 \<noteq> k" using old(2) j watch_touches [OF pending_watch] by auto
        then show ?thesis using 2 by auto
      qed
    qed auto
  qed
  have jobs: "job_ok now b' l" if "((bw_jobs w)(k \<mapsto> j')) k1 = Some l" for k1 l
  proof (cases "k1 = k")
    case True
    then show ?thesis using that b'(3) by simp
  next
    case False
    then have l: "bw_jobs w k1 = Some l" using that by simp
    show ?thesis by (rule job_spared [OF world_okD(4) [OF w(1) l] b'(2)]) (use apart [OF l _ False] in blast)
  qed
  have sel: "bw_board (w\<lparr>bw_board := b', bw_jobs := (bw_jobs w)(k \<mapsto> j')\<rparr>) = b'"
    "bw_jobs (w\<lparr>bw_board := b', bw_jobs := (bw_jobs w)(k \<mapsto> j')\<rparr>) = (bw_jobs w)(k \<mapsto> j')" by simp_all
  show ?thesis unfolding world_ok_def sel using b'(1) unique told jobs by blast
qed

lemma board_other_step:
  assumes w: "world_ok now w" and b': "board_sound now b'" "spares now A (bw_board w) b'"
    and apart: "\<And>k j i. bw_jobs w k = Some j \<Longrightarrow> job_watch j = Some i \<Longrightarrow> \<not> A i"
    and rows: "\<And>r. r \<in> set (bb_rows b') \<Longrightarrow> r \<in> set (bb_rows (bw_board w)) \<and> \<not> A (bb_id r) \<or> in_history b' r"
  shows "world_ok now (w\<lparr>bw_board := b'\<rparr>)"
proof -
  have told: "in_history b' r \<or> (\<exists>k j. bw_jobs w k = Some j \<and> job_pending j = Some (bb_id r))" if r: "r \<in> set (bb_rows b')" for r
    using rows [OF r] world_okD(3) [OF w, of r] b'(2) by (auto simp: spares_def)
  have jobs: "job_ok now b' j" if j: "bw_jobs w k = Some j" for k j
    by (rule job_spared [OF world_okD(4) [OF w j] b'(2)]) (use apart [OF j] in blast)
  have unique: "k = k'" if "bw_jobs w k = Some j" "bw_jobs w k' = Some j'" "job_watch j = Some i" "job_watch j' = Some i" for k k' j j' i
    using world_okD(2) [OF w] that by blast
  have sel: "bw_board (w\<lparr>bw_board := b'\<rparr>) = b'" "bw_jobs (w\<lparr>bw_board := b'\<rparr>) = bw_jobs w" by simp_all
  show ?thesis unfolding world_ok_def sel using b'(1) told jobs unique by blast
qed


lemma patched_ok:
  assumes "board_row_ok q" "\<And>t. pa_summary d = Some t \<Longrightarrow> length t \<le> SUMMARY_MAX"
  shows "board_row_ok ((patched_fields d q q)\<lparr>bb_updated := now\<rparr>)"
  using assms by (cases "pa_status d"; cases "pa_summary d") (auto simp: board_row_ok_def patched_fields_def Let_def or_else_def)

lemma patch_row:
  fixes d :: board_patch
  assumes ok: "board_sound now b" and q: "q \<in> set (bb_rows b)" and u: "updateBlackboardRowById now (bb_id q) (patched_fields d q) s b = (True, b')"
  defines "r \<equiv> (patched_fields d q q)\<lparr>bb_updated := now\<rparr>"
  shows "bb_rows b' = map (\<lambda>p. if p = q then r else p) (bb_rows b)" "bb_history b' = bb_history b" "blackboardRowInScope s q"
proof -
  let ?g = "\<lambda>p. bb_id p = bb_id q \<and> blackboardRowInScope s p"
  have c: "changed ?g (bb_rows b)" and b': "b' = b\<lparr>bb_rows := sql_update ?g (\<lambda>p. (patched_fields d q p)\<lparr>bb_updated := now\<rparr>) (bb_rows b)\<rparr>"
    using u by (simp_all add: updateBlackboardRowById_def Let_def)
  from c obtain p where "p \<in> set (bb_rows b)" "bb_id p = bb_id q" "blackboardRowInScope s p" by (auto simp: changed_iff)
  then show s: "blackboardRowInScope s q" using same_row_id [OF ok _ q] by blast
  show "bb_rows b' = map (\<lambda>p. if p = q then r else p) (bb_rows b)" unfolding b' r_def
    using update_one_if [where P = "blackboardRowInScope s" and k = bb_id, OF soundD(2) [OF ok] q s] by simp
  show "bb_history b' = bb_history b" by (simp add: b')
qed

lemma replaced_spares:
  assumes "board_sound now b" "q \<in> set (bb_rows b)" "A (bb_id q)" "bb_updated r = now \<or> bb_status r = BoardStale"
    and "bb_rows b' = map (\<lambda>p. if p = q then r else p) (bb_rows b)" "bb_history b' = bb_history b"
  shows "spares now A b b'"
  using assms by (auto simp: spares_def tracked_history [OF assms(6)])

lemma recorded_spares:
  assumes ok: "board_sound now b" and r: "r \<in> set (bb_rows b)" "A (bb_id r)"
  shows "spares now A b (record_change td now old r x b)"
proof -
  have "in_history (record_change td now old r x b) p" if "p \<in> set (bb_rows b)" "\<not> A (bb_id p)" "in_history b p" for p
  proof -
    have "bb_agent r \<noteq> bb_agent p" using same_agent [OF ok r(1) that(1)] r(2) that(2) by auto
    then show ?thesis using that(3) by (simp add: in_history_other)
  qed
  then show ?thesis by (simp add: spares_def)
qed

lemma patch_turn_ok:
  assumes w: "world_ok now w" "undisturbed (MoveTurn k) w" and j: "bw_jobs w k = Some (PatchJob i d s pc)"
    and t: "patch_turn td now i d s pc (bw_board w) = (pc', b')"
  shows "world_ok now (w\<lparr>bw_board := b', bw_jobs := (bw_jobs w)(k \<mapsto> PatchJob i d s pc')\<rparr>)"
proof -
  let ?b = "bw_board w"
  note ok = world_okD(1) [OF w(1)] and job = world_okD(4) [OF w(1) j]
  have fits: "\<And>t. pa_summary d = Some t \<Longrightarrow> length t \<le> SUMMARY_MAX" using job by simp
  have told: "in_history ?b r" if "r \<in> set (bb_rows ?b)" "job_pending (PatchJob i d s pc) \<noteq> Some (bb_id r)" "bb_id r = i" for r
    by (rule settled [OF w j that(1)]) (use that in auto)
  have stays: ?thesis
    if "b' = ?b" "job_ok now ?b (PatchJob i d s pc')" "\<And>l. job_watch (PatchJob i d s pc') = Some l \<Longrightarrow> l = i"
      "job_pending (PatchJob i d s pc) = Some i \<Longrightarrow> job_pending (PatchJob i d s pc') = Some i"
  proof (rule job_step [OF w j])
    show "board_sound now b'" "spares now (job_touches (PatchJob i d s pc)) ?b b'" "job_ok now b' (PatchJob i d s pc')"
      using ok that(1,2) by simp_all
    show "job_touches (PatchJob i d s pc) l" if "job_watch (PatchJob i d s pc') = Some l" for l using \<open>\<And>l. _ \<Longrightarrow> l = i\<close> [OF that] by simp
    fix r assume r: "r \<in> set (bb_rows b')"
    show "r \<in> set (bb_rows ?b) \<and> \<not> job_touches (PatchJob i d s pc) (bb_id r) \<or> in_history b' r \<or> job_pending (PatchJob i d s pc') = Some (bb_id r)"
    proof (cases "bb_id r = i \<and> job_pending (PatchJob i d s pc) \<noteq> Some i")
      case True
      then show ?thesis using told [of r] r \<open>b' = ?b\<close> by simp
    next
      case False
      then show ?thesis using that(4) r \<open>b' = ?b\<close> by auto
    qed
  qed
  show ?thesis
  proof (cases pc)
    case PatchStart
    show ?thesis
    proof (rule stays)
      show "b' = ?b" using t PatchStart by (auto split: option.splits if_splits)
      show "job_ok now ?b (PatchJob i d s pc')"
        using t PatchStart fits told get_row_id [of i ?b] by (auto split: option.splits if_splits)
      show "l = i" if "job_watch (PatchJob i d s pc') = Some l" for l using t that PatchStart by (auto split: option.splits if_splits)
    qed (use PatchStart in simp)
  next
    case (PatchSeen q)
    have q: "q \<in> set (bb_rows ?b)" "bb_id q = i" "in_history ?b q" using job PatchSeen by simp_all
    obtain hit b1 where u: "updateBlackboardRowById now i (patched_fields d q) s ?b = (hit, b1)" by fastforce
    show ?thesis
    proof (cases hit)
      case False
      then have "pc' = PatchDone None" "b' = ?b" using t u PatchSeen by simp_all
      then show ?thesis by (intro stays) (use fits PatchSeen in simp_all)
    next
      case True
      then have t': "pc' = PatchUpdated q" "b' = b1" using t u PatchSeen by simp_all
      let ?r = "(patched_fields d q q)\<lparr>bb_updated := now\<rparr>"
      have rows: "bb_rows b' = map (\<lambda>p. if p = q then ?r else p) (bb_rows ?b)" "bb_history b' = bb_history ?b"
        using patch_row [OF ok q(1), of d s b'] u True t'(2) q(2) by simp_all
      have r: "?r \<in> set (bb_rows b')" using q(1) by (auto simp: rows)
      show ?thesis
      proof (rule job_step [OF w j])
        show "board_sound now b'" by (rule sound_replace [OF ok q(1) _ _ patched_ok [OF soundD(3) [OF ok q(1)] fits] rows]) simp_all
        show "spares now (job_touches (PatchJob i d s pc)) ?b b'" by (rule replaced_spares [OF ok q(1) _ _ rows]) (use q(2) in simp_all)
        have "in_history b' ?r" if "bb_state ?r = bb_state q"
          using q(3) in_history_state [OF _ that, of b'] tracked_history [OF rows(2)] by simp
        then have "\<exists>r\<in>set (bb_rows b'). bb_id r = i \<and> (bb_state r = bb_state q \<longrightarrow> in_history b' r)"
          using q(2) by (intro bexI [OF _ r]) simp
        then show "job_ok now b' (PatchJob i d s pc')" using fits t'(1) by simp
        show "job_touches (PatchJob i d s pc) l" if "job_watch (PatchJob i d s pc') = Some l" for l using that t'(1) by simp
        fix p assume p: "p \<in> set (bb_rows b')"
        have "p = ?r \<or> p \<in> set (bb_rows ?b) \<and> p \<noteq> q" using p by (auto simp: rows split: if_splits)
        moreover have "bb_id p \<noteq> i" if "p \<in> set (bb_rows ?b)" "p \<noteq> q" using same_row_id [OF ok that(1) q(1)] that(2) q(2) by auto
        ultimately show "p \<in> set (bb_rows ?b) \<and> \<not> job_touches (PatchJob i d s pc) (bb_id p) \<or> in_history b' p
            \<or> job_pending (PatchJob i d s pc') = Some (bb_id p)" using t'(1) q(2) by auto
      qed
    qed
  next
    case (PatchUpdated q)
    then obtain r where r: "r \<in> set (bb_rows ?b)" "bb_id r = i" "bb_state r = bb_state q \<longrightarrow> in_history ?b r" using job by auto
    have "getBlackboardRowById i ?b = Some r" using get_row_unique [OF soundD(2) [OF ok] r(1)] r(2) by simp
    then have "pc' = PatchReread q r" "b' = ?b" using t PatchUpdated by simp_all
    then show ?thesis by (intro stays) (use fits r in simp_all)
  next
    case (PatchReread q r)
    have r: "r \<in> set (bb_rows ?b)" "bb_id r = i" "bb_state r = bb_state q \<longrightarrow> in_history ?b r" using job PatchReread by simp_all
    have t': "pc' = PatchRecorded q r" "b' = record_change td now (Some q) r (pa_resolved d) ?b" using t PatchReread by simp_all
    have own: "in_history b' r" unfolding t'(2) by (rule in_history_own) (use r(3) in simp)
    show ?thesis
    proof (rule job_step [OF w j])
      show "board_sound now b'" unfolding t'(2) by (rule sound_record [OF ok])
      show "spares now (job_touches (PatchJob i d s pc)) ?b b'" unfolding t'(2) by (rule recorded_spares [OF ok r(1)]) (use r(2) in simp)
      show "job_ok now b' (PatchJob i d s pc')" using fits t'(1) by simp
      show "job_touches (PatchJob i d s pc) l" if "job_watch (PatchJob i d s pc') = Some l" for l using that t'(1) by simp
      fix p assume "p \<in> set (bb_rows b')"
      then have p: "p \<in> set (bb_rows ?b)" by (simp add: t'(2))
      then have "bb_id p = i \<Longrightarrow> p = r" using same_row_id [OF ok p r(1)] r(2) by simp
      then show "p \<in> set (bb_rows ?b) \<and> \<not> job_touches (PatchJob i d s pc) (bb_id p) \<or> in_history b' p
          \<or> job_pending (PatchJob i d s pc') = Some (bb_id p)" using p own by auto
    qed
  next
    case (PatchRecorded q r)
    have t': "pc' = PatchDone (Some r)" "b' = release_plan (Some q) r ?b" using t PatchRecorded by simp_all
    have same: "bb_rows b' = bb_rows ?b" "bb_history b' = bb_history ?b" by (simp_all add: t'(2))
    show ?thesis
    proof (rule job_step [OF w j])
      show "board_sound now b'" by (rule sound_same [OF ok same])
      show "spares now (job_touches (PatchJob i d s pc)) ?b b'" by (rule spares_same [OF same])
      show "job_ok now b' (PatchJob i d s pc')" using fits t'(1) by simp
      show "job_touches (PatchJob i d s pc) l" if "job_watch (PatchJob i d s pc') = Some l" for l using that t'(1) by simp
      fix p assume "p \<in> set (bb_rows b')"
      then have p: "p \<in> set (bb_rows ?b)" by (simp add: same)
      show "p \<in> set (bb_rows ?b) \<and> \<not> job_touches (PatchJob i d s pc) (bb_id p) \<or> in_history b' p
          \<or> job_pending (PatchJob i d s pc') = Some (bb_id p)"
        using told [OF p] p PatchRecorded tracked_history [OF same(2)] by auto
    qed
  next
    case (PatchDone res)
    then have "pc' = PatchDone res" "b' = ?b" using t by simp_all
    then show ?thesis by (intro stays) (use fits PatchDone in simp_all)
  next
    case PatchThrew
    then have "pc' = PatchThrew" "b' = ?b" using t by simp_all
    then show ?thesis by (intro stays) (use fits PatchThrew in simp_all)
  qed
qed


lemma sweep_turn_ok:
  assumes w: "world_ok now w" "undisturbed (MoveTurn k) w" and j: "bw_jobs w k = Some (SweepJob started pc)"
    and t: "sweep_turn td started now pc (bw_board w) = (pc', b')"
  shows "world_ok now (w\<lparr>bw_board := b', bw_jobs := (bw_jobs w)(k \<mapsto> SweepJob started pc')\<rparr>)"
proof -
  let ?b = "bw_board w"
  note ok = world_okD(1) [OF w(1)] and job = world_okD(4) [OF w(1) j]
  have began: "started \<le> now" using job by simp
  have told: "in_history ?b r" if "r \<in> set (bb_rows ?b)" "job_touches (SweepJob started pc) (bb_id r)" "job_pending (SweepJob started pc) \<noteq> Some (bb_id r)" for r
    by (rule settled [OF w j that])
  show ?thesis
  proof (cases pc)
    case (SweepRows ys)
    show ?thesis
    proof (cases ys)
      case Nil
      then have "pc' = SweepRows []" "b' = ?b" using t SweepRows by simp_all
      then show ?thesis by (intro job_step [OF w j]) (use ok began SweepRows Nil in simp_all)
    next
      case (Cons x xs)
      have due: "due_ok started ?b x" "list_all (due_ok started ?b) xs" using job SweepRows Cons by simp_all
      show ?thesis
      proof (cases "changed (sweep_guard x) (bb_rows ?b)")
        case False
        then have t': "pc' = SweepRows xs" "b' = ?b" using t SweepRows Cons by simp_all
        show ?thesis
        proof (rule job_step [OF w j])
          show "job_ok now b' (SweepJob started pc')" using due began by (simp add: t')
          fix r assume "r \<in> set (bb_rows b')"
          then show "r \<in> set (bb_rows ?b) \<and> \<not> job_touches (SweepJob started pc) (bb_id r) \<or> in_history b' r
              \<or> job_pending (SweepJob started pc') = Some (bb_id r)" using told [of r] by (auto simp: t' SweepRows Cons)
        qed (use ok t' in simp_all)
      next
        case True
        then obtain p where "p \<in> set (bb_rows ?b)" "sweep_guard x p" by (auto simp: changed_iff)
        then have x: "x \<in> set (bb_rows ?b)" using due(1) by (auto simp: due_ok_def)
        have sx: "sweepable x" "board_row_ok x" using due(1) by (simp_all add: due_ok_def)
        have t': "pc' = SweepMarked x xs" "b' = ?b\<lparr>bb_rows := map (\<lambda>p. if p = x then staled started x else p) (bb_rows ?b)\<rparr>"
          using t True mark_rows(2) [OF ok x, of started] SweepRows Cons by simp_all
        then have rows: "bb_rows b' = map (\<lambda>p. if p = x then staled started x else p) (bb_rows ?b)" "bb_history b' = bb_history ?b" by simp_all
        have sp: "spares now (job_touches (SweepJob started pc)) ?b b'"
          by (rule replaced_spares [OF ok x _ _ rows]) (simp_all add: SweepRows Cons)
        show ?thesis
        proof (rule job_step [OF w j _ sp])
          show "board_sound now b'" by (rule sound_replace [OF ok x _ _ staled_ok [OF sx(2,1)] rows]) simp_all
          have "staled started x \<in> set (bb_rows b')" using x by (auto simp: rows)
          then show "job_ok now b' (SweepJob started pc')"
            using dues_spared [OF due(2) sp began] sx began by (simp add: t'(1))
          show "job_touches (SweepJob started pc) l" if "job_watch (SweepJob started pc') = Some l" for l
            using that by (simp add: t'(1) SweepRows Cons)
          fix r assume "r \<in> set (bb_rows b')"
          then have "r = staled started x \<or> r \<in> set (bb_rows ?b) \<and> r \<noteq> x" by (auto simp: rows split: if_splits)
          moreover have "bb_id r \<noteq> bb_id x" if "r \<in> set (bb_rows ?b)" "r \<noteq> x" using same_row_id [OF ok that(1) x] that(2) by auto
          ultimately show "r \<in> set (bb_rows ?b) \<and> \<not> job_touches (SweepJob started pc) (bb_id r) \<or> in_history b' r
              \<or> job_pending (SweepJob started pc') = Some (bb_id r)" by (auto simp: t'(1) SweepRows Cons)
        qed
      qed
    qed
  next
    case (SweepMarked x xs)
    have jx: "list_all (due_ok started ?b) xs" "staled started x \<in> set (bb_rows ?b)" "sweepable x" "board_row_ok x"
      using job SweepMarked by simp_all
    let ?e = "x\<lparr>bb_status := BoardStale, bb_by := None, bb_reason := None\<rparr>"
    have t': "pc' = SweepRecorded x xs" "b' = insertBlackboardHistory td now ?e None ?b" using t SweepMarked by simp_all
    have "bb_state (staled started x) = bb_state ?e" using jx(3,4) by (auto simp: bb_state_def staled_def board_row_ok_def sweepable_def)
    then have own: "in_history b' (staled started x)"
      using in_history_entry [of td now ?e None ?b] in_history_state [of "staled started x" ?e b'] by (simp add: t'(2))
    have rows: "bb_rows b' = bb_rows ?b" by (simp add: t'(2))
    have "in_history b' p" if "p \<in> set (bb_rows ?b)" "bb_id p \<noteq> bb_id x" "in_history ?b p" for p
    proof -
      have "p \<noteq> staled started x" using that(2) by auto
      then have "bb_agent ?e \<noteq> bb_agent p" using same_agent [OF ok jx(2) that(1)] by auto
      then show ?thesis unfolding t'(2) using that(3) by (simp add: in_history_other(2))
    qed
    then have sp: "spares now (job_touches (SweepJob started pc)) ?b b'" by (auto simp: spares_def rows SweepMarked)
    show ?thesis
    proof (rule job_step [OF w j _ sp])
      show "board_sound now b'" unfolding t'(2) by (rule sound_entry [OF ok])
      show "job_ok now b' (SweepJob started pc')" using dues_spared [OF jx(1) sp began] began by (simp add: t'(1))
      show "job_touches (SweepJob started pc) l" if "job_watch (SweepJob started pc') = Some l" for l using that by (simp add: t'(1))
      fix r assume "r \<in> set (bb_rows b')"
      then have r: "r \<in> set (bb_rows ?b)" by (simp only: rows)
      then have "bb_id r = bb_id x \<Longrightarrow> r = staled started x" using same_row_id [OF ok r jx(2)] by simp
      then show "r \<in> set (bb_rows ?b) \<and> \<not> job_touches (SweepJob started pc) (bb_id r) \<or> in_history b' r
          \<or> job_pending (SweepJob started pc') = Some (bb_id r)" using r own by (auto simp: SweepMarked)
    qed
  next
    case (SweepRecorded x xs)
    have t': "pc' = SweepRows xs" "b' = deactivatePlanForAgent (bb_agent x) ?b" using t SweepRecorded by simp_all
    have same: "bb_rows b' = bb_rows ?b" "bb_history b' = bb_history ?b" by (simp_all add: t'(2))
    have sp: "spares now (job_touches (SweepJob started pc)) ?b b'" by (rule spares_same [OF same])
    show ?thesis
    proof (rule job_step [OF w j _ sp])
      show "board_sound now b'" by (rule sound_same [OF ok same])
      show "job_ok now b' (SweepJob started pc')" using dues_spared [OF _ sp began] job began SweepRecorded by (simp add: t'(1))
    qed (simp_all add: t'(1) same SweepRecorded)
  qed
qed

lemma world_kept:
  assumes w: "world_ok now w" and b': "board_sound now b'" "bb_rows b' = bb_rows (bw_board w)"
    and kept: "\<And>r. in_history (bw_board w) r \<Longrightarrow> in_history b' r"
  shows "world_ok now (w\<lparr>bw_board := b'\<rparr>)"
proof -
  have sp: "spares now A (bw_board w) b'" for A using kept b'(2) by (simp add: spares_def)
  have jobs: "job_ok now b' j" if j: "bw_jobs w k = Some j" for k j
    by (rule job_spared [OF world_okD(4) [OF w j] sp [of "\<lambda>_. False"]]) simp
  have told: "in_history b' r \<or> (\<exists>k j. bw_jobs w k = Some j \<and> job_pending j = Some (bb_id r))" if "r \<in> set (bb_rows b')" for r
    using world_okD(3) [OF w, of r] kept that b'(2) by auto
  have sel: "bw_board (w\<lparr>bw_board := b'\<rparr>) = b'" "bw_jobs (w\<lparr>bw_board := b'\<rparr>) = bw_jobs w" by simp_all
  show ?thesis unfolding world_ok_def sel using b'(1) told jobs world_okD(2) [OF w] by blast
qed

lemma world_same:
  assumes "world_ok now w" "bb_rows b' = bb_rows (bw_board w)" "bb_history b' = bb_history (bw_board w)"
  shows "world_ok now (w\<lparr>bw_board := b'\<rparr>)"
  by (rule world_kept [OF assms(1) sound_same [OF world_okD(1) [OF assms(1)] assms(2,3)] assms(2)]) (simp add: tracked_history [OF assms(3)])

text \<open>A post.\<close>

lemma post_result:
  assumes ok: "board_sound now b" and u: "upsertBlackboard td now fresh a d b = Some (r, b')"
    and told: "\<And>q. q \<in> set (bb_rows b) \<Longrightarrow> bb_agent q = a \<Longrightarrow> in_history b q"
  shows "board_sound now b'" "spares now (\<lambda>i. list_ex (\<lambda>r. bb_id r = i \<and> bb_agent r = a) (bb_rows b)) b b'"
    "p \<in> set (bb_rows b') \<Longrightarrow> p \<in> set (bb_rows b) \<and> \<not> list_ex (\<lambda>r. bb_id r = bb_id p \<and> bb_agent r = a) (bb_rows b) \<or> in_history b' p"
proof -
  let ?A = "\<lambda>i. list_ex (\<lambda>r. bb_id r = i \<and> bb_agent r = a) (bb_rows b)"
  obtain b1 where w: "writeBlackboardRow td now fresh a d b = Some (r, b1)" and b': "b' = release_plan (findBlackboardRowByAgent a b) r b1"
    using u by (elim upsert_cases)
  have same: "bb_rows b' = bb_rows b1" "bb_history b' = bb_history b1" by (simp_all add: b')
  have "board_sound now b1 \<and> spares now ?A b b1 \<and> (\<forall>p\<in>set (bb_rows b1). p \<in> set (bb_rows b) \<and> \<not> ?A (bb_id p) \<or> in_history b1 p)"
    using w
  proof (cases rule: posted_cases)
    case 1
    let ?b = "b\<lparr>bb_rows := bb_rows b @ [r]\<rparr>"
    have a: "a \<notin> bb_agent ` set (bb_rows b)" "bb_agent r = a" using 1(1,3) by (simp_all add: find_row_none)
    have "board_sound now ?b" by (rule sound_append [OF ok]) (use 1 a posted_ok in simp_all)
    then have s: "board_sound now b1" unfolding 1(4) by (rule sound_record)
    have own: "in_history b1 r" unfolding 1(4) by (rule in_history_own) simp
    have "in_history b1 p" if "p \<in> set (bb_rows b)" "in_history b p" for p
      unfolding 1(4) using that a in_history_other(1) [of r p td now None "po_resolved d" ?b] tracked_history [of ?b b] by auto
    moreover have "\<not> ?A i" for i using a(1) by (auto simp: list_ex_iff)
    moreover have "bb_updated r = now" using 1(3) by simp
    moreover have "bb_rows b1 = bb_rows b @ [r]" by (simp add: 1(4))
    ultimately show ?thesis using s own by (auto simp: spares_def)
  next
    case (2 q)
    note q = find_row_agent [OF 2(1)]
    let ?b = "b\<lparr>bb_rows := sql_update (\<lambda>p. bb_agent p = a) (\<lambda>_. r) (bb_rows b)\<rparr>"
    have rows: "bb_rows ?b = map (\<lambda>p. if p = q then r else p) (bb_rows b)" "bb_history ?b = bb_history b"
      using update_one [of bb_agent "bb_rows b" q "\<lambda>_. r"] soundD(1) [OF ok] q by simp_all
    have r: "bb_agent r = bb_agent q" "bb_id r = bb_id q" "bb_updated r = now" "board_row_ok r" using 2(2,4) q posted_ok by simp_all
    have s: "board_sound now ?b" by (rule sound_replace [OF ok _ r(1,2,4) rows]) (use q in simp)
    have sp1: "spares now ?A b ?b" by (rule replaced_spares [OF ok _ _ _ rows]) (use q r in \<open>auto simp: list_ex_iff\<close>)
    have inr: "r \<in> set (bb_rows ?b)" unfolding rows using q by auto
    have Ar: "?A (bb_id r)" using q r(2) by (auto simp: list_ex_iff)
    have sp2: "spares now ?A ?b b1" unfolding 2(3) by (rule recorded_spares [where A = ?A, OF s inr Ar])
    have own: "in_history b1 r" unfolding 2(3)
    proof (rule in_history_own)
      assume "map_option bb_state (Some q) = Some (bb_state r)"
      then show "in_history ?b r" using told [of q] q in_history_state [of r q ?b] r(1) tracked_history [OF rows(2), of q] by simp
    qed
    have rows1: "bb_rows b1 = map (\<lambda>p. if p = q then r else p) (bb_rows b)" unfolding 2(3) using rows(1) by simp
    have sp: "spares now ?A b b1" using sp1 sp2 unfolding spares_def rows1 rows by auto
    have "p = r \<or> p \<in> set (bb_rows b) \<and> \<not> ?A (bb_id p)" if "p \<in> set (bb_rows b1)" for p
    proof -
      have "p = r \<or> p \<in> set (bb_rows b) \<and> p \<noteq> q" using that by (auto simp: rows1 split: if_splits)
      moreover have "\<not> ?A (bb_id p)" if "p \<in> set (bb_rows b)" "p \<noteq> q"
        unfolding list_ex_iff using same_row_id [OF ok that(1)] same_agent [OF ok, of _ q] q that(2) by metis
      ultimately show ?thesis by blast
    qed
    moreover have "board_sound now b1" unfolding 2(3) by (rule sound_record [OF s])
    ultimately show ?thesis using sp own by blast
  qed
  then have all: "board_sound now b1" "spares now ?A b b1"
    "\<And>p. p \<in> set (bb_rows b1) \<Longrightarrow> p \<in> set (bb_rows b) \<and> \<not> ?A (bb_id p) \<or> in_history b1 p" by blast+
  show "board_sound now b'" by (rule sound_same [OF all(1) same])
  show "spares now ?A b b'" using all(2) unfolding spares_def same by (simp add: tracked_history [OF same(2)])
  show "p \<in> set (bb_rows b) \<and> \<not> ?A (bb_id p) \<or> in_history b' p" if "p \<in> set (bb_rows b')"
    using all(3) [of p] that by (simp add: same tracked_history [OF same(2)])
qed

lemma last_filter_sorted:
  "sorted (map f xs) \<Longrightarrow> filter (\<lambda>x. c \<le> f x) xs = [] \<or> last (filter (\<lambda>x. c \<le> f x) xs) = last xs"
proof (induction xs rule: rev_induct)
  case (snoc x xs)
  then show ?case by (cases "c \<le> f x") (auto simp: filter_empty_conv sorted_append dest: order_trans)
qed simp

lemma prune_result:
  assumes ok: "board_sound now b"
  shows "board_sound now (pruneBlackboardHistory days t b)" "spares now A b (pruneBlackboardHistory days t b)"
    "in_history b r \<Longrightarrow> in_history (pruneBlackboardHistory days t b) r"
proof -
  let ?keep = "\<lambda>h. t - days * 86400 \<le> be_at h"
  have h: "bb_history (pruneBlackboardHistory days t b) = filter ?keep (bb_history b)"
    and rows: "bb_rows (pruneBlackboardHistory days t b) = bb_rows b"
    by (simp_all add: pruneBlackboardHistory_def linorder_not_less)
  have kept: "in_history (pruneBlackboardHistory days t b) r" if "in_history b r" for r
  proof -
    let ?es = "events_of (bb_agent r) b"
    have s: "sorted (map be_at ?es)" using ok by (simp add: board_sound_def sorted_filter)
    have e: "events_of (bb_agent r) (pruneBlackboardHistory days t b) = filter ?keep ?es"
      by (simp add: h conj_commute)
    have "filter ?keep ?es = [] \<or> last (filter ?keep ?es) = last ?es" by (rule last_filter_sorted [OF s])
    moreover have "?es = [] \<Longrightarrow> filter ?keep ?es = []" by (simp only: filter.simps)
    ultimately show ?thesis using that unfolding in_history_def e by argo
  qed
  then show "in_history b r \<Longrightarrow> in_history (pruneBlackboardHistory days t b) r" .
  show "spares now A b (pruneBlackboardHistory days t b)" using kept by (simp add: spares_def rows)
  show "board_sound now (pruneBlackboardHistory days t b)" using ok by (auto simp: board_sound_def h rows sorted_filter list_all_iff)
qed

lemma started_ok:
  assumes w: "world_ok now w" and n: "new_job now m (bw_board w) = Some (k, j)" and free: "bw_jobs w k = None" and fits: "move_fits m"
  shows "world_ok now (w\<lparr>bw_jobs := (bw_jobs w)(k \<mapsto> j)\<rparr>)"
proof -
  note ok = world_okD(1) [OF w]
  have j: "job_ok now (bw_board w) j \<and> job_watch j = None"
  proof (cases m)
    case (MovePatch k' i d s)
    then show ?thesis using n fits by (auto split: option.splits)
  next
    case (MoveSweep k' byAgent defaultSec assignedSec inFlight)
    have limits: "0 \<le> sweep_threshold (map_of byAgent) defaultSec assignedSec x" for x
    proof -
      have "0 \<le> t" if "map_of byAgent a = Some t" for a t
        using fits map_of_SomeD [OF that] by (auto simp: MoveSweep list_all_iff)
      then show ?thesis using fits by (auto simp: MoveSweep sweep_threshold_def split: option.split)
    qed
    have "due_ok now (bw_board w) x" if "x \<in> set (stale_rows (map_of byAgent) defaultSec assignedSec now inFlight (bw_board w))" for x
    proof -
      have x: "x \<in> set (bb_rows (bw_board w))" "sweepable x" "sweep_due (map_of byAgent) defaultSec assignedSec now inFlight x"
        using that by (simp_all add: stale_rows_def)
      have "bb_updated x < now" using x(3) limits [of x] by (simp add: sweep_due_def)
      then show ?thesis using x soundD(3) [OF ok x(1)] same_row_id [OF ok _ x(1)] by (auto simp: due_ok_def sweep_guard_def)
    qed
    then show ?thesis using n MoveSweep by (auto simp: list_all_iff)
  qed (use n in simp_all)
  then have quiet: "job_watch j \<noteq> Some i" "job_pending j \<noteq> Some i" for i using pending_watch [of j i] by auto
  have sel: "bw_board (w\<lparr>bw_jobs := (bw_jobs w)(k \<mapsto> j)\<rparr>) = bw_board w"
    "bw_jobs (w\<lparr>bw_jobs := (bw_jobs w)(k \<mapsto> j)\<rparr>) = (bw_jobs w)(k \<mapsto> j)" by simp_all
  have told: "in_history (bw_board w) r \<or> (\<exists>l j'. ((bw_jobs w)(k \<mapsto> j)) l = Some j' \<and> job_pending j' = Some (bb_id r))"
    if "r \<in> set (bb_rows (bw_board w))" for r
  proof -
    have "l \<noteq> k" if "bw_jobs w l = Some j'" for l j' using that free by auto
    then show ?thesis using world_okD(3) [OF w that] by (metis fun_upd_other)
  qed
  have unique: "k1 = k2" if "((bw_jobs w)(k \<mapsto> j)) k1 = Some j1" "((bw_jobs w)(k \<mapsto> j)) k2 = Some j2"
      "job_watch j1 = Some i" "job_watch j2 = Some i" for k1 k2 j1 j2 i
    using that quiet world_okD(2) [OF w] by (auto split: if_splits)
  have jobs: "job_ok now (bw_board w) l" if "((bw_jobs w)(k \<mapsto> j)) k1 = Some l" for k1 l
    using that j world_okD(4) [OF w] by (auto split: if_splits)
  show ?thesis unfolding world_ok_def sel using ok told unique jobs by blast
qed


lemma move_ok:
  assumes "world_ok t w" "t \<le> now" and fits: "move_fits m" and und: "undisturbed m w"
  shows "world_ok now (board_step td now m w)"
proof -
  have later: "job_ok now (bw_board w) j" if "job_ok t (bw_board w) j" for j
    using that assms(2) by (cases j) (auto split: patch_pc.splits sweep_pc.splits)
  have w: "world_ok now w" unfolding world_ok_def
    using sound_later [OF world_okD(1) [OF assms(1)] assms(2)] world_okD(2,3) [OF assms(1)] later [OF world_okD(4) [OF assms(1)]] by blast
  note ok = world_okD(1) [OF w]
  have same: "world_ok now (w\<lparr>bw_board := b'\<rparr>)" if "bb_rows b' = bb_rows (bw_board w)" "bb_history b' = bb_history (bw_board w)" for b'
    by (rule world_same) (use that w in simp_all)
  show ?thesis
  proof (cases m)
    case (MoveTurn k)
    show ?thesis
    proof (cases "bw_jobs w k")
      case None
      then show ?thesis using w MoveTurn by (simp add: board_step_def)
    next
      case (Some j)
      note u = und [unfolded MoveTurn]
      show ?thesis
      proof (cases j)
        case (PatchJob i d s pc)
        obtain pc' b' where p: "patch_turn td now i d s pc (bw_board w) = (pc', b')" by fastforce
        then show ?thesis using patch_turn_ok [OF w u _ p] Some MoveTurn PatchJob by (simp add: board_step_def)
      next
        case (SweepJob started pc)
        obtain pc' b' where p: "sweep_turn td started now pc (bw_board w) = (pc', b')" by fastforce
        then show ?thesis using sweep_turn_ok [OF w u _ p] Some MoveTurn SweepJob by (simp add: board_step_def)
      qed
    qed
  next
    case (MovePatch k i d s)
    then show ?thesis using started_ok [OF w, of m k] w fits by (simp add: board_step_def)
  next
    case (MoveSweep k byAgent defaultSec assignedSec inFlight)
    then show ?thesis using started_ok [OF w, of m k] w fits by (simp add: board_step_def)
  next
    case (MovePost fresh a d)
    show ?thesis
    proof (cases "upsertBlackboard td now fresh a d (bw_board w)")
      case None
      then show ?thesis using MovePost w by (simp add: board_step_def)
    next
      case (Some x)
      obtain r b' where x: "x = (r, b')" by (cases x)
      have apart: "\<not> list_ex (\<lambda>r. bb_id r = i \<and> bb_agent r = a) (bb_rows (bw_board w))" if "bw_jobs w k = Some j" "job_watch j = Some i" for k j i
        using undisturbedD [OF und that] MovePost by simp
      have told: "in_history (bw_board w) q" if q: "q \<in> set (bb_rows (bw_board w))" "bb_agent q = a" for q
        using world_okD(3) [OF w q(1)] apart [OF _ pending_watch] q by (auto simp: list_ex_iff)
      note pr = post_result [OF ok Some [unfolded x] told]
      have "world_ok now (w\<lparr>bw_board := b'\<rparr>)" by (rule board_other_step [OF w pr(1,2) apart pr(3)])
      then show ?thesis using Some x MovePost by (simp add: board_step_def)
    qed
  next
    case (MovePrune days)
    have "world_ok now (w\<lparr>bw_board := pruneBlackboardHistory days now (bw_board w)\<rparr>)"
      by (rule world_kept) (use w prune_result [OF ok] in \<open>simp_all add: pruneBlackboardHistory_def\<close>)
    then show ?thesis using MovePrune by (simp add: board_step_def)
  next
    case (MoveActivate registry a plan)
    then show ?thesis using same by (auto simp: board_step_def activatePlanForAgent_def split: option.split)
  qed (simp_all add: board_step_def same touchActivePlanHeartbeat_def sweepStaleActivePlans_def)
qed

lemma moves_ok:
  "world_ok t w \<Longrightarrow> sorted (t # map fst ms) \<Longrightarrow> list_all (move_fits \<circ> snd) ms \<Longrightarrow> undisturbed_run td ms w
    \<Longrightarrow> \<exists>t'. world_ok t' (board_run td ms w)"
proof (induction ms arbitrary: t w)
  case (Cons x ms)
  obtain now m where x: "x = (now, m)" by (cases x)
  have "world_ok now (board_step td now m w)" by (rule move_ok [of t]) (use Cons.prems x in simp_all)
  from Cons.IH [OF this] Cons.prems x show ?case by simp
qed auto

lemma world_empty: "world_ok t empty_world"
  by (simp add: world_ok_def board_sound_def empty_world_def empty_board_def)

lemma world_reached:
  assumes "sorted (map fst ms)" "list_all (move_fits \<circ> snd) ms" "undisturbed_run td ms empty_world"
  shows "\<exists>t. world_ok t (board_run td ms empty_world)"
proof (cases ms)
  case Nil
  then show ?thesis using world_empty by auto
next
  case (Cons x xs)
  then have "sorted (fst x # map fst ms)" using assms(1) by simp
  then show ?thesis using moves_ok [OF world_empty _ assms(2,3)] by blast
qed

section \<open>Properties\<close>

text \<open>
  C31: the history tells the board while nobody comes between. Take any sequence of posts, patches, sweeps, prunings and plan
  changes in the order of the clock, the steps of patches and sweeps interleaved with everything else, in which no row is
  touched by others from a patch's read of it, or a sweep's mark on it, to the entry that patch or sweep makes of it. Then every
  agent has one row, a row carries a block only while it is blocked, and the newest history entry of an agent, when it is not
  pruned and no job still owes its entry, is its row: the status, the summary, the reference and the block.
\<close>

theorem board_history_faithful:
  assumes "sorted (map fst ms)" "list_all (move_fits \<circ> snd) ms" "undisturbed_run td ms empty_world"
    and "w = board_run td ms empty_world"
  shows "distinct (map bb_agent (bb_rows (bw_board w)))
    \<and> (\<forall>r\<in>set (bb_rows (bw_board w)). (bb_status r \<noteq> BoardBlocked \<longrightarrow> bb_by r = None \<and> bb_reason r = None) \<and> length (bb_summary r) \<le> 500
        \<and> ((\<forall>k j. bw_jobs w k = Some j \<longrightarrow> job_pending j \<noteq> Some (bb_id r)) \<longrightarrow>
           (\<forall>hs h. filter (\<lambda>h. be_agent h = bb_agent r) (bb_history (bw_board w)) = hs @ [h] \<longrightarrow>
             be_status h = bb_status r \<and> be_summary h = bb_summary r \<and> be_task h = bb_task r \<and> be_by h = bb_by r \<and> be_reason h = bb_reason r)))"
proof -
  obtain t where w: "world_ok t w" using world_reached [OF assms(1-3)] assms(4) by blast
  note ok = world_okD(1) [OF w]
  have "(bb_status r \<noteq> BoardBlocked \<longrightarrow> bb_by r = None \<and> bb_reason r = None) \<and> length (bb_summary r) \<le> 500"
    if "r \<in> set (bb_rows (bw_board w))" for r
    using soundD(3) [OF ok that] by (auto simp: board_row_ok_def SUMMARY_MAX_def)
  moreover have "be_state h = bb_state r"
    if "r \<in> set (bb_rows (bw_board w))" "\<forall>k j. bw_jobs w k = Some j \<longrightarrow> job_pending j \<noteq> Some (bb_id r)"
      "events_of (bb_agent r) (bw_board w) = hs @ [h]" for r hs h
    using world_okD(3) [OF w that(1)] that(2,3) by (auto simp: in_history_def)
  ultimately show ?thesis using soundD(1) [OF ok] unfolding be_state_def bb_state_def by simp
qed

text \<open>A board on which the moves have been made.\<close>

definition demo_post :: "board_status \<Rightarrow> string \<Rightarrow> board_post" where
  "demo_post st t = \<lparr>po_task = None, po_status = Some st, po_summary = t, po_by = Some ''owner'', po_reason = None, po_resolved = None\<rparr>"

definition demo_patch :: board_patch where
  "demo_patch = \<lparr>pa_status = None, pa_summary = Some ''tests'', pa_task = None, pa_by = None, pa_reason = None, pa_resolved = None\<rparr>"

definition demo_moves :: "(int \<times> board_move) list" where
  "demo_moves = [(1, MovePost ''k1'' ''dev'' (demo_post BoardActive ''build'')), (2, MovePatch 0 ''k1'' demo_patch AnyRow), (2, MoveTurn 0),
     (2, MovePost ''k2'' ''ops'' (demo_post BoardBlocked ''wait'')), (3, MoveTurn 0), (3, MoveTurn 0), (3, MoveTurn 0), (3, MoveTurn 0)]"

definition demo_board :: board where
  "demo_board = bw_board (board_run demo_tenants demo_moves empty_world)"

text \<open>The check of a run whose jobs are numbered below \<open>n\<close>.\<close>

definition quiet_move :: "nat \<Rightarrow> board_move \<Rightarrow> board_world \<Rightarrow> bool" where
  "quiet_move n m w \<longleftrightarrow> list_all (\<lambda>k. case bw_jobs w k of
       None \<Rightarrow> True
     | Some j \<Rightarrow> (case job_watch j of None \<Rightarrow> True
         | Some i \<Rightarrow> (case m of MoveTurn l \<Rightarrow> l = k | _ \<Rightarrow> False) \<or> \<not> move_touches w m i)) [0..<n]
     \<and> (case m of MovePatch k _ _ _ \<Rightarrow> k < n | MoveSweep k _ _ _ _ \<Rightarrow> k < n | _ \<Rightarrow> True)"

fun quiet_run :: "nat \<Rightarrow> tenant_db \<Rightarrow> (int \<times> board_move) list \<Rightarrow> board_world \<Rightarrow> bool" where
  "quiet_run n td [] w \<longleftrightarrow> True"
| "quiet_run n td ((now, m) # ms) w \<longleftrightarrow> quiet_move n m w \<and> quiet_run n td ms (board_step td now m w)"

lemma step_jobs:
  assumes "\<forall>k\<ge>n. bw_jobs w k = None" "quiet_move n m w"
  shows "\<forall>k\<ge>n. bw_jobs (board_step td now m w) k = None"
  using assms by (cases m) (auto simp: board_step_def quiet_move_def split: option.split prod.split)

lemma quiet_undisturbed:
  assumes "\<forall>k\<ge>n. bw_jobs w k = None" "quiet_move n m w"
  shows "undisturbed m w"
  unfolding undisturbed_def
proof (intro allI impI)
  fix k j i assume k: "bw_jobs w k = Some j \<and> job_watch j = Some i \<and> m \<noteq> MoveTurn k"
  then have "k < n" using assms(1) by (metis not_le_imp_less option.distinct(1))
  then have "(case m of MoveTurn l \<Rightarrow> l = k | _ \<Rightarrow> False) \<or> \<not> move_touches w m i"
    using assms(2) k by (auto simp: quiet_move_def list_all_iff dest!: bspec [where x = k])
  then show "\<not> move_touches w m i" using k by (cases m) auto
qed

lemma quiet_run_undisturbed: "\<forall>k\<ge>n. bw_jobs w k = None \<Longrightarrow> quiet_run n td ms w \<Longrightarrow> undisturbed_run td ms w"
proof (induction ms arbitrary: w)
  case (Cons x ms)
  obtain now m where x: "x = (now, m)" by (cases x)
  then have "quiet_move n m w" "quiet_run n td ms (board_step td now m w)" using Cons.prems(2) by simp_all
  then show ?case using Cons.IH step_jobs [OF Cons.prems(1)] quiet_undisturbed [OF Cons.prems(1)] by (simp add: x)
qed simp

lemma board_history_faithful_witness:
  "map (\<lambda>r. (bb_agent r, bb_status r, bb_summary r, bb_by r)) (bb_rows demo_board)
     = [(''dev'', BoardActive, ''tests'', None), (''ops'', BoardBlocked, ''wait'', Some ''owner'')]
   \<and> distinct (map bb_agent (bb_rows demo_board))"
proof -
  have f: "sorted (map fst demo_moves)" "list_all (move_fits \<circ> snd) demo_moves"
    by (simp_all add: demo_moves_def demo_patch_def SUMMARY_MAX_def)
  have "quiet_run 1 demo_tenants demo_moves empty_world" by code_simp
  then have u: "undisturbed_run demo_tenants demo_moves empty_world"
    by (rule quiet_run_undisturbed [rotated]) (simp add: empty_world_def)
  have "map (\<lambda>r. (bb_agent r, bb_status r, bb_summary r, bb_by r)) (bb_rows demo_board)
     = [(''dev'', BoardActive, ''tests'', None), (''ops'', BoardBlocked, ''wait'', Some ''owner'')]" by code_simp
  with board_history_faithful [OF f u refl] show ?thesis by (simp add: demo_board_def)
qed












text \<open>
  A patch holds no lock between its read and its write, unlike the posts: a post that lands in between is overwritten with the
  status the patch has read, and a patch that changes none of the fields it has read leaves no trace of it in the history.
\<close>

theorem overlapping_patch_loses_post:
  "let b = bw_board (board_run demo_tenants [(1, MovePost ''k1'' ''dev'' (demo_post BoardActive ''tests'')),
         (2, MovePatch 0 ''k1'' demo_patch AnyRow), (2, MoveTurn 0), (2, MovePost ''k2'' ''dev'' (demo_post BoardDone ''tests'')),
         (3, MoveTurn 0), (3, MoveTurn 0), (3, MoveTurn 0), (3, MoveTurn 0)] empty_world)
   in map bb_status (bb_rows b) = [BoardActive] \<and> map be_status (bb_history b) = [BoardActive, BoardDone]"
  by code_simp

text \<open>
  Nor does a sweep between its mark and its entry: a post that lands there is the row, and the newest entry says stale.
\<close>

theorem overlapping_sweep_misreports:
  "let b = bw_board (board_run demo_tenants [(1, MovePost ''k1'' ''dev'' (demo_post BoardActive ''build'')), (100, MoveSweep 0 [] 60 60 []),
         (100, MoveTurn 0), (100, MovePost ''k2'' ''dev'' (demo_post BoardActive ''tests'')), (100, MoveTurn 0)] empty_world)
   in map bb_status (bb_rows b) = [BoardActive] \<and> map be_status (bb_history b) = [BoardActive, BoardActive, BoardStale]"
  by code_simp


end
