(* ===== verification/MessageHygiene.thy ===== *)
theory MessageHygiene
  imports JsBase
begin

text \<open>
  What happens to the text of a message before it is stored: card references become card numbers
  (\<open>src/web/kanban-ref-normalize.ts\<close>, with the lookup of \<open>src/db/kanban.ts\<close>) and personal data is cut out
  (\<open>scrubPiiFromContent\<close> of \<open>src/prompt-safety.ts\<close>). The expressions need the order in which a backtracking matcher
  tries its choices: \<open>ends\<close> lists where a match may end, the preferred end first, and a global replacement takes
  the first.
\<close>

section \<open>A backtracking matcher\<close>

text \<open>A place in a text: the character before it and the rest.\<close>

type_synonym place = "char option \<times> string"

datatype bx =
    BChar "char \<Rightarrow> bool"
  | BSeq bx bx
  | BAlt bx bx
  | BOpt bx
  | BRep "char \<Rightarrow> bool" nat "nat option"
  | BEdge

text \<open>The places after 0, 1, ... characters of a class, at most \<open>n\<close>.\<close>

fun class_run :: "(char \<Rightarrow> bool) \<Rightarrow> nat \<Rightarrow> place \<Rightarrow> place list" where
  "class_run f 0 h = [h]"
| "class_run f (Suc n) (p, []) = [(p, [])]"
| "class_run f (Suc n) (p, c # s) = (p, c # s) # (if f c then class_run f n (Some c, s) else [])"

definition edge_before :: "char option \<Rightarrow> bool" where
  "edge_before p = (case p of Some c \<Rightarrow> is_word c | None \<Rightarrow> False)"

definition edge_after :: "string \<Rightarrow> bool" where
  "edge_after s = (case s of c # _ \<Rightarrow> is_word c | [] \<Rightarrow> False)"

fun ends :: "bx \<Rightarrow> place \<Rightarrow> place list" where
  "ends (BChar f) h = (case h of (_, c # s) \<Rightarrow> if f c then [(Some c, s)] else [] | _ \<Rightarrow> [])"
| "ends (BSeq r q) h = concat (map (ends q) (ends r h))"
| "ends (BAlt r q) h = ends r h @ ends q h"
| "ends (BOpt r) h = ends r h @ [h]"
| "ends (BRep f least most) h = rev (drop least (class_run f (case most of Some n \<Rightarrow> n | None \<Rightarrow> length (snd h)) h))"
| "ends BEdge h = (if edge_before (fst h) \<noteq> edge_after (snd h) then [h] else [])"

fun bx_seq :: "bx list \<Rightarrow> bx" where
  "bx_seq [] = BRep (\<lambda>_. False) 0 None"
| "bx_seq [r] = r"
| "bx_seq (r # q # rs) = BSeq r (bx_seq (q # rs))"

definition bx_text :: "string \<Rightarrow> bx" where
  "bx_text s = bx_seq (map (\<lambda>c. BChar (\<lambda>d. d = c)) s)"

text \<open>\<open>text.replace(rx, sentinel)\<close> with the global flag, for an expression that matches no empty text.\<close>

definition match_here :: "bx \<Rightarrow> place \<Rightarrow> place option" where
  "match_here r h = (case filter (\<lambda>e. length (snd e) < length (snd h)) (ends r h) of e # _ \<Rightarrow> Some e | [] \<Rightarrow> None)"

lemma match_here_in: "match_here r h = Some e \<Longrightarrow> e \<in> set (ends r h) \<and> length (snd e) < length (snd h)"
proof -
  assume "match_here r h = Some e"
  then obtain es where "filter (\<lambda>e. length (snd e) < length (snd h)) (ends r h) = e # es" by (auto simp: match_here_def split: list.splits)
  then have "e \<in> set (filter (\<lambda>e. length (snd e) < length (snd h)) (ends r h))" by simp
  then show ?thesis by simp
qed

lemma match_here_None: "match_here r h = None \<Longrightarrow> e \<in> set (ends r h) \<Longrightarrow> \<not> length (snd e) < length (snd h)"
  by (auto simp: match_here_def filter_empty_conv split: list.splits)

lemma match_here_shorter: "match_here r h = Some e \<Longrightarrow> length (snd e) < length (snd h)"
  using match_here_in by blast

function rx_replace :: "bx \<Rightarrow> string \<Rightarrow> place \<Rightarrow> string" where
  "rx_replace r sentinel (p, s) =
     (case s of [] \<Rightarrow> []
      | c # t \<Rightarrow> (case match_here r (p, s) of
            Some e \<Rightarrow> sentinel @ rx_replace r sentinel e
          | None \<Rightarrow> c # rx_replace r sentinel (Some c, t)))"
  by pat_completeness auto

termination by (relation "measure (\<lambda>(r, sentinel, h). length (snd h))") (auto dest: match_here_shorter)

declare rx_replace.simps [simp del]

section \<open>Card references\<close>

record card_key =
  ck_rowid :: nat
  ck_id :: string

definition getKanbanSeqByIdPrefix :: "card_key list \<Rightarrow> string \<Rightarrow> nat option" where
  "getKanbanSeqByIdPrefix cards prefix =
     (case filter (\<lambda>c. js_lower (ck_id c) = js_lower prefix) cards of [c] \<Rightarrow> Some (ck_rowid c) | _ \<Rightarrow> None)"

definition ref_hex :: "char \<Rightarrow> bool" where
  "ref_hex c \<longleftrightarrow> is_digit c \<or> lower_char c \<in> {CHR ''a'', CHR ''b'', CHR ''c'', CHR ''d'', CHR ''e'', CHR ''f''}"

definition HEX8_REF_RE :: bx where
  "HEX8_REF_RE = bx_seq [BChar (\<lambda>c. c = CHR ''#''), BRep ref_hex 8 (Some 8), BEdge]"

text \<open>The scan with its callback.\<close>

function rewrite_refs :: "(string \<Rightarrow> nat option) \<Rightarrow> place \<Rightarrow> string" where
  "rewrite_refs seq_of (p, s) =
     (case s of [] \<Rightarrow> []
      | c # t \<Rightarrow> (case match_here HEX8_REF_RE (p, s) of
            Some e \<Rightarrow>
              (let m = take (length s - length (snd e)) s in
               case seq_of (js_lower (tl m)) of Some n \<Rightarrow> CHR ''#'' # show_nat n @ rewrite_refs seq_of e | None \<Rightarrow> m @ rewrite_refs seq_of e)
          | None \<Rightarrow> c # rewrite_refs seq_of (Some c, t)))"
  by pat_completeness auto

termination by (relation "measure (\<lambda>(f, h). length (snd h))") (auto dest: match_here_shorter)

declare rewrite_refs.simps [simp del]

definition normalizeKanbanRefs :: "card_key list \<Rightarrow> string \<Rightarrow> string" where
  "normalizeKanbanRefs cards content =
     (if \<not> List.member content (CHR ''#'') then content else rewrite_refs (getKanbanSeqByIdPrefix cards) (None, content))"

section \<open>Personal data\<close>

definition PII_SENTINEL :: string where "PII_SENTINEL = ''[PII_REMOVED]''"

definition ascii_letter :: "char \<Rightarrow> bool" where
  "ascii_letter c \<longleftrightarrow> 65 \<le> code c \<and> code c \<le> 90 \<or> 97 \<le> code c \<and> code c \<le> 122"

definition mail_char :: "char \<Rightarrow> bool" where
  "mail_char c \<longleftrightarrow> ascii_letter c \<or> is_digit c \<or> c \<in> {CHR ''.'', CHR ''_'', CHR 0x25, CHR ''+'', CHR ''-''}"

definition domain_char :: "char \<Rightarrow> bool" where
  "domain_char c \<longleftrightarrow> ascii_letter c \<or> is_digit c \<or> c = CHR ''.'' \<or> c = CHR ''-''"

definition PII_EMAIL_RX :: bx where
  "PII_EMAIL_RX = bx_seq [BRep mail_char 1 None, BChar (\<lambda>c. c = CHR ''@''), BRep domain_char 1 None, BChar (\<lambda>c. c = CHR ''.''), BRep ascii_letter 2 None]"

definition dash_or_space :: "char \<Rightarrow> bool" where
  "dash_or_space c \<longleftrightarrow> is_ws c \<or> c = CHR ''-''"

definition PII_HU_PHONE_RX :: bx where
  "PII_HU_PHONE_RX = bx_seq [BAlt (bx_text ''+36'') (bx_text ''06''), BOpt (BChar dash_or_space), BRep is_digit 1 (Some 2), BOpt (BChar dash_or_space),
     BRep is_digit 3 (Some 3), BOpt (BChar dash_or_space), BRep is_digit 3 (Some 4), BEdge]"

definition PII_TAJ_RX :: bx where
  "PII_TAJ_RX = bx_seq [BEdge, BRep is_digit 3 (Some 3), BChar dash_or_space, BRep is_digit 3 (Some 3), BChar dash_or_space, BRep is_digit 3 (Some 3), BEdge]"

text \<open>A literal under the \<open>i\<close> flag.\<close>

definition any_case :: "string \<Rightarrow> bx" where
  "any_case s = bx_seq (map (\<lambda>c. BChar (\<lambda>d. lower_char d = c)) s)"

definition PII_HEALTH_METRIC_RX :: bx where
  "PII_HEALTH_METRIC_RX = bx_seq
     [BEdge, BAlt (bx_seq [any_case ''vo2'', BOpt (BChar is_ws), any_case ''max'']) (BAlt (any_case ''hrv'') (any_case ''hr'')),
      BRep is_ws 0 None, BOpt (BChar (\<lambda>c. c = CHR '':'' \<or> c = CHR ''='')), BRep is_ws 0 None, BRep is_digit 1 None,
      BOpt (BSeq (BChar (\<lambda>c. c = CHR ''.'')) (BRep is_digit 1 None)), BRep is_ws 0 None,
      BOpt (BAlt (any_case ''ms'') (BAlt (any_case ''bpm'') (any_case ''ml/kg/min''))), BEdge]"

definition scrubPiiFromContent :: "string \<Rightarrow> string" where
  "scrubPiiFromContent text0 =
     fold (\<lambda>r t. rx_replace r PII_SENTINEL (None, t)) [PII_EMAIL_RX, PII_HU_PHONE_RX, PII_TAJ_RX, PII_HEALTH_METRIC_RX] text0"

section \<open>No address survives\<close>

text \<open>An e-mail address somewhere in the text, said without the matcher.\<close>

definition holds_address :: "string \<Rightarrow> bool" where
  "holds_address s \<longleftrightarrow> (\<exists>a u d t b. s = a @ u @ CHR ''@'' # d @ CHR ''.'' # t @ b \<and> u \<noteq> [] \<and> d \<noteq> [] \<and> 2 \<le> length t
     \<and> list_all mail_char u \<and> list_all domain_char d \<and> list_all ascii_letter t)"

definition address_here :: "string \<Rightarrow> bool" where
  "address_here s \<longleftrightarrow> (\<exists>u d t b. s = u @ CHR ''@'' # d @ CHR ''.'' # t @ b \<and> u \<noteq> [] \<and> d \<noteq> [] \<and> 2 \<le> length t
     \<and> list_all mail_char u \<and> list_all domain_char d \<and> list_all ascii_letter t)"

lemma address_Cons: "holds_address (c # s) \<longleftrightarrow> address_here (c # s) \<or> holds_address s"
proof
  assume "holds_address (c # s)"
  then obtain a u d t b where *: "c # s = a @ u @ CHR ''@'' # d @ CHR ''.'' # t @ b" "u \<noteq> [] \<and> d \<noteq> [] \<and> 2 \<le> length t
     \<and> list_all mail_char u \<and> list_all domain_char d \<and> list_all ascii_letter t" unfolding holds_address_def by blast
  show "address_here (c # s) \<or> holds_address s"
  proof (cases a)
    case Nil
    then show ?thesis using * unfolding address_here_def by auto
  next
    case (Cons x a')
    then have "s = a' @ u @ CHR ''@'' # d @ CHR ''.'' # t @ b" using *(1) by simp
    then show ?thesis using *(2) unfolding holds_address_def by blast
  qed
next
  assume "address_here (c # s) \<or> holds_address s"
  then show "holds_address (c # s)"
  proof
    assume "address_here (c # s)"
    then show ?thesis unfolding address_here_def holds_address_def by (metis append_Nil)
  next
    assume "holds_address s"
    then show ?thesis unfolding holds_address_def by (metis append_Cons)
  qed
qed

lemma address_Nil [simp]: "\<not> holds_address []" "\<not> address_here []"
  by (auto simp: holds_address_def address_here_def)

lemma address_suffix: "holds_address s \<Longrightarrow> holds_address (a @ s)"
  by (induction a) (simp_all add: address_Cons)

text \<open>The matcher finds every address.\<close>

lemma class_run_reach:
  assumes "list_all f u" "length u \<le> n"
  shows "\<exists>p'. (p', s) \<in> set (drop (length u) (class_run f n (p, u @ s)))"
  using assms
proof (induction u arbitrary: n p)
  case Nil
  then show ?case by (cases n; cases s) auto
next
  case (Cons c u)
  then obtain m where "n = Suc m" by (cases n) auto
  with Cons show ?case by auto
qed

lemma class_run_from: "(p', s') \<in> set (class_run f n (p, s)) \<Longrightarrow> \<exists>v. s = v @ s'"
proof (induction f n "(p, s)" arbitrary: p s rule: class_run.induct)
  case (3 f n p c s)
  then show ?case by (auto split: if_splits)
qed auto

lemma ends_from: "(p', s') \<in> set (ends r (p, s)) \<Longrightarrow> \<exists>v. s = v @ s'"
proof (induction r arbitrary: p s p' s')
  case (BSeq r q)
  then obtain p1 s1 where *: "(p1, s1) \<in> set (ends r (p, s))" "(p', s') \<in> set (ends q (p1, s1))" by auto
  obtain v w where "s = v @ s1" "s1 = w @ s'" using BSeq.IH(1) [OF *(1)] BSeq.IH(2) [OF *(2)] by blast
  then show ?case by (intro exI [of _ "v @ w"]) simp
next
  case (BRep f least most)
  then show ?case by (auto dest!: in_set_dropD class_run_from)
qed (auto split: list.splits if_splits)

lemma ends_rep:
  assumes "list_all f u" "least \<le> length u"
  shows "\<exists>p'. (p', s) \<in> set (ends (BRep f least None) (p, u @ s))"
proof -
  obtain p' where "(p', s) \<in> set (drop (length u) (class_run f (length (u @ s)) (p, u @ s)))"
    using class_run_reach [OF assms(1), of "length (u @ s)" s p] by auto
  then have "(p', s) \<in> set (drop least (class_run f (length (u @ s)) (p, u @ s)))"
    using set_drop_subset_set_drop [OF assms(2), of "class_run f (length (u @ s)) (p, u @ s)"] by (rule rev_subsetD)
  then show ?thesis by auto
qed

lemma ends_char: "f c \<Longrightarrow> ends (BChar f) (p, c # s) = [(Some c, s)]"
  by simp

lemma address_matched:
  assumes "address_here s"
  shows "match_here PII_EMAIL_RX (p, s) \<noteq> None"
proof -
  obtain u d t b where *: "s = u @ CHR ''@'' # d @ CHR ''.'' # t @ b" "u \<noteq> []" "d \<noteq> []" "2 \<le> length t"
     "list_all mail_char u" "list_all domain_char d" "list_all ascii_letter t" using assms unfolding address_here_def by blast
  have len: "1 \<le> length u" "1 \<le> length d" using *(2,3) by (simp_all add: Suc_le_eq)
  obtain p1 where p1: "(p1, CHR ''@'' # d @ CHR ''.'' # t @ b) \<in> set (ends (BRep mail_char 1 None) (p, s))"
    using ends_rep [OF *(5) len(1)] *(1) by blast
  obtain p3 where p3: "(p3, CHR ''.'' # t @ b) \<in> set (ends (BRep domain_char 1 None) (Some CHR ''@'', d @ CHR ''.'' # t @ b))"
    using ends_rep [OF *(6) len(2)] by blast
  obtain p5 where p5: "(p5, b) \<in> set (ends (BRep ascii_letter 2 None) (Some CHR ''.'', t @ b))"
    using ends_rep [OF *(7,4)] by blast
  have q4: "(p5, b) \<in> set (ends (BSeq (BChar (\<lambda>c. c = CHR ''.'')) (BRep ascii_letter 2 None)) (p3, CHR ''.'' # t @ b))"
    unfolding ends.simps(2) using p5 by (simp del: ends.simps(5))
  have q3: "(p5, b) \<in> set (ends (BSeq (BRep domain_char 1 None) (BSeq (BChar (\<lambda>c. c = CHR ''.'')) (BRep ascii_letter 2 None)))
      (Some CHR ''@'', d @ CHR ''.'' # t @ b))"
    unfolding ends.simps(2) [of "BRep domain_char 1 None"] using p3 q4 by (auto simp del: ends.simps)
  have q2: "(p5, b) \<in> set (ends (BSeq (BChar (\<lambda>c. c = CHR ''@'')) (BSeq (BRep domain_char 1 None) (BSeq (BChar (\<lambda>c. c = CHR ''.''))
      (BRep ascii_letter 2 None)))) (p1, CHR ''@'' # d @ CHR ''.'' # t @ b))"
    unfolding ends.simps(2) [of "BChar (\<lambda>c. c = CHR ''@'')"] using q3 by (simp add: ends_char del: ends.simps)
  have "(p5, b) \<in> set (ends PII_EMAIL_RX (p, s))"
    unfolding PII_EMAIL_RX_def bx_seq.simps ends.simps(2) [of "BRep mail_char 1 None"] using p1 q2 by (auto simp del: ends.simps)
  moreover have "length b < length s" using *(1) by simp
  ultimately have "match_here PII_EMAIL_RX (p, s) = None \<Longrightarrow> False" using match_here_None [of PII_EMAIL_RX "(p, s)" "(p5, b)"] by simp
  then show ?thesis by (rule notI)
qed

text \<open>The sentinel stands apart: its brackets are in no address, and there is no at sign in it.\<close>

definition address_char :: "char \<Rightarrow> bool" where
  "address_char c \<longleftrightarrow> mail_char c \<or> domain_char c \<or> ascii_letter c \<or> c = CHR ''@'' \<or> c = CHR ''.''"

lemma bracket_apart: "\<not> address_char CHR ''[''" "\<not> address_char CHR '']''"
  by (simp_all add: address_char_def mail_char_def domain_char_def ascii_letter_def is_digit_def code_def)

lemma address_head:
  assumes "address_here s"
  obtains w b where "s = w @ b" "list_all address_char w" "CHR ''@'' \<in> set w" "\<And>b'. address_here (w @ b')"
proof -
  obtain u d t b where *: "s = u @ CHR ''@'' # d @ CHR ''.'' # t @ b" "u \<noteq> []" "d \<noteq> []" "2 \<le> length t"
     "list_all mail_char u" "list_all domain_char d" "list_all ascii_letter t" using assms unfolding address_here_def by blast
  let ?w = "u @ CHR ''@'' # d @ CHR ''.'' # t"
  have "list_all address_char ?w" using *(5-7) by (auto simp: list_all_iff address_char_def)
  moreover have "address_here (?w @ b')" for b'
    unfolding address_here_def using *(2-7) by (intro exI [of _ u] exI [of _ d] exI [of _ t] exI [of _ b']) simp
  ultimately show thesis using *(1) by (intro that [of ?w b]) simp_all
qed

lemma at_sign_apart:
  "w @ b = v @ CHR '']'' # s \<Longrightarrow> list_all address_char w \<Longrightarrow> CHR ''@'' \<in> set w \<Longrightarrow> CHR ''@'' \<in> set v"
proof (induction v arbitrary: w)
  case Nil
  then show ?case using bracket_apart(2) by (cases w) auto
next
  case (Cons c v)
  then obtain w' where w': "w = c # w'" by (cases w) auto
  show ?case
  proof (cases "c = CHR ''@''")
    case False
    then have "CHR ''@'' \<in> set w'" using Cons.prems(3) w' by auto
    moreover have "w' @ b = v @ CHR '']'' # s" "list_all address_char w'" using Cons.prems(1,2) w' by simp_all
    ultimately show ?thesis using Cons.IH by simp
  qed simp
qed

lemma no_address_across:
  assumes "CHR ''@'' \<notin> set v"
  shows "\<not> address_here (v @ CHR '']'' # s)"
proof
  assume "address_here (v @ CHR '']'' # s)"
  then obtain w b where w: "v @ CHR '']'' # s = w @ b" "list_all address_char w" "CHR ''@'' \<in> set w" by (rule address_head)
  from at_sign_apart [OF w(1) [symmetric] w(2,3)] assms show False by contradiction
qed

lemma address_after_text:
  assumes "CHR ''@'' \<notin> set v" "holds_address (v @ CHR '']'' # s)"
  shows "holds_address s"
  using assms
proof (induction v)
  case Nil
  have "\<not> address_here (CHR '']'' # s)" using no_address_across [of "[]" s] by simp
  with Nil show ?case by (simp add: address_Cons)
next
  case (Cons c v)
  have "\<not> address_here (c # v @ CHR '']'' # s)" using no_address_across [OF Cons.prems(1), of s] by simp
  with Cons.prems(2) have "holds_address (v @ CHR '']'' # s)" by (simp add: address_Cons)
  with Cons.IH Cons.prems(1) show ?case by simp
qed

lemma sentinel_text: "\<exists>v. PII_SENTINEL = v @ [CHR '']''] \<and> CHR ''@'' \<notin> set v" "\<exists>v. PII_SENTINEL = CHR ''['' # v"
  by (intro exI [of _ "''[PII_REMOVED''"]) (simp_all add: PII_SENTINEL_def)

lemma address_after_sentinel: "holds_address (PII_SENTINEL @ s) \<Longrightarrow> holds_address s"
proof -
  assume h: "holds_address (PII_SENTINEL @ s)"
  obtain v where v: "PII_SENTINEL = v @ [CHR '']'']" "CHR ''@'' \<notin> set v" using sentinel_text(1) by blast
  have "holds_address (v @ CHR '']'' # s)" using h unfolding v(1) by simp
  then show ?thesis by (rule address_after_text [OF v(2)])
qed

text \<open>A part of the output without a bracket was there before.\<close>

lemma replace_prefix:
  "rx_replace r PII_SENTINEL h = w @ b \<Longrightarrow> CHR ''['' \<notin> set w \<Longrightarrow> \<exists>b'. snd h = w @ b'"
proof (induction r PII_SENTINEL h arbitrary: w b rule: rx_replace.induct)
  case (1 r p s)
  show ?case
  proof (cases w)
    case (Cons x w')
    with "1.prems" obtain c t where s: "s = c # t" by (cases s) (auto simp: rx_replace.simps)
    show ?thesis
    proof (cases "match_here r (p, s)")
      case None
      then have "c # rx_replace r PII_SENTINEL (Some c, t) = w @ b" using "1.prems"(1) s by (simp add: rx_replace.simps [of r _ p])
      then have "c # rx_replace r PII_SENTINEL (Some c, t) = x # (w' @ b)" unfolding Cons append_Cons .
      then have cx: "c = x \<and> rx_replace r PII_SENTINEL (Some c, t) = w' @ b" by (rule list.inject [THEN iffD1])
      note rest = cx [THEN conjunct2]
      have x: "x = c" using cx by simp
      have "CHR ''['' \<notin> set w'" using "1.prems"(2) Cons by simp
      from "1.hyps"(1) [OF s None rest this] show ?thesis using Cons s x by auto
    next
      case (Some e)
      then have "w @ b = PII_SENTINEL @ rx_replace r PII_SENTINEL e" using "1.prems" s by (simp add: rx_replace.simps [of r _ p])
      moreover obtain v where "PII_SENTINEL = CHR ''['' # v" using sentinel_text(2) by blast
      ultimately have "x # (w' @ b) = CHR ''['' # (v @ rx_replace r PII_SENTINEL e)" by (metis Cons append_Cons)
      then have "x = CHR ''[''" by (rule list.inject [THEN iffD1, THEN conjunct1])
      then show ?thesis using Cons "1.prems"(2) by simp
    qed
  qed simp
qed

text \<open>A pass keeps a text free of addresses, and the pass for addresses makes it so.\<close>

lemma replace_free:
  assumes "r = PII_EMAIL_RX \<or> \<not> holds_address (snd h)"
  shows "\<not> holds_address (rx_replace r PII_SENTINEL h)"
  using assms
proof (induction r PII_SENTINEL h rule: rx_replace.induct)
  case (1 r p s)
  show ?case
  proof (cases s)
    case Nil
    then show ?thesis by (simp add: rx_replace.simps)
  next
    case (Cons c t)
    show ?thesis
    proof (cases "match_here r (p, s)")
      case (Some e)
      obtain p' s' where e: "e = (p', s')" by (cases e)
      have "e \<in> set (ends r (p, s))" using match_here_in [OF Some] by blast
      then obtain v where "s = v @ s'" using ends_from e by blast
      then have "r = PII_EMAIL_RX \<or> \<not> holds_address (snd e)" using "1.prems" address_suffix e by auto
      with "1.hyps"(2) [OF Cons Some] have "\<not> holds_address (rx_replace r PII_SENTINEL e)" by blast
      then show ?thesis using Some Cons address_after_sentinel by (auto simp: rx_replace.simps [of r _ p])
    next
      case None
      have out: "rx_replace r PII_SENTINEL (p, s) = c # rx_replace r PII_SENTINEL (Some c, t)"
        using None Cons by (simp add: rx_replace.simps [of r _ p])
      have "\<not> holds_address (rx_replace r PII_SENTINEL (Some c, t))"
        using "1.hyps"(1) [OF Cons None] "1.prems" Cons by (auto simp: address_Cons)
      moreover have "\<not> address_here (rx_replace r PII_SENTINEL (p, s))"
      proof
        assume "address_here (rx_replace r PII_SENTINEL (p, s))"
        then obtain w b where w: "rx_replace r PII_SENTINEL (p, s) = w @ b" "list_all address_char w" "\<And>b'. address_here (w @ b')"
          by (elim address_head) blast
        have "CHR ''['' \<notin> set w" using w(2) bracket_apart(1) by (auto simp: list_all_iff)
        from replace_prefix [OF w(1) this] obtain b' where "s = w @ b'" by auto
        then have "address_here s" using w(3) by simp
        then show False using address_matched [of s p] None "1.prems" Cons by (auto simp: address_Cons)
      qed
      ultimately show ?thesis unfolding out by (simp add: address_Cons)
    qed
  qed
qed

lemma scrub_no_address: "\<not> holds_address (scrubPiiFromContent s)"
  by (simp add: scrubPiiFromContent_def replace_free)

end
