(* ===== verification/MessageRoutes.thy ===== *)
theory MessageRoutes
  imports Blackboard ApprovalRoutes MessageFrame MessageHygiene
begin

text \<open>
  The message endpoints, \<open>src/web/routes/messages.ts\<close>: posting a message, writing its outcome, and the main agent's
  inbox (\<open>drain-inbox\<close> of \<open>src/web/routes/agents-process.ts\<close>). A handler takes the identity the request gate
  resolved, the parsed body, the clock in seconds and the fresh ids it draws, and gives the answer and the new tables.
  The audit log, log lines, telemetry and the homoglyph warning are left out. The hints of a refusal are named by the
  field or the code of the answer.
\<close>

section \<open>Server and state\<close>

record federation_peers =
  fp_system :: string
  fp_peers :: "string list"

record message_server =
  sm_store :: store_env
  sm_routing :: routing_env
  sm_federation :: "federation_peers option"
  sm_partners :: "(string \<times> string \<times> bool) list"
  sm_cards :: "card_key list"
  sm_enforced :: bool
  sm_json :: "jsval \<Rightarrow> string"

record mail_world =
  mw_db :: message_db
  mw_board :: board

datatype mail_reply = Stored message | MailRefused nat string | MailError | MailClosed

text \<open>A row of \<open>partner_senders\<close> says whether it is disabled.\<close>

definition isAuthorizedPartnerSender :: "message_server \<Rightarrow> string \<Rightarrow> string \<Rightarrow> bool" where
  "isAuthorizedPartnerSender srv sender tenant \<longleftrightarrow> list_ex (\<lambda>(s, t, disabled). s = sender \<and> t = tenant \<and> \<not> disabled) (sm_partners srv)"

fun role_text :: "role \<Rightarrow> string" where
  "role_text Admin = ''admin''"
| "role_text Agent = ''agent''"
| "role_text ReadOnly = ''read_only''"
| "role_text Viewer = ''viewer''"
| "role_text FleetAgent = ''fleet_agent''"
| "role_text (OtherRole r) = r"

abbreviation is_known :: "message_server \<Rightarrow> string \<Rightarrow> bool" where
  "is_known srv a \<equiv> isKnownAgent (re_trust (sm_routing srv)) (sanitizeAgentIdent a)"

definition is_system_sender :: "message_server \<Rightarrow> string \<Rightarrow> bool" where
  "is_system_sender srv a \<longleftrightarrow> List.member (parseSystemSenderIds (re_system_ids (sm_routing srv))) (sanitizeAgentIdent a)"

definition own_agent :: "route_ctx \<Rightarrow> string" where
  "own_agent ctx = (case ctx_token_agent ctx of Some a \<Rightarrow> a | None \<Rightarrow> [])"

definition call_tenant :: "route_ctx \<Rightarrow> string option" where
  "call_tenant ctx = (case ctx_tenant ctx of Some (Some t) \<Rightarrow> Some t | _ \<Rightarrow> None)"

definition partnerTenantCall :: "route_ctx \<Rightarrow> bool" where
  "partnerTenantCall ctx \<longleftrightarrow> call_tenant ctx \<noteq> None \<and> call_tenant ctx \<noteq> Some UNBOUND_SOURCE_TENANT"

definition bound_agent :: "auth_result \<Rightarrow> route_ctx \<Rightarrow> string option" where
  "bound_agent auth ctx = (if partnerTenantCall ctx then None else agentBoundAdminId auth ctx)"

definition isPartnerTenant :: "route_ctx \<Rightarrow> bool" where
  "isPartnerTenant ctx \<longleftrightarrow> ctx_role ctx \<noteq> Some FleetAgent \<and> partnerTenantCall ctx"

definition effectiveTenantId :: "route_ctx \<Rightarrow> string" where
  "effectiveTenantId ctx = (if ctx_role ctx = Some Admin then UNBOUND_SOURCE_TENANT else board_tenant ctx)"

definition isHumanAdmin :: "auth_result \<Rightarrow> route_ctx \<Rightarrow> bool" where
  "isHumanAdmin auth ctx \<longleftrightarrow> ctx_role ctx = Some Admin \<and> is_session auth"

definition declaredFromOfAgentBoundAdmin :: "message_server \<Rightarrow> auth_result \<Rightarrow> route_ctx \<Rightarrow> string \<Rightarrow> string option" where
  "declaredFromOfAgentBoundAdmin srv auth ctx from_agent =
     (case agentBoundAdminId auth ctx of
        None \<Rightarrow> None
      | Some own \<Rightarrow>
          (let declared = sanitizeAgentIdent from_agent in
           if declared = [] \<or> declared = sanitizeAgentIdent own then None
           else if List.member BUILTIN_SYSTEM_FROM declared \<or> is_system_sender srv from_agent then None
           else Some (js_trim from_agent)))"

section \<open>POST /api/messages: the sender\<close>

text \<open>
  An omitted sender is the agent of the token, and a fleet agent's sender is always that agent; a claim of it that
  is not a string throws.
\<close>

definition post_sender :: "auth_result \<Rightarrow> route_ctx \<Rightarrow> jsval \<Rightarrow> mail_reply + jsval" where
  "post_sender auth ctx claimed =
     (if ctx_role ctx = Some FleetAgent then
        (case claimed of
           JUndef \<Rightarrow> Inr (JStr (own_agent ctx))
         | JNull \<Rightarrow> Inr (JStr (own_agent ctx))
         | JStr s \<Rightarrow>
             if js_trim s \<noteq> [] \<and> sanitizeAgentIdent s \<noteq> sanitizeAgentIdent (own_agent ctx) then Inl (MailRefused 403 ''forbidden'')
             else Inr (JStr (own_agent ctx))
         | _ \<Rightarrow> Inl MailError)
      else case bound_agent auth ctx of
          None \<Rightarrow> Inr claimed
        | Some a \<Rightarrow>
            Inr (case claimed of JUndef \<Rightarrow> JStr a | JNull \<Rightarrow> JStr a | JStr s \<Rightarrow> if js_trim s = [] then JStr a else claimed | _ \<Rightarrow> claimed))"

definition text_field :: "jsval \<Rightarrow> string option option" where
  "text_field v = (case v of JUndef \<Rightarrow> Some None | JNull \<Rightarrow> Some None | JStr s \<Rightarrow> Some (Some s) | _ \<Rightarrow> None)"

definition present :: "string option \<Rightarrow> bool" where
  "present v = (case v of Some s \<Rightarrow> js_trim s \<noteq> [] | None \<Rightarrow> False)"

definition post_fields :: "jsval \<Rightarrow> jsval \<Rightarrow> jsval \<Rightarrow> mail_reply + string \<times> string \<times> string" where
  "post_fields f t c =
     (case text_field f of None \<Rightarrow> Inl (MailRefused 400 ''from'')
      | Some fo \<Rightarrow>
     (case text_field t of None \<Rightarrow> Inl (MailRefused 400 ''to'')
      | Some to' \<Rightarrow>
     (case text_field c of None \<Rightarrow> Inl (MailRefused 400 ''content'')
      | Some co \<Rightarrow>
          if present fo \<and> present to' \<and> present co then Inr (the fo, the to', the co) else Inl (MailRefused 400 ''required''))))"

text \<open>The senders nobody may claim over HTTP, and the markers only the server writes.\<close>

definition post_guards :: "message_server \<Rightarrow> auth_result \<Rightarrow> route_ctx \<Rightarrow> string \<Rightarrow> string \<Rightarrow> mail_reply option" where
  "post_guards srv auth ctx from_agent content =
     (if claimsServerSender from_agent then Some (MailRefused 403 ''reserved_sender'')
      else if findReservedMarker (se_unicode (sm_store srv)) (points_of content) \<noteq> None then Some (MailRefused 400 ''reserved_marker'')
      else if sanitizeAgentIdent from_agent = COORDINATOR_AGENT_ID then Some (MailRefused 403 ''coordinator'')
      else if List.member from_agent (CHR ''/'') then Some (MailRefused 403 ''sender_not_in_allowlist'')
      else if bound_agent auth ctx \<noteq> None \<and> sm_enforced srv \<and> declaredFromOfAgentBoundAdmin srv auth ctx from_agent \<noteq> None
        then Some (MailRefused 403 ''sender_token_mismatch'')
      else None)"

text \<open>The stored spelling is the token's own.\<close>

definition settle_sender :: "auth_result \<Rightarrow> route_ctx \<Rightarrow> string \<Rightarrow> string" where
  "settle_sender auth ctx from_agent =
     (case bound_agent auth ctx of
        Some a \<Rightarrow> if sanitizeAgentIdent from_agent = sanitizeAgentIdent a then a else from_agent
      | None \<Rightarrow> from_agent)"

definition check_registered :: "message_server \<Rightarrow> route_ctx \<Rightarrow> string \<Rightarrow> mail_reply option" where
  "check_registered srv ctx from_agent =
     (if isPartnerTenant ctx then
        (if isAuthorizedPartnerSender srv (sanitizeAgentIdent from_agent) (the (call_tenant ctx)) then None
         else Some (MailRefused 403 ''sender_not_in_allowlist''))
      else if sanitizeAgentIdent from_agent = sanitizeAgentIdent (re_owner (sm_routing srv)) \<or> is_system_sender srv from_agent
          \<or> is_known srv from_agent then None
      else Some (MailRefused 404 ''from''))"

section \<open>POST /api/messages: the recipient\<close>

definition post_recipient :: "message_server \<Rightarrow> string \<Rightarrow> mail_reply + string" where
  "post_recipient srv to_raw =
     (let storedTo = js_trim to_raw in
      if List.member storedTo (CHR ''/'') then
        (case parseQualifiedId storedTo of
           None \<Rightarrow> Inl (MailRefused 400 ''federatedAddress'')
         | Some q \<Rightarrow>
             (case sm_federation srv of
                None \<Rightarrow> Inl (MailRefused 400 ''federation_disabled'')
              | Some cfg \<Rightarrow>
                  (let system = js_lower (fed_system q) in
                   if system = fp_system cfg then Inl (MailRefused 400 ''peerId'')
                   else if \<not> List.member (fp_peers cfg) system then Inl (MailRefused 404 ''peerId'')
                   else Inr (formatQualifiedId system (fed_agent q)))))
      else if List.member storedTo (CHR '':'') then Inl (MailRefused 400 ''recipient'')
      else if \<not> is_known srv storedTo then Inl (MailRefused 400 ''to'')
      else Inr storedTo)"

definition post_facts :: "auth_result \<Rightarrow> route_ctx \<Rightarrow> string \<Rightarrow> sender_facts" where
  "post_facts auth ctx from_agent =
     \<lparr>sf_role = map_option role_text (ctx_role ctx), sf_tenant = call_tenant ctx, sf_token_agent = ctx_token_agent ctx,
      sf_bound_agent = bound_agent auth ctx, sf_from = sanitizeAgentIdent from_agent, sf_partner = isPartnerTenant ctx\<rparr>"

definition post_route :: "message_server \<Rightarrow> auth_result \<Rightarrow> route_ctx \<Rightarrow> string \<Rightarrow> string \<Rightarrow> mail_reply option" where
  "post_route srv auth ctx from_agent storedTo =
     (if List.member storedTo (CHR ''/'') then None
      else let mode = getSenderRoutingMode (re_mode (sm_routing srv)) in
        case buildRoutingContext (sm_routing srv) of
          None \<Rightarrow> if mode = RouteEnforce then Some MailError else None
        | Some rc \<Rightarrow>
            if denied mode (judgeRoute (classifyRouteSender (sm_routing srv) (post_facts auth ctx from_agent)) storedTo rc)
            then Some (MailRefused 403 ''sender_route_denied'') else None)"

section \<open>POST /api/messages: the text and the row\<close>

definition piiScrubBypassed :: "auth_result \<Rightarrow> route_ctx \<Rightarrow> jsval \<Rightarrow> bool" where
  "piiScrubBypassed auth ctx flag \<longleftrightarrow> flag = JBool True \<and> isHumanAdmin auth ctx"

definition stored_text :: "message_server \<Rightarrow> bool \<Rightarrow> string \<Rightarrow> string" where
  "stored_text srv bypass content =
     (let t = normalizeKanbanRefs (sm_cards srv) (js_trim content) in
      if bypass \<or> starts_with t COMPLETION_REPORT_PREFIX then t else scrubPiiFromContent t)"

text \<open>\<open>None\<close> when the note is neither a string nor absent: its \<open>trim\<close> throws.\<close>

definition origin_label :: "jsval \<Rightarrow> string option option" where
  "origin_label v =
     (case text_field v of None \<Rightarrow> None | Some None \<Rightarrow> Some None
      | Some (Some s) \<Rightarrow> Some (case take 120 (js_trim s) of [] \<Rightarrow> None | c # t \<Rightarrow> Some (c # t)))"

definition envelope_text :: "message_server \<Rightarrow> jsval \<Rightarrow> string option" where
  "envelope_text srv v = (case v of JUndef \<Rightarrow> None | JNull \<Rightarrow> None | JStr s \<Rightarrow> Some s | _ \<Rightarrow> Some (sm_json srv v))"

definition assign_hook :: "message_server \<Rightarrow> int \<Rightarrow> string \<Rightarrow> jsval \<Rightarrow> string \<Rightarrow> string \<Rightarrow> board \<Rightarrow> board option" where
  "assign_hook srv now fresh flag storedTo content b =
     (if flag = JBool True \<and> \<not> List.member storedTo (CHR ''/'')
         \<and> (case findBlackboardRowByAgent storedTo b of None \<Rightarrow> True | Some r \<Rightarrow> bb_status r \<noteq> BoardActive \<and> bb_status r \<noteq> BoardBlocked)
      then map_option snd (upsertBlackboard (se_tenants (sm_store srv)) now fresh storedTo
             \<lparr>po_task = None, po_status = Some BoardAssigned, po_summary = take 100 content, po_by = None, po_reason = None, po_resolved = None\<rparr> b)
      else Some b)"

definition complete_hook :: "message_server \<Rightarrow> int \<Rightarrow> jsval \<Rightarrow> string \<Rightarrow> board \<Rightarrow> board option" where
  "complete_hook srv now flag sender b =
     (case findBlackboardRowByAgent sender b of
        Some r \<Rightarrow>
          if flag = JBool True \<and> (bb_status r = BoardAssigned \<or> bb_status r = BoardActive \<or> bb_status r = BoardBlocked)
          then map_option snd (upsertBlackboard (se_tenants (sm_store srv)) now (bb_id r) (bb_agent r)
             \<lparr>po_task = bb_task r, po_status = Some BoardDone, po_summary = bb_summary r, po_by = None, po_reason = None, po_resolved = None\<rparr> b)
          else Some b
      | None \<Rightarrow> Some b)"

text \<open>The hooks run after the row is stored; a throw there is a 500 with the row in place.\<close>

definition run_hooks :: "message_server \<Rightarrow> int \<Rightarrow> string \<Rightarrow> jsval \<Rightarrow> message \<Rightarrow> mail_world \<Rightarrow> mail_reply \<times> mail_world" where
  "run_hooks srv now fresh v m w =
     (case assign_hook srv now fresh (js_prop v ''assign'') (m_to m) (m_content m) (mw_board w) of
        None \<Rightarrow> (MailError, w)
      | Some b1 \<Rightarrow>
          (case complete_hook srv now (js_prop v ''complete'') (m_from m) b1 of
             None \<Rightarrow> (MailError, w\<lparr>mw_board := b1\<rparr>)
           | Some b2 \<Rightarrow> (Stored m, w\<lparr>mw_board := b2\<rparr>)))"

definition post_draft :: "message_server \<Rightarrow> auth_result \<Rightarrow> route_ctx \<Rightarrow> jsval \<Rightarrow> string option \<Rightarrow> string \<Rightarrow> string \<Rightarrow> string \<Rightarrow> draft" where
  "post_draft srv auth ctx v origin from_agent storedTo content =
     \<lparr>d_from = js_trim from_agent, d_to = storedTo,
      d_content = stored_text srv (piiScrubBypassed auth ctx (js_prop v ''no_pii_scrub'')) content,
      d_origin_note = origin, d_trace = None, d_tenant = effectiveTenantId ctx,
      d_envelope = envelope_text srv (js_prop v ''envelope''), d_pin = False\<rparr>"

definition post_store ::
  "message_server \<Rightarrow> auth_result \<Rightarrow> route_ctx \<Rightarrow> jsval \<Rightarrow> string \<Rightarrow> string \<Rightarrow> string \<Rightarrow> string \<Rightarrow> int \<Rightarrow> mail_world \<Rightarrow> mail_reply \<times> mail_world" where
  "post_store srv auth ctx v from_agent storedTo content fresh now w =
     (case origin_label (js_prop v ''origin_note'') of
        None \<Rightarrow> (MailError, w)
      | Some origin \<Rightarrow>
          (case createAgentMessage (se_unicode (sm_store srv)) (se_tenants (sm_store srv)) (se_max_age (sm_store srv)) now
                  (post_draft srv auth ctx v origin from_agent storedTo content) (mw_db w) of
             None \<Rightarrow> (MailError, w)
           | Some (m, db) \<Rightarrow> run_hooks srv now fresh v m (w\<lparr>mw_db := db\<rparr>)))"

text \<open>All checks in their order; what passes is the sender, the recipient and the text.\<close>

definition post_checks :: "message_server \<Rightarrow> auth_result \<Rightarrow> route_ctx \<Rightarrow> jsval \<Rightarrow> mail_reply + string \<times> string \<times> string" where
  "post_checks srv auth ctx v =
     (case post_sender auth ctx (js_prop v ''from'') of Inl r \<Rightarrow> Inl r
      | Inr f0 \<Rightarrow>
     (case post_fields f0 (js_prop v ''to'') (js_prop v ''content'') of Inl r \<Rightarrow> Inl r
      | Inr (f1, t, c) \<Rightarrow>
     (case post_guards srv auth ctx f1 c of Some r \<Rightarrow> Inl r
      | None \<Rightarrow>
     (let f = settle_sender auth ctx f1 in
      case check_registered srv ctx f of Some r \<Rightarrow> Inl r
      | None \<Rightarrow>
     (case post_recipient srv t of Inl r \<Rightarrow> Inl r
      | Inr storedTo \<Rightarrow>
     (case post_route srv auth ctx f storedTo of Some r \<Rightarrow> Inl r
      | None \<Rightarrow> Inr (f, storedTo, c)))))))"

definition post_message :: "message_server \<Rightarrow> auth_result \<Rightarrow> route_ctx \<Rightarrow> jsval option \<Rightarrow> string \<Rightarrow> int \<Rightarrow> mail_world \<Rightarrow> mail_reply \<times> mail_world" where
  "post_message srv auth ctx body fresh now w =
     (case body of None \<Rightarrow> (MailError, w)
      | Some v \<Rightarrow>
          if v = JNull then (MailError, w)
          else (case post_checks srv auth ctx v of
              Inl r \<Rightarrow> (r, w)
            | Inr (f, storedTo, c) \<Rightarrow> post_store srv auth ctx v f storedTo c fresh now w))"

section \<open>PUT /api/messages/:id\<close>






section \<open>The main agent's inbox\<close>

definition INBOX_DRAIN_CAP :: nat where "INBOX_DRAIN_CAP = 10"

datatype drain_reply = DrainRefused | Drained "string list"

text \<open>A message that cannot be framed is failed, the others are shown.\<close>

fun show_claimed :: "trust_context \<Rightarrow> (nat \<Rightarrow> nat list) \<Rightarrow> int \<Rightarrow> message list \<Rightarrow> message_db \<Rightarrow> string list \<times> message_db" where
  "show_claimed trust nonce now [] db = ([], db)"
| "show_claimed trust nonce now (m # ms) db =
     (case classifyAgentMessage trust (m_from m) (m_to m) of
        None \<Rightarrow> show_claimed trust nonce now ms (snd (markMessageFailed (m_id m) (Some ''Invalid or empty from_agent'') now db))
      | Some (cat, safeFrom) \<Rightarrow>
          (let (prefix, wrapped) = wrapAgentMessageForDelivery (nonce (m_id m)) cat safeFrom (m_from m) (m_content m) (Some (m_id m)) (m_origin_note m);
               (rest, db') = show_claimed trust nonce now ms db
           in ((prefix @ wrapped) # rest, db')))"

definition drain_inbox :: "routing_env \<Rightarrow> (nat \<Rightarrow> nat list) \<Rightarrow> string \<Rightarrow> int \<Rightarrow> gate_state \<Rightarrow> drain_reply \<times> gate_state" where
  "drain_inbox e nonce name now st =
     (if name \<noteq> tc_main (re_trust e) then (DrainRefused, st)
      else let gate = openDeliveryGate e in
        case gate of ClosedGate \<Rightarrow> (Drained [], st)
        | _ \<Rightarrow> (let (claimed, db1) = claimPendingForAgent name INBOX_DRAIN_CAP now (gs_db st);
                  (kept, st1) = gate_judge e gate now claimed (st\<lparr>gs_db := db1\<rparr>);
                  (blocks, db2) = show_claimed (re_trust e) nonce now kept (gs_db st1)
              in (Drained blocks, st1\<lparr>gs_db := db2\<rparr>)))"

text \<open>The answer's text.\<close>

definition drain_text :: "string list \<Rightarrow> string" where
  "drain_text blocks = join_with (newline @ newline) blocks"

section \<open>What a stored message is\<close>

lemma ident_not_ws: "ident_char c \<Longrightarrow> \<not> is_ws c"
proof -
  have "code CHR ''-'' = 45" by (simp add: code_def)
  then show "ident_char c \<Longrightarrow> \<not> is_ws c" by (auto simp: ident_char_def is_word_def is_ws_def is_digit_def)
qed

lemma filter_drop_ws: "(\<And>c. P c \<Longrightarrow> \<not> is_ws c) \<Longrightarrow> filter P (dropWhile is_ws s) = filter P s"
  by (induction s) auto

lemma sanitize_trim [simp]: "sanitizeAgentIdent (js_trim s) = sanitizeAgentIdent s"
proof -
  have "filter ident_char (rev (dropWhile is_ws (rev t))) = filter ident_char t" for t
    by (simp add: rev_filter [symmetric] filter_drop_ws [OF ident_not_ws])
  then show ?thesis by (simp add: sanitizeAgentIdent_def js_trim_def filter_drop_ws [OF ident_not_ws])
qed

lemma set_trim: "set (js_trim s) \<subseteq> set s"
  by (auto simp: js_trim_def dest!: set_dropWhileD)

lemma post_checks_cases:
  assumes "post_checks srv auth ctx v = Inr (f, storedTo, c)"
  obtains f0 f1 t where "post_sender auth ctx (js_prop v ''from'') = Inr f0" "f0 = JStr f1" "js_trim f1 \<noteq> []"
    "js_prop v ''to'' = JStr t" "js_prop v ''content'' = JStr c"
    "post_guards srv auth ctx f1 c = None" "f = settle_sender auth ctx f1" "check_registered srv ctx f = None"
    "post_recipient srv t = Inr storedTo" "post_route srv auth ctx f storedTo = None"
proof -
  from assms obtain f0 f1 t where *: "post_sender auth ctx (js_prop v ''from'') = Inr f0"
    "post_fields f0 (js_prop v ''to'') (js_prop v ''content'') = Inr (f1, t, c)"
    "post_guards srv auth ctx f1 c = None" "f = settle_sender auth ctx f1" "check_registered srv ctx f = None"
    "post_recipient srv t = Inr storedTo" "post_route srv auth ctx f storedTo = None"
    by (auto simp: post_checks_def Let_def split: sum.splits option.splits)
  have tf: "text_field x = Some (Some s) \<Longrightarrow> x = JStr s" for x s by (cases x) (simp_all add: text_field_def)
  from *(2) have "text_field f0 = Some (Some f1)" "js_trim f1 \<noteq> []" "text_field (js_prop v ''to'') = Some (Some t)"
      "text_field (js_prop v ''content'') = Some (Some c)"
    by (auto simp: post_fields_def present_def split: option.splits if_splits)
  with * tf that show thesis by blast
qed

lemma hooks_keep_mail: "mw_db (snd (run_hooks srv now fresh v m w)) = mw_db w"
  by (simp add: run_hooks_def split: option.split)

lemma hooks_answer: "run_hooks srv now fresh v m w = (Stored q, w') \<Longrightarrow> q = m \<and> mw_db w' = mw_db w"
  by (auto simp: run_hooks_def split: option.splits)

text \<open>A refusal stores nothing.\<close>

lemma check_answers:
  "post_sender auth ctx x = Inl r \<Longrightarrow> r \<noteq> Stored m" "post_fields a b c = Inl r \<Longrightarrow> r \<noteq> Stored m"
  "post_guards srv auth ctx f t = Some r \<Longrightarrow> r \<noteq> Stored m" "check_registered srv ctx f = Some r \<Longrightarrow> r \<noteq> Stored m"
  "post_recipient srv t = Inl r \<Longrightarrow> r \<noteq> Stored m" "post_route srv auth ctx f t = Some r \<Longrightarrow> r \<noteq> Stored m"
       apply (auto simp: post_sender_def split: jsval.splits if_splits option.splits) [1]
      apply (auto simp: post_fields_def split: if_splits option.splits) [1]
     apply (auto simp: post_guards_def split: if_splits) [1]
    apply (auto simp: check_registered_def split: if_splits) [1]
   apply (auto simp: post_recipient_def Let_def split: if_splits option.splits) [1]
  apply (auto simp: post_route_def Let_def split: if_splits option.splits) [1]
  done

lemma checks_answer: "post_checks srv auth ctx v = Inl r \<Longrightarrow> r \<noteq> Stored m"
  unfolding post_checks_def Let_def using check_answers by (fastforce split: sum.splits option.splits)

lemma post_stored:
  assumes "post_message srv auth ctx body fresh now w = (Stored m, w')"
  obtains v f storedTo c origin where "body = Some v" "post_checks srv auth ctx v = Inr (f, storedTo, c)"
    "createAgentMessage (se_unicode (sm_store srv)) (se_tenants (sm_store srv)) (se_max_age (sm_store srv)) now
       (post_draft srv auth ctx v origin f storedTo c) (mw_db w) = Some (m, mw_db w')"
proof -
  from assms obtain v where v: "body = Some v" by (cases body) (simp_all add: post_message_def)
  show thesis
  proof (cases "post_checks srv auth ctx v")
    case (Inl r)
    have "r \<noteq> Stored m" by (rule checks_answer [OF Inl])
    then show thesis using assms v Inl by (auto simp: post_message_def split: if_splits)
  next
    case (Inr x)
    obtain f storedTo c where x: "x = (f, storedTo, c)" by (cases x)
    have s: "post_store srv auth ctx v f storedTo c fresh now w = (Stored m, w')"
      using assms v Inr x by (auto simp: post_message_def split: if_splits)
    then obtain origin m0 db where o: "createAgentMessage (se_unicode (sm_store srv)) (se_tenants (sm_store srv)) (se_max_age (sm_store srv)) now
       (post_draft srv auth ctx v origin f storedTo c) (mw_db w) = Some (m0, db)"
       "run_hooks srv now fresh v m0 (w\<lparr>mw_db := db\<rparr>) = (Stored m, w')"
      by (auto simp: post_store_def split: option.splits)
    from hooks_answer [OF o(2)] have "m0 = m" "db = mw_db w'" by simp_all
    with o(1) v Inr x that show thesis by blast
  qed
qed

lemma posted_row_facts:
  assumes "createAgentMessage uni td age now d db = Some (m, db')"
  shows "m_from m = d_from d" "m_to m = d_to d" "m_content m = d_content d" "m_id m = last_id db + 1" "m_status m = Unread"
    "m_tenant m = stamped_tenant td age now d" "msgs db' = msgs db @ [m]" "last_id db' = last_id db + 1"
    "findReservedMarker uni (points_of (d_content d)) = None \<or> isServerSender (d_from d)"
  using assms by (auto simp: createAgentMessage_def Let_def message_of_def blank_message_def insert_message_def assertNoReservedMarker_def split: if_splits)

text \<open>
  C28: a message is stored under the name of who sent it. A fleet agent posts as the agent of its token and as nobody
  else; an administrator's token that names an agent posts, when identities are enforced, as that agent or as a platform sender;
  a partner posts as a sender its tenant has registered; everybody else as the owner, a registered system or a known
  agent. Nobody posts as the server or the channel coordinator, an id of another installation is stored only where
  the token itself names it, and exactly the one row is added.
\<close>

theorem posted_under_own_name:
  assumes "post_message srv auth ctx body fresh now w = (Stored m, w')"
  shows "(ctx_role ctx = Some FleetAgent \<longrightarrow> m_from m = js_trim (own_agent ctx))
    \<and> (\<forall>a. bound_agent auth ctx = Some a \<and> sm_enforced srv \<longrightarrow> m_from m = js_trim a \<or> sanitizeAgentIdent (m_from m) = []
         \<or> List.member BUILTIN_SYSTEM_FROM (sanitizeAgentIdent (m_from m)) \<or> is_system_sender srv (m_from m))
    \<and> (if isPartnerTenant ctx then isAuthorizedPartnerSender srv (sanitizeAgentIdent (m_from m)) (the (call_tenant ctx))
       else sanitizeAgentIdent (m_from m) = sanitizeAgentIdent (re_owner (sm_routing srv)) \<or> is_system_sender srv (m_from m)
         \<or> isKnownAgent (re_trust (sm_routing srv)) (sanitizeAgentIdent (m_from m)))
    \<and> \<not> claimsServerSender (m_from m) \<and> sanitizeAgentIdent (m_from m) \<noteq> COORDINATOR_AGENT_ID
    \<and> (CHR ''/'' \<in> set (m_from m) \<longrightarrow> (\<exists>a. bound_agent auth ctx = Some a \<and> m_from m = js_trim a))
    \<and> msgs (mw_db w') = msgs (mw_db w) @ [m]"
proof -
  obtain v f storedTo c origin where p: "body = Some v" "post_checks srv auth ctx v = Inr (f, storedTo, c)"
    "createAgentMessage (se_unicode (sm_store srv)) (se_tenants (sm_store srv)) (se_max_age (sm_store srv)) now
       (post_draft srv auth ctx v origin f storedTo c) (mw_db w) = Some (m, mw_db w')"
    by (rule post_stored [OF assms])
  obtain f0 f1 t where c: "post_sender auth ctx (js_prop v ''from'') = Inr f0" "f0 = JStr f1"
    "post_guards srv auth ctx f1 c = None" "f = settle_sender auth ctx f1" "check_registered srv ctx f = None"
    by (rule post_checks_cases [OF p(2)])
  have f: "m_from m = js_trim f" "msgs (mw_db w') = msgs (mw_db w) @ [m]"
    using posted_row_facts [OF p(3)] by (simp_all add: post_draft_def)
  have sf: "sanitizeAgentIdent f = sanitizeAgentIdent f1" unfolding c(4) settle_sender_def by (auto split: option.split)
  have fleet: "f = own_agent ctx" if "ctx_role ctx = Some FleetAgent"
  proof -
    have "bound_agent auth ctx = None" using that by (auto simp: bound_agent_def agentBoundAdminId_def)
    moreover have "f1 = own_agent ctx" using c(1,2) that by (auto simp: post_sender_def split: jsval.splits if_splits)
    ultimately show ?thesis using c(4) by (simp add: settle_sender_def)
  qed
  have bound: "f = a \<or> sanitizeAgentIdent f = [] \<or> List.member BUILTIN_SYSTEM_FROM (sanitizeAgentIdent f) \<or> is_system_sender srv f"
    if "bound_agent auth ctx = Some a" "sm_enforced srv" for a
  proof -
    have ab: "agentBoundAdminId auth ctx = Some a" using that(1) by (auto simp: bound_agent_def split: if_splits)
    have "declaredFromOfAgentBoundAdmin srv auth ctx f1 = None" using c(3) that by (auto simp: post_guards_def split: if_splits)
    then have "sanitizeAgentIdent f1 = sanitizeAgentIdent a \<or> sanitizeAgentIdent f1 = [] \<or> List.member BUILTIN_SYSTEM_FROM (sanitizeAgentIdent f1) \<or> is_system_sender srv f1"
      by (auto simp: declaredFromOfAgentBoundAdmin_def ab Let_def split: if_splits)
    moreover have "f = a" if "sanitizeAgentIdent f1 = sanitizeAgentIdent a" using that \<open>bound_agent auth ctx = Some a\<close> c(4) by (simp add: settle_sender_def)
    ultimately show ?thesis by (auto simp: is_system_sender_def sf)
  qed
  have slash: "\<exists>a. bound_agent auth ctx = Some a \<and> f = a" if "CHR ''/'' \<in> set f"
  proof -
    have "CHR ''/'' \<notin> set f1" using c(3) by (auto simp: post_guards_def List.member_iff split: if_splits)
    then show ?thesis using that c(4) by (auto simp: settle_sender_def split: option.splits if_splits)
  qed
  have guards: "\<not> claimsServerSender f" "sanitizeAgentIdent f \<noteq> COORDINATOR_AGENT_ID"
    using c(3) by (auto simp: post_guards_def claimsServerSender_def sf split: if_splits)
  have reg: "if isPartnerTenant ctx then isAuthorizedPartnerSender srv (sanitizeAgentIdent f) (the (call_tenant ctx))
       else sanitizeAgentIdent f = sanitizeAgentIdent (re_owner (sm_routing srv)) \<or> is_system_sender srv f \<or> is_known srv f"
    using c(5) by (simp add: check_registered_def split: if_splits)
  show ?thesis
    using fleet bound slash guards reg f set_trim [of f] by (auto simp: is_system_sender_def claimsServerSender_def)
qed

text \<open>
  C27: no e-mail address is posted by accident. The text of a message stored by \<open>POST /api/messages\<close> holds an address only if
  it is a completion report or a person signed in as an administrator asked for it to be kept. The other writers of the
  table do not scrub.
\<close>

theorem stored_text_without_address:
  assumes "post_message srv auth ctx (Some v) fresh now w = (Stored m, w')" and "holds_address (m_content m)"
  shows "starts_with (m_content m) COMPLETION_REPORT_PREFIX
    \<or> js_prop v ''no_pii_scrub'' = JBool True \<and> ctx_role ctx = Some Admin \<and> (\<exists>u r t. auth = Session u r t)"
proof -
  obtain v1 f storedTo c origin where p: "Some v = Some v1"
    "createAgentMessage (se_unicode (sm_store srv)) (se_tenants (sm_store srv)) (se_max_age (sm_store srv)) now
       (post_draft srv auth ctx v1 origin f storedTo c) (mw_db w) = Some (m, mw_db w')"
    by (rule post_stored [OF assms(1)])
  then have "m_content m = stored_text srv (piiScrubBypassed auth ctx (js_prop v ''no_pii_scrub'')) c"
    using posted_row_facts(3) [OF p(2)] by (simp add: post_draft_def)
  then show ?thesis
    using assms(2) scrub_no_address
    by (auto simp: stored_text_def Let_def piiScrubBypassed_def isHumanAdmin_def is_session_def split: if_splits auth_result.splits)
qed

section \<open>What an outcome does\<close>








section \<open>What the inbox shows\<close>

definition shown_block :: "trust_context \<Rightarrow> (nat \<Rightarrow> nat list) \<Rightarrow> message \<Rightarrow> string" where
  "shown_block trust nonce m =
     (case classifyAgentMessage trust (m_from m) (m_to m) of
        Some (cat, safeFrom) \<Rightarrow>
          (case wrapAgentMessageForDelivery (nonce (m_id m)) cat safeFrom (m_from m) (m_content m) (Some (m_id m)) (m_origin_note m) of
             (prefix, wrapped) \<Rightarrow> prefix @ wrapped)
      | None \<Rightarrow> [])"

definition framable :: "trust_context \<Rightarrow> message \<Rightarrow> bool" where
  "framable trust m \<longleftrightarrow> classifyAgentMessage trust (m_from m) (m_to m) \<noteq> None"

lemma shown_blocks: "fst (show_claimed trust nonce now ms db) = map (shown_block trust nonce) (filter (framable trust) ms)"
  by (induction trust nonce now ms db rule: show_claimed.induct)
    (auto simp: shown_block_def framable_def Let_def split: option.split prod.split)

text \<open>The oldest waiting messages of an agent, a row as the claim hands it out, and whether the gate withholds it.\<close>

definition oldest_waiting :: "string \<Rightarrow> nat \<Rightarrow> message_db \<Rightarrow> message list" where
  "oldest_waiting a limit db = take limit (sort_key claim_order (filter (\<lambda>m. m_to m = a \<and> m_status m = Unread) (msgs db)))"

definition handed_out :: "int \<Rightarrow> message \<Rightarrow> message" where
  "handed_out now r = returned_columns (deliver_row now r)"

definition refusal_of :: "routing_env \<Rightarrow> message \<Rightarrow> string option" where
  "refusal_of e r =
     (case buildRoutingContext e of
        Some ctx \<Rightarrow> let d = delivery_verdict e ctx r in
          if getSenderRoutingMode (re_mode e) = RouteEnforce \<and> d \<noteq> Allow then Some (refusal_note d) else None
      | None \<Rightarrow> None)"

lemma shown_rows:
  "msgs (snd (show_claimed trust nonce now ms db)) =
     map (\<lambda>r. if \<exists>m\<in>set ms. \<not> framable trust m \<and> m_id m = m_id r then fail_row now (Some ''Invalid or empty from_agent'') r else r) (msgs db)"
proof (induction ms arbitrary: db)
  case (Cons m ms)
  show ?case
  proof (cases "classifyAgentMessage trust (m_from m) (m_to m)")
    case (Some c)
    obtain cat safeFrom where c: "c = (cat, safeFrom)" by (cases c)
    have "snd (show_claimed trust nonce now (m # ms) db) = snd (show_claimed trust nonce now ms db)"
      by (simp add: Some c Let_def split: prod.split)
    moreover have "framable trust m" by (simp add: framable_def Some)
    ultimately show ?thesis using Cons.IH [of db] by simp
  next
    case None
    then have "\<not> framable trust m" by (simp add: framable_def)
    moreover have "m_id (fail_row now t r) = m_id r" "fail_row now t (fail_row now t r) = fail_row now t r" for t r by (simp_all add: fail_row_def)
    ultimately show ?thesis using None
      by (auto simp: Cons.IH markMessageFailed_def update_messages_def sql_update_def)
  qed
qed simp

lemma refused_rows:
  "msgs (message_run se (refusals e mode ctx now ms) db) =
     map (\<lambda>r. if closed r then r else case find (\<lambda>m. shuts e mode ctx m \<and> m_id m = m_id r) ms of
         Some m \<Rightarrow> close_row CloseRefused now (Some (refusal_note (delivery_verdict e ctx m))) r | None \<Rightarrow> r) (msgs db)"
proof (induction ms arbitrary: db)
  case (Cons m ms)
  show ?case
  proof (cases "shuts e mode ctx m")
    case True
    let ?res = "Some (refusal_note (delivery_verdict e ctx m))"
    have run: "message_run se (refusals e mode ctx now (m # ms)) db
        = message_run se (refusals e mode ctx now ms) (snd (closeOpenMessage (m_id m) CloseRefused ?res now db))"
      using True by (simp add: refusals_def)
    have "closed (close_row CloseRefused now ?res r)" for r by (rule close_row_closed)
    then show ?thesis using True
      by (auto simp: run Cons.IH one_refusal sql_update_def open_row_def simp del: close_row.simps split: option.split)
  next
    case False
    then have "refusals e mode ctx now (m # ms) = refusals e mode ctx now ms" by (auto simp: refusals_def)
    then show ?thesis using False by (auto simp: Cons.IH simp del: close_row.simps intro!: arg_cong [where f = "case_option _ _"])
  qed
qed (auto simp: refusals_def intro!: map_idI [symmetric])

lemma handed_out_keys [simp]:
  "m_id (handed_out now r) = m_id r" "claim_order (handed_out now r) = claim_order r" "m_to (handed_out now r) = m_to r"
  "delivery_verdict e ctx (handed_out now r) = delivery_verdict e ctx r" "framable trust (handed_out now r) = framable trust r"
  by (simp_all add: handed_out_def returned_columns_def deliver_row_def claim_order_def delivery_verdict_def classifyDeliverySender_def framable_def)

lemma claim_rows:
  assumes ok: "ids_ok db" and claim: "claimPendingForAgent a limit now db = (ms, db')"
  defines "T \<equiv> oldest_waiting a limit db"
  shows "ms = map (handed_out now) T" "msgs db' = map (\<lambda>r. if r \<in> set T then deliver_row now r else r) (msgs db)"
    and "distinct (map m_id T)" "set T \<subseteq> set (msgs db)" "list_all (\<lambda>r. m_to r = a \<and> m_status r = Unread) T" "length T \<le> limit"
proof -
  let ?W = "filter (\<lambda>m. m_to m = a \<and> m_status m = Unread) (msgs db)"
  have T: "T = take limit (sort_key claim_order ?W)" by (simp add: T_def oldest_waiting_def)
  note c = claim_spec [OF ok claim, folded T]
  have W: "set ?W \<subseteq> set (msgs db)" "distinct (map m_id ?W)" using ok by (auto simp: ids_ok_def distinct_map_filter)
  show TM: "set T \<subseteq> set (msgs db)" using c(5) W(1) by blast
  show "list_all (\<lambda>r. m_to r = a \<and> m_status r = Unread) T" using c(5) by (auto simp: list_all_iff)
  show "length T \<le> limit" by (simp add: T)
  have "distinct (map m_id (sort_key claim_order ?W))" using W(2) by (simp add: distinct_map)
  then show dT: "distinct (map m_id T)" unfolding T by (simp add: take_map [symmetric])
  show "msgs db' = map (\<lambda>r. if r \<in> set T then deliver_row now r else r) (msgs db)"
  proof -
    have g: "List.member (claimed_ids a limit db) (m_id r) \<longleftrightarrow> r \<in> set T" if "r \<in> set (msgs db)" for r
      using same_row [OF ok that] TM by (auto simp: claimed_ids_def T List.member_iff)
    show ?thesis using claim g by (auto simp: claimPendingForAgent_def Let_def update_messages_def sql_update_def)
  qed
  have set_ms: "set ms = handed_out now ` set T" using c(1,2) by (auto simp: handed_out_def)
  have len: "length ms = length T" using c(4) by (simp add: T)
  have inj: "inj_on (handed_out now) (set T)"
    by (rule inj_onI, rule same_row [OF ok]) (use TM handed_out_keys(1) in \<open>auto, metis\<close>)
  have "card (set ms) = length ms" using dT len by (simp add: set_ms card_image [OF inj] distinct_card distinct_map)
  then have "distinct ms" by (rule card_distinct)
  have keys: "claim_order x = claim_order y \<Longrightarrow> m_id x = m_id y" for x y by (simp add: claim_order_def)
  have injT: "inj_on claim_order (set T)"
    by (intro inj_onI) (use keys same_row [OF ok] TM in blast)
  have injM: "inj_on claim_order (handed_out now ` set T)"
  proof (intro inj_onI, elim imageE)
    fix x y u v assume xy: "claim_order x = claim_order y" "x = handed_out now u" "u \<in> set T" "y = handed_out now v" "v \<in> set T"
    then have "claim_order u = claim_order v" by simp
    then show "x = y" using inj_onD [OF injT _ xy(3,5)] xy(2,4) by simp
  qed
  show "ms = map (handed_out now) T"
  proof (rule map_sorted_distinct_set_unique [of claim_order])
    show "inj_on claim_order (set ms \<union> set (map (handed_out now) T))"
      unfolding set_ms set_map Un_absorb by (rule injM)
    show "sorted (map claim_order ms)" by (rule c(3))
    show "distinct (map claim_order (map (handed_out now) T))"
      using injT dT by (simp add: comp_def distinct_map [of claim_order] distinct_map [of m_id])
    show "sorted (map claim_order (map (handed_out now) T))" by (simp add: comp_def T take_map [symmetric])
    show "distinct (map claim_order ms)" using injM \<open>distinct ms\<close> by (simp add: distinct_map set_ms)
    show "set ms = set (map (handed_out now) T)" by (simp add: set_ms)
  qed
qed


text \<open>What an open gate keeps and what becomes of the rows, whether it could read its tables or not.\<close>

lemma gate_rows:
  assumes "gate_judge e (openDeliveryGate e) now ms st = (kept, st')" "openDeliveryGate e \<noteq> ClosedGate"
  shows "kept = filter (\<lambda>m. refusal_of e m = None) ms"
    and "msgs (gs_db st') = map (\<lambda>r. if closed r then r
        else case find (\<lambda>m. (refusal_of e m \<noteq> None \<and> \<not> re_close_fails e (m_id m)) \<and> m_id m = m_id r) ms of
          Some m \<Rightarrow> close_row CloseRefused now (refusal_of e m) r | None \<Rightarrow> r) (msgs (gs_db st))"
proof -
  let ?mode = "getSenderRoutingMode (re_mode e)"
  consider (pass) "kept = ms" "st' = st" "buildRoutingContext e = None"
    | (judge) ctx where "buildRoutingContext e = Some ctx" "judgeDeliveryBatch e ?mode ctx now ms st = (kept, st')"
    using assms by (cases "buildRoutingContext e") (auto simp: openDeliveryGate_def Let_def split: if_splits)
  then have "kept = filter (\<lambda>m. refusal_of e m = None) ms
    \<and> msgs (gs_db st') = map (\<lambda>r. if closed r then r
        else case find (\<lambda>m. (refusal_of e m \<noteq> None \<and> \<not> re_close_fails e (m_id m)) \<and> m_id m = m_id r) ms of
          Some m \<Rightarrow> close_row CloseRefused now (refusal_of e m) r | None \<Rightarrow> r) (msgs (gs_db st))"
  proof cases
    case pass
    then have none: "refusal_of e m = None" for m by (simp add: refusal_of_def)
    have "find (\<lambda>m. False) ms = None" by (simp add: find_None_iff)
    then show ?thesis using pass none by (simp add: map_idI)
  next
    case (judge ctx)
    have r: "refusal_of e m = (if denied ?mode (delivery_verdict e ctx m) then Some (refusal_note (delivery_verdict e ctx m)) else None)" for m
      by (simp add: refusal_of_def judge(1) denied_def Let_def)
    have pick: "(case find (\<lambda>m. shuts e ?mode ctx m \<and> m_id m = m_id q) ms of
          Some m \<Rightarrow> close_row CloseRefused now (Some (refusal_note (delivery_verdict e ctx m))) q | None \<Rightarrow> q)
      = (case find (\<lambda>m. (refusal_of e m \<noteq> None \<and> \<not> re_close_fails e (m_id m)) \<and> m_id m = m_id q) ms of
          Some m \<Rightarrow> close_row CloseRefused now (refusal_of e m) q | None \<Rightarrow> q)" for q
    proof -
      have same: "(\<lambda>m. (refusal_of e m \<noteq> None \<and> \<not> re_close_fails e (m_id m)) \<and> m_id m = m_id q) = (\<lambda>m. shuts e ?mode ctx m \<and> m_id m = m_id q)"
        by (auto simp: r)
      show ?thesis unfolding same
        by (cases "find (\<lambda>m. shuts e ?mode ctx m \<and> m_id m = m_id q) ms") (auto simp: r dest!: find_SomeD simp del: close_row.simps)
    qed
    note g = gate_spec [OF judge(2), of demo_store_env]
    have "kept = filter (\<lambda>m. refusal_of e m = None) ms" using g by (simp add: r)
    then show ?thesis using g refused_rows [of demo_store_env e ?mode ctx now ms "gs_db st"] unfolding pick by simp
  qed
  then show "kept = filter (\<lambda>m. refusal_of e m = None) ms"
    and "msgs (gs_db st') = map (\<lambda>r. if closed r then r
        else case find (\<lambda>m. (refusal_of e m \<noteq> None \<and> \<not> re_close_fails e (m_id m)) \<and> m_id m = m_id r) ms of
          Some m \<Rightarrow> close_row CloseRefused now (refusal_of e m) r | None \<Rightarrow> r) (msgs (gs_db st))" by simp_all
qed

text \<open>What becomes of a claimed row.\<close>

definition after_drain :: "routing_env \<Rightarrow> int \<Rightarrow> message \<Rightarrow> message" where
  "after_drain e now r =
     (case refusal_of e r of
        Some why \<Rightarrow> if re_close_fails e (m_id r) then deliver_row now r else close_row CloseRefused now (Some why) (deliver_row now r)
      | None \<Rightarrow> if framable (re_trust e) r then deliver_row now r
          else fail_row now (Some ''Invalid or empty from_agent'') (deliver_row now r))"

lemma find_by_id:
  assumes "distinct (map m_id T)" "r \<in> set T" "\<And>q. m_id (f q) = m_id q"
  shows "find (\<lambda>m. P m \<and> m_id m = m_id r) (map f T) = (if P (f r) then Some (f r) else None)"
  using assms(1,2)
proof (induction T)
  case (Cons t T)
  have ne: "m_id x \<noteq> m_id t" if "x \<in> set T" for x using Cons.prems(1) imageI [OF that, of m_id] by auto
  then have tail: "find (\<lambda>m. P m \<and> m_id m = m_id t) (map f T) = None" by (auto simp: find_None_iff assms(3))
  show ?case
  proof (cases "r = t")
    case True
    then show ?thesis using tail by (simp add: assms(3))
  next
    case False
    then have "r \<in> set T" "m_id t \<noteq> m_id r" using Cons.prems by auto
    then show ?thesis using Cons.IH Cons.prems(1) by (simp add: assms(3))
  qed
qed simp

lemma find_other_id: "(\<And>m. m \<in> set ms \<Longrightarrow> m_id m \<noteq> i) \<Longrightarrow> find (\<lambda>m. P m \<and> m_id m = i) ms = None"
  by (auto simp: find_None_iff)

lemma refusal_handed_out [simp]: "refusal_of e (handed_out now r) = refusal_of e r"
  by (simp add: refusal_of_def split: option.split)

text \<open>
  C26: no message is lost between the claim and the prompt. Only the main agent's inbox is drained, and if the gate cannot
  judge, nothing is claimed or changed. Otherwise the answer is, in their order, one framed block for each of the (at
  most ten) oldest waiting messages that the routing rule does not withhold and that can be framed, made of that row's own
  sender, text and id; and the table keeps all its rows: these are delivered, a withheld one is closed
  as refused with the reason of its verdict (or stays delivered if that statement fails), one that cannot be framed is closed
  as failed with its reason, and no other row is touched.
\<close>

theorem drained_mail_accounted:
  assumes ok: "ids_ok (gs_db st)" and d: "drain_inbox e nonce name now st = (rep, st')"
  shows "(name \<noteq> tc_main (re_trust e) \<longrightarrow> rep = DrainRefused \<and> st' = st)
    \<and> (name = tc_main (re_trust e) \<and> openDeliveryGate e = ClosedGate \<longrightarrow> rep = Drained [] \<and> st' = st)
    \<and> (name = tc_main (re_trust e) \<and> openDeliveryGate e \<noteq> ClosedGate \<longrightarrow>
        (let T = oldest_waiting name 10 (gs_db st) in
          rep = Drained (map (shown_block (re_trust e) nonce \<circ> handed_out now) (filter (\<lambda>r. refusal_of e r = None \<and> framable (re_trust e) r) T))
          \<and> msgs (gs_db st') = map (\<lambda>r. if r \<in> set T then after_drain e now r else r) (msgs (gs_db st))))"
proof (cases "name = tc_main (re_trust e) \<and> openDeliveryGate e \<noteq> ClosedGate")
  case False
  then show ?thesis using d by (auto simp: drain_inbox_def Let_def split: if_splits)
next
  case True
  obtain ms db1 where c: "claimPendingForAgent name INBOX_DRAIN_CAP now (gs_db st) = (ms, db1)"
    by (cases "claimPendingForAgent name INBOX_DRAIN_CAP now (gs_db st)")
  obtain kept st1 where g: "gate_judge e (openDeliveryGate e) now ms (st\<lparr>gs_db := db1\<rparr>) = (kept, st1)"
    by (cases "gate_judge e (openDeliveryGate e) now ms (st\<lparr>gs_db := db1\<rparr>)")
  obtain blocks db2 where s: "show_claimed (re_trust e) nonce now kept (gs_db st1) = (blocks, db2)"
    by (cases "show_claimed (re_trust e) nonce now kept (gs_db st1)")
  have res: "rep = Drained blocks" "st' = st1\<lparr>gs_db := db2\<rparr>"
    using d True c g s by (auto simp: drain_inbox_def Let_def split: delivery_gate.splits)
  define T where "T = oldest_waiting name INBOX_DRAIN_CAP (gs_db st)"
  note cl = claim_rows [OF ok c, folded T_def]
  note gr = gate_rows [OF g True [THEN conjunct2]]
  have kept: "kept = map (handed_out now) (filter (\<lambda>r. refusal_of e r = None) T)" by (simp add: gr(1) cl(1) filter_map comp_def)
  have blocks: "blocks = map (shown_block (re_trust e) nonce \<circ> handed_out now) (filter (\<lambda>r. refusal_of e r = None \<and> framable (re_trust e) r) T)"
    using shown_blocks [of "re_trust e" nonce now kept "gs_db st1"] s by (simp add: kept filter_map comp_def conj_commute)
  have rows: "msgs db2 = map (\<lambda>r. if r \<in> set T then after_drain e now r else r) (msgs (gs_db st))"
  proof -
    let ?claimed = "\<lambda>r. if r \<in> set T then deliver_row now r else r"
    let ?gated = "\<lambda>r. if closed r then r
        else case find (\<lambda>m. (refusal_of e m \<noteq> None \<and> \<not> re_close_fails e (m_id m)) \<and> m_id m = m_id r) ms of
          Some m \<Rightarrow> close_row CloseRefused now (refusal_of e m) r | None \<Rightarrow> r"
    let ?shown = "\<lambda>r. if \<exists>m\<in>set kept. \<not> framable (re_trust e) m \<and> m_id m = m_id r then fail_row now (Some ''Invalid or empty from_agent'') r else r"
    have "?shown (?gated (?claimed r)) = (if r \<in> set T then after_drain e now r else r)" if r: "r \<in> set (msgs (gs_db st))" for r
    proof (cases "r \<in> set T")
      case True
      have d: "\<not> closed (deliver_row now r)" "m_id (deliver_row now r) = m_id r" by (simp_all add: closed_def deliver_row_def)
      have f: "find (\<lambda>m. (refusal_of e m \<noteq> None \<and> \<not> re_close_fails e (m_id m)) \<and> m_id m = m_id r) ms
          = (if refusal_of e r \<noteq> None \<and> \<not> re_close_fails e (m_id r) then Some (handed_out now r) else None)"
        unfolding cl(1) using find_by_id [OF cl(3) True, of "handed_out now" "\<lambda>m. refusal_of e m \<noteq> None \<and> \<not> re_close_fails e (m_id m)"] by simp
      have u: "(\<exists>m\<in>set kept. \<not> framable (re_trust e) m \<and> m_id m = m_id r) \<longleftrightarrow> refusal_of e r = None \<and> \<not> framable (re_trust e) r"
      proof -
        have eq: "m = r" if "m \<in> set T" "m_id m = m_id r" for m using same_row [OF ok, of m r] that r cl(4) by auto
        show ?thesis using True by (auto simp: kept dest: eq)
      qed
      have i: "m_id (close_row CloseRefused now x q) = m_id q" for x q by (simp add: refuse_row_def)
      have x: "?gated (?claimed r) = (if refusal_of e r \<noteq> None \<and> \<not> re_close_fails e (m_id r)
          then close_row CloseRefused now (refusal_of e r) (deliver_row now r) else deliver_row now r)" (is "?x = _")
        unfolding if_P [OF True] if_not_P [OF d(1)] d(2) f by (simp del: close_row.simps)
      have "m_id ?x = m_id r" unfolding x using i d(2) by simp
      then have "?shown ?x = (if refusal_of e r = None \<and> \<not> framable (re_trust e) r then fail_row now (Some ''Invalid or empty from_agent'') ?x else ?x)"
        using u by (simp only:)
      then show ?thesis unfolding x using True by (auto simp: after_drain_def simp del: close_row.simps split: option.split)
    next
      case False
      have other: "m_id m \<noteq> m_id r" if m: "m \<in> set ms" for m
      proof -
        obtain x where x: "x \<in> set T" "m = handed_out now x" using m by (auto simp: cl(1))
        have "x \<noteq> r" "x \<in> set (msgs (gs_db st))" using x(1) False cl(4) by auto
        then show ?thesis using same_row [OF ok _ r, of x] x(2) by auto
      qed
      have "set kept \<subseteq> set ms" by (auto simp: gr(1))
      then have none: "\<not> (\<exists>m\<in>set kept. \<not> framable (re_trust e) m \<and> m_id m = m_id r)" using other by auto
      have nf: "find (\<lambda>m. (refusal_of e m \<noteq> None \<and> \<not> re_close_fails e (m_id m)) \<and> m_id m = m_id r) ms = None"
        by (rule find_other_id [OF other])
      have "?gated (?claimed r) = r" unfolding if_not_P [OF False] nf by simp
      then show ?thesis using none False by (simp only: if_False)
    qed
    then have m: "map (?shown \<circ> ?gated \<circ> ?claimed) (msgs (gs_db st)) = map (\<lambda>r. if r \<in> set T then after_drain e now r else r) (msgs (gs_db st))"
      by (intro map_cong [OF refl]) (simp only: comp_def)
    have "msgs db2 = map ?shown (msgs (gs_db st1))" using shown_rows [of "re_trust e" nonce now kept "gs_db st1"] s by (simp only: snd_conv)
    also have "\<dots> = map (?shown \<circ> ?gated \<circ> ?claimed) (msgs (gs_db st))"
    proof -
      have "gs_db (st\<lparr>gs_db := db1\<rparr>) = db1" by simp
      then show ?thesis by (simp only: gr(2) cl(2) map_map comp_assoc)
    qed
    finally show ?thesis using m by (simp only:)
  qed
  show ?thesis using True res blocks rows by (simp add: Let_def T_def INBOX_DRAIN_CAP_def)
qed

section \<open>Witnesses\<close>

definition demo_mail_server :: message_server where
  "demo_mail_server = \<lparr>sm_store = demo_store_env, sm_routing = demo_routing\<lparr>re_mode := None\<rparr>, sm_federation = None, sm_partners = [],
     sm_cards = [], sm_enforced = True, sm_json = (\<lambda>_. [])\<rparr>"

definition demo_caller :: route_ctx where
  "demo_caller = \<lparr>ctx_path = ''/api/messages'', ctx_role = Some FleetAgent, ctx_tenant = Some (Some ''default''), ctx_agent = Some ''nova'',
     ctx_token_agent = Some ''nova''\<rparr>"

definition demo_token :: auth_result where
  "demo_token = Token \<lparr>tok_role = Some FleetAgent, tok_tenant = None, tok_name = Some ''t'', tok_agent = Some ''nova'', tenantContextMissing = False,
     tenantInvalid = False\<rparr>"

definition demo_post_body :: jsval where
  "demo_post_body = JObj [(''to'', JStr ''dev''), (''content'', JStr ''a'')]"

definition demo_person :: route_ctx where
  "demo_person = \<lparr>ctx_path = ''/api/messages'', ctx_role = Some Admin, ctx_tenant = Some (Some ''default''), ctx_agent = None,
     ctx_token_agent = None\<rparr>"

definition demo_address_mail :: jsval where
  "demo_address_mail = JObj [(''from'', JStr ''Anna''), (''to'', JStr ''dev''), (''content'', JStr ''a@b.eu''), (''no_pii_scrub'', JBool True)]"

definition demo_mail_world :: mail_world where
  "demo_mail_world = \<lparr>mw_db = demo_messages, mw_board = empty_board\<rparr>"

text \<open>An ASCII line without escapes that begins with a letter or a digit is no marker.\<close>

lemma plain_line:
  assumes uni: "unicode_ascii uni" and p: "inert (c # s)" "48 \<le> c \<and> c \<le> 57 \<or> 97 \<le> c \<and> c \<le> 122"
  shows "marker_skeleton uni (c # s) = []"
proof -
  define q where "q = visible_ascii s"
  have low: "visible_ascii (c # s) = c # q" using p(2) by (auto simp: q_def visible_ascii_def lower_point_def)
  have v: "inert (c # q)" using visible_inert [OF p(1)] low by simp
  have c: "\<not> (point_ws c \<or> cat_Z uni c)" "\<not> decoration c" "c \<noteq> 60" "c \<noteq> 91"
    using ascii_shown [OF uni, of c] p(2) by (auto simp: decoration_def points_of_def code_def)
  have "strip_pass uni (c # q) = c # q" using c by (simp add: strip_pass_def strip_tag_other del: de_Morgan_disj)
  then have "strip_passes uni n (c # q) = c # q" for n by (cases n) simp_all
  moreover have "folded_line uni (c # s) = c # q" using folded_inert(2) [OF uni p(1)] low by simp
  moreover have "map (plain_bracket \<circ> unconfuse) (c # q) = c # q" by (rule shape_inert [OF inert_ascii [OF v]])
  moreover have "unescape_markdown (c # q) = c # q" using unescape_inert [OF v, of "[]"] by simp
  ultimately show ?thesis using c by (simp add: marker_skeleton_def stripLeadingWrappers_def Let_def del: de_Morgan_disj list.map)
qed

lemma plain_text_passes:
  assumes "unicode_ascii uni" "inert (c # s)" "48 \<le> c \<and> c \<le> 57 \<or> 97 \<le> c \<and> c \<le> 122" "\<forall>d\<in>set (c # s). d \<notin> set LINE_BREAKS"
  shows "findReservedMarker uni (c # s) = None"
proof -
  have "split_lines p = [p]" if "\<forall>d\<in>set p. d \<notin> set LINE_BREAKS" for p using that by (induction p) (simp_all add: List.member_iff)
  from this [OF assms(4)] show ?thesis by (simp add: findReservedMarker_def plain_line [OF assms(1-3)] Let_def)
qed

lemma demo_unmarked:
  "findReservedMarker plain_unicode (points_of ''a'') = None" "findReservedMarker plain_unicode (points_of ''a@b.eu'') = None"
proof -
  have uni: "unicode_ascii plain_unicode" by (auto simp: unicode_ascii_def plain_unicode_def)
  show "findReservedMarker plain_unicode (points_of ''a'') = None"
    unfolding points_of_def list.map by (rule plain_text_passes [OF uni]) (simp_all add: inert_def code_def LINE_BREAKS_def)
  show "findReservedMarker plain_unicode (points_of ''a@b.eu'') = None"
    unfolding points_of_def list.map by (rule plain_text_passes [OF uni]) (simp_all add: inert_def code_def LINE_BREAKS_def)
qed

abbreviation demo_session :: auth_result where "demo_session \<equiv> Session ''1'' (Some Admin) None"

lemma demo_post_steps:
  "post_sender demo_token demo_caller (js_prop demo_post_body ''from'') = Inr (JStr ''nova'')"
  "post_fields (JStr ''nova'') (js_prop demo_post_body ''to'') (js_prop demo_post_body ''content'') = Inr (''nova'', ''dev'', ''a'')"
  "settle_sender demo_token demo_caller ''nova'' = ''nova''"
  "check_registered demo_mail_server demo_caller ''nova'' = None"
  "post_recipient demo_mail_server ''dev'' = Inr ''dev''"
  "post_sender demo_session demo_person (js_prop demo_address_mail ''from'') = Inr (JStr ''Anna'')"
  "post_fields (JStr ''Anna'') (js_prop demo_address_mail ''to'') (js_prop demo_address_mail ''content'') = Inr (''Anna'', ''dev'', ''a@b.eu'')"
  "settle_sender demo_session demo_person ''Anna'' = ''Anna''"
  "check_registered demo_mail_server demo_person ''Anna'' = None"
  by code_simp+

lemma demo_declared: "agentBoundAdminId demo_token demo_caller = None" "agentBoundAdminId demo_session demo_person = None"
    "claimsServerSender ''nova'' = False" "claimsServerSender ''Anna'' = False"
    "sanitizeAgentIdent ''nova'' = ''nova''" "sanitizeAgentIdent ''Anna'' = ''Anna''"
  by code_simp+

lemma demo_guards:
  "post_guards demo_mail_server demo_token demo_caller ''nova'' ''a'' = None"
  "post_guards demo_mail_server demo_session demo_person ''Anna'' ''a@b.eu'' = None"
proof -
  have "se_unicode (sm_store demo_mail_server) = plain_unicode" by (simp add: demo_mail_server_def demo_store_env_def)
  then show "post_guards demo_mail_server demo_token demo_caller ''nova'' ''a'' = None"
    "post_guards demo_mail_server demo_session demo_person ''Anna'' ''a@b.eu'' = None"
    by (simp_all add: post_guards_def demo_unmarked demo_declared bound_agent_def COORDINATOR_AGENT_ID_def List.member_iff)
qed

lemma demo_routes: "post_route demo_mail_server auth ctx f ''dev'' = None"
proof -
  have "getSenderRoutingMode None = RouteAudit" by code_simp
  then show ?thesis by (simp add: post_route_def demo_mail_server_def denied_def Let_def List.member_iff split: option.split)
qed

lemma demo_checked:
  "post_checks demo_mail_server demo_token demo_caller demo_post_body = Inr (''nova'', ''dev'', ''a'')"
  "post_checks demo_mail_server demo_session demo_person demo_address_mail = Inr (''Anna'', ''dev'', ''a@b.eu'')"
  by (simp_all add: post_checks_def demo_post_steps demo_guards demo_routes Let_def)

lemma demo_drafts:
  "post_draft demo_mail_server demo_session demo_person demo_address_mail None ''Anna'' ''dev'' ''a@b.eu'' =
     \<lparr>d_from = ''Anna'', d_to = ''dev'', d_content = ''a@b.eu'', d_origin_note = None, d_trace = None, d_tenant = ''default'',
      d_envelope = None, d_pin = False\<rparr>"
  "d_from (post_draft demo_mail_server demo_token demo_caller demo_post_body None ''nova'' ''dev'' ''a'') = ''nova''"
  "d_content (post_draft demo_mail_server demo_token demo_caller demo_post_body None ''nova'' ''dev'' ''a'') = ''a''"
  by code_simp+

lemma demo_created:
  assumes "findReservedMarker plain_unicode (points_of (d_content d)) = None"
  shows "\<exists>m db. createAgentMessage plain_unicode demo_tenants None 9 d demo_messages = Some (m, db)"
  using assms by (simp add: createAgentMessage_def Let_def assertNoReservedMarker_def)

lemma demo_hooks: "run_hooks srv now k demo_post_body m w = (Stored m, w)" "run_hooks srv now k demo_address_mail m w = (Stored m, w)"
  by (simp_all add: run_hooks_def assign_hook_def complete_hook_def demo_post_body_def demo_address_mail_def split: option.split)

lemma demo_mail_env: "se_unicode (sm_store demo_mail_server) = plain_unicode" "se_tenants (sm_store demo_mail_server) = demo_tenants"
    "se_max_age (sm_store demo_mail_server) = None" "mw_db demo_mail_world = demo_messages"
    "demo_post_body \<noteq> JNull" "demo_address_mail \<noteq> JNull"
  by (simp_all add: demo_mail_server_def demo_store_env_def demo_mail_world_def demo_post_body_def demo_address_mail_def)

lemma demo_posted:
  "\<exists>m w'. post_message demo_mail_server demo_token demo_caller (Some demo_post_body) ''k1'' 9 demo_mail_world = (Stored m, w')"
proof -
  let ?d = "post_draft demo_mail_server demo_token demo_caller demo_post_body None ''nova'' ''dev'' ''a''"
  have "findReservedMarker plain_unicode (points_of (d_content ?d)) = None" by (simp only: demo_drafts demo_unmarked)
  from demo_created [OF this] obtain m db where c: "createAgentMessage plain_unicode demo_tenants None 9 ?d demo_messages = Some (m, db)" by blast
  have "origin_label (js_prop demo_post_body ''origin_note'') = Some None" by code_simp
  with c show ?thesis by (simp add: post_message_def demo_mail_env demo_checked post_store_def demo_hooks)
qed

lemma demo_address_posted:
  "\<exists>m w'. post_message demo_mail_server demo_session demo_person (Some demo_address_mail) ''k1'' 9 demo_mail_world = (Stored m, w')
     \<and> m_content m = ''a@b.eu''"
proof -
  let ?d = "post_draft demo_mail_server demo_session demo_person demo_address_mail None ''Anna'' ''dev'' ''a@b.eu''"
  have t: "d_content ?d = ''a@b.eu''" by (simp add: demo_drafts)
  then have "findReservedMarker plain_unicode (points_of (d_content ?d)) = None" by (simp only: demo_unmarked)
  from demo_created [OF this] obtain m db where c: "createAgentMessage plain_unicode demo_tenants None 9 ?d demo_messages = Some (m, db)" by blast
  have "origin_label (js_prop demo_address_mail ''origin_note'') = Some None" by code_simp
  with c have "post_message demo_mail_server demo_session demo_person (Some demo_address_mail) ''k1'' 9 demo_mail_world
      = (Stored m, demo_mail_world\<lparr>mw_db := db\<rparr>)"
    by (simp add: post_message_def demo_mail_env demo_checked post_store_def demo_hooks)
  moreover have "m_content m = ''a@b.eu''" using posted_row_facts(3) [OF c] t by simp
  ultimately show ?thesis by blast
qed

theorem posted_under_own_name_witness:
  "\<exists>m w'. post_message demo_mail_server demo_token demo_caller (Some demo_post_body) ''k1'' 9 demo_mail_world = (Stored m, w') \<and> m_from m = ''nova''"
proof -
  obtain m w' where p: "post_message demo_mail_server demo_token demo_caller (Some demo_post_body) ''k1'' 9 demo_mail_world = (Stored m, w')"
    using demo_posted by blast
  have "ctx_role demo_caller = Some FleetAgent" "js_trim (own_agent demo_caller) = ''nova''" by code_simp+
  with posted_under_own_name [OF p] p show ?thesis by simp
qed

theorem stored_text_without_address_witness:
  "\<exists>m w'. post_message demo_mail_server demo_session demo_person (Some demo_address_mail) ''k1'' 9 demo_mail_world = (Stored m, w')
     \<and> holds_address (m_content m) \<and> ctx_role demo_person = Some Admin"
proof -
  obtain m w' where p: "post_message demo_mail_server demo_session demo_person (Some demo_address_mail) ''k1'' 9 demo_mail_world = (Stored m, w')"
      "m_content m = ''a@b.eu''"
    using demo_address_posted by blast
  have "''a@b.eu'' = [] @ ''a'' @ CHR ''@'' # ''b'' @ CHR ''.'' # ''eu'' @ []" by simp
  moreover have "list_all mail_char ''a''" "list_all domain_char ''b''" "list_all ascii_letter ''eu''" by code_simp+
  ultimately have "holds_address ''a@b.eu''" unfolding holds_address_def
    by (intro exI [of _ "[]"] exI [of _ "''a''"] exI [of _ "''b''"] exI [of _ "''eu''"]) simp
  with p(2) have h: "holds_address (m_content m)" by simp
  from stored_text_without_address [OF p(1) h] p h show ?thesis by (simp add: demo_person_def)
qed



definition demo_inbox :: gate_state where
  "demo_inbox = \<lparr>gs_db = \<lparr>msgs = [blank_message 1 ''nova'' ''marveen'' ''hello'' 5 ''default''], last_id = 1\<rparr>, gs_audited = [], gs_log = []\<rparr>"

theorem drained_mail_accounted_witness:
  "\<exists>st'. drain_inbox demo_routing (\<lambda>_. []) ''marveen'' 9 demo_inbox
       = (Drained (map (shown_block demo_trust (\<lambda>_. []) \<circ> handed_out 9)
           (filter (\<lambda>r. refusal_of demo_routing r = None \<and> framable demo_trust r) (oldest_waiting ''marveen'' 10 (gs_db demo_inbox)))), st')
     \<and> length (msgs (gs_db st')) = 1"
proof -
  obtain rep st' where d: "drain_inbox demo_routing (\<lambda>_. []) ''marveen'' 9 demo_inbox = (rep, st')"
    by (cases "drain_inbox demo_routing (\<lambda>_. []) ''marveen'' 9 demo_inbox")
  have ok: "ids_ok (gs_db demo_inbox)" by (simp add: ids_ok_def demo_inbox_def blank_message_def)
  have "openDeliveryGate demo_routing \<noteq> ClosedGate" by (simp add: openDeliveryGate_def demo_context_built Let_def)
  moreover have "re_trust demo_routing = demo_trust" "tc_main demo_trust = ''marveen''" by (simp_all add: demo_routing_def demo_trust_def)
  moreover have "length (msgs (gs_db demo_inbox)) = 1" by (simp add: demo_inbox_def)
  ultimately show ?thesis using drained_mail_accounted [OF ok d] d by (simp add: Let_def)
qed

end
