(* ===== verification/PidfileLock.thy ===== *)
theory PidfileLock
  imports JsBase "HOL-Library.Log_Nat"
begin

text \<open>
  The pidfile lock of the dashboard: \<open>acquirePidfileLock\<close> of \<open>src/process-lock.ts\<close> with the file operations of
  \<open>src/index.ts\<close>. Several processes run the loop at once; a run is a list of events, and a process takes one turn at
  a time. A turn is one system call of \<open>index.ts\<close> on the file, one probe, one signal or the wait; the few digits of a pid
  are written by one call.
\<close>

section \<open>The file\<close>

text \<open>
  What \<open>parseInt\<close> makes of a text of digits: the nearest number a double can hold, or infinity.
\<close>

datatype js_pid = PidNumber nat | PidInfinity

definition DOUBLE_OVERFLOW :: nat where "DOUBLE_OVERFLOW = 2 ^ 1024 - 2 ^ 970"

definition nearest_double :: "nat \<Rightarrow> nat" where
  "nearest_double v =
     (if v < 2 ^ 53 then v
      else let s = 2 ^ (floorlog 2 v - 53); q = v div s; r = 2 * (v mod s)
        in s * (if r > s \<or> r = s \<and> odd q then q + 1 else q))"

definition parse_digits :: "string \<Rightarrow> js_pid option" where
  "parse_digits content =
     (let raw = js_trim content in
      if raw \<noteq> [] \<and> list_all is_digit raw
      then Some (if digits_val raw \<ge> DOUBLE_OVERFLOW then PidInfinity else PidNumber (nearest_double (digits_val raw)))
      else None)"

text \<open>\<open>readRecordedPidFrom\<close>, and what \<open>unlinkIfMatches\<close> compares, which need be neither finite nor positive.\<close>

definition readRecordedPid :: "string \<Rightarrow> nat option" where
  "readRecordedPid content = (case parse_digits content of Some (PidNumber n) \<Rightarrow> if n > 0 then Some n else None | _ \<Rightarrow> None)"

definition current_pid :: "string \<Rightarrow> js_pid option" where
  "current_pid content = parse_digits content"

text \<open>\<open>writeBufferFully\<close>: the chunks it writes, as offset and length; a writer that makes no progress is an error.\<close>

function writeBufferFully :: "(nat \<Rightarrow> nat \<Rightarrow> int) \<Rightarrow> nat \<Rightarrow> nat \<Rightarrow> (nat \<times> nat) list option" where
  "writeBufferFully writer len written =
     (if written \<ge> len then Some []
      else let n = writer written (len - written) in
        if n \<le> 0 then None
        else map_option (\<lambda>cs. (written, nat n) # cs) (writeBufferFully writer len (written + nat n)))"
  by pat_completeness auto

termination by (relation "measure (\<lambda>(writer, len, written). len - written)") auto

declare writeBufferFully.simps [simp del]

lemma chunks_cover:
  "writeBufferFully writer (length buf) written = Some cs \<Longrightarrow> concat (map (\<lambda>(off, n). take n (drop off buf)) cs) = drop written buf"
proof (induction writer "length buf" written arbitrary: cs rule: writeBufferFully.induct)
  case (1 writer written)
  show ?case
  proof (cases "length buf \<le> written")
    case True
    then show ?thesis using 1(2) by (subst (asm) writeBufferFully.simps) simp
  next
    case False
    let ?n = "writer written (length buf - written)"
    have pos: "\<not> ?n \<le> 0" using 1(2) False by (subst (asm) writeBufferFully.simps) (auto simp: Let_def split: if_splits)
    then obtain ds where ds: "writeBufferFully writer (length buf) (written + nat ?n) = Some ds" "cs = (written, nat ?n) # ds"
      using 1(2) False by (subst (asm) writeBufferFully.simps) (auto simp: Let_def)
    have "concat (map (\<lambda>(off, n). take n (drop off buf)) ds) = drop (written + nat ?n) buf" using 1(1) [OF False refl pos ds(1)] .
    moreover have "drop (written + nat ?n) buf = drop (nat ?n) (drop written buf)" by (simp add: add.commute)
    ultimately show ?thesis by (simp only: ds(2) list.map concat.simps prod.case append_take_drop_id)
  qed
qed

section \<open>The processes\<close>

datatype live_policy = Sigterm | Defer

text \<open>Where a process stands in the loop; the number is the attempt. \<open>AtFill\<close> holds the open file and the text.\<close>

datatype lock_pc =
    AtCreate nat
  | AtFill nat string
  | AtRead nat
  | AtProbe nat nat
  | AtJudge nat nat
  | AtTerm nat nat
  | AtGrace nat nat
  | AtCheck nat "nat option"
  | AtUnlink nat
  | AtRelease
  | Holding
  | Deferring nat
  | GivenUp

text \<open>
  The directory entry with the identity of the file and its content, the dashboards by pid, the other processes, and the
  signals sent.
\<close>

record lock_world =
  lw_entry :: "(nat \<times> string) option"
  lw_next :: nat
  lw_procs :: "nat \<Rightarrow> lock_pc option"
  lw_others :: "nat \<Rightarrow> bool"
  lw_terms :: "nat list"

abbreviation goes :: "nat \<Rightarrow> lock_pc \<Rightarrow> lock_world \<Rightarrow> lock_world" where
  "goes p pc w \<equiv> w\<lparr>lw_procs := (lw_procs w)(p \<mapsto> pc)\<rparr>"

definition next_attempt :: "nat \<Rightarrow> nat \<Rightarrow> lock_pc" where
  "next_attempt maxAttempts k = (if k < maxAttempts then AtCreate (k + 1) else GivenUp)"

text \<open>A number that is no pid cannot be probed, and what cannot be probed counts as alive.\<close>

definition PID_LIMIT :: nat where "PID_LIMIT = 2147483648"

definition probeAlive :: "nat \<Rightarrow> lock_world \<Rightarrow> bool" where
  "probeAlive r w \<longleftrightarrow> r \<ge> PID_LIMIT \<or> lw_procs w r \<noteq> None \<or> lw_others w r"

text \<open>\<open>isLegitimatePredecessor\<close>: with a process listing that fails nobody is one.\<close>

definition isLegitimatePredecessor :: "bool \<Rightarrow> nat \<Rightarrow> lock_world \<Rightarrow> bool" where
  "isLegitimatePredecessor ps_ok r w \<longleftrightarrow> ps_ok \<and> lw_procs w r \<noteq> None"

text \<open>The exclusive open; the text is written by a later call.\<close>

definition tryCreateExclusive :: "nat \<Rightarrow> nat \<Rightarrow> lock_world \<Rightarrow> lock_world" where
  "tryCreateExclusive p k w =
     (case lw_entry w of
        Some _ \<Rightarrow> goes p (AtRead k) w
      | None \<Rightarrow> goes p (AtFill (lw_next w) (show_nat p)) (w\<lparr>lw_entry := Some (lw_next w, []), lw_next := lw_next w + 1\<rparr>))"

text \<open>A write goes to the file that was opened, whether or not its name is still there.\<close>

definition fill_file :: "nat \<Rightarrow> string \<Rightarrow> lock_world \<Rightarrow> lock_world" where
  "fill_file i t w = (case lw_entry w of Some (j, c) \<Rightarrow> if j = i then w\<lparr>lw_entry := Some (j, c @ t)\<rparr> else w | None \<Rightarrow> w)"

text \<open>The read and the comparison; the file is removed by a later call.\<close>

definition unlinkIfMatches :: "nat \<Rightarrow> nat \<Rightarrow> nat \<Rightarrow> nat option \<Rightarrow> lock_world \<Rightarrow> lock_world" where
  "unlinkIfMatches maxAttempts p k expected w =
     (case lw_entry w of
        None \<Rightarrow> goes p (next_attempt maxAttempts k) w
      | Some (_, c) \<Rightarrow>
          if current_pid c \<noteq> map_option PidNumber expected then goes p (next_attempt maxAttempts k) w else goes p (AtUnlink k) w)"

fun lock_turn :: "live_policy \<Rightarrow> nat \<Rightarrow> bool \<Rightarrow> nat \<Rightarrow> lock_pc \<Rightarrow> lock_world \<Rightarrow> lock_world" where
  "lock_turn pol n ps_ok p (AtCreate k) w = tryCreateExclusive p k w"
| "lock_turn pol n ps_ok p (AtFill i t) w = goes p Holding (fill_file i t w)"
| "lock_turn pol n ps_ok p (AtRead k) w =
     goes p (case (case lw_entry w of Some (_, c) \<Rightarrow> readRecordedPid c | None \<Rightarrow> None) of
               None \<Rightarrow> AtCheck k None
             | Some r \<Rightarrow> if r = p then AtCheck k (Some p) else AtProbe k r) w"
| "lock_turn pol n ps_ok p (AtProbe k r) w = goes p (if probeAlive r w then AtJudge k r else AtCheck k (Some r)) w"
| "lock_turn pol n ps_ok p (AtJudge k r) w =
     goes p (if \<not> isLegitimatePredecessor ps_ok r w then AtCheck k (Some r)
             else case pol of Defer \<Rightarrow> Deferring r | Sigterm \<Rightarrow> AtTerm k r) w"
| "lock_turn pol n ps_ok p (AtTerm k r) w = goes p (AtGrace k r) (w\<lparr>lw_terms := r # lw_terms w\<rparr>)"
| "lock_turn pol n ps_ok p (AtGrace k r) w = goes p (AtCheck k (Some r)) w"
| "lock_turn pol n ps_ok p (AtCheck k expected) w = unlinkIfMatches n p k expected w"
| "lock_turn pol n ps_ok p (AtUnlink k) w = goes p (next_attempt n k) (w\<lparr>lw_entry := None\<rparr>)"
| "lock_turn pol n ps_ok p AtRelease w = w\<lparr>lw_procs := (lw_procs w)(p := None), lw_entry := None\<rparr>"
| "lock_turn pol n ps_ok p Holding w = w"
| "lock_turn pol n ps_ok p (Deferring r) w = w"
| "lock_turn pol n ps_ok p GivenUp w = w"

text \<open>A shutdown reads the file and, when it says the own pid, removes it by a later call.\<close>

definition releaseLock :: "nat \<Rightarrow> lock_world \<Rightarrow> lock_world" where
  "releaseLock p w =
     (if (case lw_entry w of Some (_, c) \<Rightarrow> readRecordedPid c | None \<Rightarrow> None) \<noteq> Some p then w\<lparr>lw_procs := (lw_procs w)(p := None)\<rparr>
      else goes p AtRelease w)"

text \<open>\<open>Turn p ok\<close>: process \<open>p\<close> goes on, and a process listing it asks for succeeds or not.\<close>

datatype lock_event = Launch nat | Turn nat bool | Shutdown nat | Crash nat | OtherStarts nat | OtherEnds nat

fun lock_step :: "live_policy \<Rightarrow> nat \<Rightarrow> lock_event \<Rightarrow> lock_world \<Rightarrow> lock_world" where
  "lock_step pol n (Launch p) w = (if 0 < p \<and> \<not> probeAlive p w then goes p (next_attempt n 0) w else w)"
| "lock_step pol n (Turn p ok) w = (case lw_procs w p of Some pc \<Rightarrow> lock_turn pol n ok p pc w | None \<Rightarrow> w)"
| "lock_step pol n (Shutdown p) w = (case lw_procs w p of Some pc \<Rightarrow> releaseLock p w | None \<Rightarrow> w)"
| "lock_step pol n (Crash p) w = w\<lparr>lw_procs := (lw_procs w)(p := None)\<rparr>"
| "lock_step pol n (OtherStarts q) w = (if \<not> probeAlive q w then w\<lparr>lw_others := (lw_others w)(q := True)\<rparr> else w)"
| "lock_step pol n (OtherEnds q) w = w\<lparr>lw_others := (lw_others w)(q := False)\<rparr>"

definition lock_run :: "live_policy \<Rightarrow> nat \<Rightarrow> lock_event list \<Rightarrow> lock_world \<Rightarrow> lock_world" where
  "lock_run pol n es w = fold (lock_step pol n) es w"

definition DEFAULT_MAX_ATTEMPTS :: nat where "DEFAULT_MAX_ATTEMPTS = 5"

section \<open>Facts on the file\<close>

lemma trim_show_nat [simp]: "js_trim (show_nat n) = show_nat n"
proof -
  have ws: "\<not> is_ws c" if "c \<in> set (show_nat n)" for c
    using show_nat_digits [OF that] by (auto simp: is_digit_def is_ws_def code_def)
  have drop: "dropWhile is_ws s = s" if "set s \<subseteq> set (show_nat n)" for s using that ws by (cases s) auto
  show ?thesis by (simp add: js_trim_def drop)
qed

lemma show_nat_not_Nil [simp]: "show_nat n \<noteq> []"
  by (subst show_nat.simps) simp

lemma all_digits_show_nat [simp]: "list_all is_digit (show_nat n)"
  using show_nat_digits by (auto simp: list_all_iff)

lemma nearest_small [simp]: "v < 2 ^ 53 \<Longrightarrow> nearest_double v = v"
  by (simp add: nearest_double_def)

lemma overflow_large: "2 ^ 53 < DOUBLE_OVERFLOW"
  by (simp add: DOUBLE_OVERFLOW_def)

text \<open>A text of at most fifteen digits is read as it stands.\<close>

lemma digits_bound: "list_all is_digit ds \<Longrightarrow> digits_val ds < 10 ^ length ds"
proof (induction ds rule: rev_induct)
  case (snoc d ds)
  then have "digits_val ds < 10 ^ length ds" "digit_val d < 10" by (simp, auto simp: is_digit_def digit_val_def)
  then show ?case by (simp add: digits_val_def)
qed (simp add: digits_val_def)

lemma small_digits:
  assumes "list_all is_digit raw" "length raw \<le> 15"
  shows "digits_val raw < 2 ^ 53"
proof -
  have "(10::nat) ^ length raw \<le> 10 ^ 15" by (rule power_increasing [OF assms(2)]) simp
  then show ?thesis using digits_bound [OF assms(1)] by simp
qed

lemma parse_digits_code [code]:
  "parse_digits content =
     (let raw = js_trim content in
      if raw \<noteq> [] \<and> list_all is_digit raw
      then Some (if length raw \<le> 15 then PidNumber (digits_val raw)
                 else if digits_val raw \<ge> DOUBLE_OVERFLOW then PidInfinity else PidNumber (nearest_double (digits_val raw)))
      else None)"
  using small_digits [of "js_trim content"] overflow_large by (auto simp: parse_digits_def Let_def)

lemma probeAlive_code [code]:
  "probeAlive r w \<longleftrightarrow> 2147483648 \<le> int r \<or> lw_procs w r \<noteq> None \<or> lw_others w r"
  by (auto simp: probeAlive_def PID_LIMIT_def)

lemma recorded_own:
  assumes "p < PID_LIMIT"
  shows "0 < p \<Longrightarrow> readRecordedPid (show_nat p) = Some p" "current_pid (show_nat p) = Some (PidNumber p)"
proof -
  have "p < 2 ^ 53" "\<not> DOUBLE_OVERFLOW \<le> p" using assms overflow_large by (simp_all add: PID_LIMIT_def)
  then show "0 < p \<Longrightarrow> readRecordedPid (show_nat p) = Some p" "current_pid (show_nat p) = Some (PidNumber p)"
    by (simp_all add: readRecordedPid_def current_pid_def parse_digits_def digits_val_show_nat Let_def)
qed

lemma recorded_current: "readRecordedPid c = Some r \<Longrightarrow> current_pid c = Some (PidNumber r) \<and> 0 < r"
  by (auto simp: readRecordedPid_def current_pid_def split: option.splits js_pid.splits if_splits)

definition quiet_world :: "(nat \<times> string) option \<Rightarrow> (nat \<Rightarrow> bool) \<Rightarrow> lock_world" where
  "quiet_world entry others = \<lparr>lw_entry = entry, lw_next = (case entry of Some (i, _) \<Rightarrow> i + 1 | None \<Rightarrow> 0), lw_procs = (\<lambda>_. None), lw_others = others,
     lw_terms = []\<rparr>"

section \<open>A holder that is established\<close>

text \<open>Where the others can stand while a dashboard holds the lock with its pid in the file.\<close>

fun waits_for :: "nat \<Rightarrow> lock_pc \<Rightarrow> bool" where
  "waits_for p (AtCreate k) = True"
| "waits_for p (AtRead k) = True"
| "waits_for p (AtProbe k r) \<longleftrightarrow> r = p"
| "waits_for p (AtJudge k r) \<longleftrightarrow> r = p"
| "waits_for p (Deferring r) \<longleftrightarrow> r = p"
| "waits_for p _ = False"

definition established :: "nat \<Rightarrow> nat \<Rightarrow> lock_world \<Rightarrow> bool" where
  "established p i w \<longleftrightarrow> lw_entry w = Some (i, show_nat p) \<and> lw_procs w p = Some Holding
     \<and> (\<forall>q pc. q \<noteq> p \<and> lw_procs w q = Some pc \<longrightarrow> waits_for p pc)"

lemma established_goes: "established p i w \<Longrightarrow> q \<noteq> p \<Longrightarrow> waits_for p pc \<Longrightarrow> established p i (goes q pc w)"
  by (auto simp: established_def)

lemma established_gone: "established p i w \<Longrightarrow> q \<noteq> p \<Longrightarrow> established p i (w\<lparr>lw_procs := (lw_procs w)(q := None)\<rparr>)"
  by (auto simp: established_def)

lemma established_turn:
  assumes p: "0 < p" "p < PID_LIMIT" and w: "established p i w" and q: "q \<noteq> p" "lw_procs w q = Some pc"
  shows "established p i (lock_turn Defer n True q pc w)"
proof -
  have e: "lw_entry w = Some (i, show_nat p)" "lw_procs w p = Some Holding" and wait: "waits_for p pc"
    using w q by (auto simp: established_def)
  note go = established_goes [OF w q(1)]
  show ?thesis
  proof (cases pc)
    case (AtCreate k)
    then show ?thesis using e go by (simp add: tryCreateExclusive_def)
  next
    case (AtRead k)
    then show ?thesis using e go q(1) recorded_own(1) [OF p(2,1)] by simp
  next
    case (AtProbe k r)
    then show ?thesis using e go wait by (simp add: probeAlive_def)
  next
    case (AtJudge k r)
    then show ?thesis using e go wait by (simp add: isLegitimatePredecessor_def)
  next
    case (Deferring r)
    then show ?thesis using w by simp
  qed (use wait in simp_all)
qed

lemma established_step:
  assumes p: "0 < p" "p < PID_LIMIT" and n: "0 < n" and w: "established p i w"
    and e: "\<And>q. e \<noteq> Turn q False" "e \<noteq> Shutdown p" "e \<noteq> Crash p"
  shows "established p i (lock_step Defer n e w)"
proof (cases e)
  case (Launch q)
  have "q \<noteq> p" if "\<not> probeAlive q w" using that w by (auto simp: probeAlive_def established_def)
  then show ?thesis using Launch established_goes [OF w] w n by (simp add: next_attempt_def)
next
  case (Turn q ok)
  have ok: "ok = True" using e(1) Turn by (cases ok) auto
  show ?thesis
  proof (cases "q = p")
    case True
    then show ?thesis using Turn w by (simp add: established_def)
  next
    case False
    then show ?thesis using Turn ok established_turn [OF p w] w by (simp split: option.split)
  qed
next
  case (Shutdown q)
  have "q \<noteq> p" using e(2) Shutdown by simp
  moreover have "lw_entry w = Some (i, show_nat p)" using w by (simp add: established_def)
  ultimately show ?thesis using Shutdown w established_gone recorded_own(1) [OF p(2,1)] by (simp add: releaseLock_def split: option.split)
next
  case (Crash q)
  then show ?thesis using e(3) established_gone [OF w] by simp
qed (use w in \<open>auto simp: established_def\<close>)

lemma established_run:
  assumes "0 < p" "p < PID_LIMIT" "0 < n" "established p i w" "\<And>q. Turn q False \<notin> set es" "Shutdown p \<notin> set es" "Crash p \<notin> set es"
  shows "established p i (lock_run Defer n es w)"
  using assms(4-7)
proof (induction es arbitrary: w)
  case Nil
  then show ?case by (simp add: lock_run_def)
next
  case (Cons e es)
  have "established p i (lock_step Defer n e w)"
    by (rule established_step [OF assms(1-3) Cons.prems(1)]) (use Cons.prems(2-4) in auto)
  then have "established p i (lock_run Defer n es (lock_step Defer n e w))"
    by (rule Cons.IH) (use Cons.prems(2-4) in auto)
  then show ?case by (simp add: lock_run_def)
qed

fun ended :: "lock_pc \<Rightarrow> bool" where
  "ended Holding = True"
| "ended (Deferring r) = True"
| "ended GivenUp = True"
| "ended _ = False"

text \<open>
  C20: an established holder keeps the lock. Once a dashboard holds the lock, its pid is in the file and no other is in the
  loop, then however many others start, take their turns, stop and crash, as long as they defer to a live peer, every listing
  of processes succeeds and the holder itself is neither stopped nor crashes, the file stays that of the holder, nobody else
  gets the lock, and another dashboard that has come to the end of its loop defers to the holder.
\<close>

theorem established_holder_is_safe:
  assumes "0 < p" and "p < PID_LIMIT" and "0 < n"
    and "lw_entry w = Some (i, show_nat p)" and "lw_procs w = [p \<mapsto> Holding]"
    and "\<And>q. Turn q False \<notin> set es" and "Shutdown p \<notin> set es" and "Crash p \<notin> set es"
  shows "lw_entry (lock_run Defer n es w) = Some (i, show_nat p) \<and> lw_procs (lock_run Defer n es w) p = Some Holding
    \<and> (\<forall>q pc. q \<noteq> p \<and> lw_procs (lock_run Defer n es w) q = Some pc \<and> ended pc \<longrightarrow> pc = Deferring p)"
proof -
  have "established p i w" using assms(4,5) by (auto simp: established_def split: if_splits)
  then have est: "established p i (lock_run Defer n es w)" by (rule established_run [OF assms(1-3)]) (use assms(6-8) in auto)
  have "pc = Deferring p" if "waits_for p pc" "ended pc" for pc using that by (cases pc) auto
  then show ?thesis using est unfolding established_def by blast
qed

text \<open>
  Nobody is safe before that, and nobody when the listing fails: two dashboards can hold the lock at once. First with a file
  left by a process that is gone: both have decided to remove it, the slower one removes the file the faster one has just
  written. Then with no file at all: the second reads the file between its creation and its text, takes it for a
  broken one and removes it. And with an established holder when the listing of processes fails: its file counts as stale.
\<close>

theorem two_dashboards_hold:
  "(let w = lock_run Defer DEFAULT_MAX_ATTEMPTS
      ([Launch 2, Launch 3] @ replicate 4 (Turn 2 True) @ replicate 7 (Turn 3 True) @ replicate 3 (Turn 2 True)) (quiet_world (Some (0, ''99'')) (\<lambda>_. False))
   in lw_procs w 2 = Some Holding \<and> lw_procs w 3 = Some Holding \<and> map_option snd (lw_entry w) = Some ''2'')
   \<and> (let w = lock_run Defer DEFAULT_MAX_ATTEMPTS
      ([Launch 2, Launch 3, Turn 2 True] @ replicate 6 (Turn 3 True) @ [Turn 2 True, Turn 3 True]) (quiet_world None (\<lambda>_. False))
   in lw_procs w 2 = Some Holding \<and> lw_procs w 3 = Some Holding \<and> map_option snd (lw_entry w) = Some ''3'')
   \<and> (let w = lock_run Defer DEFAULT_MAX_ATTEMPTS
      ([Launch 2, Turn 2 True, Turn 2 True, Launch 3] @ replicate 3 (Turn 3 True) @ [Turn 3 False] @ replicate 4 (Turn 3 True)) (quiet_world None (\<lambda>_. False))
   in lw_procs w 2 = Some Holding \<and> lw_procs w 3 = Some Holding \<and> map_option snd (lw_entry w) = Some ''3'')"
  by (intro conjI; code_simp)

section \<open>A file that blocks\<close>

text \<open>A text of digits that says zero, or more than a double can hold.\<close>

definition blocking :: "string \<Rightarrow> bool" where
  "blocking c \<longleftrightarrow> (let raw = js_trim c in raw \<noteq> [] \<and> list_all is_digit raw \<and> (digits_val raw = 0 \<or> DOUBLE_OVERFLOW \<le> digits_val raw))"

lemma nearest_positive: "0 < v \<Longrightarrow> 0 < nearest_double v"
proof (cases "v < 2 ^ 53")
  case False
  assume v: "0 < v"
  have "(2::nat) ^ (floorlog 2 v - 53) \<le> 2 ^ (floorlog 2 v - 1)" by (rule power_increasing) simp_all
  also have "\<dots> \<le> v" using floorlog_bounds [of v 2] v by simp
  finally have "0 < v div 2 ^ (floorlog 2 v - 53)" by (simp add: div_greater_zero_iff)
  then show ?thesis using False by (simp add: nearest_double_def Let_def)
qed simp

lemma blocking_iff: "blocking c \<longleftrightarrow> readRecordedPid c = None \<and> current_pid c \<noteq> None"
  using nearest_positive [of "digits_val (js_trim c)"] overflow_large
  by (cases "digits_val (js_trim c) = 0") (auto simp: blocking_def readRecordedPid_def current_pid_def parse_digits_def Let_def)

lemma blocking_current: "blocking c \<Longrightarrow> current_pid c \<noteq> map_option PidNumber None"
  by (simp add: blocking_iff)

fun blocked_pc :: "lock_pc \<Rightarrow> bool" where
  "blocked_pc (AtCreate k) = True"
| "blocked_pc (AtRead k) = True"
| "blocked_pc (AtCheck k e) \<longleftrightarrow> e = None"
| "blocked_pc GivenUp = True"
| "blocked_pc _ = False"

definition blocked :: "nat \<Rightarrow> string \<Rightarrow> lock_world \<Rightarrow> bool" where
  "blocked i c w \<longleftrightarrow> lw_entry w = Some (i, c) \<and> (\<forall>p pc. lw_procs w p = Some pc \<longrightarrow> blocked_pc pc)"

lemma blocked_goes: "blocked i c w \<Longrightarrow> blocked_pc pc \<Longrightarrow> blocked i c (goes p pc w)"
  by (simp add: blocked_def)

lemma blocked_next: "blocked_pc (next_attempt n k)"
  by (simp add: next_attempt_def)

lemma blocked_turn:
  assumes c: "blocking c" and b: "blocked i c w" and p: "lw_procs w p = Some pc"
  shows "blocked i c (lock_turn pol n ok p pc w)"
proof -
  have e: "lw_entry w = Some (i, c)" and bp: "blocked_pc pc" using b p by (simp_all add: blocked_def)
  show ?thesis
  proof (cases pc)
    case (AtCreate k)
    then show ?thesis using e blocked_goes [OF b] by (simp add: tryCreateExclusive_def)
  next
    case (AtRead k)
    then show ?thesis using e c blocked_goes [OF b] by (simp add: blocking_iff)
  next
    case (AtCheck k x)
    then show ?thesis using e c bp blocked_goes [OF b blocked_next] by (auto simp: unlinkIfMatches_def blocking_iff)
  qed (use b bp in auto)
qed

lemma blocked_step:
  assumes c: "blocking c" and b: "blocked i c w"
  shows "blocked i c (lock_step pol n e w)"
proof (cases e)
  case (Launch p)
  then show ?thesis using b blocked_goes [OF b blocked_next] by simp
next
  case (Turn p x)
  then show ?thesis using b blocked_turn [OF c b] by (simp split: option.split)
next
  case (Shutdown p)
  then show ?thesis using b c by (auto simp: releaseLock_def blocked_def blocking_iff split: option.split)
qed (use b in \<open>auto simp: blocked_def\<close>)

lemma blocked_run: "blocking c \<Longrightarrow> blocked i c w \<Longrightarrow> blocked i c (lock_run pol n es w)"
  by (induction es arbitrary: w) (simp_all add: lock_run_def blocked_step)

lemma blocking_or_recovered:
  assumes "0 < p" and "p < PID_LIMIT" and "2 \<le> n" and "\<not> others p"
  shows "(if \<exists>i c. entry = Some (i, c) \<and> blocking c
    then \<forall>es w q. w = lock_run pol n es (quiet_world entry others) \<longrightarrow> lw_entry w = entry \<and> lw_procs w q \<noteq> Some Holding
    else lw_procs (lock_run pol n (Launch p # replicate 8 (Turn p ok)) (quiet_world entry others)) p = Some Holding)"
proof (cases "\<exists>i c. entry = Some (i, c) \<and> blocking c")
  case True
  then obtain i c where e: "entry = Some (i, c)" and c: "blocking c" by blast
  have "blocked i c (quiet_world entry others)" by (simp add: blocked_def quiet_world_def e)
  then have "blocked i c (lock_run pol n es (quiet_world entry others))" for es by (rule blocked_run [OF c])
  then have "lw_entry (lock_run pol n es (quiet_world entry others)) = entry \<and> lw_procs (lock_run pol n es (quiet_world entry others)) q \<noteq> Some Holding" for es q
    unfolding e blocked_def using blocked_pc.simps(7) by fastforce
  then show ?thesis using True by simp
next
  case False
  note run = lock_run_def quiet_world_def next_attempt_def probeAlive_def isLegitimatePredecessor_def fill_file_def unlinkIfMatches_def
    tryCreateExclusive_def eval_nat_numeral
  have n: "0 < n" "Suc 0 < n" using assms(3) by auto
  show ?thesis
  proof (cases entry)
    case None
    then show ?thesis using False assms n by (simp add: run)
  next
    case (Some x)
    obtain i c where x: "x = (i, c)" by (cases x)
    show ?thesis
    proof (cases "readRecordedPid c")
      case None
      then have "current_pid c = None" using False Some x by (auto simp: blocking_iff)
      then show ?thesis using None False assms n Some x by (simp add: run)
    next
      case (Some r)
      then have "current_pid c = Some (PidNumber r)" using recorded_current by blast
      then show ?thesis using Some False assms n \<open>entry = Some x\<close> x by (cases "r = p"; cases "others r"; cases "PID_LIMIT \<le> r") (simp_all add: run)
    qed
  qed
qed

text \<open>
  C35: a leftover file is recovered from exactly unless it says zero or infinity. A dashboard that starts alone gets the lock
  within eight turns whatever file is left over, but not from one whose text, apart from white space, is all digits and has
  the value zero or one too large for a double: that file the reader takes for broken and the remover for
  a pid, so no run of any dashboards ever removes it or gets the lock.
\<close>

theorem leftover_file_recovered:
  assumes "0 < p" and "p < PID_LIMIT" and "2 \<le> n" and "\<not> others p"
  shows "(if \<exists>i c. entry = Some (i, c) \<and> (let raw = js_trim c in raw \<noteq> [] \<and> list_all is_digit raw
        \<and> (digits_val raw = 0 \<or> DOUBLE_OVERFLOW \<le> digits_val raw))
    then \<forall>es w q. w = lock_run pol n es (quiet_world entry others) \<longrightarrow> lw_entry w = entry \<and> lw_procs w q \<noteq> Some Holding
    else lw_procs (lock_run pol n (Launch p # replicate 8 (Turn p ok)) (quiet_world entry others)) p = Some Holding)"
  using blocking_or_recovered [of p n others, OF assms] unfolding blocking_def .

section \<open>The loop ends\<close>

fun turns_left :: "nat \<Rightarrow> lock_pc \<Rightarrow> nat" where
  "turns_left n (AtCreate k) = 8 * (n - k) + 8"
| "turns_left n (AtRead k) = 8 * (n - k) + 7"
| "turns_left n (AtProbe k r) = 8 * (n - k) + 6"
| "turns_left n (AtJudge k r) = 8 * (n - k) + 5"
| "turns_left n (AtTerm k r) = 8 * (n - k) + 4"
| "turns_left n (AtGrace k r) = 8 * (n - k) + 3"
| "turns_left n (AtCheck k e) = 8 * (n - k) + 2"
| "turns_left n (AtUnlink k) = 8 * (n - k) + 1"
| "turns_left n (AtFill i t) = 1"
| "turns_left n _ = 0"

lemma next_turns: "turns_left n (next_attempt n k) \<le> 8 * (n - k)"
  by (auto simp: next_attempt_def)

lemma turn_left:
  assumes "lw_procs w p = Some pc" and "pc \<noteq> AtRelease" and "n \<noteq> 0"
  shows "\<exists>c. lw_procs (lock_turn pol n ok p pc w) p = Some c \<and> c \<noteq> AtRelease \<and> turns_left n c \<le> turns_left n pc - 1"
  using assms next_turns [of n]
  by (cases pc) (auto simp: tryCreateExclusive_def unlinkIfMatches_def next_attempt_def split: option.split live_policy.split)

fun turn_of :: "nat \<Rightarrow> lock_event \<Rightarrow> bool" where
  "turn_of p (Turn q ok) \<longleftrightarrow> q = p"
| "turn_of p _ \<longleftrightarrow> False"

lemma other_turn: "q \<noteq> p \<Longrightarrow> lw_procs (lock_turn pol n ok q pc w) p = lw_procs w p"
  by (cases pc) (auto simp: tryCreateExclusive_def unlinkIfMatches_def fill_file_def split: option.split)

lemma other_step:
  assumes "lw_procs w p = Some pc" "\<not> turn_of p e" "e \<noteq> Shutdown p" "e \<noteq> Crash p"
  shows "lw_procs (lock_step pol n e w) p = Some pc"
  using assms by (cases e) (auto simp: other_turn probeAlive_def releaseLock_def split: option.split)

lemma run_left:
  assumes "lw_procs w p = Some pc" "pc \<noteq> AtRelease" "Shutdown p \<notin> set es" "Crash p \<notin> set es" "n \<noteq> 0"
  shows "\<exists>c. lw_procs (lock_run pol n es w) p = Some c \<and> c \<noteq> AtRelease \<and> turns_left n c \<le> turns_left n pc - length (filter (turn_of p) es)"
  using assms
proof (induction es arbitrary: w pc)
  case Nil
  then show ?case by (simp add: lock_run_def)
next
  case (Cons e es)
  let ?w = "lock_step pol n e w"
  have run: "lock_run pol n (e # es) w = lock_run pol n es ?w" by (simp add: lock_run_def)
  have rest: "Shutdown p \<notin> set es" "Crash p \<notin> set es" "e \<noteq> Shutdown p" "e \<noteq> Crash p" using Cons.prems(3,4) by auto
  show ?case
  proof (cases "turn_of p e")
    case False
    then show ?thesis using Cons.IH [OF other_step [OF Cons.prems(1) False rest(3,4)] Cons.prems(2) rest(1,2) Cons.prems(5)] run by simp
  next
    case True
    then obtain ok where e: "e = Turn p ok" by (cases e) auto
    obtain c where c: "lw_procs ?w p = Some c" "c \<noteq> AtRelease" "turns_left n c \<le> turns_left n pc - 1"
      using turn_left [OF Cons.prems(1,2,5), of pol ok] Cons.prems(1) e by auto
    from Cons.IH [OF c(1,2) rest(1,2) Cons.prems(5)] c(3) True run show ?thesis by fastforce
  qed
qed

lemma ended_left: "turns_left n pc = 0 \<Longrightarrow> pc \<noteq> AtRelease \<Longrightarrow> ended pc"
  by (cases pc) auto

text \<open>
  C22: the loop ends. However the other processes run and whatever happens to the file, a dashboard that starts and is not
  stopped has, after eight turns of its own for each attempt it is allowed, the lock, a peer it defers to, or its error.
\<close>

theorem acquire_ends:
  assumes "0 < p" and "\<not> probeAlive p w" and "0 < n" and "Shutdown p \<notin> set es" and "Crash p \<notin> set es"
    and "8 * n \<le> length (filter (turn_of p) es)"
  shows "\<exists>pc. lw_procs (lock_run pol n (Launch p # es) w) p = Some pc \<and> ended pc"
proof -
  let ?w = "goes p (next_attempt n 0) w"
  have run: "lock_run pol n (Launch p # es) w = lock_run pol n es ?w" using assms(1,2) by (simp add: lock_run_def)
  have "lw_procs ?w p = Some (AtCreate 1)" using assms(3) by (simp add: next_attempt_def)
  from run_left [OF this _ assms(4,5), of n pol] assms(3,6) run
  obtain pc where "lw_procs (lock_run pol n (Launch p # es) w) p = Some pc" "pc \<noteq> AtRelease" "turns_left n pc = 0" by auto
  with ended_left show ?thesis by blast
qed

section \<open>Instances\<close>

theorem established_holder_is_safe_witness:
  "lw_procs (lock_run Defer DEFAULT_MAX_ATTEMPTS [Launch 3, Turn 3 True, Turn 3 True, Turn 3 True, Turn 3 True]
     ((quiet_world (Some (0, show_nat 2)) (\<lambda>_. False))\<lparr>lw_procs := [2 \<mapsto> Holding]\<rparr>)) 3 = Some (Deferring 2)"
proof -
  let ?w = "(quiet_world (Some (0, show_nat 2)) (\<lambda>_. False))\<lparr>lw_procs := [2 \<mapsto> Holding]\<rparr>"
  let ?v = "lock_run Defer DEFAULT_MAX_ATTEMPTS [Launch 3, Turn 3 True, Turn 3 True, Turn 3 True, Turn 3 True] ?w"
  have "(case lw_procs ?v 3 of Some pc \<Rightarrow> ended pc | None \<Rightarrow> False)" by code_simp
  then obtain pc where pc: "lw_procs ?v 3 = Some pc" "ended pc" by (auto split: option.splits)
  have all: "\<forall>q pc. q \<noteq> 2 \<and> lw_procs ?v q = Some pc \<and> ended pc \<longrightarrow> pc = Deferring 2"
    by (rule established_holder_is_safe [of 2 _ ?w 0, THEN conjunct2, THEN conjunct2])
      (simp_all add: PID_LIMIT_def DEFAULT_MAX_ATTEMPTS_def quiet_world_def)
  have "pc = Deferring 2" by (rule all [rule_format, of 3]) (use pc in simp)
  then show ?thesis using pc(1) by blast
qed

theorem leftover_file_recovered_witness:
  "lw_procs (lock_run Defer DEFAULT_MAX_ATTEMPTS (Launch 2 # replicate 8 (Turn 2 True)) (quiet_world (Some (0, ''99'')) (\<lambda>_. False))) 2 = Some Holding
   \<and> (\<forall>es. lw_procs (lock_run Defer DEFAULT_MAX_ATTEMPTS es (quiet_world (Some (0, ''0'')) (\<lambda>_. False))) 2 \<noteq> Some Holding)"
proof -
  have "readRecordedPid ''99'' = Some 99" "readRecordedPid ''0'' = None" "current_pid ''0'' = Some (PidNumber 0)" by code_simp+
  then have b: "\<not> blocking ''99''" "blocking ''0''" by (simp_all add: blocking_iff)
  have free: "\<not> (\<exists>i c. Some (0::nat, ''99'') = Some (i, c) \<and> blocking c)" and stuck: "\<exists>i c. Some (0::nat, ''0'') = Some (i, c) \<and> blocking c"
    using b by auto
  have p: "(0::nat) < 2" "2 < PID_LIMIT" "2 \<le> DEFAULT_MAX_ATTEMPTS" "\<not> (\<lambda>_. False) (2::nat)" by (simp_all add: DEFAULT_MAX_ATTEMPTS_def PID_LIMIT_def)
  note rec = leftover_file_recovered [OF p, where pol = Defer and ok = True, folded blocking_def]
  note f = rec [where entry = "Some (0, ''99'')", unfolded if_not_P [OF free]]
  note s = rec [where entry = "Some (0, ''0'')", unfolded if_P [OF stuck]]
  show ?thesis using f s by blast
qed

theorem acquire_ends_witness:
  "\<exists>pc. lw_procs (lock_run Sigterm 1 (Launch 2 # replicate 8 (Turn 2 True)) (quiet_world None (\<lambda>_. False))) 2 = Some pc \<and> ended pc"
  by (rule acquire_ends) (simp_all add: quiet_world_def probeAlive_def PID_LIMIT_def)

end
