(* ===== verification/PortTakeover.thy ===== *)
theory PortTakeover
  imports ProcTree PidfileLock
begin

text \<open>
  What a dashboard does before it takes the pidfile: it looks for earlier instances of its own installation, on its port
  or in the list of processes, and terminates them (\<open>findOwnNodeHolders\<close>, \<open>findOwnBinaryMatches\<close>,
  \<open>terminateProcesses\<close> and \<open>acquirePortLock\<close> of \<open>src/process-lock.ts\<close>, with the context that \<open>src/index.ts\<close>
  builds and its \<open>checkFreshStartupRace\<close>). What \<open>lsof\<close>, \<open>ps\<close> and \<open>realpath\<close> print is an argument, as it is at
  one moment. A definition gives the signals and waits in their order.
\<close>

section \<open>What the system says\<close>

record os_view =
  os_self :: nat
  os_uid :: "nat option"
  os_project :: string
  os_real_root :: "string option"
  os_lsof :: "string option"
  os_ps :: "string option"
  os_comm :: "nat \<Rightarrow> string option"
  os_owner :: "nat \<Rightarrow> string option"
  os_args :: "nat \<Rightarrow> string option"
  os_cwd :: "nat \<Rightarrow> string option"
  os_real :: "string \<Rightarrow> string option"

text \<open>\<open>parseInt(s, 10)\<close>; a negative number is as good as none to its callers here.\<close>

definition parse_int :: "string \<Rightarrow> nat option" where
  "parse_int s =
     (let t = dropWhile is_ws s; u = (if take 1 t = ''+'' then drop 1 t else t); d = takeWhile is_digit u
      in if d = [] then None else Some (digits_val d))"

definition getProcessCwd :: "os_view \<Rightarrow> nat \<Rightarrow> string option" where
  "getProcessCwd v pid = (case os_cwd v pid of None \<Rightarrow> None | Some c \<Rightarrow> (case os_real v c of Some r \<Rightarrow> Some r | None \<Rightarrow> Some c))"

definition listPortHolders :: "os_view \<Rightarrow> nat list" where
  "listPortHolders v =
     (let raw = js_trim (case os_lsof v of Some s \<Rightarrow> s | None \<Rightarrow> []) in
      if raw = [] then [] else filter (\<lambda>n. n > 0) (List.map_filter parse_int (map js_trim (split_on (char_of (10::nat)) raw))))"

definition argvBelongsToThisInstall :: "os_view \<Rightarrow> string \<Rightarrow> nat \<Rightarrow> bool" where
  "argvBelongsToThisInstall v argv pid \<longleftrightarrow> str_includes argv (os_project v @ ''/'')
     \<or> (case os_cwd v pid of Some cwd \<Rightarrow> cwd = os_project v \<or> starts_with cwd (os_project v @ ''/'') | None \<Rightarrow> False)"

definition DASHBOARD_BINARY_PATTERN :: rx where
  "DASHBOARD_BINARY_PATTERN =
     RSeq (RAlt REmpty (RSeq r_any (RChar (\<lambda>c. is_ws c \<or> c = CHR ''/''))))
       (RSeq (RAlt (lit ''dist/index.js'') (lit ''src/index.ts'')) (RAlt REmpty (RSeq (RChar is_ws) r_any)))"

definition own_row :: "os_view \<Rightarrow> rx \<Rightarrow> proc_row \<Rightarrow> nat option" where
  "own_row v pattern r =
     (case r of (pid, rowUid, argv) \<Rightarrow>
        if pid = 0 then None
        else if pid = os_self v then None
        else if os_uid v \<noteq> None \<and> os_uid v \<noteq> Some rowUid then None
        else if \<not> rx_full pattern argv then None
        else if \<not> argvBelongsToThisInstall v argv pid then None
        else Some pid)"

definition listOwnProcessesMatching :: "os_view \<Rightarrow> rx \<Rightarrow> nat list" where
  "listOwnProcessesMatching v pattern =
     (case os_ps v of None \<Rightarrow> []
      | Some raw \<Rightarrow> List.map_filter (\<lambda>line. Option.bind (parse_row line) (own_row v pattern)) (split_on (char_of (10::nat)) raw))"

definition getProcessCommand :: "os_view \<Rightarrow> nat \<Rightarrow> string option" where
  "getProcessCommand v pid = trimmed_or_none (os_comm v pid)"

definition processBelongsToThisInstall :: "os_view \<Rightarrow> nat \<Rightarrow> bool" where
  "processBelongsToThisInstall v pid =
     (case os_args v pid of Some out \<Rightarrow> (let argv = js_trim out in argv \<noteq> [] \<and> argvBelongsToThisInstall v argv pid) | None \<Rightarrow> False)"

definition getProcessUid :: "os_view \<Rightarrow> nat \<Rightarrow> nat option" where
  "getProcessUid v pid = Option.bind (os_owner v pid) (\<lambda>out. parse_int (js_trim out))"

text \<open>\<open>/node|tsx/i\<close>.\<close>

definition node_command :: "string \<Rightarrow> bool" where
  "node_command cmd \<longleftrightarrow> str_includes (js_lower cmd) ''node'' \<or> str_includes (js_lower cmd) ''tsx''"

section \<open>Who is terminated\<close>

text \<open>The loop with the pids it has seen.\<close>

fun own_node_candidates :: "os_view \<Rightarrow> bool \<Rightarrow> nat list \<Rightarrow> nat list \<Rightarrow> nat list" where
  "own_node_candidates v scope seen [] = []"
| "own_node_candidates v scope seen (pid # pids) =
     (if pid = 0 then own_node_candidates v scope seen pids
      else if pid = os_self v then own_node_candidates v scope seen pids
      else if List.member seen pid then own_node_candidates v scope seen pids
      else let rest = own_node_candidates v scope (pid # seen) pids in
        case getProcessCommand v pid of
          None \<Rightarrow> rest
        | Some cmd \<Rightarrow>
            if os_uid v \<noteq> None \<and> getProcessUid v pid \<noteq> os_uid v then rest
            else if \<not> node_command cmd then rest
            else if scope \<and> os_real_root v \<noteq> None \<and> getProcessCwd v pid \<noteq> None \<and> getProcessCwd v pid \<noteq> os_real_root v then rest
            else pid # rest)"

definition filterOwnNodeCandidates :: "os_view \<Rightarrow> bool \<Rightarrow> nat list \<Rightarrow> nat list" where
  "filterOwnNodeCandidates v scope pids = own_node_candidates v scope [] pids"

definition findOwnNodeHolders :: "os_view \<Rightarrow> nat list" where
  "findOwnNodeHolders v = filter (processBelongsToThisInstall v) (filterOwnNodeCandidates v False (listPortHolders v))"

definition findOwnBinaryMatches :: "os_view \<Rightarrow> rx \<Rightarrow> nat list" where
  "findOwnBinaryMatches v pattern = filterOwnNodeCandidates v True (listOwnProcessesMatching v pattern)"

section \<open>How they are terminated\<close>

datatype signal = SIGTERM | SIGKILL | Signal0
datatype lock_act = Sends nat signal | Sleeps int
datatype signal_outcome = SignalSent | ProcessGone | SignalError

text \<open>\<open>still\<close> is what the probe after the grace period says.\<close>

definition terminateProcesses :: "nat list \<Rightarrow> (nat \<Rightarrow> signal_outcome) \<Rightarrow> int \<Rightarrow> lock_act list" where
  "terminateProcesses pids still graceMs =
     (if pids = [] then []
      else map (\<lambda>p. Sends p SIGTERM) pids @ [Sleeps graceMs]
        @ concat (map (\<lambda>p. if still p \<noteq> ProcessGone then [Sends p Signal0, Sends p SIGKILL] else [Sends p Signal0]) pids))"

definition DEFAULT_GRACE_MS :: int where "DEFAULT_GRACE_MS = 1500"
definition DEFAULT_POST_KILL_DRAIN_MS :: int where "DEFAULT_POST_KILL_DRAIN_MS = 2000"
definition DEFAULT_POST_KILL_POLL_MS :: int where "DEFAULT_POST_KILL_POLL_MS = 100"

text \<open>The loop that waits for the port; \<open>busy j\<close> is the answer to its \<open>j\<close>-th look. The caller has ruled out a poll interval of nothing.\<close>

function drain_port :: "(nat \<Rightarrow> bool) \<Rightarrow> int \<Rightarrow> int \<Rightarrow> nat \<Rightarrow> int \<Rightarrow> lock_act list" where
  "drain_port busy drainMs pollMs j waited =
     (if \<not> busy j then []
      else if waited \<ge> drainMs \<or> pollMs \<le> 0 then []
      else Sleeps pollMs # drain_port busy drainMs pollMs (j + 1) (waited + pollMs))"
  by pat_completeness auto

termination by (relation "measure (\<lambda>(busy, drainMs, pollMs, j, waited). nat (drainMs - waited))") auto

declare drain_port.simps [simp del]

text \<open>\<open>view 0\<close> is the system at the start, \<open>view (j + 1)\<close> at the \<open>j\<close>-th look for the port.\<close>

definition port_victims :: "os_view \<Rightarrow> nat list" where
  "port_victims v = rev (remdups (rev (findOwnNodeHolders v @ findOwnBinaryMatches v DASHBOARD_BINARY_PATTERN)))"

definition acquirePortLock :: "(nat \<Rightarrow> os_view) \<Rightarrow> (nat \<Rightarrow> signal_outcome) \<Rightarrow> int \<Rightarrow> int \<Rightarrow> int \<Rightarrow> lock_act list" where
  "acquirePortLock view still graceMs drainMs pollMs =
     (let victims = port_victims (view 0) in
      if victims = [] then []
      else terminateProcesses victims still graceMs
        @ (if drainMs \<le> 0 \<or> pollMs \<le> 0 then [] else drain_port (\<lambda>j. findOwnNodeHolders (view (j + 1)) \<noteq> []) drainMs pollMs 0 0))"

section \<open>The start\<close>

definition isLegitimateDashboardPid :: "os_view \<Rightarrow> nat \<Rightarrow> bool" where
  "isLegitimateDashboardPid v pid =
     (case getProcessCommand v pid of
        None \<Rightarrow> False
      | Some cmd \<Rightarrow> (os_uid v \<noteq> None \<longrightarrow> getProcessUid v pid = os_uid v) \<and> node_command cmd
          \<and> List.member (listOwnProcessesMatching v DASHBOARD_BINARY_PATTERN) pid)"

text \<open>The peer to defer to, from the text of the pidfile and the liveness probe of the pid in it.\<close>

definition checkFreshStartupRace :: "os_view \<Rightarrow> (nat \<Rightarrow> signal_outcome) \<Rightarrow> string option \<Rightarrow> nat option" where
  "checkFreshStartupRace v probe content =
     (case Option.bind content readRecordedPid of
        None \<Rightarrow> None
      | Some recorded \<Rightarrow>
          if recorded = os_self v then None
          else if probe recorded \<noteq> SignalSent then None
          else if \<not> isLegitimateDashboardPid v recorded then None
          else if List.member (listPortHolders v) recorded then None
          else Some recorded)"

datatype start_answer = DefersTo nat | TakesOver "lock_act list"

definition startup_takeover :: "(nat \<Rightarrow> os_view) \<Rightarrow> (nat \<Rightarrow> signal_outcome) \<Rightarrow> string option \<Rightarrow> (nat \<Rightarrow> signal_outcome) \<Rightarrow> start_answer" where
  "startup_takeover view probe content still =
     (case checkFreshStartupRace (view 0) probe content of
        Some peer \<Rightarrow> DefersTo peer
      | None \<Rightarrow> TakesOver (acquirePortLock view still DEFAULT_GRACE_MS DEFAULT_POST_KILL_DRAIN_MS DEFAULT_POST_KILL_POLL_MS))"

section \<open>Exactly the earlier instances\<close>

text \<open>A node process of the same user, other than this one; with \<open>scope\<close>, not known to run in another directory.\<close>

definition own_node :: "os_view \<Rightarrow> bool \<Rightarrow> nat \<Rightarrow> bool" where
  "own_node v scope pid \<longleftrightarrow> pid \<noteq> 0 \<and> pid \<noteq> os_self v
     \<and> (\<exists>cmd. getProcessCommand v pid = Some cmd \<and> node_command cmd)
     \<and> (os_uid v = None \<or> getProcessUid v pid = os_uid v)
     \<and> (scope \<longrightarrow> os_real_root v = None \<or> getProcessCwd v pid = None \<or> getProcessCwd v pid = os_real_root v)"

lemma candidates_set: "set (own_node_candidates v scope seen pids) = {p \<in> set pids. p \<notin> set seen \<and> own_node v scope p}"
proof (induction pids arbitrary: seen)
  case (Cons pid pids)
  show ?case
  proof (cases "pid = 0 \<or> pid = os_self v \<or> List.member seen pid")
    case True
    then have "own_node_candidates v scope seen (pid # pids) = own_node_candidates v scope seen pids" by auto
    moreover have "pid \<in> set seen \<or> \<not> own_node v scope pid" using True by (auto simp: own_node_def List.member_iff)
    ultimately show ?thesis using Cons.IH [of seen] by auto
  next
    case False
    define rest where "rest = own_node_candidates v scope (pid # seen) pids"
    have new: "pid \<notin> set seen" using False by (simp add: List.member_iff)
    have "own_node_candidates v scope seen (pid # pids) = (if own_node v scope pid then pid # rest else rest)"
      using False by (auto simp: own_node_def rest_def Let_def split: option.splits)
    then show ?thesis using Cons.IH [of "pid # seen"] new by (auto simp: rest_def)
  qed
qed simp

text \<open>The instances to terminate: of this installation, on the port or running the dashboard.\<close>

definition dashboard_row :: "os_view \<Rightarrow> nat \<Rightarrow> bool" where
  "dashboard_row v p \<longleftrightarrow> (\<exists>raw line rowUid argv. os_ps v = Some raw \<and> line \<in> set (split_on (char_of (10::nat)) raw)
     \<and> parse_row line = Some (p, rowUid, argv) \<and> (os_uid v = None \<or> os_uid v = Some rowUid)
     \<and> rx_full DASHBOARD_BINARY_PATTERN argv \<and> argvBelongsToThisInstall v argv p)"

definition earlier_instance :: "os_view \<Rightarrow> nat \<Rightarrow> bool" where
  "earlier_instance v p \<longleftrightarrow>
     p \<in> set (listPortHolders v) \<and> own_node v False p \<and> processBelongsToThisInstall v p \<or> own_node v True p \<and> dashboard_row v p"

lemma map_filter_set: "set (List.map_filter f xs) = {y. \<exists>x\<in>set xs. f x = Some y}"
  by (induction xs) (auto simp: List.map_filter_def split: option.splits)

lemma listed_matching:
  "p \<in> set (listOwnProcessesMatching v DASHBOARD_BINARY_PATTERN) \<longleftrightarrow> p \<noteq> 0 \<and> p \<noteq> os_self v \<and> dashboard_row v p"
proof (cases "os_ps v")
  case None
  then show ?thesis by (simp add: listOwnProcessesMatching_def dashboard_row_def)
next
  case (Some raw)
  have row: "own_row v rx (pid, rowUid, argv) = Some p \<longleftrightarrow> pid = p \<and> p \<noteq> 0 \<and> p \<noteq> os_self v \<and> (os_uid v = None \<or> os_uid v = Some rowUid)
      \<and> rx_full rx argv \<and> argvBelongsToThisInstall v argv p" for rx pid rowUid argv
    by (auto simp: own_row_def)
  show ?thesis
    unfolding listOwnProcessesMatching_def dashboard_row_def Some option.case map_filter_set mem_Collect_eq bind_eq_Some_conv
    using row by fastforce
qed

lemma victims_exact: "set (port_victims v) = {p. earlier_instance v p}"
proof -
  have "p \<in> set (findOwnBinaryMatches v DASHBOARD_BINARY_PATTERN) \<longleftrightarrow> own_node v True p \<and> dashboard_row v p" for p
    unfolding findOwnBinaryMatches_def filterOwnNodeCandidates_def candidates_set mem_Collect_eq listed_matching by (auto simp: own_node_def)
  moreover have "p \<in> set (findOwnNodeHolders v) \<longleftrightarrow> p \<in> set (listPortHolders v) \<and> own_node v False p \<and> processBelongsToThisInstall v p" for p
    by (auto simp: findOwnNodeHolders_def filterOwnNodeCandidates_def candidates_set)
  ultimately show ?thesis by (auto simp: earlier_instance_def port_victims_def)
qed

section \<open>The signals and the waits\<close>

fun slept :: "lock_act list \<Rightarrow> int" where
  "slept [] = 0"
| "slept (Sleeps n # as) = n + slept as"
| "slept (Sends p s # as) = slept as"

lemma slept_append [simp]: "slept (as @ bs) = slept as + slept bs"
  by (induction as rule: slept.induct) simp_all

lemma slept_signals: "\<forall>a\<in>set as. \<exists>p s. a = Sends p s \<Longrightarrow> slept as = 0"
  by (induction as) auto

lemma drain_slept: "0 < pollMs \<Longrightarrow> slept (drain_port busy drainMs pollMs j waited) \<le> (if waited < drainMs then drainMs - waited + pollMs else 0)"
proof (induction busy drainMs pollMs j waited rule: drain_port.induct)
  case (1 busy drainMs pollMs j waited)
  show ?case
  proof (cases "\<not> busy j \<or> waited \<ge> drainMs")
    case True
    then show ?thesis using 1(2) by (subst drain_port.simps) auto
  next
    case False
    then have "\<not> \<not> busy j" "\<not> (waited \<ge> drainMs \<or> pollMs \<le> 0)" using 1(2) by auto
    from 1(1) [OF this 1(2)] False 1(2) show ?thesis by (subst drain_port.simps) (auto split: if_splits)
  qed
qed

lemma drain_sends: "Sends p s \<notin> set (drain_port busy drainMs pollMs j waited)"
proof (induction busy drainMs pollMs j waited rule: drain_port.induct)
  case (1 busy drainMs pollMs j waited)
  then show ?case by (subst drain_port.simps) auto
qed

text \<open>
  C36: the takeover terminates exactly the earlier instances. Asked to stop are the node processes of the same user that
  hold the port and belong to this installation, or that run the dashboard's file from it; killed are those of them that the
  probe after the grace period does not find gone, and only after that period. Nobody else is signalled, and the
  start waits no longer than the grace period, the drain time and one poll.
\<close>

theorem takeover_exact:
  assumes "acts = acquirePortLock view still graceMs drainMs pollMs" and "0 \<le> graceMs"
  shows "(Sends p SIGTERM \<in> set acts \<longleftrightarrow> earlier_instance (view 0) p)
    \<and> (Sends p SIGKILL \<in> set acts \<longleftrightarrow> earlier_instance (view 0) p \<and> still p \<noteq> ProcessGone)
    \<and> (Sends p SIGKILL \<in> set acts \<longrightarrow> (\<exists>as bs. acts = as @ Sleeps graceMs # bs \<and> Sends p SIGTERM \<in> set as \<and> Sends p SIGKILL \<notin> set as))
    \<and> slept acts \<le> graceMs + max 0 drainMs + max 0 pollMs"
proof (cases "port_victims (view 0) = []")
  case True
  then have "\<not> earlier_instance (view 0) q" for q using victims_exact [of "view 0"] by auto
  then show ?thesis using True assms by (simp add: acquirePortLock_def)
next
  case False
  let ?ask = "map (\<lambda>p. Sends p SIGTERM) (port_victims (view 0))"
  let ?kill = "concat (map (\<lambda>p. if still p \<noteq> ProcessGone then [Sends p Signal0, Sends p SIGKILL] else [Sends p Signal0]) (port_victims (view 0)))"
  define drain where "drain = (if drainMs \<le> 0 \<or> pollMs \<le> 0 then []
    else drain_port (\<lambda>j. findOwnNodeHolders (view (j + 1)) \<noteq> []) drainMs pollMs 0 0)"
  have acts: "acts = ?ask @ Sleeps graceMs # ?kill @ drain"
    using False unfolding assms(1) acquirePortLock_def terminateProcesses_def drain_def Let_def by simp
  have v: "q \<in> set (port_victims (view 0)) \<longleftrightarrow> earlier_instance (view 0) q" for q using victims_exact [of "view 0"] by simp
  have d: "Sends q s \<notin> set drain" for q s using drain_sends by (simp add: drain_def)
  have "Sends p SIGTERM \<in> set acts \<longleftrightarrow> earlier_instance (view 0) p" using d by (auto simp: acts v split: if_splits)
  moreover have kill: "Sends p SIGKILL \<in> set acts \<longleftrightarrow> earlier_instance (view 0) p \<and> still p \<noteq> ProcessGone"
    using d by (auto simp: acts v split: if_splits)
  moreover have "\<exists>as bs. acts = as @ Sleeps graceMs # bs \<and> Sends p SIGTERM \<in> set as \<and> Sends p SIGKILL \<notin> set as" if "Sends p SIGKILL \<in> set acts"
    using that kill v by (intro exI [of _ ?ask] exI [of _ "?kill @ drain"]) (auto simp: acts)
  moreover have "slept acts \<le> graceMs + max 0 drainMs + max 0 pollMs"
  proof -
    have "slept ?ask = 0" "slept ?kill = 0" by (rule slept_signals, auto split: if_splits)+
    moreover have "slept drain \<le> max 0 drainMs + max 0 pollMs"
      using drain_slept [of pollMs "\<lambda>j. findOwnNodeHolders (view (j + 1)) \<noteq> []" drainMs 0 0] by (auto simp: drain_def split: if_splits)
    ultimately show ?thesis by (simp add: acts)
  qed
  ultimately show ?thesis by blast
qed

definition twin_view :: "nat \<Rightarrow> os_view" where
  "twin_view self = \<lparr>os_self = self, os_uid = Some 7, os_project = ''/m'', os_real_root = Some ''/m'', os_lsof = None,
     os_ps = Some (''100 7 node dist/index.js'' @ [char_of (10::nat)] @ ''200 7 node dist/index.js''), os_comm = (\<lambda>_. Some ''node''),
     os_owner = (\<lambda>_. Some ''7''), os_args = (\<lambda>_. Some ''node dist/index.js''), os_cwd = (\<lambda>_. Some ''/m''), os_real = (\<lambda>_. None)\<rparr>"

lemma twins: "port_victims (twin_view 100) = [200]" "port_victims (twin_view 200) = [100]"
  by code_simp+

text \<open>
  two fresh starts stop each other. The check for a peer that is still starting reads the pidfile, which a start writes only
  after its takeover; so when two dashboards start with no pidfile there, each finds the other in the list of
  processes, does not defer, and asks it to stop.
\<close>

theorem fresh_starts_stop_each_other:
  "\<exists>as bs. startup_takeover (\<lambda>_. twin_view 100) probe None still = TakesOver as \<and> Sends 200 SIGTERM \<in> set as
     \<and> startup_takeover (\<lambda>_. twin_view 200) probe None still = TakesOver bs \<and> Sends 100 SIGTERM \<in> set bs"
  by (simp add: startup_takeover_def checkFreshStartupRace_def acquirePortLock_def terminateProcesses_def twins)

theorem takeover_exact_witness:
  "Sends 200 SIGTERM \<in> set (acquirePortLock (\<lambda>_. twin_view 100) (\<lambda>_. ProcessGone) 1500 2000 100)
   \<and> Sends 200 SIGKILL \<notin> set (acquirePortLock (\<lambda>_. twin_view 100) (\<lambda>_. ProcessGone) 1500 2000 100)
   \<and> slept (acquirePortLock (\<lambda>_. twin_view 100) (\<lambda>_. ProcessGone) 1500 2000 100) \<le> 3600"
proof -
  have "earlier_instance (twin_view 100) 200" using victims_exact [of "twin_view 100"] twins by auto
  with takeover_exact [OF refl, of 1500 200 "\<lambda>_. twin_view 100" "\<lambda>_. ProcessGone" 2000 100] show ?thesis by simp
qed

end
