(* ===== verification/Spec2Isabelle.thy ===== *)
theory Spec2Isabelle
  imports
    RequestGate RbacMode AuthSessions DeviceKeys LoginThrottle
    ContextGuard RestartGate ModelFallback QuotaGate AgentWatchdog ProcTree Scheduler
    ApprovalFlow SendLock TxFacade MessageRouter Blackboard MessageHygiene MessageRoutes PortTakeover
begin

text \<open>
  Marveen runs a fleet of command-line agents in terminal sessions: a dashboard server answers HTTP
  requests of people, agents and other installations, a scheduler types tasks into the sessions, and
  several watchers restart, clear or re-model a session that is saturated, dead or out of quota. This
  library models the decisions that server takes, from the TypeScript under \<open>src/src/\<close>: who may call
  what, how long a credential lives, when a session is touched, and what becomes of a scheduled task.

  \<^bold>\<open>The request path\<close> (\<open>web.ts\<close>, \<open>web/auth-gate.ts\<close>, \<open>web/authz.ts\<close>, \<open>web/rbac.ts\<close>).

  \<^item> \<open>Rbac\<close> holds the roles, the permissions and the endpoint tables row by row, in the order of the
    source; the regular-expression rows use the matcher of \<open>Regex\<close>, whose lemmas relate it to the
    language of the expression. \<open>Authz\<close> adds the role of an identity, the permission check and the
    shadow/enforce gate; its locale \<open>permission_policy\<close> says what a policy promises (the permission of a
    request is a function of method and path, and a missing row needs the administrator) and is
    interpreted on the tables of \<open>Rbac\<close>.
  \<^item> \<open>AuthGate\<close> models the credential lanes of \<open>resolveAuth\<close>, \<open>Csrf\<close> the host and origin checks,
    \<open>RequestGate\<close> the whole \<open>handleRequest\<close> from the raw request to a refusal or the dispatcher, with the
    decision log. The properties of this part follow a request through all of them: which identity a
    bearer, a cookie or a device key gives, that revoked or rotated credentials give none, what each role
    may reach, and that what is logged is what happened.
  \<^item> \<open>RbacMode\<close> is the live mode: overlapping asynchronous refreshes with tickets as the step relation
    \<open>mode_step\<close>, and an invariant of its reachable states.

  \<^bold>\<open>Credentials\<close> (\<open>web/auth-sessions.ts\<close>, \<open>web/auth-device-keys.ts\<close>, \<open>web/login-throttle.ts\<close>). A table
  read is awaited, so calls interleave. \<open>AuthSessions\<close> and \<open>DeviceKeys\<close> model table, cache, revocation
  counter and the calls in flight as a store, each segment between two awaits as one step. Both interpret
  the locale \<open>guarded_cache\<close> of \<open>GuardedCache\<close> (where a cache entry can come from), whose lemma gives the
  finality of a revocation in every interleaving. \<open>LoginThrottle\<close> gives the exact condition of a refusal.

  \<^bold>\<open>Approvals\<close> (\<open>db/vault.ts\<close>, \<open>web/routes/approvals.ts\<close>, \<open>web/routes/approvals-consume.ts\<close>). An agent
  asks before it acts, a person or the main agent decides, and the send gate uses the decision up once.

  \<^item> \<open>SqlTable\<close> has guarded updates and the newest matching row, as SQL gives them; its locale
    \<open>guarded_update\<close> says what a write guarded by its own \<open>WHERE\<close> promises (keys stay, of two equal writes
    the second finds nothing) and is interpreted on the writes of \<open>ApprovalStore\<close>: the table, its
    journal and every operation on them, as the step relation \<open>approval_step\<close>, and the upkeep that prunes the journal or
    deletes a tenant's rows as \<open>upkeep_step\<close>. The abstract specification is the ticket and its life; the store refines it,
    spends it once, and refuses for the true reason.
  \<^item> \<open>EmailEnvelope\<close> (\<open>web/email-envelope.ts\<close>) is the mail an approval is bound to: the check, the
    canonical text on top of \<open>JsonText\<close> (\<open>JSON.stringify\<close>, with the fact that a member ends where its
    text does) and the description a person reads, with \<open>InvisibleText\<close>.
  \<^item> \<open>ApprovalRules\<close> has deadlines, category names and who may act as whom; \<open>ApprovalRoutes\<close> the
    handlers; \<open>ApprovalFlow\<close> shows that every call is a run of storage operations, so the facts about the
    store hold of the service, and follows a mail from the request through the decision to the signed answer.

  \<^bold>\<open>Agent messages\<close> (\<open>db/agents.ts\<close>, \<open>web/message-router.ts\<close> and what they call). Agents write to each other
  through one table; a router types waiting messages into sessions, the main agent claims its own.

  \<^item> \<open>TagScrub\<close> (\<open>prompt-safety.ts\<close>) removes framing tags from a text in one pass; its locale \<open>tag_matcher\<close> says
    what a matcher of openers promises and is interpreted on both. \<open>Addressing\<close> and \<open>TeamTrust\<close> have the
    ids and the trust between agents, \<open>MessageFrame\<close> the frames a message is shown in
    (\<open>web/agent-message-wrap.ts\<close>), with the fact that there is exactly one. \<open>ServerMarkers\<close> is the filter of
    \<open>server-markers.ts\<close>.
  \<^item> \<open>MessageStore\<close> has every statement on the table as an operation; runs of operations keep the rows typed,
    the letters unchanged, the closes final and the claims disjoint. \<open>guarded_update\<close> is interpreted on the
    executor's close.
  \<^item> \<open>SenderRouting\<close> (\<open>web/sender-routing.ts\<close>, \<open>web/sender-routing-wire.ts\<close>) is the rule who may address whom and
    the gate that applies it, whose closing statement may fail; \<open>DeliveryIntent\<close> the registry of deliveries. \<open>MessageRouter\<close> is one tick; it is
    shown to be a run of operations of the table that names the rows it touches (\<open>tick_runs\<close>), from which
    the properties of what it delivers, keeps, fails and reports follow.

  \<^item> \<open>Blackboard\<close> (\<open>web/routes/blackboard.ts\<close>, \<open>web/blackboard-stale-sweeper.ts\<close>) is the one row per agent that says
    what it works on, with its history and the plan bindings. Posts are single steps, a patch and a sweep are jobs that take
    their statements one at a time among everybody else's: the newest history entry is the row as long as nobody touches a
    row another is at work on, and runs show what happens otherwise; a sweep nobody interrupts marks exactly the rows that
    are due; no tenant writes another's row.

  \<^item> \<open>MessageHygiene\<close> is what happens to a text before it is stored: card references
    (\<open>web/kanban-ref-normalize.ts\<close>) and the scrub of personal data (\<open>scrubPiiFromContent\<close>), over a backtracking
    matcher whose replacement is shown to leave no e-mail address. \<open>MessageRoutes\<close> (\<open>web/routes/messages.ts\<close>, the
    drain of \<open>web/routes/agents-process.ts\<close>) joins the parts: who may post under which name, how an outcome is
    written and reported, and that what the main agent draws is shown or closed.

  \<^bold>\<open>Locks\<close> (\<open>db/tx-lock.ts\<close>, \<open>db/facade.ts\<close>, \<open>web/session-send-lock.ts\<close>). \<open>FifoLock\<close> is the first-in-first-out
  mutex; its locale \<open>lock_user\<close> is the contract of a component that uses a family of such locks only by the
  moves of a lock, and gives one owner, no leak and no overtaking in every reachable state. It is interpreted on
  \<open>SendLock\<close> (one lane per terminal pane, with waiters that give up) and on \<open>TxFacade\<close> (the lock of the
  connection and one per open scope), where it yields that the commands sent to the database form a serial
  history as long as every undoing of a scope is carried out; runs show why nested transactions have to be awaited and what a
  \<open>ROLLBACK\<close> that fails leaves behind.

  \<^bold>\<open>Process lock\<close> (\<open>process-lock.ts\<close>, its wiring in \<open>index.ts\<close>). \<open>PidfileLock\<close> lets any number of dashboards run
  the acquisition loop on one file, one system call of \<open>index.ts\<close> at a time. A holder whose pid is in the file keeps the lock
  whatever the others do, as long as the process listing works; before that, or when it fails, two can hold the lock, and runs
  show how. A leftover file is taken over unless its text reads as zero or infinity, and the loop ends. \<open>PortTakeover\<close> says which earlier instances are terminated first.

  \<^bold>\<open>Session care\<close>. Each theory has the settings with their normaliser, the decision, and the sweep that
  calls it and keeps its state; the properties speak of runs of sweeps.

  \<^item> \<open>AutoRestart\<close>: \<open>auto-restart.ts\<close>, \<open>web/auto-restart-runner.ts\<close>. \<open>ContextGuard\<close>:
    \<open>context-guard.ts\<close>. Both interpret the locale \<open>json_config\<close> of \<open>JsonConfig\<close> on their settings:
    whatever JSON is stored, what is read is well formed, and it survives being written and read back.
  \<^item> \<open>RestartGate\<close>: \<open>context-restart-gate.ts\<close> and the sweep of its runner; \<open>PaneState\<close> names the states
    of a pane; \<open>ProcTree\<close>: the process-table probes of the gate and of the channel plugins
    (\<open>channel-coordinator/liveness.ts\<close>), with the bound on the turns of its walk.
  \<^item> \<open>ModelFallback\<close>: \<open>model-fallback.ts\<close> with its runner. \<open>QuotaGate\<close>: \<open>quota-gate.ts\<close>.
  \<^item> \<open>AgentWatchdog\<close>: \<open>web/agent-restart-policy.ts\<close> and the sub-agent branch of the plugin monitor in
    \<open>web/channel-monitor.ts\<close>.

  \<^bold>\<open>Scheduling\<close>. \<open>RetryQueue\<close> is the table of queued retries (\<open>pending-retries.ts\<close>, \<open>db/tasks.ts\<close>);
  \<open>Scheduler\<close> is one tick of \<open>web/schedule-runner.ts\<close>: the sweep over tracked injections, the retry pass,
  the cron pass (which asks the quota gate) and the window it leaves to the next tick. The properties state
  the life of a retry row, what an occurrence leaves behind, the partition of time into scan windows and
  what happens to a lost injection.

  \<^bold>\<open>Conventions\<close> (\<open>JsBase\<close>). A finite number is an exact rational, so floating-point rounding is outside the
  model; input that may be \<open>NaN\<close> or infinite is a \<open>jsnum\<close>. A string is a list of characters, which covers
  Latin-1. An answer with a reason text is a value of a datatype with one constructor per text. Arguments of
  a definition, or the fields of a tick record, are what the code asks of others: the clock, \<open>tmux\<close>,
  \<open>ps\<close>, the cron and URL parsers, hashes, and tables outside the component. Database writes succeed unless a
  definition says otherwise. Every definition is total; no fuel is used: the loops over data are
  structural, the search of the process tree (\<open>tree_search\<close>) ends because each pid is expanded once, the walk
  over \<open>ps\<close> output is a \<open>while_option\<close> with a proved bound, and an unending service is a step relation or a list of sweeps.

  \<^bold>\<open>Not modelled\<close>: the handlers behind the dispatcher and the database layer (SQL and file I/O), everything
  that drives \<open>tmux\<close>, \<open>ssh\<close> or a network client (agent processes, channels, federation, telemetry), text
  generation (scaffolding, skills), search and embeddings, the vault's cryptography, and the detectors
  that read terminal text. Left for later are the plan rotation, the re-login healer, the schedule
  review gate and the runner of the context guard.
\<close>

end
